(* ===== verification/Prelude.thy ===== *)
theory Prelude
  imports Main "HOL-Library.Word" "HOL-Library.Product_Lexorder"
begin

text \<open>
  What every component of the model shares: the result type of the Rust code (\<open>claudear_core::error::Error\<close>),
  UTF-8 text with the operations of \<open>str\<close> the sources use (prefixes, splitting, trimming, ASCII case,
  decimal numbers), the JSON values stored in event details, instants, and generic lemmas on lists.
\<close>

section \<open>Errors and results\<close>

text \<open>
  \<open>crates/claudear-core/src/error.rs\<close>. A failure of the database library (\<open>From<rusqlite::Error>\<close>) keeps its
  cause instead of the library's message; the errors of the other libraries keep their message.
\<close>

datatype db_failure =
    Foreign_key_failed
  | Unique_failed
  | Conversion_failed nat string
  | Integral_out_of_range nat
  | Query_returned_no_rows

datatype error =
    Config string
  | Database db_failure
  | Http string
  | Json_error string
  | Io string
  | Source_error string string
  | Webhook string
  | Runner string
  | Notifier string string
  | Forbidden string string
  | Issue_not_found string string
  | Invalid_signature
  | Network string
  | Api string
  | Storage string
  | Git string
  | Other string

text \<open>The \<open>Display\<close> of an error, given the messages of the database library.\<close>

fun error_text :: "(db_failure \<Rightarrow> string) \<Rightarrow> error \<Rightarrow> string" where
  "error_text db (Config m) = ''Configuration error: '' @ m"
| "error_text db (Database failure) = ''Database error: '' @ db failure"
| "error_text db (Http m) = ''HTTP request error: '' @ m"
| "error_text db (Json_error m) = ''JSON serialization error: '' @ m"
| "error_text db (Io m) = ''IO error: '' @ m"
| "error_text db (Source_error name m) = ''Source error ('' @ name @ ''): '' @ m"
| "error_text db (Webhook m) = ''Webhook error: '' @ m"
| "error_text db (Runner m) = ''Claude runner error: '' @ m"
| "error_text db (Notifier name m) = ''Notifier error ('' @ name @ ''): '' @ m"
| "error_text db (Forbidden service m) = ''Access denied ('' @ service @ ''): '' @ m"
| "error_text db (Issue_not_found name i) = ''Issue not found: '' @ name @ '':'' @ i"
| "error_text db Invalid_signature = ''Invalid signature''"
| "error_text db (Network m) = ''Network error: '' @ m"
| "error_text db (Api m) = ''API error: '' @ m"
| "error_text db (Storage m) = ''Storage error: '' @ m"
| "error_text db (Git m) = ''Git error: '' @ m"
| "error_text db (Other m) = m"

type_synonym 'a result = "error + 'a"

fun rbind :: "'a result \<Rightarrow> ('a \<Rightarrow> 'b result) \<Rightarrow> 'b result" where
  "rbind (Inl e) f = Inl e"
| "rbind (Inr x) f = f x"

fun rmap :: "('a \<Rightarrow> 'b) \<Rightarrow> 'a result \<Rightarrow> 'b result" where
  "rmap f (Inl e) = Inl e"
| "rmap f (Inr x) = Inr (f x)"

fun collect_results :: "'a result list \<Rightarrow> 'a list result" where
  "collect_results [] = Inr []"
| "collect_results (r # rs) = rbind r (\<lambda>x. rmap (\<lambda>xs. x # xs) (collect_results rs))"

fun map_or_conversion :: "('b \<Rightarrow> 'a result) \<Rightarrow> 'b option \<Rightarrow> 'a option result" where
  "map_or_conversion f None = Inr None"
| "map_or_conversion f (Some x) = rmap Some (f x)"

lemma rbind_Inr [simp]: "rbind r f = Inr y \<longleftrightarrow> (\<exists>x. r = Inr x \<and> f x = Inr y)"
  by (cases r) auto

lemma rmap_Inr [simp]: "rmap f r = Inr y \<longleftrightarrow> (\<exists>x. r = Inr x \<and> y = f x)"
  by (cases r) auto

lemma map_or_conversion_Inr:
  "map_or_conversion f v = Inr y \<longleftrightarrow>
     (case v of None \<Rightarrow> y = None | Some x \<Rightarrow> (\<exists>z. f x = Inr z \<and> y = Some z))"
  by (cases v) auto

lemma collect_results_all_Inr:
  "(\<And>x. x \<in> set xs \<Longrightarrow> f x = Inr (g x)) \<Longrightarrow> collect_results (map f xs) = Inr (map g xs)"
  by (induction xs) auto

lemma collect_results_ex:
  "(\<And>x. x \<in> set xs \<Longrightarrow> \<exists>y. f x = Inr y) \<Longrightarrow> \<exists>ys. collect_results (map f xs) = Inr ys"
proof (induction xs)
  case (Cons x xs)
  then obtain y ys where "f x = Inr y" "collect_results (map f xs) = Inr ys" by fastforce
  then show ?case by simp
qed simp

section \<open>Operations on a store\<close>

text \<open>
  A method that may fail takes the store and returns its result with the store it leaves. A SQLite
  transaction that is dropped before its commit leaves the store as it was.
\<close>

type_synonym ('st, 'a) op = "'st \<Rightarrow> 'a result \<times> 'st"

definition transaction :: "('st \<Rightarrow> ('a \<times> 'st) result) \<Rightarrow> ('st, 'a) op" where
  "transaction body s = (case body s of Inl e \<Rightarrow> (Inl e, s) | Inr (a, s') \<Rightarrow> (Inr a, s'))"

definition ret :: "'a \<Rightarrow> ('st, 'a) op" where
  "ret a s = (Inr a, s)"

definition fail :: "error \<Rightarrow> ('st, 'a) op" where
  "fail e s = (Inl e, s)"

definition bind_op :: "('st, 'a) op \<Rightarrow> ('a \<Rightarrow> ('st, 'b) op) \<Rightarrow> ('st, 'b) op" where
  "bind_op m f s = (case m s of (Inl e, s') \<Rightarrow> (Inl e, s') | (Inr a, s') \<Rightarrow> f a s')"

definition read_op :: "('st \<Rightarrow> 'a result) \<Rightarrow> ('st, 'a) op" where
  "read_op q s = (q s, s)"

text \<open>A result that was there already, with \<open>?\<close>.\<close>

definition of_result :: "'a result \<Rightarrow> ('st, 'a) op" where
  "of_result r s = (r, s)"

text \<open>\<open>match\<close> on a result instead of \<open>?\<close>.\<close>

definition catch_op :: "('st, 'a) op \<Rightarrow> ('st, 'a result) op" where
  "catch_op m s = (case m s of (r, s') \<Rightarrow> (Inr r, s'))"

text \<open>\<open>for x in xs { .. ? }\<close>.\<close>

fun for_each :: "('a \<Rightarrow> ('st, unit) op) \<Rightarrow> 'a list \<Rightarrow> ('st, unit) op" where
  "for_each f [] = ret ()"
| "for_each f (x # xs) = bind_op (f x) (\<lambda>_. for_each f xs)"

lemma transaction_Inr:
  "transaction body s = (Inr a, s') \<longleftrightarrow> body s = Inr (a, s')"
  by (auto simp: transaction_def split: sum.splits prod.splits)

lemma transaction_Inl:
  "transaction body s = (Inl e, s') \<longleftrightarrow> body s = Inl e \<and> s' = s"
  by (auto simp: transaction_def split: sum.splits prod.splits)

lemma snd_transaction:
  "snd (transaction body s) = (case body s of Inl e \<Rightarrow> s | Inr (a, s') \<Rightarrow> s')"
  by (auto simp: transaction_def split: sum.splits prod.splits)

text \<open>
  The rule every invariant of a store is proved with: what holds before, and after every committed
  body, holds after the transaction.
\<close>

lemma transaction_preserves:
  assumes "P s" and "\<And>a s'. body s = Inr (a, s') \<Longrightarrow> P s'"
  shows "P (snd (transaction body s))"
  using assms by (auto simp: snd_transaction split: sum.splits prod.splits)

lemma bind_op_preserves:
  assumes "R s (snd (m s))"
    and "\<And>a s'. m s = (Inr a, s') \<Longrightarrow> R s' (snd (f a s'))"
    and "\<And>x y z. R x y \<Longrightarrow> R y z \<Longrightarrow> R x z"
  shows "R s (snd (bind_op m f s))"
  using assms by (auto simp: bind_op_def split: sum.splits prod.splits)

section \<open>Instants\<close>

text \<open>
  A \<open>DateTime<Utc>\<close> is its nanosecond since the epoch. A timestamp column written by
  \<open>to_rfc3339_opts(Secs, true)\<close> is the whole second it names: the fixed-width UTC texts order as the
  seconds they name.
\<close>

type_synonym datetime = int
type_synonym stamp = int

abbreviation nanos_per_second :: int where
  "nanos_per_second \<equiv> 1000000000"

definition timestamp :: "datetime \<Rightarrow> stamp" where
  "timestamp t = t div nanos_per_second"

definition parse_datetime :: "stamp \<Rightarrow> datetime" where
  "parse_datetime s = s * nanos_per_second"

lemma timestamp_parse [simp]: "timestamp (parse_datetime s) = s"
  by (simp add: timestamp_def parse_datetime_def)

lemma parse_timestamp_le: "parse_datetime (timestamp t) \<le> t"
  unfolding timestamp_def parse_datetime_def
  by (metis div_mult_mod_eq le_add_same_cancel1 pos_mod_sign zero_less_numeral)

lemma timestamp_mono: "t \<le> u \<Longrightarrow> timestamp t \<le> timestamp u"
  by (simp add: timestamp_def zdiv_mono1)

section \<open>JSON values\<close>

datatype json =
    JNull
  | JBool bool
  | JInt int
  | JReal "64 word"
  | JStr string
  | JArr "json list"
  | JObj "(string \<times> json) list"

fun json_get :: "string \<Rightarrow> json \<Rightarrow> json option" where
  "json_get k (JObj kvs) = map_of kvs k"
| "json_get k _ = None"

fun json_as_str :: "json \<Rightarrow> string option" where
  "json_as_str (JStr s) = Some s"
| "json_as_str _ = None"

fun json_set :: "string \<Rightarrow> json \<Rightarrow> json \<Rightarrow> json" where
  "json_set k v (JObj kvs) =
     (if k \<in> fst ` set kvs then JObj (map (\<lambda>(k', w). if k' = k then (k', v) else (k', w)) kvs)
      else JObj (kvs @ [(k, v)]))"
| "json_set k v j = j"

definition json_opt :: "('a \<Rightarrow> json) \<Rightarrow> 'a option \<Rightarrow> json" where
  "json_opt f v = (case v of None \<Rightarrow> JNull | Some x \<Rightarrow> f x)"

end
