(* ===== verification/Tables.thy ===== *)
theory Tables
  imports Prelude
begin

text \<open>
  Tables as the list of their rows in rowid order, and the SQL the stores run on them: \<open>UPDATE .. WHERE\<close>
  with its row count, \<open>ORDER BY\<close>, \<open>LIMIT .. OFFSET\<close>, and the key columns (\<open>INTEGER PRIMARY KEY
  AUTOINCREMENT\<close>). A query without \<open>ORDER BY\<close>, and rows an \<open>ORDER BY\<close> leaves tied, come in rowid order.
\<close>

section \<open>Updates\<close>

definition update_where :: "('r \<Rightarrow> bool) \<Rightarrow> ('r \<Rightarrow> 'r) \<Rightarrow> 'r list \<Rightarrow> 'r list" where
  "update_where p f rows = map (\<lambda>r. if p r then f r else r) rows"

definition rows_affected :: "('r \<Rightarrow> bool) \<Rightarrow> 'r list \<Rightarrow> nat" where
  "rows_affected p rows = length (filter p rows)"

lemma update_where_Nil [simp]: "update_where p f [] = []"
  by (simp add: update_where_def)

lemma length_update_where [simp]: "length (update_where p f rows) = length rows"
  by (simp add: update_where_def)

lemma update_where_append [simp]:
  "update_where p f (rows @ more) = update_where p f rows @ update_where p f more"
  by (simp add: update_where_def)

lemma in_update_where:
  "r \<in> set (update_where p f rows) \<longleftrightarrow>
     (\<exists>r0 \<in> set rows. r = (if p r0 then f r0 else r0))"
  by (auto simp: update_where_def)

lemma map_update_where:
  "(\<And>r. p r \<Longrightarrow> k (f r) = k r) \<Longrightarrow> map k (update_where p f rows) = map k rows"
  by (simp add: update_where_def)

lemma update_where_id: "(\<And>r. r \<in> set rows \<Longrightarrow> \<not> p r) \<Longrightarrow> update_where p f rows = rows"
  by (induction rows) (auto simp: update_where_def)

lemma rows_affected_0: "rows_affected p rows = 0 \<longleftrightarrow> (\<forall>r \<in> set rows. \<not> p r)"
  by (simp add: rows_affected_def filter_empty_conv)

lemma rows_affected_pos: "0 < rows_affected p rows \<longleftrightarrow> (\<exists>r \<in> set rows. p r)"
  using rows_affected_0 [of p rows] by auto

lemma filter_update_where:
  "(\<And>r. p r \<Longrightarrow> q (f r) = q r) \<Longrightarrow>
     filter q (update_where p f rows) = update_where p f (filter q rows)"
  by (induction rows) (auto simp: update_where_def)

lemma list_all_update_where:
  "list_all P rows \<Longrightarrow> (\<And>r. r \<in> set rows \<Longrightarrow> P r \<Longrightarrow> p r \<Longrightarrow> P (f r)) \<Longrightarrow>
     list_all P (update_where p f rows)"
  by (auto simp: list_all_iff in_update_where)

section \<open>Keys\<close>

text \<open>Rows whose key is below the next one of the sequence, each key once.\<close>

definition keys_below :: "('r \<Rightarrow> int) \<Rightarrow> int \<Rightarrow> 'r list \<Rightarrow> bool" where
  "keys_below key next rows \<longleftrightarrow> distinct (map key rows) \<and> (\<forall>r \<in> set rows. 0 < key r \<and> key r < next)"

lemma keys_below_Nil [simp]: "keys_below key next []"
  by (simp add: keys_below_def)

lemma keys_below_insert:
  "keys_below key next rows \<Longrightarrow> 0 < next \<Longrightarrow> key r = next \<Longrightarrow> keys_below key (next + 1) (rows @ [r])"
  unfolding keys_below_def by force

lemma keys_below_update:
  "keys_below key next rows \<Longrightarrow> (\<And>r. p r \<Longrightarrow> key (f r) = key r) \<Longrightarrow>
     keys_below key next (update_where p f rows)"
  unfolding keys_below_def by (auto simp: map_update_where in_update_where)

lemma keys_below_unique:
  "keys_below key next rows \<Longrightarrow> r \<in> set rows \<Longrightarrow> r' \<in> set rows \<Longrightarrow> key r = key r' \<Longrightarrow> r = r'"
  by (auto simp: keys_below_def distinct_map inj_on_def)

definition find_by :: "('r \<Rightarrow> bool) \<Rightarrow> 'r list \<Rightarrow> 'r option" where
  "find_by p rows = find p rows"

lemma find_by_Some: "find_by p rows = Some r \<Longrightarrow> r \<in> set rows \<and> p r"
  by (auto simp: find_by_def find_Some_iff)

lemma find_by_None: "find_by p rows = None \<longleftrightarrow> (\<forall>r \<in> set rows. \<not> p r)"
  by (auto simp: find_by_def find_None_iff)

lemma find_by_Nil [simp]: "find_by p [] = None"
  by (simp add: find_by_def)

lemma find_by_unique:
  "r \<in> set rows \<Longrightarrow> p r \<Longrightarrow> (\<And>r'. r' \<in> set rows \<Longrightarrow> p r' \<Longrightarrow> r' = r) \<Longrightarrow> find_by p rows = Some r"
  using find_by_None find_by_Some by (metis not_None_eq)

lemma find_by_key:
  "keys_below key next rows \<Longrightarrow> r \<in> set rows \<Longrightarrow> find_by (\<lambda>x. key x = key r) rows = Some r"
  by (rule find_by_unique) (auto dest: keys_below_unique)

lemma find_by_append:
  "find_by p (rows @ more) = (case find_by p rows of None \<Rightarrow> find_by p more | Some r \<Rightarrow> Some r)"
  by (induction rows) (simp_all add: find_by_def)

lemma find_by_update_where:
  "(\<And>r. q r \<Longrightarrow> p (f r) = p r) \<Longrightarrow>
     find_by p (update_where q f rows) = map_option (\<lambda>r. if q r then f r else r) (find_by p rows)"
  by (induction rows) (auto simp: find_by_def update_where_def)

section \<open>Order and paging\<close>

definition order_asc :: "('r \<Rightarrow> 'k::linorder) \<Rightarrow> 'r list \<Rightarrow> 'r list" where
  "order_asc key rows = sort_key key rows"

definition order_desc :: "('r \<Rightarrow> int) \<Rightarrow> 'r list \<Rightarrow> 'r list" where
  "order_desc key rows = sort_key (\<lambda>r. - key r) rows"

lemma set_order_asc [simp]: "set (order_asc key rows) = set rows"
  by (simp add: order_asc_def)

lemma set_order_desc [simp]: "set (order_desc key rows) = set rows"
  by (simp add: order_desc_def)

lemma sorted_order_asc: "sorted (map key (order_asc key rows))"
  by (simp add: order_asc_def)

text \<open>A negative \<open>LIMIT\<close> is no limit; a \<open>usize\<close> is bound as the \<open>i64\<close> of the same 64 bits.\<close>

definition usize_as_i64 :: "64 word \<Rightarrow> int" where
  "usize_as_i64 n = sint n"

definition sql_limit :: "int \<Rightarrow> 'r list \<Rightarrow> 'r list" where
  "sql_limit n rows = (if n < 0 then rows else take (nat n) rows)"

definition sql_offset :: "int \<Rightarrow> 'r list \<Rightarrow> 'r list" where
  "sql_offset n rows = (if n < 0 then rows else drop (nat n) rows)"

lemma set_sql_limit: "set (sql_limit n rows) \<subseteq> set rows"
  by (auto simp: sql_limit_def dest: in_set_takeD)

lemma set_sql_offset: "set (sql_offset n rows) \<subseteq> set rows"
  by (auto simp: sql_offset_def dest: in_set_dropD)

section \<open>Unsigned columns\<close>

type_synonym u32 = "32 word"
type_synonym u64 = "64 word"

text \<open>Reading an \<open>INTEGER\<close> column as a \<open>u32\<close> fails outside its range.\<close>

definition read_u32 :: "nat \<Rightarrow> int \<Rightarrow> u32 result" where
  "read_u32 index i =
     (if 0 \<le> i \<and> i < 2 ^ 32 then Inr (word_of_int i) else Inl (Database (Integral_out_of_range index)))"

lemma read_u32_uint [simp]: "read_u32 index (uint w) = Inr w"
  using uint_lt2p [of w] by (simp add: read_u32_def)

lemma read_u32_Inr: "read_u32 index i = Inr w \<longleftrightarrow> i = uint w"
  using uint_lt2p [of w]
  by (auto simp: read_u32_def uint_word_of_int_eq take_bit_int_eq_self)

lemma read_u32_range: "(\<exists>w. read_u32 index i = Inr w) \<longleftrightarrow> 0 \<le> i \<and> i < 2 ^ 32"
  by (simp add: read_u32_def)

end
