(* ===== verification/Text_Ops.thy ===== *)
theory Text_Ops
  imports Prelude
begin

text \<open>
  Rust's \<open>str\<close> as the list of its UTF-8 bytes, and the operations of it that the modelled sources use.
  \<open>len\<close> counts bytes, \<open>chars().count()\<close> counts the bytes that do not continue a sequence, \<open>trim\<close> removes
  every Unicode \<open>White_Space\<close> character (whose encodings \<open>whitespace_encodings\<close> lists).
\<close>

section \<open>Bytes\<close>

definition byte :: "char \<Rightarrow> nat" where
  "byte c = of_char c"

definition is_digit :: "char \<Rightarrow> bool" where
  "is_digit c \<longleftrightarrow> 48 \<le> byte c \<and> byte c \<le> 57"

definition is_ascii_upper :: "char \<Rightarrow> bool" where
  "is_ascii_upper c \<longleftrightarrow> 65 \<le> byte c \<and> byte c \<le> 90"

definition is_ascii_lower :: "char \<Rightarrow> bool" where
  "is_ascii_lower c \<longleftrightarrow> 97 \<le> byte c \<and> byte c \<le> 122"

definition is_ascii_alphanumeric :: "char \<Rightarrow> bool" where
  "is_ascii_alphanumeric c \<longleftrightarrow> is_digit c \<or> is_ascii_upper c \<or> is_ascii_lower c"

definition to_ascii_lower :: "char \<Rightarrow> char" where
  "to_ascii_lower c = (if is_ascii_upper c then char_of (byte c + 32) else c)"

definition ascii_lowercase :: "string \<Rightarrow> string" where
  "ascii_lowercase s = map to_ascii_lower s"

definition eq_ignore_ascii_case :: "string \<Rightarrow> string \<Rightarrow> bool" where
  "eq_ignore_ascii_case a b \<longleftrightarrow> ascii_lowercase a = ascii_lowercase b"

definition continues_sequence :: "char \<Rightarrow> bool" where
  "continues_sequence c \<longleftrightarrow> 128 \<le> byte c \<and> byte c < 192"

definition chars_count :: "string \<Rightarrow> nat" where
  "chars_count s = length (filter (\<lambda>c. \<not> continues_sequence c) s)"

lemma eq_ignore_ascii_case_refl [simp]: "eq_ignore_ascii_case s s"
  by (simp add: eq_ignore_ascii_case_def)

lemma eq_ignore_ascii_case_sym: "eq_ignore_ascii_case a b \<Longrightarrow> eq_ignore_ascii_case b a"
  by (simp add: eq_ignore_ascii_case_def)

lemma eq_ignore_ascii_case_trans [trans]:
  "eq_ignore_ascii_case a b \<Longrightarrow> eq_ignore_ascii_case b c \<Longrightarrow> eq_ignore_ascii_case a c"
  by (simp add: eq_ignore_ascii_case_def)

lemma chars_count_le_length: "chars_count s \<le> length s"
  by (simp add: chars_count_def)

section \<open>Prefixes, suffixes and splitting\<close>

fun strip_prefix :: "string \<Rightarrow> string \<Rightarrow> string option" where
  "strip_prefix [] s = Some s"
| "strip_prefix (p # ps) [] = None"
| "strip_prefix (p # ps) (c # cs) = (if p = c then strip_prefix ps cs else None)"

definition starts_with :: "string \<Rightarrow> string \<Rightarrow> bool" where
  "starts_with s p \<longleftrightarrow> strip_prefix p s \<noteq> None"

definition ends_with :: "string \<Rightarrow> string \<Rightarrow> bool" where
  "ends_with s p \<longleftrightarrow> strip_prefix (rev p) (rev s) \<noteq> None"

fun contains_text :: "string \<Rightarrow> string \<Rightarrow> bool" where
  "contains_text [] p \<longleftrightarrow> p = []"
| "contains_text (c # cs) p \<longleftrightarrow> starts_with (c # cs) p \<or> contains_text cs p"

fun split_on :: "char \<Rightarrow> string \<Rightarrow> string list" where
  "split_on c [] = [[]]"
| "split_on c (x # xs) =
     (if x = c then [] # split_on c xs
      else (case split_on c xs of [] \<Rightarrow> [[x]] | w # ws \<Rightarrow> (x # w) # ws))"

fun join_with :: "string \<Rightarrow> string list \<Rightarrow> string" where
  "join_with sep [] = []"
| "join_with sep [w] = w"
| "join_with sep (w # v # ws) = w @ sep @ join_with sep (v # ws)"

lemma strip_prefix_Some: "strip_prefix p s = Some r \<longleftrightarrow> s = p @ r"
  by (induction p s rule: strip_prefix.induct) auto

lemma strip_prefix_append [simp]: "strip_prefix p (p @ r) = Some r"
  by (simp add: strip_prefix_Some)

lemma starts_with_iff: "starts_with s p \<longleftrightarrow> (\<exists>r. s = p @ r)"
  by (auto simp: starts_with_def strip_prefix_Some)

lemma ends_with_iff: "ends_with s p \<longleftrightarrow> (\<exists>r. s = r @ p)"
proof -
  have "ends_with s p \<longleftrightarrow> (\<exists>r. rev s = rev p @ r)"
    by (auto simp: ends_with_def strip_prefix_Some)
  also have "\<dots> \<longleftrightarrow> (\<exists>r. s = r @ p)"
    by (metis rev_append rev_rev_ident)
  finally show ?thesis .
qed

lemma split_on_not_Nil [simp]: "split_on c s \<noteq> []"
  by (induction s) (auto split: list.splits)

lemma split_on_free: "c \<notin> set s \<Longrightarrow> split_on c s = [s]"
  by (induction s) auto

lemma split_on_append: "c \<notin> set a \<Longrightarrow> split_on c (a @ c # b) = a # split_on c b"
  by (induction a) auto

lemma split_on_pieces_free: "w \<in> set (split_on c s) \<Longrightarrow> c \<notin> set w"
  by (induction s arbitrary: w) (auto split: list.splits if_splits)

lemma join_Cons_cons: "join_with sep ((x # w) # ws) = x # join_with sep (w # ws)"
  by (cases ws) auto

lemma join_split: "join_with [c] (split_on c s) = s"
proof (induction s)
  case (Cons x xs)
  then show ?case
    by (cases "split_on c xs") (auto simp: join_Cons_cons)
qed simp

lemma join_append_sep: "ws \<noteq> [] \<Longrightarrow> join_with sep (w # ws) = w @ sep @ join_with sep ws"
  by (cases ws) auto

section \<open>Trimming\<close>

text \<open>The encodings of U+0009 to U+000D, U+0020, U+0085, U+00A0, U+1680, U+2000 to U+200A, U+2028,
  U+2029, U+202F, U+205F and U+3000.\<close>

definition whitespace_encodings :: "string list" where
  "whitespace_encodings =
     map (\<lambda>n. [char_of n]) [9::nat, 10, 11, 12, 13, 32] @
     map (map char_of)
       [[194::nat, 133], [194, 160], [225, 154, 128],
        [226, 128, 128], [226, 128, 129], [226, 128, 130], [226, 128, 131], [226, 128, 132],
        [226, 128, 133], [226, 128, 134], [226, 128, 135], [226, 128, 136], [226, 128, 137],
        [226, 128, 138], [226, 128, 168], [226, 128, 169], [226, 128, 175], [226, 129, 159],
        [227, 128, 128]]"

fun strip_first :: "string list \<Rightarrow> string \<Rightarrow> string option" where
  "strip_first [] s = None"
| "strip_first (p # ps) s =
     (case strip_prefix p s of
        Some r \<Rightarrow> if p = [] then strip_first ps s else Some r
      | None \<Rightarrow> strip_first ps s)"

lemma strip_first_shorter: "strip_first ps s = Some r \<Longrightarrow> length r < length s"
  by (induction ps s rule: strip_first.induct)
    (auto simp: strip_prefix_Some split: option.splits if_splits)

function strip_while :: "string list \<Rightarrow> string \<Rightarrow> string" where
  "strip_while ps s = (case strip_first ps s of None \<Rightarrow> s | Some r \<Rightarrow> strip_while ps r)"
  by pat_completeness auto
termination
  by (relation "measure (\<lambda>(ps, s). length s)") (auto dest: strip_first_shorter)

declare strip_while.simps [simp del]

lemmas strip_while_unfold = strip_while.simps

definition trim_start_seqs :: "string list \<Rightarrow> string \<Rightarrow> string" where
  "trim_start_seqs ps s = strip_while ps s"

definition trim_end_seqs :: "string list \<Rightarrow> string \<Rightarrow> string" where
  "trim_end_seqs ps s = rev (strip_while (map rev ps) (rev s))"

definition trim :: "string \<Rightarrow> string" where
  "trim s = trim_end_seqs whitespace_encodings (trim_start_seqs whitespace_encodings s)"

lemma strip_first_stop: "strip_first ps (strip_while ps s) = None"
proof (induction ps s rule: strip_while.induct)
  case (1 ps s)
  then show ?case
    by (cases "strip_first ps s") (simp_all add: strip_while.simps [of ps s])
qed

lemma strip_while_idem [simp]: "strip_while ps (strip_while ps s) = strip_while ps s"
  by (subst strip_while.simps) (simp add: strip_first_stop)

lemma strip_first_suffix: "strip_first ps s = Some r \<Longrightarrow> \<exists>u. s = u @ r"
  by (induction ps s rule: strip_first.induct)
    (auto simp: strip_prefix_Some split: option.splits if_splits)

lemma strip_while_suffix: "\<exists>u. s = u @ strip_while ps s"
proof (induction ps s rule: strip_while.induct)
  case (1 ps s)
  show ?case
  proof (cases "strip_first ps s")
    case None
    then show ?thesis by (simp add: strip_while.simps)
  next
    case (Some r)
    with 1 obtain u v where "r = u @ strip_while ps r" "s = v @ r"
      using strip_first_suffix by blast
    with Some show ?thesis
      by (metis append.assoc option.simps(5) strip_while.simps)
  qed
qed

lemma trim_infix: "\<exists>u v. s = u @ trim s @ v"
proof -
  obtain u where u: "s = u @ strip_while whitespace_encodings s"
    using strip_while_suffix by blast
  obtain v where "rev (strip_while whitespace_encodings s) =
      v @ strip_while (map rev whitespace_encodings) (rev (strip_while whitespace_encodings s))"
    using strip_while_suffix by blast
  then have "strip_while whitespace_encodings s = trim s @ rev v"
    unfolding trim_def trim_start_seqs_def trim_end_seqs_def
    by (metis rev_append rev_rev_ident)
  with u show ?thesis by metis
qed

lemma length_trim_le: "length (trim s) \<le> length s"
  using trim_infix [of s] by (metis length_append trans_le_add1 trans_le_add2 le_add1)

section \<open>Lines\<close>

text \<open>\<open>str::lines\<close>: split at line feeds, drop one carriage return before each, ignore a final empty line.\<close>

definition drop_carriage_return :: "string \<Rightarrow> string" where
  "drop_carriage_return s =
     (if s \<noteq> [] \<and> last s = char_of (13::nat) then butlast s else s)"

definition text_lines :: "string \<Rightarrow> string list" where
  "text_lines s =
     (let ws = split_on (char_of (10::nat)) s;
          ws' = (if last ws = [] then butlast ws else ws)
      in map drop_carriage_return ws')"

section \<open>Decimal numbers\<close>

fun show_nat :: "nat \<Rightarrow> string" where
  "show_nat n =
     (if n < 10 then [char_of (48 + n)] else show_nat (n div 10) @ [char_of (48 + n mod 10)])"

declare show_nat.simps [simp del]

definition show_int :: "int \<Rightarrow> string" where
  "show_int i = (if i < 0 then CHR ''-'' # show_nat (nat (- i)) else show_nat (nat i))"

definition digit_value :: "char \<Rightarrow> nat" where
  "digit_value c = byte c - 48"

definition read_digits :: "string \<Rightarrow> nat" where
  "read_digits s = foldl (\<lambda>n c. 10 * n + digit_value c) 0 s"

text \<open>\<open>str::parse::<i64>\<close> on a text of decimal digits, the only texts the sources parse: it fails on
  the empty text and on overflow.\<close>

definition parse_i64 :: "string \<Rightarrow> int option" where
  "parse_i64 s =
     (if s \<noteq> [] \<and> list_all is_digit s \<and> read_digits s < 2 ^ 63
      then Some (int (read_digits s)) else None)"

lemma byte_char_of_digit: "(d::nat) < 10 \<Longrightarrow> byte (char_of (48 + d)) = 48 + d"
  by (simp add: byte_def)

lemma digit_value_char [simp]: "(d::nat) < 10 \<Longrightarrow> digit_value (char_of (48 + d)) = d"
  by (simp add: digit_value_def byte_char_of_digit)

lemma is_digit_char [simp]: "(d::nat) < 10 \<Longrightarrow> is_digit (char_of (48 + d))"
  by (simp add: is_digit_def byte_char_of_digit)

lemma char_of_digit_value: "is_digit c \<Longrightarrow> char_of (48 + digit_value c) = c"
  by (simp add: is_digit_def digit_value_def byte_def)

lemma digit_value_less: "is_digit c \<Longrightarrow> digit_value c < 10"
  unfolding is_digit_def digit_value_def by arith

lemma show_nat_not_Nil [simp]: "show_nat n \<noteq> []"
  by (subst show_nat.simps) simp

lemma show_nat_digits: "list_all is_digit (show_nat n)"
proof (induction n rule: show_nat.induct)
  case (1 n)
  then show ?case by (subst show_nat.simps) auto
qed

lemma read_digits_snoc: "read_digits (s @ [c]) = 10 * read_digits s + digit_value c"
  by (simp add: read_digits_def)

lemma read_show_nat [simp]: "read_digits (show_nat n) = n"
proof (induction n rule: show_nat.induct)
  case (1 n)
  show ?case
  proof (cases "n < 10")
    case True
    then show ?thesis by (subst show_nat.simps) (simp add: read_digits_def)
  next
    case False
    with 1 show ?thesis by (subst show_nat.simps) (simp add: read_digits_snoc)
  qed
qed

lemma read_digits_pos:
  "list_all is_digit s \<Longrightarrow> s \<noteq> [] \<Longrightarrow> hd s \<noteq> CHR ''0'' \<Longrightarrow> 0 < read_digits s"
proof (induction s rule: rev_induct)
  case (snoc c s)
  show ?case
  proof (cases "s = []")
    case True
    have "char_of (48::nat) = CHR ''0''" by code_simp
    then have "c \<noteq> CHR ''0'' \<Longrightarrow> is_digit c \<Longrightarrow> 0 < digit_value c"
      using char_of_digit_value [of c] by (cases "digit_value c") auto
    with True snoc.prems show ?thesis by (simp add: read_digits_def)
  next
    case False
    with snoc show ?thesis by (simp add: read_digits_snoc)
  qed
qed simp

lemma show_read_digits:
  "list_all is_digit s \<Longrightarrow> s \<noteq> [] \<Longrightarrow> hd s \<noteq> CHR ''0'' \<Longrightarrow> show_nat (read_digits s) = s"
proof (induction s rule: rev_induct)
  case (snoc c s)
  then have c: "is_digit c" "digit_value c < 10" by (simp_all add: digit_value_less)
  show ?case
  proof (cases "s = []")
    case True
    with c show ?thesis
      by (subst show_nat.simps) (simp add: read_digits_def char_of_digit_value)
  next
    case False
    with snoc.prems have "0 < read_digits s"
      by (intro read_digits_pos) auto
    moreover have "show_nat (read_digits s) = s"
      using snoc False by simp
    ultimately show ?thesis
      using c by (subst show_nat.simps) (simp add: read_digits_snoc char_of_digit_value)
  qed
qed simp

lemma show_nat_inject [simp]: "show_nat m = show_nat n \<longleftrightarrow> m = n"
  by (metis read_show_nat)

lemma show_nat_no_minus: "CHR ''-'' \<notin> set (show_nat n)"
  using show_nat_digits [of n] by (auto simp: list_all_iff is_digit_def byte_def)

lemma show_int_inject [simp]: "show_int i = show_int j \<longleftrightarrow> i = j"
proof
  assume eq: "show_int i = show_int j"
  have minus: "CHR ''-'' # show_nat m \<noteq> show_nat n" for m n
    using show_nat_no_minus [of n] by (metis list.set_intros(1))
  show "i = j"
    using eq minus minus [symmetric] by (auto simp: show_int_def split: if_splits)
qed simp

lemma parse_show_i64: "0 \<le> i \<Longrightarrow> i < 2 ^ 63 \<Longrightarrow> parse_i64 (show_int i) = Some i"
  by (simp add: parse_i64_def show_int_def show_nat_digits nat_less_iff)

end
