(* ===== verification/Text_Enum.thy ===== *)
theory Text_Enum
  imports Text_Ops
begin

text \<open>
  The macro \<open>string_enum!\<close> of \<open>crates/claudear-core/src/security.rs\<close>: an enum whose variants are stored
  and sent as fixed texts. The locales state what readers of such a column rely on; every enum of the
  model that is stored as text interprets one of them.
\<close>

section \<open>The contract of a text enum\<close>

locale text_enum =
  fixes all :: "'a list"
    and as_str :: "'a \<Rightarrow> string"
    and from_str :: "string \<Rightarrow> string + 'a"
  assumes complete: "set all = UNIV"
    and from_as: "from_str (as_str x) = Inr x"
begin

lemma as_str_inject: "as_str x = as_str y \<longleftrightarrow> x = y"
  by (metis from_as sum.inject(2))

lemma in_all: "x \<in> set all"
  by (simp add: complete)

lemma text_parses: "s \<in> range as_str \<Longrightarrow> \<exists>x. from_str s = Inr x \<and> s = as_str x"
  using from_as by auto

end

locale closed_text_enum = text_enum +
  assumes only_texts: "from_str s = Inr x \<Longrightarrow> s = as_str x"
begin

lemma from_str_Inr: "from_str s = Inr x \<longleftrightarrow> s = as_str x"
  using from_as only_texts by auto

lemma from_str_range: "(\<exists>x. from_str s = Inr x) \<longleftrightarrow> s \<in> range as_str"
  by (auto simp: from_str_Inr)

end

section \<open>The macro\<close>

definition enum_from_str :: "string \<Rightarrow> 'a list \<Rightarrow> ('a \<Rightarrow> string) \<Rightarrow> string \<Rightarrow> string + 'a" where
  "enum_from_str name all as_str value =
     (case find (\<lambda>v. as_str v = value) all of
        Some v \<Rightarrow> Inr v
      | None \<Rightarrow> Inl (''unknown '' @ name @ '' value: '' @ value))"

locale string_enum =
  fixes name :: string
    and all :: "'a list"
    and as_str :: "'a \<Rightarrow> string"
  assumes all_variants: "set all = UNIV"
    and distinct_texts: "distinct (map as_str all)"
begin

lemma enum_from_as: "enum_from_str name all as_str (as_str x) = Inr x"
proof -
  have inj: "inj_on as_str UNIV"
    using distinct_texts by (simp add: distinct_map all_variants)
  have "find (\<lambda>v. as_str v = as_str x) all = Some x"
  proof (cases "find (\<lambda>v. as_str v = as_str x) all")
    case None
    then show ?thesis using all_variants by (auto simp: find_None_iff)
  next
    case (Some y)
    then have "as_str y = as_str x" by (auto simp: find_Some_iff)
    with inj Some show ?thesis by (simp add: inj_on_eq_iff)
  qed
  then show ?thesis by (simp add: enum_from_str_def)
qed

lemma enum_only_texts: "enum_from_str name all as_str s = Inr x \<Longrightarrow> s = as_str x"
  by (auto simp: enum_from_str_def find_Some_iff split: option.splits)

end

sublocale string_enum \<subseteq> closed_text_enum all as_str "enum_from_str name all as_str"
  by unfold_locales (simp_all add: all_variants enum_from_as enum_only_texts)

end
