(* ===== verification/Security_Types.thy ===== *)
theory Security_Types
  imports Text_Enum "HOL-Library.Transitive_Closure_Table"
begin

text \<open>
  \<open>crates/claudear-core/src/security.rs\<close>: the security inbox domain. The state machines of reports,
  vulnerabilities and awards, their texts, canonical fix identifiers and pull request URLs, the first
  reporter rule and the validation of admin overrides. Types keep the names of the Rust types; variants
  are written qualified, as in the source.
\<close>

section \<open>Report states\<close>

datatype SecurityReportState =
  Received | Assessing | NeedsHuman | Registering | Spam | Replying | Closed | Tracking | Resolved

definition report_states :: "SecurityReportState list" where
  "report_states =
     [SecurityReportState.Received, SecurityReportState.Assessing, SecurityReportState.NeedsHuman,
      SecurityReportState.Registering, SecurityReportState.Spam, SecurityReportState.Replying,
      SecurityReportState.Closed, SecurityReportState.Tracking, SecurityReportState.Resolved]"

fun report_state_as_str :: "SecurityReportState \<Rightarrow> string" where
  "report_state_as_str SecurityReportState.Received = ''received''"
| "report_state_as_str SecurityReportState.Assessing = ''assessing''"
| "report_state_as_str SecurityReportState.NeedsHuman = ''needs_human''"
| "report_state_as_str SecurityReportState.Registering = ''registering''"
| "report_state_as_str SecurityReportState.Spam = ''spam''"
| "report_state_as_str SecurityReportState.Replying = ''replying''"
| "report_state_as_str SecurityReportState.Closed = ''closed''"
| "report_state_as_str SecurityReportState.Tracking = ''tracking''"
| "report_state_as_str SecurityReportState.Resolved = ''resolved''"

interpretation report_state: string_enum "''SecurityReportState''" report_states report_state_as_str
proof
  show "set report_states = UNIV"
    unfolding report_states_def using SecurityReportState.exhaust by auto
  show "distinct (map report_state_as_str report_states)"
    by (simp add: report_states_def)
qed

definition report_state_from_str :: "string \<Rightarrow> string + SecurityReportState" where
  "report_state_from_str = enum_from_str ''SecurityReportState'' report_states report_state_as_str"

fun report_is_terminal :: "SecurityReportState \<Rightarrow> bool" where
  "report_is_terminal s \<longleftrightarrow>
     s \<in> {SecurityReportState.Spam, SecurityReportState.Closed, SecurityReportState.Resolved}"

fun report_can_transition_to :: "SecurityReportState \<Rightarrow> SecurityReportState \<Rightarrow> bool" where
  "report_can_transition_to SecurityReportState.Received next \<longleftrightarrow>
     next \<in> {SecurityReportState.Assessing, SecurityReportState.NeedsHuman}"
| "report_can_transition_to SecurityReportState.Assessing next \<longleftrightarrow>
     next \<in> {SecurityReportState.Received, SecurityReportState.NeedsHuman, SecurityReportState.Spam,
              SecurityReportState.Replying, SecurityReportState.Tracking}"
| "report_can_transition_to SecurityReportState.NeedsHuman next \<longleftrightarrow>
     next \<in> {SecurityReportState.Received, SecurityReportState.Registering,
              SecurityReportState.Replying, SecurityReportState.Spam}"
| "report_can_transition_to SecurityReportState.Registering next \<longleftrightarrow>
     next \<in> {SecurityReportState.Tracking, SecurityReportState.Replying,
              SecurityReportState.NeedsHuman}"
| "report_can_transition_to SecurityReportState.Replying next \<longleftrightarrow>
     next \<in> {SecurityReportState.Closed, SecurityReportState.NeedsHuman}"
| "report_can_transition_to SecurityReportState.Tracking next \<longleftrightarrow>
     next \<in> {SecurityReportState.Resolved, SecurityReportState.NeedsHuman}"
| "report_can_transition_to SecurityReportState.Spam next \<longleftrightarrow> False"
| "report_can_transition_to SecurityReportState.Closed next \<longleftrightarrow> False"
| "report_can_transition_to SecurityReportState.Resolved next \<longleftrightarrow> False"

record ReportTransition =
  tr_from :: SecurityReportState
  tr_to :: SecurityReportState

definition transition_is_allowed :: "ReportTransition \<Rightarrow> bool" where
  "transition_is_allowed t \<longleftrightarrow> report_can_transition_to (tr_from t) (tr_to t)"

section \<open>Vulnerability states\<close>

datatype VulnerabilityState = AwaitingFix | Fixing | Merged | Live | NeedsHuman

definition vulnerability_states :: "VulnerabilityState list" where
  "vulnerability_states =
     [VulnerabilityState.AwaitingFix, VulnerabilityState.Fixing, VulnerabilityState.Merged,
      VulnerabilityState.Live, VulnerabilityState.NeedsHuman]"

fun vulnerability_state_as_str :: "VulnerabilityState \<Rightarrow> string" where
  "vulnerability_state_as_str VulnerabilityState.AwaitingFix = ''awaiting_fix''"
| "vulnerability_state_as_str VulnerabilityState.Fixing = ''fixing''"
| "vulnerability_state_as_str VulnerabilityState.Merged = ''merged''"
| "vulnerability_state_as_str VulnerabilityState.Live = ''live''"
| "vulnerability_state_as_str VulnerabilityState.NeedsHuman = ''needs_human''"

interpretation vulnerability_state:
  string_enum "''VulnerabilityState''" vulnerability_states vulnerability_state_as_str
proof
  show "set vulnerability_states = UNIV"
    unfolding vulnerability_states_def using VulnerabilityState.exhaust by auto
  show "distinct (map vulnerability_state_as_str vulnerability_states)"
    by (simp add: vulnerability_states_def)
qed

definition vulnerability_state_from_str :: "string \<Rightarrow> string + VulnerabilityState" where
  "vulnerability_state_from_str =
     enum_from_str ''VulnerabilityState'' vulnerability_states vulnerability_state_as_str"

fun vulnerability_is_initial :: "VulnerabilityState \<Rightarrow> bool" where
  "vulnerability_is_initial s \<longleftrightarrow>
     s \<in> {VulnerabilityState.AwaitingFix, VulnerabilityState.Merged}"

fun vulnerability_can_transition_to :: "VulnerabilityState \<Rightarrow> VulnerabilityState \<Rightarrow> bool" where
  "vulnerability_can_transition_to VulnerabilityState.AwaitingFix next \<longleftrightarrow>
     next \<in> {VulnerabilityState.Fixing, VulnerabilityState.NeedsHuman}"
| "vulnerability_can_transition_to VulnerabilityState.Fixing next \<longleftrightarrow>
     next \<in> {VulnerabilityState.Merged, VulnerabilityState.NeedsHuman}"
| "vulnerability_can_transition_to VulnerabilityState.Merged next \<longleftrightarrow>
     next \<in> {VulnerabilityState.Live, VulnerabilityState.NeedsHuman}"
| "vulnerability_can_transition_to VulnerabilityState.NeedsHuman next \<longleftrightarrow>
     next \<in> {VulnerabilityState.Fixing, VulnerabilityState.Live}"
| "vulnerability_can_transition_to VulnerabilityState.Live next \<longleftrightarrow> False"

section \<open>Outcomes, replies, deliveries, awards and events\<close>

datatype SecurityOutcome =
  Spam | Valid | NotReproducible | AlreadyFixed | NotVulnerability | OutOfScope |
  Duplicate

definition outcome_all :: "SecurityOutcome list" where
  "outcome_all =
     [SecurityOutcome.Spam, SecurityOutcome.Valid, SecurityOutcome.NotReproducible,
      SecurityOutcome.AlreadyFixed, SecurityOutcome.NotVulnerability,
      SecurityOutcome.OutOfScope, SecurityOutcome.Duplicate]"

fun outcome_as_str :: "SecurityOutcome \<Rightarrow> string" where
  "outcome_as_str SecurityOutcome.Spam = ''spam''"
| "outcome_as_str SecurityOutcome.Valid = ''valid''"
| "outcome_as_str SecurityOutcome.NotReproducible = ''not_reproducible''"
| "outcome_as_str SecurityOutcome.AlreadyFixed = ''already_fixed''"
| "outcome_as_str SecurityOutcome.NotVulnerability = ''not_vulnerability''"
| "outcome_as_str SecurityOutcome.OutOfScope = ''out_of_scope''"
| "outcome_as_str SecurityOutcome.Duplicate = ''duplicate''"

interpretation outcome: string_enum "''SecurityOutcome''" outcome_all outcome_as_str
proof
  show "set outcome_all = UNIV"
    unfolding outcome_all_def using SecurityOutcome.exhaust by auto
  show "distinct (map outcome_as_str outcome_all)"
    by (simp add: outcome_all_def)
qed

definition outcome_from_str :: "string \<Rightarrow> string + SecurityOutcome" where
  "outcome_from_str = enum_from_str ''SecurityOutcome'' outcome_all outcome_as_str"

datatype SecurityReplyKind =
  Confirmed | NotReproducible | AlreadyFixed | NotVulnerability | OutOfScope |
  Duplicate | FixLive | FixLiveRewarded

definition reply_kind_all :: "SecurityReplyKind list" where
  "reply_kind_all =
     [SecurityReplyKind.Confirmed, SecurityReplyKind.NotReproducible,
      SecurityReplyKind.AlreadyFixed, SecurityReplyKind.NotVulnerability,
      SecurityReplyKind.OutOfScope, SecurityReplyKind.Duplicate, SecurityReplyKind.FixLive,
      SecurityReplyKind.FixLiveRewarded]"

fun reply_kind_as_str :: "SecurityReplyKind \<Rightarrow> string" where
  "reply_kind_as_str SecurityReplyKind.Confirmed = ''confirmed''"
| "reply_kind_as_str SecurityReplyKind.NotReproducible = ''not_reproducible''"
| "reply_kind_as_str SecurityReplyKind.AlreadyFixed = ''already_fixed''"
| "reply_kind_as_str SecurityReplyKind.NotVulnerability = ''not_vulnerability''"
| "reply_kind_as_str SecurityReplyKind.OutOfScope = ''out_of_scope''"
| "reply_kind_as_str SecurityReplyKind.Duplicate = ''duplicate''"
| "reply_kind_as_str SecurityReplyKind.FixLive = ''fix_live''"
| "reply_kind_as_str SecurityReplyKind.FixLiveRewarded = ''fix_live_rewarded''"

interpretation reply_kind: string_enum "''SecurityReplyKind''" reply_kind_all reply_kind_as_str
proof
  show "set reply_kind_all = UNIV"
    unfolding reply_kind_all_def using SecurityReplyKind.exhaust by auto
  show "distinct (map reply_kind_as_str reply_kind_all)"
    by (simp add: reply_kind_all_def)
qed

definition reply_kind_from_str :: "string \<Rightarrow> string + SecurityReplyKind" where
  "reply_kind_from_str = enum_from_str ''SecurityReplyKind'' reply_kind_all reply_kind_as_str"

fun reply_kind_for_outcome :: "SecurityOutcome \<Rightarrow> SecurityReplyKind option" where
  "reply_kind_for_outcome SecurityOutcome.Spam = None"
| "reply_kind_for_outcome SecurityOutcome.Valid = Some SecurityReplyKind.Confirmed"
| "reply_kind_for_outcome SecurityOutcome.NotReproducible = Some SecurityReplyKind.NotReproducible"
| "reply_kind_for_outcome SecurityOutcome.AlreadyFixed = Some SecurityReplyKind.AlreadyFixed"
| "reply_kind_for_outcome SecurityOutcome.NotVulnerability = Some SecurityReplyKind.NotVulnerability"
| "reply_kind_for_outcome SecurityOutcome.OutOfScope = Some SecurityReplyKind.OutOfScope"
| "reply_kind_for_outcome SecurityOutcome.Duplicate = Some SecurityReplyKind.Duplicate"

definition reply_kind_is_terminal :: "SecurityReplyKind \<Rightarrow> bool" where
  "reply_kind_is_terminal k \<longleftrightarrow> k \<noteq> SecurityReplyKind.Confirmed"

definition is_fix_live :: "SecurityReplyKind \<Rightarrow> bool" where
  "is_fix_live k \<longleftrightarrow> k \<in> {SecurityReplyKind.FixLive, SecurityReplyKind.FixLiveRewarded}"

definition shares_ledger_entry_with :: "SecurityReplyKind \<Rightarrow> SecurityReplyKind \<Rightarrow> bool" where
  "shares_ledger_entry_with k other \<longleftrightarrow> k = other \<or> (is_fix_live k \<and> is_fix_live other)"

datatype SecuritySeverity =
  Critical | High | Medium | Low | Informational

definition severity_all :: "SecuritySeverity list" where
  "severity_all =
     [SecuritySeverity.Critical, SecuritySeverity.High, SecuritySeverity.Medium,
      SecuritySeverity.Low, SecuritySeverity.Informational]"

fun severity_as_str :: "SecuritySeverity \<Rightarrow> string" where
  "severity_as_str SecuritySeverity.Critical = ''critical''"
| "severity_as_str SecuritySeverity.High = ''high''"
| "severity_as_str SecuritySeverity.Medium = ''medium''"
| "severity_as_str SecuritySeverity.Low = ''low''"
| "severity_as_str SecuritySeverity.Informational = ''informational''"

interpretation severity: string_enum "''SecuritySeverity''" severity_all severity_as_str
proof
  show "set severity_all = UNIV"
    unfolding severity_all_def using SecuritySeverity.exhaust by auto
  show "distinct (map severity_as_str severity_all)"
    by (simp add: severity_all_def)
qed

definition severity_from_str :: "string \<Rightarrow> string + SecuritySeverity" where
  "severity_from_str = enum_from_str ''SecuritySeverity'' severity_all severity_as_str"

datatype DeliveryStatus =
  Sending | Sent | Failed | Unconfirmed

definition delivery_status_all :: "DeliveryStatus list" where
  "delivery_status_all =
     [DeliveryStatus.Sending, DeliveryStatus.Sent, DeliveryStatus.Failed,
      DeliveryStatus.Unconfirmed]"

fun delivery_status_as_str :: "DeliveryStatus \<Rightarrow> string" where
  "delivery_status_as_str DeliveryStatus.Sending = ''sending''"
| "delivery_status_as_str DeliveryStatus.Sent = ''sent''"
| "delivery_status_as_str DeliveryStatus.Failed = ''failed''"
| "delivery_status_as_str DeliveryStatus.Unconfirmed = ''unconfirmed''"

interpretation delivery_status: string_enum "''DeliveryStatus''" delivery_status_all delivery_status_as_str
proof
  show "set delivery_status_all = UNIV"
    unfolding delivery_status_all_def using DeliveryStatus.exhaust by auto
  show "distinct (map delivery_status_as_str delivery_status_all)"
    by (simp add: delivery_status_all_def)
qed

definition delivery_status_from_str :: "string \<Rightarrow> string + DeliveryStatus" where
  "delivery_status_from_str = enum_from_str ''DeliveryStatus'' delivery_status_all delivery_status_as_str"

definition delivery_is_completion :: "DeliveryStatus \<Rightarrow> bool" where
  "delivery_is_completion s \<longleftrightarrow> s \<noteq> DeliveryStatus.Sending"

datatype AwardStatus =
  Prepared | OwnerNotified | Awarded | Cancelled

definition award_status_all :: "AwardStatus list" where
  "award_status_all =
     [AwardStatus.Prepared, AwardStatus.OwnerNotified, AwardStatus.Awarded,
      AwardStatus.Cancelled]"

fun award_status_as_str :: "AwardStatus \<Rightarrow> string" where
  "award_status_as_str AwardStatus.Prepared = ''prepared''"
| "award_status_as_str AwardStatus.OwnerNotified = ''owner_notified''"
| "award_status_as_str AwardStatus.Awarded = ''awarded''"
| "award_status_as_str AwardStatus.Cancelled = ''cancelled''"

interpretation award_status: string_enum "''AwardStatus''" award_status_all award_status_as_str
proof
  show "set award_status_all = UNIV"
    unfolding award_status_all_def using AwardStatus.exhaust by auto
  show "distinct (map award_status_as_str award_status_all)"
    by (simp add: award_status_all_def)
qed

definition award_status_from_str :: "string \<Rightarrow> string + AwardStatus" where
  "award_status_from_str = enum_from_str ''AwardStatus'' award_status_all award_status_as_str"

fun award_can_transition_to :: "AwardStatus \<Rightarrow> AwardStatus \<Rightarrow> bool" where
  "award_can_transition_to AwardStatus.Prepared next \<longleftrightarrow>
     next \<in> {AwardStatus.OwnerNotified, AwardStatus.Awarded, AwardStatus.Cancelled}"
| "award_can_transition_to AwardStatus.OwnerNotified next \<longleftrightarrow>
     next \<in> {AwardStatus.Awarded, AwardStatus.Cancelled}"
| "award_can_transition_to AwardStatus.Awarded next \<longleftrightarrow> False"
| "award_can_transition_to AwardStatus.Cancelled next \<longleftrightarrow> False"

datatype SecurityEventKind =
  Received | AssessmentStarted | AssessmentReleased | AssessmentFailed | NeedsHuman |
  Overridden | AdminConfirmed | ScreenedSpam | Assessed | VulnerabilityCreated |
  DuplicateLinked | FirstReporterReplaced | ReplyClaimed | ReplySent | ReplyFailed |
  ReplyUnconfirmed | DeliveryConfirmed | ConversationClosed | ReporterFollowUp |
  FixStarted | PullRequestOpened | PullRequestLinked | FixFailed | Merged |
  CloudBumpRequired | Live | DeploymentCheckFailed | AwardPrepared | OwnerNotified |
  Awarded | AwardCancelled

definition event_kind_all :: "SecurityEventKind list" where
  "event_kind_all =
     [SecurityEventKind.Received, SecurityEventKind.AssessmentStarted,
      SecurityEventKind.AssessmentReleased, SecurityEventKind.AssessmentFailed,
      SecurityEventKind.NeedsHuman, SecurityEventKind.Overridden,
      SecurityEventKind.AdminConfirmed, SecurityEventKind.ScreenedSpam,
      SecurityEventKind.Assessed, SecurityEventKind.VulnerabilityCreated,
      SecurityEventKind.DuplicateLinked, SecurityEventKind.FirstReporterReplaced,
      SecurityEventKind.ReplyClaimed, SecurityEventKind.ReplySent,
      SecurityEventKind.ReplyFailed, SecurityEventKind.ReplyUnconfirmed,
      SecurityEventKind.DeliveryConfirmed, SecurityEventKind.ConversationClosed,
      SecurityEventKind.ReporterFollowUp, SecurityEventKind.FixStarted,
      SecurityEventKind.PullRequestOpened, SecurityEventKind.PullRequestLinked,
      SecurityEventKind.FixFailed, SecurityEventKind.Merged,
      SecurityEventKind.CloudBumpRequired, SecurityEventKind.Live,
      SecurityEventKind.DeploymentCheckFailed, SecurityEventKind.AwardPrepared,
      SecurityEventKind.OwnerNotified, SecurityEventKind.Awarded,
      SecurityEventKind.AwardCancelled]"

fun event_kind_as_str :: "SecurityEventKind \<Rightarrow> string" where
  "event_kind_as_str SecurityEventKind.Received = ''received''"
| "event_kind_as_str SecurityEventKind.AssessmentStarted = ''assessment_started''"
| "event_kind_as_str SecurityEventKind.AssessmentReleased = ''assessment_released''"
| "event_kind_as_str SecurityEventKind.AssessmentFailed = ''assessment_failed''"
| "event_kind_as_str SecurityEventKind.NeedsHuman = ''needs_human''"
| "event_kind_as_str SecurityEventKind.Overridden = ''overridden''"
| "event_kind_as_str SecurityEventKind.AdminConfirmed = ''admin_confirmed''"
| "event_kind_as_str SecurityEventKind.ScreenedSpam = ''screened_spam''"
| "event_kind_as_str SecurityEventKind.Assessed = ''assessed''"
| "event_kind_as_str SecurityEventKind.VulnerabilityCreated = ''vulnerability_created''"
| "event_kind_as_str SecurityEventKind.DuplicateLinked = ''duplicate_linked''"
| "event_kind_as_str SecurityEventKind.FirstReporterReplaced = ''first_reporter_replaced''"
| "event_kind_as_str SecurityEventKind.ReplyClaimed = ''reply_claimed''"
| "event_kind_as_str SecurityEventKind.ReplySent = ''reply_sent''"
| "event_kind_as_str SecurityEventKind.ReplyFailed = ''reply_failed''"
| "event_kind_as_str SecurityEventKind.ReplyUnconfirmed = ''reply_unconfirmed''"
| "event_kind_as_str SecurityEventKind.DeliveryConfirmed = ''delivery_confirmed''"
| "event_kind_as_str SecurityEventKind.ConversationClosed = ''conversation_closed''"
| "event_kind_as_str SecurityEventKind.ReporterFollowUp = ''reporter_follow_up''"
| "event_kind_as_str SecurityEventKind.FixStarted = ''fix_started''"
| "event_kind_as_str SecurityEventKind.PullRequestOpened = ''pull_request_opened''"
| "event_kind_as_str SecurityEventKind.PullRequestLinked = ''pull_request_linked''"
| "event_kind_as_str SecurityEventKind.FixFailed = ''fix_failed''"
| "event_kind_as_str SecurityEventKind.Merged = ''merged''"
| "event_kind_as_str SecurityEventKind.CloudBumpRequired = ''cloud_bump_required''"
| "event_kind_as_str SecurityEventKind.Live = ''live''"
| "event_kind_as_str SecurityEventKind.DeploymentCheckFailed = ''deployment_check_failed''"
| "event_kind_as_str SecurityEventKind.AwardPrepared = ''award_prepared''"
| "event_kind_as_str SecurityEventKind.OwnerNotified = ''owner_notified''"
| "event_kind_as_str SecurityEventKind.Awarded = ''awarded''"
| "event_kind_as_str SecurityEventKind.AwardCancelled = ''award_cancelled''"

interpretation event_kind: string_enum "''SecurityEventKind''" event_kind_all event_kind_as_str
proof
  show "set event_kind_all = UNIV"
    unfolding event_kind_all_def using SecurityEventKind.exhaust by auto
  show "distinct (map event_kind_as_str event_kind_all)"
    by (simp add: event_kind_all_def)
qed

definition event_kind_from_str :: "string \<Rightarrow> string + SecurityEventKind" where
  "event_kind_from_str = enum_from_str ''SecurityEventKind'' event_kind_all event_kind_as_str"

fun award_event_kind :: "AwardStatus \<Rightarrow> SecurityEventKind" where
  "award_event_kind AwardStatus.Prepared = SecurityEventKind.AwardPrepared"
| "award_event_kind AwardStatus.OwnerNotified = SecurityEventKind.OwnerNotified"
| "award_event_kind AwardStatus.Awarded = SecurityEventKind.Awarded"
| "award_event_kind AwardStatus.Cancelled = SecurityEventKind.AwardCancelled"

end
