(* ===== verification/Lifecycle.thy ===== *)
theory Lifecycle
  imports Main
begin

text \<open>
  State machines given as a \<open>can_transition_to\<close> test: the contract their clients rely on (a terminal
  state has no way out, any other state has one), and the chains of recorded moves that an audit trail
  of such a machine is made of.
\<close>

section \<open>Chains of moves\<close>

fun chain_from :: "('s \<Rightarrow> 's \<Rightarrow> bool) \<Rightarrow> 's \<Rightarrow> ('s \<times> 's) list \<Rightarrow> 's \<Rightarrow> bool" where
  "chain_from can s [] t \<longleftrightarrow> s = t"
| "chain_from can s ((a, b) # es) t \<longleftrightarrow> a = s \<and> can a b \<and> chain_from can b es t"

lemma chain_from_append:
  "chain_from can s (es @ fs) t \<longleftrightarrow> (\<exists>u. chain_from can s es u \<and> chain_from can u fs t)"
  by (induction can s es t rule: chain_from.induct) auto

lemma chain_from_snoc:
  "chain_from can s (es @ [(a, b)]) t \<longleftrightarrow> chain_from can s es a \<and> can a b \<and> t = b"
  by (auto simp: chain_from_append)

lemma chain_from_rtranclp: "chain_from can s es t \<Longrightarrow> can\<^sup>*\<^sup>* s t"
  by (induction can s es t rule: chain_from.induct) (auto intro: converse_rtranclp_into_rtranclp)

lemma rtranclp_chain_from: "can\<^sup>*\<^sup>* s t \<Longrightarrow> \<exists>es. chain_from can s es t"
proof (induction rule: rtranclp_induct)
  case base
  have "chain_from can s [] s" by simp
  then show ?case by blast
next
  case (step y z)
  then obtain es where "chain_from can s es y" by blast
  with step have "chain_from can s (es @ [(y, z)]) z" by (simp add: chain_from_snoc)
  then show ?case by blast
qed

lemma chain_from_moves: "chain_from can s es t \<Longrightarrow> (a, b) \<in> set es \<Longrightarrow> can a b"
  by (induction can s es t rule: chain_from.induct) auto

lemma chain_from_last:
  "chain_from can s es t \<Longrightarrow> s \<noteq> t \<Longrightarrow> \<exists>us a. es = us @ [(a, t)] \<and> chain_from can s us a \<and> can a t"
  by (cases es rule: rev_cases) (auto simp: chain_from_append)

section \<open>The contract\<close>

locale lifecycle =
  fixes can :: "'s \<Rightarrow> 's \<Rightarrow> bool"
    and terminal :: "'s \<Rightarrow> bool"
  assumes terminal_stuck: "terminal s \<Longrightarrow> \<not> can s t"
    and progress: "\<not> terminal s \<Longrightarrow> \<exists>t. can s t"
begin

lemma chain_terminal: "terminal s \<Longrightarrow> chain_from can s es t \<Longrightarrow> es = [] \<and> t = s"
  using terminal_stuck by (cases es) auto

lemma terminal_final: "terminal s \<Longrightarrow> can\<^sup>*\<^sup>* s t \<Longrightarrow> t = s"
  using chain_terminal rtranclp_chain_from by metis

lemma moves_from_open: "chain_from can s es t \<Longrightarrow> (a, b) \<in> set es \<Longrightarrow> \<not> terminal a"
  using chain_from_moves terminal_stuck by metis

lemma terminal_iff_stuck: "terminal s \<longleftrightarrow> (\<forall>t. \<not> can s t)"
  using terminal_stuck progress by auto

end

end
