(* ===== verification/Security_Domain.thy ===== *)
theory Security_Domain
  imports Security_Types Lifecycle
begin

text \<open>
  The pure rules of \<open>crates/claudear-core/src/security.rs\<close>: canonical fix identifiers, canonical GitHub
  pull request URLs, the first reporter rule, and what an admin override may say. The theorems say which
  inputs each parser and validator accepts, exactly, and that the first reporter of a vulnerability does
  not depend on the order reports are registered in.
\<close>

section \<open>Fix identifiers\<close>

definition security_fix_source :: string where
  "security_fix_source = ''security''"

definition security_fix_short_id_prefix :: string where
  "security_fix_short_id_prefix = ''SEC-''"

definition security_fix_short_id :: "int \<Rightarrow> string" where
  "security_fix_short_id vulnerability_id = security_fix_short_id_prefix @ show_int vulnerability_id"

definition parse_security_fix_short_id :: "string \<Rightarrow> int option" where
  "parse_security_fix_short_id value =
     (case strip_prefix security_fix_short_id_prefix value of
        None \<Rightarrow> None
      | Some digits \<Rightarrow>
          if digits = [] \<or> \<not> list_all is_digit digits then None
          else (case parse_i64 digits of
                  None \<Rightarrow> None
                | Some i \<Rightarrow> if 0 < i \<and> security_fix_short_id i = value then Some i else None))"

lemma security_fix_short_id_inject [simp]:
  "security_fix_short_id i = security_fix_short_id j \<longleftrightarrow> i = j"
  by (simp add: security_fix_short_id_def)

section \<open>Pull request URLs\<close>

definition github_url_prefix :: string where
  "github_url_prefix = ''https://github.com/''"

definition pull_segment :: string where
  "pull_segment = ''pull''"

record GithubPullRequest =
  pr_owner :: string
  pr_name :: string
  pr_number :: int

definition is_github_owner :: "string \<Rightarrow> bool" where
  "is_github_owner owner \<longleftrightarrow>
     owner \<noteq> [] \<and> length owner \<le> 39 \<and> \<not> starts_with owner ''-'' \<and> \<not> ends_with owner ''-'' \<and>
     list_all (\<lambda>c. is_ascii_alphanumeric c \<or> c = CHR ''-'') owner"

definition is_repository_segment :: "string \<Rightarrow> bool" where
  "is_repository_segment segment \<longleftrightarrow>
     segment \<noteq> [] \<and> length segment \<le> 100 \<and> segment \<noteq> ''.'' \<and> segment \<noteq> ''..'' \<and>
     \<not> starts_with segment ''-'' \<and>
     list_all (\<lambda>c. is_ascii_alphanumeric c \<or> c \<in> {CHR ''-'', CHR ''_'', CHR ''.''}) segment"

definition parse_pull_request_number :: "string \<Rightarrow> int option" where
  "parse_pull_request_number value =
     (if value = [] \<or> starts_with value ''0'' \<or> \<not> list_all is_digit value then None
      else parse_i64 value)"

definition pull_request_parse :: "string \<Rightarrow> GithubPullRequest option" where
  "pull_request_parse url =
     (case strip_prefix github_url_prefix url of
        None \<Rightarrow> None
      | Some path \<Rightarrow>
          (case split_on (CHR ''/'') path of
             [owner, name, pull, number] \<Rightarrow>
               if pull \<noteq> pull_segment then None
               else if \<not> is_github_owner owner \<or> \<not> is_repository_segment name then None
               else (case parse_pull_request_number number of
                       None \<Rightarrow> None
                     | Some n \<Rightarrow> Some \<lparr>pr_owner = owner, pr_name = name, pr_number = n\<rparr>)
           | _ \<Rightarrow> None))"

definition pull_request_repository :: "GithubPullRequest \<Rightarrow> string" where
  "pull_request_repository pr = pr_owner pr @ ''/'' @ pr_name pr"

definition pull_request_belongs_to :: "GithubPullRequest \<Rightarrow> string \<Rightarrow> bool" where
  "pull_request_belongs_to pr repository \<longleftrightarrow>
     eq_ignore_ascii_case (pull_request_repository pr) repository"

text \<open>The URL the accepted form names, written back.\<close>

definition pull_request_url :: "GithubPullRequest \<Rightarrow> string" where
  "pull_request_url pr =
     github_url_prefix @ pr_owner pr @ ''/'' @ pr_name pr @ ''/pull/'' @ show_int (pr_number pr)"

definition well_formed_pull_request :: "GithubPullRequest \<Rightarrow> bool" where
  "well_formed_pull_request pr \<longleftrightarrow>
     is_github_owner (pr_owner pr) \<and> is_repository_segment (pr_name pr) \<and>
     0 < pr_number pr \<and> pr_number pr < 2 ^ 63"

lemma alphanumeric_not_slash: "is_ascii_alphanumeric c \<Longrightarrow> c \<noteq> CHR ''/''"
  by (auto simp: is_ascii_alphanumeric_def is_digit_def is_ascii_upper_def is_ascii_lower_def byte_def)

lemma github_owner_no_slash: "is_github_owner owner \<Longrightarrow> CHR ''/'' \<notin> set owner"
  using alphanumeric_not_slash by (fastforce simp: is_github_owner_def list_all_iff)

lemma repository_segment_no_slash: "is_repository_segment s \<Longrightarrow> CHR ''/'' \<notin> set s"
  using alphanumeric_not_slash by (fastforce simp: is_repository_segment_def list_all_iff)

lemma digits_no_slash: "list_all is_digit s \<Longrightarrow> CHR ''/'' \<notin> set s"
  by (auto simp: list_all_iff is_digit_def byte_def)

lemma show_int_digits: "0 \<le> i \<Longrightarrow> list_all is_digit (show_int i)"
  by (simp add: show_int_def show_nat_digits)

lemma starts_with_hd: "starts_with s [c] \<longleftrightarrow> s \<noteq> [] \<and> hd s = c"
  by (cases s) (auto simp: starts_with_iff)

lemma hd_show_nat_pos: "0 < n \<Longrightarrow> hd (show_nat n) \<noteq> CHR ''0''"
proof (induction n rule: show_nat.induct)
  case (1 n)
  show ?case
  proof (cases "n < 10")
    case True
    have zero: "digit_value (CHR ''0'') = 0"
      by (simp add: digit_value_def byte_def)
    have "char_of (48 + n) \<noteq> CHR ''0''"
    proof
      assume "char_of (48 + n) = CHR ''0''"
      with digit_value_char [OF True] zero have "n = 0" by (simp only:)
      with "1.prems" show False by simp
    qed
    with True show ?thesis by (subst show_nat.simps) simp
  next
    case False
    with 1 have "hd (show_nat (n div 10)) \<noteq> CHR ''0''" by simp
    with False show ?thesis by (subst show_nat.simps) simp
  qed
qed

lemma parse_pull_request_number_Some:
  "parse_pull_request_number s = Some n \<longleftrightarrow> 0 < n \<and> n < 2 ^ 63 \<and> s = show_int n"
proof
  assume p: "parse_pull_request_number s = Some n"
  then have d: "s \<noteq> []" "hd s \<noteq> CHR ''0''" "list_all is_digit s" "n = int (read_digits s)"
      "read_digits s < 2 ^ 63"
    by (auto simp: parse_pull_request_number_def parse_i64_def starts_with_hd split: if_splits)
  then have "0 < read_digits s" "show_nat (read_digits s) = s"
    by (simp_all add: read_digits_pos show_read_digits)
  with d show "0 < n \<and> n < 2 ^ 63 \<and> s = show_int n"
    by (simp add: show_int_def)
next
  assume "0 < n \<and> n < 2 ^ 63 \<and> s = show_int n"
  then show "parse_pull_request_number s = Some n"
    using parse_show_i64 [of n] show_int_digits [of n] hd_show_nat_pos [of "nat n"]
    by (auto simp: parse_pull_request_number_def starts_with_hd show_int_def)
qed

lemma split_four:
  assumes "split_on c s = [w, x, y, z]"
  shows "s = w @ c # x @ c # y @ c # z"
  using join_split [of c s] by (simp add: assms)

lemma pull_request_parse_Some:
  "pull_request_parse url = Some pr \<longleftrightarrow> well_formed_pull_request pr \<and> url = pull_request_url pr"
proof
  assume p: "pull_request_parse url = Some pr"
  then obtain path where path: "url = github_url_prefix @ path"
    by (auto simp: pull_request_parse_def strip_prefix_Some split: option.splits)
  with p obtain owner name number n where parts: "split_on (CHR ''/'') path = [owner, name, pull_segment, number]"
      "is_github_owner owner" "is_repository_segment name" "parse_pull_request_number number = Some n"
      "pr = \<lparr>pr_owner = owner, pr_name = name, pr_number = n\<rparr>"
    by (auto simp: pull_request_parse_def split: list.splits if_splits option.splits)
  then show "well_formed_pull_request pr \<and> url = pull_request_url pr"
    using path split_four [OF parts(1)]
    by (auto simp: well_formed_pull_request_def pull_request_url_def pull_segment_def
        parse_pull_request_number_Some)
next
  assume "well_formed_pull_request pr \<and> url = pull_request_url pr"
  then have wf: "is_github_owner (pr_owner pr)" "is_repository_segment (pr_name pr)"
      "0 < pr_number pr" "pr_number pr < 2 ^ 63"
    and url: "url = github_url_prefix @ pr_owner pr @ CHR ''/'' #
      pr_name pr @ CHR ''/'' # pull_segment @ CHR ''/'' # show_int (pr_number pr)"
    by (simp_all add: well_formed_pull_request_def pull_request_url_def pull_segment_def)
  have "split_on (CHR ''/'') (pr_owner pr @ CHR ''/'' # pr_name pr @ CHR ''/'' # pull_segment @
      CHR ''/'' # show_int (pr_number pr)) =
      [pr_owner pr, pr_name pr, pull_segment, show_int (pr_number pr)]"
    using wf by (simp add: split_on_append github_owner_no_slash repository_segment_no_slash
        split_on_free digits_no_slash show_int_digits pull_segment_def)
  moreover have "parse_pull_request_number (show_int (pr_number pr)) = Some (pr_number pr)"
    using wf by (simp add: parse_pull_request_number_Some)
  ultimately show "pull_request_parse url = Some pr"
    using wf by (simp add: pull_request_parse_def url)
qed

lemma parse_security_fix_short_id_Some:
  "parse_security_fix_short_id value = Some i \<longleftrightarrow>
     0 < i \<and> i < 2 ^ 63 \<and> value = security_fix_short_id i"
proof
  assume p: "parse_security_fix_short_id value = Some i"
  then obtain digits where "strip_prefix security_fix_short_id_prefix value = Some digits"
      "parse_i64 digits = Some i" "0 < i" "security_fix_short_id i = value"
    by (auto simp: parse_security_fix_short_id_def split: option.splits if_splits)
  then show "0 < i \<and> i < 2 ^ 63 \<and> value = security_fix_short_id i"
    by (auto simp: parse_i64_def split: if_splits)
next
  assume "0 < i \<and> i < 2 ^ 63 \<and> value = security_fix_short_id i"
  moreover from this have "show_int i \<noteq> []" "list_all is_digit (show_int i)"
    by (simp_all add: show_int_def show_nat_digits)
  ultimately show "parse_security_fix_short_id value = Some i"
    by (simp add: parse_security_fix_short_id_def security_fix_short_id_def parse_show_i64)
qed

section \<open>The first reporter\<close>

datatype FirstReport = FirstReport (fr_report_id: int) (fr_reported_at: datetime)

instantiation FirstReport :: linorder
begin

definition less_eq_FirstReport :: "FirstReport \<Rightarrow> FirstReport \<Rightarrow> bool" where
  "a \<le> b \<longleftrightarrow> (fr_reported_at a, fr_report_id a) \<le> (fr_reported_at b, fr_report_id b)"

definition less_FirstReport :: "FirstReport \<Rightarrow> FirstReport \<Rightarrow> bool" where
  "a < b \<longleftrightarrow> (fr_reported_at a, fr_report_id a) < (fr_reported_at b, fr_report_id b)"

instance
  by standard
    (auto simp: less_eq_FirstReport_def less_FirstReport_def intro: FirstReport.expand)

end

definition precedes :: "FirstReport \<Rightarrow> FirstReport \<Rightarrow> bool" where
  "precedes self other \<longleftrightarrow>
     fr_reported_at self < fr_reported_at other \<or>
     (fr_reported_at self = fr_reported_at other \<and> fr_report_id self < fr_report_id other)"

lemma precedes_less: "precedes a b \<longleftrightarrow> a < b"
  by (auto simp: precedes_def less_FirstReport_def)

datatype FirstReporterDecision = KeepExisting | Replace

definition select_first_reporter ::
    "FirstReport \<Rightarrow> FirstReport \<Rightarrow> bool \<Rightarrow> FirstReporterDecision" where
  "select_first_reporter current candidate award_exists =
     (if precedes candidate current \<and> \<not> award_exists
      then FirstReporterDecision.Replace else FirstReporterDecision.KeepExisting)"

text \<open>The first reporter after a candidate is considered.\<close>

definition next_first_reporter :: "bool \<Rightarrow> FirstReport \<Rightarrow> FirstReport \<Rightarrow> FirstReport" where
  "next_first_reporter award_exists current candidate =
     (case select_first_reporter current candidate award_exists of
        FirstReporterDecision.Replace \<Rightarrow> candidate
      | FirstReporterDecision.KeepExisting \<Rightarrow> current)"

lemma next_first_reporter_min: "next_first_reporter False a b = min a b"
  by (auto simp: next_first_reporter_def select_first_reporter_def precedes_less min_def)

lemma next_first_reporter_award: "next_first_reporter True a b = a"
  by (simp add: next_first_reporter_def select_first_reporter_def)

lemma foldl_next_first_reporter:
  "foldl (next_first_reporter False) r rs = Min (set (r # rs))"
proof (induction rs arbitrary: r)
  case (Cons x rs)
  have "foldl (next_first_reporter False) r (x # rs) = Min (set (min r x # rs))"
    by (subst foldl_Cons, subst next_first_reporter_min) (rule Cons.IH)
  also have "\<dots> = Min (set (r # x # rs))"
    by (cases "rs = []") (simp_all add: Min_insert min.assoc)
  finally show ?case .
qed simp

section \<open>Admin overrides\<close>

datatype SecurityOverride =
    Reassess
  | Outcome (ov_outcome: SecurityOutcome) (ov_public_reason: "string option") (ov_fixed_on: "int option")
  | ConfirmDelivery (ov_kind: SecurityReplyKind) (ov_delivered: bool)
  | ConfirmValid (ov_title: string) (ov_summary: string) (ov_repository: "string option")
      (ov_severity: "SecuritySeverity option")

abbreviation max_public_reason_chars :: nat where "max_public_reason_chars \<equiv> 1000"
abbreviation max_confirmed_title_chars :: nat where "max_confirmed_title_chars \<equiv> 200"
abbreviation max_confirmed_summary_chars :: nat where "max_confirmed_summary_chars \<equiv> 5000"

definition validate_outcome ::
    "SecurityOutcome \<Rightarrow> string option \<Rightarrow> int option \<Rightarrow> string + unit" where
  "validate_outcome outcome public_reason fixed_on =
     (if outcome = SecurityOutcome.Valid
      then Inl ''use confirm_valid to accept a report as valid''
      else if (case public_reason of None \<Rightarrow> False
               | Some reason \<Rightarrow> max_public_reason_chars < chars_count reason)
      then Inl (''public_reason must be at most '' @ show_nat max_public_reason_chars @ '' characters'')
      else if outcome = SecurityOutcome.AlreadyFixed \<and> fixed_on = None
      then Inl ''already_fixed requires fixed_on''
      else if outcome \<in> {SecurityOutcome.NotVulnerability, SecurityOutcome.OutOfScope} \<and>
              (case public_reason of None \<Rightarrow> True | Some reason \<Rightarrow> trim reason = [])
      then Inl (outcome_as_str outcome @ '' requires a public_reason'')
      else Inr ())"

definition is_repository_name :: "string \<Rightarrow> bool" where
  "is_repository_name value =
     (case split_on (CHR ''/'') value of
        [owner, name] \<Rightarrow> is_repository_segment owner \<and> is_repository_segment name
      | _ \<Rightarrow> False)"

definition validate_required_text :: "string \<Rightarrow> string \<Rightarrow> nat \<Rightarrow> string + unit" where
  "validate_required_text field value max_chars =
     (if trim value = [] then Inl (field @ '' must not be empty'')
      else if max_chars < chars_count value
      then Inl (field @ '' must be at most '' @ show_nat max_chars @ '' characters'')
      else Inr ())"

definition validate_confirmation :: "string \<Rightarrow> string \<Rightarrow> string option \<Rightarrow> string + unit" where
  "validate_confirmation title summary repository =
     (case validate_required_text ''title'' title max_confirmed_title_chars of
        Inl e \<Rightarrow> Inl e
      | Inr _ \<Rightarrow>
          (case validate_required_text ''summary'' summary max_confirmed_summary_chars of
             Inl e \<Rightarrow> Inl e
           | Inr _ \<Rightarrow>
               (case repository of
                  Some r \<Rightarrow>
                    if is_repository_name r then Inr ()
                    else Inl ''repository must be in owner/name form''
                | None \<Rightarrow> Inr ())))"

fun validate_override :: "SecurityOverride \<Rightarrow> string + unit" where
  "validate_override Reassess = Inr ()"
| "validate_override (ConfirmDelivery kind delivered) = Inr ()"
| "validate_override (Outcome out reason fixed_on) = validate_outcome out reason fixed_on"
| "validate_override (ConfirmValid title summary repository severity) =
     validate_confirmation title summary repository"

lemma is_repository_name_iff:
  "is_repository_name v \<longleftrightarrow>
     (\<exists>a b. v = a @ ''/'' @ b \<and> is_repository_segment a \<and> is_repository_segment b)"
proof
  assume "is_repository_name v"
  then obtain a b where "split_on (CHR ''/'') v = [a, b]"
      "is_repository_segment a" "is_repository_segment b"
    by (auto simp: is_repository_name_def split: list.splits)
  moreover from this have "v = a @ ''/'' @ b"
    using join_split [of "CHR ''/''" v] by simp
  ultimately show "\<exists>a b. v = a @ ''/'' @ b \<and> is_repository_segment a \<and> is_repository_segment b"
    by blast
next
  assume "\<exists>a b. v = a @ ''/'' @ b \<and> is_repository_segment a \<and> is_repository_segment b"
  then show "is_repository_name v"
    by (auto simp: is_repository_name_def split_on_append split_on_free repository_segment_no_slash)
qed

lemma validate_required_text_ok:
  "validate_required_text field v m = Inr () \<longleftrightarrow> trim v \<noteq> [] \<and> chars_count v \<le> m"
  by (simp add: validate_required_text_def)

section \<open>The state machines\<close>

interpretation report_life: lifecycle report_can_transition_to report_is_terminal
proof
  fix s t
  show "report_is_terminal s \<Longrightarrow> \<not> report_can_transition_to s t"
    by (cases s) auto
  show "\<not> report_is_terminal s \<Longrightarrow> \<exists>t. report_can_transition_to s t"
    by (cases s) auto
qed

interpretation vulnerability_life:
  lifecycle vulnerability_can_transition_to "\<lambda>s. s = VulnerabilityState.Live"
proof
  fix s t
  show "s = VulnerabilityState.Live \<Longrightarrow> \<not> vulnerability_can_transition_to s t"
    by (cases s) auto
  show "s \<noteq> VulnerabilityState.Live \<Longrightarrow> \<exists>t. vulnerability_can_transition_to s t"
    by (cases s) auto
qed

interpretation award_life:
  lifecycle award_can_transition_to "\<lambda>s. s \<in> {AwardStatus.Awarded, AwardStatus.Cancelled}"
proof
  fix s t
  show "s \<in> {AwardStatus.Awarded, AwardStatus.Cancelled} \<Longrightarrow> \<not> award_can_transition_to s t"
    by (cases s) auto
  show "s \<notin> {AwardStatus.Awarded, AwardStatus.Cancelled} \<Longrightarrow> \<exists>t. award_can_transition_to s t"
    by (cases s) auto
qed

lemma report_into_resolved:
  "report_can_transition_to a SecurityReportState.Resolved \<longleftrightarrow> a = SecurityReportState.Tracking"
  by (cases a) auto

lemma report_into_closed:
  "report_can_transition_to a SecurityReportState.Closed \<longleftrightarrow> a = SecurityReportState.Replying"
  by (cases a) auto

lemma report_into_tracking:
  "report_can_transition_to a SecurityReportState.Tracking \<longleftrightarrow>
     a \<in> {SecurityReportState.Assessing, SecurityReportState.Registering}"
  by (cases a) auto

lemma report_into_registering:
  "report_can_transition_to a SecurityReportState.Registering \<longleftrightarrow> a = SecurityReportState.NeedsHuman"
  by (cases a) auto

lemma vulnerability_into_live:
  "vulnerability_can_transition_to a VulnerabilityState.Live \<longleftrightarrow>
     a \<in> {VulnerabilityState.Merged, VulnerabilityState.NeedsHuman}"
  by (cases a) auto

lemma vulnerability_into_merged:
  "vulnerability_can_transition_to a VulnerabilityState.Merged \<longleftrightarrow> a = VulnerabilityState.Fixing"
  by (cases a) auto

text \<open>From every open state some way leads to a terminal one.\<close>

lemma report_reaches_terminal: "\<exists>t. report_is_terminal t \<and> report_can_transition_to\<^sup>*\<^sup>* s t"
proof -
  have spam: "report_can_transition_to\<^sup>*\<^sup>* SecurityReportState.NeedsHuman SecurityReportState.Spam"
    by (rule r_into_rtranclp) simp
  have "s = SecurityReportState.NeedsHuman \<or> report_is_terminal s \<or>
      report_can_transition_to s SecurityReportState.NeedsHuman"
    by (cases s) auto
  with spam show ?thesis
    by (metis converse_rtranclp_into_rtranclp insertI1 report_is_terminal.simps rtranclp.rtrancl_refl)
qed

section \<open>Properties\<close>

text \<open>
  Every enum stored as text is read back from the text it is written as, and from no other.
\<close>

theorem enum_texts_round_trip:
  "(report_state_from_str t = Inr a \<longleftrightarrow> t = report_state_as_str a) \<and>
   (vulnerability_state_from_str t = Inr b \<longleftrightarrow> t = vulnerability_state_as_str b) \<and>
   (outcome_from_str t = Inr c \<longleftrightarrow> t = outcome_as_str c) \<and>
   (reply_kind_from_str t = Inr d \<longleftrightarrow> t = reply_kind_as_str d) \<and>
   (severity_from_str t = Inr e \<longleftrightarrow> t = severity_as_str e) \<and>
   (delivery_status_from_str t = Inr f \<longleftrightarrow> t = delivery_status_as_str f) \<and>
   (award_status_from_str t = Inr g \<longleftrightarrow> t = award_status_as_str g) \<and>
   (event_kind_from_str t = Inr h \<longleftrightarrow> t = event_kind_as_str h)"
  unfolding report_state_from_str_def vulnerability_state_from_str_def outcome_from_str_def
    reply_kind_from_str_def severity_from_str_def delivery_status_from_str_def
    award_status_from_str_def event_kind_from_str_def
  by (intro conjI report_state.from_str_Inr vulnerability_state.from_str_Inr outcome.from_str_Inr
      reply_kind.from_str_Inr severity.from_str_Inr delivery_status.from_str_Inr
      award_status.from_str_Inr event_kind.from_str_Inr)

text \<open>
  Property C40. A pull request URL is accepted exactly when it is the canonical URL of a well-formed owner,
  repository name and positive 63-bit number, which are what it is parsed into.
\<close>

theorem pull_request_parse_exact:
  "pull_request_parse url = Some pr \<longleftrightarrow> well_formed_pull_request pr \<and> url = pull_request_url pr"
  by (rule pull_request_parse_Some)

text \<open>
  A security fix is named by the canonical short id of its vulnerability: the parser accepts
  exactly the texts \<open>SEC-<id>\<close> of positive ids, so no two ids share a name and no id has two.
\<close>

theorem security_fix_short_id_exact:
  "parse_security_fix_short_id value = Some i \<longleftrightarrow>
     0 < i \<and> i < 2 ^ 63 \<and> value = security_fix_short_id i"
  by (rule parse_security_fix_short_id_Some)

text \<open>
  Property C18. While there is no award, the reporter credited after any sequence of registered reports is the
  earliest by reporting time, then by id, whatever the order they were registered in; once there is an
  award, the credited reporter never changes.
\<close>

theorem first_reporter_is_earliest:
  "foldl (next_first_reporter False) r rs = Min (set (r # rs)) \<and> foldl (next_first_reporter True) r rs = r"
proof
  show "foldl (next_first_reporter True) r rs = r"
    by (induction rs) (simp_all add: next_first_reporter_award)
qed (rule foldl_next_first_reporter)

text \<open>
  An admin override passes validation exactly when: a rejection is not the outcome \<open>valid\<close>, has
  a short enough public reason, names the fix date when the issue was already fixed and a reason when it is
  not a vulnerability or out of scope; and a confirmation has a title and a summary that are not blank and
  short enough, and a repository of the form \<open>owner/name\<close> if any.
\<close>

definition override_acceptable :: "SecurityOverride \<Rightarrow> bool" where
  "override_acceptable ov \<longleftrightarrow>
     (case ov of
        Reassess \<Rightarrow> True
      | ConfirmDelivery kind delivered \<Rightarrow> True
      | Outcome out reason fixed_on \<Rightarrow>
          out \<noteq> SecurityOutcome.Valid \<and>
          (case reason of None \<Rightarrow> True | Some r \<Rightarrow> chars_count r \<le> max_public_reason_chars) \<and>
          (out = SecurityOutcome.AlreadyFixed \<longrightarrow> fixed_on \<noteq> None) \<and>
          (out = SecurityOutcome.NotVulnerability \<or> out = SecurityOutcome.OutOfScope \<longrightarrow>
             (\<exists>r. reason = Some r \<and> trim r \<noteq> []))
      | ConfirmValid title summary repository severity \<Rightarrow>
          trim title \<noteq> [] \<and> chars_count title \<le> max_confirmed_title_chars \<and>
          trim summary \<noteq> [] \<and> chars_count summary \<le> max_confirmed_summary_chars \<and>
          (case repository of None \<Rightarrow> True
           | Some r \<Rightarrow> \<exists>a b. r = a @ ''/'' @ b \<and> is_repository_segment a \<and> is_repository_segment b))"

theorem validate_override_exact: "validate_override ov = Inr () \<longleftrightarrow> override_acceptable ov"
proof (cases ov)
  case (Outcome out reason fixed_on)
  then show ?thesis
    by (cases reason) (auto simp: override_acceptable_def validate_outcome_def not_less)
next
  case (ConfirmValid title summary repository severity)
  have "validate_confirmation title summary repository = Inr () \<longleftrightarrow>
      validate_required_text ''title'' title max_confirmed_title_chars = Inr () \<and>
      validate_required_text ''summary'' summary max_confirmed_summary_chars = Inr () \<and>
      (case repository of None \<Rightarrow> True | Some r \<Rightarrow> is_repository_name r)"
    by (auto simp: validate_confirmation_def split: sum.splits option.splits)
  with ConfirmValid show ?thesis
    by (simp add: override_acceptable_def validate_required_text_ok is_repository_name_iff split: option.split)
qed (simp_all add: override_acceptable_def)

text \<open>
  A report is stuck exactly in the terminal states, and from every state some sequence of
  allowed moves reaches a terminal one; a vulnerability is stuck exactly when live, an award exactly when
  awarded or cancelled.
\<close>

theorem lifecycles_end:
  "(report_is_terminal s \<longleftrightarrow> (\<forall>t. \<not> report_can_transition_to s t)) \<and>
   (\<exists>t. report_is_terminal t \<and> report_can_transition_to\<^sup>*\<^sup>* s t) \<and>
   (v = VulnerabilityState.Live \<longleftrightarrow> (\<forall>t. \<not> vulnerability_can_transition_to v t)) \<and>
   (w \<in> {AwardStatus.Awarded, AwardStatus.Cancelled} \<longleftrightarrow> (\<forall>t. \<not> award_can_transition_to w t))"
  by (intro conjI report_life.terminal_iff_stuck report_reaches_terminal
      vulnerability_life.terminal_iff_stuck award_life.terminal_iff_stuck)

end
