(* ===== verification/Pr_Url.thy ===== *)
theory Pr_Url
  imports Security_Domain
begin

text \<open>
  \<open>parse_pr_url\<close> of \<open>crates/claudear-storage/src/lib.rs\<close>: the repository and number a GitHub pull request
  URL or a GitLab merge request URL names, found anywhere in the text. The two regular expressions are
  written as the leftmost-first matchers they denote, one function per expression; their classes are
  ASCII or end at an ASCII character, so they work on bytes.
\<close>

abbreviation max_pr_url_length :: nat where "max_pr_url_length \<equiv> 2048"

text \<open>A non-empty run of characters other than \<open>/\<close>, and the rest after the \<open>/\<close> that ends it.\<close>

definition path_segment :: "string \<Rightarrow> (string \<times> string) option" where
  "path_segment s =
     (case (takeWhile (\<lambda>c. c \<noteq> CHR ''/'') s, dropWhile (\<lambda>c. c \<noteq> CHR ''/'') s) of
        (w, _ # rest) \<Rightarrow> if w = [] then None else Some (w, rest)
      | _ \<Rightarrow> None)"

text \<open>\<open>(\d+)\<close>, greedy.\<close>

definition digits_run :: "string \<Rightarrow> string option" where
  "digits_run s = (let d = takeWhile is_digit s in if d = [] then None else Some d)"

text \<open>\<open>github\.com/([^/]+/[^/]+)/pull/(\d+)\<close> at the start of the text.\<close>

definition github_host :: string where
  "github_host = ''github.com/''"

definition pull_path :: string where
  "pull_path = ''pull/''"

definition github_match :: "string \<Rightarrow> (string \<times> string) option" where
  "github_match s =
     (case strip_prefix github_host s of
        None \<Rightarrow> None
      | Some s1 \<Rightarrow>
          (case path_segment s1 of
             None \<Rightarrow> None
           | Some (owner, s2) \<Rightarrow>
               (case path_segment s2 of
                  None \<Rightarrow> None
                | Some (name, s3) \<Rightarrow>
                    (case strip_prefix pull_path s3 of
                       None \<Rightarrow> None
                     | Some s4 \<Rightarrow> map_option (\<lambda>d. (owner @ ''/'' @ name, d)) (digits_run s4)))))"

text \<open>\<open>(.+?)/-/merge_requests/(\d+)\<close>: the shortest project, without line feeds, that the rest follows.\<close>

fun project_match :: "string \<Rightarrow> string \<Rightarrow> (string \<times> string) option" where
  "project_match taken [] = None"
| "project_match taken (c # cs) =
     (let here =
        (if taken = [] then None
         else (case strip_prefix ''/-/merge_requests/'' (c # cs) of
                 None \<Rightarrow> None
               | Some rest \<Rightarrow> map_option (\<lambda>d. (taken, d)) (digits_run rest)))
      in case here of
           Some m \<Rightarrow> Some m
         | None \<Rightarrow> if byte c = 10 then None else project_match (taken @ [c]) cs)"

text \<open>\<open>https?://[^/]+/\<close>, then the project.\<close>

definition gitlab_match :: "string \<Rightarrow> (string \<times> string) option" where
  "gitlab_match s =
     (case strip_prefix ''http'' s of
        None \<Rightarrow> None
      | Some s1 \<Rightarrow>
          (let s2 = (case strip_prefix ''s'' s1 of Some r \<Rightarrow> r | None \<Rightarrow> s1) in
           case strip_prefix ''://'' s2 of
             None \<Rightarrow> None
           | Some s3 \<Rightarrow>
               (case path_segment s3 of
                  None \<Rightarrow> None
                | Some (host, s4) \<Rightarrow> project_match [] s4)))"

text \<open>The leftmost match.\<close>

fun first_match :: "(string \<Rightarrow> 'a option) \<Rightarrow> string \<Rightarrow> 'a option" where
  "first_match m [] = m []"
| "first_match m (c # cs) = (case m (c # cs) of Some x \<Rightarrow> Some x | None \<Rightarrow> first_match m cs)"

definition parse_pr_url :: "string \<Rightarrow> (string \<times> int) option" where
  "parse_pr_url url =
     (if max_pr_url_length < length url then None
      else (case first_match github_match url of
              Some (repo, digits) \<Rightarrow> map_option (\<lambda>n. (repo, n)) (parse_i64 digits)
            | None \<Rightarrow>
                (case first_match gitlab_match url of
                   Some (project, digits) \<Rightarrow> map_option (\<lambda>n. (project, n)) (parse_i64 digits)
                 | None \<Rightarrow> None)))"

section \<open>Properties of the matchers\<close>

lemma path_segment_append:
  "w \<noteq> [] \<Longrightarrow> CHR ''/'' \<notin> set w \<Longrightarrow> path_segment (w @ CHR ''/'' # rest) = Some (w, rest)"
proof -
  assume w: "w \<noteq> []" "CHR ''/'' \<notin> set w"
  then have all: "\<And>c. c \<in> set w \<Longrightarrow> c \<noteq> CHR ''/''" by auto
  have "takeWhile (\<lambda>c. c \<noteq> CHR ''/'') (w @ CHR ''/'' # rest) = w"
      "dropWhile (\<lambda>c. c \<noteq> CHR ''/'') (w @ CHR ''/'' # rest) = CHR ''/'' # rest"
    using all by (simp_all add: takeWhile_append2 dropWhile_append2)
  with w show ?thesis by (simp add: path_segment_def)
qed

lemma path_segment_Some:
  "path_segment s = Some (w, rest) \<longleftrightarrow> w \<noteq> [] \<and> CHR ''/'' \<notin> set w \<and> s = w @ CHR ''/'' # rest"
proof
  assume p: "path_segment s = Some (w, rest)"
  then obtain c where d: "dropWhile (\<lambda>c. c \<noteq> CHR ''/'') s = c # rest"
      and w: "w = takeWhile (\<lambda>c. c \<noteq> CHR ''/'') s" "w \<noteq> []"
    by (auto simp: path_segment_def split: list.splits if_splits)
  have "c = CHR ''/''"
    using d by (metis (mono_tags, lifting) dropWhile_eq_Cons_conv)
  moreover have "CHR ''/'' \<notin> set w"
    using w(1) by (auto dest: set_takeWhileD)
  ultimately show "w \<noteq> [] \<and> CHR ''/'' \<notin> set w \<and> s = w @ CHR ''/'' # rest"
    using d w by (metis takeWhile_dropWhile_id)
qed (simp add: path_segment_append)

lemma digits_run_digits:
  "list_all is_digit d \<Longrightarrow> d \<noteq> [] \<Longrightarrow> rest = [] \<or> \<not> is_digit (hd rest) \<Longrightarrow>
     digits_run (d @ rest) = Some d"
proof -
  assume d: "list_all is_digit d" "d \<noteq> []" and rest: "rest = [] \<or> \<not> is_digit (hd rest)"
  have "takeWhile is_digit (d @ rest) = d @ takeWhile is_digit rest"
    using d by (intro takeWhile_append2) (auto simp: list_all_iff)
  moreover have "takeWhile is_digit rest = []"
    using rest by (cases rest) auto
  ultimately show ?thesis
    using d by (simp add: digits_run_def)
qed

lemma digits_run_Some: "digits_run s = Some d \<Longrightarrow> list_all is_digit d \<and> d \<noteq> [] \<and> (\<exists>r. s = d @ r)"
  by (auto simp: digits_run_def list_all_iff Let_def dest: set_takeWhileD split: if_splits
      intro: takeWhile_dropWhile_id [symmetric])

lemma first_match_Some: "first_match m s = Some x \<Longrightarrow> \<exists>u v. s = u @ v \<and> m v = Some x"
proof (induction m s rule: first_match.induct)
  case (2 m c cs)
  show ?case
  proof (cases "m (c # cs)")
    case None
    with 2 obtain u v where "cs = u @ v" "m v = Some x" by auto
    then have "c # cs = (c # u) @ v \<and> m v = Some x" by simp
    then show ?thesis by blast
  next
    case (Some y)
    with 2 have "c # cs = [] @ (c # cs) \<and> m (c # cs) = Some x" by simp
    then show ?thesis by blast
  qed
qed force

lemma github_match_Some:
  "github_match s = Some (repo, d) \<longleftrightarrow>
     (\<exists>owner name rest. owner \<noteq> [] \<and> name \<noteq> [] \<and> CHR ''/'' \<notin> set owner \<and> CHR ''/'' \<notin> set name \<and>
        repo = owner @ ''/'' @ name \<and> digits_run rest = Some d \<and>
        s = github_host @ owner @ CHR ''/'' # name @ CHR ''/'' # pull_path @ rest)"
  (is "?m \<longleftrightarrow> ?shape")
proof
  assume ?m
  then obtain s1 owner s2 name s3 s4 where
      "strip_prefix github_host s = Some s1" "path_segment s1 = Some (owner, s2)"
      "path_segment s2 = Some (name, s3)" "strip_prefix pull_path s3 = Some s4"
      "digits_run s4 = Some d" "repo = owner @ ''/'' @ name"
    by (auto simp: github_match_def split: option.splits)
  then show ?shape
    by (auto simp: strip_prefix_Some path_segment_Some)
next
  assume ?shape
  then show ?m
    by (auto simp: github_match_def path_segment_append)
qed

lemma first_match_none_before:
  "(\<And>u v. p = u @ v \<Longrightarrow> v \<noteq> [] \<Longrightarrow> m (v @ s) = None) \<Longrightarrow> m s = Some x \<Longrightarrow> first_match m (p @ s) = Some x"
proof (induction p)
  case Nil
  then show ?case by (cases s) auto
next
  case (Cons c p)
  have "m ((c # p) @ s) = None"
    using Cons.prems(1) [of "[]" "c # p"] by simp
  moreover have "first_match m (p @ s) = Some x"
  proof (rule Cons.IH)
    fix u v
    assume "p = u @ v" "v \<noteq> []"
    then show "m (v @ s) = None"
      using Cons.prems(1) [of "c # u" v] by simp
  qed (rule Cons.prems(2))
  ultimately show ?case by simp
qed

text \<open>A canonical GitHub pull request URL is read the same way by the two parsers of the program.\<close>

lemma github_host_not_before:
  "''https://'' = u @ v \<Longrightarrow> v \<noteq> [] \<Longrightarrow> github_match (v @ github_host @ s) = None"
proof -
  assume uv: "''https://'' = u @ v" and v: "v \<noteq> []"
  then have "hd v \<in> set ''https://''"
    by (metis append_is_Nil_conv hd_in_set in_set_conv_decomp_first set_append UnCI)
  then have "hd v \<noteq> CHR ''g''" by auto
  with v show ?thesis
    by (cases v) (auto simp: github_match_def github_host_def split: option.splits)
qed

lemma length_show_nat: "n < 10 ^ Suc k \<Longrightarrow> length (show_nat n) \<le> Suc k"
proof (induction k arbitrary: n)
  case 0
  then show ?case by (subst show_nat.simps) simp
next
  case (Suc k)
  show ?case
  proof (cases "n < 10")
    case True
    then show ?thesis by (subst show_nat.simps) simp
  next
    case False
    have "n div 10 < 10 ^ Suc k"
      using Suc.prems by (intro less_mult_imp_div_less) (simp add: mult.commute)
    with Suc.IH have "length (show_nat (n div 10)) \<le> Suc k" by blast
    with False show ?thesis by (subst show_nat.simps) simp
  qed
qed

lemma length_show_i64:
  assumes "0 \<le> i" "i < 2 ^ 63"
  shows "length (show_int i) \<le> 19"
proof -
  have "nat i < 10 ^ Suc 18"
    using assms by (simp add: nat_less_iff)
  then have "length (show_nat (nat i)) \<le> 19"
    using length_show_nat [of "nat i" 18] by simp
  with assms(1) show ?thesis by (simp add: show_int_def)
qed

lemma length_pull_request_url: "well_formed_pull_request pr \<Longrightarrow> length (pull_request_url pr) \<le> max_pr_url_length"
proof -
  assume wf: "well_formed_pull_request pr"
  then have "length (show_int (pr_number pr)) \<le> 19"
    by (intro length_show_i64) (auto simp: well_formed_pull_request_def)
  with wf show ?thesis
    by (auto simp: pull_request_url_def github_url_prefix_def well_formed_pull_request_def
        is_github_owner_def is_repository_segment_def)
qed

lemma parse_pr_url_canonical:
  assumes "well_formed_pull_request pr"
  shows "parse_pr_url (pull_request_url pr) = Some (pull_request_repository pr, pr_number pr)"
proof -
  have pr: "pr_owner pr \<noteq> []" "pr_name pr \<noteq> []" "CHR ''/'' \<notin> set (pr_owner pr)"
      "CHR ''/'' \<notin> set (pr_name pr)" "0 < pr_number pr" "pr_number pr < 2 ^ 63"
    using assms github_owner_no_slash repository_segment_no_slash
    by (auto simp: well_formed_pull_request_def is_github_owner_def is_repository_segment_def)
  let ?tail = "pr_owner pr @ CHR ''/'' # pr_name pr @ CHR ''/'' # pull_path @ show_int (pr_number pr)"
  have url: "pull_request_url pr = ''https://'' @ github_host @ ?tail"
    by (simp add: pull_request_url_def github_url_prefix_def github_host_def pull_path_def)
  have digits: "digits_run (show_int (pr_number pr)) = Some (show_int (pr_number pr))"
    using digits_run_digits [of "show_int (pr_number pr)" "[]"] pr show_int_digits [of "pr_number pr"]
    by (simp add: show_int_def)
  have "github_match (github_host @ ?tail) =
      Some (pull_request_repository pr, show_int (pr_number pr))"
    using pr digits unfolding github_match_Some pull_request_repository_def by blast
  then have "first_match github_match (pull_request_url pr) =
      Some (pull_request_repository pr, show_int (pr_number pr))"
    unfolding url by (intro first_match_none_before github_host_not_before)
  then show ?thesis
    using length_pull_request_url [OF assms] parse_show_i64 [of "pr_number pr"] pr
    by (simp add: parse_pr_url_def)
qed

text \<open>
  The two parsers of pull request URLs agree: what the strict one of the security inbox accepts,
  the search of the attempt store reads as the same repository and number.
\<close>

theorem pull_request_parsers_agree:
  assumes "pull_request_parse url = Some pr"
  shows "parse_pr_url url = Some (pull_request_repository pr, pr_number pr)"
  using assms parse_pr_url_canonical by (simp add: pull_request_parse_Some)

theorem pull_request_parsers_agree_witness:
  "parse_pr_url ''https://github.com/appwrite/claudear/pull/42'' = Some (''appwrite/claudear'', 42)"
proof -
  let ?pr = "\<lparr>pr_owner = ''appwrite'', pr_name = ''claudear'', pr_number = 42\<rparr>"
  have "pull_request_parse ''https://github.com/appwrite/claudear/pull/42'' = Some ?pr"
    unfolding pull_request_parse_Some by (intro conjI; code_simp)
  from pull_request_parsers_agree [OF this] show ?thesis
    by (simp add: pull_request_repository_def)
qed

end
