(* ===== verification/Fix_Attempts.thy ===== *)
theory Fix_Attempts
  imports Tables Pr_Url
begin

text \<open>
  The store of fix attempts: the table \<open>fix_attempts\<close> (\<open>V1__initial_schema.sql\<close>, \<open>V8\<close>, \<open>V11\<close>, \<open>V14\<close>) and the
  \<open>AttemptTracker\<close> implementation of \<open>SqliteTracker\<close> (\<open>crates/claudear-storage/src/sqlite.rs\<close>). Every
  method locks the connection for its whole body, so it is one step on the table. \<open>datetime('now')\<close> is
  the argument \<open>now\<close>, fixed during a statement.
\<close>

section \<open>Attempts\<close>

datatype FixAttemptStatus =
  Pending | Success | Failed | Merged | Closed | CannotFix | Answered | Declined

definition attempt_statuses :: "FixAttemptStatus list" where
  "attempt_statuses =
     [FixAttemptStatus.Pending, FixAttemptStatus.Success, FixAttemptStatus.Failed,
      FixAttemptStatus.Merged, FixAttemptStatus.Closed, FixAttemptStatus.CannotFix,
      FixAttemptStatus.Answered, FixAttemptStatus.Declined]"

fun attempt_status_to_string :: "FixAttemptStatus \<Rightarrow> string" where
  "attempt_status_to_string FixAttemptStatus.Pending = ''pending''"
| "attempt_status_to_string FixAttemptStatus.Success = ''success''"
| "attempt_status_to_string FixAttemptStatus.Failed = ''failed''"
| "attempt_status_to_string FixAttemptStatus.Merged = ''merged''"
| "attempt_status_to_string FixAttemptStatus.Closed = ''closed''"
| "attempt_status_to_string FixAttemptStatus.CannotFix = ''cannot_fix''"
| "attempt_status_to_string FixAttemptStatus.Answered = ''answered''"
| "attempt_status_to_string FixAttemptStatus.Declined = ''declined''"

text \<open>\<open>to_lowercase\<close> turns only ASCII letters into the letters of these texts, so the ASCII fold decides.\<close>

definition attempt_status_from_str :: "string \<Rightarrow> string + FixAttemptStatus" where
  "attempt_status_from_str s =
     (let l = ascii_lowercase s in
      if l = ''pending'' then Inr FixAttemptStatus.Pending
      else if l = ''success'' then Inr FixAttemptStatus.Success
      else if l = ''failed'' then Inr FixAttemptStatus.Failed
      else if l = ''merged'' then Inr FixAttemptStatus.Merged
      else if l = ''closed'' then Inr FixAttemptStatus.Closed
      else if l = ''cannot_fix'' then Inr FixAttemptStatus.CannotFix
      else if l = ''answered'' then Inr FixAttemptStatus.Answered
      else if l = ''declined'' then Inr FixAttemptStatus.Declined
      else Inl (''Unknown status: '' @ s))"

interpretation attempt_status:
  text_enum attempt_statuses attempt_status_to_string attempt_status_from_str
proof
  show all: "set attempt_statuses = UNIV"
    unfolding attempt_statuses_def using FixAttemptStatus.exhaust by auto
  have "list_all (\<lambda>x. attempt_status_from_str (attempt_status_to_string x) = Inr x) attempt_statuses"
    by code_simp
  then show "attempt_status_from_str (attempt_status_to_string x) = Inr x" for x
    by (simp add: list_all_iff all)
qed

record FixAttempt =
  at_id :: int
  at_source :: string
  at_issue_id :: string
  at_short_id :: string
  at_attempted_at :: datetime
  at_pr_url :: "string option"
  at_scm_repo :: "string option"
  at_scm_pr_number :: "int option"
  at_status :: FixAttemptStatus
  at_error_message :: "string option"
  at_merged_at :: "datetime option"
  at_resolved_at :: "datetime option"
  at_retry_count :: u32
  at_last_retry_at :: "datetime option"
  at_issue_labels :: "string list"
  at_parent_attempt_id :: "int option"
  at_cascade_repo :: "string option"

definition bug_labels :: "string list" where
  "bug_labels =
     [''bug'', ''defect'', ''error'', ''fix'', ''hotfix'', ''regression'', ''issue'', ''problem'',
      ''incident'', ''crash'', ''broken'']"

text \<open>\<open>str::to_lowercase\<close> is the argument \<open>lower\<close>.\<close>

definition is_bug :: "(string \<Rightarrow> string) \<Rightarrow> FixAttempt \<Rightarrow> bool" where
  "is_bug lower a \<longleftrightarrow>
     at_source a = ''sentry'' \<or>
     list_ex (\<lambda>label. list_ex (\<lambda>b. contains_text (lower label) b) bug_labels) (at_issue_labels a)"

section \<open>Rows\<close>

record fix_attempt_row =
  fa_id :: int
  fa_source :: string
  fa_issue_id :: string
  fa_short_id :: string
  fa_attempted_at :: stamp
  fa_pr_url :: "string option"
  fa_scm_repo :: "string option"
  fa_scm_pr_number :: "int option"
  fa_status :: string
  fa_error_message :: "string option"
  fa_merged_at :: "stamp option"
  fa_resolved_at :: "stamp option"
  fa_retry_count :: int
  fa_last_retry_at :: "stamp option"
  fa_issue_labels :: "json option"
  fa_parent_attempt_id :: "int option"
  fa_cascade_repo :: "string option"
  fa_reset_at :: "stamp option"
  fa_answer_message_ids :: "string option"
  fa_routing_intent :: "string option"
  fa_heartbeat_at :: "stamp option"

record attempts_db =
  db_attempts :: "fix_attempt_row list"
  db_next_attempt :: int

abbreviation empty_attempts :: attempts_db where
  "empty_attempts \<equiv> \<lparr>db_attempts = [], db_next_attempt = 1\<rparr>"

text \<open>A column the \<open>INSERT\<close> statements leave out takes its default.\<close>

definition new_attempt_row ::
    "int \<Rightarrow> string \<Rightarrow> string \<Rightarrow> string \<Rightarrow> stamp \<Rightarrow> json option \<Rightarrow> int option \<Rightarrow> string option \<Rightarrow> fix_attempt_row" where
  "new_attempt_row i source issue_id short_id now labels parent cascade_repo =
     \<lparr>fa_id = i, fa_source = source, fa_issue_id = issue_id, fa_short_id = short_id,
      fa_attempted_at = now, fa_pr_url = None, fa_scm_repo = None, fa_scm_pr_number = None,
      fa_status = ''pending'', fa_error_message = None, fa_merged_at = None, fa_resolved_at = None,
      fa_retry_count = 0, fa_last_retry_at = None, fa_issue_labels = labels,
      fa_parent_attempt_id = parent, fa_cascade_repo = cascade_repo, fa_reset_at = None,
      fa_answer_message_ids = None, fa_routing_intent = None, fa_heartbeat_at = None\<rparr>"

fun strings_of_json :: "json list \<Rightarrow> string list option" where
  "strings_of_json [] = Some []"
| "strings_of_json (JStr s # js) = map_option (\<lambda>ss. s # ss) (strings_of_json js)"
| "strings_of_json (_ # js) = None"

text \<open>\<open>serde_json::from_str::<Vec<String>>(..).ok()\<close>, then \<open>unwrap_or_default\<close>.\<close>

fun labels_of_json :: "json option \<Rightarrow> string list" where
  "labels_of_json (Some (JArr js)) = (case strings_of_json js of Some ss \<Rightarrow> ss | None \<Rightarrow> [])"
| "labels_of_json _ = []"

definition row_to_fix_attempt :: "fix_attempt_row \<Rightarrow> FixAttempt result" where
  "row_to_fix_attempt r =
     rmap (\<lambda>retry_count.
       \<lparr>at_id = fa_id r, at_source = fa_source r, at_issue_id = fa_issue_id r,
        at_short_id = fa_short_id r, at_attempted_at = parse_datetime (fa_attempted_at r),
        at_pr_url = fa_pr_url r, at_scm_repo = fa_scm_repo r, at_scm_pr_number = fa_scm_pr_number r,
        at_status =
          (case attempt_status_from_str (fa_status r) of
             Inr s \<Rightarrow> s | Inl _ \<Rightarrow> FixAttemptStatus.Pending),
        at_error_message = fa_error_message r,
        at_merged_at = map_option parse_datetime (fa_merged_at r),
        at_resolved_at = map_option parse_datetime (fa_resolved_at r),
        at_retry_count = retry_count,
        at_last_retry_at = map_option parse_datetime (fa_last_retry_at r),
        at_issue_labels = labels_of_json (fa_issue_labels r),
        at_parent_attempt_id = fa_parent_attempt_id r, at_cascade_repo = fa_cascade_repo r\<rparr>)
       (read_u32 12 (fa_retry_count r))"

fun ok :: "'a result \<Rightarrow> 'a option" where
  "ok (Inr x) = Some x"
| "ok (Inl e) = None"

text \<open>\<open>rows.flatten()\<close>: the rows that convert.\<close>

definition flatten_rows :: "('r \<Rightarrow> 'a result) \<Rightarrow> 'r list \<Rightarrow> 'a list" where
  "flatten_rows f rows = List.map_filter (\<lambda>r. ok (f r)) rows"

lemma strings_of_json_map [simp]: "strings_of_json (map JStr ss) = Some ss"
  by (induction ss) simp_all

lemma row_to_fix_attempt_ok:
  "(\<exists>a. row_to_fix_attempt r = Inr a) \<longleftrightarrow> 0 \<le> fa_retry_count r \<and> fa_retry_count r < 2 ^ 32"
  by (auto simp: row_to_fix_attempt_def read_u32_def)

lemma ok_Some [simp]: "ok x = Some a \<longleftrightarrow> x = Inr a"
  by (cases x) auto

lemma in_flatten_rows: "a \<in> set (flatten_rows f rows) \<longleftrightarrow> (\<exists>r \<in> set rows. f r = Inr a)"
  by (force simp: flatten_rows_def map_filter_def)

section \<open>Recording and reading\<close>

definition is_issue :: "string \<Rightarrow> string \<Rightarrow> fix_attempt_row \<Rightarrow> bool" where
  "is_issue source issue_id r \<longleftrightarrow> fa_source r = source \<and> fa_issue_id r = issue_id"

definition is_original :: "string \<Rightarrow> string \<Rightarrow> fix_attempt_row \<Rightarrow> bool" where
  "is_original source issue_id r \<longleftrightarrow> is_issue source issue_id r \<and> fa_cascade_repo r = None"

definition update_attempts ::
    "(fix_attempt_row \<Rightarrow> bool) \<Rightarrow> (fix_attempt_row \<Rightarrow> fix_attempt_row) \<Rightarrow>
     'x attempts_db_scheme \<Rightarrow> 'x attempts_db_scheme" where
  "update_attempts p f s = s\<lparr>db_attempts := update_where p f (db_attempts s)\<rparr>"

text \<open>
  One \<open>INSERT\<close> into \<open>fix_attempts\<close>: the parent must exist (\<open>foreign_keys = ON\<close>), and an original attempt
  must be the only one of its issue (\<open>idx_fix_attempts_unique_original\<close>).
\<close>

definition insert_attempt :: "(int \<Rightarrow> fix_attempt_row) \<Rightarrow> ('x attempts_db_scheme, int) op" where
  "insert_attempt mk s =
     (let r = mk (db_next_attempt s) in
      if fa_cascade_repo r = None \<and>
         list_ex (is_original (fa_source r) (fa_issue_id r)) (db_attempts s)
      then (Inl (Database Unique_failed), s)
      else if (case fa_parent_attempt_id r of None \<Rightarrow> False
               | Some i \<Rightarrow> i \<noteq> fa_id r \<and> \<not> list_ex (\<lambda>x. fa_id x = i) (db_attempts s))
      then (Inl (Database Foreign_key_failed), s)
      else (Inr (fa_id r),
            s\<lparr>db_attempts := db_attempts s @ [r], db_next_attempt := db_next_attempt s + 1\<rparr>))"

definition has_attempted :: "string \<Rightarrow> string \<Rightarrow> 'x attempts_db_scheme \<Rightarrow> bool" where
  "has_attempted source issue_id s \<longleftrightarrow>
     list_ex (\<lambda>r. is_issue source issue_id r \<and> fa_reset_at r = None) (db_attempts s)"

definition get_attempted_issue_ids :: "string \<Rightarrow> 'x attempts_db_scheme \<Rightarrow> string set" where
  "get_attempted_issue_ids source s =
     set (map fa_issue_id
       (filter (\<lambda>r. fa_source r = source \<and> fa_reset_at r = None) (db_attempts s)))"

definition record_attempt_with_labels ::
    "stamp \<Rightarrow> string \<Rightarrow> string \<Rightarrow> string \<Rightarrow> string list \<Rightarrow> ('x attempts_db_scheme, unit) op" where
  "record_attempt_with_labels now source issue_id short_id labels s =
     (let labels_json = (if labels = [] then None else Some (JArr (map JStr labels))) in
      case find_by (is_original source issue_id) (db_attempts s) of
        None \<Rightarrow>
          bind_op
            (insert_attempt (\<lambda>i. new_attempt_row i source issue_id short_id now labels_json None None))
            (\<lambda>_. ret ()) s
      | Some r \<Rightarrow>
          (case fa_reset_at r of
             Some _ \<Rightarrow>
               (Inr (), update_attempts (is_original source issue_id)
                  (\<lambda>x. x\<lparr>fa_short_id := short_id, fa_attempted_at := now,
                     fa_issue_labels :=
                       (case labels_json of None \<Rightarrow> fa_issue_labels x | Some j \<Rightarrow> Some j),
                     fa_reset_at := None\<rparr>) s)
           | None \<Rightarrow> (Inr (), s)))"

definition record_attempt :: "stamp \<Rightarrow> string \<Rightarrow> string \<Rightarrow> string \<Rightarrow> ('x attempts_db_scheme, unit) op" where
  "record_attempt now source issue_id short_id =
     record_attempt_with_labels now source issue_id short_id []"

definition get_attempt :: "string \<Rightarrow> string \<Rightarrow> 'x attempts_db_scheme \<Rightarrow> FixAttempt option" where
  "get_attempt source issue_id s =
     (case find_by (is_issue source issue_id) (db_attempts s) of
        None \<Rightarrow> None | Some r \<Rightarrow> ok (row_to_fix_attempt r))"

definition get_attempts_by_status :: "FixAttemptStatus \<Rightarrow> 'x attempts_db_scheme \<Rightarrow> FixAttempt list" where
  "get_attempts_by_status status s =
     flatten_rows row_to_fix_attempt
       (order_desc fa_attempted_at
         (filter (\<lambda>r. fa_status r = attempt_status_to_string status) (db_attempts s)))"

definition get_pending_prs :: "'x attempts_db_scheme \<Rightarrow> FixAttempt list" where
  "get_pending_prs s =
     flatten_rows row_to_fix_attempt
       (order_desc fa_attempted_at
         (filter (\<lambda>r. fa_status r = ''success'' \<and> fa_pr_url r \<noteq> None \<and> fa_scm_repo r \<noteq> None)
           (db_attempts s)))"

definition get_attempt_by_pr_url :: "string \<Rightarrow> 'x attempts_db_scheme \<Rightarrow> FixAttempt option" where
  "get_attempt_by_pr_url pr_url s =
     (case order_desc fa_attempted_at
             (order_desc fa_id (filter (\<lambda>r. fa_pr_url r = Some pr_url) (db_attempts s))) of
        [] \<Rightarrow> None | r # _ \<Rightarrow> ok (row_to_fix_attempt r))"

section \<open>Outcomes\<close>

definition mark_success :: "string \<Rightarrow> string \<Rightarrow> string \<Rightarrow> 'x attempts_db_scheme \<Rightarrow> 'x attempts_db_scheme" where
  "mark_success source issue_id pr_url =
     (let parsed = parse_pr_url pr_url in
      update_attempts (is_original source issue_id)
        (\<lambda>r. r\<lparr>fa_status := ''success'', fa_pr_url := Some pr_url,
           fa_scm_repo := map_option fst parsed, fa_scm_pr_number := map_option snd parsed\<rparr>))"

definition mark_merged :: "stamp \<Rightarrow> string \<Rightarrow> string \<Rightarrow> 'x attempts_db_scheme \<Rightarrow> 'x attempts_db_scheme" where
  "mark_merged now source issue_id =
     update_attempts (is_original source issue_id)
       (\<lambda>r. r\<lparr>fa_status := ''merged'', fa_merged_at := Some now\<rparr>)"

definition mark_cascade_pr_outcome ::
    "stamp \<Rightarrow> int \<Rightarrow> bool \<Rightarrow> 'x attempts_db_scheme \<Rightarrow> 'x attempts_db_scheme" where
  "mark_cascade_pr_outcome now attempt_id merged =
     update_attempts (\<lambda>r. fa_id r = attempt_id \<and> fa_cascade_repo r \<noteq> None)
       (\<lambda>r. r\<lparr>fa_status := (if merged then ''merged'' else ''closed''),
          fa_merged_at := (if merged then Some now else fa_merged_at r)\<rparr>)"

definition mark_closed :: "string \<Rightarrow> string \<Rightarrow> 'x attempts_db_scheme \<Rightarrow> 'x attempts_db_scheme" where
  "mark_closed source issue_id =
     update_attempts (is_original source issue_id) (\<lambda>r. r\<lparr>fa_status := ''closed''\<rparr>)"

definition mark_resolved :: "stamp \<Rightarrow> string \<Rightarrow> string \<Rightarrow> 'x attempts_db_scheme \<Rightarrow> 'x attempts_db_scheme" where
  "mark_resolved now source issue_id =
     update_attempts (is_original source issue_id) (\<lambda>r. r\<lparr>fa_resolved_at := Some now\<rparr>)"

definition mark_failed :: "string \<Rightarrow> string \<Rightarrow> string \<Rightarrow> 'x attempts_db_scheme \<Rightarrow> 'x attempts_db_scheme" where
  "mark_failed source issue_id error_message =
     update_attempts (is_original source issue_id)
       (\<lambda>r. r\<lparr>fa_status := ''failed'', fa_error_message := Some error_message\<rparr>)"

definition reset_attempt :: "stamp \<Rightarrow> string \<Rightarrow> string \<Rightarrow> 'x attempts_db_scheme \<Rightarrow> 'x attempts_db_scheme" where
  "reset_attempt now source issue_id =
     update_attempts (is_issue source issue_id)
       (\<lambda>r. r\<lparr>fa_status := ''pending'', fa_retry_count := 0, fa_reset_at := Some now,
          fa_pr_url := None, fa_scm_repo := None, fa_scm_pr_number := None,
          fa_error_message := None, fa_merged_at := None, fa_resolved_at := None,
          fa_attempted_at := now\<rparr>)"

definition increment_retry :: "stamp \<Rightarrow> string \<Rightarrow> string \<Rightarrow> 'x attempts_db_scheme \<Rightarrow> 'x attempts_db_scheme" where
  "increment_retry now source issue_id =
     update_attempts (is_issue source issue_id)
       (\<lambda>r. r\<lparr>fa_retry_count := fa_retry_count r + 1, fa_last_retry_at := Some now\<rparr>)"

definition mark_cannot_fix :: "string \<Rightarrow> string \<Rightarrow> string \<Rightarrow> 'x attempts_db_scheme \<Rightarrow> 'x attempts_db_scheme" where
  "mark_cannot_fix source issue_id reason =
     update_attempts (is_issue source issue_id)
       (\<lambda>r. r\<lparr>fa_status := ''cannot_fix'', fa_error_message := Some reason\<rparr>)"

definition mark_answered ::
    "string \<Rightarrow> string \<Rightarrow> string \<Rightarrow> string option \<Rightarrow> 'x attempts_db_scheme \<Rightarrow> 'x attempts_db_scheme" where
  "mark_answered source issue_id summary intent =
     update_attempts (is_issue source issue_id)
       (\<lambda>r. r\<lparr>fa_status := ''answered'', fa_error_message := Some summary,
          fa_routing_intent := (case intent of None \<Rightarrow> fa_routing_intent r | Some i \<Rightarrow> Some i)\<rparr>)"

definition mark_declined :: "string \<Rightarrow> string \<Rightarrow> string \<Rightarrow> 'x attempts_db_scheme \<Rightarrow> 'x attempts_db_scheme" where
  "mark_declined source issue_id reason =
     update_attempts
       (\<lambda>r. is_original source issue_id r \<and> fa_status r \<in> {''pending'', ''failed'', ''closed''})
       (\<lambda>r. r\<lparr>fa_status := ''declined'', fa_error_message := Some reason\<rparr>)"

definition get_routing_intent :: "string \<Rightarrow> string \<Rightarrow> 'x attempts_db_scheme \<Rightarrow> string option" where
  "get_routing_intent source issue_id s =
     (case find_by (is_issue source issue_id) (db_attempts s) of
        None \<Rightarrow> None | Some r \<Rightarrow> fa_routing_intent r)"

section \<open>Retries\<close>

definition get_retryable_issues :: "u32 \<Rightarrow> 'x attempts_db_scheme \<Rightarrow> FixAttempt list" where
  "get_retryable_issues max_retries s =
     flatten_rows row_to_fix_attempt
       (order_asc fa_attempted_at
         (filter (\<lambda>r. fa_status r = ''failed'' \<and> fa_retry_count r < uint max_retries)
           (db_attempts s)))"

definition is_retryable_row :: "string \<Rightarrow> string \<Rightarrow> fix_attempt_row \<Rightarrow> bool" where
  "is_retryable_row source issue_id r \<longleftrightarrow>
     is_issue source issue_id r \<and> fa_status r \<in> {''failed'', ''closed''}"

definition prepare_for_retry :: "stamp \<Rightarrow> string \<Rightarrow> string \<Rightarrow> ('x attempts_db_scheme, unit) op" where
  "prepare_for_retry now source issue_id s =
     (if rows_affected (is_retryable_row source issue_id) (db_attempts s) = 0
      then (Inl (Storage (''Attempt '' @ source @ ''/'' @ issue_id @
                          '' not in retryable state (failed/closed)'')), s)
      else
        (Inr (), update_attempts (is_retryable_row source issue_id)
           (\<lambda>r. r\<lparr>fa_status := ''pending'', fa_retry_count := fa_retry_count r + 1,
              fa_last_retry_at := Some now, fa_pr_url := None, fa_scm_repo := None,
              fa_scm_pr_number := None, fa_error_message := None, fa_attempted_at := now\<rparr>) s))"

definition mark_failed_uncharged ::
    "string \<Rightarrow> string \<Rightarrow> string \<Rightarrow> 'x attempts_db_scheme \<Rightarrow> 'x attempts_db_scheme" where
  "mark_failed_uncharged source issue_id error_message =
     update_attempts (is_original source issue_id)
       (\<lambda>r. r\<lparr>fa_status := ''failed'', fa_error_message := Some error_message,
          fa_retry_count := max (fa_retry_count r - 1) 0\<rparr>)"

definition record_attempt_heartbeat ::
    "stamp \<Rightarrow> string \<Rightarrow> string \<Rightarrow> 'x attempts_db_scheme \<Rightarrow> 'x attempts_db_scheme" where
  "record_attempt_heartbeat now source issue_id =
     update_attempts (\<lambda>r. is_original source issue_id r \<and> fa_status r = ''pending'')
       (\<lambda>r. r\<lparr>fa_heartbeat_at := Some now\<rparr>)"

text \<open>The last sign of life of a run, and the pending runs without one since \<open>stale_before\<close>.\<close>

definition last_seen :: "fix_attempt_row \<Rightarrow> stamp" where
  "last_seen r = max (fa_attempted_at r)
     (case fa_heartbeat_at r of None \<Rightarrow> fa_attempted_at r | Some h \<Rightarrow> h)"

definition is_orphan :: "stamp \<Rightarrow> fix_attempt_row \<Rightarrow> bool" where
  "is_orphan stale_before r \<longleftrightarrow>
     fa_status r = ''pending'' \<and> fa_reset_at r = None \<and> fa_cascade_repo r = None \<and>
     last_seen r \<le> stale_before"

abbreviation three_days :: int where "three_days \<equiv> 3 * 24 * 60 * 60"

definition release_orphaned_pending_attempts ::
    "stamp \<Rightarrow> int \<Rightarrow> 'x attempts_db_scheme \<Rightarrow> nat \<times> 'x attempts_db_scheme" where
  "release_orphaned_pending_attempts now stale_secs s =
     (let young = (\<lambda>r. is_orphan (now - stale_secs) r \<and> now - three_days < fa_attempted_at r);
          released = rows_affected young (db_attempts s);
          s1 = update_attempts young
            (\<lambda>r. r\<lparr>fa_status := ''failed'',
               fa_error_message := Some ''Interrupted before completion (daemon restarted)'',
               fa_retry_count := max (fa_retry_count r - 1) 0\<rparr>) s;
          old = (\<lambda>r. is_orphan (now - stale_secs) r \<and> fa_attempted_at r \<le> now - three_days);
          closed = rows_affected old (db_attempts s1);
          s2 = update_attempts old
            (\<lambda>r. r\<lparr>fa_status := ''cannot_fix'',
               fa_error_message :=
                 Some ''Interrupted before completion; too old to retry automatically''\<rparr>) s1
      in (released + closed, s2))"

section \<open>Cascades\<close>

definition record_cascade_attempt ::
    "stamp \<Rightarrow> string \<Rightarrow> string \<Rightarrow> string \<Rightarrow> int \<Rightarrow> string \<Rightarrow> ('x attempts_db_scheme, int) op" where
  "record_cascade_attempt now source issue_id short_id parent_attempt_id cascade_repo s =
     (case find_by (\<lambda>r. is_issue source issue_id r \<and> fa_cascade_repo r = Some cascade_repo \<and>
                        (fa_pr_url r = None \<or> fa_pr_url r = Some [])) (db_attempts s) of
        Some r \<Rightarrow> (Inr (fa_id r), s)
      | None \<Rightarrow>
          insert_attempt (\<lambda>i. new_attempt_row i source issue_id short_id now None
            (Some parent_attempt_id) (Some cascade_repo)) s)"

definition update_attempt_pr ::
    "int \<Rightarrow> string \<Rightarrow> string \<Rightarrow> int \<Rightarrow> 'x attempts_db_scheme \<Rightarrow> 'x attempts_db_scheme" where
  "update_attempt_pr attempt_id pr_url scm_repo number =
     update_attempts (\<lambda>r. fa_id r = attempt_id)
       (\<lambda>r. r\<lparr>fa_pr_url := Some pr_url, fa_scm_repo := Some scm_repo,
          fa_scm_pr_number := Some number, fa_status := ''success''\<rparr>)"

definition mark_cascade_failed :: "int \<Rightarrow> string \<Rightarrow> 'x attempts_db_scheme \<Rightarrow> 'x attempts_db_scheme" where
  "mark_cascade_failed attempt_id error_message =
     update_attempts (\<lambda>r. fa_id r = attempt_id)
       (\<lambda>r. r\<lparr>fa_status := ''failed'', fa_error_message := Some error_message\<rparr>)"

definition list_attempts ::
    "string option \<Rightarrow> string option \<Rightarrow> 64 word \<Rightarrow> 64 word \<Rightarrow> 'x attempts_db_scheme \<Rightarrow> FixAttempt list" where
  "list_attempts status source limit offset s =
     flatten_rows row_to_fix_attempt
       (sql_limit (usize_as_i64 limit) (sql_offset (usize_as_i64 offset)
         (order_desc fa_attempted_at
           (filter (\<lambda>r. (case status of None \<Rightarrow> True | Some x \<Rightarrow> fa_status r = x) \<and>
                        (case source of None \<Rightarrow> True | Some x \<Rightarrow> fa_source r = x))
             (db_attempts s)))))"

section \<open>Every call\<close>

text \<open>The methods that change the table, as data: a run is a list of them.\<close>

datatype attempt_call =
    Record_attempt stamp string string string "string list"
  | Mark_success string string string
  | Mark_merged stamp string string
  | Mark_cascade_pr_outcome stamp int bool
  | Mark_closed string string
  | Mark_resolved stamp string string
  | Mark_failed string string string
  | Reset_attempt stamp string string
  | Increment_retry stamp string string
  | Mark_cannot_fix string string string
  | Mark_answered string string string "string option"
  | Mark_declined string string string
  | Record_answers string string "string list"
  | Prepare_for_retry stamp string string
  | Mark_failed_uncharged string string string
  | Heartbeat stamp string string
  | Release_orphans stamp int
  | Record_cascade stamp string string string int string
  | Update_pr int string string int
  | Mark_cascade_failed int string

definition pack_answer_ids :: "string option \<Rightarrow> string list \<Rightarrow> string" where
  "pack_answer_ids existing message_ids =
     (let ids = filter (\<lambda>x. x \<noteq> [])
            (split_on (CHR '','') (case existing of None \<Rightarrow> [] | Some t \<Rightarrow> t));
          ids' = foldl (\<lambda>acc i. if i \<in> set acc then acc else acc @ [i]) ids message_ids
      in '','' @ join_with '','' ids' @ '','')"

definition record_answer_message_ids ::
    "string \<Rightarrow> string \<Rightarrow> string list \<Rightarrow> 'x attempts_db_scheme \<Rightarrow> 'x attempts_db_scheme" where
  "record_answer_message_ids source issue_id message_ids s =
     (if message_ids = [] then s
      else
        (let existing =
           (case find_by (is_issue source issue_id) (db_attempts s) of
              None \<Rightarrow> None | Some r \<Rightarrow> fa_answer_message_ids r)
         in update_attempts (is_issue source issue_id)
              (\<lambda>r. r\<lparr>fa_answer_message_ids := Some (pack_answer_ids existing message_ids)\<rparr>) s))"

fun attempt_step :: "attempt_call \<Rightarrow> 'x attempts_db_scheme \<Rightarrow> 'x attempts_db_scheme" where
  "attempt_step (Record_attempt now src i short labels) s =
     snd (record_attempt_with_labels now src i short labels s)"
| "attempt_step (Mark_success src i url) s = mark_success src i url s"
| "attempt_step (Mark_merged now src i) s = mark_merged now src i s"
| "attempt_step (Mark_cascade_pr_outcome now a m) s = mark_cascade_pr_outcome now a m s"
| "attempt_step (Mark_closed src i) s = mark_closed src i s"
| "attempt_step (Mark_resolved now src i) s = mark_resolved now src i s"
| "attempt_step (Mark_failed src i e) s = mark_failed src i e s"
| "attempt_step (Reset_attempt now src i) s = reset_attempt now src i s"
| "attempt_step (Increment_retry now src i) s = increment_retry now src i s"
| "attempt_step (Mark_cannot_fix src i e) s = mark_cannot_fix src i e s"
| "attempt_step (Mark_answered src i t n) s = mark_answered src i t n s"
| "attempt_step (Mark_declined src i e) s = mark_declined src i e s"
| "attempt_step (Record_answers src i ms) s = record_answer_message_ids src i ms s"
| "attempt_step (Prepare_for_retry now src i) s = snd (prepare_for_retry now src i s)"
| "attempt_step (Mark_failed_uncharged src i e) s = mark_failed_uncharged src i e s"
| "attempt_step (Heartbeat now src i) s = record_attempt_heartbeat now src i s"
| "attempt_step (Release_orphans now secs) s = snd (release_orphaned_pending_attempts now secs s)"
| "attempt_step (Record_cascade now src i short p repo) s =
     snd (record_cascade_attempt now src i short p repo s)"
| "attempt_step (Update_pr a url repo n) s = update_attempt_pr a url repo n s"
| "attempt_step (Mark_cascade_failed a e) s = mark_cascade_failed a e s"

definition run_attempts :: "attempt_call list \<Rightarrow> 'x attempts_db_scheme \<Rightarrow> 'x attempts_db_scheme" where
  "run_attempts calls s = fold attempt_step calls s"

section \<open>Invariant\<close>

definition issue_key :: "fix_attempt_row \<Rightarrow> string \<times> string" where
  "issue_key r = (fa_source r, fa_issue_id r)"

definition originals :: "fix_attempt_row list \<Rightarrow> fix_attempt_row list" where
  "originals rows = filter (\<lambda>r. fa_cascade_repo r = None) rows"

definition attempt_row_ok :: "fix_attempt_row \<Rightarrow> bool" where
  "attempt_row_ok r \<longleftrightarrow>
     fa_status r \<in> range attempt_status_to_string \<and> 0 \<le> fa_retry_count r \<and>
     (fa_status r = ''success'' \<longrightarrow> fa_pr_url r \<noteq> None) \<and>
     (fa_scm_repo r = None \<longleftrightarrow> fa_scm_pr_number r = None) \<and>
     (fa_cascade_repo r = None \<longleftrightarrow> fa_parent_attempt_id r = None)"

definition parent_ok :: "fix_attempt_row list \<Rightarrow> fix_attempt_row \<Rightarrow> bool" where
  "parent_ok rows r \<longleftrightarrow>
     (case fa_parent_attempt_id r of None \<Rightarrow> True
      | Some i \<Rightarrow> i \<in> set (map fa_id rows) \<and> i \<le> fa_id r)"

definition attempts_ok :: "'x attempts_db_scheme \<Rightarrow> bool" where
  "attempts_ok s \<longleftrightarrow>
     0 < db_next_attempt s \<and> keys_below fa_id (db_next_attempt s) (db_attempts s) \<and>
     distinct (map issue_key (originals (db_attempts s))) \<and>
     list_all attempt_row_ok (db_attempts s) \<and>
     list_all (parent_ok (db_attempts s)) (db_attempts s)"

text \<open>The columns no \<open>UPDATE\<close> writes.\<close>

definition row_identity :: "fix_attempt_row \<Rightarrow> int \<times> string \<times> string \<times> int option \<times> string option" where
  "row_identity r = (fa_id r, fa_source r, fa_issue_id r, fa_parent_attempt_id r, fa_cascade_repo r)"

lemma update_attempts_simps [simp]:
  "db_attempts (update_attempts p f s) = update_where p f (db_attempts s)"
  "db_next_attempt (update_attempts p f s) = db_next_attempt s"
  by (simp_all add: update_attempts_def)

lemma status_texts:
  "''pending'' \<in> range attempt_status_to_string" "''success'' \<in> range attempt_status_to_string"
  "''failed'' \<in> range attempt_status_to_string" "''merged'' \<in> range attempt_status_to_string"
  "''closed'' \<in> range attempt_status_to_string" "''cannot_fix'' \<in> range attempt_status_to_string"
  "''answered'' \<in> range attempt_status_to_string" "''declined'' \<in> range attempt_status_to_string"
  unfolding image_iff by (metis UNIV_I attempt_status_to_string.simps)+

lemma map_row_identity:
  "(\<And>r. row_identity (f r) = row_identity r) \<Longrightarrow>
     map row_identity (update_where p f rows) = map row_identity rows"
  by (rule map_update_where)

lemma originals_update:
  assumes "\<And>r. row_identity (f r) = row_identity r"
  shows "originals (update_where p f rows) = update_where p f (originals rows)"
    "map issue_key (originals (update_where p f rows)) = map issue_key (originals rows)"
proof -
  have id: "fa_cascade_repo (f r) = fa_cascade_repo r" "issue_key (f r) = issue_key r" for r
    using assms [of r] by (simp_all add: row_identity_def issue_key_def)
  show o: "originals (update_where p f rows) = update_where p f (originals rows)"
    unfolding originals_def by (rule filter_update_where) (simp add: id)
  show "map issue_key (originals (update_where p f rows)) = map issue_key (originals rows)"
    unfolding o by (rule map_update_where) (simp add: id)
qed

lemma parent_ok_ids: "map fa_id rows = map fa_id rows' \<Longrightarrow> parent_ok rows = parent_ok rows'"
  unfolding parent_ok_def fun_eq_iff by metis

lemma attempts_ok_update:
  assumes ok: "attempts_ok s"
    and id: "\<And>r. row_identity (f r) = row_identity r"
    and row: "\<And>r. p r \<Longrightarrow> attempt_row_ok r \<Longrightarrow> attempt_row_ok (f r)"
  shows "attempts_ok (update_attempts p f s)"
proof -
  have key: "fa_id (f r) = fa_id r" "fa_parent_attempt_id (f r) = fa_parent_attempt_id r" for r
    using id [of r] by (simp_all add: row_identity_def)
  have ids: "map fa_id (update_where p f (db_attempts s)) = map fa_id (db_attempts s)"
    by (rule map_update_where) (simp add: key)
  have "list_all (parent_ok (db_attempts s)) (update_where p f (db_attempts s))"
    using ok unfolding attempts_ok_def
    by (intro list_all_update_where) (auto simp: parent_ok_def key split: option.splits)
  then have "list_all (parent_ok (update_where p f (db_attempts s))) (update_where p f (db_attempts s))"
    by (simp add: parent_ok_ids [OF ids])
  moreover have "list_all attempt_row_ok (update_where p f (db_attempts s))"
    using ok row unfolding attempts_ok_def by (intro list_all_update_where) auto
  ultimately show ?thesis
    using ok by (simp add: attempts_ok_def keys_below_update key originals_update(2) [OF id])
qed

lemma insert_attempt_ok:
  assumes ok: "attempts_ok s"
    and mk: "\<And>i. fa_id (mk i) = i" "\<And>i. attempt_row_ok (mk i)"
  shows "attempts_ok (snd (insert_attempt mk s))"
proof -
  let ?r = "mk (db_next_attempt s)"
  show ?thesis
  proof (cases "fst (insert_attempt mk s)")
    case (Inl e)
    then have "snd (insert_attempt mk s) = s"
      by (auto simp: insert_attempt_def Let_def split: if_splits)
    with ok show ?thesis by simp
  next
    case (Inr i)
    then have s': "snd (insert_attempt mk s) =
          s\<lparr>db_attempts := db_attempts s @ [?r], db_next_attempt := db_next_attempt s + 1\<rparr>"
      and uniq: "fa_cascade_repo ?r = None \<Longrightarrow>
          \<not> list_ex (is_original (fa_source ?r) (fa_issue_id ?r)) (db_attempts s)"
      and parent: "\<And>j. fa_parent_attempt_id ?r = Some j \<Longrightarrow>
          j = fa_id ?r \<or> list_ex (\<lambda>x. fa_id x = j) (db_attempts s)"
      by (auto simp: insert_attempt_def Let_def split: if_splits option.splits)
    have below: "r \<in> set (db_attempts s) \<Longrightarrow> fa_id r < db_next_attempt s" for r
      using ok by (auto simp: attempts_ok_def keys_below_def)
    have "parent_ok (db_attempts s @ [?r]) ?r"
      using parent below by (auto simp: parent_ok_def mk list_ex_iff less_imp_le split: option.splits)
    moreover have "list_all (parent_ok (db_attempts s @ [?r])) (db_attempts s)"
      using ok by (auto simp: attempts_ok_def list_all_iff parent_ok_def split: option.splits)
    moreover have "distinct (map issue_key (originals (db_attempts s @ [?r])))"
      using ok uniq
      by (fastforce simp: attempts_ok_def originals_def issue_key_def is_original_def is_issue_def
          list_ex_iff)
    ultimately show ?thesis
      using ok unfolding s' by (simp add: attempts_ok_def keys_below_insert mk)
  qed
qed

lemma new_attempt_row_ok:
  "parent = None \<longleftrightarrow> repo = None \<Longrightarrow> attempt_row_ok (new_attempt_row i src issue short now labels parent repo)"
  by (auto simp: attempt_row_ok_def new_attempt_row_def status_texts)

lemmas attempt_operations =
  mark_success_def mark_merged_def mark_cascade_pr_outcome_def mark_closed_def mark_resolved_def
  mark_failed_def reset_attempt_def increment_retry_def mark_cannot_fix_def mark_answered_def
  mark_declined_def record_answer_message_ids_def mark_failed_uncharged_def
  record_attempt_heartbeat_def update_attempt_pr_def mark_cascade_failed_def

lemma attempt_step_ok: "attempts_ok s \<Longrightarrow> attempts_ok (attempt_step c s)"
proof (induction c)
  case (Record_attempt now src i short labels)
  then have new: "attempts_ok (snd (insert_attempt
      (\<lambda>k. new_attempt_row k src i short now j None None) s))" for j
    by (intro insert_attempt_ok new_attempt_row_ok) (simp_all add: new_attempt_row_def)
  have upd: "attempts_ok (update_attempts (is_original src i)
      (\<lambda>x. x\<lparr>fa_short_id := short, fa_attempted_at := now, fa_issue_labels := g x, fa_reset_at := None\<rparr>) s)" for g
    using Record_attempt by (intro attempts_ok_update) (auto simp: row_identity_def attempt_row_ok_def)
  have upd0: "attempts_ok (update_attempts (is_original src i)
      (\<lambda>x. x\<lparr>fa_short_id := short, fa_attempted_at := now, fa_reset_at := None\<rparr>) s)"
    using Record_attempt by (intro attempts_ok_update) (auto simp: row_identity_def attempt_row_ok_def)
  have snd_bind: "snd (bind_op m (\<lambda>_. ret ()) s) = snd (m s)" for m :: "('a attempts_db_scheme, int) op"
    by (simp add: bind_op_def ret_def split: sum.splits prod.splits)
  show ?case
    using Record_attempt new upd upd0
    by (auto simp: record_attempt_with_labels_def snd_bind Let_def
        split: option.splits)
next
  case (Record_cascade now src i short p repo)
  then show ?case
    by (auto simp: record_cascade_attempt_def new_attempt_row_def split: option.splits
        intro!: insert_attempt_ok new_attempt_row_ok [unfolded new_attempt_row_def])
next
  case (Release_orphans now secs)
  have young: "attempts_ok (update_attempts p (\<lambda>r. r\<lparr>fa_status := ''failed'', fa_error_message := e,
      fa_retry_count := max (fa_retry_count r - 1) 0\<rparr>) s)" for p e
    using Release_orphans
    by (intro attempts_ok_update) (auto simp: row_identity_def attempt_row_ok_def status_texts)
  have "attempts_ok (update_attempts q (\<lambda>r. r\<lparr>fa_status := ''cannot_fix'', fa_error_message := e'\<rparr>)
      (update_attempts p (\<lambda>r. r\<lparr>fa_status := ''failed'', fa_error_message := e,
      fa_retry_count := max (fa_retry_count r - 1) 0\<rparr>) s))" for p q e e'
    by (rule attempts_ok_update [OF young]) (auto simp: row_identity_def attempt_row_ok_def status_texts)
  then show ?case by (simp add: release_orphaned_pending_attempts_def Let_def)
qed (auto simp: attempt_operations prepare_for_retry_def Let_def row_identity_def attempt_row_ok_def
    status_texts intro!: attempts_ok_update)

lemma run_attempts_ok: "attempts_ok s \<Longrightarrow> attempts_ok (run_attempts calls s)"
  unfolding run_attempts_def by (induction calls arbitrary: s) (auto intro: attempt_step_ok)

lemma empty_attempts_ok: "attempts_ok empty_attempts"
  by (simp add: attempts_ok_def originals_def)

section \<open>Properties\<close>

text \<open>
  Property C7. Whatever the calls, the table keeps its invariant: ids are unique and below the next one, an
  issue has at most one original attempt, every status is one the program knows, retry counts are not
  negative, a successful attempt has a pull request, and every cascade has its parent in the table.
\<close>

theorem attempts_invariant: "attempts_ok (run_attempts calls empty_attempts)"
  by (rule run_attempts_ok [OF empty_attempts_ok])

text \<open>
  Recording an attempt never fails, and the issue counts as attempted afterwards; resetting it
  makes it count as not attempted.
\<close>

theorem record_then_attempted:
  "fst (record_attempt_with_labels now source issue_id short_id labels s) = Inr () \<and>
   has_attempted source issue_id (snd (record_attempt_with_labels now source issue_id short_id labels s)) \<and>
   \<not> has_attempted source issue_id (reset_attempt now source issue_id s)"
proof -
  have "\<not> (is_issue source issue_id r \<and> fa_reset_at r = None)"
    if "r \<in> set (db_attempts (reset_attempt now source issue_id s))" for r
  proof -
    obtain q where "r = (if is_issue source issue_id q
        then q\<lparr>fa_status := ''pending'', fa_retry_count := 0, fa_reset_at := Some now, fa_pr_url := None,
          fa_scm_repo := None, fa_scm_pr_number := None, fa_error_message := None, fa_merged_at := None,
          fa_resolved_at := None, fa_attempted_at := now\<rparr> else q)"
      using \<open>r \<in> _\<close> by (auto simp: reset_attempt_def in_update_where)
    then show ?thesis by (cases "is_issue source issue_id q") simp_all
  qed
  then have reset: "\<not> has_attempted source issue_id (reset_attempt now source issue_id s)"
    unfolding has_attempted_def list_ex_iff by blast
  show ?thesis
  proof (cases "find_by (is_original source issue_id) (db_attempts s)")
    case None
    then have "\<not> list_ex (is_original source issue_id) (db_attempts s)"
      by (auto simp: find_by_None list_ex_iff)
    with None reset show ?thesis
      by (simp add: record_attempt_with_labels_def bind_op_def insert_attempt_def ret_def
          new_attempt_row_def has_attempted_def is_issue_def)
  next
    case (Some r)
    then have r: "r \<in> set (db_attempts s)" "is_original source issue_id r"
      by (auto dest: find_by_Some)
    show ?thesis
    proof (cases "fa_reset_at r")
      case None
      with Some r reset show ?thesis
        by (auto simp: record_attempt_with_labels_def has_attempted_def list_ex_iff is_original_def)
    next
      case (Some t)
      let ?g = "\<lambda>x. if labels = [] then fa_issue_labels x else Some (JArr (map JStr labels))"
      let ?f = "\<lambda>x. x\<lparr>fa_short_id := short_id, fa_attempted_at := now, fa_issue_labels := ?g x,
        fa_reset_at := None\<rparr>"
      have "record_attempt_with_labels now source issue_id short_id labels s =
          (Inr (), update_attempts (is_original source issue_id) ?f s)"
        using \<open>find_by _ _ = Some r\<close> Some by (simp add: record_attempt_with_labels_def)
      moreover have "?f r \<in> set (update_where (is_original source issue_id) ?f (db_attempts s))"
        unfolding in_update_where using r by force
      moreover have "is_issue source issue_id (?f r) \<and> fa_reset_at (?f r) = None"
        using r(2) by (simp add: is_original_def is_issue_def)
      ultimately show ?thesis
        using reset unfolding has_attempted_def list_ex_iff by auto
    qed
  qed
qed

text \<open>
  Property C27. A retry is spent once and never takes back an outcome: preparing it succeeds exactly when the issue has an
  attempt whose status is failed or closed, and changes nothing otherwise; these attempts become pending, charged one
  retry and without their pull request, those that are pending, successful, merged, answered, declined or given up stay
  as they are, and preparing it again fails until one of them fails or is closed.
\<close>

theorem prepare_for_retry_guard:
  "let retryable = (\<lambda>r. fa_source r = source \<and> fa_issue_id r = issue_id \<and> (fa_status r = ''failed'' \<or> fa_status r = ''closed''));
       (result, s') = prepare_for_retry now source issue_id s
   in (result = Inr () \<longleftrightarrow> list_ex retryable (db_attempts s)) \<and>
      (if result = Inr () then s'\<lparr>db_attempts := db_attempts s\<rparr> = s else s' = s) \<and>
      list_all2 (\<lambda>r r'.
        if retryable r
        then row_identity r' = row_identity r \<and> fa_status r' = ''pending'' \<and> fa_retry_count r' = fa_retry_count r + 1 \<and>
          fa_pr_url r' = None \<and> fa_scm_repo r' = None \<and> fa_scm_pr_number r' = None \<and> fa_error_message r' = None \<and>
          fa_last_retry_at r' = Some now
        else r' = r) (db_attempts s) (db_attempts s') \<and>
      fst (prepare_for_retry later source issue_id s') \<noteq> Inr ()"
proof -
  let ?p = "is_retryable_row source issue_id"
  have guard: "?p = (\<lambda>r. fa_source r = source \<and> fa_issue_id r = issue_id \<and> (fa_status r = ''failed'' \<or> fa_status r = ''closed''))"
    by (auto simp: is_retryable_row_def is_issue_def fun_eq_iff)
  let ?f = "\<lambda>r. r\<lparr>fa_status := ''pending'', fa_retry_count := fa_retry_count r + 1, fa_last_retry_at := Some now,
    fa_pr_url := None, fa_scm_repo := None, fa_scm_pr_number := None, fa_error_message := None, fa_attempted_at := now\<rparr>"
  have "\<not> ?p (?f r)" for r by (simp add: is_retryable_row_def)
  then have spent: "rows_affected ?p (update_where ?p ?f rows) = 0" for rows
    unfolding rows_affected_0 update_where_def by auto
  show ?thesis
  proof (cases "rows_affected ?p (db_attempts s) = 0")
    case True
    then have "\<not> list_ex ?p (db_attempts s)" by (simp add: rows_affected_0 list_ex_iff)
    then show ?thesis
      using True unfolding guard [symmetric]
      by (simp add: prepare_for_retry_def Let_def list_all2_same list_ex_iff)
  next
    case False
    then have "list_ex ?p (db_attempts s)" by (simp add: rows_affected_0 list_ex_iff)
    then show ?thesis
      using False unfolding guard [symmetric]
      by (simp add: prepare_for_retry_def Let_def spent [unfolded update_where_def] update_where_def list_all2_map2 list_all2_same row_identity_def
          update_attempts_def)
  qed
qed

text \<open>
  A refusal of approval never overwrites an outcome a run has reached: only an original attempt
  that is pending, failed or closed becomes declined.
\<close>

theorem declined_keeps_outcomes:
  "list_all2 (\<lambda>r r'.
     if is_original source issue_id r \<and> fa_status r \<in> {''pending'', ''failed'', ''closed''}
     then fa_status r' = ''declined'' \<and> fa_error_message r' = Some reason \<and> row_identity r' = row_identity r
     else r' = r)
   (db_attempts s) (db_attempts (mark_declined source issue_id reason s))"
  by (auto simp: mark_declined_def update_where_def list_all2_map2 list_all2_same row_identity_def)

text \<open>
  Releasing orphans settles every pending run without a sign of life since the cutoff, and only
  those: the ones attempted within three days fail and get their retry back, the older ones are given up.
  The count is the number of orphans, and none is left.
\<close>

theorem release_orphans_exact:
  "let (n, s') = release_orphaned_pending_attempts now stale_secs s; orphan = is_orphan (now - stale_secs) in
     n = rows_affected orphan (db_attempts s) \<and> rows_affected orphan (db_attempts s') = 0 \<and>
     list_all2 (\<lambda>r r'.
       if \<not> orphan r then r' = r
       else if now - three_days < fa_attempted_at r
       then fa_status r' = ''failed'' \<and> fa_retry_count r' = max (fa_retry_count r - 1) 0
       else fa_status r' = ''cannot_fix'' \<and> fa_retry_count r' = fa_retry_count r)
     (db_attempts s) (db_attempts s')"
proof -
  let ?o = "is_orphan (now - stale_secs)"
  let ?young = "\<lambda>r. ?o r \<and> now - three_days < fa_attempted_at r"
  let ?old = "\<lambda>r. ?o r \<and> fa_attempted_at r \<le> now - three_days"
  let ?f = "\<lambda>r. r\<lparr>fa_status := ''failed'',
    fa_error_message := Some ''Interrupted before completion (daemon restarted)'',
    fa_retry_count := max (fa_retry_count r - 1) 0\<rparr>"
  let ?g = "\<lambda>r. r\<lparr>fa_status := ''cannot_fix'',
    fa_error_message := Some ''Interrupted before completion; too old to retry automatically''\<rparr>"
  let ?rows = "db_attempts s"
  have f: "\<not> ?o (?f r)" and g: "\<not> ?o (?g r)" for r
    by (simp_all add: is_orphan_def)
  have rows: "update_where ?old ?g (update_where ?young ?f ?rows) =
      map (\<lambda>r. if ?young r then ?f r else if ?old r then ?g r else r) ?rows"
    using f by (auto simp: update_where_def)
  have count: "rows_affected ?young rows + rows_affected ?old (update_where ?young ?f rows) = rows_affected ?o rows"
    for rows
    using f by (induction rows) (auto simp: rows_affected_def update_where_def)
  have none: "rows_affected ?o (map (\<lambda>r. if ?young r then ?f r else if ?old r then ?g r else r) ?rows) = 0"
    using f g by (auto simp: rows_affected_0)
  show ?thesis
    unfolding release_orphaned_pending_attempts_def Let_def split update_attempts_simps rows count none
    by (auto simp: list_all2_map2 list_all2_same)
qed

end
