(* ===== verification/Attempt_Answers.thy ===== *)
theory Attempt_Answers
  imports Fix_Attempts
begin

text \<open>
  Answers: the message ids a reply to a question was posted under, packed into one column, and the lookup
  that finds the issue a reply to such a message belongs to (\<open>record_answer_message_ids\<close> and
  \<open>lookup_answer_issue\<close> of \<open>crates/claudear-storage/src/sqlite.rs\<close>). The lookup is a \<open>LIKE .. ESCAPE '\'\<close> query,
  which folds ASCII case.
\<close>

section \<open>The pattern language of LIKE\<close>

abbreviation backslash :: char where "backslash \<equiv> CHR 0x5C"

fun drop_char :: "string \<Rightarrow> string" where
  "drop_char [] = []"
| "drop_char (c # cs) = dropWhile continues_sequence cs"

lemma length_drop_char: "length (drop_char s) \<le> length s"
  by (cases s) (simp_all add: le_SucI length_dropWhile_le)

function sql_like :: "string \<Rightarrow> string \<Rightarrow> bool" where
  "sql_like [] s \<longleftrightarrow> s = []"
| "sql_like (c # p) s \<longleftrightarrow>
     (if c = CHR ''%'' then
        sql_like p s \<or> (case s of [] \<Rightarrow> False | x # t \<Rightarrow> sql_like (c # p) t)
      else if c = CHR ''_'' then
        (case s of [] \<Rightarrow> False | x # t \<Rightarrow> sql_like p (drop_char s))
      else if c = backslash then
        (case p of
           [] \<Rightarrow> False
         | e # q \<Rightarrow>
             (case s of [] \<Rightarrow> False
              | x # t \<Rightarrow> to_ascii_lower x = to_ascii_lower e \<and> sql_like q t))
      else
        (case s of [] \<Rightarrow> False
         | x # t \<Rightarrow> to_ascii_lower x = to_ascii_lower c \<and> sql_like p t))"
  by pat_completeness auto
termination
  by (relation "measure (\<lambda>(p, s). length p + length s)")
    (auto simp: less_Suc_eq_le intro: le_SucI length_dropWhile_le)

declare sql_like.simps(2) [simp del]

definition replace_char :: "char \<Rightarrow> string \<Rightarrow> string \<Rightarrow> string" where
  "replace_char c by s = concat (map (\<lambda>x. if x = c then by else [x]) s)"

definition escape_like :: "string \<Rightarrow> string" where
  "escape_like s =
     replace_char (CHR ''_'') [backslash, CHR ''_'']
       (replace_char (CHR ''%'') [backslash, CHR ''%'']
         (replace_char backslash [backslash, backslash] s))"

definition answer_pattern :: "string \<Rightarrow> string" where
  "answer_pattern message_id = ''%,'' @ escape_like message_id @ '',%''"

definition answers_like :: "string \<Rightarrow> fix_attempt_row \<Rightarrow> bool" where
  "answers_like pattern r \<longleftrightarrow>
     (case fa_answer_message_ids r of None \<Rightarrow> False | Some t \<Rightarrow> sql_like pattern t)"

definition lookup_answer_issue :: "string \<Rightarrow> 'x attempts_db_scheme \<Rightarrow> (string \<times> string) option" where
  "lookup_answer_issue message_id s =
     (if message_id = [] then None
      else
        map_option (\<lambda>r. (fa_source r, fa_issue_id r))
          (find_by (answers_like (answer_pattern message_id)) (db_attempts s)))"

section \<open>What the lookup matches\<close>

lemma escape_like_Cons:
  "escape_like (c # s) =
     (if c \<in> {CHR ''%'', CHR ''_'', backslash} then backslash # c # escape_like s else c # escape_like s)"
  by (simp add: escape_like_def replace_char_def)

lemma sql_like_percent: "sql_like (CHR ''%'' # p) s \<longleftrightarrow> (\<exists>u v. s = u @ v \<and> sql_like p v)"
proof (induction s)
  case Nil
  then show ?case by (simp add: sql_like.simps(2))
next
  case (Cons c s)
  have "sql_like (CHR ''%'' # p) (c # s) \<longleftrightarrow> sql_like p (c # s) \<or> sql_like (CHR ''%'' # p) s"
    by (subst sql_like.simps(2)) simp
  also have "\<dots> \<longleftrightarrow> (\<exists>u v. c # s = u @ v \<and> sql_like p v)"
    unfolding Cons.IH by (auto simp: Cons_eq_append_conv)
  finally show ?case .
qed

lemma sql_like_literal:
  "c \<notin> {CHR ''%'', CHR ''_'', backslash} \<Longrightarrow>
     sql_like (c # p) s \<longleftrightarrow> (\<exists>x v. s = x # v \<and> to_ascii_lower x = to_ascii_lower c \<and> sql_like p v)"
  by (subst sql_like.simps(2)) (auto split: list.splits)

lemma sql_like_escaped:
  "sql_like (backslash # c # p) s \<longleftrightarrow>
     (\<exists>x v. s = x # v \<and> to_ascii_lower x = to_ascii_lower c \<and> sql_like p v)"
  by (subst sql_like.simps(2)) (auto split: list.splits)

lemma sql_like_escape_like:
  "sql_like (escape_like m @ p) s \<longleftrightarrow>
     (\<exists>u v. s = u @ v \<and> ascii_lowercase u = ascii_lowercase m \<and> sql_like p v)"
proof (induction m arbitrary: s)
  case Nil
  then show ?case by (simp add: escape_like_def replace_char_def ascii_lowercase_def)
next
  case (Cons c m)
  have "sql_like (escape_like (c # m) @ p) s \<longleftrightarrow>
      (\<exists>x v. s = x # v \<and> to_ascii_lower x = to_ascii_lower c \<and> sql_like (escape_like m @ p) v)"
    by (simp add: escape_like_Cons sql_like_escaped sql_like_literal)
  also have "\<dots> \<longleftrightarrow> (\<exists>u v. s = u @ v \<and> ascii_lowercase u = ascii_lowercase (c # m) \<and> sql_like p v)"
    (is "?l \<longleftrightarrow> ?r")
  proof
    assume ?l
    then obtain x u v where "s = x # u @ v" "to_ascii_lower x = to_ascii_lower c"
        "ascii_lowercase u = ascii_lowercase m" "sql_like p v"
      unfolding Cons.IH by blast
    then have "s = (x # u) @ v \<and> ascii_lowercase (x # u) = ascii_lowercase (c # m) \<and> sql_like p v"
      by (simp add: ascii_lowercase_def)
    then show ?r by blast
  next
    assume ?r
    then obtain x u v where "s = x # u @ v" "to_ascii_lower x = to_ascii_lower c"
        "ascii_lowercase u = ascii_lowercase m" "sql_like p v"
      by (auto simp: ascii_lowercase_def map_eq_Cons_conv)
    then show ?l unfolding Cons.IH by blast
  qed
  finally show ?case .
qed

lemma to_ascii_lower_comma: "to_ascii_lower x = CHR '','' \<longleftrightarrow> x = CHR '',''"
proof
  assume l: "to_ascii_lower x = CHR '',''"
  show "x = CHR '',''"
  proof (rule ccontr)
    assume "x \<noteq> CHR '',''"
    with l have "is_ascii_upper x" "char_of (byte x + 32) = CHR '',''"
      by (auto simp: to_ascii_lower_def split: if_splits)
    then have "byte (char_of (byte x + 32)) = 44" "byte x + 32 < 256" "65 \<le> byte x"
      by (simp_all add: byte_def is_ascii_upper_def)
    then show False by (simp add: byte_def)
  qed
qed (simp add: to_ascii_lower_def is_ascii_upper_def byte_def)

definition names_message :: "string \<Rightarrow> string \<Rightarrow> bool" where
  "names_message m t \<longleftrightarrow>
     (\<exists>u w v. t = u @ '','' @ w @ '','' @ v \<and> eq_ignore_ascii_case w m)"

lemma sql_like_names_message:
  "sql_like (''%,'' @ escape_like m @ '',%'') t \<longleftrightarrow> names_message m t"
proof -
  have comma: "to_ascii_lower (CHR '','') = CHR '',''" by (simp add: to_ascii_lower_comma)
  have lit: "sql_like (CHR '','' # q) t \<longleftrightarrow> (\<exists>v. t = CHR '','' # v \<and> sql_like q v)" for q t
    by (subst sql_like_literal) (auto simp: comma to_ascii_lower_comma)
  have all: "sql_like ''%'' t" for t
    by (simp add: sql_like_percent)
  show ?thesis
    by (auto simp: sql_like_percent lit sql_like_escape_like all names_message_def
        eq_ignore_ascii_case_def) blast+
qed

section \<open>Packing\<close>

definition add_missing :: "string list \<Rightarrow> string list \<Rightarrow> string list" where
  "add_missing ids new = foldl (\<lambda>acc i. if i \<in> set acc then acc else acc @ [i]) ids new"

lemma set_add_missing: "set (add_missing ids new) = set ids \<union> set new"
  by (induction new arbitrary: ids) (auto simp: add_missing_def)

lemma distinct_add_missing: "distinct ids \<Longrightarrow> distinct (add_missing ids new)"
  by (induction new arbitrary: ids) (auto simp: add_missing_def)

lemma pack_answer_ids_eq:
  "pack_answer_ids existing ms =
     '','' @ join_with '','' (add_missing (filter (\<lambda>x. x \<noteq> [])
       (split_on (CHR '','') (case existing of None \<Rightarrow> [] | Some t \<Rightarrow> t))) ms) @ '',''"
  by (simp add: pack_answer_ids_def add_missing_def Let_def)

lemma packed_between_commas:
  "m \<in> set ws \<Longrightarrow> \<exists>u v. '','' @ join_with '','' ws @ '','' = u @ '','' @ m @ '','' @ v"
proof (induction ws)
  case (Cons w ws)
  show ?case
  proof (cases "m = w")
    case True
    show ?thesis
    proof (cases ws)
      case Nil
      with True have "'','' @ join_with '','' (w # ws) @ '','' = [] @ '','' @ m @ '','' @ []" by simp
      then show ?thesis by blast
    next
      case (Cons x xs)
      with True have "'','' @ join_with '','' (w # ws) @ '','' =
          [] @ '','' @ m @ '','' @ (join_with '','' ws @ '','')" by simp
      then show ?thesis by blast
    qed
  next
    case False
    with Cons.prems have m: "m \<in> set ws" by simp
    with Cons.IH obtain u v where uv: "'','' @ join_with '','' ws @ '','' = u @ '','' @ m @ '','' @ v" by blast
    from m have "ws \<noteq> []" by auto
    then have "'','' @ join_with '','' (w # ws) @ '','' = '','' @ w @ ('','' @ join_with '','' ws @ '','')"
      by (simp add: join_append_sep)
    also have "\<dots> = ('','' @ w @ u) @ '','' @ m @ '','' @ v" unfolding uv by simp
    finally show ?thesis by blast
  qed
qed simp

lemma pack_names_message: "m \<in> set ms \<Longrightarrow> names_message m (pack_answer_ids existing ms)"
proof -
  assume "m \<in> set ms"
  then have "m \<in> set (add_missing ids ms)" for ids by (simp add: set_add_missing)
  then show ?thesis
    using packed_between_commas eq_ignore_ascii_case_refl
    unfolding names_message_def pack_answer_ids_eq by metis
qed

lemma answers_like_iff:
  "answers_like (answer_pattern m) r \<longleftrightarrow>
     (\<exists>t. fa_answer_message_ids r = Some t \<and> names_message m t)"
  unfolding answers_like_def answer_pattern_def sql_like_names_message by (simp split: option.split)

lemma lookup_answer_issue_Some:
  "lookup_answer_issue m s = Some k \<Longrightarrow>
     \<exists>r \<in> set (db_attempts s). \<exists>t. k = (fa_source r, fa_issue_id r) \<and>
       fa_answer_message_ids r = Some t \<and> names_message m t"
  by (auto simp: lookup_answer_issue_def answers_like_iff split: if_splits dest!: find_by_Some)

definition some_other_issue_names :: "string \<Rightarrow> string \<Rightarrow> string \<Rightarrow> 'x attempts_db_scheme \<Rightarrow> bool" where
  "some_other_issue_names source issue_id m s \<longleftrightarrow>
     list_ex (\<lambda>r. \<not> is_issue source issue_id r \<and> answers_like (answer_pattern m) r) (db_attempts s)"

text \<open>
  A reply to a message the answer to an issue was posted as is found to belong to that
  issue: after the message ids are recorded, looking any of them up returns the issue, unless a message
  of another issue has the same id up to ASCII case.
\<close>

theorem recorded_answer_is_found:
  assumes "list_ex (is_issue source issue_id) (db_attempts s)"
    and "m \<in> set message_ids" and "m \<noteq> []"
    and "\<not> some_other_issue_names source issue_id m s"
  shows "lookup_answer_issue m (record_answer_message_ids source issue_id message_ids s) =
    Some (source, issue_id)"
proof -
  let ?s = "record_answer_message_ids source issue_id message_ids s"
  define packed where "packed = pack_answer_ids
    (case find_by (is_issue source issue_id) (db_attempts s) of
       None \<Rightarrow> None | Some r \<Rightarrow> fa_answer_message_ids r) message_ids"
  have rows: "db_attempts ?s =
      update_where (is_issue source issue_id) (\<lambda>r. r\<lparr>fa_answer_message_ids := Some packed\<rparr>) (db_attempts s)"
    using assms(2) by (auto simp: record_answer_message_ids_def packed_def Let_def)
  let ?p = "answers_like (answer_pattern m)"
  have packed: "?p (r\<lparr>fa_answer_message_ids := Some packed\<rparr>)" for r :: fix_attempt_row
    using pack_names_message [OF assms(2)] unfolding packed_def by (simp add: answers_like_iff)
  have own: "is_issue source issue_id r" if "r \<in> set (db_attempts ?s)" "?p r" for r
    using that assms(4) unfolding rows
    by (fastforce simp: in_update_where some_other_issue_names_def list_ex_iff is_issue_def)
  have "\<exists>r \<in> set (db_attempts ?s). ?p r"
    using assms(1) packed unfolding rows by (force simp: list_ex_iff in_update_where)
  then obtain r where "find_by ?p (db_attempts ?s) = Some r"
    using find_by_None by (metis (no_types, lifting) option.exhaust)
  then show ?thesis
    using own find_by_Some assms(3) by (fastforce simp: lookup_answer_issue_def is_issue_def)
qed

theorem recorded_answer_is_found_witness:
  "lookup_answer_issue ''m_1'' (record_answer_message_ids ''slack'' ''7'' [''m_0'', ''m_1'']
     (run_attempts [Record_attempt 0 ''slack'' ''7'' ''Q-7'' []] empty_attempts)) = Some (''slack'', ''7'')"
  by (rule recorded_answer_is_found) code_simp+

end
