(* ===== verification/Attempt_Stats.thy ===== *)
theory Attempt_Stats
  imports Fix_Attempts
begin

text \<open>
  Which attempts a reader counts (\<open>crates/claudear-storage/src/scope.rs\<close>), and the statistics of fix attempts
  (\<open>get_scoped_stats\<close>, \<open>count_attempts\<close> of \<open>crates/claudear-storage/src/sqlite.rs\<close>). A scope is applied in two
  places: by the \<open>WHERE\<close> clause of the SQLite store, and by \<open>scrub\<close> on the totals of a store that cannot
  scope its count. The lemmas compare the two.
\<close>

section \<open>Scopes\<close>

datatype AttemptScope = All | WithoutSecurity

fun excluded_source :: "AttemptScope \<Rightarrow> string option" where
  "excluded_source AttemptScope.All = None"
| "excluded_source AttemptScope.WithoutSecurity = Some security_fix_source"

definition scope_includes :: "AttemptScope \<Rightarrow> string \<Rightarrow> bool" where
  "scope_includes scope source \<longleftrightarrow>
     (case excluded_source scope of None \<Rightarrow> True
      | Some excluded \<Rightarrow> \<not> eq_ignore_ascii_case source excluded)"

definition includes_optional :: "AttemptScope \<Rightarrow> string option \<Rightarrow> bool" where
  "includes_optional scope source \<longleftrightarrow>
     (case source of None \<Rightarrow> True | Some s \<Rightarrow> scope_includes scope s)"

definition includes_metric :: "AttemptScope \<Rightarrow> string option \<Rightarrow> bool" where
  "includes_metric scope source \<longleftrightarrow>
     (case source of Some s \<Rightarrow> scope_includes scope s | None \<Rightarrow> scope = AttemptScope.All)"

definition includes_all :: "AttemptScope \<Rightarrow> string list \<Rightarrow> bool" where
  "includes_all scope sources \<longleftrightarrow> list_all (scope_includes scope) sources"

text \<open>The predicates of \<open>sqlite/scope.rs\<close> on a column, with \<open>NULL\<close> as \<open>None\<close> and \<open>COLLATE NOCASE\<close>.\<close>

definition sql_scope_source :: "string option \<Rightarrow> string option \<Rightarrow> bool" where
  "sql_scope_source excluded column \<longleftrightarrow>
     (case excluded of None \<Rightarrow> True
      | Some e \<Rightarrow> (case column of None \<Rightarrow> True | Some c \<Rightarrow> \<not> eq_ignore_ascii_case c e))"

definition sql_scope_metric :: "string option \<Rightarrow> string option \<Rightarrow> bool" where
  "sql_scope_metric excluded column \<longleftrightarrow>
     (case excluded of None \<Rightarrow> True
      | Some e \<Rightarrow> (case column of None \<Rightarrow> False | Some c \<Rightarrow> \<not> eq_ignore_ascii_case c e))"

definition sql_scope_attempt :: "string option \<Rightarrow> int option \<Rightarrow> 'x attempts_db_scheme \<Rightarrow> bool" where
  "sql_scope_attempt excluded column s \<longleftrightarrow>
     (case excluded of None \<Rightarrow> True
      | Some e \<Rightarrow>
          (case column of None \<Rightarrow> True
           | Some i \<Rightarrow>
               \<not> list_ex (\<lambda>r. fa_id r = i \<and> eq_ignore_ascii_case (fa_source r) e) (db_attempts s)))"

definition sql_scope_pull_request ::
    "string option \<Rightarrow> string option \<Rightarrow> int option \<Rightarrow> 'x attempts_db_scheme \<Rightarrow> bool" where
  "sql_scope_pull_request excluded issue_source attempt_id s \<longleftrightarrow>
     sql_scope_source excluded issue_source \<and> sql_scope_attempt excluded attempt_id s"

definition sql_scope_sources :: "string option \<Rightarrow> string list \<Rightarrow> bool" where
  "sql_scope_sources excluded sources \<longleftrightarrow>
     (case excluded of None \<Rightarrow> True
      | Some e \<Rightarrow> \<not> list_ex (\<lambda>c. eq_ignore_ascii_case c e) sources)"

lemma sql_scope_agrees:
  "sql_scope_source (excluded_source scope) c = includes_optional scope c"
  "sql_scope_metric (excluded_source scope) c = includes_metric scope c"
  "sql_scope_sources (excluded_source scope) cs = includes_all scope cs"
  by (cases scope; cases c;
      simp add: sql_scope_source_def includes_optional_def scope_includes_def sql_scope_metric_def
        includes_metric_def sql_scope_sources_def includes_all_def list_ex_iff list_all_iff)+

section \<open>Statistics\<close>

record SourceStats =
  ss_total :: nat
  ss_success :: nat
  ss_failed :: nat
  ss_merged :: nat
  ss_closed :: nat
  ss_cannot_fix :: nat

record FixAttemptStats =
  st_total :: nat
  st_pending :: nat
  st_success :: nat
  st_failed :: nat
  st_merged :: nat
  st_closed :: nat
  st_cannot_fix :: nat
  st_by_source :: "(string \<times> SourceStats) list"

definition default_source_stats :: SourceStats where
  "default_source_stats =
     \<lparr>ss_total = 0, ss_success = 0, ss_failed = 0, ss_merged = 0, ss_closed = 0, ss_cannot_fix = 0\<rparr>"

definition default_stats :: FixAttemptStats where
  "default_stats =
     \<lparr>st_total = 0, st_pending = 0, st_success = 0, st_failed = 0, st_merged = 0, st_closed = 0,
      st_cannot_fix = 0, st_by_source = []\<rparr>"

text \<open>\<open>by_source.entry(source).or_default()\<close>, then an update of the entry.\<close>

fun entry_update :: "'k \<Rightarrow> 'v \<Rightarrow> ('v \<Rightarrow> 'v) \<Rightarrow> ('k \<times> 'v) list \<Rightarrow> ('k \<times> 'v) list" where
  "entry_update k d f [] = [(k, f d)]"
| "entry_update k d f ((k', v) # kvs) =
     (if k' = k then (k', f v) # kvs else (k', v) # entry_update k d f kvs)"

definition count_in_source :: "string \<Rightarrow> nat \<Rightarrow> SourceStats \<Rightarrow> SourceStats" where
  "count_in_source status count e =
     (let e = e\<lparr>ss_total := ss_total e + count\<rparr> in
      if status = ''success'' then e\<lparr>ss_success := ss_success e + count\<rparr>
      else if status = ''failed'' then e\<lparr>ss_failed := ss_failed e + count\<rparr>
      else if status = ''merged'' then e\<lparr>ss_merged := ss_merged e + count\<rparr>
      else if status = ''closed'' then e\<lparr>ss_closed := ss_closed e + count\<rparr>
      else if status = ''cannot_fix'' then e\<lparr>ss_cannot_fix := ss_cannot_fix e + count\<rparr>
      else e)"

definition count_group :: "FixAttemptStats \<Rightarrow> string \<times> string \<times> nat \<Rightarrow> FixAttemptStats" where
  "count_group stats g =
     (case g of (source, status, count) \<Rightarrow>
       let stats = stats\<lparr>st_total := st_total stats + count,
             st_by_source := entry_update source default_source_stats
               (count_in_source status count) (st_by_source stats)\<rparr>
       in if status = ''pending'' then stats\<lparr>st_pending := st_pending stats + count\<rparr>
          else if status = ''success'' then stats\<lparr>st_success := st_success stats + count\<rparr>
          else if status = ''failed'' then stats\<lparr>st_failed := st_failed stats + count\<rparr>
          else if status = ''merged'' then stats\<lparr>st_merged := st_merged stats + count\<rparr>
          else if status = ''closed'' then stats\<lparr>st_closed := st_closed stats + count\<rparr>
          else if status = ''cannot_fix'' then stats\<lparr>st_cannot_fix := st_cannot_fix stats + count\<rparr>
          else stats)"

text \<open>\<open>SELECT source, status, COUNT(*) .. GROUP BY source, status\<close>.\<close>

definition group_key :: "fix_attempt_row \<Rightarrow> string \<times> string" where
  "group_key r = (fa_source r, fa_status r)"

definition group_counts :: "fix_attempt_row list \<Rightarrow> (string \<times> string \<times> nat) list" where
  "group_counts rows =
     map (\<lambda>k. (fst k, snd k, length (filter (\<lambda>r. group_key r = k) rows)))
       (remdups (map group_key rows))"

definition in_scope :: "AttemptScope \<Rightarrow> fix_attempt_row \<Rightarrow> bool" where
  "in_scope scope r \<longleftrightarrow> sql_scope_source (excluded_source scope) (Some (fa_source r))"

definition get_scoped_stats :: "AttemptScope \<Rightarrow> 'x attempts_db_scheme \<Rightarrow> FixAttemptStats" where
  "get_scoped_stats scope s =
     foldl count_group default_stats (group_counts (filter (in_scope scope) (db_attempts s)))"

definition get_stats :: "'x attempts_db_scheme \<Rightarrow> FixAttemptStats" where
  "get_stats s = get_scoped_stats AttemptScope.All s"

definition count_attempts ::
    "string option \<Rightarrow> string option \<Rightarrow> AttemptScope \<Rightarrow> 'x attempts_db_scheme \<Rightarrow> nat" where
  "count_attempts status source scope s =
     rows_affected (\<lambda>r. (case status of None \<Rightarrow> True | Some x \<Rightarrow> fa_status r = x) \<and>
                        (case source of None \<Rightarrow> True | Some x \<Rightarrow> fa_source r = x) \<and>
                        in_scope scope r) (db_attempts s)"

text \<open>\<open>subtract\<close> and \<open>scrub\<close>; subtraction on \<^typ>\<open>nat\<close> is \<open>saturating_sub\<close>.\<close>

definition subtract_hidden :: "FixAttemptStats \<Rightarrow> SourceStats \<Rightarrow> FixAttemptStats" where
  "subtract_hidden stats h =
     (let settled = ss_success h + ss_failed h + ss_merged h + ss_closed h + ss_cannot_fix h in
      stats\<lparr>st_total := st_total stats - ss_total h,
        st_pending := st_pending stats - (ss_total h - settled),
        st_success := st_success stats - ss_success h,
        st_failed := st_failed stats - ss_failed h,
        st_merged := st_merged stats - ss_merged h,
        st_closed := st_closed stats - ss_closed h,
        st_cannot_fix := st_cannot_fix stats - ss_cannot_fix h\<rparr>)"

definition remove_source :: "FixAttemptStats \<Rightarrow> string \<Rightarrow> FixAttemptStats" where
  "remove_source stats source =
     (case map_of (st_by_source stats) source of
        None \<Rightarrow> stats
      | Some hidden \<Rightarrow>
          subtract_hidden
            (stats\<lparr>st_by_source := filter (\<lambda>(k, v). k \<noteq> source) (st_by_source stats)\<rparr>) hidden)"

definition scrub :: "AttemptScope \<Rightarrow> FixAttemptStats \<Rightarrow> FixAttemptStats" where
  "scrub scope stats =
     foldl remove_source stats
       (filter (\<lambda>source. \<not> scope_includes scope source) (map fst (st_by_source stats)))"

section \<open>What the statistics count\<close>

abbreviation count_rows :: "('r \<Rightarrow> bool) \<Rightarrow> 'r list \<Rightarrow> nat" where
  "count_rows q rows \<equiv> length (filter q rows)"

definition group_sum :: "(string \<Rightarrow> string \<Rightarrow> bool) \<Rightarrow> (string \<times> string \<times> nat) list \<Rightarrow> nat" where
  "group_sum Q gs = sum_list (map (\<lambda>(source, status, count). if Q source status then count else 0) gs)"

lemma group_sum_simps [simp]:
  "group_sum Q [] = 0"
  "group_sum Q ((a, b, n) # gs) = (if Q a b then n else 0) + group_sum Q gs"
  "group_sum Q (gs @ hs) = group_sum Q gs + group_sum Q hs"
  by (simp_all add: group_sum_def)

lemma count_rows_disjoint:
  "(\<And>r. \<not> (p r \<and> q r)) \<Longrightarrow> count_rows (\<lambda>r. p r \<or> q r) rows = count_rows p rows + count_rows q rows"
  by (induction rows) auto

lemma sum_over_keys:
  assumes "distinct ks"
  shows "sum_list (map (\<lambda>k. if Q k then count_rows (\<lambda>r. key r = k \<and> P r) rows else 0) ks) =
    count_rows (\<lambda>r. key r \<in> set ks \<and> Q (key r) \<and> P r) rows"
  using assms
proof (induction ks)
  case (Cons k ks)
  have "count_rows (\<lambda>r. key r \<in> set (k # ks) \<and> Q (key r) \<and> P r) rows =
      count_rows (\<lambda>r. (key r = k \<and> Q k \<and> P r) \<or> (key r \<in> set ks \<and> Q (key r) \<and> P r)) rows"
    by (rule arg_cong [where f = length], rule filter_cong) auto
  also have "\<dots> = count_rows (\<lambda>r. key r = k \<and> Q k \<and> P r) rows +
      count_rows (\<lambda>r. key r \<in> set ks \<and> Q (key r) \<and> P r) rows"
    using Cons.prems by (intro count_rows_disjoint) auto
  finally show ?case using Cons by simp
qed simp

lemma group_sum_counts:
  "group_sum Q (group_counts rows) = count_rows (\<lambda>r. Q (fa_source r) (fa_status r)) rows"
proof -
  have "group_sum Q (group_counts rows) =
      sum_list (map (\<lambda>k. if Q (fst k) (snd k) then count_rows (\<lambda>r. group_key r = k \<and> True) rows else 0)
        (remdups (map group_key rows)))"
    by (simp add: group_sum_def group_counts_def comp_def cong: if_cong)
  also have "\<dots> = count_rows (\<lambda>r. group_key r \<in> set (remdups (map group_key rows)) \<and>
      Q (fst (group_key r)) (snd (group_key r)) \<and> True) rows"
    by (rule sum_over_keys) simp
  also have "\<dots> = count_rows (\<lambda>r. Q (fa_source r) (fa_status r)) rows"
    by (rule arg_cong [where f = length], rule filter_cong) (auto simp: group_key_def)
  finally show ?thesis .
qed

lemma foldl_count_group:
  "st_total (foldl count_group st gs) = st_total st + group_sum (\<lambda>_ _. True) gs"
  "st_pending (foldl count_group st gs) = st_pending st + group_sum (\<lambda>_ x. x = ''pending'') gs"
  "st_success (foldl count_group st gs) = st_success st + group_sum (\<lambda>_ x. x = ''success'') gs"
  "st_failed (foldl count_group st gs) = st_failed st + group_sum (\<lambda>_ x. x = ''failed'') gs"
  "st_merged (foldl count_group st gs) = st_merged st + group_sum (\<lambda>_ x. x = ''merged'') gs"
  "st_closed (foldl count_group st gs) = st_closed st + group_sum (\<lambda>_ x. x = ''closed'') gs"
  "st_cannot_fix (foldl count_group st gs) = st_cannot_fix st + group_sum (\<lambda>_ x. x = ''cannot_fix'') gs"
  by (induction gs arbitrary: st) (auto simp: count_group_def Let_def)

lemma map_of_entry_update:
  "map_of (entry_update k d f kvs) =
     (map_of kvs)(k \<mapsto> f (case map_of kvs k of None \<Rightarrow> d | Some v \<Rightarrow> v))"
  by (induction kvs) (auto simp: fun_eq_iff)

lemma keys_entry_update:
  "map fst (entry_update k d f kvs) =
     (if k \<in> set (map fst kvs) then map fst kvs else map fst kvs @ [k])"
proof (induction kvs)
  case (Cons kv kvs)
  then show ?case by (cases kv) (simp del: set_map)
qed simp

lemma distinct_entry_update:
  "distinct (map fst kvs) \<Longrightarrow> distinct (map fst (entry_update k d f kvs))"
  by (simp add: keys_entry_update del: set_map)

definition group_bucket :: "(string \<times> string \<times> nat) list \<Rightarrow> string \<Rightarrow> SourceStats" where
  "group_bucket gs source =
     (let n = (\<lambda>x. group_sum (\<lambda>a b. a = source \<and> b = x) gs) in
      \<lparr>ss_total = group_sum (\<lambda>a b. a = source) gs, ss_success = n ''success'', ss_failed = n ''failed'',
       ss_merged = n ''merged'', ss_closed = n ''closed'', ss_cannot_fix = n ''cannot_fix''\<rparr>)"

lemma by_source_count_group:
  "st_by_source (count_group st (a, b, n)) =
     entry_update a default_source_stats (count_in_source b n) (st_by_source st)"
  by (simp add: count_group_def Let_def)

lemma group_bucket_snoc:
  "group_bucket (gs @ [(a, b, n)]) source =
     (if source = a then count_in_source b n (group_bucket gs source) else group_bucket gs source)"
  by (auto simp: group_bucket_def count_in_source_def Let_def)

lemma group_bucket_absent: "source \<notin> fst ` set gs \<Longrightarrow> group_bucket gs source = default_source_stats"
  by (induction gs) (auto simp: group_bucket_def default_source_stats_def Let_def)

lemma foldl_by_source:
  "distinct (map fst (st_by_source (foldl count_group default_stats gs))) \<and>
   map_of (st_by_source (foldl count_group default_stats gs)) =
     (\<lambda>source. if source \<in> fst ` set gs then Some (group_bucket gs source) else None)"
proof (induction gs rule: rev_induct)
  case Nil
  show ?case by (simp add: default_stats_def)
next
  case (snoc g gs)
  obtain a b n where g: "g = (a, b, n)" by (cases g)
  let ?m = "st_by_source (foldl count_group default_stats gs)"
  have m: "distinct (map fst ?m)"
      "map_of ?m = (\<lambda>source. if source \<in> fst ` set gs then Some (group_bucket gs source) else None)"
    using snoc by simp_all
  have step: "st_by_source (foldl count_group default_stats (gs @ [g])) =
      entry_update a default_source_stats (count_in_source b n) ?m"
    by (simp add: g by_source_count_group)
  have "(case map_of ?m a of None \<Rightarrow> default_source_stats | Some v \<Rightarrow> v) = group_bucket gs a"
    by (simp add: m(2) group_bucket_absent)
  then have "map_of (entry_update a default_source_stats (count_in_source b n) ?m) =
      (map_of ?m)(a \<mapsto> count_in_source b n (group_bucket gs a))"
    by (simp add: map_of_entry_update)
  then have "map_of (entry_update a default_source_stats (count_in_source b n) ?m) =
      (\<lambda>source. if source \<in> fst ` set (gs @ [g]) then Some (group_bucket (gs @ [g]) source) else None)"
    by (auto simp: m(2) g group_bucket_snoc fun_eq_iff)
  then show ?case
    unfolding step using distinct_entry_update [OF m(1)] by blast
qed

text \<open>The counts of one status among some rows, as a record of statistics.\<close>

definition source_bucket :: "fix_attempt_row list \<Rightarrow> string \<Rightarrow> SourceStats" where
  "source_bucket rows source =
     (let n = (\<lambda>x. count_rows (\<lambda>r. fa_source r = source \<and> fa_status r = x) rows) in
      \<lparr>ss_total = count_rows (\<lambda>r. fa_source r = source) rows, ss_success = n ''success'',
       ss_failed = n ''failed'', ss_merged = n ''merged'', ss_closed = n ''closed'',
       ss_cannot_fix = n ''cannot_fix''\<rparr>)"

lemma fst_group_counts: "fst ` set (group_counts rows) = fa_source ` set rows"
  by (force simp: group_counts_def group_key_def)

lemma scoped_stats_counts:
  fixes scope s
  defines "rows \<equiv> filter (in_scope scope) (db_attempts s)"
    and "st \<equiv> get_scoped_stats scope s"
  shows "st_total st = length rows"
    "st_pending st = count_rows (\<lambda>r. fa_status r = ''pending'') rows"
    "st_success st = count_rows (\<lambda>r. fa_status r = ''success'') rows"
    "st_failed st = count_rows (\<lambda>r. fa_status r = ''failed'') rows"
    "st_merged st = count_rows (\<lambda>r. fa_status r = ''merged'') rows"
    "st_closed st = count_rows (\<lambda>r. fa_status r = ''closed'') rows"
    "st_cannot_fix st = count_rows (\<lambda>r. fa_status r = ''cannot_fix'') rows"
    "distinct (map fst (st_by_source st))"
    "map_of (st_by_source st) =
      (\<lambda>source. if source \<in> fa_source ` set rows then Some (source_bucket rows source) else None)"
  unfolding st_def get_scoped_stats_def foldl_count_group group_sum_counts rows_def [symmetric]
  using foldl_by_source [of "group_counts rows"]
  by (simp_all add: default_stats_def group_bucket_def source_bucket_def group_sum_counts Let_def
      fst_group_counts fun_eq_iff)

section \<open>Scrubbing\<close>

definition hidden_sum :: "(SourceStats \<Rightarrow> nat) \<Rightarrow> (string \<Rightarrow> SourceStats option) \<Rightarrow> string list \<Rightarrow> nat" where
  "hidden_sum f m ks = sum_list (map (\<lambda>k. f (the (m k))) ks)"

definition ss_unsettled :: "SourceStats \<Rightarrow> nat" where
  "ss_unsettled h = ss_total h - (ss_success h + ss_failed h + ss_merged h + ss_closed h + ss_cannot_fix h)"

lemma map_of_filter_key:
  "map_of (filter (\<lambda>(k, v). k \<noteq> x) kvs) = (map_of kvs)(x := None)"
  by (induction kvs) (auto simp: fun_eq_iff)

lemma hidden_sum_upd: "x \<notin> set ks \<Longrightarrow> hidden_sum f (m(x := v)) ks = hidden_sum f m ks"
  by (induction ks) (auto simp: hidden_sum_def)

definition without_sources :: "string list \<Rightarrow> FixAttemptStats \<Rightarrow> FixAttemptStats" where
  "without_sources ks st =
     (let hidden = (\<lambda>f. hidden_sum f (map_of (st_by_source st)) ks) in
      st\<lparr>st_total := st_total st - hidden ss_total,
        st_pending := st_pending st - hidden ss_unsettled,
        st_success := st_success st - hidden ss_success,
        st_failed := st_failed st - hidden ss_failed,
        st_merged := st_merged st - hidden ss_merged,
        st_closed := st_closed st - hidden ss_closed,
        st_cannot_fix := st_cannot_fix st - hidden ss_cannot_fix,
        st_by_source := filter (\<lambda>(k, v). k \<notin> set ks) (st_by_source st)\<rparr>)"

lemma foldl_remove_source:
  assumes "distinct ks" and "\<forall>k \<in> set ks. map_of (st_by_source st) k \<noteq> None"
  shows "foldl remove_source st ks = without_sources ks st"
  using assms
proof (induction ks arbitrary: st)
  case Nil
  have "filter (\<lambda>(k, v). k \<notin> set []) kvs = kvs" for kvs :: "(string \<times> SourceStats) list"
    by (induction kvs) auto
  then show ?case by (simp add: without_sources_def hidden_sum_def)
next
  case (Cons k ks)
  from Cons.prems(2) obtain h where h: "map_of (st_by_source st) k = Some h" by auto
  let ?st = "remove_source st k"
  have by_source: "st_by_source ?st = filter (\<lambda>(x, v). x \<noteq> k) (st_by_source st)"
    by (simp add: remove_source_def h subtract_hidden_def Let_def)
  have m: "map_of (st_by_source ?st) = (map_of (st_by_source st))(k := None)"
    unfolding by_source by (rule map_of_filter_key)
  have sum: "hidden_sum f (map_of (st_by_source st)) (k # ks) =
      f h + hidden_sum f (map_of (st_by_source ?st)) ks" for f
    using Cons.prems(1) by (simp add: m hidden_sum_upd) (simp add: hidden_sum_def h)
  have filters: "filter (\<lambda>(x, v). x \<notin> set ks) (filter (\<lambda>(x, v). x \<noteq> k) kvs) =
      filter (\<lambda>(x, v). x \<notin> set (k # ks)) kvs" for kvs :: "(string \<times> SourceStats) list"
    by (induction kvs) auto
  have "foldl remove_source ?st ks = without_sources ks ?st"
    using Cons.prems by (intro Cons.IH) (auto simp: m)
  also have "\<dots> = without_sources (k # ks) st"
    unfolding without_sources_def sum Let_def by_source filters
    by (simp add: remove_source_def h subtract_hidden_def ss_unsettled_def Let_def)
  finally show ?case by simp
qed

lemma map_of_without_sources:
  "map_of (st_by_source (without_sources ks st)) = map_of (st_by_source st) |` (- set ks)"
proof -
  have "map_of (filter (\<lambda>(k, v). k \<notin> set ks) kvs) = map_of kvs |` (- set ks)" for kvs :: "(string \<times> SourceStats) list"
    by (induction kvs) (auto simp: fun_eq_iff restrict_map_def)
  then show ?thesis by (simp add: without_sources_def Let_def)
qed

definition settled_statuses :: "string list" where
  "settled_statuses = [''success'', ''failed'', ''merged'', ''closed'', ''cannot_fix'']"

lemma count_rows_settled:
  "count_rows (\<lambda>r. A r \<and> fa_status r = ''success'') rows + count_rows (\<lambda>r. A r \<and> fa_status r = ''failed'') rows +
   count_rows (\<lambda>r. A r \<and> fa_status r = ''merged'') rows + count_rows (\<lambda>r. A r \<and> fa_status r = ''closed'') rows +
   count_rows (\<lambda>r. A r \<and> fa_status r = ''cannot_fix'') rows +
   count_rows (\<lambda>r. A r \<and> fa_status r \<notin> set settled_statuses) rows = count_rows A rows"
  by (induction rows) (auto simp: settled_statuses_def)

lemma unsettled_bucket:
  "ss_unsettled (source_bucket rows k) =
     count_rows (\<lambda>r. fa_source r = k \<and> fa_status r \<notin> set settled_statuses) rows"
  using count_rows_settled [of "\<lambda>r. fa_source r = k" rows]
  by (simp add: ss_unsettled_def source_bucket_def Let_def)

lemma count_rows_restrict:
  "count_rows P (filter Q rows) = count_rows P rows - count_rows (\<lambda>r. \<not> Q r \<and> P r) rows"
proof -
  have "count_rows P rows = count_rows P (filter Q rows) + count_rows (\<lambda>r. \<not> Q r \<and> P r) rows"
    by (induction rows) auto
  then show ?thesis by simp
qed

lemma in_scope_includes: "in_scope scope r \<longleftrightarrow> scope_includes scope (fa_source r)"
  by (simp add: in_scope_def sql_scope_agrees includes_optional_def)

lemma in_scope_All: "filter (in_scope AttemptScope.All) rows = rows"
  by (simp add: in_scope_includes scope_includes_def)

lemma scrub_get_stats:
  fixes scope s
  defines "rows \<equiv> db_attempts s" and "st \<equiv> get_stats s"
  defines "ks \<equiv> filter (\<lambda>k. \<not> scope_includes scope k) (map fst (st_by_source st))"
  shows "scrub scope st = without_sources ks st"
    and "set ks = {k \<in> fa_source ` set rows. \<not> scope_includes scope k}"
    and "(\<And>k. f (source_bucket rows k) = count_rows (\<lambda>r. fa_source r = k \<and> P (fa_status r)) rows) \<Longrightarrow>
      hidden_sum f (map_of (st_by_source st)) ks =
      count_rows (\<lambda>r. \<not> in_scope scope r \<and> P (fa_status r)) rows"
proof -
  have d: "distinct ks"
    unfolding ks_def st_def get_stats_def by (intro distinct_filter scoped_stats_counts(8))
  have m: "map_of (st_by_source st) =
      (\<lambda>k. if k \<in> fa_source ` set rows then Some (source_bucket rows k) else None)"
    unfolding st_def get_stats_def scoped_stats_counts(9) in_scope_All rows_def ..
  have "set (map fst (st_by_source st)) = dom (map_of (st_by_source st))"
    by (simp add: dom_map_of_conv_image_fst)
  also have "\<dots> = fa_source ` set rows"
    unfolding m by (auto simp: dom_def)
  finally show ks: "set ks = {k \<in> fa_source ` set rows. \<not> scope_includes scope k}"
    unfolding ks_def by auto
  then show "scrub scope st = without_sources ks st"
    unfolding scrub_def ks_def [symmetric] using d m by (intro foldl_remove_source) auto
  assume f: "\<And>k. f (source_bucket rows k) = count_rows (\<lambda>r. fa_source r = k \<and> P (fa_status r)) rows"
  have "hidden_sum f (map_of (st_by_source st)) ks =
      sum_list (map (\<lambda>k. if True then count_rows (\<lambda>r. fa_source r = k \<and> P (fa_status r)) rows else 0) ks)"
    unfolding hidden_sum_def using ks by (intro arg_cong [where f = sum_list] map_cong) (auto simp: m f)
  also have "\<dots> = count_rows (\<lambda>r. fa_source r \<in> set ks \<and> True \<and> P (fa_status r)) rows"
    by (rule sum_over_keys [OF d])
  also have "\<dots> = count_rows (\<lambda>r. \<not> in_scope scope r \<and> P (fa_status r)) rows"
    by (rule arg_cong [where f = length], rule filter_cong) (auto simp: ks in_scope_includes)
  finally show "hidden_sum f (map_of (st_by_source st)) ks =
      count_rows (\<lambda>r. \<not> in_scope scope r \<and> P (fa_status r)) rows" .
qed

definition excluded_unsettled :: "AttemptScope \<Rightarrow> 'x attempts_db_scheme \<Rightarrow> nat" where
  "excluded_unsettled scope s =
     count_rows (\<lambda>r. \<not> in_scope scope r \<and> fa_status r \<notin> set (''pending'' # settled_statuses)) (db_attempts s)"

lemma scrub_by_source:
  "map_of (st_by_source (scrub scope (get_stats s))) = map_of (st_by_source (get_scoped_stats scope s))"
proof
  fix k
  have all: "map_of (st_by_source (get_stats s)) =
      (\<lambda>k. if k \<in> fa_source ` set (db_attempts s) then Some (source_bucket (db_attempts s) k) else None)"
    unfolding get_stats_def scoped_stats_counts(9) in_scope_All ..
  have bucket: "source_bucket (filter (in_scope scope) rows) k = source_bucket rows k" if "scope_includes scope k"
    for rows
  proof -
    have "count_rows (\<lambda>r. fa_source r = k \<and> P r) (filter (in_scope scope) rows) =
        count_rows (\<lambda>r. fa_source r = k \<and> P r) rows" for P
      using that by (induction rows) (auto simp: in_scope_includes)
    from this [of "\<lambda>_. True"] this show ?thesis
      by (simp add: source_bucket_def Let_def)
  qed
  show "map_of (st_by_source (scrub scope (get_stats s))) k = map_of (st_by_source (get_scoped_stats scope s)) k"
    unfolding scrub_get_stats(1) map_of_without_sources scoped_stats_counts(9) restrict_map_def
      scrub_get_stats(2) Compl_iff
    using bucket by (auto simp: all in_scope_includes)
qed

lemma count_rows_pending:
  "count_rows (\<lambda>r. A r \<and> fa_status r \<notin> set settled_statuses) rows =
     count_rows (\<lambda>r. A r \<and> fa_status r = ''pending'') rows +
     count_rows (\<lambda>r. A r \<and> fa_status r \<notin> set (''pending'' # settled_statuses)) rows"
  by (induction rows) (auto simp: settled_statuses_def)

text \<open>
  The statistics of a scope are what counting the rows of the scope gives, in total, for each
  status and for each source.
\<close>

theorem scoped_stats_exact:
  "st_total (get_scoped_stats scope s) = rows_affected (in_scope scope) (db_attempts s) \<and>
   st_pending (get_scoped_stats scope s) = count_attempts (Some ''pending'') None scope s \<and>
   st_success (get_scoped_stats scope s) = count_attempts (Some ''success'') None scope s \<and>
   st_failed (get_scoped_stats scope s) = count_attempts (Some ''failed'') None scope s \<and>
   st_merged (get_scoped_stats scope s) = count_attempts (Some ''merged'') None scope s \<and>
   st_closed (get_scoped_stats scope s) = count_attempts (Some ''closed'') None scope s \<and>
   st_cannot_fix (get_scoped_stats scope s) = count_attempts (Some ''cannot_fix'') None scope s \<and>
   (case map_of (st_by_source (get_scoped_stats scope s)) source of
      None \<Rightarrow> count_attempts None (Some source) scope s = 0
    | Some b \<Rightarrow> ss_total b = count_attempts None (Some source) scope s \<and>
        ss_merged b = count_attempts (Some ''merged'') (Some source) scope s)"
proof -
  have n: "count_attempts (Some x) None scope s =
      count_rows (\<lambda>r. fa_status r = x) (filter (in_scope scope) (db_attempts s))" for x
    by (simp add: count_attempts_def rows_affected_def conj_commute)
  have b: "count_attempts None (Some source) scope s =
      count_rows (\<lambda>r. fa_source r = source) (filter (in_scope scope) (db_attempts s))"
    by (simp add: count_attempts_def rows_affected_def conj_commute)
  have bx: "count_attempts (Some x) (Some source) scope s =
      count_rows (\<lambda>r. fa_source r = source \<and> fa_status r = x) (filter (in_scope scope) (db_attempts s))" for x
    unfolding count_attempts_def rows_affected_def filter_filter
    by (rule arg_cong [where f = length], rule filter_cong) auto
  show ?thesis
    unfolding scoped_stats_counts n
    by (auto simp: b bx source_bucket_def rows_affected_def Let_def filter_empty_conv)
qed

text \<open>
  Property C39. Scrubbing the unscoped statistics gives the scoped ones, except for the pending count: the
  answered and declined attempts of the excluded sources are taken off it too, although they were never
  counted as pending.
\<close>

theorem scrub_gives_scoped_stats:
  "st_total (scrub scope (get_stats s)) = st_total (get_scoped_stats scope s) \<and>
   st_success (scrub scope (get_stats s)) = st_success (get_scoped_stats scope s) \<and>
   st_failed (scrub scope (get_stats s)) = st_failed (get_scoped_stats scope s) \<and>
   st_merged (scrub scope (get_stats s)) = st_merged (get_scoped_stats scope s) \<and>
   st_closed (scrub scope (get_stats s)) = st_closed (get_scoped_stats scope s) \<and>
   st_cannot_fix (scrub scope (get_stats s)) = st_cannot_fix (get_scoped_stats scope s) \<and>
   map_of (st_by_source (scrub scope (get_stats s))) = map_of (st_by_source (get_scoped_stats scope s)) \<and>
   st_pending (scrub scope (get_stats s)) =
     st_pending (get_scoped_stats scope s) - excluded_unsettled scope s"
proof -
  let ?rows = "db_attempts s"
  let ?m = "map_of (st_by_source (get_stats s))"
  let ?ks = "filter (\<lambda>k. \<not> scope_includes scope k) (map fst (st_by_source (get_stats s)))"
  have sum: "hidden_sum f ?m ?ks = count_rows (\<lambda>r. \<not> in_scope scope r \<and> P (fa_status r)) ?rows"
    if "\<And>k. f (source_bucket ?rows k) = count_rows (\<lambda>r. fa_source r = k \<and> P (fa_status r)) ?rows" for f P
    using that by (rule scrub_get_stats(3))
  have hidden: "hidden_sum ss_total ?m ?ks = count_rows (\<lambda>r. \<not> in_scope scope r \<and> True) ?rows"
      "hidden_sum ss_success ?m ?ks = count_rows (\<lambda>r. \<not> in_scope scope r \<and> fa_status r = ''success'') ?rows"
      "hidden_sum ss_failed ?m ?ks = count_rows (\<lambda>r. \<not> in_scope scope r \<and> fa_status r = ''failed'') ?rows"
      "hidden_sum ss_merged ?m ?ks = count_rows (\<lambda>r. \<not> in_scope scope r \<and> fa_status r = ''merged'') ?rows"
      "hidden_sum ss_closed ?m ?ks = count_rows (\<lambda>r. \<not> in_scope scope r \<and> fa_status r = ''closed'') ?rows"
      "hidden_sum ss_cannot_fix ?m ?ks =
        count_rows (\<lambda>r. \<not> in_scope scope r \<and> fa_status r = ''cannot_fix'') ?rows"
    by (rule sum; simp add: source_bucket_def Let_def)+
  have pending: "hidden_sum ss_unsettled ?m ?ks =
      count_rows (\<lambda>r. \<not> in_scope scope r \<and> fa_status r = ''pending'') ?rows + excluded_unsettled scope s"
  proof -
    have "hidden_sum ss_unsettled ?m ?ks =
        count_rows (\<lambda>r. \<not> in_scope scope r \<and> fa_status r \<notin> set settled_statuses) ?rows"
      by (rule sum) (rule unsettled_bucket)
    also have "\<dots> = count_rows (\<lambda>r. \<not> in_scope scope r \<and> fa_status r = ''pending'') ?rows +
        excluded_unsettled scope s"
      unfolding excluded_unsettled_def by (rule count_rows_pending)
    finally show ?thesis .
  qed
  have fields: "st_total (without_sources ?ks (get_stats s)) = st_total (get_stats s) - hidden_sum ss_total ?m ?ks"
      "st_pending (without_sources ?ks (get_stats s)) = st_pending (get_stats s) - hidden_sum ss_unsettled ?m ?ks"
      "st_success (without_sources ?ks (get_stats s)) = st_success (get_stats s) - hidden_sum ss_success ?m ?ks"
      "st_failed (without_sources ?ks (get_stats s)) = st_failed (get_stats s) - hidden_sum ss_failed ?m ?ks"
      "st_merged (without_sources ?ks (get_stats s)) = st_merged (get_stats s) - hidden_sum ss_merged ?m ?ks"
      "st_closed (without_sources ?ks (get_stats s)) = st_closed (get_stats s) - hidden_sum ss_closed ?m ?ks"
      "st_cannot_fix (without_sources ?ks (get_stats s)) =
        st_cannot_fix (get_stats s) - hidden_sum ss_cannot_fix ?m ?ks"
    by (simp_all add: without_sources_def Let_def)
  show ?thesis
    using count_rows_restrict [of "\<lambda>_. True" "in_scope scope" ?rows]
    unfolding scrub_by_source unfolding scrub_get_stats(1) fields hidden pending
    by (simp add: get_stats_def scoped_stats_counts in_scope_All count_rows_restrict del: filter_filter)
qed

text \<open>
  The difference is real: after one answered security attempt and one pending attempt of
  another source, the scrubbed statistics report nothing pending where the scoped ones report one.
\<close>

theorem scrub_undercounts_pending:
  "let s = run_attempts
       [Record_attempt 10 ''security'' ''1'' ''SEC-1'' [], Mark_answered ''security'' ''1'' ''done'' None,
        Record_attempt 20 ''linear'' ''2'' ''ENG-2'' []] empty_attempts
   in st_pending (get_scoped_stats AttemptScope.WithoutSecurity s) = 1 \<and>
      st_pending (scrub AttemptScope.WithoutSecurity (get_stats s)) = 0"
  by code_simp

end
