(* ===== verification/Retry.thy ===== *)
theory Retry
  imports Fix_Attempts "HOL-Library.Sublist"
begin

text \<open>
  \<open>RetryManager\<close> of \<open>crates/claudear-engine/src/retry.rs\<close>: which attempts are retried, after which delay, and
  what a failure does. The manager reaches its store through \<open>Arc<dyn FixAttemptTracker>\<close>, a record of the
  methods it calls; the locale states the laws it relies on and is interpreted on the SQLite store.
  Activity log entries, whose failures are ignored, are not modelled.
\<close>

section \<open>Configuration and delays\<close>

record RetryConfig =
  max_retries :: u32
  base_delay_ms :: u64
  max_delay_ms :: u64

definition default_retry_config :: RetryConfig where
  "default_retry_config = \<lparr>max_retries = 2, base_delay_ms = 60000, max_delay_ms = 3600000\<rparr>"

definition saturating_mul :: "u64 \<Rightarrow> u64 \<Rightarrow> u64" where
  "saturating_mul a b = (if unat a * unat b < 2 ^ 64 then a * b else - 1)"

definition saturating_pow2 :: "u32 \<Rightarrow> u64" where
  "saturating_pow2 n = (if unat n < 64 then 2 ^ unat n else - 1)"

definition get_delay :: "RetryConfig \<Rightarrow> u32 \<Rightarrow> u64" where
  "get_delay cfg retry_count =
     min (saturating_mul (base_delay_ms cfg) (saturating_pow2 retry_count)) (max_delay_ms cfg)"

text \<open>\<open>i64::try_from(delay.as_millis()).unwrap_or(i64::MAX)\<close> milliseconds, as a span of instants.\<close>

definition delay_span :: "u64 \<Rightarrow> datetime" where
  "delay_span d = min (uint d) (2 ^ 63 - 1) * 1000000"

section \<open>Decisions on one attempt\<close>

definition should_retry :: "RetryConfig \<Rightarrow> FixAttempt \<Rightarrow> bool" where
  "should_retry cfg a \<longleftrightarrow>
     \<not> (at_status a \<noteq> FixAttemptStatus.Failed \<and> at_status a \<noteq> FixAttemptStatus.Closed) \<and>
     \<not> max_retries cfg \<le> at_retry_count a"

definition retry_base_time :: "FixAttempt \<Rightarrow> datetime" where
  "retry_base_time a = (case at_last_retry_at a of Some t \<Rightarrow> t | None \<Rightarrow> at_attempted_at a)"

definition is_ready_for_retry :: "datetime \<Rightarrow> RetryConfig \<Rightarrow> FixAttempt \<Rightarrow> bool" where
  "is_ready_for_retry now cfg a \<longleftrightarrow>
     should_retry cfg a \<and>
     retry_base_time a + delay_span (get_delay cfg (at_retry_count a)) \<le> now"

definition get_next_retry_time :: "RetryConfig \<Rightarrow> FixAttempt \<Rightarrow> datetime option" where
  "get_next_retry_time cfg a =
     (if \<not> should_retry cfg a then None
      else Some (retry_base_time a + delay_span (get_delay cfg (at_retry_count a))))"

section \<open>The manager\<close>

record 'st AttemptTracker =
  trk_get_attempt :: "string \<Rightarrow> string \<Rightarrow> 'st \<Rightarrow> FixAttempt option"
  trk_mark_failed :: "string \<Rightarrow> string \<Rightarrow> string \<Rightarrow> 'st \<Rightarrow> 'st"
  trk_mark_cannot_fix :: "string \<Rightarrow> string \<Rightarrow> string \<Rightarrow> 'st \<Rightarrow> 'st"
  trk_prepare_for_retry :: "stamp \<Rightarrow> string \<Rightarrow> string \<Rightarrow> ('st, unit) op"
  trk_get_retryable_issues :: "u32 \<Rightarrow> 'st \<Rightarrow> FixAttempt list"

datatype RetryDecision =
    Retry (rd_retry_count: u32) (rd_delay: u64)
  | CannotFix
  | NotFound

definition handle_failure ::
    "'st AttemptTracker \<Rightarrow> RetryConfig \<Rightarrow> string \<Rightarrow> string \<Rightarrow> string \<Rightarrow> 'st \<Rightarrow> RetryDecision \<times> 'st" where
  "handle_failure T cfg source issue_id err s =
     (case trk_get_attempt T source issue_id s of
        None \<Rightarrow> (RetryDecision.NotFound, s)
      | Some attempt \<Rightarrow>
          (let new_retry_count = at_retry_count attempt + 1 in
           if max_retries cfg < new_retry_count
           then (RetryDecision.CannotFix,
                 trk_mark_cannot_fix T source issue_id
                   (''Max retries ('' @ show_nat (unat (max_retries cfg)) @ '') reached. Last error: '' @ err) s)
           else (RetryDecision.Retry new_retry_count (get_delay cfg (at_retry_count attempt)),
                 trk_mark_failed T source issue_id err s)))"

definition handle_pr_closed ::
    "'st AttemptTracker \<Rightarrow> RetryConfig \<Rightarrow> string \<Rightarrow> string \<Rightarrow> 'st \<Rightarrow> RetryDecision \<times> 'st" where
  "handle_pr_closed T cfg source issue_id =
     handle_failure T cfg source issue_id ''PR was closed without merging''"

definition handle_regression ::
    "'st AttemptTracker \<Rightarrow> RetryConfig \<Rightarrow> string \<Rightarrow> string \<Rightarrow> 'st \<Rightarrow> RetryDecision \<times> 'st" where
  "handle_regression T cfg source issue_id =
     handle_failure T cfg source issue_id ''Regression detected after merge''"

definition get_ready_retries :: "'st AttemptTracker \<Rightarrow> datetime \<Rightarrow> RetryConfig \<Rightarrow> 'st \<Rightarrow> FixAttempt list" where
  "get_ready_retries T now cfg s =
     filter (is_ready_for_retry now cfg) (trk_get_retryable_issues T (max_retries cfg) s)"

definition prepare_retry :: "'st AttemptTracker \<Rightarrow> stamp \<Rightarrow> string \<Rightarrow> string \<Rightarrow> ('st, unit) op" where
  "prepare_retry T now source issue_id = trk_prepare_for_retry T now source issue_id"

definition sqlite_tracker :: "'x attempts_db_scheme AttemptTracker" where
  "sqlite_tracker =
     \<lparr>trk_get_attempt = get_attempt, trk_mark_failed = mark_failed,
      trk_mark_cannot_fix = mark_cannot_fix, trk_prepare_for_retry = prepare_for_retry,
      trk_get_retryable_issues = get_retryable_issues\<rparr>"

section \<open>Delays\<close>

lemma unat_max_u64: "unat (- 1 :: u64) = 2 ^ 64 - 1"
  by (simp add: unsigned_minus_1_eq_mask mask_eq_exp_minus_1)

lemma unat_pow2_u64:
  assumes "n < 64"
  shows "unat ((2 :: u64) ^ n) = 2 ^ n"
proof -
  have "(2::nat) ^ n < 2 ^ 64"
    using assms by (intro power_strict_increasing) auto
  moreover have "(2 :: u64) ^ n = of_nat (2 ^ n)" by simp
  ultimately show ?thesis
    using assms by (simp add: unsigned_of_nat take_bit_nat_eq_self del: of_nat_power)
qed

lemma unat_u32_succ: "(w :: u32) < v \<Longrightarrow> unat (w + 1) = Suc (unat w)"
proof -
  assume "w < v"
  then have "w \<noteq> - 1" by (metis word_n1_ge leD)
  then have "1 + w \<noteq> 0" by (metis add.commute add_eq_0_iff)
  then show ?thesis by (simp add: unatSuc add.commute)
qed

lemma u32_less_succ: "(w :: u32) < - 1 \<Longrightarrow> w < w + 1"
  by (simp add: word_less_nat_alt unat_u32_succ)

lemma unat_u64_le: "unat (w :: u64) \<le> 2 ^ 64 - 1"
  using unsigned_less [of w, where ?'a = nat] by simp

lemma unat_saturating_mul: "unat (saturating_mul a b) = min (unat a * unat b) (2 ^ 64 - 1)"
proof (cases "unat a * unat b < 2 ^ 64")
  case True
  then have "unat (a * b) = unat a * unat b"
    by (simp add: unat_word_ariths)
  with True show ?thesis by (simp add: saturating_mul_def min_def)
next
  case False
  then show ?thesis by (simp add: saturating_mul_def unat_max_u64 min_def)
qed

lemma unat_saturating_pow2: "unat (saturating_pow2 n) = min (2 ^ unat n) (2 ^ 64 - 1)"
proof (cases "unat n < 64")
  case True
  then have "(2::nat) ^ unat n < 2 ^ 64" by (intro power_strict_increasing) auto
  with True show ?thesis by (simp add: saturating_pow2_def unat_pow2_u64 min_def)
next
  case False
  then have "(2::nat) ^ 64 \<le> 2 ^ unat n" by (intro power_increasing) auto
  with False show ?thesis by (simp add: saturating_pow2_def unat_max_u64 min_def)
qed

lemma unat_get_delay:
  "unat (get_delay cfg n) = min (unat (base_delay_ms cfg) * 2 ^ unat n) (unat (max_delay_ms cfg))"
proof -
  let ?b = "unat (base_delay_ms cfg)" and ?M = "unat (max_delay_ms cfg)"
  have M: "?M \<le> 2 ^ 64 - 1"
    by (rule unat_u64_le)
  have "unat (min x y) = min (unat x) (unat y)" for x y :: u64
    by (simp add: min_def word_le_nat_alt)
  then have "unat (get_delay cfg n) = min (min (?b * min (2 ^ unat n) (2 ^ 64 - 1)) (2 ^ 64 - 1)) ?M"
    by (simp add: get_delay_def unat_saturating_mul unat_saturating_pow2)
  also have "\<dots> = min (?b * min (2 ^ unat n) (2 ^ 64 - 1)) ?M"
    using M by linarith
  also have "\<dots> = min (?b * 2 ^ unat n) ?M"
  proof (cases "?b = 0 \<or> (2::nat) ^ unat n \<le> 2 ^ 64 - 1")
    case False
    then have "?M \<le> ?b * (2 ^ 64 - 1)" "?M \<le> ?b * 2 ^ unat n"
      using M by (auto intro: order_trans [OF M] order_trans [of _ "2 ^ unat n"] simp del: One_nat_def)
    then show ?thesis using False by (simp add: min_def)
  qed (auto simp: min_def)
  finally show ?thesis .
qed

text \<open>
  The delay before a retry is the base delay doubled once per earlier retry, capped at the
  maximum, exactly: the saturating 64-bit arithmetic never shows.
\<close>

theorem delay_is_capped_exponential:
  "unat (get_delay cfg n) = min (unat (base_delay_ms cfg) * 2 ^ unat n) (unat (max_delay_ms cfg))"
  by (rule unat_get_delay)

section \<open>The contract of the tracker\<close>

text \<open>The manager names an attempt by its issue; the laws are those of one issue.\<close>

locale attempt_tracker =
  fixes T :: "'st AttemptTracker"
    and inv :: "'st \<Rightarrow> bool"
    and src :: string
    and i :: string
  assumes get_key: "inv s \<Longrightarrow> trk_get_attempt T src i s = Some a \<Longrightarrow> at_source a = src \<and> at_issue_id a = i"
    and failed_inv: "inv s \<Longrightarrow> inv (trk_mark_failed T src i e s)"
    and failed_get: "inv s \<Longrightarrow> trk_get_attempt T src i s = Some a \<Longrightarrow>
      trk_get_attempt T src i (trk_mark_failed T src i e s) =
        Some (a\<lparr>at_status := FixAttemptStatus.Failed, at_error_message := Some e\<rparr>)"
    and cannot_fix_inv: "inv s \<Longrightarrow> inv (trk_mark_cannot_fix T src i e s)"
    and cannot_fix_get: "inv s \<Longrightarrow> trk_get_attempt T src i s = Some a \<Longrightarrow>
      trk_get_attempt T src i (trk_mark_cannot_fix T src i e s) =
        Some (a\<lparr>at_status := FixAttemptStatus.CannotFix, at_error_message := Some e\<rparr>)"
    and prepare_ok: "inv s \<Longrightarrow> trk_get_attempt T src i s = Some a \<Longrightarrow>
      fst (trk_prepare_for_retry T now src i s) = Inr () \<longleftrightarrow>
        at_status a = FixAttemptStatus.Failed \<or> at_status a = FixAttemptStatus.Closed"
    and prepare_inv: "inv s \<Longrightarrow> trk_get_attempt T src i s = Some a \<Longrightarrow> at_retry_count a < - 1 \<Longrightarrow>
      inv (snd (trk_prepare_for_retry T now src i s))"
    and prepare_get: "inv s \<Longrightarrow> trk_get_attempt T src i s = Some a \<Longrightarrow>
      fst (trk_prepare_for_retry T now src i s) = Inr () \<Longrightarrow> at_retry_count a < - 1 \<Longrightarrow>
      \<exists>b. trk_get_attempt T src i (snd (trk_prepare_for_retry T now src i s)) = Some b \<and>
        at_status b = FixAttemptStatus.Pending \<and> at_retry_count b = at_retry_count a + 1 \<and>
        at_last_retry_at b = Some (parse_datetime now)"
    and retryable: "inv s \<Longrightarrow> at_source a = src \<Longrightarrow> at_issue_id a = i \<Longrightarrow>
      a \<in> set (trk_get_retryable_issues T n s) \<longleftrightarrow>
        at_status a = FixAttemptStatus.Failed \<and> at_retry_count a < n \<and> trk_get_attempt T src i s = Some a"
begin

lemma retry_keeps_attempt_retryable:
  assumes "inv s" "trk_get_attempt T src i s = Some a" "at_retry_count a < max_retries cfg"
  shows "fst (handle_failure T cfg src i e s) =
      RetryDecision.Retry (at_retry_count a + 1) (get_delay cfg (at_retry_count a))"
    and "trk_get_attempt T src i (snd (handle_failure T cfg src i e s)) =
      Some (a\<lparr>at_status := FixAttemptStatus.Failed, at_error_message := Some e\<rparr>)"
    and "inv (snd (handle_failure T cfg src i e s))"
proof -
  have "\<not> max_retries cfg < at_retry_count a + 1"
    using assms(3) by (simp add: inc_le leD)
  then have "handle_failure T cfg src i e s =
      (RetryDecision.Retry (at_retry_count a + 1) (get_delay cfg (at_retry_count a)),
       trk_mark_failed T src i e s)"
    using assms(2) by (simp add: handle_failure_def Let_def)
  then show "fst (handle_failure T cfg src i e s) =
      RetryDecision.Retry (at_retry_count a + 1) (get_delay cfg (at_retry_count a))"
    and "trk_get_attempt T src i (snd (handle_failure T cfg src i e s)) =
      Some (a\<lparr>at_status := FixAttemptStatus.Failed, at_error_message := Some e\<rparr>)"
    and "inv (snd (handle_failure T cfg src i e s))"
    using assms by (simp_all add: failed_get failed_inv)
qed

lemma exhausted_attempt_is_abandoned:
  assumes "inv s" "trk_get_attempt T src i s = Some a" "at_retry_count a = max_retries cfg"
    "max_retries cfg < - 1"
  shows "fst (handle_failure T cfg src i e s) = RetryDecision.CannotFix"
    and "\<exists>m. trk_get_attempt T src i (snd (handle_failure T cfg src i e s)) =
      Some (a\<lparr>at_status := FixAttemptStatus.CannotFix, at_error_message := Some m\<rparr>)"
    and "inv (snd (handle_failure T cfg src i e s))"
proof -
  have "at_retry_count a < at_retry_count a + 1"
    using assms(3,4) by (simp add: u32_less_succ)
  then have "handle_failure T cfg src i e s =
      (RetryDecision.CannotFix, trk_mark_cannot_fix T src i
        (''Max retries ('' @ show_nat (unat (max_retries cfg)) @ '') reached. Last error: '' @ e) s)"
    using assms(2,3) by (simp add: handle_failure_def Let_def)
  then show "fst (handle_failure T cfg src i e s) = RetryDecision.CannotFix"
    and "\<exists>m. trk_get_attempt T src i (snd (handle_failure T cfg src i e s)) =
      Some (a\<lparr>at_status := FixAttemptStatus.CannotFix, at_error_message := Some m\<rparr>)"
    and "inv (snd (handle_failure T cfg src i e s))"
    using assms by (auto simp: cannot_fix_get cannot_fix_inv)
qed

end

section \<open>An issue that keeps failing\<close>

text \<open>
  The scans for ready retries that the watcher makes now and then, for one issue whose runs all fail: a scan that finds
  the issue ready prepares the retry and the run fails at that instant with some error; any other scan leaves it alone.
  The result is when it was retried and what the manager decided after each failure.
\<close>

definition is_ready_issue :: "'st AttemptTracker \<Rightarrow> datetime \<Rightarrow> RetryConfig \<Rightarrow> string \<Rightarrow> string \<Rightarrow> 'st \<Rightarrow> bool" where
  "is_ready_issue T now cfg source issue_id s \<longleftrightarrow>
     list_ex (\<lambda>a. at_source a = source \<and> at_issue_id a = issue_id) (get_ready_retries T now cfg s)"

fun failing_scans ::
    "'st AttemptTracker \<Rightarrow> RetryConfig \<Rightarrow> string \<Rightarrow> string \<Rightarrow> (datetime \<times> string) list \<Rightarrow> 'st \<Rightarrow>
       (datetime \<times> RetryDecision) list" where
  "failing_scans T cfg source issue_id [] s = []"
| "failing_scans T cfg source issue_id ((now, err) # scans) s =
     (if is_ready_issue T now cfg source issue_id s
      then (case prepare_retry T (timestamp now) source issue_id s of
              (Inl _, s1) \<Rightarrow> failing_scans T cfg source issue_id scans s1
            | (Inr _, s1) \<Rightarrow>
                (case handle_failure T cfg source issue_id err s1 of
                   (decision, s2) \<Rightarrow> (now, decision) # failing_scans T cfg source issue_id scans s2))
      else failing_scans T cfg source issue_id scans s)"

text \<open>What the manager is to decide from the \<open>c\<close>-th retry on, and when it is to retry: never before the delay is over.\<close>

definition retry_decisions :: "RetryConfig \<Rightarrow> nat \<Rightarrow> RetryDecision list" where
  "retry_decisions cfg c =
     map (\<lambda>k. RetryDecision.Retry (of_nat (Suc k)) (get_delay cfg (of_nat k))) [c..<unat (max_retries cfg)]"

fun spaced_retries :: "RetryConfig \<Rightarrow> nat \<Rightarrow> datetime \<Rightarrow> datetime list \<Rightarrow> bool" where
  "spaced_retries cfg c base [] \<longleftrightarrow> True"
| "spaced_retries cfg c base (t # ts) \<longleftrightarrow>
     base + delay_span (get_delay cfg (of_nat c)) \<le> t \<and> spaced_retries cfg (Suc c) (parse_datetime (timestamp t)) ts"

lemma spaced_mono: "base' \<le> base \<Longrightarrow> spaced_retries cfg c base ts \<Longrightarrow> spaced_retries cfg c base' ts"
  by (cases ts) auto

lemma seconds_mono: "s \<le> t \<Longrightarrow> parse_datetime (timestamp s) \<le> parse_datetime (timestamp t)"
  by (simp add: parse_datetime_def timestamp_def zdiv_mono1)

text \<open>Scans that are spaced enough find every retry, also when earlier scans found some of them.\<close>

lemma spaced_skip:
  assumes "sorted (now # map fst scans)" "subseq ts (now # map fst scans)" "spaced_retries cfg c base ts"
  shows "subseq (tl ts) (map fst scans) \<and> spaced_retries cfg (Suc c) (parse_datetime (timestamp now)) (tl ts)"
    and "now < base + delay_span (get_delay cfg (of_nat c)) \<Longrightarrow> subseq ts (map fst scans)"
proof -
  show "subseq (tl ts) (map fst scans) \<and> spaced_retries cfg (Suc c) (parse_datetime (timestamp now)) (tl ts)"
  proof (cases ts)
    case (Cons t us)
    have us: "subseq us (map fst scans)"
      using assms(2) unfolding Cons by (metis subseq_Cons2_iff subseq_Cons')
    have "set ts \<subseteq> set (now # map fst scans)"
      using assms(2) by (blast elim: list_emb_set)
    then have "now \<le> t" using assms(1) unfolding Cons by auto
    have "spaced_retries cfg (Suc c) (parse_datetime (timestamp t)) us"
      using assms(3) unfolding Cons by simp
    then have "spaced_retries cfg (Suc c) (parse_datetime (timestamp now)) us"
      by (rule spaced_mono [OF seconds_mono [OF \<open>now \<le> t\<close>]])
    with us show ?thesis unfolding Cons by simp
  qed simp
  show "subseq ts (map fst scans)" if "now < base + delay_span (get_delay cfg (of_nat c))"
    using assms(2,3) that by (cases ts) (auto split: if_splits)
qed

text \<open>
  What is to be shown of the retries found by the scans, from the \<open>c\<close>-th retry on: the decisions are the next ones due,
  the retries are spaced, and enough scans find them all.
\<close>

definition retried_well ::
    "RetryConfig \<Rightarrow> nat \<Rightarrow> datetime \<Rightarrow> (datetime \<times> string) list \<Rightarrow> (datetime \<times> RetryDecision) list \<Rightarrow> bool" where
  "retried_well cfg c base scans run \<longleftrightarrow>
     map snd run = take (length run) (retry_decisions cfg (Suc c) @ [RetryDecision.CannotFix]) \<and>
     spaced_retries cfg c base (map fst run) \<and>
     (\<forall>ts. sorted (map fst scans) \<and> subseq ts (map fst scans) \<and> spaced_retries cfg c base ts \<and>
        length ts + c = unat (max_retries cfg) \<longrightarrow> length run = length ts)"

lemma retried_well_Nil: "c < unat (max_retries cfg) \<Longrightarrow> retried_well cfg c base [] []"
  by (auto simp: retried_well_def)

lemma retried_well_skip:
  assumes "now < base + delay_span (get_delay cfg (of_nat c))" "retried_well cfg c base scans run"
  shows "retried_well cfg c base ((now, err) # scans) run"
  using assms spaced_skip(2) [of now scans _ cfg c base] by (auto simp: retried_well_def)

lemma retried_well_Cons:
  assumes "base + delay_span (get_delay cfg (of_nat c)) \<le> now" "Suc c < unat (max_retries cfg)"
    and "retried_well cfg (Suc c) (parse_datetime (timestamp now)) scans run"
  shows "retried_well cfg c base ((now, err) # scans)
    ((now, RetryDecision.Retry (of_nat (Suc (Suc c))) (get_delay cfg (of_nat (Suc c)))) # run)"
proof -
  have due: "retry_decisions cfg (Suc c) =
      RetryDecision.Retry (of_nat (Suc (Suc c))) (get_delay cfg (of_nat (Suc c))) # retry_decisions cfg (Suc (Suc c))"
    using assms(2) by (simp add: retry_decisions_def upt_conv_Cons)
  have "Suc (length run) = length ts"
    if ts: "sorted (now # map fst scans)" "subseq ts (now # map fst scans)" "spaced_retries cfg c base ts"
      "length ts + c = unat (max_retries cfg)" for ts
  proof -
    have "length (tl ts) + Suc c = unat (max_retries cfg)" "sorted (map fst scans)"
      using ts(1,4) assms(2) by (cases ts, auto)
    then have "length run = length (tl ts)"
      using assms(3) spaced_skip(1) [OF ts(1-3)] unfolding retried_well_def by blast
    then show ?thesis using ts(4) assms(2) by (cases ts) auto
  qed
  then show ?thesis
    using assms(1,3) unfolding retried_well_def due by auto
qed

lemma retried_well_last:
  assumes "base + delay_span (get_delay cfg (of_nat c)) \<le> now" "Suc c = unat (max_retries cfg)"
  shows "retried_well cfg c base ((now, err) # scans) [(now, RetryDecision.CannotFix)]"
proof -
  have "retry_decisions cfg (Suc c) = []" using assms(2) by (simp add: retry_decisions_def)
  then show ?thesis using assms by (auto simp: retried_well_def)
qed

context attempt_tracker
begin

lemma ready_issue_iff:
  assumes "inv s" "trk_get_attempt T src i s = Some a"
  shows "is_ready_issue T now cfg src i s \<longleftrightarrow> at_status a = FixAttemptStatus.Failed \<and> is_ready_for_retry now cfg a"
proof -
  have key: "at_source a = src" "at_issue_id a = i"
    using get_key [OF assms] by simp_all
  have "is_ready_issue T now cfg src i s \<longleftrightarrow>
      (\<exists>b. b \<in> set (trk_get_retryable_issues T (max_retries cfg) s) \<and> at_source b = src \<and> at_issue_id b = i \<and>
        is_ready_for_retry now cfg b)"
    by (auto simp: is_ready_issue_def get_ready_retries_def list_ex_iff)
  also have "\<dots> \<longleftrightarrow> at_status a = FixAttemptStatus.Failed \<and> is_ready_for_retry now cfg a"
    using key retryable [OF assms(1)] assms(2) by (auto simp: is_ready_for_retry_def should_retry_def not_le)
  finally show ?thesis .
qed

lemma settled_issue_is_left_alone:
  assumes "inv s" "trk_get_attempt T src i s = Some a" "at_status a \<noteq> FixAttemptStatus.Failed"
  shows "failing_scans T cfg src i scans s = []"
  using ready_issue_iff [OF assms(1,2)] assms(3) by (induction scans) auto

text \<open>One scan that finds the failed attempt ready: it is charged, dated and failed again, or given up.\<close>

lemma ready_scan:
  assumes "inv s" "trk_get_attempt T src i s = Some a" "at_status a = FixAttemptStatus.Failed"
    "is_ready_for_retry now cfg a" "max_retries cfg < - 1"
  shows "\<exists>d s' b. failing_scans T cfg src i ((now, err) # scans) s = (now, d) # failing_scans T cfg src i scans s' \<and>
    inv s' \<and> trk_get_attempt T src i s' = Some b \<and> at_retry_count b = at_retry_count a + 1 \<and>
    retry_base_time b = parse_datetime (timestamp now) \<and>
    (if at_retry_count a + 1 < max_retries cfg
     then d = RetryDecision.Retry (at_retry_count a + 1 + 1) (get_delay cfg (at_retry_count a + 1)) \<and>
       at_status b = FixAttemptStatus.Failed
     else d = RetryDecision.CannotFix \<and> at_status b = FixAttemptStatus.CannotFix)"
proof -
  have less: "at_retry_count a < max_retries cfg"
    using assms(4) by (auto simp: is_ready_for_retry_def should_retry_def not_le)
  then have room: "at_retry_count a < - 1" using assms(5) by (rule less_trans)
  let ?p = "trk_prepare_for_retry T (timestamp now) src i s"
  have "fst ?p = Inr ()" using prepare_ok [OF assms(1,2)] assms(3) by simp
  then obtain s1 b where p: "?p = (Inr (), s1)" and b: "trk_get_attempt T src i s1 = Some b"
      "at_retry_count b = at_retry_count a + 1" "at_last_retry_at b = Some (parse_datetime (timestamp now))"
    using prepare_get [OF assms(1,2) _ room] by (metis prod.collapse)
  have inv1: "inv s1" using prepare_inv [OF assms(1,2) room] p by (metis snd_conv)
  have step: "failing_scans T cfg src i ((now, err) # scans) s =
      (now, fst (handle_failure T cfg src i err s1)) # failing_scans T cfg src i scans (snd (handle_failure T cfg src i err s1))"
    using ready_issue_iff [OF assms(1,2)] assms(3,4) p by (simp add: prepare_retry_def split: prod.split)
  show ?thesis
  proof (cases "at_retry_count a + 1 < max_retries cfg")
    case True
    then show ?thesis
      unfolding step using retry_keeps_attempt_retryable [OF inv1 b(1), of cfg err] b
      by (intro exI conjI) (assumption | rule refl | simp add: retry_base_time_def)+
  next
    case False
    then have "at_retry_count b = max_retries cfg"
      using b(2) less by (simp add: inc_le order.antisym not_less)
    note given_up = exhausted_attempt_is_abandoned [OF inv1 b(1) this assms(5), of err]
    from given_up(2) obtain m where "trk_get_attempt T src i (snd (handle_failure T cfg src i err s1)) =
        Some (b\<lparr>at_status := FixAttemptStatus.CannotFix, at_error_message := Some m\<rparr>)" ..
    then show ?thesis
      unfolding step using given_up b False
      by (intro exI conjI) (assumption | rule refl | simp add: retry_base_time_def)+
  qed
qed

lemma failing_scans_retry_well:
  assumes "inv s" "trk_get_attempt T src i s = Some a" "at_status a = FixAttemptStatus.Failed"
    "at_retry_count a < max_retries cfg" "max_retries cfg < - 1"
  shows "retried_well cfg (unat (at_retry_count a)) (retry_base_time a) scans (failing_scans T cfg src i scans s)"
  using assms
proof (induction scans arbitrary: s a)
  case Nil
  then show ?case by (simp add: retried_well_Nil word_less_nat_alt)
next
  case (Cons scan scans)
  obtain now err where scan: "scan = (now, err)" by (cases scan)
  let ?c = "unat (at_retry_count a)" and ?run = "failing_scans T cfg src i scans"
  have due: "is_ready_for_retry now cfg a \<longleftrightarrow> retry_base_time a + delay_span (get_delay cfg (of_nat ?c)) \<le> now"
    using Cons.prems by (simp add: is_ready_for_retry_def should_retry_def not_le)
  have left: "Suc ?c \<le> unat (max_retries cfg)" "unat (at_retry_count a + 1) = Suc ?c"
    using Cons.prems unat_u32_succ [OF Cons.prems(4)] by (simp_all add: word_less_nat_alt)
  show ?case
  proof (cases "is_ready_for_retry now cfg a")
    case False
    then have "failing_scans T cfg src i (scan # scans) s = ?run s"
      using ready_issue_iff [OF Cons.prems(1,2)] by (simp add: scan)
    then show ?thesis
      using False due Cons.IH [OF Cons.prems] by (simp add: scan retried_well_skip del: failing_scans.simps)
  next
    case True
    obtain d s' b where step: "failing_scans T cfg src i (scan # scans) s = (now, d) # ?run s'"
      and s': "inv s'" "trk_get_attempt T src i s' = Some b"
      and b: "at_retry_count b = at_retry_count a + 1" "retry_base_time b = parse_datetime (timestamp now)"
      and d: "if at_retry_count a + 1 < max_retries cfg
        then d = RetryDecision.Retry (at_retry_count a + 1 + 1) (get_delay cfg (at_retry_count a + 1)) \<and>
          at_status b = FixAttemptStatus.Failed
        else d = RetryDecision.CannotFix \<and> at_status b = FixAttemptStatus.CannotFix"
      using ready_scan [OF Cons.prems(1,2,3) True Cons.prems(5)] unfolding scan by metis
    show ?thesis
    proof (cases "at_retry_count a + 1 < max_retries cfg")
      case True
      then have next_due: "d = RetryDecision.Retry (of_nat (Suc (Suc ?c))) (get_delay cfg (of_nat (Suc ?c)))"
          "at_status b = FixAttemptStatus.Failed" "Suc ?c < unat (max_retries cfg)"
        using d left by (simp_all add: add.commute word_less_nat_alt)
      have "retried_well cfg (Suc ?c) (parse_datetime (timestamp now)) scans (?run s')"
        using Cons.IH [OF s' next_due(2) _ Cons.prems(5)] True unfolding b left(2) by simp
      with due \<open>is_ready_for_retry now cfg a\<close> show ?thesis
        unfolding step next_due(1) unfolding scan by (intro retried_well_Cons next_due(3)) simp_all
    next
      case False
      then have "d = RetryDecision.CannotFix" "?run s' = []" "Suc ?c = unat (max_retries cfg)"
        using d left settled_issue_is_left_alone [OF s'] by (simp_all add: word_less_nat_alt)
      then show ?thesis
        using due \<open>is_ready_for_retry now cfg a\<close> unfolding step unfolding scan by (simp add: retried_well_last)
    qed
  qed
qed

text \<open>The same from the first failure on.\<close>

lemma failing_issue:
  fixes err scans
  assumes "inv s" "trk_get_attempt T src i s = Some a" "at_retry_count a \<le> max_retries cfg" "max_retries cfg < - 1"
  defines "c \<equiv> unat (at_retry_count a)"
    and "failed \<equiv> handle_failure T cfg src i err s"
    and "run \<equiv> failing_scans T cfg src i scans (snd (handle_failure T cfg src i err s))"
  shows "fst failed # map snd run = take (Suc (length run)) (retry_decisions cfg c @ [RetryDecision.CannotFix])"
    and "spaced_retries cfg c (retry_base_time a) (map fst run)"
    and "sorted (map fst scans) \<Longrightarrow> subseq ts (map fst scans) \<Longrightarrow> spaced_retries cfg c (retry_base_time a) ts \<Longrightarrow>
      length ts + c = unat (max_retries cfg) \<Longrightarrow> length run = length ts"
proof -
  have "(fst failed # map snd run = take (Suc (length run)) (retry_decisions cfg c @ [RetryDecision.CannotFix]) \<and>
      spaced_retries cfg c (retry_base_time a) (map fst run)) \<and>
      (sorted (map fst scans) \<and> subseq ts (map fst scans) \<and> spaced_retries cfg c (retry_base_time a) ts \<and>
       length ts + c = unat (max_retries cfg) \<longrightarrow> length run = length ts)"
  proof (cases "at_retry_count a < max_retries cfg")
    case True
    note kept = retry_keeps_attempt_retryable [OF assms(1,2) True, of err]
    have "retry_decisions cfg c = fst failed # retry_decisions cfg (Suc c)"
      using True kept(1) by (simp add: retry_decisions_def upt_conv_Cons c_def failed_def word_less_nat_alt add.commute)
    moreover have "retry_base_time (a\<lparr>at_status := FixAttemptStatus.Failed, at_error_message := Some err\<rparr>) = retry_base_time a"
      by (simp add: retry_base_time_def split: option.split)
    ultimately show ?thesis
      using failing_scans_retry_well [OF kept(3,2) _ _ assms(4), of scans] True
      unfolding retried_well_def run_def c_def by simp
  next
    case False
    then have max: "at_retry_count a = max_retries cfg" using assms(3) by simp
    note given_up = exhausted_attempt_is_abandoned [OF assms(1,2) max assms(4), of err]
    have "run = []"
      unfolding run_def using given_up settled_issue_is_left_alone by fastforce
    then show ?thesis
      using given_up(1) by (simp add: failed_def c_def max retry_decisions_def)
  qed
  then show "fst failed # map snd run = take (Suc (length run)) (retry_decisions cfg c @ [RetryDecision.CannotFix])"
    and "spaced_retries cfg c (retry_base_time a) (map fst run)"
    and "sorted (map fst scans) \<Longrightarrow> subseq ts (map fst scans) \<Longrightarrow> spaced_retries cfg c (retry_base_time a) ts \<Longrightarrow>
      length ts + c = unat (max_retries cfg) \<Longrightarrow> length run = length ts"
    by blast+
qed

end

section \<open>The SQLite store keeps the contract\<close>

text \<open>
  The manager names an attempt by its issue, so the contract of an issue holds while it has one row: before a
  cascade attempt shares its source and issue id. The other issues may have what attempts they like.
\<close>

definition single_attempt :: "string \<Rightarrow> string \<Rightarrow> 'x attempts_db_scheme \<Rightarrow> bool" where
  "single_attempt src i s \<longleftrightarrow>
     attempts_ok s \<and>
     list_all (\<lambda>r. is_issue src i r \<longrightarrow> fa_cascade_repo r = None \<and> fa_retry_count r < 2 ^ 32) (db_attempts s)"

definition row_status :: "string \<Rightarrow> FixAttemptStatus" where
  "row_status text = (case attempt_status_from_str text of Inr x \<Rightarrow> x | Inl _ \<Rightarrow> FixAttemptStatus.Pending)"

lemma row_status_text: "text \<in> range attempt_status_to_string \<Longrightarrow> row_status text = st \<longleftrightarrow> text = attempt_status_to_string st"
  using attempt_status.as_str_inject attempt_status.from_as by (auto simp: row_status_def)

lemma row_status_simps [simp]:
  "row_status ''pending'' = FixAttemptStatus.Pending" "row_status ''failed'' = FixAttemptStatus.Failed"
  "row_status ''cannot_fix'' = FixAttemptStatus.CannotFix"
  by (simp_all add: row_status_text status_texts)

definition attempt_of_row :: "fix_attempt_row \<Rightarrow> FixAttempt" where
  "attempt_of_row r =
     \<lparr>at_id = fa_id r, at_source = fa_source r, at_issue_id = fa_issue_id r, at_short_id = fa_short_id r,
      at_attempted_at = parse_datetime (fa_attempted_at r), at_pr_url = fa_pr_url r,
      at_scm_repo = fa_scm_repo r, at_scm_pr_number = fa_scm_pr_number r,
      at_status = row_status (fa_status r), at_error_message = fa_error_message r,
      at_merged_at = map_option parse_datetime (fa_merged_at r),
      at_resolved_at = map_option parse_datetime (fa_resolved_at r),
      at_retry_count = word_of_int (fa_retry_count r),
      at_last_retry_at = map_option parse_datetime (fa_last_retry_at r),
      at_issue_labels = labels_of_json (fa_issue_labels r),
      at_parent_attempt_id = fa_parent_attempt_id r, at_cascade_repo = fa_cascade_repo r\<rparr>"

lemma row_to_fix_attempt_eq:
  "row_to_fix_attempt r =
     (if 0 \<le> fa_retry_count r \<and> fa_retry_count r < 2 ^ 32 then Inr (attempt_of_row r)
      else Inl (Database (Integral_out_of_range 12)))"
  by (simp add: row_to_fix_attempt_def read_u32_def attempt_of_row_def row_status_def)

lemma retry_count_fits:
  "row_to_fix_attempt r = Inr a \<Longrightarrow> a = attempt_of_row r \<and> uint (at_retry_count a) = fa_retry_count r"
  by (auto simp: row_to_fix_attempt_eq attempt_of_row_def uint_word_of_int_eq take_bit_int_eq_self split: if_splits)

lemma is_issue_key: "is_issue src i r \<longleftrightarrow> issue_key r = (src, i)"
  by (auto simp: is_issue_def issue_key_def)

text \<open>An issue has one original attempt.\<close>

lemma original_unique:
  assumes "attempts_ok s" "r \<in> set (db_attempts s)" "q \<in> set (db_attempts s)" "is_original src i r" "is_original src i q"
  shows "r = q"
proof -
  have "distinct (map issue_key (originals (db_attempts s)))"
    using assms(1) by (simp add: attempts_ok_def)
  moreover have "r \<in> set (originals (db_attempts s))" "q \<in> set (originals (db_attempts s))"
    using assms by (simp_all add: originals_def is_original_def)
  ultimately show ?thesis
    using assms(4,5) by (auto simp: distinct_map inj_on_def is_original_def is_issue_key)
qed

lemma single_row:
  assumes "single_attempt src i s" "r \<in> set (db_attempts s)" "is_issue src i r"
  shows "row_to_fix_attempt r = Inr (attempt_of_row r)" "is_original src i r"
    "uint (word_of_int (fa_retry_count r) :: u32) = fa_retry_count r"
    "fa_status r \<in> range attempt_status_to_string"
  using assms
  by (auto simp: single_attempt_def attempts_ok_def list_all_iff row_to_fix_attempt_eq attempt_row_ok_def
      uint_word_of_int_eq take_bit_int_eq_self is_original_def)

lemma single_unique:
  "single_attempt src i s \<Longrightarrow> r \<in> set (db_attempts s) \<Longrightarrow> q \<in> set (db_attempts s) \<Longrightarrow>
     is_issue src i r \<Longrightarrow> is_issue src i q \<Longrightarrow> r = q"
  by (rule original_unique [where src = src and i = i]) (auto simp: single_row single_attempt_def)

lemma get_single:
  assumes "single_attempt src i s"
  shows "get_attempt src i s = Some a \<longleftrightarrow>
    (\<exists>r \<in> set (db_attempts s). is_issue src i r \<and> a = attempt_of_row r)"
proof
  assume "get_attempt src i s = Some a"
  then obtain r where "find_by (is_issue src i) (db_attempts s) = Some r" "row_to_fix_attempt r = Inr a"
    by (auto simp: get_attempt_def split: option.splits)
  then show "\<exists>r \<in> set (db_attempts s). is_issue src i r \<and> a = attempt_of_row r"
    using retry_count_fits by (metis find_by_Some)
next
  assume "\<exists>r \<in> set (db_attempts s). is_issue src i r \<and> a = attempt_of_row r"
  then obtain r where r: "r \<in> set (db_attempts s)" "is_issue src i r" "a = attempt_of_row r" by blast
  then have "find_by (is_issue src i) (db_attempts s) = Some r"
    by (intro find_by_unique) (blast intro: single_unique [OF assms])+
  with r show "get_attempt src i s = Some a"
    by (simp add: get_attempt_def single_row [OF assms])
qed

lemma single_update:
  assumes single: "single_attempt src i s"
    and id: "\<And>r. row_identity (f r) = row_identity r"
    and row: "\<And>r. r \<in> set (db_attempts s) \<Longrightarrow> is_issue src i r \<Longrightarrow> p r \<Longrightarrow> fa_retry_count (f r) < 2 ^ 32"
    and row_ok: "\<And>r. p r \<Longrightarrow> attempt_row_ok r \<Longrightarrow> attempt_row_ok (f r)"
  shows "single_attempt src i (update_attempts p f s)"
  unfolding single_attempt_def
proof
  show "attempts_ok (update_attempts p f s)"
    using single by (intro attempts_ok_update id row_ok) (simp_all add: single_attempt_def)
  have "fa_cascade_repo (f r) = fa_cascade_repo r" "is_issue src i (f r) = is_issue src i r" for r
    using id [of r] by (simp_all add: row_identity_def is_issue_def)
  then show "list_all (\<lambda>r. is_issue src i r \<longrightarrow> fa_cascade_repo r = None \<and> fa_retry_count r < 2 ^ 32)
      (db_attempts (update_attempts p f s))"
    using single row by (auto simp: single_attempt_def list_all_iff in_update_where split: if_splits)
qed

lemma get_attempt_update:
  assumes single: "single_attempt src i s" "single_attempt src i (update_attempts p f s)"
    and id: "\<And>r. row_identity (f r) = row_identity r"
    and p: "\<And>r. r \<in> set (db_attempts s) \<Longrightarrow> is_issue src i r \<Longrightarrow> p r"
    and get: "get_attempt src i s = Some a"
  shows "\<exists>r \<in> set (db_attempts s). a = attempt_of_row r \<and>
    get_attempt src i (update_attempts p f s) = Some (attempt_of_row (f r))"
proof -
  obtain r where r: "r \<in> set (db_attempts s)" "is_issue src i r" "a = attempt_of_row r"
    using get get_single [OF single(1)] by blast
  have "is_issue src i (f r)"
    using id [of r] r(2) by (simp add: row_identity_def is_issue_def)
  then have "get_attempt src i (update_attempts p f s) = Some (attempt_of_row (f r))"
    using r p get_single [OF single(2)] by (force simp: in_update_where)
  with r show ?thesis by blast
qed

text \<open>Every \<open>UPDATE\<close> of the manager hits the issue's one row.\<close>

lemma single_mark:
  assumes "single_attempt src i s"
  shows "single_attempt src i (mark_failed src i e s)" "single_attempt src i (mark_cannot_fix src i e s)"
proof -
  have small: "fa_retry_count r < 2 ^ 32" if "r \<in> set (db_attempts s)" "is_issue src i r" for r
    using assms that by (simp add: single_attempt_def list_all_iff)
  show "single_attempt src i (mark_failed src i e s)"
    unfolding mark_failed_def
    by (rule single_update [OF assms]) (use small in \<open>auto simp: row_identity_def attempt_row_ok_def status_texts\<close>)
  show "single_attempt src i (mark_cannot_fix src i e s)"
    unfolding mark_cannot_fix_def
    by (rule single_update [OF assms]) (use small in \<open>auto simp: row_identity_def attempt_row_ok_def status_texts\<close>)
qed

lemma single_prepare:
  assumes single: "single_attempt src i s" and get: "get_attempt src i s = Some a" and room: "at_retry_count a < - 1"
  shows "single_attempt src i (snd (prepare_for_retry now src i s))"
proof -
  have count: "fa_retry_count r + 1 < 2 ^ 32" if "r \<in> set (db_attempts s)" "is_issue src i r" for r
  proof -
    have "a = attempt_of_row r"
      using get that single_unique [OF single that(1)] get_single [OF single] by metis
    then have "(word_of_int (fa_retry_count r) :: u32) < - 1"
      using room by (simp add: attempt_of_row_def)
    then have "fa_retry_count r < uint (- 1 :: u32)"
      using single_row(3) [OF single that] by (simp add: word_less_def)
    then show ?thesis by (simp add: unsigned_minus_1_eq_mask mask_eq_exp_minus_1)
  qed
  have "single_attempt src i (update_attempts (is_retryable_row src i)
      (\<lambda>r. r\<lparr>fa_status := ''pending'', fa_retry_count := fa_retry_count r + 1,
        fa_last_retry_at := Some now, fa_pr_url := None, fa_scm_repo := None,
        fa_scm_pr_number := None, fa_error_message := None, fa_attempted_at := now\<rparr>) s)"
    by (rule single_update [OF single])
      (auto simp: row_identity_def attempt_row_ok_def status_texts is_retryable_row_def dest: count)
  with single show ?thesis by (simp add: prepare_for_retry_def)
qed

lemma status_of_row:
  assumes "single_attempt src i s" "r \<in> set (db_attempts s)" "is_issue src i r"
  shows "at_status (attempt_of_row r) = st \<longleftrightarrow> fa_status r = attempt_status_to_string st"
  using single_row(4) [OF assms] by (simp add: attempt_of_row_def row_status_text)

lemma prepare_ok_iff:
  assumes single: "single_attempt src i s" and get: "get_attempt src i s = Some a"
  shows "fst (prepare_for_retry now src i s) = Inr () \<longleftrightarrow>
    at_status a = FixAttemptStatus.Failed \<or> at_status a = FixAttemptStatus.Closed"
proof -
  obtain r where r: "r \<in> set (db_attempts s)" "is_issue src i r" "a = attempt_of_row r"
    using get get_single [OF single] by blast
  have "fst (prepare_for_retry now src i s) = Inr () \<longleftrightarrow>
      rows_affected (is_retryable_row src i) (db_attempts s) \<noteq> 0"
    by (simp add: prepare_for_retry_def)
  also have "\<dots> \<longleftrightarrow> is_retryable_row src i r"
  proof -
    have "q = r" if "q \<in> set (db_attempts s)" "is_retryable_row src i q" for q
      using single_unique [OF single that(1) r(1)] that(2) r(2)
      unfolding is_retryable_row_def by blast
    with r(1) show ?thesis unfolding rows_affected_0 by blast
  qed
  also have "\<dots> \<longleftrightarrow> at_status a = FixAttemptStatus.Failed \<or> at_status a = FixAttemptStatus.Closed"
    using r status_of_row [OF single r(1,2)] by (simp add: is_retryable_row_def)
  finally show ?thesis .
qed

lemma prepare_result:
  assumes single: "single_attempt src i s" and get: "get_attempt src i s = Some a"
    and ok: "fst (prepare_for_retry now src i s) = Inr ()" and room: "at_retry_count a < - 1"
  shows "\<exists>b. get_attempt src i (snd (prepare_for_retry now src i s)) = Some b \<and>
    at_status b = FixAttemptStatus.Pending \<and> at_retry_count b = at_retry_count a + 1 \<and>
    at_last_retry_at b = Some (parse_datetime now)"
proof -
  let ?f = "\<lambda>r. r\<lparr>fa_status := ''pending'', fa_retry_count := fa_retry_count r + 1,
        fa_last_retry_at := Some now, fa_pr_url := None, fa_scm_repo := None,
        fa_scm_pr_number := None, fa_error_message := None, fa_attempted_at := now\<rparr>"
  have st: "snd (prepare_for_retry now src i s) = update_attempts (is_retryable_row src i) ?f s"
    using ok by (simp add: prepare_for_retry_def split: if_splits)
  have some: "\<exists>r \<in> set (db_attempts s). is_retryable_row src i r"
    using ok by (simp add: prepare_for_retry_def rows_affected_0 split: if_splits)
  then have "is_retryable_row src i r" if "r \<in> set (db_attempts s)" "is_issue src i r" for r
    using that single_unique [OF single that(1)] by (metis is_retryable_row_def)
  then have "\<exists>r \<in> set (db_attempts s). a = attempt_of_row r \<and>
      get_attempt src i (update_attempts (is_retryable_row src i) ?f s) = Some (attempt_of_row (?f r))"
    using single_prepare [OF single get room, of now] get unfolding st
    by (intro get_attempt_update [OF single]) (auto simp: row_identity_def)
  then show ?thesis unfolding st by (auto simp: attempt_of_row_def)
qed

lemma get_retryable_iff:
  assumes single: "single_attempt src i s" and key: "at_source a = src" "at_issue_id a = i"
  shows "a \<in> set (get_retryable_issues n s) \<longleftrightarrow>
    at_status a = FixAttemptStatus.Failed \<and> at_retry_count a < n \<and> get_attempt src i s = Some a"
proof -
  have "a \<in> set (get_retryable_issues n s) \<longleftrightarrow>
      (\<exists>r \<in> set (db_attempts s). fa_status r = ''failed'' \<and> fa_retry_count r < uint n \<and> row_to_fix_attempt r = Inr a)"
    by (auto simp: get_retryable_issues_def in_flatten_rows)
  also have "\<dots> \<longleftrightarrow>
      (\<exists>r \<in> set (db_attempts s). is_issue src i r \<and> fa_status r = ''failed'' \<and> fa_retry_count r < uint n \<and> a = attempt_of_row r)"
  proof -
    have "row_to_fix_attempt r = Inr a \<longleftrightarrow> is_issue src i r \<and> a = attempt_of_row r" if "r \<in> set (db_attempts s)" for r
    proof
      assume "row_to_fix_attempt r = Inr a"
      then have "a = attempt_of_row r" by (simp add: retry_count_fits)
      with key show "is_issue src i r \<and> a = attempt_of_row r"
        by (simp add: is_issue_def attempt_of_row_def)
    qed (simp add: single_row(1) [OF single that])
    then show ?thesis by blast
  qed
  also have "\<dots> \<longleftrightarrow> (\<exists>r \<in> set (db_attempts s). is_issue src i r \<and> at_status a = FixAttemptStatus.Failed \<and>
      at_retry_count a < n \<and> a = attempt_of_row r)"
    using status_of_row [OF single, of _ FixAttemptStatus.Failed] single_row(3) [OF single]
    by (auto simp: word_less_def attempt_of_row_def cong: bex_cong)
  also have "\<dots> \<longleftrightarrow> at_status a = FixAttemptStatus.Failed \<and> at_retry_count a < n \<and> get_attempt src i s = Some a"
    by (auto simp: get_single [OF single])
  finally show ?thesis .
qed

interpretation sqlite_retry: attempt_tracker sqlite_tracker "single_attempt src i" src i for src i
proof
  fix s :: "'a attempts_db_scheme" and e a now n
  assume single: "single_attempt src i s"
  show "single_attempt src i (trk_mark_failed sqlite_tracker src i e s)"
    "single_attempt src i (trk_mark_cannot_fix sqlite_tracker src i e s)"
    by (simp_all add: sqlite_tracker_def single_mark [OF single])
  show "a \<in> set (trk_get_retryable_issues sqlite_tracker n s) \<longleftrightarrow>
      at_status a = FixAttemptStatus.Failed \<and> at_retry_count a < n \<and>
      trk_get_attempt sqlite_tracker src i s = Some a" if "at_source a = src" "at_issue_id a = i"
    by (simp add: sqlite_tracker_def get_retryable_iff [OF single that])
  assume "trk_get_attempt sqlite_tracker src i s = Some a"
  then have get: "get_attempt src i s = Some a" by (simp add: sqlite_tracker_def)
  show "at_source a = src \<and> at_issue_id a = i"
    using get get_single [OF single] by (auto simp: is_issue_def attempt_of_row_def)
  have p: "\<And>r. r \<in> set (db_attempts s) \<Longrightarrow> is_issue src i r \<Longrightarrow> is_original src i r"
    using single by (simp add: single_row)
  show "trk_get_attempt sqlite_tracker src i (trk_mark_failed sqlite_tracker src i e s) =
      Some (a\<lparr>at_status := FixAttemptStatus.Failed, at_error_message := Some e\<rparr>)"
    using get_attempt_update [where p = "is_original src i" and
        f = "\<lambda>r. r\<lparr>fa_status := ''failed'', fa_error_message := Some e\<rparr>", OF single _ _ p get]
      single_mark(1) [OF single, of e]
    by (auto simp: sqlite_tracker_def mark_failed_def row_identity_def attempt_of_row_def)
  show "trk_get_attempt sqlite_tracker src i (trk_mark_cannot_fix sqlite_tracker src i e s) =
      Some (a\<lparr>at_status := FixAttemptStatus.CannotFix, at_error_message := Some e\<rparr>)"
    using get_attempt_update [where p = "is_issue src i" and
        f = "\<lambda>r. r\<lparr>fa_status := ''cannot_fix'', fa_error_message := Some e\<rparr>", OF single _ _ _ get]
      single_mark(2) [OF single, of e]
    by (auto simp: sqlite_tracker_def mark_cannot_fix_def row_identity_def attempt_of_row_def)
  show "fst (trk_prepare_for_retry sqlite_tracker now src i s) = Inr () \<longleftrightarrow>
      at_status a = FixAttemptStatus.Failed \<or> at_status a = FixAttemptStatus.Closed"
    by (simp add: sqlite_tracker_def prepare_ok_iff [OF single get])
  assume room: "at_retry_count a < - 1"
  show "single_attempt src i (snd (trk_prepare_for_retry sqlite_tracker now src i s))"
    by (simp add: sqlite_tracker_def single_prepare [OF single get room])
  assume "fst (trk_prepare_for_retry sqlite_tracker now src i s) = Inr ()"
  then show "\<exists>b. trk_get_attempt sqlite_tracker src i (snd (trk_prepare_for_retry sqlite_tracker now src i s)) =
        Some b \<and> at_status b = FixAttemptStatus.Pending \<and> at_retry_count b = at_retry_count a + 1 \<and>
        at_last_retry_at b = Some (parse_datetime now)"
    using prepare_result [OF single get _ room] by (simp add: sqlite_tracker_def)
qed

section \<open>Properties\<close>

text \<open>One recorded attempt, and the example run the witnesses use.\<close>

definition one_attempt :: attempts_db where
  "one_attempt = run_attempts [Record_attempt 0 ''linear'' ''1'' ''ENG-1'' []] empty_attempts"

lemma single_one_attempt: "single_attempt ''linear'' ''1'' one_attempt"
proof -
  have "attempts_ok one_attempt"
    unfolding one_attempt_def by (rule run_attempts_ok [OF empty_attempts_ok])
  moreover have "list_all (\<lambda>r. fa_cascade_repo r = None \<and> fa_retry_count r < 2 ^ 32) (db_attempts one_attempt)"
    by code_simp
  ultimately show ?thesis by (auto simp: single_attempt_def list_all_iff)
qed

definition one_attempt_value :: FixAttempt where
  "one_attempt_value =
     attempt_of_row (new_attempt_row 1 ''linear'' ''1'' ''ENG-1'' 0 None None None)"

lemma get_one_attempt: "get_attempt ''linear'' ''1'' one_attempt = Some one_attempt_value"
proof -
  have "db_attempts one_attempt = [new_attempt_row 1 ''linear'' ''1'' ''ENG-1'' 0 None None None]"
    by code_simp
  then show ?thesis
    using get_single [OF single_one_attempt, of one_attempt_value]
    by (auto simp: one_attempt_value_def is_issue_def new_attempt_row_def)
qed

lemma get_delay_eqI:
  "min (unat (base_delay_ms cfg) * 2 ^ unat n) (unat (max_delay_ms cfg)) = unat d \<Longrightarrow> get_delay cfg n = d"
  using unat_get_delay [of cfg n] by (simp add: word_unat_eq_iff)

lemma default_delays:
  "get_delay default_retry_config 0 = 60000" "get_delay default_retry_config 1 = 120000"
  by (rule get_delay_eqI, simp add: default_retry_config_def)+


text \<open>Delays of a minute and of two: the scans at a half, two and four minutes find nothing to retry.\<close>

lemma example_spacing:
  "spaced_retries default_retry_config 0 0 [60000000000, 180000000000]"
  using default_delays by (simp add: delay_span_def parse_datetime_def timestamp_def)




text \<open>
  Property C37. After a failure with retries left, the issue's attempt is among the ready ones exactly from the moment
  its delay has passed since its last retry (or its recording), also when cascade attempts share its issue, and preparing it succeeds.
\<close>

theorem failed_issue_becomes_ready:
  assumes "get_attempt src i s = Some a" "at_cascade_repo a = None" "at_retry_count a < max_retries cfg"
  shows "let s' = snd (handle_failure sqlite_tracker cfg src i e s);
       a' = a\<lparr>at_status := FixAttemptStatus.Failed, at_error_message := Some e\<rparr>
     in (a' \<in> set (get_ready_retries sqlite_tracker now cfg s') \<longleftrightarrow>
         retry_base_time a + delay_span (get_delay cfg (at_retry_count a)) \<le> now) \<and>
        fst (prepare_retry sqlite_tracker t src i s') = Inr ()"
proof -
  let ?f = "\<lambda>r. r\<lparr>fa_status := ''failed'', fa_error_message := Some e\<rparr>"
  let ?a = "a\<lparr>at_status := FixAttemptStatus.Failed, at_error_message := Some e\<rparr>"
  obtain r where r: "r \<in> set (db_attempts s)" "is_issue src i r" and row: "row_to_fix_attempt r = Inr a"
    using assms(1) by (auto simp: get_attempt_def dest: find_by_Some split: option.splits)
  have a: "a = attempt_of_row r" "uint (at_retry_count a) = fa_retry_count r"
    using retry_count_fits [OF row] by blast+
  have "\<not> max_retries cfg < at_retry_count a + 1"
    using assms(3) by (simp add: inc_le leD)
  then have s': "snd (handle_failure sqlite_tracker cfg src i e s) = update_attempts (is_original src i) ?f s"
    using assms(1) by (simp add: handle_failure_def sqlite_tracker_def mark_failed_def Let_def)
  have "is_original src i r"
    using r assms(2) a by (simp add: is_original_def attempt_of_row_def)
  then have r': "?f r \<in> set (db_attempts (snd (handle_failure sqlite_tracker cfg src i e s)))"
    unfolding s' using r by (auto simp: in_update_where intro!: bexI [of _ r])
  have "row_to_fix_attempt (?f r) = Inr ?a"
    using row a(1) by (auto simp: row_to_fix_attempt_eq attempt_of_row_def split: if_splits)
  then have "?a \<in> set (get_retryable_issues (max_retries cfg) (snd (handle_failure sqlite_tracker cfg src i e s)))"
    unfolding get_retryable_issues_def in_flatten_rows
    using r' a(2) assms(3) by (intro bexI [of _ "?f r"]) (auto simp: word_less_def)
  moreover have "retry_base_time ?a = retry_base_time a"
    by (simp add: retry_base_time_def split: option.split)
  ultimately have "?a \<in> set (get_ready_retries sqlite_tracker now cfg (snd (handle_failure sqlite_tracker cfg src i e s))) \<longleftrightarrow>
      retry_base_time a + delay_span (get_delay cfg (at_retry_count a)) \<le> now"
    using assms(3) by (simp add: get_ready_retries_def sqlite_tracker_def is_ready_for_retry_def should_retry_def not_le)
  moreover have "is_retryable_row src i (?f r)"
    using r(2) by (simp add: is_retryable_row_def is_issue_def)
  then have "rows_affected (is_retryable_row src i) (db_attempts (snd (handle_failure sqlite_tracker cfg src i e s))) \<noteq> 0"
    using r' by (auto simp: rows_affected_0)
  then have "fst (prepare_retry sqlite_tracker t src i (snd (handle_failure sqlite_tracker cfg src i e s))) = Inr ()"
    by (simp add: prepare_retry_def sqlite_tracker_def prepare_for_retry_def)
  ultimately show ?thesis by (simp add: Let_def)
qed

theorem failed_issue_becomes_ready_witness:
  "let s' = snd (handle_failure sqlite_tracker default_retry_config ''linear'' ''1'' ''boom'' one_attempt);
       a' = one_attempt_value\<lparr>at_status := FixAttemptStatus.Failed, at_error_message := Some ''boom''\<rparr>
   in (a' \<in> set (get_ready_retries sqlite_tracker 60000000000 default_retry_config s') \<longleftrightarrow>
       retry_base_time one_attempt_value +
         delay_span (get_delay default_retry_config (at_retry_count one_attempt_value)) \<le> 60000000000) \<and>
      fst (prepare_retry sqlite_tracker 60 ''linear'' ''1'' s') = Inr ()"
  by (rule failed_issue_becomes_ready [OF get_one_attempt])
    (simp_all add: one_attempt_value_def attempt_of_row_def new_attempt_row_def default_retry_config_def)

definition cascade_example :: attempts_db where
  "cascade_example = run_attempts
     [Record_attempt 0 ''linear'' ''1'' ''ENG-1'' [],
      Update_pr 1 ''https://github.com/a/b/pull/7'' ''a/b'' 7,
      Record_cascade 10 ''linear'' ''1'' ''ENG-1'' 1 ''a/c'', Mark_closed ''linear'' ''1'',
      Mark_cascade_failed 2 ''boom''] empty_attempts"

lemma cascade_example_rows:
  "db_attempts cascade_example =
     [(new_attempt_row 1 ''linear'' ''1'' ''ENG-1'' 0 None None None)
        \<lparr>fa_status := ''closed'', fa_pr_url := Some ''https://github.com/a/b/pull/7'',
         fa_scm_repo := Some ''a/b'', fa_scm_pr_number := Some 7\<rparr>,
      (new_attempt_row 2 ''linear'' ''1'' ''ENG-1'' 10 None (Some 1) (Some ''a/c''))
        \<lparr>fa_status := ''failed'', fa_error_message := Some ''boom''\<rparr>]"
  by code_simp

text \<open>
  Property C38. A cascade attempt shares the issue of the attempt it follows, and a retry is addressed to the
  issue: no scan lists a closed attempt, but when one finds the failed follow-up of a closed attempt ready, the retry it
  prepares reopens the closed attempt as well, takes away its pull request and charges it a retry.
\<close>

theorem cascade_retry_reopens_the_original:
  assumes "a \<in> set (get_ready_retries sqlite_tracker now cfg s)" "at_cascade_repo a \<noteq> None"
    "find_by (is_original (at_source a) (at_issue_id a)) (db_attempts s) = Some original"
    "fa_status original = ''closed''"
  shows "let (result, s') = prepare_retry sqlite_tracker t (at_source a) (at_issue_id a) s
     in list_all (\<lambda>b. at_status b \<noteq> FixAttemptStatus.Closed) (get_ready_retries sqlite_tracker now cfg s) \<and>
        result = Inr () \<and>
        (case find_by (is_original (at_source a) (at_issue_id a)) (db_attempts s') of
           None \<Rightarrow> False
         | Some r \<Rightarrow> row_identity r = row_identity original \<and> fa_status r = ''pending'' \<and> fa_pr_url r = None \<and>
             fa_retry_count r = fa_retry_count original + 1)"
proof -
  let ?src = "at_source a" and ?i = "at_issue_id a"
  let ?p = "is_retryable_row ?src ?i" and ?o = "is_original ?src ?i"
  let ?f = "\<lambda>r. r\<lparr>fa_status := ''pending'', fa_retry_count := fa_retry_count r + 1, fa_last_retry_at := Some t,
    fa_pr_url := None, fa_scm_repo := None, fa_scm_pr_number := None, fa_error_message := None, fa_attempted_at := t\<rparr>"
  have listed: "at_status b \<noteq> FixAttemptStatus.Closed" if "b \<in> set (get_ready_retries sqlite_tracker now cfg s)" for b
    using that retry_count_fits
    by (fastforce simp: get_ready_retries_def sqlite_tracker_def get_retryable_issues_def in_flatten_rows attempt_of_row_def)
  have original: "original \<in> set (db_attempts s)" "?o original"
    using assms(3) by (auto dest: find_by_Some)
  then have "?p original"
    using assms(4) by (simp add: is_retryable_row_def is_original_def)
  then have "rows_affected ?p (db_attempts s) \<noteq> 0"
    using original(1) by (auto simp: rows_affected_0)
  moreover have "find_by ?o (update_where ?p ?f (db_attempts s)) = Some (?f original)"
    using assms(3) \<open>?p original\<close>
    by (subst find_by_update_where) (simp_all add: is_original_def is_issue_def)
  ultimately show ?thesis
    using listed by (simp add: prepare_retry_def sqlite_tracker_def prepare_for_retry_def list_all_iff row_identity_def)
qed

definition cascade_follow_up :: FixAttempt where
  "cascade_follow_up =
     attempt_of_row ((new_attempt_row 2 ''linear'' ''1'' ''ENG-1'' 10 None (Some 1) (Some ''a/c''))
        \<lparr>fa_status := ''failed'', fa_error_message := Some ''boom''\<rparr>)"

theorem cascade_retry_reopens_the_original_witness:
  "let s' = snd (prepare_retry sqlite_tracker 100 ''linear'' ''1'' cascade_example)
   in fst (prepare_retry sqlite_tracker 100 ''linear'' ''1'' cascade_example) = Inr () \<and>
      map_option (\<lambda>r. (fa_id r, fa_status r, fa_pr_url r)) (find_by (is_original ''linear'' ''1'') (db_attempts cascade_example)) =
        Some (1, ''closed'', Some ''https://github.com/a/b/pull/7'') \<and>
      map_option (\<lambda>r. (fa_id r, fa_status r, fa_pr_url r)) (find_by (is_original ''linear'' ''1'') (db_attempts s')) =
        Some (1, ''pending'', None)"
proof -
  have max: "max_retries default_retry_config = 2" by (simp add: default_retry_config_def)
  have ready: "cascade_follow_up \<in> set (get_ready_retries sqlite_tracker 100000000000 default_retry_config cascade_example)"
    by (simp add: get_ready_retries_def sqlite_tracker_def get_retryable_issues_def cascade_example_rows
        new_attempt_row_def max flatten_rows_def map_filter_def order_asc_def row_to_fix_attempt_eq
        attempt_of_row_def is_ready_for_retry_def should_retry_def retry_base_time_def delay_span_def
        default_delays parse_datetime_def cascade_follow_up_def)
  have key: "at_source cascade_follow_up = ''linear''" "at_issue_id cascade_follow_up = ''1''"
      "at_cascade_repo cascade_follow_up \<noteq> None"
    by (simp_all add: cascade_follow_up_def attempt_of_row_def new_attempt_row_def)
  have original: "find_by (is_original ''linear'' ''1'') (db_attempts cascade_example) =
      Some ((new_attempt_row 1 ''linear'' ''1'' ''ENG-1'' 0 None None None)
        \<lparr>fa_status := ''closed'', fa_pr_url := Some ''https://github.com/a/b/pull/7'',
         fa_scm_repo := Some ''a/b'', fa_scm_pr_number := Some 7\<rparr>)" (is "_ = Some ?original")
    by (simp add: cascade_example_rows is_original_def is_issue_def new_attempt_row_def find_by_def)
  have closed: "fa_status ?original = ''closed''" "fa_pr_url ?original = Some ''https://github.com/a/b/pull/7''" "fa_id ?original = 1"
    by (simp_all add: new_attempt_row_def)
  note reopened = cascade_retry_reopens_the_original [OF ready key(3), unfolded key, OF original closed(1), of 100,
      unfolded Let_def split_beta]
  then obtain r where "find_by (is_original ''linear'' ''1'')
      (db_attempts (snd (prepare_retry sqlite_tracker 100 ''linear'' ''1'' cascade_example))) = Some r"
      "row_identity r = row_identity ?original" "fa_status r = ''pending''" "fa_pr_url r = None"
    by (cases "find_by (is_original ''linear'' ''1'')
      (db_attempts (snd (prepare_retry sqlite_tracker 100 ''linear'' ''1'' cascade_example)))") auto
  then show ?thesis
    using reopened closed unfolding Let_def original row_identity_def by simp
qed

end
