(* ===== verification/Security_Db.thy ===== *)
theory Security_Db
  imports Fix_Attempts
begin

text \<open>
  The tables of the security inbox (\<open>migrations/V18__security_inbox.sql\<close>) and their rows as values
  (\<open>row_to_report\<close> and the like of \<open>crates/claudear-storage/src/sqlite/security_reports.rs\<close>). One record per
  table is used for both: a stored row has texts and unbounded integers where the value has enums and \<open>u32\<close>s.
  A timestamp column holds the second it names, a date column the day it names, a JSON column its value.
\<close>

section \<open>Values and rows\<close>

type_synonym f64 = "64 word"
type_synonym f32 = "32 word"
type_synonym day = int

record ('state, 'outcome, 'n) SecurityReport =
  sr_id :: int
  sr_source :: string
  sr_conversation_id :: string
  sr_short_id :: string
  sr_mailbox_id :: string
  sr_url :: string
  sr_subject :: string
  sr_reporter_email :: "string option"
  sr_reporter_customer_id :: "string option"
  sr_reported_at :: int
  sr_state :: 'state
  sr_outcome :: "'outcome option"
  sr_public_reason :: "string option"
  sr_assessment_summary :: "string option"
  sr_affected_repository :: "string option"
  sr_fixed_by_commit :: "string option"
  sr_fixed_on :: "day option"
  sr_spam_confidence :: "f64 option"
  sr_assessment_attempts :: 'n
  sr_customer_thread_count :: 'n
  sr_vulnerability_id :: "int option"
  sr_created_at :: int
  sr_updated_at :: int

type_synonym report_row = "(string, string, int) SecurityReport"
type_synonym security_report = "(SecurityReportState, SecurityOutcome, u32) SecurityReport"

record ('state, 'severity, 'embedding) SecurityVulnerability =
  sv_id :: int
  sv_title :: string
  sv_summary :: string
  sv_embedding :: 'embedding
  sv_repository :: "string option"
  sv_severity :: "'severity option"
  sv_state :: 'state
  sv_first_report_id :: int
  sv_first_reported_at :: int
  sv_fix_attempt_id :: "int option"
  sv_pull_request_url :: "string option"
  sv_merge_commit :: "string option"
  sv_merged_at :: "int option"
  sv_deployed_version :: "string option"
  sv_live_at :: "int option"
  sv_created_at :: int
  sv_updated_at :: int

type_synonym vulnerability_row = "(string, string, string option) SecurityVulnerability"
type_synonym security_vulnerability = "(VulnerabilityState, SecuritySeverity, f32 list) SecurityVulnerability"

record 'kind SecurityEvent =
  se_id :: int
  se_report_id :: "int option"
  se_vulnerability_id :: "int option"
  se_kind :: 'kind
  se_from_state :: "string option"
  se_to_state :: "string option"
  se_actor :: "string option"
  se_detail :: json
  se_created_at :: int

type_synonym event_row = "string SecurityEvent"
type_synonym security_event = "SecurityEventKind SecurityEvent"

record ('kind, 'status, 'n) SecurityReply =
  sp_id :: int
  sp_report_id :: int
  sp_kind :: 'kind
  sp_status :: 'status
  sp_error :: "string option"
  sp_attempts :: 'n
  sp_claimed_at :: int
  sp_completed_at :: "int option"

type_synonym reply_row = "(string, string, int) SecurityReply"
type_synonym security_reply = "(SecurityReplyKind, DeliveryStatus, u32) SecurityReply"

record ('status, 'n) SecurityAward =
  sa_id :: int
  sa_vulnerability_id :: int
  sa_report_id :: int
  sa_recipient_email :: "string option"
  sa_campaign :: string
  sa_credits :: 'n
  sa_status :: 'status
  sa_actor :: "string option"
  sa_note :: "string option"
  sa_prepared_at :: int
  sa_updated_at :: int

type_synonym award_row = "(string, int) SecurityAward"
type_synonym security_award = "(AwardStatus, u32) SecurityAward"

section \<open>What callers pass\<close>

record NewSecurityReport =
  nr_source :: string
  nr_conversation_id :: string
  nr_short_id :: string
  nr_mailbox_id :: string
  nr_url :: string
  nr_subject :: string
  nr_reporter_email :: "string option"
  nr_reporter_customer_id :: "string option"
  nr_reported_at :: datetime
  nr_customer_thread_count :: u32

record SecurityReportChanges =
  rc_outcome :: "SecurityOutcome option"
  rc_public_reason :: "string option"
  rc_assessment_summary :: "string option"
  rc_affected_repository :: "string option"
  rc_fixed_by_commit :: "string option"
  rc_fixed_on :: "day option"
  rc_spam_confidence :: "f64 option"
  rc_assessment_attempts :: "u32 option"
  rc_vulnerability_id :: "int option"

definition no_report_changes :: SecurityReportChanges where
  "no_report_changes =
     \<lparr>rc_outcome = None, rc_public_reason = None, rc_assessment_summary = None,
      rc_affected_repository = None, rc_fixed_by_commit = None, rc_fixed_on = None,
      rc_spam_confidence = None, rc_assessment_attempts = None, rc_vulnerability_id = None\<rparr>"

record NewSecurityVulnerability =
  nv_title :: string
  nv_summary :: string
  nv_embedding :: "f32 list"
  nv_repository :: "string option"
  nv_severity :: "SecuritySeverity option"
  nv_state :: VulnerabilityState
  nv_first_report_id :: int
  nv_first_reported_at :: datetime
  nv_merge_commit :: "string option"
  nv_merged_at :: "datetime option"

record SecurityVulnerabilityChanges =
  vc_repository :: "string option"
  vc_fix_attempt_id :: "int option"
  vc_pull_request_url :: "string option"
  vc_merge_commit :: "string option"
  vc_merged_at :: "datetime option"
  vc_deployed_version :: "string option"
  vc_live_at :: "datetime option"

definition no_vulnerability_changes :: SecurityVulnerabilityChanges where
  "no_vulnerability_changes =
     \<lparr>vc_repository = None, vc_fix_attempt_id = None, vc_pull_request_url = None,
      vc_merge_commit = None, vc_merged_at = None, vc_deployed_version = None, vc_live_at = None\<rparr>"

record SecurityVulnerabilityCandidate =
  cd_id :: int
  cd_title :: string
  cd_summary :: string
  cd_embedding :: "f32 list"

record NewSecurityEvent =
  ne_kind :: SecurityEventKind
  ne_actor :: "string option"
  ne_detail :: json

definition new_event :: "SecurityEventKind \<Rightarrow> NewSecurityEvent" where
  "new_event kind = \<lparr>ne_kind = kind, ne_actor = None, ne_detail = JObj []\<rparr>"

definition with_actor :: "string \<Rightarrow> NewSecurityEvent \<Rightarrow> NewSecurityEvent" where
  "with_actor actor e = e\<lparr>ne_actor := Some actor\<rparr>"

definition with_detail :: "json \<Rightarrow> NewSecurityEvent \<Rightarrow> NewSecurityEvent" where
  "with_detail detail e = e\<lparr>ne_detail := detail\<rparr>"

record NewSecurityAward =
  na_campaign :: string
  na_credits :: u32

record SecurityReportFilter =
  rf_state :: "SecurityReportState option"
  rf_outcome :: "SecurityOutcome option"
  rf_limit :: "64 word option"

section \<open>The database\<close>

record security_db = attempts_db +
  db_reports :: "report_row list"
  db_next_report :: int
  db_vulnerabilities :: "vulnerability_row list"
  db_next_vulnerability :: int
  db_events :: "event_row list"
  db_next_event :: int
  db_replies :: "reply_row list"
  db_next_reply :: int
  db_awards :: "award_row list"
  db_next_award :: int

definition empty_db :: security_db where
  "empty_db =
     \<lparr>db_attempts = [], db_next_attempt = 1, db_reports = [], db_next_report = 1,
      db_vulnerabilities = [], db_next_vulnerability = 1, db_events = [], db_next_event = 1,
      db_replies = [], db_next_reply = 1, db_awards = [], db_next_award = 1\<rparr>"

end
