(* ===== verification/Security_Rows.thy ===== *)
theory Security_Rows
  imports Security_Db
begin

text \<open>
  Reading rows of the security inbox as values: \<open>parse_enum\<close>, \<open>row_to_report\<close>, \<open>row_to_vulnerability\<close>,
  \<open>row_to_event\<close>, \<open>row_to_reply\<close> and \<open>row_to_award\<close> of
  \<open>crates/claudear-storage/src/sqlite/security_reports.rs\<close>, and the embedding blobs of
  \<open>crates/claudear-storage/src/vector_index.rs\<close>. The lemmas say which rows can be read and that a blob is read
  back as the vector it was made of.
\<close>

section \<open>Embeddings\<close>

definition to_le_bytes :: "f32 \<Rightarrow> string" where
  "to_le_bytes w =
     [char_of (unat w mod 256), char_of (unat w div 256 mod 256),
      char_of (unat w div 65536 mod 256), char_of (unat w div 16777216)]"

definition from_le_bytes :: "char \<Rightarrow> char \<Rightarrow> char \<Rightarrow> char \<Rightarrow> f32" where
  "from_le_bytes a b c d = of_nat (byte a + 256 * byte b + 65536 * byte c + 16777216 * byte d)"

definition embedding_blob :: "f32 list \<Rightarrow> string" where
  "embedding_blob embedding = concat (map to_le_bytes embedding)"

fun embedding_from_blob :: "string \<Rightarrow> f32 list option" where
  "embedding_from_blob [] = Some []"
| "embedding_from_blob (a # b # c # d # rest) =
     map_option (\<lambda>ws. from_le_bytes a b c d # ws) (embedding_from_blob rest)"
| "embedding_from_blob _ = None"

lemma byte_char_of: "n < 256 \<Longrightarrow> byte (char_of (n::nat)) = n"
  by (simp add: byte_def)

lemma nat_le_bytes:
  "(n::nat) mod 256 + 256 * (n div 256 mod 256) + 65536 * (n div 65536 mod 256) + 16777216 * (n div 16777216) = n"
proof -
  have "n div 256 div 256 = n div 65536" "n div 65536 div 256 = n div 16777216"
    by (simp_all add: div_mult2_eq [symmetric])
  moreover have "n = n mod 256 + 256 * (n div 256)"
      "n div 256 = n div 256 mod 256 + 256 * (n div 256 div 256)"
      "n div 65536 = n div 65536 mod 256 + 256 * (n div 65536 div 256)"
    by simp_all
  ultimately show ?thesis by linarith
qed

lemma from_to_le_bytes:
  "from_le_bytes (char_of (unat w mod 256)) (char_of (unat w div 256 mod 256))
     (char_of (unat w div 65536 mod 256)) (char_of (unat w div 16777216)) = (w :: f32)"
proof -
  have "unat w < 4294967296"
    using unsigned_less [of w, where ?'a = nat] by simp
  then have top: "unat w div 16777216 < 256" by (simp add: less_mult_imp_div_less)
  have low: "byte (char_of (k mod 256)) = k mod 256" for k :: nat
    by (rule byte_char_of) simp
  show ?thesis
    unfolding from_le_bytes_def low byte_char_of [OF top] nat_le_bytes by simp
qed

lemma embedding_blob_round_trip: "embedding_from_blob (embedding_blob embedding) = Some embedding"
  by (induction embedding) (simp_all add: embedding_blob_def to_le_bytes_def from_to_le_bytes [simplified])

section \<open>Columns\<close>

fun parse_enum :: "(string \<Rightarrow> string + 'a) \<Rightarrow> nat \<Rightarrow> string \<Rightarrow> 'a result" where
  "parse_enum from_str index text =
     (case from_str text of Inr x \<Rightarrow> Inr x | Inl message \<Rightarrow> Inl (Database (Conversion_failed index message)))"

definition parse_optional_enum :: "(string \<Rightarrow> string + 'a) \<Rightarrow> nat \<Rightarrow> string option \<Rightarrow> 'a option result" where
  "parse_optional_enum from_str index value = map_or_conversion (parse_enum from_str index) value"

definition read_embedding :: "string option \<Rightarrow> f32 list result" where
  "read_embedding value =
     (case value of
        None \<Rightarrow> Inr []
      | Some blob \<Rightarrow>
          (case embedding_from_blob blob of
             Some ws \<Rightarrow> Inr ws
           | None \<Rightarrow> Inl (Database (Conversion_failed 3 ''malformed embedding blob''))))"

section \<open>Rows\<close>

definition row_to_report :: "nat \<Rightarrow> report_row \<Rightarrow> security_report result" where
  "row_to_report offset r =
     rbind (parse_enum report_state_from_str (offset + 10) (sr_state r)) (\<lambda>state.
     rbind (parse_optional_enum outcome_from_str (offset + 11) (sr_outcome r)) (\<lambda>out.
     rbind (read_u32 (offset + 18) (sr_assessment_attempts r)) (\<lambda>attempts.
     rbind (read_u32 (offset + 19) (sr_customer_thread_count r)) (\<lambda>threads.
     Inr \<lparr>sr_id = sr_id r, sr_source = sr_source r, sr_conversation_id = sr_conversation_id r,
       sr_short_id = sr_short_id r, sr_mailbox_id = sr_mailbox_id r, sr_url = sr_url r,
       sr_subject = sr_subject r, sr_reporter_email = sr_reporter_email r,
       sr_reporter_customer_id = sr_reporter_customer_id r,
       sr_reported_at = parse_datetime (sr_reported_at r), sr_state = state, sr_outcome = out,
       sr_public_reason = sr_public_reason r, sr_assessment_summary = sr_assessment_summary r,
       sr_affected_repository = sr_affected_repository r, sr_fixed_by_commit = sr_fixed_by_commit r,
       sr_fixed_on = sr_fixed_on r, sr_spam_confidence = sr_spam_confidence r,
       sr_assessment_attempts = attempts, sr_customer_thread_count = threads,
       sr_vulnerability_id = sr_vulnerability_id r, sr_created_at = parse_datetime (sr_created_at r),
       sr_updated_at = parse_datetime (sr_updated_at r)\<rparr>))))"

definition row_to_vulnerability :: "vulnerability_row \<Rightarrow> security_vulnerability result" where
  "row_to_vulnerability r =
     rbind (read_embedding (sv_embedding r)) (\<lambda>embedding.
     rbind (parse_optional_enum severity_from_str 5 (sv_severity r)) (\<lambda>severity.
     rbind (parse_enum vulnerability_state_from_str 6 (sv_state r)) (\<lambda>state.
     Inr \<lparr>sv_id = sv_id r, sv_title = sv_title r, sv_summary = sv_summary r, sv_embedding = embedding,
       sv_repository = sv_repository r, sv_severity = severity, sv_state = state,
       sv_first_report_id = sv_first_report_id r,
       sv_first_reported_at = parse_datetime (sv_first_reported_at r),
       sv_fix_attempt_id = sv_fix_attempt_id r, sv_pull_request_url = sv_pull_request_url r,
       sv_merge_commit = sv_merge_commit r, sv_merged_at = map_option parse_datetime (sv_merged_at r),
       sv_deployed_version = sv_deployed_version r, sv_live_at = map_option parse_datetime (sv_live_at r),
       sv_created_at = parse_datetime (sv_created_at r), sv_updated_at = parse_datetime (sv_updated_at r)\<rparr>)))"

definition row_to_candidate :: "vulnerability_row \<Rightarrow> SecurityVulnerabilityCandidate result" where
  "row_to_candidate r =
     rmap (\<lambda>embedding. \<lparr>cd_id = sv_id r, cd_title = sv_title r, cd_summary = sv_summary r,
         cd_embedding = embedding\<rparr>) (read_embedding (sv_embedding r))"

definition row_to_event :: "nat \<Rightarrow> event_row \<Rightarrow> security_event result" where
  "row_to_event offset r =
     rmap (\<lambda>kind. \<lparr>se_id = se_id r, se_report_id = se_report_id r,
         se_vulnerability_id = se_vulnerability_id r, se_kind = kind, se_from_state = se_from_state r,
         se_to_state = se_to_state r, se_actor = se_actor r, se_detail = se_detail r,
         se_created_at = parse_datetime (se_created_at r)\<rparr>)
       (parse_enum event_kind_from_str (offset + 3) (se_kind r))"

definition row_to_reply :: "reply_row \<Rightarrow> security_reply result" where
  "row_to_reply r =
     rbind (parse_enum reply_kind_from_str 2 (sp_kind r)) (\<lambda>kind.
     rbind (parse_enum delivery_status_from_str 3 (sp_status r)) (\<lambda>status.
     rbind (read_u32 5 (sp_attempts r)) (\<lambda>attempts.
     Inr \<lparr>sp_id = sp_id r, sp_report_id = sp_report_id r, sp_kind = kind, sp_status = status,
       sp_error = sp_error r, sp_attempts = attempts, sp_claimed_at = parse_datetime (sp_claimed_at r),
       sp_completed_at = map_option parse_datetime (sp_completed_at r)\<rparr>)))"

definition row_to_award :: "award_row \<Rightarrow> security_award result" where
  "row_to_award r =
     rbind (read_u32 5 (sa_credits r)) (\<lambda>credits.
     rbind (parse_enum award_status_from_str 6 (sa_status r)) (\<lambda>status.
     Inr \<lparr>sa_id = sa_id r, sa_vulnerability_id = sa_vulnerability_id r, sa_report_id = sa_report_id r,
       sa_recipient_email = sa_recipient_email r, sa_campaign = sa_campaign r, sa_credits = credits,
       sa_status = status, sa_actor = sa_actor r, sa_note = sa_note r,
       sa_prepared_at = parse_datetime (sa_prepared_at r),
       sa_updated_at = parse_datetime (sa_updated_at r)\<rparr>))"

section \<open>Readable rows\<close>

lemma report_state_from_str_Inr: "report_state_from_str t = Inr x \<longleftrightarrow> t = report_state_as_str x"
  unfolding report_state_from_str_def by (rule report_state.from_str_Inr)

lemma vulnerability_state_from_str_Inr:
  "vulnerability_state_from_str t = Inr x \<longleftrightarrow> t = vulnerability_state_as_str x"
  unfolding vulnerability_state_from_str_def by (rule vulnerability_state.from_str_Inr)

lemma outcome_from_str_Inr: "outcome_from_str t = Inr x \<longleftrightarrow> t = outcome_as_str x"
  unfolding outcome_from_str_def by (rule outcome.from_str_Inr)

lemma severity_from_str_Inr: "severity_from_str t = Inr x \<longleftrightarrow> t = severity_as_str x"
  unfolding severity_from_str_def by (rule severity.from_str_Inr)

lemma reply_kind_from_str_Inr: "reply_kind_from_str t = Inr x \<longleftrightarrow> t = reply_kind_as_str x"
  unfolding reply_kind_from_str_def by (rule reply_kind.from_str_Inr)

lemma delivery_status_from_str_Inr: "delivery_status_from_str t = Inr x \<longleftrightarrow> t = delivery_status_as_str x"
  unfolding delivery_status_from_str_def by (rule delivery_status.from_str_Inr)

lemma award_status_from_str_Inr: "award_status_from_str t = Inr x \<longleftrightarrow> t = award_status_as_str x"
  unfolding award_status_from_str_def by (rule award_status.from_str_Inr)

lemma event_kind_from_str_Inr: "event_kind_from_str t = Inr x \<longleftrightarrow> t = event_kind_as_str x"
  unfolding event_kind_from_str_def by (rule event_kind.from_str_Inr)

lemmas from_str_Inr =
  report_state_from_str_Inr vulnerability_state_from_str_Inr outcome_from_str_Inr severity_from_str_Inr
  reply_kind_from_str_Inr delivery_status_from_str_Inr award_status_from_str_Inr event_kind_from_str_Inr

lemma parse_enum_Inr [simp]: "parse_enum f i t = Inr x \<longleftrightarrow> f t = Inr x"
  by (simp split: sum.split)

declare parse_enum.simps [simp del]

lemma parse_optional_enum_Inr:
  "parse_optional_enum f i v = Inr y \<longleftrightarrow>
     (case v of None \<Rightarrow> y = None | Some t \<Rightarrow> \<exists>x. f t = Inr x \<and> y = Some x)"
  by (simp add: parse_optional_enum_def map_or_conversion_Inr split: option.split)

definition optional_text :: "('a \<Rightarrow> string) \<Rightarrow> string option \<Rightarrow> bool" where
  "optional_text as_str v \<longleftrightarrow> (case v of None \<Rightarrow> True | Some t \<Rightarrow> t \<in> range as_str)"

definition is_u32 :: "int \<Rightarrow> bool" where
  "is_u32 i \<longleftrightarrow> 0 \<le> i \<and> i < 2 ^ 32"

lemma is_u32_uint [simp]: "is_u32 (uint (w :: u32))"
  using uint_lt2p [of w] by (simp add: is_u32_def)

lemma read_u32_is_u32: "(\<exists>w. read_u32 i n = Inr w) \<longleftrightarrow> is_u32 n"
  by (simp add: is_u32_def read_u32_range)

lemma parse_optional_enum_ok:
  "(\<And>t x. f t = Inr x \<longleftrightarrow> t = as_str x) \<Longrightarrow>
     (\<exists>y. parse_optional_enum f i v = Inr y) \<longleftrightarrow> optional_text as_str v"
  by (auto simp: parse_optional_enum_Inr optional_text_def split: option.splits)

lemma row_to_report_ok:
  "(\<exists>v. row_to_report offset r = Inr v) \<longleftrightarrow>
     sr_state r \<in> range report_state_as_str \<and> optional_text outcome_as_str (sr_outcome r) \<and>
     is_u32 (sr_assessment_attempts r) \<and> is_u32 (sr_customer_thread_count r)"
  unfolding read_u32_is_u32 [symmetric, where i = "offset + 18" and n = "sr_assessment_attempts r"]
    read_u32_is_u32 [symmetric, where i = "offset + 19" and n = "sr_customer_thread_count r"]
    parse_optional_enum_ok [OF outcome_from_str_Inr, of "offset + 11", symmetric]
  by (auto simp: row_to_report_def report_state_from_str_Inr)

definition embedding_ok :: "string option \<Rightarrow> bool" where
  "embedding_ok v \<longleftrightarrow> (case v of None \<Rightarrow> True | Some b \<Rightarrow> b \<in> range embedding_blob)"

lemma read_embedding_ok: "embedding_ok v \<Longrightarrow> \<exists>ws. read_embedding v = Inr ws"
  by (auto simp: embedding_ok_def read_embedding_def embedding_blob_round_trip split: option.splits)

lemma row_to_vulnerability_ok:
  "embedding_ok (sv_embedding r) \<Longrightarrow> optional_text severity_as_str (sv_severity r) \<Longrightarrow>
     sv_state r \<in> range vulnerability_state_as_str \<Longrightarrow> \<exists>v. row_to_vulnerability r = Inr v"
  using read_embedding_ok [of "sv_embedding r"]
    parse_optional_enum_ok [OF severity_from_str_Inr, of 5 "sv_severity r"]
  by (auto simp: row_to_vulnerability_def vulnerability_state_from_str_Inr)

lemma row_to_event_ok: "(\<exists>v. row_to_event offset r = Inr v) \<longleftrightarrow> se_kind r \<in> range event_kind_as_str"
  by (auto simp: row_to_event_def event_kind_from_str_Inr)

lemma row_to_reply_ok:
  "(\<exists>v. row_to_reply r = Inr v) \<longleftrightarrow>
     sp_kind r \<in> range reply_kind_as_str \<and> sp_status r \<in> range delivery_status_as_str \<and> is_u32 (sp_attempts r)"
  unfolding read_u32_is_u32 [symmetric, where i = 5]
  by (auto simp: row_to_reply_def reply_kind_from_str_Inr delivery_status_from_str_Inr)

lemma row_to_award_ok:
  "(\<exists>v. row_to_award r = Inr v) \<longleftrightarrow> is_u32 (sa_credits r) \<and> sa_status r \<in> range award_status_as_str"
  unfolding read_u32_is_u32 [symmetric, where i = 5]
  by (auto simp: row_to_award_def award_status_from_str_Inr)

lemma row_to_report_fields:
  "row_to_report offset r = Inr v \<Longrightarrow>
     sr_id v = sr_id r \<and> report_state_as_str (sr_state v) = sr_state r \<and>
     sr_source v = sr_source r \<and> sr_conversation_id v = sr_conversation_id r"
  by (auto simp: row_to_report_def report_state_from_str_Inr)

lemma row_to_reply_fields:
  "row_to_reply r = Inr v \<Longrightarrow>
     sp_report_id v = sp_report_id r \<and> reply_kind_as_str (sp_kind v) = sp_kind r \<and>
     delivery_status_as_str (sp_status v) = sp_status r"
  by (auto simp: row_to_reply_def reply_kind_from_str_Inr delivery_status_from_str_Inr)

lemma row_to_award_fields:
  "row_to_award r = Inr v \<Longrightarrow>
     sa_vulnerability_id v = sa_vulnerability_id r \<and> sa_report_id v = sa_report_id r \<and>
     award_status_as_str (sa_status v) = sa_status r"
  by (auto simp: row_to_award_def award_status_from_str_Inr)

end
