(* ===== verification/Security_Store.thy ===== *)
theory Security_Store
  imports Security_Rows
begin

text \<open>
  The writing methods of the security inbox store, \<open>crates/claudear-storage/src/sqlite/security_reports.rs\<close>.
  Each takes the instants it reads from the clock first. A method that opens a transaction is a
  \<^const>\<open>transaction\<close>: an error, and a return before the commit, leave the store as it was. Each statement
  checks the foreign keys and unique indexes of \<open>V18__security_inbox.sql\<close> it can violate.
\<close>

section \<open>Statements\<close>

definition report_exists :: "security_db \<Rightarrow> int \<Rightarrow> bool" where
  "report_exists db i \<longleftrightarrow> list_ex (\<lambda>r. sr_id r = i) (db_reports db)"

definition vulnerability_exists :: "security_db \<Rightarrow> int \<Rightarrow> bool" where
  "vulnerability_exists db i \<longleftrightarrow> list_ex (\<lambda>r. sv_id r = i) (db_vulnerabilities db)"

definition attempt_exists :: "security_db \<Rightarrow> int \<Rightarrow> bool" where
  "attempt_exists db i \<longleftrightarrow> list_ex (\<lambda>r. fa_id r = i) (db_attempts db)"

fun references :: "(int \<Rightarrow> bool) \<Rightarrow> int option \<Rightarrow> bool" where
  "references exists None \<longleftrightarrow> True"
| "references exists (Some i) \<longleftrightarrow> exists i"

record EventRow =
  er_report_id :: "int option"
  er_vulnerability_id :: "int option"
  er_from_state :: "string option"
  er_to_state :: "string option"

definition default_event_row :: EventRow where
  "default_event_row =
     \<lparr>er_report_id = None, er_vulnerability_id = None, er_from_state = None, er_to_state = None\<rparr>"

definition event_of :: "int \<Rightarrow> EventRow \<Rightarrow> NewSecurityEvent \<Rightarrow> stamp \<Rightarrow> event_row" where
  "event_of i row e created_at =
     \<lparr>se_id = i, se_report_id = er_report_id row, se_vulnerability_id = er_vulnerability_id row,
      se_kind = event_kind_as_str (ne_kind e), se_from_state = er_from_state row,
      se_to_state = er_to_state row, se_actor = ne_actor e, se_detail = ne_detail e,
      se_created_at = created_at\<rparr>"

definition insert_event ::
    "EventRow \<Rightarrow> NewSecurityEvent \<Rightarrow> stamp \<Rightarrow> security_db \<Rightarrow> security_db result" where
  "insert_event row e created_at db =
     (if references (report_exists db) (er_report_id row) \<and>
         references (vulnerability_exists db) (er_vulnerability_id row)
      then Inr (db\<lparr>db_events := db_events db @ [event_of (db_next_event db) row e created_at],
                   db_next_event := db_next_event db + 1\<rparr>)
      else Inl (Database Foreign_key_failed))"

text \<open>A \<open>NaN\<close> bound to a column is stored as \<open>NULL\<close>.\<close>

definition f64_is_nan :: "f64 \<Rightarrow> bool" where
  "f64_is_nan w \<longleftrightarrow> uint w div 2 ^ 52 mod 2 ^ 11 = 2047 \<and> uint w mod 2 ^ 52 \<noteq> 0"

definition real_column :: "f64 \<Rightarrow> f64 option" where
  "real_column w = (if f64_is_nan w then None else Some w)"

definition assign :: "'a option \<Rightarrow> ('a \<Rightarrow> 'r \<Rightarrow> 'r) \<Rightarrow> ('r \<Rightarrow> 'r) list" where
  "assign change set_column = (case change of None \<Rightarrow> [] | Some x \<Rightarrow> [set_column x])"

definition report_assignments :: "SecurityReportChanges \<Rightarrow> (report_row \<Rightarrow> report_row) list" where
  "report_assignments changes =
     assign (rc_outcome changes) (\<lambda>x r. r\<lparr>sr_outcome := Some (outcome_as_str x)\<rparr>) @
     assign (rc_public_reason changes) (\<lambda>x r. r\<lparr>sr_public_reason := Some x\<rparr>) @
     assign (rc_assessment_summary changes) (\<lambda>x r. r\<lparr>sr_assessment_summary := Some x\<rparr>) @
     assign (rc_affected_repository changes) (\<lambda>x r. r\<lparr>sr_affected_repository := Some x\<rparr>) @
     assign (rc_fixed_by_commit changes) (\<lambda>x r. r\<lparr>sr_fixed_by_commit := Some x\<rparr>) @
     assign (rc_fixed_on changes) (\<lambda>x r. r\<lparr>sr_fixed_on := Some x\<rparr>) @
     assign (rc_spam_confidence changes) (\<lambda>x r. r\<lparr>sr_spam_confidence := real_column x\<rparr>) @
     assign (rc_assessment_attempts changes) (\<lambda>x r. r\<lparr>sr_assessment_attempts := uint x\<rparr>) @
     assign (rc_vulnerability_id changes) (\<lambda>x r. r\<lparr>sr_vulnerability_id := Some x\<rparr>)"

definition vulnerability_assignments ::
    "SecurityVulnerabilityChanges \<Rightarrow> (vulnerability_row \<Rightarrow> vulnerability_row) list" where
  "vulnerability_assignments changes =
     assign (vc_repository changes) (\<lambda>x r. r\<lparr>sv_repository := Some x\<rparr>) @
     assign (vc_fix_attempt_id changes) (\<lambda>x r. r\<lparr>sv_fix_attempt_id := Some x\<rparr>) @
     assign (vc_pull_request_url changes) (\<lambda>x r. r\<lparr>sv_pull_request_url := Some x\<rparr>) @
     assign (vc_merge_commit changes) (\<lambda>x r. r\<lparr>sv_merge_commit := Some x\<rparr>) @
     assign (vc_merged_at changes) (\<lambda>x r. r\<lparr>sv_merged_at := Some (timestamp x)\<rparr>) @
     assign (vc_deployed_version changes) (\<lambda>x r. r\<lparr>sv_deployed_version := Some x\<rparr>) @
     assign (vc_live_at changes) (\<lambda>x r. r\<lparr>sv_live_at := Some (timestamp x)\<rparr>)"

text \<open>\<open>UPDATE table SET .. WHERE id = ? AND state = ?\<close>, and whether it hit a row.\<close>

definition in_state :: "('r \<Rightarrow> int) \<Rightarrow> ('r \<Rightarrow> string) \<Rightarrow> int \<Rightarrow> string \<Rightarrow> 'r \<Rightarrow> bool" where
  "in_state key state i expected r \<longleftrightarrow> key r = i \<and> state r = expected"

definition update_in_state ::
    "('r \<Rightarrow> int) \<Rightarrow> ('r \<Rightarrow> string) \<Rightarrow> int \<Rightarrow> string \<Rightarrow> ('r \<Rightarrow> 'r) list \<Rightarrow> 'r list \<Rightarrow> bool \<times> 'r list" where
  "update_in_state key state i expected assignments rows =
     (0 < rows_affected (in_state key state i expected) rows,
      update_where (in_state key state i expected) (fold id assignments) rows)"

definition move_report ::
    "int \<Rightarrow> ReportTransition \<Rightarrow> SecurityReportChanges \<Rightarrow> stamp \<Rightarrow> security_db \<Rightarrow> (bool \<times> security_db) result" where
  "move_report i transition changes updated_at db =
     (if \<not> transition_is_allowed transition then Inr (False, db)
      else
        (case update_in_state sr_id sr_state i (report_state_as_str (tr_from transition))
                ([\<lambda>r. r\<lparr>sr_state := report_state_as_str (tr_to transition)\<rparr>,
                  \<lambda>r. r\<lparr>sr_updated_at := updated_at\<rparr>] @ report_assignments changes)
                (db_reports db) of
           (moved, rows) \<Rightarrow>
             if moved \<and> \<not> references (vulnerability_exists db) (rc_vulnerability_id changes)
             then Inl (Database Foreign_key_failed)
             else Inr (moved, db\<lparr>db_reports := rows\<rparr>)))"

definition query_reply :: "int \<Rightarrow> SecurityReplyKind \<Rightarrow> security_db \<Rightarrow> security_reply option result" where
  "query_reply report_id kind db =
     map_or_conversion row_to_reply
       (find_by (\<lambda>r. sp_report_id r = report_id \<and> sp_kind r = reply_kind_as_str kind) (db_replies db))"

definition has_other_fix_live_reply :: "int \<Rightarrow> SecurityReplyKind \<Rightarrow> security_db \<Rightarrow> bool" where
  "has_other_fix_live_reply report_id kind db \<longleftrightarrow>
     is_fix_live kind \<and>
     (let siblings = map reply_kind_as_str (filter (\<lambda>k. is_fix_live k \<and> k \<noteq> kind) reply_kind_all)
      in list_ex (\<lambda>r. sp_report_id r = report_id \<and> sp_kind r \<in> set siblings) (db_replies db))"

definition query_report :: "int \<Rightarrow> security_db \<Rightarrow> security_report option result" where
  "query_report i db =
     map_or_conversion (row_to_report 0) (find_by (\<lambda>r. sr_id r = i) (db_reports db))"

definition query_report_by_conversation ::
    "string \<Rightarrow> string \<Rightarrow> security_db \<Rightarrow> security_report option result" where
  "query_report_by_conversation source conversation_id db =
     map_or_conversion (row_to_report 0)
       (find_by (\<lambda>r. sr_source r = source \<and> sr_conversation_id r = conversation_id) (db_reports db))"

definition query_vulnerability :: "int \<Rightarrow> security_db \<Rightarrow> security_vulnerability option result" where
  "query_vulnerability i db =
     map_or_conversion row_to_vulnerability (find_by (\<lambda>r. sv_id r = i) (db_vulnerabilities db))"

definition query_award :: "int \<Rightarrow> security_db \<Rightarrow> security_award option result" where
  "query_award vulnerability_id db =
     map_or_conversion row_to_award
       (find_by (\<lambda>r. sa_vulnerability_id r = vulnerability_id) (db_awards db))"

section \<open>Reports\<close>

definition report_of_new :: "int \<Rightarrow> NewSecurityReport \<Rightarrow> stamp \<Rightarrow> report_row" where
  "report_of_new i report created_at =
     \<lparr>sr_id = i, sr_source = nr_source report, sr_conversation_id = nr_conversation_id report,
      sr_short_id = nr_short_id report, sr_mailbox_id = nr_mailbox_id report, sr_url = nr_url report,
      sr_subject = nr_subject report, sr_reporter_email = nr_reporter_email report,
      sr_reporter_customer_id = nr_reporter_customer_id report,
      sr_reported_at = timestamp (nr_reported_at report),
      sr_state = report_state_as_str SecurityReportState.Received, sr_outcome = None,
      sr_public_reason = None, sr_assessment_summary = None, sr_affected_repository = None,
      sr_fixed_by_commit = None, sr_fixed_on = None, sr_spam_confidence = None,
      sr_assessment_attempts = 0, sr_customer_thread_count = uint (nr_customer_thread_count report),
      sr_vulnerability_id = None, sr_created_at = created_at, sr_updated_at = created_at\<rparr>"

definition is_conversation :: "string \<Rightarrow> string \<Rightarrow> report_row \<Rightarrow> bool" where
  "is_conversation source conversation_id r \<longleftrightarrow>
     sr_source r = source \<and> sr_conversation_id r = conversation_id"

definition upsert_security_report :: "datetime \<Rightarrow> NewSecurityReport \<Rightarrow> (security_db, security_report) op" where
  "upsert_security_report now report =
     transaction (\<lambda>db.
       let created_at = timestamp now;
           i = db_next_report db;
           inserted = \<not> list_ex (is_conversation (nr_source report) (nr_conversation_id report)) (db_reports db)
       in
       rbind
         (if inserted
          then insert_event
                 (default_event_row\<lparr>er_report_id := Some i,
                    er_to_state := Some (report_state_as_str SecurityReportState.Received)\<rparr>)
                 (new_event SecurityEventKind.Received) created_at
                 (db\<lparr>db_reports := db_reports db @ [report_of_new i report created_at],
                     db_next_report := i + 1\<rparr>)
          else Inr db)
         (\<lambda>db1.
            rbind (query_report_by_conversation (nr_source report) (nr_conversation_id report) db1)
              (\<lambda>stored. case stored of
                 Some r \<Rightarrow> Inr (r, db1)
               | None \<Rightarrow>
                   Inl (Storage (''security report '' @ nr_source report @ '':'' @
                     nr_conversation_id report @ '' missing after upsert'')))))"

definition transition_security_report ::
    "datetime \<Rightarrow> int \<Rightarrow> SecurityReportState \<Rightarrow> SecurityReportState \<Rightarrow> SecurityReportChanges \<Rightarrow>
       NewSecurityEvent \<Rightarrow> (security_db, bool) op" where
  "transition_security_report now i expected next changes event =
     (let transition = \<lparr>tr_from = expected, tr_to = next\<rparr>; updated_at = timestamp now in
      if \<not> transition_is_allowed transition then ret False
      else transaction (\<lambda>db.
        rbind (move_report i transition changes updated_at db) (\<lambda>(moved, db1).
          if \<not> moved then Inr (False, db)
          else
            rbind (insert_event
                (default_event_row\<lparr>er_report_id := Some i,
                   er_from_state := Some (report_state_as_str expected),
                   er_to_state := Some (report_state_as_str next)\<rparr>) event updated_at db1)
              (\<lambda>db2. Inr (True, db2)))))"

text \<open>
  \<open>TimeDelta::from_std(stale_after).unwrap_or(TimeDelta::MAX)\<close> and \<open>checked_sub_signed\<close>, with the bounds of
  \<open>chrono\<close>: a span has at most \<open>i64::MAX\<close> milliseconds, and no instant precedes the year -262143.
\<close>

definition timedelta_max :: int where
  "timedelta_max = (2 ^ 63 - 1) * 1000000"

definition min_utc :: datetime where
  "min_utc = - 8334601228800 * nanos_per_second"

definition stale_cutoff :: "datetime \<Rightarrow> int \<Rightarrow> datetime option" where
  "stale_cutoff now stale_after =
     (let cutoff = now - min stale_after timedelta_max in if cutoff < min_utc then None else Some cutoff)"

definition is_stale :: "stamp \<Rightarrow> report_row \<Rightarrow> bool" where
  "is_stale cutoff r \<longleftrightarrow>
     sr_state r = report_state_as_str SecurityReportState.Assessing \<and> sr_updated_at r < cutoff"

definition released_event :: "int \<Rightarrow> NewSecurityEvent" where
  "released_event stale_after =
     with_detail (JObj [(''stale_after_secs'', JInt (stale_after div nanos_per_second))])
       (new_event SecurityEventKind.AssessmentReleased)"

definition release_report :: "stamp \<Rightarrow> NewSecurityEvent \<Rightarrow> int \<Rightarrow> security_db \<Rightarrow> security_db result" where
  "release_report updated_at event i db =
     (let from = report_state_as_str SecurityReportState.Assessing;
          to = report_state_as_str SecurityReportState.Received in
      insert_event
        (default_event_row\<lparr>er_report_id := Some i, er_from_state := Some from, er_to_state := Some to\<rparr>)
        event updated_at
        (db\<lparr>db_reports := update_where (in_state sr_id sr_state i from)
           (\<lambda>r. r\<lparr>sr_state := to, sr_assessment_attempts := sr_assessment_attempts r + 1,
              sr_updated_at := updated_at\<rparr>) (db_reports db)\<rparr>))"

fun release_reports :: "stamp \<Rightarrow> NewSecurityEvent \<Rightarrow> int list \<Rightarrow> security_db \<Rightarrow> security_db result" where
  "release_reports updated_at event [] db = Inr db"
| "release_reports updated_at event (i # is) db =
     rbind (release_report updated_at event i db) (release_reports updated_at event is)"

definition stale_reports :: "datetime \<Rightarrow> security_db \<Rightarrow> int list" where
  "stale_reports cutoff db =
     map sr_id (order_asc sr_id (filter (is_stale (timestamp cutoff)) (db_reports db)))"

definition release_stale_security_assessments ::
    "datetime \<Rightarrow> datetime \<Rightarrow> int \<Rightarrow> (security_db, nat) op" where
  "release_stale_security_assessments now1 now2 stale_after =
     (case stale_cutoff now1 stale_after of
        None \<Rightarrow> ret 0
      | Some cutoff \<Rightarrow>
          transaction (\<lambda>db.
            let stale = stale_reports cutoff db in
            rbind (release_reports (timestamp now2) (released_event stale_after) stale db)
              (\<lambda>db1. Inr (length stale, db1))))"

definition record_security_follow_up :: "datetime \<Rightarrow> int \<Rightarrow> u32 \<Rightarrow> u32 \<Rightarrow> (security_db, bool) op" where
  "record_security_follow_up now i expected_count new_count =
     (if new_count \<le> expected_count then ret False
      else transaction (\<lambda>db.
        let updated_at = timestamp now;
            hit = (\<lambda>r. sr_id r = i \<and> sr_customer_thread_count r = uint expected_count) in
        if rows_affected hit (db_reports db) = 0 then Inr (False, db)
        else
          rbind (insert_event (default_event_row\<lparr>er_report_id := Some i\<rparr>)
              (with_detail (JObj [(''previous_count'', JInt (uint expected_count)),
                  (''customer_thread_count'', JInt (uint new_count))])
                (new_event SecurityEventKind.ReporterFollowUp)) updated_at
              (db\<lparr>db_reports := update_where hit
                 (\<lambda>r. r\<lparr>sr_customer_thread_count := uint new_count, sr_updated_at := updated_at\<rparr>)
                 (db_reports db)\<rparr>))
            (\<lambda>db1. Inr (True, db1))))"

definition record_security_event ::
    "datetime \<Rightarrow> int option \<Rightarrow> int option \<Rightarrow> NewSecurityEvent \<Rightarrow> (security_db, unit) op" where
  "record_security_event now report_id vulnerability_id event =
     (if report_id = None \<and> vulnerability_id = None
      then fail (Storage ''a security event needs a report or a vulnerability'')
      else transaction (\<lambda>db.
        rbind (insert_event
            (default_event_row\<lparr>er_report_id := report_id, er_vulnerability_id := vulnerability_id\<rparr>)
            event (timestamp now) db)
          (\<lambda>db1. Inr ((), db1))))"

section \<open>Vulnerabilities\<close>

definition vulnerability_of_new :: "int \<Rightarrow> NewSecurityVulnerability \<Rightarrow> stamp \<Rightarrow> vulnerability_row" where
  "vulnerability_of_new i v created_at =
     \<lparr>sv_id = i, sv_title = nv_title v, sv_summary = nv_summary v,
      sv_embedding = (if nv_embedding v = [] then None else Some (embedding_blob (nv_embedding v))),
      sv_repository = nv_repository v, sv_severity = map_option severity_as_str (nv_severity v),
      sv_state = vulnerability_state_as_str (nv_state v), sv_first_report_id = nv_first_report_id v,
      sv_first_reported_at = timestamp (nv_first_reported_at v), sv_fix_attempt_id = None,
      sv_pull_request_url = None, sv_merge_commit = nv_merge_commit v,
      sv_merged_at = map_option timestamp (nv_merged_at v), sv_deployed_version = None,
      sv_live_at = None, sv_created_at = created_at, sv_updated_at = created_at\<rparr>"

definition create_security_vulnerability ::
    "datetime \<Rightarrow> NewSecurityVulnerability \<Rightarrow> (security_db, security_vulnerability) op" where
  "create_security_vulnerability now v =
     (if \<not> vulnerability_is_initial (nv_state v)
      then fail (Storage (''a vulnerability cannot start in '' @ vulnerability_state_as_str (nv_state v)))
      else transaction (\<lambda>db.
        let created_at = timestamp now; i = db_next_vulnerability db in
        if \<not> report_exists db (nv_first_report_id v) then Inl (Database Foreign_key_failed)
        else
          rbind (insert_event
              (default_event_row\<lparr>er_vulnerability_id := Some i,
                 er_to_state := Some (vulnerability_state_as_str (nv_state v))\<rparr>)
              (with_detail (JObj [(''first_report_id'', JInt (nv_first_report_id v))])
                (new_event SecurityEventKind.VulnerabilityCreated)) created_at
              (db\<lparr>db_vulnerabilities := db_vulnerabilities db @ [vulnerability_of_new i v created_at],
                  db_next_vulnerability := i + 1\<rparr>))
            (\<lambda>db1. rbind (query_vulnerability i db1) (\<lambda>created. case created of
               Some c \<Rightarrow> Inr (c, db1)
             | None \<Rightarrow> Inl (Storage (''security vulnerability '' @ show_int i @ '' missing after insert''))))))"

definition transition_security_vulnerability ::
    "datetime \<Rightarrow> int \<Rightarrow> VulnerabilityState \<Rightarrow> VulnerabilityState \<Rightarrow> SecurityVulnerabilityChanges \<Rightarrow>
       NewSecurityEvent \<Rightarrow> (security_db, bool) op" where
  "transition_security_vulnerability now i expected next changes event =
     (if \<not> vulnerability_can_transition_to expected next then ret False
      else transaction (\<lambda>db.
        let updated_at = timestamp now in
        case update_in_state sv_id sv_state i (vulnerability_state_as_str expected)
               ([\<lambda>r. r\<lparr>sv_state := vulnerability_state_as_str next\<rparr>,
                 \<lambda>r. r\<lparr>sv_updated_at := updated_at\<rparr>] @ vulnerability_assignments changes)
               (db_vulnerabilities db) of
          (moved, rows) \<Rightarrow>
            if \<not> moved then Inr (False, db)
            else if \<not> references (attempt_exists db) (vc_fix_attempt_id changes)
            then Inl (Database Foreign_key_failed)
            else
              rbind (insert_event
                  (default_event_row\<lparr>er_vulnerability_id := Some i,
                     er_from_state := Some (vulnerability_state_as_str expected),
                     er_to_state := Some (vulnerability_state_as_str next)\<rparr>) event updated_at
                  (db\<lparr>db_vulnerabilities := rows\<rparr>))
                (\<lambda>db1. Inr (True, db1))))"

definition replaceable :: "security_db \<Rightarrow> int \<Rightarrow> int \<Rightarrow> int \<Rightarrow> stamp \<Rightarrow> vulnerability_row \<Rightarrow> bool" where
  "replaceable db vulnerability_id expected_first_report_id report_id reported_at r \<longleftrightarrow>
     sv_id r = vulnerability_id \<and> sv_first_report_id r = expected_first_report_id \<and>
     (reported_at < sv_first_reported_at r \<or>
      (sv_first_reported_at r = reported_at \<and> report_id < sv_first_report_id r)) \<and>
     \<not> list_ex (\<lambda>a. sa_vulnerability_id a = vulnerability_id) (db_awards db)"

definition replace_first_reporter ::
    "datetime \<Rightarrow> int \<Rightarrow> int \<Rightarrow> int \<Rightarrow> datetime \<Rightarrow> (security_db, bool) op" where
  "replace_first_reporter now vulnerability_id expected_first_report_id report_id reported_at =
     (if report_id = expected_first_report_id then ret False
      else transaction (\<lambda>db.
        let updated_at = timestamp now;
            hit = replaceable db vulnerability_id expected_first_report_id report_id (timestamp reported_at) in
        if rows_affected hit (db_vulnerabilities db) = 0 then Inr (False, db)
        else if \<not> report_exists db report_id then Inl (Database Foreign_key_failed)
        else
          rbind (insert_event (default_event_row\<lparr>er_vulnerability_id := Some vulnerability_id\<rparr>)
              (with_detail (JObj [(''previous_report_id'', JInt expected_first_report_id),
                  (''report_id'', JInt report_id)])
                (new_event SecurityEventKind.FirstReporterReplaced)) updated_at
              (db\<lparr>db_vulnerabilities := update_where hit
                 (\<lambda>r. r\<lparr>sv_first_report_id := report_id, sv_first_reported_at := timestamp reported_at,
                    sv_updated_at := updated_at\<rparr>) (db_vulnerabilities db)\<rparr>))
            (\<lambda>db1. Inr (True, db1))))"

section \<open>Replies\<close>

definition is_reply :: "int \<Rightarrow> SecurityReplyKind \<Rightarrow> reply_row \<Rightarrow> bool" where
  "is_reply report_id kind r \<longleftrightarrow> sp_report_id r = report_id \<and> sp_kind r = reply_kind_as_str kind"

text \<open>\<open>WHERE report_id = ? AND kind = ? AND status = ?\<close>.\<close>

definition reply_in :: "int \<Rightarrow> SecurityReplyKind \<Rightarrow> DeliveryStatus \<Rightarrow> reply_row \<Rightarrow> bool" where
  "reply_in report_id kind status r \<longleftrightarrow>
     is_reply report_id kind r \<and> sp_status r = delivery_status_as_str status"

definition fix_live_texts :: "string list" where
  "fix_live_texts = [''fix_live'', ''fix_live_rewarded'']"

definition insert_reply :: "int \<Rightarrow> SecurityReplyKind \<Rightarrow> stamp \<Rightarrow> security_db \<Rightarrow> security_db result" where
  "insert_reply report_id kind claimed_at db =
     (let r = \<lparr>sp_id = db_next_reply db, sp_report_id = report_id, sp_kind = reply_kind_as_str kind,
                sp_status = delivery_status_as_str DeliveryStatus.Sending, sp_error = None,
                sp_attempts = 1, sp_claimed_at = claimed_at, sp_completed_at = None\<rparr> in
      if list_ex (is_reply report_id kind) (db_replies db) then Inl (Database Unique_failed)
      else if sp_kind r \<in> set fix_live_texts \<and>
              list_ex (\<lambda>x. sp_report_id x = report_id \<and> sp_kind x \<in> set fix_live_texts) (db_replies db)
      then Inl (Database Unique_failed)
      else if \<not> report_exists db report_id then Inl (Database Foreign_key_failed)
      else Inr (db\<lparr>db_replies := db_replies db @ [r], db_next_reply := db_next_reply db + 1\<rparr>))"

definition claim_security_reply ::
    "datetime \<Rightarrow> int \<Rightarrow> SecurityReplyKind \<Rightarrow> NewSecurityEvent \<Rightarrow> (security_db, bool) op" where
  "claim_security_reply now report_id kind event =
     transaction (\<lambda>db.
       if has_other_fix_live_reply report_id kind db then Inr (False, db)
       else
         rbind (query_reply report_id kind db) (\<lambda>reply.
           let previous = map_option sp_status reply;
               claimed_at = timestamp now;
               sending = delivery_status_as_str DeliveryStatus.Sending;
               claimed = (\<lambda>db1.
                 rbind (insert_event
                     (default_event_row\<lparr>er_report_id := Some report_id,
                        er_from_state := map_option delivery_status_as_str previous,
                        er_to_state := Some sending\<rparr>) event claimed_at db1)
                   (\<lambda>db2. Inr (True, db2)))
           in
           case previous of
             None \<Rightarrow> rbind (insert_reply report_id kind claimed_at db) claimed
           | Some status \<Rightarrow>
               if status = DeliveryStatus.Failed
               then claimed (db\<lparr>db_replies := update_where (reply_in report_id kind DeliveryStatus.Failed)
                      (\<lambda>r. r\<lparr>sp_status := sending, sp_attempts := sp_attempts r + 1,
                         sp_claimed_at := claimed_at, sp_completed_at := None\<rparr>) (db_replies db)\<rparr>)
               else Inr (False, db)))"

definition complete_security_reply ::
    "datetime \<Rightarrow> int \<Rightarrow> SecurityReplyKind \<Rightarrow> DeliveryStatus \<Rightarrow> string option \<Rightarrow> NewSecurityEvent \<Rightarrow>
       ReportTransition option \<Rightarrow> (security_db, bool) op" where
  "complete_security_reply now report_id kind status error event transition =
     (if \<not> delivery_is_completion status
      then fail (Storage (''a reply cannot complete as '' @ delivery_status_as_str status))
      else transaction (\<lambda>db.
        let completed_at = timestamp now;
            hit = reply_in report_id kind DeliveryStatus.Sending;
            db1 = db\<lparr>db_replies := update_where hit
              (\<lambda>r. r\<lparr>sp_status := delivery_status_as_str status, sp_error := error,
                 sp_completed_at := Some completed_at\<rparr>) (db_replies db)\<rparr>
        in
        if rows_affected hit (db_replies db) = 0
        then Inl (Storage (''no '' @ reply_kind_as_str kind @
               '' reply is being sent for security report '' @ show_int report_id))
        else
          rbind (case transition of
                   Some t \<Rightarrow> move_report report_id t no_report_changes completed_at db1
                 | None \<Rightarrow> Inr (False, db1))
            (\<lambda>(moved, db2).
               let row =
                 (case transition of
                    Some t \<Rightarrow>
                      if moved
                      then default_event_row\<lparr>er_report_id := Some report_id,
                             er_from_state := Some (report_state_as_str (tr_from t)),
                             er_to_state := Some (report_state_as_str (tr_to t))\<rparr>
                      else default_event_row\<lparr>er_report_id := Some report_id,
                             er_from_state := Some (delivery_status_as_str DeliveryStatus.Sending),
                             er_to_state := Some (delivery_status_as_str status)\<rparr>
                  | None \<Rightarrow> default_event_row\<lparr>er_report_id := Some report_id,
                             er_from_state := Some (delivery_status_as_str DeliveryStatus.Sending),
                             er_to_state := Some (delivery_status_as_str status)\<rparr>)
               in rbind (insert_event row event completed_at db2) (\<lambda>db3. Inr (moved, db3)))))"

definition not_delivered_error :: string where
  "not_delivered_error = ''confirmed not delivered by an admin''"

definition confirm_security_reply ::
    "datetime \<Rightarrow> int \<Rightarrow> SecurityReplyKind \<Rightarrow> bool \<Rightarrow> string \<Rightarrow> (security_db, bool) op" where
  "confirm_security_reply now report_id kind delivered actor =
     transaction (\<lambda>db.
       let (status, error) =
             (if delivered then (DeliveryStatus.Sent, None)
              else (DeliveryStatus.Failed, Some not_delivered_error));
           completed_at = timestamp now;
           hit = reply_in report_id kind DeliveryStatus.Unconfirmed
       in
       if rows_affected hit (db_replies db) = 0 then Inr (False, db)
       else
         rbind (insert_event
             (default_event_row\<lparr>er_report_id := Some report_id,
                er_from_state := Some (delivery_status_as_str DeliveryStatus.Unconfirmed),
                er_to_state := Some (delivery_status_as_str status)\<rparr>)
             (with_detail (JObj [(''kind'', JStr (reply_kind_as_str kind)), (''delivered'', JBool delivered)])
               (with_actor actor (new_event SecurityEventKind.DeliveryConfirmed))) completed_at
             (db\<lparr>db_replies := update_where hit
                (\<lambda>r. r\<lparr>sp_status := delivery_status_as_str status, sp_error := error,
                   sp_completed_at := Some completed_at\<rparr>) (db_replies db)\<rparr>))
           (\<lambda>db1. Inr (True, db1)))"

section \<open>Awards\<close>

text \<open>
  \<open>INSERT .. SELECT .. JOIN .. ON CONFLICT(vulnerability_id) DO NOTHING\<close>: the vulnerability with that first
  report, joined with the report.
\<close>

definition award_source :: "int \<Rightarrow> int \<Rightarrow> security_db \<Rightarrow> report_row option" where
  "award_source vulnerability_id report_id db =
     (case find_by (\<lambda>v. sv_id v = vulnerability_id \<and> sv_first_report_id v = report_id)
             (db_vulnerabilities db) of
        None \<Rightarrow> None
      | Some v \<Rightarrow> find_by (\<lambda>r. sr_id r = sv_first_report_id v) (db_reports db))"

definition is_award :: "int \<Rightarrow> award_row \<Rightarrow> bool" where
  "is_award vulnerability_id a \<longleftrightarrow> sa_vulnerability_id a = vulnerability_id"

definition prepare_security_award ::
    "datetime \<Rightarrow> int \<Rightarrow> int \<Rightarrow> NewSecurityAward \<Rightarrow> (security_db, bool) op" where
  "prepare_security_award now vulnerability_id report_id award =
     transaction (\<lambda>db.
       let prepared_at = timestamp now; status = AwardStatus.Prepared in
       case award_source vulnerability_id report_id db of
         None \<Rightarrow> Inr (False, db)
       | Some report \<Rightarrow>
           if list_ex (is_award vulnerability_id) (db_awards db) then Inr (False, db)
           else
             rbind (insert_event
                 (default_event_row\<lparr>er_vulnerability_id := Some vulnerability_id,
                    er_to_state := Some (award_status_as_str status)\<rparr>)
                 (with_detail (JObj [(''report_id'', JInt report_id), (''campaign'', JStr (na_campaign award)),
                     (''credits'', JInt (uint (na_credits award)))]) (new_event (award_event_kind status)))
                 prepared_at
                 (db\<lparr>db_awards := db_awards db @
                       [\<lparr>sa_id = db_next_award db, sa_vulnerability_id = vulnerability_id,
                         sa_report_id = sr_id report, sa_recipient_email = sr_reporter_email report,
                         sa_campaign = na_campaign award, sa_credits = uint (na_credits award),
                         sa_status = award_status_as_str status, sa_actor = None, sa_note = None,
                         sa_prepared_at = prepared_at, sa_updated_at = prepared_at\<rparr>],
                     db_next_award := db_next_award db + 1\<rparr>))
               (\<lambda>db1. Inr (True, db1)))"

definition coalesce :: "'a option \<Rightarrow> 'a option \<Rightarrow> 'a option" where
  "coalesce a b = (case a of Some x \<Rightarrow> Some x | None \<Rightarrow> b)"

definition update_security_award_status ::
    "datetime \<Rightarrow> int \<Rightarrow> AwardStatus list \<Rightarrow> AwardStatus \<Rightarrow> string option \<Rightarrow> string option \<Rightarrow>
       (security_db, bool) op" where
  "update_security_award_status now vulnerability_id expected next actor note =
     transaction (\<lambda>db.
       rbind (query_award vulnerability_id db) (\<lambda>found.
         case found of
           None \<Rightarrow> Inr (False, db)
         | Some award \<Rightarrow>
             let current = sa_status award; updated_at = timestamp now;
                 hit = (\<lambda>a. is_award vulnerability_id a \<and> sa_status a = award_status_as_str current) in
             if current \<notin> set expected \<or> \<not> award_can_transition_to current next then Inr (False, db)
             else if rows_affected hit (db_awards db) = 0 then Inr (False, db)
             else
               rbind (insert_event
                   (default_event_row\<lparr>er_vulnerability_id := Some vulnerability_id,
                      er_from_state := Some (award_status_as_str current),
                      er_to_state := Some (award_status_as_str next)\<rparr>)
                   ((with_detail (JObj [(''report_id'', JInt (sa_report_id award))])
                       (new_event (award_event_kind next)))\<lparr>ne_actor := actor\<rparr>) updated_at
                   (db\<lparr>db_awards := update_where hit
                      (\<lambda>a. a\<lparr>sa_status := award_status_as_str next, sa_actor := coalesce actor (sa_actor a),
                         sa_note := coalesce note (sa_note a), sa_updated_at := updated_at\<rparr>)
                      (db_awards db)\<rparr>))
                 (\<lambda>db1. Inr (True, db1))))"

end
