(* ===== verification/Security_Queries.thy ===== *)
theory Security_Queries
  imports Security_Store
begin

text \<open>
  The reading methods of the security inbox store, \<open>crates/claudear-storage/src/sqlite/security_reports.rs\<close>: a
  query, its order and limit, and the conversion of its rows, of which one that fails fails the call.
\<close>

section \<open>Reports\<close>

definition default_report_limit :: "64 word" where
  "default_report_limit = 100"

text \<open>\<open>i64::try_from(limit).unwrap_or(i64::MAX)\<close>.\<close>

definition limit_i64 :: "64 word \<Rightarrow> int" where
  "limit_i64 n = min (uint n) (2 ^ 63 - 1)"

definition get_security_report :: "int \<Rightarrow> security_db \<Rightarrow> security_report option result" where
  "get_security_report i db = query_report i db"

definition get_security_report_by_conversation ::
    "string \<Rightarrow> string \<Rightarrow> security_db \<Rightarrow> security_report option result" where
  "get_security_report_by_conversation source conversation_id db =
     query_report_by_conversation source conversation_id db"

fun is_null_or :: "'a option \<Rightarrow> 'a option \<Rightarrow> bool" where
  "is_null_or None column \<longleftrightarrow> True"
| "is_null_or (Some x) column \<longleftrightarrow> column = Some x"

definition list_security_reports :: "SecurityReportFilter \<Rightarrow> security_db \<Rightarrow> security_report list result" where
  "list_security_reports f db =
     collect_results (map (row_to_report 0)
       (sql_limit (limit_i64 (case rf_limit f of Some n \<Rightarrow> n | None \<Rightarrow> default_report_limit))
         (order_desc sr_reported_at (order_desc sr_id
           (filter (\<lambda>r. is_null_or (map_option report_state_as_str (rf_state f)) (Some (sr_state r)) \<and>
                        is_null_or (map_option outcome_as_str (rf_outcome f)) (sr_outcome r))
             (db_reports db))))))"

definition list_reports_for_vulnerability :: "int \<Rightarrow> security_db \<Rightarrow> security_report list result" where
  "list_reports_for_vulnerability vulnerability_id db =
     collect_results (map (row_to_report 0)
       (order_asc (\<lambda>r. (sr_reported_at r, sr_id r))
         (filter (\<lambda>r. sr_vulnerability_id r = Some vulnerability_id) (db_reports db))))"

section \<open>Events\<close>

text \<open>\<open>= (SELECT vulnerability_id FROM security_reports WHERE id = ?1)\<close>: \<open>NULL\<close> equals nothing.\<close>

definition vulnerability_of_report :: "int \<Rightarrow> security_db \<Rightarrow> int option" where
  "vulnerability_of_report report_id db =
     (case find_by (\<lambda>r. sr_id r = report_id) (db_reports db) of
        None \<Rightarrow> None | Some r \<Rightarrow> sr_vulnerability_id r)"

definition in_timeline :: "int \<Rightarrow> security_db \<Rightarrow> event_row \<Rightarrow> bool" where
  "in_timeline report_id db e \<longleftrightarrow>
     se_report_id e = Some report_id \<or>
     (case vulnerability_of_report report_id db of
        None \<Rightarrow> False | Some v \<Rightarrow> se_vulnerability_id e = Some v)"

definition list_security_timeline :: "int \<Rightarrow> security_db \<Rightarrow> security_event list result" where
  "list_security_timeline report_id db =
     collect_results (map (row_to_event 0)
       (order_asc (\<lambda>e. (se_created_at e, se_id e)) (filter (in_timeline report_id db) (db_events db))))"

definition last_security_event ::
    "int \<Rightarrow> SecurityEventKind \<Rightarrow> security_db \<Rightarrow> security_event option result" where
  "last_security_event vulnerability_id kind db =
     (case order_desc se_created_at (order_desc se_id
             (filter (\<lambda>e. se_vulnerability_id e = Some vulnerability_id \<and>
                          se_kind e = event_kind_as_str kind) (db_events db))) of
        [] \<Rightarrow> Inr None
      | e # _ \<Rightarrow> rmap Some (row_to_event 0 e))"

text \<open>\<open>SELECT MAX(id) FROM security_events WHERE report_id = .. AND kind = ..\<close>.\<close>

definition last_confirmation :: "int \<Rightarrow> security_db \<Rightarrow> event_row option" where
  "last_confirmation report_id db =
     (case order_desc se_id
             (filter (\<lambda>e. se_report_id e = Some report_id \<and>
                          se_kind e = event_kind_as_str SecurityEventKind.AdminConfirmed) (db_events db)) of
        [] \<Rightarrow> None | e # _ \<Rightarrow> Some e)"

definition list_admin_confirmed_reports ::
    "security_db \<Rightarrow> (security_report \<times> security_event) list result" where
  "list_admin_confirmed_reports db =
     collect_results (map (\<lambda>(r, e). rbind (row_to_report 0 r) (\<lambda>report. rmap (Pair report) (row_to_event 23 e)))
       (order_asc (\<lambda>(r, e). se_id e)
         (List.map_filter (\<lambda>r. map_option (Pair r) (last_confirmation (sr_id r) db))
           (filter (\<lambda>r. sr_state r = report_state_as_str SecurityReportState.Registering) (db_reports db)))))"

definition list_security_reports_without_event ::
    "SecurityReportState \<Rightarrow> SecurityEventKind \<Rightarrow> security_db \<Rightarrow> security_report list result" where
  "list_security_reports_without_event state kind db =
     collect_results (map (row_to_report 0)
       (order_asc (\<lambda>r. (sr_reported_at r, sr_id r))
         (filter (\<lambda>r. sr_state r = report_state_as_str state \<and>
                      \<not> list_ex (\<lambda>e. se_report_id e = Some (sr_id r) \<and> se_kind e = event_kind_as_str kind)
                        (db_events db)) (db_reports db))))"

section \<open>Vulnerabilities\<close>

definition get_security_vulnerability :: "int \<Rightarrow> security_db \<Rightarrow> security_vulnerability option result" where
  "get_security_vulnerability i db = query_vulnerability i db"

definition find_security_vulnerability_by_first_report ::
    "int \<Rightarrow> security_db \<Rightarrow> security_vulnerability option result" where
  "find_security_vulnerability_by_first_report report_id db =
     (case order_asc sv_id (filter (\<lambda>v. sv_first_report_id v = report_id) (db_vulnerabilities db)) of
        [] \<Rightarrow> Inr None
      | v # _ \<Rightarrow> rmap Some (row_to_vulnerability v))"

definition list_security_vulnerability_candidates ::
    "64 word \<Rightarrow> security_db \<Rightarrow> SecurityVulnerabilityCandidate list result" where
  "list_security_vulnerability_candidates limit db =
     collect_results (map row_to_candidate
       (sql_limit (limit_i64 limit)
         (order_desc sv_created_at (order_desc sv_id (db_vulnerabilities db)))))"

definition list_security_vulnerabilities ::
    "VulnerabilityState option \<Rightarrow> security_db \<Rightarrow> security_vulnerability list result" where
  "list_security_vulnerabilities state db =
     collect_results (map row_to_vulnerability
       (order_asc (\<lambda>v. (sv_created_at v, sv_id v))
         (filter (\<lambda>v. is_null_or (map_option vulnerability_state_as_str state) (Some (sv_state v)))
           (db_vulnerabilities db))))"

section \<open>Replies and awards\<close>

definition list_reports_with_unconfirmed_replies :: "security_db \<Rightarrow> int list" where
  "list_reports_with_unconfirmed_replies db =
     order_asc id (remdups (map sp_report_id
       (filter (\<lambda>r. sp_status r = delivery_status_as_str DeliveryStatus.Unconfirmed) (db_replies db))))"

definition list_security_replies :: "int \<Rightarrow> security_db \<Rightarrow> security_reply list result" where
  "list_security_replies report_id db =
     collect_results (map row_to_reply
       (order_asc (\<lambda>r. (sp_claimed_at r, sp_id r))
         (filter (\<lambda>r. sp_report_id r = report_id) (db_replies db))))"

definition get_security_award :: "int \<Rightarrow> security_db \<Rightarrow> security_award option result" where
  "get_security_award vulnerability_id db = query_award vulnerability_id db"

definition list_security_awards :: "AwardStatus option \<Rightarrow> security_db \<Rightarrow> security_award list result" where
  "list_security_awards status db =
     collect_results (map row_to_award
       (order_asc (\<lambda>a. (sa_prepared_at a, sa_id a))
         (filter (\<lambda>a. is_null_or (map_option award_status_as_str status) (Some (sa_status a)))
           (db_awards db))))"

end
