(* ===== verification/Security_Changes.thy ===== *)
theory Security_Changes
  imports Security_Queries
begin

text \<open>
  What the store does, abstractly: the changes a method may make to the database, as a step relation, and the
  calls of the writing methods as data. Every call is a sequence of changes (\<open>security_step_changes\<close>), so an
  invariant is proved once per change.
\<close>

section \<open>Changes\<close>

definition add_event :: "EventRow \<Rightarrow> NewSecurityEvent \<Rightarrow> stamp \<Rightarrow> security_db \<Rightarrow> security_db" where
  "add_event row e t db =
     db\<lparr>db_events := db_events db @ [event_of (db_next_event db) row e t],
        db_next_event := db_next_event db + 1\<rparr>"

definition states_of :: "(string \<Rightarrow> string + 's) \<Rightarrow> string option \<Rightarrow> string option \<Rightarrow> ('s \<times> 's) option" where
  "states_of from_str a b =
     (case (a, b) of
        (Some x, Some y) \<Rightarrow>
          (case (from_str x, from_str y) of (Inr s, Inr t) \<Rightarrow> Some (s, t) | _ \<Rightarrow> None)
      | _ \<Rightarrow> None)"

text \<open>An event that records no move of the report or the vulnerability it is about, nor of an award.\<close>

definition no_move :: "EventRow \<Rightarrow> bool" where
  "no_move row \<longleftrightarrow>
     (er_report_id row \<noteq> None \<longrightarrow>
        states_of report_state_from_str (er_from_state row) (er_to_state row) = None) \<and>
     (er_vulnerability_id row \<noteq> None \<longrightarrow>
        states_of vulnerability_state_from_str (er_from_state row) (er_to_state row) = None \<and>
        states_of award_status_from_str (er_from_state row) (er_to_state row) = None)"

definition report_event :: "int \<Rightarrow> string option \<Rightarrow> string option \<Rightarrow> EventRow" where
  "report_event i a b =
     \<lparr>er_report_id = Some i, er_vulnerability_id = None, er_from_state = a, er_to_state = b\<rparr>"

definition vulnerability_event :: "int \<Rightarrow> string option \<Rightarrow> string option \<Rightarrow> EventRow" where
  "vulnerability_event i a b =
     \<lparr>er_report_id = None, er_vulnerability_id = Some i, er_from_state = a, er_to_state = b\<rparr>"

text \<open>Well-formed rows.\<close>

definition report_row_ok :: "report_row \<Rightarrow> bool" where
  "report_row_ok r \<longleftrightarrow>
     sr_state r \<in> range report_state_as_str \<and> optional_text outcome_as_str (sr_outcome r) \<and>
     0 \<le> sr_assessment_attempts r \<and> is_u32 (sr_customer_thread_count r)"

definition vulnerability_row_ok :: "vulnerability_row \<Rightarrow> bool" where
  "vulnerability_row_ok r \<longleftrightarrow>
     embedding_ok (sv_embedding r) \<and> optional_text severity_as_str (sv_severity r) \<and>
     sv_state r \<in> range vulnerability_state_as_str"

definition event_row_ok :: "event_row \<Rightarrow> bool" where
  "event_row_ok e \<longleftrightarrow> se_kind e \<in> range event_kind_as_str"

definition reply_row_ok :: "reply_row \<Rightarrow> bool" where
  "reply_row_ok r \<longleftrightarrow>
     sp_kind r \<in> range reply_kind_as_str \<and> sp_status r \<in> range delivery_status_as_str \<and>
     1 \<le> sp_attempts r \<and>
     (sp_status r = delivery_status_as_str DeliveryStatus.Sending \<longleftrightarrow> sp_completed_at r = None)"

definition award_row_ok :: "award_row \<Rightarrow> bool" where
  "award_row_ok a \<longleftrightarrow> is_u32 (sa_credits a) \<and> sa_status a \<in> range award_status_as_str"

text \<open>Updates of a row that leave its key columns alone and keep it well-formed.\<close>

definition report_update :: "security_db \<Rightarrow> (report_row \<Rightarrow> report_row) \<Rightarrow> bool" where
  "report_update db f \<longleftrightarrow>
     (\<forall>r. sr_id (f r) = sr_id r \<and> sr_source (f r) = sr_source r \<and>
          sr_conversation_id (f r) = sr_conversation_id r \<and> sr_reported_at (f r) = sr_reported_at r \<and>
          sr_reporter_email (f r) = sr_reporter_email r \<and>
          (report_row_ok r \<longrightarrow> report_row_ok (f r)) \<and>
          (references (vulnerability_exists db) (sr_vulnerability_id r) \<longrightarrow>
             references (vulnerability_exists db) (sr_vulnerability_id (f r))))"

definition vulnerability_update :: "security_db \<Rightarrow> (vulnerability_row \<Rightarrow> vulnerability_row) \<Rightarrow> bool" where
  "vulnerability_update db f \<longleftrightarrow>
     (\<forall>r. sv_id (f r) = sv_id r \<and>
          (vulnerability_row_ok r \<longrightarrow> vulnerability_row_ok (f r)) \<and>
          (report_exists db (sv_first_report_id r) \<longrightarrow> report_exists db (sv_first_report_id (f r))) \<and>
          (references (attempt_exists db) (sv_fix_attempt_id r) \<longrightarrow>
             references (attempt_exists db) (sv_fix_attempt_id (f r))))"

definition reply_update :: "(reply_row \<Rightarrow> reply_row) \<Rightarrow> bool" where
  "reply_update f \<longleftrightarrow>
     (\<forall>r. sp_id (f r) = sp_id r \<and> sp_report_id (f r) = sp_report_id r \<and> sp_kind (f r) = sp_kind r \<and>
          (reply_row_ok r \<longrightarrow> reply_row_ok (f r)))"

definition award_update :: "(award_row \<Rightarrow> award_row) \<Rightarrow> bool" where
  "award_update f \<longleftrightarrow>
     (\<forall>a. sa_id (f a) = sa_id a \<and> sa_vulnerability_id (f a) = sa_vulnerability_id a \<and>
          sa_report_id (f a) = sa_report_id a \<and> (award_row_ok a \<longrightarrow> award_row_ok (f a)))"

inductive change :: "security_db \<Rightarrow> security_db \<Rightarrow> bool" where
  report_added:
    "\<not> list_ex (is_conversation (nr_source report) (nr_conversation_id report)) (db_reports db) \<Longrightarrow>
     change db (add_event
       (report_event (db_next_report db) None (Some (report_state_as_str SecurityReportState.Received))) e t
       (db\<lparr>db_reports := db_reports db @ [report_of_new (db_next_report db) report t],
           db_next_report := db_next_report db + 1\<rparr>))"
| report_moved:
    "report_can_transition_to a b \<Longrightarrow> report_update db f \<Longrightarrow>
     \<forall>r. sr_state (f r) = report_state_as_str b \<Longrightarrow>
     list_ex (in_state sr_id sr_state i (report_state_as_str a)) (db_reports db) \<Longrightarrow>
     change db (add_event
       (report_event i (Some (report_state_as_str a)) (Some (report_state_as_str b))) e t
       (db\<lparr>db_reports := update_where (in_state sr_id sr_state i (report_state_as_str a)) f (db_reports db)\<rparr>))"
| report_edited:
    "report_update db f \<Longrightarrow> \<forall>r. sr_state (f r) = sr_state r \<Longrightarrow>
     change db (db\<lparr>db_reports := update_where p f (db_reports db)\<rparr>)"
| event_noted:
    "no_move row \<Longrightarrow> references (report_exists db) (er_report_id row) \<Longrightarrow>
     references (vulnerability_exists db) (er_vulnerability_id row) \<Longrightarrow> change db (add_event row e t db)"
| vulnerability_added:
    "vulnerability_is_initial (nv_state v) \<Longrightarrow> report_exists db (nv_first_report_id v) \<Longrightarrow>
     change db (add_event
       (vulnerability_event (db_next_vulnerability db) None (Some (vulnerability_state_as_str (nv_state v)))) e t
       (db\<lparr>db_vulnerabilities := db_vulnerabilities db @ [vulnerability_of_new (db_next_vulnerability db) v t],
           db_next_vulnerability := db_next_vulnerability db + 1\<rparr>))"
| vulnerability_moved:
    "vulnerability_can_transition_to a b \<Longrightarrow> vulnerability_update db f \<Longrightarrow>
     \<forall>r. sv_state (f r) = vulnerability_state_as_str b \<and> sv_first_report_id (f r) = sv_first_report_id r \<and>
         sv_first_reported_at (f r) = sv_first_reported_at r \<Longrightarrow>
     list_ex (in_state sv_id sv_state i (vulnerability_state_as_str a)) (db_vulnerabilities db) \<Longrightarrow>
     change db (add_event
       (vulnerability_event i (Some (vulnerability_state_as_str a)) (Some (vulnerability_state_as_str b))) e t
       (db\<lparr>db_vulnerabilities :=
         update_where (in_state sv_id sv_state i (vulnerability_state_as_str a)) f (db_vulnerabilities db)\<rparr>))"
| first_reporter_replaced:
    "report_exists db report_id \<Longrightarrow>
     change db (db\<lparr>db_vulnerabilities := update_where (replaceable db i expected report_id reported_at)
       (\<lambda>r. r\<lparr>sv_first_report_id := report_id, sv_first_reported_at := reported_at, sv_updated_at := t\<rparr>)
       (db_vulnerabilities db)\<rparr>)"
| reply_added:
    "insert_reply report_id kind t db = Inr db' \<Longrightarrow> change db db'"
| reply_changed:
    "reply_update f \<Longrightarrow> change db (db\<lparr>db_replies := update_where p f (db_replies db)\<rparr>)"
| award_added:
    "award_source i report_id db = Some report \<Longrightarrow> \<not> list_ex (is_award i) (db_awards db) \<Longrightarrow>
     sa_id a = db_next_award db \<Longrightarrow> sa_vulnerability_id a = i \<Longrightarrow> sa_report_id a = sr_id report \<Longrightarrow>
     sa_recipient_email a = sr_reporter_email report \<Longrightarrow> award_row_ok a \<Longrightarrow>
     sa_status a = award_status_as_str AwardStatus.Prepared \<Longrightarrow>
     change db (add_event (vulnerability_event i None (Some (award_status_as_str AwardStatus.Prepared))) e t
       (db\<lparr>db_awards := db_awards db @ [a], db_next_award := db_next_award db + 1\<rparr>))"
| award_moved:
    "award_can_transition_to s s' \<Longrightarrow> award_update f \<Longrightarrow>
     \<forall>a. sa_status (f a) = award_status_as_str s' \<and> sa_recipient_email (f a) = sa_recipient_email a \<Longrightarrow>
     list_ex (\<lambda>a. is_award i a \<and> sa_status a = award_status_as_str s) (db_awards db) \<Longrightarrow>
     change db (add_event
       (vulnerability_event i (Some (award_status_as_str s)) (Some (award_status_as_str s'))) e t
       (db\<lparr>db_awards :=
         update_where (\<lambda>a. is_award i a \<and> sa_status a = award_status_as_str s) f (db_awards db)\<rparr>))"
| attempts_changed:
    "change db (attempt_step c db)"

section \<open>The attempt store inside the database\<close>

lemma update_attempts_frame [simp]:
  fixes db :: security_db
  shows "db_reports (update_attempts p f db) = db_reports db"
    "db_vulnerabilities (update_attempts p f db) = db_vulnerabilities db"
    "db_events (update_attempts p f db) = db_events db" "db_replies (update_attempts p f db) = db_replies db"
    "db_awards (update_attempts p f db) = db_awards db"
    "db_next_report (update_attempts p f db) = db_next_report db"
    "db_next_vulnerability (update_attempts p f db) = db_next_vulnerability db"
    "db_next_event (update_attempts p f db) = db_next_event db"
    "db_next_reply (update_attempts p f db) = db_next_reply db"
    "db_next_award (update_attempts p f db) = db_next_award db"
  by (simp_all add: update_attempts_def)

definition same_security :: "security_db \<Rightarrow> security_db \<Rightarrow> bool" where
  "same_security db db' \<longleftrightarrow>
     db_reports db' = db_reports db \<and> db_vulnerabilities db' = db_vulnerabilities db \<and>
     db_events db' = db_events db \<and> db_replies db' = db_replies db \<and> db_awards db' = db_awards db \<and>
     db_next_report db' = db_next_report db \<and> db_next_vulnerability db' = db_next_vulnerability db \<and>
     db_next_event db' = db_next_event db \<and> db_next_reply db' = db_next_reply db \<and>
     db_next_award db' = db_next_award db \<and>
     set (map fa_id (db_attempts db)) \<subseteq> set (map fa_id (db_attempts db'))"

lemma same_security_update:
  "(\<And>r. fa_id (f r) = fa_id r) \<Longrightarrow> same_security db (update_attempts p f db)"
  by (simp add: same_security_def map_update_where del: set_map)

lemma same_security_insert: "same_security db (snd (insert_attempt mk db))"
  by (auto simp: same_security_def insert_attempt_def Let_def)

lemma same_security_refl [simp]: "same_security db db"
  by (simp add: same_security_def)

lemma same_security_trans: "same_security a b \<Longrightarrow> same_security b c \<Longrightarrow> same_security a c"
  by (auto simp: same_security_def)

lemma attempt_step_same: "same_security db (attempt_step c db)"
proof (cases c)
  case (Record_attempt now src i short labels)
  have snd_bind: "snd (bind_op m (\<lambda>_. ret ()) db) = snd (m db)" for m :: "(security_db, int) op"
    by (simp add: bind_op_def ret_def split: sum.splits prod.splits)
  show ?thesis
    by (auto simp: Record_attempt record_attempt_with_labels_def snd_bind Let_def
        intro!: same_security_update same_security_insert split: option.splits)
next
  case (Record_cascade now src i short p repo)
  then show ?thesis
    by (auto simp: record_cascade_attempt_def same_security_insert split: option.splits)
next
  case (Release_orphans now secs)
  then show ?thesis
    by (auto simp: release_orphaned_pending_attempts_def Let_def
        intro!: same_security_trans [OF same_security_update same_security_update])
qed (auto simp: attempt_operations prepare_for_retry_def Let_def intro!: same_security_update)

section \<open>Invariant\<close>

definition keys_ok :: "security_db \<Rightarrow> bool" where
  "keys_ok db \<longleftrightarrow>
     0 < db_next_report db \<and> keys_below sr_id (db_next_report db) (db_reports db) \<and>
     0 < db_next_vulnerability db \<and> keys_below sv_id (db_next_vulnerability db) (db_vulnerabilities db) \<and>
     0 < db_next_event db \<and> keys_below se_id (db_next_event db) (db_events db) \<and>
     0 < db_next_reply db \<and> keys_below sp_id (db_next_reply db) (db_replies db) \<and>
     0 < db_next_award db \<and> keys_below sa_id (db_next_award db) (db_awards db)"

definition conversation_key :: "report_row \<Rightarrow> string \<times> string" where
  "conversation_key r = (sr_source r, sr_conversation_id r)"

definition reply_key :: "reply_row \<Rightarrow> int \<times> string" where
  "reply_key r = (sp_report_id r, sp_kind r)"

definition fix_live_rows :: "reply_row list \<Rightarrow> reply_row list" where
  "fix_live_rows rows = filter (\<lambda>r. sp_kind r \<in> set fix_live_texts) rows"

definition unique_ok :: "security_db \<Rightarrow> bool" where
  "unique_ok db \<longleftrightarrow>
     distinct (map conversation_key (db_reports db)) \<and>
     distinct (map reply_key (db_replies db)) \<and>
     distinct (map sp_report_id (fix_live_rows (db_replies db))) \<and>
     distinct (map sa_vulnerability_id (db_awards db))"

definition rows_ok :: "security_db \<Rightarrow> bool" where
  "rows_ok db \<longleftrightarrow>
     list_all report_row_ok (db_reports db) \<and> list_all vulnerability_row_ok (db_vulnerabilities db) \<and>
     list_all event_row_ok (db_events db) \<and> list_all reply_row_ok (db_replies db) \<and>
     list_all award_row_ok (db_awards db)"

lemma change_keys_ok: "change db db' \<Longrightarrow> keys_ok db \<Longrightarrow> keys_ok db'"
proof (induction rule: change.induct)
  case (reply_added report_id kind t db db')
  then show ?case
    by (auto simp: insert_reply_def keys_ok_def Let_def keys_below_insert split: if_splits)
next
  case (attempts_changed db c)
  then show ?case
    using attempt_step_same [of db c] by (auto simp: keys_ok_def same_security_def)
qed (auto simp: keys_ok_def add_event_def keys_below_insert keys_below_update event_of_def report_of_new_def
    vulnerability_of_new_def report_update_def vulnerability_update_def reply_update_def award_update_def)

lemma change_unique_ok: "change db db' \<Longrightarrow> unique_ok db \<Longrightarrow> unique_ok db'"
proof (induction rule: change.induct)
  case (reply_added report_id kind t db db')
  then show ?case
    by (fastforce simp: insert_reply_def unique_ok_def Let_def reply_key_def is_reply_def fix_live_rows_def
        list_ex_iff split: if_splits)
next
  case (reply_changed f db p)
  have key: "reply_key (f r) = reply_key r" "sp_kind (f r) = sp_kind r" "sp_report_id (f r) = sp_report_id r" for r
    using reply_changed by (simp_all add: reply_update_def reply_key_def)
  then have "fix_live_rows (update_where p f rows) = update_where p f (fix_live_rows rows)" for rows
    unfolding fix_live_rows_def by (intro filter_update_where) simp
  with key reply_changed show ?case
    by (simp add: unique_ok_def map_update_where)
next
  case (attempts_changed db c)
  then show ?case
    using attempt_step_same [of db c] by (auto simp: unique_ok_def same_security_def)
next
  case (report_added report db e t)
  then show ?case
    by (auto simp: unique_ok_def add_event_def conversation_key_def report_of_new_def is_conversation_def list_ex_iff)
next
  case (award_added i report_id db report a e t)
  then show ?case
    by (auto simp: unique_ok_def add_event_def is_award_def list_ex_iff)
qed (auto simp: unique_ok_def add_event_def conversation_key_def report_update_def award_update_def map_update_where)

lemma change_rows_ok: "change db db' \<Longrightarrow> rows_ok db \<Longrightarrow> rows_ok db'"
proof (induction rule: change.induct)
  case (reply_added report_id kind t db db')
  then show ?case
    by (auto simp: insert_reply_def rows_ok_def reply_row_ok_def Let_def
        simp del: delivery_status_as_str.simps split: if_splits)
next
  case (attempts_changed db c)
  then show ?case
    using attempt_step_same [of db c] by (auto simp: rows_ok_def same_security_def)
next
  case (report_added report db e t)
  then show ?case
    by (auto simp: rows_ok_def add_event_def report_of_new_def report_row_ok_def optional_text_def
        event_row_ok_def event_of_def simp del: report_state_as_str.simps)
next
  case (vulnerability_added v db e t)
  then show ?case
    by (auto simp: rows_ok_def add_event_def vulnerability_of_new_def vulnerability_row_ok_def optional_text_def
        embedding_ok_def event_row_ok_def event_of_def split: option.splits)
next
  case (first_reporter_replaced db report_id i expected reported_at t)
  then show ?case
    by (auto simp: rows_ok_def vulnerability_row_ok_def intro!: list_all_update_where)
qed (auto simp: rows_ok_def add_event_def report_update_def vulnerability_update_def reply_update_def
    award_update_def event_row_ok_def event_of_def intro!: list_all_update_where)

definition event_refs :: "security_db \<Rightarrow> event_row \<Rightarrow> bool" where
  "event_refs db e \<longleftrightarrow>
     references (report_exists db) (se_report_id e) \<and> references (vulnerability_exists db) (se_vulnerability_id e)"

definition vulnerability_refs :: "security_db \<Rightarrow> vulnerability_row \<Rightarrow> bool" where
  "vulnerability_refs db v \<longleftrightarrow>
     report_exists db (sv_first_report_id v) \<and> references (attempt_exists db) (sv_fix_attempt_id v)"

definition award_refs :: "security_db \<Rightarrow> award_row \<Rightarrow> bool" where
  "award_refs db a \<longleftrightarrow>
     vulnerability_exists db (sa_vulnerability_id a) \<and> report_exists db (sa_report_id a)"

definition refs_ok :: "security_db \<Rightarrow> bool" where
  "refs_ok db \<longleftrightarrow>
     list_all (\<lambda>r. references (vulnerability_exists db) (sr_vulnerability_id r)) (db_reports db) \<and>
     list_all (vulnerability_refs db) (db_vulnerabilities db) \<and>
     list_all (event_refs db) (db_events db) \<and>
     list_all (\<lambda>r. report_exists db (sp_report_id r)) (db_replies db) \<and>
     list_all (award_refs db) (db_awards db)"

text \<open>Rows are never deleted, so what exists stays.\<close>

definition still_exist :: "security_db \<Rightarrow> security_db \<Rightarrow> bool" where
  "still_exist db db' \<longleftrightarrow>
     (\<forall>i. (report_exists db i \<longrightarrow> report_exists db' i) \<and> (vulnerability_exists db i \<longrightarrow> vulnerability_exists db' i) \<and>
          (attempt_exists db i \<longrightarrow> attempt_exists db' i))"

lemma report_exists_iff: "report_exists db i \<longleftrightarrow> i \<in> set (map sr_id (db_reports db))"
  by (auto simp: report_exists_def list_ex_iff)

lemma vulnerability_exists_iff: "vulnerability_exists db i \<longleftrightarrow> i \<in> set (map sv_id (db_vulnerabilities db))"
  by (auto simp: vulnerability_exists_def list_ex_iff)

lemma attempt_exists_iff: "attempt_exists db i \<longleftrightarrow> i \<in> set (map fa_id (db_attempts db))"
  by (auto simp: attempt_exists_def list_ex_iff)

lemmas exists_iff = report_exists_iff vulnerability_exists_iff attempt_exists_iff

lemma add_event_exists [simp]:
  "report_exists (add_event row e t db) = report_exists db"
  "vulnerability_exists (add_event row e t db) = vulnerability_exists db"
  "attempt_exists (add_event row e t db) = attempt_exists db"
  by (simp_all add: fun_eq_iff exists_iff add_event_def)

lemma set_add_event: "set (db_events (add_event row e t db)) = insert (event_of (db_next_event db) row e t) (set (db_events db))"
  by (simp add: add_event_def)

lemma references_mono: "references P v \<Longrightarrow> (\<And>i. P i \<Longrightarrow> Q i) \<Longrightarrow> references Q v"
  by (cases v) auto

lemma report_update_ids:
  "report_update db f \<Longrightarrow> map sr_id (update_where p f rows) = map sr_id rows"
  by (rule map_update_where) (simp add: report_update_def)

lemma vulnerability_update_ids:
  "vulnerability_update db f \<Longrightarrow> map sv_id (update_where p f rows) = map sv_id rows"
  by (rule map_update_where) (simp add: vulnerability_update_def)

lemma change_still_exist: "change db db' \<Longrightarrow> still_exist db db'"
proof (induction rule: change.induct)
  case (reply_added report_id kind t db db')
  then show ?case
    by (auto simp: insert_reply_def still_exist_def exists_iff Let_def split: if_splits)
next
  case (attempts_changed db c)
  then show ?case
    using attempt_step_same [of db c] by (auto simp: still_exist_def exists_iff same_security_def)
next
  case (first_reporter_replaced db report_id i expected reported_at t)
  then show ?case
    by (simp add: still_exist_def exists_iff map_update_where del: set_map)
qed (simp_all add: still_exist_def exists_iff add_event_def report_update_ids vulnerability_update_ids
    del: set_map)

lemma refs_mono:
  assumes "still_exist db db'"
  shows "references (vulnerability_exists db) v \<Longrightarrow> references (vulnerability_exists db') v"
    and "references (report_exists db) v \<Longrightarrow> references (report_exists db') v"
    and "references (attempt_exists db) v \<Longrightarrow> references (attempt_exists db') v"
    and "vulnerability_refs db x \<Longrightarrow> vulnerability_refs db' x" and "event_refs db e \<Longrightarrow> event_refs db' e"
    and "award_refs db a \<Longrightarrow> award_refs db' a" and "report_exists db i \<Longrightarrow> report_exists db' i"
  using assms
  by (auto simp: still_exist_def vulnerability_refs_def event_refs_def award_refs_def elim!: references_mono)

lemma refs_ok_step:
  assumes ex: "still_exist db db'" and refs: "refs_ok db"
    and new: "\<And>r. r \<in> set (db_reports db') \<Longrightarrow> r \<notin> set (db_reports db) \<Longrightarrow>
        references (vulnerability_exists db') (sr_vulnerability_id r)"
      "\<And>v. v \<in> set (db_vulnerabilities db') \<Longrightarrow> v \<notin> set (db_vulnerabilities db) \<Longrightarrow> vulnerability_refs db' v"
      "\<And>e. e \<in> set (db_events db') \<Longrightarrow> e \<notin> set (db_events db) \<Longrightarrow> event_refs db' e"
      "\<And>r. r \<in> set (db_replies db') \<Longrightarrow> r \<notin> set (db_replies db) \<Longrightarrow> report_exists db' (sp_report_id r)"
      "\<And>a. a \<in> set (db_awards db') \<Longrightarrow> a \<notin> set (db_awards db) \<Longrightarrow> award_refs db' a"
  shows "refs_ok db'"
  using refs new unfolding refs_ok_def list_all_iff by (blast intro: refs_mono [OF ex])

lemma list_ex_in_state: "list_ex (in_state key state i t) rows \<Longrightarrow> i \<in> set (map key rows)"
  by (auto simp: list_ex_iff in_state_def)

lemma award_source_exists:
  "award_source i report_id db = Some report \<Longrightarrow>
     vulnerability_exists db i \<and> report_exists db (sr_id report) \<and> sr_id report = report_id \<and>
     (\<exists>v \<in> set (db_vulnerabilities db). sv_id v = i \<and> sv_first_report_id v = report_id) \<and>
     report \<in> set (db_reports db)"
  by (fastforce simp: award_source_def exists_iff split: option.splits dest!: find_by_Some)

text \<open>Where the rows after a change come from.\<close>

lemma change_reports:
  "change db db' \<Longrightarrow> r \<in> set (db_reports db') \<Longrightarrow>
     r \<in> set (db_reports db) \<or> (\<exists>report t. r = report_of_new (db_next_report db) report t) \<or>
     (\<exists>f r0. report_update db f \<and> r0 \<in> set (db_reports db) \<and> r = f r0)"
proof (induction rule: change.induct)
  case (reply_added report_id kind t db db')
  then show ?case by (auto simp: insert_reply_def Let_def split: if_splits)
next
  case (attempts_changed db c)
  then show ?case using attempt_step_same [of db c] by (simp add: same_security_def)
qed (auto simp: add_event_def in_update_where split: if_splits)

lemma change_vulnerabilities:
  "change db db' \<Longrightarrow> v \<in> set (db_vulnerabilities db') \<Longrightarrow>
     v \<in> set (db_vulnerabilities db) \<or>
     (\<exists>n t. v = vulnerability_of_new (db_next_vulnerability db) n t \<and> report_exists db (nv_first_report_id n)) \<or>
     (\<exists>f v0. vulnerability_update db f \<and> v0 \<in> set (db_vulnerabilities db) \<and> v = f v0)"
proof (induction rule: change.induct)
  case (reply_added report_id kind t db db')
  then show ?case by (auto simp: insert_reply_def Let_def split: if_splits)
next
  case (attempts_changed db c)
  then show ?case using attempt_step_same [of db c] by (simp add: same_security_def)
next
  case (first_reporter_replaced db report_id i expected reported_at t)
  have "vulnerability_update db
      (\<lambda>r. r\<lparr>sv_first_report_id := report_id, sv_first_reported_at := reported_at, sv_updated_at := t\<rparr>)"
    using first_reporter_replaced by (auto simp: vulnerability_update_def vulnerability_row_ok_def)
  with first_reporter_replaced show ?case by (force simp: in_update_where split: if_splits)
qed (auto simp: add_event_def in_update_where split: if_splits)

lemma change_events:
  "change db db' \<Longrightarrow> refs_ok db \<Longrightarrow> e \<in> set (db_events db') \<Longrightarrow> e \<in> set (db_events db) \<or> event_refs db' e"
proof (induction rule: change.induct)
  case (reply_added report_id kind t db db')
  then show ?case by (auto simp: insert_reply_def Let_def split: if_splits)
next
  case (attempts_changed db c)
  then show ?case using attempt_step_same [of db c] by (simp add: same_security_def)
next
  case (report_moved a b db f i ev t)
  then show ?case
    using list_ex_in_state [of sr_id sr_state i "report_state_as_str a" "db_reports db"]
    by (auto simp: add_event_def event_refs_def event_of_def report_event_def exists_iff report_update_ids
        simp del: set_map)
next
  case (vulnerability_moved a b db f i ev t)
  then show ?case
    using list_ex_in_state [of sv_id sv_state i "vulnerability_state_as_str a" "db_vulnerabilities db"]
    by (auto simp: add_event_def event_refs_def event_of_def vulnerability_event_def exists_iff
        vulnerability_update_ids simp del: set_map)
next
  case (award_added i report_id db report a ev t)
  then show ?case
    using award_source_exists [of i report_id db report]
    by (auto simp: add_event_def event_refs_def event_of_def vulnerability_event_def exists_iff)
next
  case (award_moved s s' f i db ev t)
  then have "vulnerability_exists db i"
    by (auto simp: refs_ok_def list_all_iff award_refs_def list_ex_iff is_award_def)
  with award_moved show ?case
    by (auto simp: add_event_def event_refs_def event_of_def vulnerability_event_def exists_iff)
next
  case (event_noted row db ev t)
  then show ?case by (auto simp: set_add_event event_refs_def event_of_def)
qed (auto simp: add_event_def event_refs_def event_of_def report_event_def vulnerability_event_def exists_iff
    report_of_new_def vulnerability_of_new_def)

lemma change_replies:
  "change db db' \<Longrightarrow> refs_ok db \<Longrightarrow> r \<in> set (db_replies db') \<Longrightarrow> report_exists db (sp_report_id r)"
proof (induction rule: change.induct)
  case (reply_added report_id kind t db db')
  then show ?case by (auto simp: insert_reply_def Let_def refs_ok_def list_all_iff split: if_splits)
next
  case (attempts_changed db c)
  then show ?case using attempt_step_same [of db c] by (simp add: same_security_def refs_ok_def list_all_iff)
qed (auto simp: add_event_def in_update_where refs_ok_def list_all_iff reply_update_def split: if_splits)

lemma change_awards:
  "change db db' \<Longrightarrow> refs_ok db \<Longrightarrow> a \<in> set (db_awards db') \<Longrightarrow> award_refs db a"
proof (induction rule: change.induct)
  case (reply_added report_id kind t db db')
  then show ?case by (auto simp: insert_reply_def Let_def refs_ok_def list_all_iff split: if_splits)
next
  case (attempts_changed db c)
  then show ?case using attempt_step_same [of db c] by (simp add: same_security_def refs_ok_def list_all_iff)
next
  case (award_added i report_id db report b ev t)
  then show ?case
    using award_source_exists [of i report_id db report]
    by (auto simp: add_event_def refs_ok_def list_all_iff award_refs_def)
qed (auto simp: add_event_def in_update_where refs_ok_def list_all_iff award_update_def award_refs_def
    split: if_splits)

lemma change_refs_ok:
  assumes c: "change db db'" and refs: "refs_ok db"
  shows "refs_ok db'"
proof (rule refs_ok_step [OF change_still_exist [OF c] refs])
  note mono = refs_mono [OF change_still_exist [OF c]]
  show "references (vulnerability_exists db') (sr_vulnerability_id r)"
    if "r \<in> set (db_reports db')" "r \<notin> set (db_reports db)" for r
  proof -
    have "references (vulnerability_exists db) (sr_vulnerability_id r)"
      using change_reports [OF c that(1)] that(2) refs
      by (auto simp: refs_ok_def list_all_iff report_update_def report_of_new_def)
    then show ?thesis by (rule mono)
  qed
  show "vulnerability_refs db' v"
    if "v \<in> set (db_vulnerabilities db')" "v \<notin> set (db_vulnerabilities db)" for v
  proof -
    have "vulnerability_refs db v"
      using change_vulnerabilities [OF c that(1)] that(2) refs
      by (auto simp: refs_ok_def list_all_iff vulnerability_update_def vulnerability_of_new_def vulnerability_refs_def)
    then show ?thesis by (rule mono)
  qed
  show "event_refs db' e" if "e \<in> set (db_events db')" "e \<notin> set (db_events db)" for e
    using change_events [OF c refs that(1)] that(2) by blast
  show "report_exists db' (sp_report_id r)" if "r \<in> set (db_replies db')" for r
    using change_replies [OF c refs that] by (rule mono)
  show "award_refs db' a" if "a \<in> set (db_awards db')" for a
    using change_awards [OF c refs that] by (rule mono)
qed

text \<open>An award is made for the vulnerability's first report, and pins it.\<close>

definition award_pins :: "security_db \<Rightarrow> award_row \<Rightarrow> bool" where
  "award_pins db a \<longleftrightarrow>
     list_all (\<lambda>v. sv_id v = sa_vulnerability_id a \<longrightarrow> sv_first_report_id v = sa_report_id a)
       (db_vulnerabilities db)"

definition awards_pin :: "security_db \<Rightarrow> bool" where
  "awards_pin db \<longleftrightarrow> list_all (award_pins db) (db_awards db)"

lemma new_vulnerability_unawarded:
  "keys_ok db \<Longrightarrow> refs_ok db \<Longrightarrow> a \<in> set (db_awards db) \<Longrightarrow> sa_vulnerability_id a \<noteq> db_next_vulnerability db"
  by (fastforce simp: keys_ok_def refs_ok_def list_all_iff award_refs_def vulnerability_exists_iff keys_below_def)

lemma change_awards_pin:
  "change db db' \<Longrightarrow> keys_ok db \<Longrightarrow> refs_ok db \<Longrightarrow> awards_pin db \<Longrightarrow> awards_pin db'"
proof (induction rule: change.induct)
  case (reply_added report_id kind t db db')
  then show ?case
    by (auto simp: insert_reply_def awards_pin_def award_pins_def list_all_iff Let_def split: if_splits)
next
  case (attempts_changed db c)
  then show ?case
    using attempt_step_same [of db c] by (auto simp: awards_pin_def award_pins_def list_all_iff same_security_def)
next
  case (vulnerability_added v db e t)
  then have "\<forall>a \<in> set (db_awards db). sa_vulnerability_id a \<noteq> db_next_vulnerability db"
    using new_vulnerability_unawarded by blast
  with vulnerability_added(5) show ?case
    by (fastforce simp: awards_pin_def award_pins_def add_event_def list_all_iff vulnerability_of_new_def)
next
  case (vulnerability_moved a b db f i e t)
  then show ?case
    by (auto simp: awards_pin_def award_pins_def add_event_def list_all_iff in_update_where
        vulnerability_update_def split: if_splits)
next
  case (first_reporter_replaced db report_id i expected reported_at t)
  then show ?case
    by (fastforce simp: awards_pin_def award_pins_def list_all_iff in_update_where replaceable_def list_ex_iff
        split: if_splits)
next
  case (award_added i report_id db report a e t)
  then have src: "sr_id report = report_id"
      "\<exists>v \<in> set (db_vulnerabilities db). sv_id v = i \<and> sv_first_report_id v = report_id"
    using award_source_exists by blast+
  moreover have "v = w" if "v \<in> set (db_vulnerabilities db)" "w \<in> set (db_vulnerabilities db)" "sv_id v = sv_id w" for v w
    using award_added.prems(1) that keys_below_unique unfolding keys_ok_def by metis
  ultimately have "sv_first_report_id v = report_id" if "v \<in> set (db_vulnerabilities db)" "sv_id v = i" for v
    using that by metis
  with src award_added show ?case
    by (auto simp: awards_pin_def award_pins_def add_event_def list_all_iff)
next
  case (award_moved s s' f i db e t)
  then show ?case
    by (auto simp: awards_pin_def award_pins_def add_event_def list_all_iff in_update_where award_update_def
        split: if_splits)
qed (auto simp: awards_pin_def award_pins_def list_all_iff add_event_def)

section \<open>The audit trail\<close>

definition moves_of :: "(string \<Rightarrow> string + 's) \<Rightarrow> (event_row \<Rightarrow> bool) \<Rightarrow> event_row list \<Rightarrow> ('s \<times> 's) list" where
  "moves_of from_str p es =
     List.map_filter (\<lambda>e. states_of from_str (se_from_state e) (se_to_state e)) (filter p es)"

definition report_moves :: "int \<Rightarrow> event_row list \<Rightarrow> (SecurityReportState \<times> SecurityReportState) list" where
  "report_moves i = moves_of report_state_from_str (\<lambda>e. se_report_id e = Some i)"

definition vulnerability_moves :: "int \<Rightarrow> event_row list \<Rightarrow> (VulnerabilityState \<times> VulnerabilityState) list" where
  "vulnerability_moves i = moves_of vulnerability_state_from_str (\<lambda>e. se_vulnerability_id e = Some i)"

definition award_moves :: "int \<Rightarrow> event_row list \<Rightarrow> (AwardStatus \<times> AwardStatus) list" where
  "award_moves i = moves_of award_status_from_str (\<lambda>e. se_vulnerability_id e = Some i)"

definition report_audited :: "security_db \<Rightarrow> report_row \<Rightarrow> bool" where
  "report_audited db r \<longleftrightarrow>
     (case report_state_from_str (sr_state r) of
        Inr s \<Rightarrow> chain_from report_can_transition_to SecurityReportState.Received
          (report_moves (sr_id r) (db_events db)) s
      | Inl _ \<Rightarrow> False)"

definition vulnerability_audited :: "security_db \<Rightarrow> vulnerability_row \<Rightarrow> bool" where
  "vulnerability_audited db v \<longleftrightarrow>
     (case vulnerability_state_from_str (sv_state v) of
        Inr s \<Rightarrow>
          list_ex (\<lambda>s0. vulnerability_is_initial s0 \<and>
            chain_from vulnerability_can_transition_to s0 (vulnerability_moves (sv_id v) (db_events db)) s)
            vulnerability_states
      | Inl _ \<Rightarrow> False)"

definition award_audited :: "security_db \<Rightarrow> int \<Rightarrow> bool" where
  "award_audited db i \<longleftrightarrow>
     (case find_by (is_award i) (db_awards db) of
        None \<Rightarrow> award_moves i (db_events db) = []
      | Some a \<Rightarrow>
          (case award_status_from_str (sa_status a) of
             Inr s \<Rightarrow> chain_from award_can_transition_to AwardStatus.Prepared (award_moves i (db_events db)) s
           | Inl _ \<Rightarrow> False))"

lemma states_of_simps [simp]:
  "states_of f None b = None"
  "states_of report_state_from_str (Some (report_state_as_str x)) (Some (report_state_as_str y)) = Some (x, y)"
  "states_of vulnerability_state_from_str (Some (vulnerability_state_as_str v)) (Some (vulnerability_state_as_str w)) =
     Some (v, w)"
  "states_of award_status_from_str (Some (award_status_as_str s)) (Some (award_status_as_str t)) = Some (s, t)"
  by (simp_all add: states_of_def report_state_from_str_def vulnerability_state_from_str_def
      award_status_from_str_def report_state.from_as vulnerability_state.from_as award_status.from_as
      del: report_state_as_str.simps vulnerability_state_as_str.simps award_status_as_str.simps)

lemma award_text_no_vulnerability_state: "award_status_as_str s \<noteq> vulnerability_state_as_str v"
  by (cases s; cases v; simp)

lemma delivery_text_no_report_state: "delivery_status_as_str s \<noteq> report_state_as_str v"
  by (cases s; cases v; simp)

lemma states_of_others:
  "states_of award_status_from_str (Some (vulnerability_state_as_str v)) b = None"
  "states_of vulnerability_state_from_str (Some (award_status_as_str s)) b = None"
  "states_of report_state_from_str (Some (delivery_status_as_str d)) b = None"
proof -
  have "award_status_from_str (vulnerability_state_as_str v) \<noteq> Inr x" for x
    unfolding award_status_from_str_Inr using award_text_no_vulnerability_state by metis
  moreover have "vulnerability_state_from_str (award_status_as_str s) \<noteq> Inr x" for x
    unfolding vulnerability_state_from_str_Inr using award_text_no_vulnerability_state by metis
  moreover have "report_state_from_str (delivery_status_as_str d) \<noteq> Inr x" for x
    using delivery_text_no_report_state by (simp add: report_state_from_str_Inr)
  ultimately show
    "states_of award_status_from_str (Some (vulnerability_state_as_str v)) b = None"
    "states_of vulnerability_state_from_str (Some (award_status_as_str s)) b = None"
    "states_of report_state_from_str (Some (delivery_status_as_str d)) b = None"
    by (auto simp: states_of_def split: option.splits sum.splits)
qed

fun opt_list :: "'a option \<Rightarrow> 'a list" where
  "opt_list None = []"
| "opt_list (Some x) = [x]"

lemma moves_of_snoc:
  "moves_of f p (es @ [e]) =
     moves_of f p es @ (if p e then opt_list (states_of f (se_from_state e) (se_to_state e)) else [])"
  by (cases "states_of f (se_from_state e) (se_to_state e)") (simp_all add: moves_of_def map_filter_def)

lemma moves_add_event:
  "report_moves i (db_events (add_event row e t db)) =
     report_moves i (db_events db) @
       (if er_report_id row = Some i
        then opt_list (states_of report_state_from_str (er_from_state row) (er_to_state row)) else [])"
  "vulnerability_moves i (db_events (add_event row e t db)) =
     vulnerability_moves i (db_events db) @
       (if er_vulnerability_id row = Some i
        then opt_list (states_of vulnerability_state_from_str (er_from_state row) (er_to_state row)) else [])"
  "award_moves i (db_events (add_event row e t db)) =
     award_moves i (db_events db) @
       (if er_vulnerability_id row = Some i
        then opt_list (states_of award_status_from_str (er_from_state row) (er_to_state row)) else [])"
  by (simp_all add: report_moves_def vulnerability_moves_def award_moves_def add_event_def moves_of_snoc event_of_def)

lemma moves_of_unmentioned: "(\<And>e. e \<in> set es \<Longrightarrow> \<not> p e) \<Longrightarrow> moves_of f p es = []"
proof -
  assume "\<And>e. e \<in> set es \<Longrightarrow> \<not> p e"
  then have "filter p es = []" by (simp add: filter_empty_conv)
  then show ?thesis by (simp add: moves_of_def map_filter_def)
qed

lemma new_report_unmentioned:
  assumes "keys_ok db" "refs_ok db"
  shows "report_moves (db_next_report db) (db_events db) = []"
proof -
  have "se_report_id e \<noteq> Some (db_next_report db)" if "e \<in> set (db_events db)" for e
    using assms that by (fastforce simp: keys_ok_def refs_ok_def list_all_iff event_refs_def exists_iff keys_below_def)
  then show ?thesis by (simp add: report_moves_def moves_of_unmentioned)
qed

lemma new_vulnerability_unmentioned:
  assumes "keys_ok db" "refs_ok db"
  shows "vulnerability_moves (db_next_vulnerability db) (db_events db) = []"
    "award_moves (db_next_vulnerability db) (db_events db) = []"
proof -
  have "se_vulnerability_id e \<noteq> Some (db_next_vulnerability db)" if "e \<in> set (db_events db)" for e
    using assms that by (fastforce simp: keys_ok_def refs_ok_def list_all_iff event_refs_def exists_iff keys_below_def)
  then show "vulnerability_moves (db_next_vulnerability db) (db_events db) = []"
    "award_moves (db_next_vulnerability db) (db_events db) = []"
    by (simp_all add: vulnerability_moves_def award_moves_def moves_of_unmentioned)
qed

text \<open>
  A trail: the moves recorded of a row lead from an initial state to the state the row has. A change that
  moves a row extends its trail and no other's.
\<close>

definition trail :: "('s \<Rightarrow> 's \<Rightarrow> bool) \<Rightarrow> ('s \<Rightarrow> bool) \<Rightarrow> ('s \<Rightarrow> string) \<Rightarrow> ('s \<times> 's) list \<Rightarrow> string \<Rightarrow> bool" where
  "trail can initial as_str moves text \<longleftrightarrow>
     (\<exists>s0 s. text = as_str s \<and> initial s0 \<and> chain_from can s0 moves s)"

lemma trail_new: "initial s \<Longrightarrow> trail can initial as_str [] (as_str s)"
  by (auto simp: trail_def)

lemma trail_snoc:
  "trail can initial as_str moves (as_str a) \<Longrightarrow> inj as_str \<Longrightarrow> can a b \<Longrightarrow>
     trail can initial as_str (moves @ [(a, b)]) (as_str b)"
  unfolding trail_def by (metis chain_from_snoc inj_eq)

lemma trails_moved:
  assumes unique: "distinct (map key rows)" and inj: "inj as_str" and can: "can a b"
    and trails: "\<And>r. r \<in> set rows \<Longrightarrow> trail can initial as_str (m (key r)) (state r)"
    and hit: "list_ex (in_state key state i (as_str a)) rows"
    and f: "\<And>r. key (f r) = key r" "\<And>r. state (f r) = as_str b"
    and m': "\<And>j. m' j = m j @ (if j = i then [(a, b)] else [])"
    and r: "r \<in> set (update_where (in_state key state i (as_str a)) f rows)"
  shows "trail can initial as_str (m' (key r)) (state r)"
proof -
  let ?p = "in_state key state i (as_str a)"
  obtain r0 where r0: "r0 \<in> set rows" "r = (if ?p r0 then f r0 else r0)"
    using r by (auto simp: in_update_where)
  show ?thesis
  proof (cases "key r0 = i")
    case True
    obtain q where "q \<in> set rows" "?p q" using hit by (auto simp: list_ex_iff)
    moreover from this r0(1) True have "r0 = q"
      using unique by (auto simp: in_state_def distinct_map inj_on_def)
    ultimately have "state r0 = as_str a" "r = f r0" using r0(2) by (simp_all add: in_state_def)
    with trails [OF r0(1)] show ?thesis
      using True by (simp add: f m' trail_snoc inj can)
  next
    case False
    with r0 trails [OF r0(1)] show ?thesis by (simp add: in_state_def m')
  qed
qed

abbreviation report_trail :: "int \<Rightarrow> event_row list \<Rightarrow> string \<Rightarrow> bool" where
  "report_trail i es \<equiv>
     trail report_can_transition_to (\<lambda>s. s = SecurityReportState.Received) report_state_as_str (report_moves i es)"

abbreviation vulnerability_trail :: "int \<Rightarrow> event_row list \<Rightarrow> string \<Rightarrow> bool" where
  "vulnerability_trail i es \<equiv>
     trail vulnerability_can_transition_to vulnerability_is_initial vulnerability_state_as_str
       (vulnerability_moves i es)"

fun award_trail :: "award_row option \<Rightarrow> (AwardStatus \<times> AwardStatus) list \<Rightarrow> bool" where
  "award_trail None moves \<longleftrightarrow> moves = []"
| "award_trail (Some a) moves \<longleftrightarrow>
     trail award_can_transition_to (\<lambda>s. s = AwardStatus.Prepared) award_status_as_str moves (sa_status a)"

lemma in_vulnerability_states: "s \<in> set vulnerability_states"
  by (cases s) (simp_all add: vulnerability_states_def)

lemma report_audited_trail: "report_audited db r \<longleftrightarrow> report_trail (sr_id r) (db_events db) (sr_state r)"
  by (auto simp: report_audited_def trail_def report_state_from_str_Inr [symmetric] split: sum.splits)

lemma vulnerability_audited_trail:
  "vulnerability_audited db v \<longleftrightarrow> vulnerability_trail (sv_id v) (db_events db) (sv_state v)"
  by (auto simp: vulnerability_audited_def trail_def vulnerability_state_from_str_Inr [symmetric] list_ex_iff
      in_vulnerability_states split: sum.splits)

lemma award_audited_trail:
  "award_audited db i \<longleftrightarrow> award_trail (find_by (is_award i) (db_awards db)) (award_moves i (db_events db))"
proof (cases "find_by (is_award i) (db_awards db)")
  case (Some a)
  then show ?thesis
    by (auto simp: award_audited_def trail_def award_status_from_str_Inr [symmetric] split: sum.splits)
qed (simp add: award_audited_def)

lemma db_fields_add_event [simp]:
  "db_reports (add_event row e t db) = db_reports db"
  "db_vulnerabilities (add_event row e t db) = db_vulnerabilities db"
  "db_replies (add_event row e t db) = db_replies db" "db_awards (add_event row e t db) = db_awards db"
  by (simp_all add: add_event_def)

definition reports_audited :: "security_db \<Rightarrow> bool" where
  "reports_audited db \<longleftrightarrow> list_all (report_audited db) (db_reports db)"

definition vulnerabilities_audited :: "security_db \<Rightarrow> bool" where
  "vulnerabilities_audited db \<longleftrightarrow> list_all (vulnerability_audited db) (db_vulnerabilities db)"

definition awards_audited :: "security_db \<Rightarrow> bool" where
  "awards_audited db \<longleftrightarrow> (\<forall>i. award_audited db i)"

lemma texts_inj: "inj report_state_as_str" "inj vulnerability_state_as_str" "inj award_status_as_str"
  by (auto intro!: injI dest: report_state.as_str_inject [THEN iffD1] vulnerability_state.as_str_inject [THEN iffD1]
      award_status.as_str_inject [THEN iffD1] simp del: report_state_as_str.simps vulnerability_state_as_str.simps
      award_status_as_str.simps)

lemma moves_noted:
  assumes "no_move row"
  shows "report_moves i (db_events (add_event row e t db)) = report_moves i (db_events db)"
    "vulnerability_moves i (db_events (add_event row e t db)) = vulnerability_moves i (db_events db)"
    "award_moves i (db_events (add_event row e t db)) = award_moves i (db_events db)"
  using assms by (auto simp: moves_add_event no_move_def)

lemmas texts_folded = report_state_as_str.simps vulnerability_state_as_str.simps award_status_as_str.simps
  delivery_status_as_str.simps

lemma moves_report_event:
  "report_moves j (db_events (add_event (report_event i a b) e t db)) =
     report_moves j (db_events db) @ (if j = i then opt_list (states_of report_state_from_str a b) else [])"
  "vulnerability_moves j (db_events (add_event (report_event i a b) e t db)) = vulnerability_moves j (db_events db)"
  "award_moves j (db_events (add_event (report_event i a b) e t db)) = award_moves j (db_events db)"
  by (auto simp: moves_add_event report_event_def)

lemma moves_vulnerability_event:
  "vulnerability_moves j (db_events (add_event (vulnerability_event i a b) e t db)) =
     vulnerability_moves j (db_events db) @
       (if j = i then opt_list (states_of vulnerability_state_from_str a b) else [])"
  "award_moves j (db_events (add_event (vulnerability_event i a b) e t db)) =
     award_moves j (db_events db) @ (if j = i then opt_list (states_of award_status_from_str a b) else [])"
  "report_moves j (db_events (add_event (vulnerability_event i a b) e t db)) = report_moves j (db_events db)"
  by (auto simp: moves_add_event vulnerability_event_def)

lemma states_of_award_text:
  "states_of vulnerability_state_from_str (Some (award_status_as_str s)) b = None"
  "states_of award_status_from_str (Some (vulnerability_state_as_str v)) b = None"
  by (simp_all add: states_of_others)

lemmas moves_simps = moves_report_event moves_vulnerability_event states_of_award_text moves_noted

lemma change_reports_audited:
  "change db db' \<Longrightarrow> keys_ok db \<Longrightarrow> refs_ok db \<Longrightarrow> reports_audited db \<Longrightarrow> reports_audited db'"
  unfolding reports_audited_def report_audited_trail list_all_iff
proof (induction rule: change.induct)
  case (reply_added report_id kind t db db')
  then show ?case by (auto simp: insert_reply_def Let_def split: if_splits)
next
  case (attempts_changed db c)
  then show ?case using attempt_step_same [of db c] by (simp add: same_security_def)
next
  case (report_added report db e t)
  then show ?case
    by (auto simp: moves_simps new_report_unmentioned report_of_new_def trail_new simp del: texts_folded)
next
  case (report_moved a b db f i e t)
  let ?ev = "report_event i (Some (report_state_as_str a)) (Some (report_state_as_str b))"
  have "report_trail (sr_id r) (db_events (add_event ?ev e t db1)) (sr_state r)"
    if r: "r \<in> set (update_where (in_state sr_id sr_state i (report_state_as_str a)) f (db_reports db))"
      and db1: "db_events db1 = db_events db" for r db1
  proof (rule trails_moved [where key = sr_id and state = sr_state and m = "\<lambda>j. report_moves j (db_events db)"
        and rows = "db_reports db" and i = i and a = a and b = b and f = f and
        m' = "\<lambda>j. report_moves j (db_events (add_event ?ev e t db1))"])
    show "inj report_state_as_str" "report_can_transition_to a b"
      "list_ex (in_state sr_id sr_state i (report_state_as_str a)) (db_reports db)"
      "r \<in> set (update_where (in_state sr_id sr_state i (report_state_as_str a)) f (db_reports db))"
      using texts_inj report_moved r by blast+
    show "distinct (map sr_id (db_reports db))"
      using report_moved.prems(1) by (simp add: keys_ok_def keys_below_def)
    show "report_trail (sr_id r) (db_events db) (sr_state r)" if "r \<in> set (db_reports db)" for r
      using report_moved.prems(3) that by blast
    show "sr_id (f r) = sr_id r" "sr_state (f r) = report_state_as_str b" for r
      using report_moved(2,3) by (simp_all add: report_update_def)
    show "report_moves j (db_events (add_event ?ev e t db1)) =
        report_moves j (db_events db) @ (if j = i then [(a, b)] else [])" for j
      by (simp add: moves_report_event db1)
  qed
  then show ?case by simp
next
  case (report_edited db f p)
  then show ?case by (auto simp: in_update_where report_update_def)
qed (simp_all add: moves_simps del: texts_folded)

lemma change_vulnerabilities_audited:
  "change db db' \<Longrightarrow> keys_ok db \<Longrightarrow> refs_ok db \<Longrightarrow> vulnerabilities_audited db \<Longrightarrow> vulnerabilities_audited db'"
  unfolding vulnerabilities_audited_def vulnerability_audited_trail list_all_iff
proof (induction rule: change.induct)
  case (reply_added report_id kind t db db')
  then show ?case by (auto simp: insert_reply_def Let_def split: if_splits)
next
  case (attempts_changed db c)
  then show ?case using attempt_step_same [of db c] by (simp add: same_security_def)
next
  case (vulnerability_added v db e t)
  then show ?case
    by (auto simp: moves_simps new_vulnerability_unmentioned vulnerability_of_new_def trail_new simp del: texts_folded)
next
  case (vulnerability_moved a b db f i e t)
  let ?ev = "vulnerability_event i (Some (vulnerability_state_as_str a)) (Some (vulnerability_state_as_str b))"
  have "vulnerability_trail (sv_id r) (db_events (add_event ?ev e t db1)) (sv_state r)"
    if r: "r \<in> set (update_where (in_state sv_id sv_state i (vulnerability_state_as_str a)) f (db_vulnerabilities db))"
      and db1: "db_events db1 = db_events db" for r db1
  proof (rule trails_moved [where key = sv_id and state = sv_state and
        m = "\<lambda>j. vulnerability_moves j (db_events db)"
        and rows = "db_vulnerabilities db" and i = i and a = a and b = b and f = f and
        m' = "\<lambda>j. vulnerability_moves j (db_events (add_event ?ev e t db1))"])
    show "inj vulnerability_state_as_str" "vulnerability_can_transition_to a b"
      "list_ex (in_state sv_id sv_state i (vulnerability_state_as_str a)) (db_vulnerabilities db)"
      "r \<in> set (update_where (in_state sv_id sv_state i (vulnerability_state_as_str a)) f (db_vulnerabilities db))"
      using texts_inj vulnerability_moved r by blast+
    show "distinct (map sv_id (db_vulnerabilities db))"
      using vulnerability_moved.prems(1) by (simp add: keys_ok_def keys_below_def)
    show "vulnerability_trail (sv_id r) (db_events db) (sv_state r)" if "r \<in> set (db_vulnerabilities db)" for r
      using vulnerability_moved.prems(3) that by blast
    show "sv_id (f r) = sv_id r" "sv_state (f r) = vulnerability_state_as_str b" for r
      using vulnerability_moved(2,3) by (simp_all add: vulnerability_update_def)
    show "vulnerability_moves j (db_events (add_event ?ev e t db1)) =
        vulnerability_moves j (db_events db) @ (if j = i then [(a, b)] else [])" for j
      by (simp add: moves_vulnerability_event db1)
  qed
  then show ?case by (simp del: vulnerability_is_initial.simps)
next
  case (first_reporter_replaced db report_id i expected reported_at t)
  then show ?case by (auto simp: in_update_where)
qed (auto simp: moves_simps simp del: texts_folded vulnerability_is_initial.simps)

lemma change_awards_audited:
  "change db db' \<Longrightarrow> unique_ok db \<Longrightarrow> awards_audited db \<Longrightarrow> awards_audited db'"
  unfolding awards_audited_def award_audited_trail
proof (induction rule: change.induct)
  case (reply_added report_id kind t db db')
  then show ?case by (auto simp: insert_reply_def Let_def split: if_splits)
next
  case (attempts_changed db c)
  then show ?case using attempt_step_same [of db c] by (simp add: same_security_def)
next
  case (award_added i report_id db report a e t)
  have moves: "award_moves j (db_events (add_event (vulnerability_event i None x) e t db1)) = award_moves j (db_events db1)"
    for j x db1 by (simp add: moves_vulnerability_event)
  have "find_by (is_award i) (db_awards db) = None"
    using award_added(2) by (auto simp: find_by_None list_ex_iff)
  then have none: "award_moves i (db_events db) = []"
    using award_added.prems(2) by (metis award_trail.simps(1))
  have "find_by (is_award j) [a] = (if j = i then Some a else None)" for j
    using award_added(4) by (simp add: find_by_def is_award_def)
  then have found: "find_by (is_award j) (db_awards db @ [a]) =
      (if j = i then Some a else find_by (is_award j) (db_awards db))" for j
    using \<open>find_by (is_award i) (db_awards db) = None\<close> by (simp add: find_by_append split: option.split)
  show ?case
    using award_added(8) award_added.prems(2) none
    by (auto simp: found moves_vulnerability_event trail_new simp del: texts_folded)
next
  case (award_moved s s' f i db e t)
  let ?p = "\<lambda>a. is_award i a \<and> sa_status a = award_status_as_str s"
  have keep: "is_award j (f a) = is_award j a" for j a
    using award_moved(2) by (simp add: award_update_def is_award_def)
  have found: "find_by (is_award j) (update_where ?p f (db_awards db)) =
      map_option (\<lambda>r. if ?p r then f r else r) (find_by (is_award j) (db_awards db))" for j
    by (rule find_by_update_where) (simp add: keep)
  obtain q where q: "q \<in> set (db_awards db)" "?p q" using award_moved(4) by (auto simp: list_ex_iff)
  then have "find_by (is_award i) (db_awards db) = Some q"
    using award_moved.prems(1)
    by (intro find_by_unique) (auto simp: unique_ok_def is_award_def distinct_map inj_on_def)
  moreover from this have "trail award_can_transition_to (\<lambda>s. s = AwardStatus.Prepared) award_status_as_str
      (award_moves i (db_events db)) (award_status_as_str s)"
    using award_moved.prems(2) [rule_format, of i] q(2) by simp
  then have "trail award_can_transition_to (\<lambda>s. s = AwardStatus.Prepared) award_status_as_str
      (award_moves i (db_events db) @ [(s, s')]) (award_status_as_str s')"
    by (simp only: trail_snoc texts_inj award_moved(1))
  moreover have "\<not> ?p a" if "find_by (is_award j) (db_awards db) = Some a" "j \<noteq> i" for j a
    using find_by_Some [OF that(1)] that(2) by (simp add: is_award_def)
  then have "map_option (\<lambda>r. if ?p r then f r else r) (find_by (is_award j) (db_awards db)) =
      find_by (is_award j) (db_awards db)" if "j \<noteq> i" for j
    using that by (cases "find_by (is_award j) (db_awards db)") auto
  ultimately show ?case
    using award_moved.prems(2) q(2) award_moved(3)
    by (auto simp: found moves_vulnerability_event simp del: texts_folded)
qed (simp_all add: moves_simps del: texts_folded)

section \<open>All of it\<close>

definition security_ok :: "security_db \<Rightarrow> bool" where
  "security_ok db \<longleftrightarrow>
     keys_ok db \<and> unique_ok db \<and> rows_ok db \<and> refs_ok db \<and> awards_pin db \<and>
     reports_audited db \<and> vulnerabilities_audited db \<and> awards_audited db"

lemma change_security_ok: "change db db' \<Longrightarrow> security_ok db \<Longrightarrow> security_ok db'"
  by (simp add: security_ok_def change_keys_ok change_unique_ok change_rows_ok change_refs_ok change_awards_pin
      change_reports_audited change_vulnerabilities_audited change_awards_audited)

lemma changes_security_ok: "change\<^sup>*\<^sup>* db db' \<Longrightarrow> security_ok db \<Longrightarrow> security_ok db'"
  by (induction rule: rtranclp_induct) (auto intro: change_security_ok)

lemma empty_security_ok: "security_ok empty_db"
  by (simp add: security_ok_def empty_db_def keys_ok_def unique_ok_def rows_ok_def refs_ok_def awards_pin_def
      reports_audited_def vulnerabilities_audited_def awards_audited_def award_audited_def fix_live_rows_def
      award_moves_def moves_of_def map_filter_def)

end
