(* ===== verification/Security_Runs.thy ===== *)
theory Security_Runs
  imports Security_Changes
begin

text \<open>
  The calls of the writing methods of the security inbox store as data, and what any sequence of calls leads
  to. Every call is a sequence of the changes of \<open>Security_Changes\<close> (\<open>call_changes\<close>), so the invariant
  \<^const>\<open>security_ok\<close> holds of every database the store can reach.
\<close>

section \<open>Calls\<close>

datatype security_call =
    Upsert_report datetime NewSecurityReport
  | Transition_report datetime int SecurityReportState SecurityReportState SecurityReportChanges NewSecurityEvent
  | Release_stale datetime datetime int
  | Follow_up datetime int u32 u32
  | Record_event datetime "int option" "int option" NewSecurityEvent
  | Create_vulnerability datetime NewSecurityVulnerability
  | Transition_vulnerability datetime int VulnerabilityState VulnerabilityState SecurityVulnerabilityChanges
      NewSecurityEvent
  | Replace_first_reporter datetime int int int datetime
  | Claim_reply datetime int SecurityReplyKind NewSecurityEvent
  | Complete_reply datetime int SecurityReplyKind DeliveryStatus "string option" NewSecurityEvent
      "ReportTransition option"
  | Confirm_reply datetime int SecurityReplyKind bool string
  | Prepare_award datetime int int NewSecurityAward
  | Update_award datetime int "AwardStatus list" AwardStatus "string option" "string option"
  | Attempt attempt_call

fun security_step :: "security_call \<Rightarrow> security_db \<Rightarrow> security_db" where
  "security_step (Upsert_report now report) db = snd (upsert_security_report now report db)"
| "security_step (Transition_report now i a b changes e) db =
     snd (transition_security_report now i a b changes e db)"
| "security_step (Release_stale now1 now2 stale_after) db =
     snd (release_stale_security_assessments now1 now2 stale_after db)"
| "security_step (Follow_up now i old new) db = snd (record_security_follow_up now i old new db)"
| "security_step (Record_event now r v e) db = snd (record_security_event now r v e db)"
| "security_step (Create_vulnerability now v) db = snd (create_security_vulnerability now v db)"
| "security_step (Transition_vulnerability now i a b changes e) db =
     snd (transition_security_vulnerability now i a b changes e db)"
| "security_step (Replace_first_reporter now v old r at) db = snd (replace_first_reporter now v old r at db)"
| "security_step (Claim_reply now r k e) db = snd (claim_security_reply now r k e db)"
| "security_step (Complete_reply now r k s err e t) db = snd (complete_security_reply now r k s err e t db)"
| "security_step (Confirm_reply now r k d actor) db = snd (confirm_security_reply now r k d actor db)"
| "security_step (Prepare_award now v r a) db = snd (prepare_security_award now v r a db)"
| "security_step (Update_award now v es s actor note) db =
     snd (update_security_award_status now v es s actor note db)"
| "security_step (Attempt c) db = attempt_step c db"

definition run_security :: "security_call list \<Rightarrow> security_db \<Rightarrow> security_db" where
  "run_security calls db = fold security_step calls db"

section \<open>Calls are changes\<close>

lemma fold_keeps: "(\<And>g r. g \<in> set gs \<Longrightarrow> k (g r) = k r) \<Longrightarrow> k (fold id gs r) = k r"
  by (induction gs arbitrary: r) simp_all

lemma fold_holds: "(\<And>g r. g \<in> set gs \<Longrightarrow> P r \<Longrightarrow> P (g r)) \<Longrightarrow> P r \<Longrightarrow> P (fold id gs r)"
  by (induction gs arbitrary: r) simp_all

lemma in_assign: "g \<in> set (assign c set_column) \<longleftrightarrow> (\<exists>x. c = Some x \<and> g = set_column x)"
  by (auto simp: assign_def split: option.splits)

lemma report_assignments_keep [simp]:
  "sr_id (fold id (report_assignments changes) r) = sr_id r"
  "sr_source (fold id (report_assignments changes) r) = sr_source r"
  "sr_conversation_id (fold id (report_assignments changes) r) = sr_conversation_id r"
  "sr_reported_at (fold id (report_assignments changes) r) = sr_reported_at r"
  "sr_reporter_email (fold id (report_assignments changes) r) = sr_reporter_email r"
  "sr_state (fold id (report_assignments changes) r) = sr_state r"
  by (rule fold_keeps; auto simp: report_assignments_def in_assign)+

lemma report_assignments_update:
  assumes "references (vulnerability_exists db) (rc_vulnerability_id changes)"
  shows "report_update db (fold id (report_assignments changes) \<circ> sr_updated_at_update (\<lambda>_. t) \<circ>
      sr_state_update (\<lambda>_. report_state_as_str s))"
proof -
  let ?gs = "report_assignments changes"
  have ok: "report_row_ok (fold id ?gs r)" if "report_row_ok r" for r
    by (rule fold_holds [where P = report_row_ok, OF _ that])
      (auto simp: report_assignments_def in_assign report_row_ok_def optional_text_def)
  have refs: "references (vulnerability_exists db) (sr_vulnerability_id (fold id ?gs r))"
    if "references (vulnerability_exists db) (sr_vulnerability_id r)" for r
    by (rule fold_holds [where P = "\<lambda>r. references (vulnerability_exists db) (sr_vulnerability_id r)", OF _ that])
      (use assms in \<open>auto simp: report_assignments_def in_assign\<close>)
  show ?thesis
    unfolding report_update_def
    by (auto intro!: ok refs simp del: report_state_as_str.simps) (simp add: report_row_ok_def)
qed

lemma vulnerability_assignments_keep [simp]:
  "sv_id (fold id (vulnerability_assignments changes) r) = sv_id r"
  "sv_state (fold id (vulnerability_assignments changes) r) = sv_state r"
  "sv_first_report_id (fold id (vulnerability_assignments changes) r) = sv_first_report_id r"
  "sv_first_reported_at (fold id (vulnerability_assignments changes) r) = sv_first_reported_at r"
  by (rule fold_keeps; auto simp: vulnerability_assignments_def in_assign)+

lemma vulnerability_assignments_update:
  assumes "references (attempt_exists db) (vc_fix_attempt_id changes)"
  shows "vulnerability_update db (fold id (vulnerability_assignments changes) \<circ> sv_updated_at_update (\<lambda>_. t) \<circ>
      sv_state_update (\<lambda>_. vulnerability_state_as_str s))"
proof -
  let ?gs = "vulnerability_assignments changes"
  have ok: "vulnerability_row_ok (fold id ?gs r)" if "vulnerability_row_ok r" for r
    by (rule fold_holds [where P = vulnerability_row_ok, OF _ that])
      (auto simp: vulnerability_assignments_def in_assign vulnerability_row_ok_def)
  have refs: "references (attempt_exists db) (sv_fix_attempt_id (fold id ?gs r))"
    if "references (attempt_exists db) (sv_fix_attempt_id r)" for r
    by (rule fold_holds [where P = "\<lambda>r. references (attempt_exists db) (sv_fix_attempt_id r)", OF _ that])
      (use assms in \<open>auto simp: vulnerability_assignments_def in_assign\<close>)
  show ?thesis
    unfolding vulnerability_update_def
    by (auto intro!: ok refs simp del: vulnerability_state_as_str.simps) (simp add: vulnerability_row_ok_def)
qed

lemma insert_event_Inr:
  "insert_event row e t db = Inr db' \<longleftrightarrow>
     references (report_exists db) (er_report_id row) \<and>
     references (vulnerability_exists db) (er_vulnerability_id row) \<and> db' = add_event row e t db"
  by (auto simp: insert_event_def add_event_def)

lemmas event_rows = default_event_row_def report_event_def vulnerability_event_def

lemmas texts_kept = report_state_as_str.simps vulnerability_state_as_str.simps award_status_as_str.simps
  delivery_status_as_str.simps

lemma event_noted_changes:
  "er_from_state row = None \<or> (er_vulnerability_id row = None \<and>
     (\<exists>d. er_from_state row = Some (delivery_status_as_str d))) \<Longrightarrow>
   insert_event row e t db = Inr db' \<Longrightarrow> change db db'"
  unfolding insert_event_Inr
  by (auto intro!: event_noted simp: no_move_def states_of_others simp del: texts_kept)

lemma changes_intros:
  "change db db' \<Longrightarrow> change\<^sup>*\<^sup>* db db'"
  "change db db1 \<Longrightarrow> change db1 db' \<Longrightarrow> change\<^sup>*\<^sup>* db db'"
  by auto

lemmas from_transaction = transaction_preserves [where P = "change\<^sup>*\<^sup>* db" and s = db for db, OF rtranclp.rtrancl_refl]

lemma upsert_changes: "change\<^sup>*\<^sup>* db (snd (upsert_security_report now report db))"
  unfolding upsert_security_report_def
  by (rule from_transaction, use report_added [of report db] in
      \<open>auto simp: Let_def event_rows insert_event_Inr simp del: texts_kept split: if_splits option.splits\<close>)

lemma follow_up_changes: "change\<^sup>*\<^sup>* db (snd (record_security_follow_up now i old new db))"
proof (cases "new \<le> old")
  case False
  let ?hit = "\<lambda>r. sr_id r = i \<and> sr_customer_thread_count r = uint old"
  let ?f = "\<lambda>r. r\<lparr>sr_customer_thread_count := uint new, sr_updated_at := timestamp now\<rparr>"
  have "change db (db\<lparr>db_reports := update_where ?hit ?f (db_reports db)\<rparr>)"
    by (rule report_edited) (auto simp: report_update_def report_row_ok_def)
  then have "change\<^sup>*\<^sup>* db db'"
    if "insert_event (default_event_row\<lparr>er_report_id := Some i\<rparr>) e t
        (db\<lparr>db_reports := update_where ?hit ?f (db_reports db)\<rparr>) = Inr db'" for e t db'
    by (rule changes_intros(2)) (rule event_noted_changes [OF _ that], simp add: event_rows)
  with False show ?thesis
    unfolding record_security_follow_up_def
    by (simp, intro from_transaction) (auto simp: Let_def split: if_splits)
qed (simp add: record_security_follow_up_def ret_def)

lemma record_event_changes: "change\<^sup>*\<^sup>* db (snd (record_security_event now r v e db))"
proof -
  have "change\<^sup>*\<^sup>* db (snd (transaction (\<lambda>db. rbind (insert_event
      (default_event_row\<lparr>er_report_id := r, er_vulnerability_id := v\<rparr>) e (timestamp now) db) (\<lambda>db1. Inr ((), db1))) db))"
    by (rule from_transaction) (auto intro!: changes_intros(1) event_noted_changes simp: event_rows)
  then show ?thesis by (simp add: record_security_event_def fail_def)
qed

text \<open>A move that hit a row is a change with the event that reports it; one that did not leaves the store.\<close>

lemma move_report_Inr:
  assumes "move_report i transition changes t db = Inr (moved, db1)"
  shows "if moved
    then \<forall>e t'. change db (add_event (report_event i (Some (report_state_as_str (tr_from transition)))
           (Some (report_state_as_str (tr_to transition)))) e t' db1)
    else db1 = db"
proof (cases "transition_is_allowed transition")
  case True
  let ?p = "in_state sr_id sr_state i (report_state_as_str (tr_from transition))"
  have "update_where ?p f (db_reports db) = db_reports db" if "\<not> 0 < rows_affected ?p (db_reports db)" for f
    using that by (intro update_where_id) (auto simp: rows_affected_0)
  with True assms show ?thesis
    by (auto simp: move_report_def update_in_state_def rows_affected_pos list_ex_iff transition_is_allowed_def
        intro!: report_moved report_assignments_update simp del: texts_kept split: if_splits)
qed (use assms in \<open>simp add: move_report_def\<close>)

lemma transition_report_changes:
  "change\<^sup>*\<^sup>* db (snd (transition_security_report now i a b changes e db))"
proof (cases "report_can_transition_to a b")
  case True
  let ?t = "\<lparr>tr_from = a, tr_to = b\<rparr>"
  have "change db db2" if "move_report i ?t changes t db = Inr (True, db1)"
    "insert_event (default_event_row\<lparr>er_report_id := Some i, er_from_state := Some (report_state_as_str a),
       er_to_state := Some (report_state_as_str b)\<rparr>) e t' db1 = Inr db2" for t t' db1 db2
    using move_report_Inr [OF that(1)] that(2) by (simp add: insert_event_Inr event_rows del: texts_kept)
  then show ?thesis
    unfolding transition_security_report_def
    using True
    by (simp add: Let_def transition_is_allowed_def ret_def, intro from_transaction)
      (auto split: if_splits prod.splits)
qed (simp add: transition_security_report_def transition_is_allowed_def ret_def Let_def)

lemma create_vulnerability_changes: "change\<^sup>*\<^sup>* db (snd (create_security_vulnerability now v db))"
proof (cases "vulnerability_is_initial (nv_state v)")
  case True
  then show ?thesis
    unfolding create_security_vulnerability_def
    using vulnerability_added [OF True, of db]
    by (simp add: fail_def del: vulnerability_is_initial.simps, intro from_transaction)
      (auto simp: Let_def event_rows insert_event_Inr simp del: texts_kept split: if_splits option.splits)
qed (simp add: create_security_vulnerability_def fail_def)

lemma transition_vulnerability_changes:
  "change\<^sup>*\<^sup>* db (snd (transition_security_vulnerability now i a b changes e db))"
proof (cases "vulnerability_can_transition_to a b")
  case True
  then show ?thesis
    unfolding transition_security_vulnerability_def
    by (simp add: ret_def, intro from_transaction)
      (auto simp: Let_def event_rows insert_event_Inr update_in_state_def rows_affected_pos list_ex_iff
        intro!: changes_intros(1) vulnerability_moved [unfolded event_rows] vulnerability_assignments_update
        simp del: texts_kept split: if_splits)
qed (simp add: transition_security_vulnerability_def ret_def)

lemma replace_first_reporter_changes: "change\<^sup>*\<^sup>* db (snd (replace_first_reporter now i old r at db))"
proof (cases "r = old")
  case False
  have "change\<^sup>*\<^sup>* db db'"
    if "report_exists db r" and e: "insert_event (default_event_row\<lparr>er_vulnerability_id := Some i\<rparr>) e t
        (db\<lparr>db_vulnerabilities := update_where (replaceable db i old r (timestamp at))
           (\<lambda>v. v\<lparr>sv_first_report_id := r, sv_first_reported_at := timestamp at, sv_updated_at := t\<rparr>)
           (db_vulnerabilities db)\<rparr>) = Inr db'" for e t db'
    by (rule changes_intros(2) [OF first_reporter_replaced [OF that(1)]])
      (rule event_noted_changes [OF _ e], simp add: event_rows)
  with False show ?thesis
    unfolding replace_first_reporter_def
    by (simp, intro from_transaction) (auto simp: Let_def split: if_splits)
qed (simp add: replace_first_reporter_def ret_def)

lemma release_report_change:
  assumes "list_ex (in_state sr_id sr_state i (report_state_as_str SecurityReportState.Assessing)) (db_reports db)"
    and "release_report t e i db = Inr db'"
  shows "change db db'"
proof -
  let ?f = "\<lambda>r :: report_row. r\<lparr>sr_state := report_state_as_str SecurityReportState.Received,
      sr_assessment_attempts := sr_assessment_attempts r + 1, sr_updated_at := t\<rparr>"
  have "report_update db ?f"
    by (simp add: report_update_def report_row_ok_def del: report_state_as_str.simps)
  moreover have "\<forall>r. sr_state (?f r) = report_state_as_str SecurityReportState.Received" by simp
  moreover have "report_can_transition_to SecurityReportState.Assessing SecurityReportState.Received" by simp
  ultimately show ?thesis
    using assms report_moved [of SecurityReportState.Assessing SecurityReportState.Received db ?f i e t]
    by (simp add: release_report_def Let_def insert_event_Inr event_rows del: report_state_as_str.simps)
qed

lemma list_ex_update_where: "(\<And>r. p r \<Longrightarrow> P (f r) = P r) \<Longrightarrow> list_ex P (update_where p f rows) = list_ex P rows"
  by (induction rows) (auto simp: update_where_def)

lemma in_state_after_release:
  assumes "release_report t e i db = Inr db'" "j \<noteq> i"
  shows "list_ex (in_state sr_id sr_state j s) (db_reports db') \<longleftrightarrow> list_ex (in_state sr_id sr_state j s) (db_reports db)"
  using assms
  by (auto simp: release_report_def Let_def insert_event_Inr in_state_def simp del: report_state_as_str.simps
      intro!: list_ex_update_where)

lemma release_reports_changes:
  "distinct is \<Longrightarrow>
     list_all (\<lambda>i. list_ex (in_state sr_id sr_state i (report_state_as_str SecurityReportState.Assessing)) (db_reports db)) is \<Longrightarrow>
     release_reports t e is db = Inr db' \<Longrightarrow> change\<^sup>*\<^sup>* db db'"
proof (induction "is" arbitrary: db)
  case (Cons i "is")
  then obtain db1 where db1: "release_report t e i db = Inr db1" "release_reports t e is db1 = Inr db'" by auto
  have "list_all (\<lambda>j. list_ex (in_state sr_id sr_state j (report_state_as_str SecurityReportState.Assessing)) (db_reports db1)) is"
    using Cons.prems(1,2) in_state_after_release [OF db1(1)] unfolding list_all_iff
    by (metis distinct.simps(2) list.set_intros(2))
  then have "change\<^sup>*\<^sup>* db1 db'" using Cons.IH [of db1] Cons.prems(1) db1(2) by simp
  moreover have "change db db1"
    using Cons.prems(2) db1(1) by (intro release_report_change) simp_all
  ultimately show ?case by simp
qed simp

lemma stale_reports_rows:
  assumes "keys_ok db"
  shows "distinct (stale_reports cutoff db)"
    and "list_all (\<lambda>i. list_ex (in_state sr_id sr_state i (report_state_as_str SecurityReportState.Assessing)) (db_reports db))
      (stale_reports cutoff db)"
proof -
  have "distinct (map sr_id (db_reports db))" using assms by (simp add: keys_ok_def keys_below_def)
  then show "distinct (stale_reports cutoff db)"
    by (auto simp: stale_reports_def distinct_map order_asc_def intro: inj_on_subset dest: distinct_filter)
  show "list_all (\<lambda>i. list_ex (in_state sr_id sr_state i (report_state_as_str SecurityReportState.Assessing)) (db_reports db))
      (stale_reports cutoff db)"
    by (auto simp: stale_reports_def list_all_iff list_ex_iff in_state_def is_stale_def simp del: report_state_as_str.simps)
qed

lemma release_stale_changes:
  assumes "keys_ok db"
  shows "change\<^sup>*\<^sup>* db (snd (release_stale_security_assessments now1 now2 stale_after db))"
proof (cases "stale_cutoff now1 stale_after")
  case (Some cutoff)
  then show ?thesis
    unfolding release_stale_security_assessments_def
    using stale_reports_rows [OF assms, of cutoff]
    by (simp, intro from_transaction) (auto simp: Let_def intro: release_reports_changes)
qed (simp add: release_stale_security_assessments_def ret_def)

section \<open>Replies and awards\<close>

lemma claim_changes: "change\<^sup>*\<^sup>* db (snd (claim_security_reply now r k e db))"
proof -
  let ?f = "\<lambda>x :: reply_row. x\<lparr>sp_status := delivery_status_as_str DeliveryStatus.Sending,
      sp_attempts := sp_attempts x + 1, sp_claimed_at := timestamp now, sp_completed_at := None\<rparr>"
  have "reply_update ?f" by (simp add: reply_update_def reply_row_ok_def del: delivery_status_as_str.simps)
  then have reclaim: "change db (db\<lparr>db_replies := update_where p ?f (db_replies db)\<rparr>)" for p
    by (rule reply_changed)
  have noted: "change db1 db2"
    if "insert_event (default_event_row\<lparr>er_report_id := Some r,
        er_from_state := map_option delivery_status_as_str previous, er_to_state := s\<rparr>) e t db1 = Inr db2"
    for previous s t db1 db2
    by (rule event_noted_changes [OF _ that]) (cases previous; auto simp: event_rows simp del: texts_kept)
  show ?thesis
  proof (cases "query_reply r k db")
    case (Inr reply)
    then show ?thesis
      unfolding claim_security_reply_def
      by (cases reply; intro from_transaction)
        (auto simp: Let_def simp del: texts_kept split: if_splits
          intro: changes_intros(2) [OF reclaim noted [where previous = "Some DeliveryStatus.Failed", simplified]]
            changes_intros(2) [OF reply_added noted [where previous = None, simplified]])
  qed (simp add: claim_security_reply_def transaction_def)
qed

lemma completion_update:
  assumes "delivery_is_completion s"
  shows "reply_update (\<lambda>x :: reply_row. x\<lparr>sp_status := delivery_status_as_str s, sp_error := err, sp_completed_at := Some t\<rparr>)"
proof -
  have "s \<noteq> DeliveryStatus.Sending" using assms by (simp add: delivery_is_completion_def)
  then have "delivery_status_as_str s \<noteq> delivery_status_as_str DeliveryStatus.Sending"
    by (simp add: delivery_status.as_str_inject del: delivery_status_as_str.simps)
  then show ?thesis by (simp add: reply_update_def reply_row_ok_def del: delivery_status_as_str.simps)
qed

lemma complete_changes: "change\<^sup>*\<^sup>* db (snd (complete_security_reply now r k s err e t db))"
proof (cases "delivery_is_completion s")
  case True
  let ?db1 = "db\<lparr>db_replies := update_where (reply_in r k DeliveryStatus.Sending)
      (\<lambda>x. x\<lparr>sp_status := delivery_status_as_str s, sp_error := err, sp_completed_at := Some (timestamp now)\<rparr>)
      (db_replies db)\<rparr>"
  have completed: "change db ?db1" by (rule reply_changed [OF completion_update [OF True]])
  have noted: "change ?db1 db2"
    if "insert_event (default_event_row\<lparr>er_report_id := Some r,
        er_from_state := Some (delivery_status_as_str DeliveryStatus.Sending), er_to_state := x\<rparr>) e at ?db1 = Inr db2"
    for x at db2
    by (rule event_noted_changes [OF _ that]) (auto simp: event_rows simp del: texts_kept)
  have moved: "change ?db1 db3"
    if "move_report r tr no_report_changes at ?db1 = Inr (True, db2)"
      "insert_event (default_event_row\<lparr>er_report_id := Some r,
        er_from_state := Some (report_state_as_str (tr_from tr)),
        er_to_state := Some (report_state_as_str (tr_to tr))\<rparr>) e at db2 = Inr db3" for tr at db2 db3
    using move_report_Inr [OF that(1)] that(2) by (simp add: insert_event_Inr event_rows del: texts_kept)
  have unmoved: "db2 = ?db1" if "move_report r tr no_report_changes at ?db1 = Inr (False, db2)" for tr at db2
    using move_report_Inr [OF that] by simp
  show ?thesis
    unfolding complete_security_reply_def
    using True
    by (simp add: fail_def del: texts_kept, intro from_transaction)
      (auto simp: Let_def simp del: texts_kept split: if_splits option.splits
        dest!: unmoved intro: changes_intros(2) [OF completed noted] changes_intros(2) [OF completed moved])
qed (simp add: complete_security_reply_def fail_def)

lemma confirm_changes: "change\<^sup>*\<^sup>* db (snd (confirm_security_reply now r k delivered actor db))"
proof -
  have noted: "change db1 db2"
    if "insert_event (default_event_row\<lparr>er_report_id := Some r,
        er_from_state := Some (delivery_status_as_str x), er_to_state := y\<rparr>) e at db1 = Inr db2" for x y e at db1 db2
    by (rule event_noted_changes [OF _ that]) (auto simp: event_rows simp del: texts_kept)
  have "delivery_is_completion DeliveryStatus.Sent" "delivery_is_completion DeliveryStatus.Failed"
    by (simp_all add: delivery_is_completion_def)
  note completed = reply_changed [OF completion_update [OF this(1)]] reply_changed [OF completion_update [OF this(2)]]
  show ?thesis
    unfolding confirm_security_reply_def
    by (rule from_transaction)
      (auto simp: Let_def simp del: texts_kept split: if_splits intro: changes_intros(2) [OF completed(1) noted]
        changes_intros(2) [OF completed(2) noted])
qed

lemma prepare_award_changes: "change\<^sup>*\<^sup>* db (snd (prepare_security_award now v r award db))"
  unfolding prepare_security_award_def
  by (rule from_transaction)
    (auto simp: Let_def event_rows insert_event_Inr award_row_ok_def simp del: texts_kept split: option.splits if_splits
      intro!: changes_intros(1) award_added [unfolded event_rows])

lemma update_award_changes: "change\<^sup>*\<^sup>* db (snd (update_security_award_status now v es s actor note db))"
proof (cases "query_award v db")
  case (Inr found)
  have moved: "change db db'"
    if "award_can_transition_to (sa_status award) s"
      "list_ex (\<lambda>a. is_award v a \<and> sa_status a = award_status_as_str (sa_status award)) (db_awards db)"
      "insert_event (default_event_row\<lparr>er_vulnerability_id := Some v,
          er_from_state := Some (award_status_as_str (sa_status award)), er_to_state := Some (award_status_as_str s)\<rparr>)
        e t (db\<lparr>db_awards := update_where (\<lambda>a. is_award v a \<and> sa_status a = award_status_as_str (sa_status award))
          (\<lambda>a. a\<lparr>sa_status := award_status_as_str s, sa_actor := coalesce actor (sa_actor a),
             sa_note := coalesce note (sa_note a), sa_updated_at := t\<rparr>) (db_awards db)\<rparr>) = Inr db'"
    for award :: security_award and e t db'
    using that(3) award_moved [OF that(1) _ _ that(2)]
    by (auto simp: insert_event_Inr event_rows award_update_def award_row_ok_def simp del: texts_kept)
  from Inr show ?thesis
    unfolding update_security_award_status_def
    by (cases found; intro from_transaction)
      (auto simp: Let_def rows_affected_pos list_ex_iff simp del: texts_kept split: if_splits
        intro!: changes_intros(1) moved)
qed (simp add: update_security_award_status_def transaction_def)

lemma call_changes: "keys_ok db \<Longrightarrow> change\<^sup>*\<^sup>* db (security_step c db)"
  by (cases c) (auto intro: upsert_changes transition_report_changes release_stale_changes follow_up_changes
      record_event_changes create_vulnerability_changes transition_vulnerability_changes
      replace_first_reporter_changes claim_changes complete_changes confirm_changes prepare_award_changes
      update_award_changes attempts_changed)

lemma step_security_ok:
  assumes "security_ok db"
  shows "security_ok (security_step c db)"
proof -
  have "keys_ok db" using assms by (simp add: security_ok_def)
  then show ?thesis by (rule changes_security_ok [OF call_changes assms])
qed

lemma run_security_ok: "security_ok db \<Longrightarrow> security_ok (run_security calls db)"
  unfolding run_security_def by (induction calls arbitrary: db) (auto intro: step_security_ok)

lemmas reachable_ok = run_security_ok [OF empty_security_ok]

end
