(* ===== verification/Security_Guarantees.thy ===== *)
theory Security_Guarantees
  imports Security_Runs
begin

text \<open>
  What holds of the security inbox store after any sequence of calls on an empty database: the properties that
  the engine, the API and the award process rely on, each read off the invariant of \<open>Security_Changes\<close> or off
  how a change moves a row.
\<close>

section \<open>How rows evolve\<close>

text \<open>A report is never deleted and only moves along its state machine.\<close>

definition report_moves_to :: "report_row \<Rightarrow> report_row \<Rightarrow> bool" where
  "report_moves_to r r' \<longleftrightarrow>
     sr_id r' = sr_id r \<and> sr_source r' = sr_source r \<and> sr_conversation_id r' = sr_conversation_id r \<and>
     sr_reported_at r' = sr_reported_at r \<and> sr_reporter_email r' = sr_reporter_email r \<and>
     (\<exists>s s'. sr_state r = report_state_as_str s \<and> sr_state r' = report_state_as_str s' \<and>
        report_can_transition_to\<^sup>*\<^sup>* s s')"

lemma updated_row: "r \<in> set rows \<Longrightarrow> (if p r then f r else r) \<in> set (update_where p f rows)"
  by (auto simp: in_update_where)

lemma report_moves_to_refl: "sr_state r \<in> range report_state_as_str \<Longrightarrow> report_moves_to r r"
  by (auto simp: report_moves_to_def)

lemma report_moves_to_trans: "report_moves_to a b \<Longrightarrow> report_moves_to b c \<Longrightarrow> report_moves_to a c"
  unfolding report_moves_to_def
  by (metis (no_types, lifting) report_state.as_str_inject rtranclp_trans)

lemma change_moves_reports:
  "change db db' \<Longrightarrow> rows_ok db \<Longrightarrow> r \<in> set (db_reports db) \<Longrightarrow>
     \<exists>r' \<in> set (db_reports db'). report_moves_to r r'"
proof (induction rule: change.induct)
  case (reply_added report_id kind t db db')
  then show ?case
    by (auto simp: insert_reply_def Let_def rows_ok_def list_all_iff report_row_ok_def
        intro!: bexI [of _ r] report_moves_to_refl split: if_splits)
next
  case (attempts_changed db c)
  then show ?case
    using attempt_step_same [of db c]
    by (auto simp: same_security_def rows_ok_def list_all_iff report_row_ok_def intro!: bexI [of _ r] report_moves_to_refl)
next
  case (report_moved a b db f i e t)
  let ?p = "in_state sr_id sr_state i (report_state_as_str a)"
  have "report_moves_to r (if ?p r then f r else r)"
  proof (cases "?p r")
    case True
    then show ?thesis
      using report_moved(1-3)
      by (auto simp: report_moves_to_def report_update_def in_state_def simp del: report_state_as_str.simps)
  next
    case False
    then show ?thesis
      using report_moved.prems by (simp add: report_moves_to_refl rows_ok_def list_all_iff report_row_ok_def)
  qed
  moreover have "(if ?p r then f r else r) \<in> set (update_where ?p f (db_reports db))"
    by (rule updated_row [OF report_moved.prems(2)])
  ultimately show ?case by (simp del: if_split) blast
next
  case (report_edited db f p)
  then have "report_moves_to r r"
    by (simp add: report_moves_to_refl rows_ok_def list_all_iff report_row_ok_def)
  with report_edited(1,2) have "report_moves_to r (if p r then f r else r)"
    by (auto simp: report_moves_to_def report_update_def)
  moreover have "(if p r then f r else r) \<in> set (update_where p f (db_reports db))"
    by (rule updated_row [OF report_edited.prems(2)])
  ultimately show ?case by (simp del: if_split) blast
qed (auto simp: rows_ok_def list_all_iff report_row_ok_def intro!: bexI [of _ r] report_moves_to_refl)

text \<open>A vulnerability is never deleted, only moves along its state machine, and its first reporter only gets earlier.\<close>

definition vulnerability_moves_to :: "vulnerability_row \<Rightarrow> vulnerability_row \<Rightarrow> bool" where
  "vulnerability_moves_to v v' \<longleftrightarrow>
     sv_id v' = sv_id v \<and>
     (sv_first_reported_at v', sv_first_report_id v') \<le> (sv_first_reported_at v, sv_first_report_id v) \<and>
     (\<exists>s s'. sv_state v = vulnerability_state_as_str s \<and> sv_state v' = vulnerability_state_as_str s' \<and>
        vulnerability_can_transition_to\<^sup>*\<^sup>* s s')"

lemma vulnerability_moves_to_refl:
  "sv_state v \<in> range vulnerability_state_as_str \<Longrightarrow> vulnerability_moves_to v v"
  by (auto simp: vulnerability_moves_to_def)

lemma vulnerability_moves_to_trans:
  "vulnerability_moves_to a b \<Longrightarrow> vulnerability_moves_to b c \<Longrightarrow> vulnerability_moves_to a c"
  unfolding vulnerability_moves_to_def
  by (metis (no_types, lifting) order_trans rtranclp_trans vulnerability_state.as_str_inject)

lemma change_moves_vulnerabilities:
  "change db db' \<Longrightarrow> rows_ok db \<Longrightarrow> v \<in> set (db_vulnerabilities db) \<Longrightarrow>
     \<exists>v' \<in> set (db_vulnerabilities db'). vulnerability_moves_to v v'"
proof (induction rule: change.induct)
  case (reply_added report_id kind t db db')
  then show ?case
    by (auto simp: insert_reply_def Let_def rows_ok_def list_all_iff vulnerability_row_ok_def
        intro!: bexI [of _ v] vulnerability_moves_to_refl split: if_splits)
next
  case (attempts_changed db c)
  then show ?case
    using attempt_step_same [of db c]
    by (auto simp: same_security_def rows_ok_def list_all_iff vulnerability_row_ok_def
        intro!: bexI [of _ v] vulnerability_moves_to_refl)
next
  case (vulnerability_moved a b db f i e t)
  let ?p = "in_state sv_id sv_state i (vulnerability_state_as_str a)"
  have "vulnerability_moves_to v (if ?p v then f v else v)"
  proof (cases "?p v")
    case True
    then show ?thesis
      using vulnerability_moved(1-3)
      by (auto simp: vulnerability_moves_to_def vulnerability_update_def in_state_def
          simp del: vulnerability_state_as_str.simps)
  next
    case False
    then show ?thesis
      using vulnerability_moved.prems
      by (simp add: vulnerability_moves_to_refl rows_ok_def list_all_iff vulnerability_row_ok_def)
  qed
  moreover have "(if ?p v then f v else v) \<in> set (update_where ?p f (db_vulnerabilities db))"
    by (rule updated_row [OF vulnerability_moved.prems(2)])
  ultimately show ?case by (simp del: if_split) blast
next
  case (first_reporter_replaced db report_id i expected reported_at t)
  let ?p = "replaceable db i expected report_id reported_at"
  let ?f = "\<lambda>r :: vulnerability_row. r\<lparr>sv_first_report_id := report_id, sv_first_reported_at := reported_at, sv_updated_at := t\<rparr>"
  have refl: "vulnerability_moves_to v v"
    using first_reporter_replaced.prems
    by (simp add: vulnerability_moves_to_refl rows_ok_def list_all_iff vulnerability_row_ok_def)
  have "vulnerability_moves_to v (if ?p v then ?f v else v)"
  proof (cases "?p v")
    case True
    with refl show ?thesis by (auto simp: vulnerability_moves_to_def replaceable_def)
  next
    case False
    with refl show ?thesis by simp
  qed
  moreover have "(if ?p v then ?f v else v) \<in> set (update_where ?p ?f (db_vulnerabilities db))"
    by (rule updated_row [OF first_reporter_replaced.prems(2)])
  ultimately show ?case by (simp del: if_split) blast
qed (auto simp: rows_ok_def list_all_iff vulnerability_row_ok_def intro!: bexI [of _ v] vulnerability_moves_to_refl)

lemma changes_rows_ok: "change\<^sup>*\<^sup>* db db' \<Longrightarrow> rows_ok db \<Longrightarrow> rows_ok db'"
  by (induction rule: rtranclp_induct) (auto intro: change_rows_ok)

lemma changes_move_reports:
  "change\<^sup>*\<^sup>* db db' \<Longrightarrow> rows_ok db \<Longrightarrow> r \<in> set (db_reports db) \<Longrightarrow>
     \<exists>r' \<in> set (db_reports db'). report_moves_to r r'"
proof (induction rule: rtranclp_induct)
  case base
  then have "report_moves_to r r" by (intro report_moves_to_refl) (simp add: rows_ok_def list_all_iff report_row_ok_def)
  with base show ?case by blast
next
  case (step db1 db2)
  then show ?case by (meson change_moves_reports changes_rows_ok report_moves_to_trans)
qed

lemma changes_move_vulnerabilities:
  "change\<^sup>*\<^sup>* db db' \<Longrightarrow> rows_ok db \<Longrightarrow> v \<in> set (db_vulnerabilities db) \<Longrightarrow>
     \<exists>v' \<in> set (db_vulnerabilities db'). vulnerability_moves_to v v'"
proof (induction rule: rtranclp_induct)
  case base
  then have "vulnerability_moves_to v v"
    by (intro vulnerability_moves_to_refl) (simp add: rows_ok_def list_all_iff vulnerability_row_ok_def)
  with base show ?case by blast
next
  case (step db1 db2)
  then show ?case by (meson change_moves_vulnerabilities changes_rows_ok vulnerability_moves_to_trans)
qed

lemma run_changes: "security_ok db \<Longrightarrow> change\<^sup>*\<^sup>* db (run_security calls db)"
  unfolding run_security_def
proof (induction calls arbitrary: db)
  case (Cons c calls)
  then have "change\<^sup>*\<^sup>* db (security_step c db)" by (simp add: call_changes security_ok_def)
  moreover have "change\<^sup>*\<^sup>* (security_step c db) (fold security_step calls (security_step c db))"
    by (intro Cons.IH step_security_ok Cons.prems)
  ultimately show ?case by simp
qed simp

lemma reachable_rows_ok: "rows_ok (run_security calls empty_db)"
  using reachable_ok [of calls] by (simp add: security_ok_def)

lemma run_run: "change\<^sup>*\<^sup>* (run_security calls empty_db) (run_security later (run_security calls empty_db))"
  by (rule run_changes [OF reachable_ok])

section \<open>Properties of every reachable store\<close>

text \<open>
  Property C8. The audit trail is complete: in every store that calls of the writing methods can reach from an
  empty database, the state changes recorded for a report lead, each one allowed by
  \<open>SecurityReportState::can_transition_to\<close> and each starting where the one before ended, from \<open>received\<close> to
  the state the report is in.
\<close>

theorem report_audit_trail:
  "list_all (report_audited (run_security calls empty_db)) (db_reports (run_security calls empty_db))"
  using reachable_ok [of calls] by (simp add: security_ok_def reports_audited_def)

text \<open>
  Property C22. The same of a vulnerability, from a state it may start in, and of its award: without an award the
  timeline records no award move, and with one the moves lead from \<open>prepared\<close> to its status.
\<close>

theorem vulnerability_and_award_audit_trails:
  "list_all (vulnerability_audited (run_security calls empty_db)) (db_vulnerabilities (run_security calls empty_db)) \<and>
   award_audited (run_security calls empty_db) vulnerability_id"
  using reachable_ok [of calls] by (simp add: security_ok_def vulnerabilities_audited_def awards_audited_def)

text \<open>
  Property C17. An award goes to the first reporter of its vulnerability, and from then on the first reporter is
  fixed: in every reachable store the award's report is the vulnerability's first report.
\<close>

theorem award_pins_first_reporter:
  "list_all (award_pins (run_security calls empty_db)) (db_awards (run_security calls empty_db))"
  using reachable_ok [of calls] by (simp add: security_ok_def awards_pin_def)

text \<open>
  Property C23. From one reachable store to a later one every report is still there, with its conversation,
  reporter and report time unchanged, and its state was reached along the report state machine.
\<close>

theorem reports_only_move_forward:
  "list_all (\<lambda>r. list_ex (report_moves_to r) (db_reports (run_security later (run_security calls empty_db))))
     (db_reports (run_security calls empty_db))"
  using changes_move_reports [OF run_run reachable_rows_ok] by (simp add: list_all_iff list_ex_iff)

text \<open>
  From one reachable store to a later one every vulnerability is still there, its state was reached
  along the vulnerability state machine, and its first reporter is the same or an earlier one (by report time,
  then by report).
\<close>

theorem first_reporter_only_gets_earlier:
  "list_all (\<lambda>v. list_ex (vulnerability_moves_to v)
       (db_vulnerabilities (run_security later (run_security calls empty_db))))
     (db_vulnerabilities (run_security calls empty_db))"
  using changes_move_vulnerabilities [OF run_run reachable_rows_ok] by (simp add: list_all_iff list_ex_iff)

text \<open>
  A reply is \<open>sending\<close> exactly while it has no completion time, and every row the store has written
  reads back as a value, except a report whose assessment attempts or a reply whose attempts have outgrown
  \<open>u32\<close>.
\<close>

definition readable :: "'a result \<Rightarrow> bool" where
  "readable r \<longleftrightarrow> (case r of Inl e \<Rightarrow> False | Inr v \<Rightarrow> True)"

lemma readable_iff: "readable r \<longleftrightarrow> (\<exists>v. r = Inr v)"
  by (cases r) (simp_all add: readable_def)

theorem rows_read_back:
  "list_all (\<lambda>r. readable (row_to_report 0 r) = (sr_assessment_attempts r < 2 ^ 32))
     (db_reports (run_security calls empty_db)) \<and>
   list_all (\<lambda>v. readable (row_to_vulnerability v)) (db_vulnerabilities (run_security calls empty_db)) \<and>
   list_all (\<lambda>e. readable (row_to_event 0 e)) (db_events (run_security calls empty_db)) \<and>
   list_all (\<lambda>r. readable (row_to_reply r) = (sp_attempts r < 2 ^ 32) \<and>
       (sp_status r = delivery_status_as_str DeliveryStatus.Sending) = (sp_completed_at r = None))
     (db_replies (run_security calls empty_db)) \<and>
   list_all (\<lambda>a. readable (row_to_award a)) (db_awards (run_security calls empty_db))"
proof -
  define db where "db = run_security calls empty_db"
  have ok: "rows_ok db" unfolding db_def by (rule reachable_rows_ok)
  have "readable (row_to_report 0 r) = (sr_assessment_attempts r < 2 ^ 32)" if "r \<in> set (db_reports db)" for r
    using ok that unfolding readable_iff row_to_report_ok
    by (auto simp: rows_ok_def list_all_iff report_row_ok_def is_u32_def)
  moreover have "readable (row_to_vulnerability v)" if "v \<in> set (db_vulnerabilities db)" for v
    using ok that unfolding readable_iff
    by (intro row_to_vulnerability_ok) (auto simp: rows_ok_def list_all_iff vulnerability_row_ok_def)
  moreover have "readable (row_to_event 0 e)" if "e \<in> set (db_events db)" for e
    using ok that unfolding readable_iff row_to_event_ok by (auto simp: rows_ok_def list_all_iff event_row_ok_def)
  moreover have "readable (row_to_reply r) = (sp_attempts r < 2 ^ 32) \<and>
      (sp_status r = delivery_status_as_str DeliveryStatus.Sending) = (sp_completed_at r = None)"
    if "r \<in> set (db_replies db)" for r
  proof -
    have "reply_row_ok r" using ok that by (simp add: rows_ok_def list_all_iff)
    then show ?thesis unfolding readable_iff row_to_reply_ok by (auto simp: reply_row_ok_def is_u32_def)
  qed
  moreover have "readable (row_to_award a)" if "a \<in> set (db_awards db)" for a
    using ok that unfolding readable_iff row_to_award_ok by (auto simp: rows_ok_def list_all_iff award_row_ok_def)
  ultimately show ?thesis unfolding db_def [symmetric] by (simp add: list_all_iff)
qed

end
