(* ===== verification/Security_Exact.thy ===== *)
theory Security_Exact
  imports Security_Guarantees
begin

text \<open>
  What the claims, completions, transitions and releases of the security inbox store do on every branch, on any
  store calls can reach: results, errors and the rows they leave.
\<close>

section \<open>Recording a report\<close>

lemma insert_report_event:
  "insert_event (default_event_row\<lparr>er_report_id := Some i, er_from_state := a, er_to_state := b\<rparr>) e t db =
     (if i \<in> set (map sr_id (db_reports db)) then Inr (add_event (report_event i a b) e t db)
      else Inl (Database Foreign_key_failed))"
  by (simp add: insert_event_def add_event_def event_rows report_exists_iff)

definition recorded :: "datetime \<Rightarrow> NewSecurityReport \<Rightarrow> security_db \<Rightarrow> security_db" where
  "recorded now report db =
     add_event (report_event (db_next_report db) None (Some (report_state_as_str SecurityReportState.Received)))
       (new_event SecurityEventKind.Received) (timestamp now)
       (db\<lparr>db_reports := db_reports db @ [report_of_new (db_next_report db) report (timestamp now)],
           db_next_report := db_next_report db + 1\<rparr>)"

lemma report_of_new_reads: "\<exists>v. row_to_report 0 (report_of_new i report t) = Inr v"
  unfolding row_to_report_ok
  using is_u32_uint [of "nr_customer_thread_count report"]
  by (simp add: report_of_new_def optional_text_def is_u32_def del: texts_kept is_u32_uint)

lemma upsert_new:
  assumes "\<not> list_ex (is_conversation (nr_source report) (nr_conversation_id report)) (db_reports db)"
  shows "\<exists>v. row_to_report 0 (report_of_new (db_next_report db) report (timestamp now)) = Inr v \<and>
    upsert_security_report now report db = (Inr v, recorded now report db)"
proof -
  let ?row = "report_of_new (db_next_report db) report (timestamp now)"
  obtain v where v: "row_to_report 0 ?row = Inr v" using report_of_new_reads by blast
  have "find_by (\<lambda>r. sr_source r = nr_source report \<and> sr_conversation_id r = nr_conversation_id report)
      (db_reports db @ [?row]) = Some ?row"
  proof -
    have "find_by (\<lambda>r. sr_source r = nr_source report \<and> sr_conversation_id r = nr_conversation_id report) (db_reports db) = None"
      using assms by (auto simp: find_by_None list_ex_iff is_conversation_def)
    moreover have "sr_source ?row = nr_source report" "sr_conversation_id ?row = nr_conversation_id report"
      by (simp_all add: report_of_new_def)
    ultimately show ?thesis by (simp add: find_by_append) (simp add: find_by_def)
  qed
  then have "query_report_by_conversation (nr_source report) (nr_conversation_id report) (recorded now report db) = Inr (Some v)"
    by (simp add: query_report_by_conversation_def recorded_def v)
  moreover have "insert_event (default_event_row\<lparr>er_report_id := Some (db_next_report db),
        er_to_state := Some (report_state_as_str SecurityReportState.Received)\<rparr>)
      (new_event SecurityEventKind.Received) (timestamp now)
      (db\<lparr>db_reports := db_reports db @ [?row], db_next_report := db_next_report db + 1\<rparr>) = Inr (recorded now report db)"
    by (simp add: insert_event_Inr recorded_def event_rows report_exists_iff report_of_new_def del: texts_kept)
  ultimately show ?thesis
    using assms v by (simp add: upsert_security_report_def transaction_def Let_def del: texts_kept)
qed

lemma upsert_known:
  assumes "list_ex (is_conversation (nr_source report) (nr_conversation_id report)) (db_reports db)"
  shows "\<exists>r. r \<in> set (db_reports db) \<and> is_conversation (nr_source report) (nr_conversation_id report) r \<and>
    upsert_security_report now report db = (row_to_report 0 r, db)"
proof -
  obtain r where r: "find_by (is_conversation (nr_source report) (nr_conversation_id report)) (db_reports db) = Some r"
    using assms by (metis find_by_None list_ex_iff not_None_eq)
  moreover have "(\<lambda>r. sr_source r = nr_source report \<and> sr_conversation_id r = nr_conversation_id report) =
      is_conversation (nr_source report) (nr_conversation_id report)"
    by (auto simp: is_conversation_def)
  ultimately have "query_report_by_conversation (nr_source report) (nr_conversation_id report) db =
      rmap Some (row_to_report 0 r)"
    by (simp add: query_report_by_conversation_def)
  then have "upsert_security_report now report db = (row_to_report 0 r, db)"
    using assms by (cases "row_to_report 0 r :: security_report result")
      (simp_all add: upsert_security_report_def transaction_def Let_def del: texts_kept)
  with find_by_Some [OF r] show ?thesis by blast
qed

section \<open>Transitions\<close>

lemma rows_affected_in_state:
  "0 < rows_affected (in_state key state i s) rows \<longleftrightarrow> list_ex (in_state key state i s) rows"
  by (auto simp: rows_affected_pos list_ex_iff)

lemma in_state_exists:
  "list_ex (in_state sr_id sr_state i s) (db_reports db) \<Longrightarrow> i \<in> set (map sr_id (db_reports db))"
  by (auto simp: list_ex_iff in_state_def)

lemma add_event_frame [simp]:
  "report_exists (db\<lparr>db_replies := x\<rparr>) i = report_exists db i"
  "vulnerability_exists (db\<lparr>db_replies := x\<rparr>) i = vulnerability_exists db i"
  "vulnerability_exists (db\<lparr>db_reports := y\<rparr>) i = vulnerability_exists db i"
  by (simp_all add: exists_iff)

definition moved_rows ::
    "int \<Rightarrow> SecurityReportState \<Rightarrow> SecurityReportState \<Rightarrow> SecurityReportChanges \<Rightarrow> stamp \<Rightarrow> report_row list \<Rightarrow> report_row list" where
  "moved_rows i a b changes t rows =
     update_where (in_state sr_id sr_state i (report_state_as_str a))
       (\<lambda>r. fold id (report_assignments changes) (r\<lparr>sr_state := report_state_as_str b, sr_updated_at := t\<rparr>)) rows"

lemma moved_rows_ids: "map sr_id (moved_rows i a b changes t rows) = map sr_id rows"
  unfolding moved_rows_def by (rule map_update_where) simp

lemma move_report_exact:
  "move_report i tr changes t db =
     (if \<not> transition_is_allowed tr \<or>
         \<not> list_ex (in_state sr_id sr_state i (report_state_as_str (tr_from tr))) (db_reports db)
      then Inr (False, db)
      else if \<not> references (vulnerability_exists db) (rc_vulnerability_id changes)
      then Inl (Database Foreign_key_failed)
      else Inr (True, db\<lparr>db_reports := moved_rows i (tr_from tr) (tr_to tr) changes t (db_reports db)\<rparr>))"
proof (cases "list_ex (in_state sr_id sr_state i (report_state_as_str (tr_from tr))) (db_reports db)")
  case False
  then have "update_where (in_state sr_id sr_state i (report_state_as_str (tr_from tr))) f (db_reports db) = db_reports db" for f
    by (intro update_where_id) (auto simp: list_ex_iff)
  with False show ?thesis
    by (simp add: move_report_def update_in_state_def rows_affected_in_state del: texts_kept)
next
  case True
  then show ?thesis
    by (simp add: move_report_def update_in_state_def rows_affected_in_state moved_rows_def comp_def del: texts_kept)
qed

lemma transition_exact:
  "transition_security_report now i a b changes e db =
     (if report_can_transition_to a b \<and>
         list_ex (in_state sr_id sr_state i (report_state_as_str a)) (db_reports db)
      then
        if references (vulnerability_exists db) (rc_vulnerability_id changes)
        then (Inr True,
              add_event (report_event i (Some (report_state_as_str a)) (Some (report_state_as_str b))) e (timestamp now)
                (db\<lparr>db_reports := moved_rows i a b changes (timestamp now) (db_reports db)\<rparr>))
        else (Inl (Database Foreign_key_failed), db)
      else (Inr False, db))"
proof (cases "report_can_transition_to a b \<and>
    list_ex (in_state sr_id sr_state i (report_state_as_str a)) (db_reports db)")
  case True
  then have "i \<in> set (map sr_id (db_reports db))" using in_state_exists by blast
  with True show ?thesis
    by (simp add: transition_security_report_def Let_def transition_is_allowed_def transaction_def move_report_exact
        insert_report_event moved_rows_ids del: texts_kept set_map)
next
  case False
  then show ?thesis
    by (auto simp: transition_security_report_def Let_def transition_is_allowed_def transaction_def move_report_exact
        ret_def simp del: texts_kept)
qed

text \<open>
  Transitioning a report is a compare-and-swap: it reports true exactly when the state machine allows
  the move and the report is in the expected state; then the row takes the new state and the changes, and one
  event records the move. A change that names a vulnerability that does not exist fails and leaves the store as it
  was, as does every other outcome.
\<close>

theorem transition_is_compare_and_swap:
  "transition_security_report now i a b changes e db =
     (if report_can_transition_to a b \<and>
         list_ex (in_state sr_id sr_state i (report_state_as_str a)) (db_reports db)
      then
        if references (vulnerability_exists db) (rc_vulnerability_id changes)
        then (Inr True,
              add_event (report_event i (Some (report_state_as_str a)) (Some (report_state_as_str b))) e (timestamp now)
                (db\<lparr>db_reports := moved_rows i a b changes (timestamp now) (db_reports db)\<rparr>))
        else (Inl (Database Foreign_key_failed), db)
      else (Inr False, db))"
  by (rule transition_exact)

section \<open>Releasing stale assessments\<close>

definition released :: "stamp \<Rightarrow> report_row \<Rightarrow> report_row" where
  "released t r = r\<lparr>sr_state := report_state_as_str SecurityReportState.Received,
     sr_assessment_attempts := sr_assessment_attempts r + 1, sr_updated_at := t\<rparr>"

abbreviation assessing :: "report_row \<Rightarrow> bool" where
  "assessing r \<equiv> sr_state r = report_state_as_str SecurityReportState.Assessing"

lemma released_simps [simp]:
  "sr_id (released t r) = sr_id r" "\<not> assessing (released t r)"
  by (simp_all add: released_def)

lemma release_report_exact:
  "i \<in> set (map sr_id (db_reports db)) \<Longrightarrow>
     release_report t e i db =
       Inr (add_event (report_event i (Some (report_state_as_str SecurityReportState.Assessing))
              (Some (report_state_as_str SecurityReportState.Received))) e t
           (db\<lparr>db_reports := update_where (\<lambda>r. assessing r \<and> sr_id r = i) (released t) (db_reports db)\<rparr>))"
proof -
  assume i: "i \<in> set (map sr_id (db_reports db))"
  have "map sr_id (update_where p (released t) (db_reports db)) = map sr_id (db_reports db)" for p
    by (rule map_update_where) simp
  moreover have "in_state sr_id sr_state i (report_state_as_str SecurityReportState.Assessing) =
      (\<lambda>r. assessing r \<and> sr_id r = i)"
    by (auto simp: in_state_def simp del: texts_kept)
  moreover have "(\<lambda>r. r\<lparr>sr_state := report_state_as_str SecurityReportState.Received,
      sr_assessment_attempts := sr_assessment_attempts r + 1, sr_updated_at := t\<rparr>) = released t"
    by (simp add: released_def fun_eq_iff)
  ultimately show ?thesis
    using i by (simp add: release_report_def Let_def insert_report_event del: texts_kept set_map)
qed

lemma release_reports_exact:
  "set is \<subseteq> set (map sr_id (db_reports db)) \<Longrightarrow>
     \<exists>db'. release_reports t e is db = Inr db' \<and>
       db_reports db' = update_where (\<lambda>r. assessing r \<and> sr_id r \<in> set is) (released t) (db_reports db) \<and>
       length (db_events db') = length (db_events db) + length is"
proof (induction "is" arbitrary: db)
  case Nil
  then show ?case by (simp add: update_where_id del: texts_kept)
next
  case (Cons i "is")
  let ?db1 = "add_event (report_event i (Some (report_state_as_str SecurityReportState.Assessing))
      (Some (report_state_as_str SecurityReportState.Received))) e t
    (db\<lparr>db_reports := update_where (\<lambda>r. assessing r \<and> sr_id r = i) (released t) (db_reports db)\<rparr>)"
  have ids: "map sr_id (update_where p (released t) (db_reports db)) = map sr_id (db_reports db)" for p
    by (rule map_update_where) simp
  have "set is \<subseteq> set (map sr_id (db_reports ?db1))"
    using Cons.prems by (simp add: ids del: set_map texts_kept)
  from Cons.IH [OF this] obtain db' where db':
    "release_reports t e is ?db1 = Inr db'"
    "db_reports db' = update_where (\<lambda>r. assessing r \<and> sr_id r \<in> set is) (released t) (db_reports ?db1)"
    "length (db_events db') = length (db_events ?db1) + length is" by blast
  have "update_where (\<lambda>r. assessing r \<and> sr_id r \<in> set is) (released t)
      (update_where (\<lambda>r. assessing r \<and> sr_id r = i) (released t) rows) =
    update_where (\<lambda>r. assessing r \<and> sr_id r \<in> set (i # is)) (released t) rows" for rows
    using released_simps(2) by (auto simp: update_where_def simp del: texts_kept)
  with db' Cons.prems show ?case
    by (simp add: release_report_exact add_event_def del: texts_kept set_map)
qed

lemma stale_by_id:
  assumes keys: "keys_ok db" and r: "r \<in> set (db_reports db)"
  shows "assessing r \<and> sr_id r \<in> set (stale_reports cutoff db) \<longleftrightarrow> is_stale (timestamp cutoff) r"
proof -
  have "r' = r" if "r' \<in> set (db_reports db)" "sr_id r' = sr_id r" for r'
    using keys that r keys_below_unique unfolding keys_ok_def by metis
  then show ?thesis
    using r by (auto simp: stale_reports_def is_stale_def simp del: texts_kept)
qed

lemma release_stale_rows:
  assumes keys: "keys_ok db" and cutoff: "stale_cutoff now1 stale_after = Some cutoff"
  shows "\<exists>db'. release_stale_security_assessments now1 now2 stale_after db =
        (Inr (rows_affected (is_stale (timestamp cutoff)) (db_reports db)), db') \<and>
      db_reports db' = update_where (is_stale (timestamp cutoff)) (released (timestamp now2)) (db_reports db) \<and>
      length (db_events db') = length (db_events db) + rows_affected (is_stale (timestamp cutoff)) (db_reports db)"
proof -
  let ?stale = "stale_reports cutoff db"
  have "set ?stale \<subseteq> set (map sr_id (db_reports db))" by (auto simp: stale_reports_def)
  then obtain db' where db':
    "release_reports (timestamp now2) (released_event stale_after) ?stale db = Inr db'"
    "db_reports db' = update_where (\<lambda>r. assessing r \<and> sr_id r \<in> set ?stale) (released (timestamp now2)) (db_reports db)"
    "length (db_events db') = length (db_events db) + length ?stale"
    using release_reports_exact by blast
  have "update_where (\<lambda>r. assessing r \<and> sr_id r \<in> set ?stale) (released (timestamp now2)) (db_reports db) =
      update_where (is_stale (timestamp cutoff)) (released (timestamp now2)) (db_reports db)"
    unfolding update_where_def using stale_by_id [OF keys, of _ cutoff] by (intro map_cong) simp_all
  moreover have "length ?stale = rows_affected (is_stale (timestamp cutoff)) (db_reports db)"
    by (simp add: stale_reports_def rows_affected_def order_asc_def)
  ultimately show ?thesis
    using db' cutoff by (simp add: release_stale_security_assessments_def transaction_def Let_def)
qed

text \<open>
  Releasing stale assessments never fails on a reachable store: it puts exactly the reports that are
  being assessed and were last updated before the cutoff back to \<open>received\<close>, each with one more assessment
  attempt and one event, leaves every other report as it was, and returns how many it released. Without a
  representable cutoff it does nothing.
\<close>

theorem release_stale_exact:
  "let db = run_security calls empty_db;
       (result, db') = release_stale_security_assessments now1 now2 stale_after db
   in case stale_cutoff now1 stale_after of
        None \<Rightarrow> result = Inr 0 \<and> db' = db
      | Some cutoff \<Rightarrow>
          (let stale = is_stale (timestamp cutoff) in
           result = Inr (rows_affected stale (db_reports db)) \<and>
           db_reports db' = update_where stale (released (timestamp now2)) (db_reports db) \<and>
           length (db_events db') = length (db_events db) + rows_affected stale (db_reports db))"
proof (cases "stale_cutoff now1 stale_after")
  case None
  then show ?thesis by (simp add: release_stale_security_assessments_def ret_def)
next
  case (Some cutoff)
  have "keys_ok (run_security calls empty_db)"
    using reachable_ok [of calls] by (simp add: security_ok_def)
  from release_stale_rows [OF this Some, of now2] Some show ?thesis by (auto simp: Let_def)
qed

section \<open>Claims and completions\<close>

definition in_flight :: "int \<Rightarrow> SecurityReplyKind \<Rightarrow> security_db \<Rightarrow> bool" where
  "in_flight r k db \<longleftrightarrow> list_ex (reply_in r k DeliveryStatus.Sending) (db_replies db)"

definition claimed_row :: "int \<Rightarrow> int \<Rightarrow> SecurityReplyKind \<Rightarrow> stamp \<Rightarrow> reply_row" where
  "claimed_row i r k t =
     \<lparr>sp_id = i, sp_report_id = r, sp_kind = reply_kind_as_str k,
      sp_status = delivery_status_as_str DeliveryStatus.Sending, sp_error = None, sp_attempts = 1,
      sp_claimed_at = t, sp_completed_at = None\<rparr>"

definition reclaimed :: "stamp \<Rightarrow> reply_row \<Rightarrow> reply_row" where
  "reclaimed t x = x\<lparr>sp_status := delivery_status_as_str DeliveryStatus.Sending,
     sp_attempts := sp_attempts x + 1, sp_claimed_at := t, sp_completed_at := None\<rparr>"

lemma is_reply_query: "(\<lambda>x. sp_report_id x = r \<and> sp_kind x = reply_kind_as_str k) = is_reply r k"
  by (simp add: is_reply_def fun_eq_iff)

lemma query_reply_result:
  assumes "rows_ok db"
  shows "query_reply r k db =
    (case find_by (is_reply r k) (db_replies db) of
       None \<Rightarrow> Inr None
     | Some x \<Rightarrow> if sp_attempts x < 2 ^ 32 then rmap Some (row_to_reply x)
                 else Inl (Database (Integral_out_of_range 5)))"
proof (cases "find_by (is_reply r k) (db_replies db)")
  case (Some x)
  then have "reply_row_ok x" using assms find_by_Some [OF Some] by (simp add: rows_ok_def list_all_iff)
  then obtain k' s' where "sp_kind x = reply_kind_as_str k'" "sp_status x = delivery_status_as_str s'" "1 \<le> sp_attempts x"
    by (auto simp: reply_row_ok_def)
  with Some show ?thesis
    unfolding query_reply_def is_reply_query
    by (simp add: row_to_reply_def parse_enum.simps reply_kind_from_str_Inr [THEN iffD2]
        delivery_status_from_str_Inr [THEN iffD2] read_u32_def del: texts_kept reply_kind_as_str.simps)
qed (simp add: query_reply_def is_reply_query)

lemma row_to_reply_status:
  "reply_row_ok x \<Longrightarrow> sp_attempts x < 2 ^ 32 \<Longrightarrow>
     \<exists>y s. row_to_reply x = Inr y \<and> sp_status y = s \<and> sp_status x = delivery_status_as_str s"
  using row_to_reply_ok [of x] row_to_reply_fields [of x]
  by (fastforce simp: reply_row_ok_def is_u32_def)

lemma insert_reply_exact:
  assumes "\<not> has_other_fix_live_reply r k db" "\<not> list_ex (is_reply r k) (db_replies db)"
  shows "insert_reply r k t db =
    (if report_exists db r
     then Inr (db\<lparr>db_replies := db_replies db @ [claimed_row (db_next_reply db) r k t],
                  db_next_reply := db_next_reply db + 1\<rparr>)
     else Inl (Database Foreign_key_failed))"
proof -
  have "\<not> (reply_kind_as_str k \<in> set fix_live_texts \<and>
      list_ex (\<lambda>x. sp_report_id x = r \<and> sp_kind x \<in> set fix_live_texts) (db_replies db))"
    using assms
    by (cases k) (auto simp: has_other_fix_live_reply_def is_fix_live_def Let_def list_ex_iff is_reply_def
        fix_live_texts_def reply_kind_all_def)
  with assms(2) show ?thesis
    by (auto simp: insert_reply_def Let_def claimed_row_def simp del: texts_kept reply_kind_as_str.simps)
qed

lemma find_reply_unique:
  assumes "unique_ok db" "find_by (is_reply r k) (db_replies db) = Some x" "y \<in> set (db_replies db)" "is_reply r k y"
  shows "y = x"
proof -
  have "x \<in> set (db_replies db)" "is_reply r k x" using find_by_Some [OF assms(2)] by auto
  with assms(1,3,4) show ?thesis
    by (auto simp: unique_ok_def reply_key_def is_reply_def distinct_map inj_on_def)
qed

lemma update_reply_in:
  assumes "unique_ok db" "find_by (is_reply r k) (db_replies db) = Some x" "sp_status x = delivery_status_as_str s"
  shows "update_where (reply_in r k s) f (db_replies db) = update_where (is_reply r k) f (db_replies db)"
  unfolding update_where_def reply_in_def
  using find_reply_unique [OF assms(1,2)] assms(3) by (intro map_cong) auto

definition claim_spec ::
    "datetime \<Rightarrow> int \<Rightarrow> SecurityReplyKind \<Rightarrow> security_db \<Rightarrow> bool result \<times> reply_row list" where
  "claim_spec now r k db =
     (if has_other_fix_live_reply r k db then (Inr False, db_replies db)
      else
        (case find_by (is_reply r k) (db_replies db) of
           None \<Rightarrow>
             if report_exists db r
             then (Inr True, db_replies db @ [claimed_row (db_next_reply db) r k (timestamp now)])
             else (Inl (Database Foreign_key_failed), db_replies db)
         | Some x \<Rightarrow>
             if \<not> sp_attempts x < 2 ^ 32 then (Inl (Database (Integral_out_of_range 5)), db_replies db)
             else if sp_status x = delivery_status_as_str DeliveryStatus.Failed
             then (Inr True, update_where (is_reply r k) (reclaimed (timestamp now)) (db_replies db))
             else (Inr False, db_replies db)))"

lemma claim_exact:
  assumes ok: "security_ok db"
  shows "(fst (claim_security_reply now r k e db), db_replies (snd (claim_security_reply now r k e db))) =
    claim_spec now r k db"
proof (cases "has_other_fix_live_reply r k db")
  case True
  then show ?thesis by (simp add: claim_security_reply_def claim_spec_def transaction_def)
next
  case other: False
  have ok': "rows_ok db" "unique_ok db" "refs_ok db" using ok by (simp_all add: security_ok_def)
  show ?thesis
  proof (cases "find_by (is_reply r k) (db_replies db)")
    case None
    then have "\<not> list_ex (is_reply r k) (db_replies db)" by (auto simp: find_by_None list_ex_iff)
    then show ?thesis
      using other None
      by (simp add: claim_security_reply_def claim_spec_def transaction_def query_reply_result [OF ok'(1)]
          insert_reply_exact Let_def insert_report_event report_exists_iff del: texts_kept set_map)
  next
    case (Some x)
    note x = find_by_Some [OF Some]
    have row: "reply_row_ok x" using ok'(1) x by (simp add: rows_ok_def list_all_iff)
    have "report_exists db r" using ok'(3) x by (auto simp: refs_ok_def list_all_iff is_reply_def)
    then have r: "r \<in> set (map sr_id (db_reports db))" by (simp add: report_exists_iff)
    show ?thesis
    proof (cases "sp_attempts x < 2 ^ 32")
      case False
      with Some other show ?thesis
        by (simp add: claim_security_reply_def claim_spec_def transaction_def query_reply_result [OF ok'(1)])
    next
      case True
      then obtain y s where y: "row_to_reply x = Inr y" "sp_status y = s" "sp_status x = delivery_status_as_str s"
        using row_to_reply_status [OF row] by blast
      have same: "delivery_status_as_str s = delivery_status_as_str DeliveryStatus.Failed \<longleftrightarrow> s = DeliveryStatus.Failed"
        by (rule delivery_status.as_str_inject)
      show ?thesis
        using Some other True y r same update_reply_in [OF ok'(2) Some]
        by (cases "s = DeliveryStatus.Failed")
          (simp_all add: claim_security_reply_def claim_spec_def transaction_def query_reply_result [OF ok'(1)]
            Let_def insert_report_event reclaimed_def [abs_def] del: texts_kept set_map)
    qed
  qed
qed

text \<open>
  Property C24. What claiming a reply does on every branch, on a reachable store: it is refused while the other
  fix-live reply exists, or while this one exists with any status but \<open>failed\<close>; otherwise it succeeds with the
  reply \<open>sending\<close>, as a new row with one attempt or as the failed row with one attempt more. The unique indexes
  are never hit; the errors are a report that does not exist and an attempt count no \<open>u32\<close> holds.
\<close>

theorem claim_reply_exact:
  "(fst (claim_security_reply now r k e (run_security calls empty_db)),
    db_replies (snd (claim_security_reply now r k e (run_security calls empty_db)))) =
   claim_spec now r k (run_security calls empty_db)"
  by (rule claim_exact [OF reachable_ok])

definition completed :: "DeliveryStatus \<Rightarrow> string option \<Rightarrow> stamp \<Rightarrow> reply_row \<Rightarrow> reply_row" where
  "completed s err t x =
     x\<lparr>sp_status := delivery_status_as_str s, sp_error := err, sp_completed_at := Some t\<rparr>"

definition completion_moves :: "int \<Rightarrow> ReportTransition option \<Rightarrow> security_db \<Rightarrow> bool" where
  "completion_moves r tr db \<longleftrightarrow>
     (case tr of None \<Rightarrow> False
      | Some t \<Rightarrow> transition_is_allowed t \<and>
          list_ex (in_state sr_id sr_state r (report_state_as_str (tr_from t))) (db_reports db))"

definition complete_spec ::
    "datetime \<Rightarrow> int \<Rightarrow> SecurityReplyKind \<Rightarrow> DeliveryStatus \<Rightarrow> string option \<Rightarrow> ReportTransition option \<Rightarrow>
       security_db \<Rightarrow> bool result \<times> reply_row list \<times> report_row list" where
  "complete_spec now r k s err tr db =
     (if \<not> delivery_is_completion s
      then (Inl (Storage (''a reply cannot complete as '' @ delivery_status_as_str s)), db_replies db, db_reports db)
      else if \<not> in_flight r k db
      then (Inl (Storage (''no '' @ reply_kind_as_str k @ '' reply is being sent for security report '' @ show_int r)),
            db_replies db, db_reports db)
      else (Inr (completion_moves r tr db),
            update_where (is_reply r k) (completed s err (timestamp now)) (db_replies db),
            (case tr of
               Some t \<Rightarrow> if completion_moves r tr db
                         then moved_rows r (tr_from t) (tr_to t) no_report_changes (timestamp now) (db_reports db)
                         else db_reports db
             | None \<Rightarrow> db_reports db)))"

lemma complete_exact:
  assumes ok: "security_ok db"
  shows "(fst (complete_security_reply now r k s err e tr db),
      db_replies (snd (complete_security_reply now r k s err e tr db)),
      db_reports (snd (complete_security_reply now r k s err e tr db))) = complete_spec now r k s err tr db"
proof -
  have ok': "unique_ok db" "refs_ok db" using ok by (simp_all add: security_ok_def)
  have hit: "rows_affected (reply_in r k DeliveryStatus.Sending) (db_replies db) = 0 \<longleftrightarrow> \<not> in_flight r k db"
    by (simp add: rows_affected_0 in_flight_def list_ex_iff)
  show ?thesis
  proof (cases "delivery_is_completion s \<and> in_flight r k db")
    case False
    then show ?thesis
      by (auto simp: complete_security_reply_def complete_spec_def fail_def transaction_def Let_def hit
          simp del: texts_kept reply_kind_as_str.simps)
  next
    case True
    then obtain y where y: "y \<in> set (db_replies db)" "is_reply r k y"
        "sp_status y = delivery_status_as_str DeliveryStatus.Sending"
      by (auto simp: in_flight_def list_ex_iff reply_in_def simp del: texts_kept)
    then have "find_by (is_reply r k) (db_replies db) = Some y"
      using find_reply_unique [OF ok'(1)] find_by_None by (metis not_None_eq)
    note rows = update_reply_in [OF ok'(1) this y(3)]
    have "report_exists db r" using ok'(2) y by (auto simp: refs_ok_def list_all_iff is_reply_def)
    then have r: "r \<in> set (map sr_id (db_reports db))" by (simp add: report_exists_iff)
    have refs: "references P (rc_vulnerability_id no_report_changes)" for P by (simp add: no_report_changes_def)
    show ?thesis
    proof (cases tr)
      case None
      then show ?thesis
        using True r rows
        by (simp add: complete_security_reply_def complete_spec_def fail_def transaction_def Let_def hit
            insert_report_event completion_moves_def completed_def [abs_def] del: texts_kept reply_kind_as_str.simps set_map)
    next
      case (Some t)
      then show ?thesis
        using True r rows refs
        by (cases "completion_moves r tr db")
          (auto simp: complete_security_reply_def complete_spec_def fail_def transaction_def Let_def hit
            insert_report_event completion_moves_def completed_def [abs_def] move_report_exact moved_rows_ids
            simp del: texts_kept reply_kind_as_str.simps set_map)
    qed
  qed
qed

text \<open>
  What completing a reply does on every branch, on a reachable store: a reply that is \<open>sending\<close> is
  always completed, whatever becomes of the report's transition, which happens exactly when the state machine
  allows it and the report is in its source state; the result says whether it did. Completing as \<open>sending\<close>, or a
  reply that is not being sent, fails and changes nothing.
\<close>

theorem complete_reply_exact:
  "(fst (complete_security_reply now r k s err e tr (run_security calls empty_db)),
    db_replies (snd (complete_security_reply now r k s err e tr (run_security calls empty_db))),
    db_reports (snd (complete_security_reply now r k s err e tr (run_security calls empty_db)))) =
   complete_spec now r k s err tr (run_security calls empty_db)"
  by (rule complete_exact [OF reachable_ok])

section \<open>One delivery at a time\<close>

fun completes :: "int \<Rightarrow> SecurityReplyKind \<Rightarrow> security_call \<Rightarrow> bool" where
  "completes r k (Complete_reply now r' k' s err e tr) \<longleftrightarrow> r' = r \<and> k' = k"
| "completes r k _ \<longleftrightarrow> False"

lemma same_replies:
  "db_replies (snd (upsert_security_report now report db)) = db_replies db"
  "db_replies (snd (release_stale_security_assessments now now2 stale_after db)) = db_replies db"
  "db_replies (snd (record_security_follow_up now i old new db)) = db_replies db"
  "db_replies (snd (record_security_event now ri vi e db)) = db_replies db"
  "db_replies (snd (create_security_vulnerability now v db)) = db_replies db"
  "db_replies (snd (transition_security_vulnerability now i va vb vch e db)) = db_replies db"
  "db_replies (snd (replace_first_reporter now i j rr at db)) = db_replies db"
  "db_replies (snd (prepare_security_award now i rr aw db)) = db_replies db"
  "db_replies (snd (update_security_award_status now i es st actor note db)) = db_replies db"
proof -
  note keep = transaction_preserves [where P = "\<lambda>s. db_replies s = db_replies db" and s = db, OF refl]
  note rows = Let_def insert_event_Inr ret_def fail_def update_in_state_def
  show "db_replies (snd (upsert_security_report now report db)) = db_replies db"
    using upsert_new [of report db now] upsert_known [of report db now]
    by (cases "list_ex (is_conversation (nr_source report) (nr_conversation_id report)) (db_reports db)")
      (auto simp: recorded_def)
  have "release_reports t e is db1 = Inr db2 \<Longrightarrow> db_replies db2 = db_replies db1" for t e "is" db1 db2
    by (induction "is" arbitrary: db1) (auto simp: release_report_def rows simp del: texts_kept)
  then show "db_replies (snd (release_stale_security_assessments now now2 stale_after db)) = db_replies db"
    unfolding release_stale_security_assessments_def
    by (cases "stale_cutoff now stale_after") (simp_all add: ret_def, rule keep, auto simp: Let_def)
  show "db_replies (snd (record_security_follow_up now i old new db)) = db_replies db"
    unfolding record_security_follow_up_def by (auto simp: rows intro!: keep split: if_splits)
  show "db_replies (snd (record_security_event now ri vi e db)) = db_replies db"
    unfolding record_security_event_def by (auto simp: rows intro!: keep split: if_splits)
  show "db_replies (snd (create_security_vulnerability now v db)) = db_replies db"
    unfolding create_security_vulnerability_def
    by (auto simp: rows intro!: keep simp del: texts_kept split: if_splits option.splits)
  show "db_replies (snd (transition_security_vulnerability now i va vb vch e db)) = db_replies db"
    unfolding transition_security_vulnerability_def
    by (auto simp: rows intro!: keep simp del: texts_kept split: if_splits)
  show "db_replies (snd (replace_first_reporter now i j rr at db)) = db_replies db"
    unfolding replace_first_reporter_def by (auto simp: rows intro!: keep split: if_splits)
  show "db_replies (snd (prepare_security_award now i rr aw db)) = db_replies db"
    unfolding prepare_security_award_def
    by (auto simp: rows intro!: keep simp del: texts_kept split: if_splits option.splits)
  show "db_replies (snd (update_security_award_status now i es st actor note db)) = db_replies db"
    unfolding update_security_award_status_def
    by (cases "query_award i db"; (simp add: transaction_def; fail)?)
      (rename_tac found, case_tac found; rule keep; auto simp: rows simp del: texts_kept split: if_splits)
qed

lemma kept_in_flight:
  assumes "in_flight r k db" "\<And>x. reply_in r k DeliveryStatus.Sending x \<Longrightarrow> \<not> p x"
  shows "list_ex (reply_in r k DeliveryStatus.Sending) (update_where p f (db_replies db))"
proof -
  obtain x where "x \<in> set (db_replies db)" "reply_in r k DeliveryStatus.Sending x"
    using assms(1) by (auto simp: in_flight_def list_ex_iff)
  moreover from this assms(2) have "x \<in> set (update_where p f (db_replies db))" by (force simp: in_update_where)
  ultimately show ?thesis by (auto simp: list_ex_iff)
qed

lemma reply_in_disjoint:
  "reply_in r k DeliveryStatus.Sending x \<Longrightarrow> s \<noteq> DeliveryStatus.Sending \<Longrightarrow> \<not> reply_in r' k' s x"
  unfolding reply_in_def by (metis delivery_status.as_str_inject)

lemma is_reply_disjoint: "is_reply r k x \<Longrightarrow> \<not> (r' = r \<and> k' = k) \<Longrightarrow> \<not> is_reply r' k' x"
  unfolding is_reply_def by (metis reply_kind.as_str_inject)

lemma claim_in_flight:
  assumes ok: "security_ok db" and flight: "in_flight r k db"
  shows "in_flight r k (snd (claim_security_reply now r' k' e db))"
proof -
  have replies: "db_replies (snd (claim_security_reply now r' k' e db)) = snd (claim_spec now r' k' db)"
    using claim_exact [OF ok, of now r' k' e] by (metis snd_conv)
  have "list_ex (reply_in r k DeliveryStatus.Sending) (snd (claim_spec now r' k' db))"
  proof (cases "find_by (is_reply r' k') (db_replies db)")
    case None
    with flight show ?thesis by (simp add: claim_spec_def in_flight_def)
  next
    case (Some x)
    have "unique_ok db" using ok by (simp add: security_ok_def)
    then have "list_ex (reply_in r k DeliveryStatus.Sending) (update_where (is_reply r' k') f (db_replies db))"
      if "sp_status x = delivery_status_as_str DeliveryStatus.Failed" for f
      using kept_in_flight [OF flight, of "reply_in r' k' DeliveryStatus.Failed" f] reply_in_disjoint
        update_reply_in [OF _ Some that, of f] by simp
    with Some flight show ?thesis by (simp add: claim_spec_def in_flight_def del: texts_kept)
  qed
  then show ?thesis by (simp add: in_flight_def replies)
qed

lemma complete_in_flight:
  assumes ok: "security_ok db" and flight: "in_flight r k db" and other: "\<not> (r' = r \<and> k' = k)"
  shows "in_flight r k (snd (complete_security_reply now r' k' s err e tr db))"
proof -
  have replies: "db_replies (snd (complete_security_reply now r' k' s err e tr db)) = fst (snd (complete_spec now r' k' s err tr db))"
    using complete_exact [OF ok, of now r' k' s err e tr] by (metis fst_conv snd_conv)
  have "list_ex (reply_in r k DeliveryStatus.Sending) (update_where (is_reply r' k') f (db_replies db))" for f
    using kept_in_flight [OF flight, of "is_reply r' k'" f] is_reply_disjoint [OF _ other]
    by (simp add: reply_in_def)
  then have "list_ex (reply_in r k DeliveryStatus.Sending) (fst (snd (complete_spec now r' k' s err tr db)))"
    using flight by (simp add: complete_spec_def in_flight_def)
  then show ?thesis by (simp add: in_flight_def replies)
qed

lemma confirm_in_flight:
  assumes flight: "in_flight r k db"
  shows "in_flight r k (snd (confirm_security_reply now r' k' d actor db))"
proof -
  have "list_ex (reply_in r k DeliveryStatus.Sending)
      (update_where (reply_in r' k' DeliveryStatus.Unconfirmed) f (db_replies db))" for f
    using kept_in_flight [OF flight] reply_in_disjoint by simp
  then show ?thesis
    using flight unfolding in_flight_def confirm_security_reply_def
    by (intro transaction_preserves [where P = "\<lambda>db. list_ex (reply_in r k DeliveryStatus.Sending) (db_replies db)"])
      (auto simp: Let_def insert_event_Inr simp del: texts_kept split: if_splits)
qed

lemma transition_in_flight:
  "in_flight r k db \<Longrightarrow> in_flight r k (snd (transition_security_report now i a b changes e db))"
  by (simp add: transition_exact in_flight_def del: texts_kept)

lemma step_in_flight:
  assumes ok: "security_ok db" and flight: "in_flight r k db" and other: "\<not> completes r k c"
  shows "in_flight r k (security_step c db)"
proof -
  have same: "in_flight r k db'" if "db_replies db' = db_replies db" for db'
    using flight that by (simp add: in_flight_def)
  show ?thesis
  proof (cases c)
    case (Attempt a)
    then show ?thesis using attempt_step_same [of db a] by (simp add: same same_security_def)
  qed (use other in \<open>simp_all add: same same_replies transition_in_flight claim_in_flight complete_in_flight
      confirm_in_flight ok flight\<close>)
qed

lemma run_in_flight:
  "security_ok db \<Longrightarrow> in_flight r k db \<Longrightarrow> list_all (\<lambda>c. \<not> completes r k c) calls \<Longrightarrow>
     in_flight r k (run_security calls db) \<and> security_ok (run_security calls db)"
  unfolding run_security_def
  by (induction calls arbitrary: db) (auto intro: step_in_flight step_security_ok)

lemma claimed_in_flight:
  assumes ok: "security_ok db" and claimed: "fst (claim_security_reply now r k e db) = Inr True"
  shows "in_flight r k (snd (claim_security_reply now r k e db))"
proof -
  have replies: "db_replies (snd (claim_security_reply now r k e db)) = snd (claim_spec now r k db)"
      "fst (claim_spec now r k db) = Inr True"
    using claim_exact [OF ok, of now r k e] claimed by (metis fst_conv snd_conv)+
  have "list_ex (reply_in r k DeliveryStatus.Sending) (snd (claim_spec now r k db))"
  proof (cases "find_by (is_reply r k) (db_replies db)")
    case None
    with replies(2) show ?thesis
      by (auto simp: claim_spec_def reply_in_def is_reply_def claimed_row_def simp del: texts_kept reply_kind_as_str.simps
          split: if_splits)
  next
    case (Some x)
    then have "x \<in> set (db_replies db)" "is_reply r k x" by (auto dest: find_by_Some)
    then have "reclaimed t x \<in> set (update_where (is_reply r k) (reclaimed t) (db_replies db))"
        "reply_in r k DeliveryStatus.Sending (reclaimed t x)" for t
      by (auto simp: in_update_where reply_in_def is_reply_def reclaimed_def simp del: texts_kept)
    then have "list_ex (reply_in r k DeliveryStatus.Sending) (update_where (is_reply r k) (reclaimed t) (db_replies db))" for t
      by (auto simp: list_ex_iff)
    with Some replies(2) show ?thesis by (auto simp: claim_spec_def split: if_splits)
  qed
  then show ?thesis by (simp add: in_flight_def replies(1))
qed

lemma in_flight_no_claim:
  assumes ok: "security_ok db" and flight: "in_flight r k db"
  shows "fst (claim_security_reply now r k e db) \<noteq> Inr True"
proof -
  have spec: "fst (claim_security_reply now r k e db) = fst (claim_spec now r k db)"
    using claim_exact [OF ok, of now r k e] by (metis fst_conv)
  obtain y where y: "y \<in> set (db_replies db)" "is_reply r k y"
      "sp_status y = delivery_status_as_str DeliveryStatus.Sending"
    using flight by (auto simp: in_flight_def list_ex_iff reply_in_def simp del: texts_kept)
  moreover have "unique_ok db" using ok by (simp add: security_ok_def)
  ultimately have found: "find_by (is_reply r k) (db_replies db) = Some y"
    using find_reply_unique find_by_None by (metis not_None_eq)
  have "delivery_status_as_str DeliveryStatus.Sending \<noteq> delivery_status_as_str DeliveryStatus.Failed"
    by (simp add: delivery_status.as_str_inject del: texts_kept)
  with found y(3) show ?thesis by (simp add: spec claim_spec_def del: texts_kept)
qed

text \<open>
  Property C10. One delivery at a time: after a reply was claimed, no second claim of it succeeds, whatever other
  calls are made in between, until its delivery is completed. A claim by itself is the right to send the mail.
\<close>

theorem one_delivery_at_a_time:
  assumes "fst (claim_security_reply now r k e (run_security calls empty_db)) = Inr True"
    and "list_all (\<lambda>c. \<not> completes r k c) between"
  shows "fst (claim_security_reply now' r k e' (run_security between
      (snd (claim_security_reply now r k e (run_security calls empty_db))))) \<noteq> Inr True"
proof -
  let ?db = "snd (claim_security_reply now r k e (run_security calls empty_db))"
  have "security_ok ?db"
    using step_security_ok [OF reachable_ok, where c = "Claim_reply now r k e"] by simp
  moreover have "in_flight r k ?db" by (rule claimed_in_flight [OF reachable_ok assms(1)])
  ultimately have "in_flight r k (run_security between ?db) \<and> security_ok (run_security between ?db)"
    using assms(2) run_in_flight by blast
  then show ?thesis using in_flight_no_claim by blast
qed

definition sample_report :: NewSecurityReport where
  "sample_report =
     \<lparr>nr_source = ''helpscout'', nr_conversation_id = ''77'', nr_short_id = ''HS-77'', nr_mailbox_id = ''1'',
      nr_url = ''u'', nr_subject = ''XSS'', nr_reporter_email = Some ''a@b.c'', nr_reporter_customer_id = None,
      nr_reported_at = 0, nr_customer_thread_count = 1\<rparr>"

lemma sample_claim:
  "fst (claim_security_reply 1 1 SecurityReplyKind.Confirmed (new_event SecurityEventKind.Received)
     (run_security [Upsert_report 0 sample_report] empty_db)) = Inr True"
proof -
  let ?db = "run_security [Upsert_report 0 sample_report] empty_db"
  have none: "db_replies ?db = []"
    by (simp add: run_security_def same_replies) (simp add: empty_db_def)
  have "\<not> list_ex (is_conversation (nr_source sample_report) (nr_conversation_id sample_report)) (db_reports empty_db)"
    by (simp add: empty_db_def)
  from upsert_new [OF this, of 0] have "report_exists ?db 1"
    by (auto simp: run_security_def report_exists_def recorded_def empty_db_def report_of_new_def)
  with none have "fst (claim_spec 1 1 SecurityReplyKind.Confirmed ?db) = Inr True"
    by (simp add: claim_spec_def has_other_fix_live_reply_def)
  then show ?thesis
    using claim_exact [OF reachable_ok, of 1 1 SecurityReplyKind.Confirmed "new_event SecurityEventKind.Received"]
    by (metis fst_conv)
qed

lemma one_delivery_at_a_time_witness:
  "fst (claim_security_reply 3 1 SecurityReplyKind.Confirmed (new_event SecurityEventKind.Received)
     (run_security [Claim_reply 2 1 SecurityReplyKind.Confirmed (new_event SecurityEventKind.Received)]
       (snd (claim_security_reply 1 1 SecurityReplyKind.Confirmed (new_event SecurityEventKind.Received)
         (run_security [Upsert_report 0 sample_report] empty_db))))) \<noteq> Inr True"
  by (rule one_delivery_at_a_time [OF sample_claim]) simp

end
