(* ===== verification/Owner_Pings.thy ===== *)
theory Owner_Pings
  imports Security_Domain Security_Db
begin

text \<open>
  The messages to the owner of the security inbox, \<open>crates/claudear-engine/src/security/notify.rs\<close>: an action,
  ids, the severity and a link, and no text of a report.
\<close>

datatype ReviewReason =
    AssessmentFailed | AssessmentInconclusive | UnverifiableFix | FixFoundInHistory | AttachmentEvidence
  | RegistrationFailed | UntrackedRepository | UnindexedRepository | InvalidPullRequest | PullRequestClosed
  | MissingMergeCommit | FixFailed | ReplyFailed | ReplyUnconfirmed | DeploymentCheckFailed

fun review_reason_as_str :: "ReviewReason \<Rightarrow> string" where
  "review_reason_as_str ReviewReason.AssessmentFailed = ''assessment_failed''"
| "review_reason_as_str ReviewReason.AssessmentInconclusive = ''assessment_inconclusive''"
| "review_reason_as_str ReviewReason.UnverifiableFix = ''unverifiable_fix''"
| "review_reason_as_str ReviewReason.FixFoundInHistory = ''fix_found_in_history''"
| "review_reason_as_str ReviewReason.AttachmentEvidence = ''attachment_evidence''"
| "review_reason_as_str ReviewReason.RegistrationFailed = ''registration_failed''"
| "review_reason_as_str ReviewReason.UntrackedRepository = ''untracked_repository''"
| "review_reason_as_str ReviewReason.UnindexedRepository = ''unindexed_repository''"
| "review_reason_as_str ReviewReason.InvalidPullRequest = ''invalid_pull_request''"
| "review_reason_as_str ReviewReason.PullRequestClosed = ''pull_request_closed''"
| "review_reason_as_str ReviewReason.MissingMergeCommit = ''missing_merge_commit''"
| "review_reason_as_str ReviewReason.FixFailed = ''fix_failed''"
| "review_reason_as_str ReviewReason.ReplyFailed = ''reply_failed''"
| "review_reason_as_str ReviewReason.ReplyUnconfirmed = ''reply_unconfirmed''"
| "review_reason_as_str ReviewReason.DeploymentCheckFailed = ''deployment_check_failed''"

datatype OwnerAction =
  NewValidReport | NeedsReview ReviewReason | CloudBumpRequired | AwardReady | ReporterFollowUp

fun owner_action_text :: "OwnerAction \<Rightarrow> string" where
  "owner_action_text OwnerAction.NewValidReport = ''new valid report''"
| "owner_action_text (OwnerAction.NeedsReview reason) = ''needs review ('' @ review_reason_as_str reason @ '')''"
| "owner_action_text OwnerAction.CloudBumpRequired = ''cloud server-ce bump required''"
| "owner_action_text OwnerAction.AwardReady = ''award ready''"
| "owner_action_text OwnerAction.ReporterFollowUp = ''reporter follow-up''"

record PingSubject =
  pg_report_id :: int
  pg_vulnerability_id :: "int option"
  pg_severity :: "SecuritySeverity option"

definition ping_report :: "int \<Rightarrow> PingSubject" where
  "ping_report report_id = \<lparr>pg_report_id = report_id, pg_vulnerability_id = None, pg_severity = None\<rparr>"

definition ping_for_report :: "int \<Rightarrow> security_vulnerability \<Rightarrow> PingSubject" where
  "ping_for_report report_id v =
     \<lparr>pg_report_id = report_id, pg_vulnerability_id = Some (sv_id v), pg_severity = sv_severity v\<rparr>"

definition ping_vulnerability :: "security_vulnerability \<Rightarrow> PingSubject" where
  "ping_vulnerability v = ping_for_report (sv_first_report_id v) v"

fun filter_option :: "('a \<Rightarrow> bool) \<Rightarrow> 'a option \<Rightarrow> 'a option" where
  "filter_option p None = None"
| "filter_option p (Some x) = (if p x then Some x else None)"

definition owner_message :: "string option \<Rightarrow> string option \<Rightarrow> OwnerAction \<Rightarrow> PingSubject \<Rightarrow> string" where
  "owner_message owner_mention dashboard_url action subject =
     (let target =
        (case pg_vulnerability_id subject of
           Some v \<Rightarrow> security_fix_short_id v @ '' / report #'' @ show_int (pg_report_id subject)
         | None \<Rightarrow> ''report #'' @ show_int (pg_report_id subject));
          severity = (case pg_severity subject of Some s \<Rightarrow> severity_as_str s | None \<Rightarrow> ''unrated'')
      in (case filter_option (\<lambda>m. trim m \<noteq> []) owner_mention of Some m \<Rightarrow> trim m @ '' '' | None \<Rightarrow> []) @
         ''[security] '' @ owner_action_text action @ '' for '' @ target @ '' (severity '' @ severity @ '').'' @
         (case filter_option (\<lambda>u. trim u \<noteq> []) dashboard_url of
            Some u \<Rightarrow> '' '' @ trim_end_seqs [''/''] (trim u) @ ''/security?report='' @ show_int (pg_report_id subject)
          | None \<Rightarrow> []))"

end
