(* ===== verification/Text_Search.thy ===== *)
theory Text_Search
  imports Text_Ops
begin

text \<open>
  The searching operations of \<open>str\<close> that the security inbox applies to agent and reporter texts: the first
  occurrence of a byte, \<open>contains\<close>, \<open>replace\<close>, \<open>split_whitespace\<close> and \<open>chars().take(..)\<close>.
\<close>

section \<open>Occurrences\<close>

lemma contains_text_iff: "contains_text s p \<longleftrightarrow> (\<exists>u v. s = u @ p @ v)"
proof (induction s)
  case Nil
  then show ?case by auto
next
  case (Cons c cs)
  show ?case
  proof
    assume "contains_text (c # cs) p"
    then consider "starts_with (c # cs) p" | "contains_text cs p" by auto
    then show "\<exists>u v. c # cs = u @ p @ v"
    proof cases
      case 1
      then show ?thesis by (metis starts_with_iff append_Nil)
    next
      case 2
      then show ?thesis using Cons.IH by (metis append_Cons)
    qed
  next
    assume "\<exists>u v. c # cs = u @ p @ v"
    then obtain u v where uv: "c # cs = u @ p @ v" by blast
    show "contains_text (c # cs) p"
    proof (cases u)
      case Nil
      with uv have "starts_with (c # cs) p" by (auto simp: starts_with_iff)
      then show ?thesis by simp
    next
      case (Cons x u')
      with uv have "cs = u' @ p @ v" by simp
      with \<open>contains_text cs p = (\<exists>u v. cs = u @ p @ v)\<close> show ?thesis by auto
    qed
  qed
qed

lemma contains_text_self [simp]: "contains_text p p"
  by (auto simp: contains_text_iff intro: exI [of _ "[]"])

lemma contains_text_append1: "contains_text a p \<Longrightarrow> contains_text (a @ b) p"
  unfolding contains_text_iff by (metis append.assoc)

lemma contains_text_append2: "contains_text b p \<Longrightarrow> contains_text (a @ b) p"
  unfolding contains_text_iff by (metis append.assoc)

lemma contains_text_trans: "contains_text a b \<Longrightarrow> contains_text b c \<Longrightarrow> contains_text a c"
  unfolding contains_text_iff by (metis append.assoc)

text \<open>A pattern without the separator lies on one side of it.\<close>

lemma contains_text_around:
  assumes "x \<notin> set p" "contains_text (a @ x # b) p"
  shows "contains_text a p \<or> contains_text b p"
proof (cases "p = []")
  case False
  obtain u v where uv: "a @ x # b = u @ p @ v" using assms(2) unfolding contains_text_iff by blast
  then consider d where "a = u @ d" "d @ x # b = p @ v" | d where "u = a @ d" "x # b = d @ p @ v"
    unfolding append_eq_append_conv2 by auto
  then show ?thesis
  proof cases
    case 1
    then consider e where "d = p @ e" | e where "p = d @ e" "x # b = e @ v"
      unfolding append_eq_append_conv2 by auto
    then show ?thesis
    proof cases
      case 1
      with \<open>a = u @ d\<close> have "a = u @ p @ e" by simp
      then show ?thesis unfolding contains_text_iff by blast
    next
      case 2
      have "e = []" using 2 assms(1) by (cases e) auto
      with 2 \<open>a = u @ d\<close> have "a = u @ p @ []" by simp
      then show ?thesis unfolding contains_text_iff by blast
    qed
  next
    case 2
    show ?thesis
    proof (cases d)
      case Nil
      with 2 assms(1) False show ?thesis by (cases p) auto
    next
      case (Cons y d')
      with 2 have "b = d' @ p @ v" by simp
      then show ?thesis unfolding contains_text_iff by blast
    qed
  qed
qed (auto simp: contains_text_iff)

text \<open>An occurrence is not covered by a text without its first character.\<close>

lemma contains_past:
  "x \<notin> set a \<Longrightarrow> contains_text (a @ b) (x # p) \<Longrightarrow> contains_text b (x # p)"
  by (induction a) (auto simp: starts_with_def)

section \<open>Splitting at the first occurrence\<close>

text \<open>\<open>find(c)\<close> with the text before it and the text from it on.\<close>

fun break_at :: "(char \<Rightarrow> bool) \<Rightarrow> string \<Rightarrow> string \<times> string" where
  "break_at p [] = ([], [])"
| "break_at p (c # cs) = (if p c then ([], c # cs) else (case break_at p cs of (a, b) \<Rightarrow> (c # a, b)))"

lemma break_at_takeWhile: "break_at p s = (takeWhile (\<lambda>c. \<not> p c) s, dropWhile (\<lambda>c. \<not> p c) s)"
  by (induction s) auto

lemma break_at_shorter: "break_at p s = (a, c # rest) \<Longrightarrow> length rest < length s"
  by (metis break_at_takeWhile Suc_le_lessD length_Cons length_dropWhile_le snd_conv)

section \<open>Replacing\<close>

text \<open>\<open>str::replace\<close> for a pattern that is not empty, the only ones in use.\<close>

function replace_text :: "string \<Rightarrow> string \<Rightarrow> string \<Rightarrow> string" where
  "replace_text p r [] = []"
| "replace_text p r (c # cs) =
     (if p = [] then c # cs
      else (case strip_prefix p (c # cs) of
              Some rest \<Rightarrow> r @ replace_text p r rest
            | None \<Rightarrow> c # replace_text p r cs))"
  by pat_completeness auto
termination
  by (relation "measure (\<lambda>(p, r, s). length s)") (auto simp: strip_prefix_Some length_append dest: arg_cong [of _ _ length])

lemma replace_text_none: "\<not> contains_text s p \<Longrightarrow> replace_text p r s = s"
  by (induction p r s rule: replace_text.induct) (auto simp: starts_with_def split: option.splits)

text \<open>What a character of the text, the pattern or the replacement may be.\<close>

lemma set_replace_text: "set (replace_text p r s) \<subseteq> set s \<union> set r"
proof (induction p r s rule: replace_text.induct)
  case (2 p r c cs)
  show ?case
  proof (cases "strip_prefix p (c # cs)")
    case None
    with 2 show ?thesis by (auto split: if_splits)
  next
    case (Some rest)
    then have "set rest \<subseteq> set (c # cs)" by (metis strip_prefix_Some set_append Un_upper2)
    with 2 Some show ?thesis by (auto split: if_splits)
  qed
qed simp

text \<open>A run of one character that occurs in neither the pattern nor the replacement was there before.\<close>

lemma replace_text_starts:
  "starts_with (replace_text p r s) q \<Longrightarrow> r \<noteq> [] \<Longrightarrow> x \<notin> set r \<Longrightarrow> set q \<subseteq> {x} \<Longrightarrow> starts_with s q"
proof (induction p r s arbitrary: q rule: replace_text.induct)
  case (2 p r c cs)
  show ?case
  proof (cases q)
    case Nil
    then show ?thesis by (simp add: starts_with_def)
  next
    case (Cons y ys)
    with 2 show ?thesis
      by (cases r) (auto simp: starts_with_def split: if_splits option.splits)
  qed
qed simp

lemma replace_text_contains:
  "contains_text (replace_text p r s) (x # q) \<Longrightarrow> r \<noteq> [] \<Longrightarrow> x \<notin> set r \<Longrightarrow> set q \<subseteq> {x} \<Longrightarrow>
     contains_text s (x # q)"
proof (induction p r s rule: replace_text.induct)
  case (2 p r c cs)
  show ?case
  proof (cases "p = []")
    case False
    show ?thesis
    proof (cases "strip_prefix p (c # cs)")
      case None
      with 2 False consider "starts_with (c # replace_text p r cs) (x # q)" | "contains_text cs (x # q)" by auto
      then show ?thesis
      proof cases
        case 1
        then have "starts_with (replace_text p r (c # cs)) (x # q)" using None False by simp
        then have "starts_with (c # cs) (x # q)"
          by (rule replace_text_starts [of _ _ _ _ x]) (use 2 in auto)
        then show ?thesis by simp
      next
        case 2
        then show ?thesis by simp
      qed
    next
      case (Some rest)
      with 2 False have "contains_text (replace_text p r rest) (x # q)"
        using contains_past [of x r "replace_text p r rest" q] by simp
      with 2 Some False have "contains_text rest (x # q)" by simp
      with Some show ?thesis by (metis strip_prefix_Some contains_text_append2)
    qed
  qed (use 2 in simp)
qed simp

section \<open>Words\<close>

text \<open>\<open>split_whitespace\<close>: the non-empty runs between whitespace, read with the current run in reverse.\<close>

definition finished_word :: "string \<Rightarrow> string list" where
  "finished_word word = (if word = [] then [] else [rev word])"

function split_words :: "string \<Rightarrow> string \<Rightarrow> string list" where
  "split_words word s =
     (case strip_first whitespace_encodings s of
        Some rest \<Rightarrow> finished_word word @ split_words [] rest
      | None \<Rightarrow> (case s of [] \<Rightarrow> finished_word word | c # cs \<Rightarrow> split_words (c # word) cs))"
  by pat_completeness auto
termination
  by (relation "measure (\<lambda>(word, s). length s)") (auto dest: strip_first_shorter)

declare split_words.simps [simp del]

definition split_whitespace :: "string \<Rightarrow> string list" where
  "split_whitespace s = split_words [] s"

lemma strip_prefix_space:
  "CHR '' '' \<notin> set p \<Longrightarrow>
     strip_prefix p (a @ CHR '' '' # b) = map_option (\<lambda>r. r @ CHR '' '' # b) (strip_prefix p a)"
  by (induction p a rule: strip_prefix.induct) auto

lemma strip_first_space:
  assumes "a \<noteq> []" "list_all (\<lambda>p. p = [CHR '' ''] \<or> CHR '' '' \<notin> set p) ps"
  shows "strip_first ps (a @ CHR '' '' # b) = map_option (\<lambda>r. r @ CHR '' '' # b) (strip_first ps a)"
  using assms(2)
proof (induction ps)
  case (Cons p ps)
  have "strip_prefix p (a @ CHR '' '' # b) = map_option (\<lambda>r. r @ CHR '' '' # b) (strip_prefix p a)"
    using Cons.prems assms(1) by (cases a) (auto simp: strip_prefix_space [of _ "_ # _", simplified] strip_prefix_space)
  with Cons show ?case by (auto split: option.split)
qed simp

lemma whitespace_spaces: "list_all (\<lambda>p. p = [CHR '' ''] \<or> CHR '' '' \<notin> set p) whitespace_encodings"
  by code_simp

lemma whitespace_encodings_chars:
  "whitespace_encodings =
     [[CHR 0x09], [CHR 0x0A], [CHR 0x0B], [CHR 0x0C], [CHR 0x0D], [CHR 0x20], [CHR 0xC2, CHR 0x85], [CHR
      0xC2, CHR 0xA0], [CHR 0xE1, CHR 0x9A, CHR 0x80], [CHR 0xE2, CHR 0x80, CHR 0x80], [CHR 0xE2, CHR
      0x80, CHR 0x81], [CHR 0xE2, CHR 0x80, CHR 0x82], [CHR 0xE2, CHR 0x80, CHR 0x83], [CHR 0xE2, CHR
      0x80, CHR 0x84], [CHR 0xE2, CHR 0x80, CHR 0x85], [CHR 0xE2, CHR 0x80, CHR 0x86], [CHR 0xE2, CHR
      0x80, CHR 0x87], [CHR 0xE2, CHR 0x80, CHR 0x88], [CHR 0xE2, CHR 0x80, CHR 0x89], [CHR 0xE2, CHR
      0x80, CHR 0x8A], [CHR 0xE2, CHR 0x80, CHR 0xA8], [CHR 0xE2, CHR 0x80, CHR 0xA9], [CHR 0xE2, CHR
      0x80, CHR 0xAF], [CHR 0xE2, CHR 0x81, CHR 0x9F], [CHR 0xE3, CHR 0x80, CHR 0x80]]"
  by code_simp

text \<open>What starts and ends with no whitespace is trimmed already.\<close>

lemma trim_id:
  "strip_first whitespace_encodings s = None \<Longrightarrow> strip_first (map rev whitespace_encodings) (rev s) = None \<Longrightarrow> trim s = s"
  by (simp add: trim_def trim_start_seqs_def trim_end_seqs_def strip_while_unfold)

lemma strip_first_blank: "strip_first whitespace_encodings (CHR '' '' # b) = Some b"
  by (simp add: whitespace_encodings_chars)

lemma strip_first_Nil: "strip_first whitespace_encodings [] = None"
  by (simp add: whitespace_encodings_chars)

lemma split_words_space: "split_words w (a @ CHR '' '' # b) = split_words w a @ split_words [] b"
proof (induction w a rule: split_words.induct)
  case (1 word s)
  show ?case
  proof (cases s)
    case Nil
    then show ?thesis
      by (simp add: split_words.simps [of word "[]"] split_words.simps [of word "CHR '' '' # b"] strip_first_blank strip_first_Nil)
  next
    case (Cons c cs)
    then have first: "strip_first whitespace_encodings (s @ CHR '' '' # b) =
        map_option (\<lambda>r. r @ CHR '' '' # b) (strip_first whitespace_encodings s)"
      using strip_first_space [OF _ whitespace_spaces, of s b] by simp
    show ?thesis
    proof (cases "strip_first whitespace_encodings s")
      case None
      have "split_words (c # word) (cs @ CHR '' '' # b) = split_words (c # word) cs @ split_words [] b"
        using "1.IH"(1) [OF None Cons] .
      with None Cons first show ?thesis
        by (simp add: split_words.simps [of word "c # _"])
    next
      case (Some rest)
      with 1 first show ?thesis
        by (simp add: split_words.simps [of word s] split_words.simps [of word "s @ CHR '' '' # b"])
    qed
  qed
qed

lemma split_whitespace_space: "split_whitespace (a @ '' '' @ b) = split_whitespace a @ split_whitespace b"
  by (simp add: split_whitespace_def split_words_space)

lemma split_whitespace_Nil [simp]: "split_whitespace [] = []"
  by (simp add: split_whitespace_def split_words.simps finished_word_def strip_first_Nil)

text \<open>Every word occurs in the text.\<close>

lemma split_words_infix: "w \<in> set (split_words word s) \<Longrightarrow> contains_text (rev word @ s) w"
proof (induction word s rule: split_words.induct)
  case (1 word s)
  show ?case
  proof (cases "strip_first whitespace_encodings s")
    case None
    show ?thesis
    proof (cases s)
      case Nil
      with "1.prems" None show ?thesis
        by (simp add: split_words.simps [of word "[]"] finished_word_def split: if_splits)
    next
      case (Cons c cs)
      with "1.prems" None have "w \<in> set (split_words (c # word) cs)"
        by (simp add: split_words.simps [of word "c # cs"])
      from "1.IH"(1) [OF None Cons this] show ?thesis using Cons by simp
    qed
  next
    case (Some rest)
    then obtain u where u: "s = u @ rest" using strip_first_suffix by blast
    from "1.prems" Some consider "w = rev word" | "w \<in> set (split_words [] rest)"
      by (auto simp: split_words.simps [of word s] finished_word_def split: if_splits)
    then show ?thesis
    proof cases
      case 1
      then show ?thesis by (simp add: contains_text_append1)
    next
      case 2
      then show ?thesis using "1.IH"(2) [OF Some] u by (simp add: contains_text_append2)
    qed
  qed
qed

lemma split_whitespace_infix: "w \<in> set (split_whitespace s) \<Longrightarrow> contains_text s w"
  using split_words_infix [of w "[]" s] by (simp add: split_whitespace_def)

section \<open>Characters\<close>

text \<open>\<open>chars().take(n).collect()\<close>.\<close>

fun take_chars :: "nat \<Rightarrow> string \<Rightarrow> string" where
  "take_chars n [] = []"
| "take_chars n (c # cs) =
     (if continues_sequence c then c # take_chars n cs
      else (case n of 0 \<Rightarrow> [] | Suc m \<Rightarrow> c # take_chars m cs))"

lemma chars_count_simps [simp]:
  "chars_count [] = 0"
  "chars_count (c # s) = (if continues_sequence c then 0 else 1) + chars_count s"
  "chars_count (s @ t) = chars_count s + chars_count t"
  by (simp_all add: chars_count_def)

lemma chars_count_take_chars: "chars_count (take_chars n s) \<le> n"
  by (induction n s rule: take_chars.induct) (auto split: nat.split)

lemma take_chars_short: "chars_count s \<le> n \<Longrightarrow> take_chars n s = s"
  by (induction n s rule: take_chars.induct) (auto split: nat.split if_splits)

end
