(* ===== verification/Reply_Texts.thy ===== *)
theory Reply_Texts
  imports Text_Search Security_Types Tables
begin

text \<open>
  The texts a reporter is sent: the reply templates of \<open>crates/claudear-config/src/security_inbox.rs\<close> and the
  public reason of \<open>crates/claudear-engine/src/security/scrub.rs\<close>. The regular expressions of \<open>scrub_internal\<close> and
  the date format are parameters.
\<close>

section \<open>Public reasons\<close>

definition redacted :: string where
  "redacted = ''[redacted]''"

definition max_shown_reason_chars :: nat where
  "max_shown_reason_chars = 600"

definition public_url_prefix :: string where
  "public_url_prefix = ''https://appwrite.io/''"

definition url_markers :: "string list" where
  "url_markers = [''http://'', ''https://'', ''www.'']"

definition not_vulnerability_fallback :: string where
  "not_vulnerability_fallback = ''Based on our review, the behaviour you described works as intended and does not give access beyond what is already permitted.''"

definition out_of_scope_fallback :: string where
  "out_of_scope_fallback = ''It matches one of the categories our program lists as out of scope.''"

text \<open>U+2014 and U+2013.\<close>

definition em_dash :: string where
  "em_dash = [CHR 0xE2, CHR 0x80, CHR 0x94]"

definition en_dash :: string where
  "en_dash = [CHR 0xE2, CHR 0x80, CHR 0x93]"

definition without_dashes :: "string \<Rightarrow> string" where
  "without_dashes text =
     replace_text en_dash '', '' (replace_text em_dash '', ''
       (replace_text ('' '' @ en_dash @ '' '') '', ''
         (replace_text ('' '' @ em_dash @ '' '') '', '' text)))"

definition fallback_reason :: "SecurityOutcome \<Rightarrow> string" where
  "fallback_reason outcome =
     (case outcome of
        SecurityOutcome.NotVulnerability \<Rightarrow> not_vulnerability_fallback
      | SecurityOutcome.OutOfScope \<Rightarrow> out_of_scope_fallback
      | _ \<Rightarrow> [])"

text \<open>The pieces of a text that end at a line feed, or at a stop before whitespace; the current one in reverse.\<close>

definition ends_sentence :: "char \<Rightarrow> string \<Rightarrow> bool" where
  "ends_sentence c rest \<longleftrightarrow>
     c = CHR 0x0A \<or>
     c \<in> {CHR ''.'', CHR ''!'', CHR ''?''} \<and> (rest = [] \<or> strip_first whitespace_encodings rest \<noteq> None)"

fun sentence_pieces :: "string \<Rightarrow> string \<Rightarrow> string list" where
  "sentence_pieces piece [] = [rev piece]"
| "sentence_pieces piece (c # cs) =
     (if ends_sentence c cs then rev (c # piece) # sentence_pieces [] cs else sentence_pieces (c # piece) cs)"

definition sentences :: "string \<Rightarrow> string list" where
  "sentences text = filter (\<lambda>s. s \<noteq> []) (map trim (sentence_pieces [] text))"

definition quoting_chars :: "string list" where
  "quoting_chars = [''('', ''<'', [CHR 0x22], [CHR 0x27]]"

definition links_outside_appwrite :: "string \<Rightarrow> bool" where
  "links_outside_appwrite sentence \<longleftrightarrow>
     list_ex (\<lambda>word.
       (let word = trim_start_seqs quoting_chars word
        in list_ex (contains_text word) url_markers \<and> \<not> starts_with word public_url_prefix))
       (split_whitespace sentence)"

fun keep_sentences :: "string \<Rightarrow> string list \<Rightarrow> string" where
  "keep_sentences kept [] = kept"
| "keep_sentences kept (sentence # rest) =
     (if contains_text sentence redacted \<or> links_outside_appwrite sentence then keep_sentences kept rest
      else
        (let separator = (if kept = [] then 0 else 1)
         in if max_shown_reason_chars < chars_count kept + separator + chars_count sentence then kept
            else keep_sentences ((if kept = [] then [] else kept @ '' '') @ sentence) rest))"

definition public_reason :: "(string \<Rightarrow> string) \<Rightarrow> string \<Rightarrow> SecurityOutcome \<Rightarrow> string" where
  "public_reason scrub_internal raw outcome =
     (let kept = keep_sentences [] (sentences (without_dashes (scrub_internal raw)))
      in if kept = [] then fallback_reason outcome else kept)"

definition safe_text :: "string \<Rightarrow> bool" where
  "safe_text t \<longleftrightarrow>
     \<not> contains_text t redacted \<and> \<not> links_outside_appwrite t \<and> chars_count t \<le> max_shown_reason_chars"

lemma links_outside_space:
  "links_outside_appwrite (a @ '' '' @ b) \<longleftrightarrow> links_outside_appwrite a \<or> links_outside_appwrite b"
  by (simp only: links_outside_appwrite_def split_whitespace_space list_ex_append)

lemma redacted_space:
  "contains_text (a @ '' '' @ b) redacted \<Longrightarrow> contains_text a redacted \<or> contains_text b redacted"
  using contains_text_around [of "CHR '' ''" redacted a b] by (simp add: redacted_def)

lemma safe_text_Nil: "safe_text []"
  by (simp add: safe_text_def redacted_def links_outside_appwrite_def)

lemma keep_sentences_safe: "safe_text kept \<Longrightarrow> safe_text (keep_sentences kept rest)"
proof (induction kept rest rule: keep_sentences.induct)
  case (2 kept sentence rest)
  show ?case
  proof (cases "contains_text sentence redacted \<or> links_outside_appwrite sentence \<or>
      max_shown_reason_chars < chars_count kept + (if kept = [] then 0 else 1) + chars_count sentence")
    case True
    with 2 show ?thesis by (auto simp: Let_def)
  next
    case False
    let ?kept = "(if kept = [] then [] else kept @ '' '') @ sentence"
    have "safe_text ?kept"
    proof (cases "kept = []")
      case True
      with False show ?thesis by (simp add: safe_text_def)
    next
      case kept: False
      have "safe_text (kept @ '' '' @ sentence)"
        unfolding safe_text_def links_outside_space
        using False kept "2.prems" redacted_space [of kept sentence]
        by (auto simp: safe_text_def continues_sequence_def byte_def)
      with kept show ?thesis by simp
    qed
    with 2 False show ?thesis by (simp add: Let_def)
  qed
qed simp

lemma no_marker_no_link:
  assumes "list_all (\<lambda>m. \<not> contains_text t m) url_markers"
  shows "\<not> links_outside_appwrite t"
proof -
  have "contains_text t (trim_start_seqs quoting_chars w)" if "w \<in> set (split_whitespace t)" for w
    using split_whitespace_infix [OF that] strip_while_suffix [of w quoting_chars]
    unfolding trim_start_seqs_def by (metis contains_text_append2 contains_text_self contains_text_trans)
  then show ?thesis
    using assms contains_text_trans
    by (fastforce simp: links_outside_appwrite_def Let_def list_ex_iff list_all_iff)
qed

lemma fallback_safe: "safe_text (fallback_reason outcome)"
proof -
  have "\<not> links_outside_appwrite not_vulnerability_fallback" "\<not> links_outside_appwrite out_of_scope_fallback"
    by (rule no_marker_no_link, code_simp)+
  moreover have "\<not> contains_text not_vulnerability_fallback redacted" "\<not> contains_text out_of_scope_fallback redacted"
    by code_simp+
  moreover have "chars_count not_vulnerability_fallback \<le> 600" "chars_count out_of_scope_fallback \<le> 600"
    by (rule order_trans [OF chars_count_le_length], simp add: not_vulnerability_fallback_def out_of_scope_fallback_def)+
  ultimately have "safe_text not_vulnerability_fallback" "safe_text out_of_scope_fallback"
    by (simp_all add: safe_text_def max_shown_reason_chars_def)
  then show ?thesis by (cases outcome) (simp_all add: fallback_reason_def safe_text_Nil)
qed


section \<open>Templates\<close>

record SecurityTemplates =
  tm_confirmed :: string
  tm_not_reproducible :: string
  tm_already_fixed :: string
  tm_not_vulnerability :: string
  tm_out_of_scope :: string
  tm_duplicate :: string
  tm_fix_live :: string
  tm_fix_live_rewarded :: string

definition reason_placeholder :: string where
  "reason_placeholder = ''{reason}''"

definition fixed_on_placeholder :: string where
  "fixed_on_placeholder = ''{fixed_on}''"

definition known_placeholders :: "string list" where
  "known_placeholders = [reason_placeholder, fixed_on_placeholder]"

definition templates_named :: "SecurityTemplates \<Rightarrow> (string \<times> string) list" where
  "templates_named t =
     [(''confirmed'', tm_confirmed t), (''not_reproducible'', tm_not_reproducible t),
      (''already_fixed'', tm_already_fixed t), (''not_vulnerability'', tm_not_vulnerability t),
      (''out_of_scope'', tm_out_of_scope t), (''duplicate'', tm_duplicate t),
      (''fix_live'', tm_fix_live t), (''fix_live_rewarded'', tm_fix_live_rewarded t)]"

definition required_placeholder :: "string \<Rightarrow> string option" where
  "required_placeholder name =
     (if name = ''not_vulnerability'' \<or> name = ''out_of_scope'' then Some reason_placeholder
      else if name = ''already_fixed'' then Some fixed_on_placeholder
      else None)"

definition identifier_char :: "char \<Rightarrow> bool" where
  "identifier_char c \<longleftrightarrow> is_ascii_alphanumeric c \<or> c = CHR ''_''"

text \<open>Every \<open>{identifier}\<close>, from the text after each brace.\<close>

fun placeholders :: "string \<Rightarrow> string list" where
  "placeholders [] = []"
| "placeholders (c # cs) =
     (if c = CHR ''{'' then
        (case break_at (\<lambda>x. \<not> identifier_char x) cs of
           (name, rest) \<Rightarrow>
             (if name \<noteq> [] \<and> starts_with rest ''}'' then [CHR ''{'' # name @ ''}''] else []))
      else []) @ placeholders cs"

definition validate_template :: "string \<times> string \<Rightarrow> string + unit" where
  "validate_template named =
     (case named of (name, template) \<Rightarrow>
        (let field = ''issues.helpscout.security.templates.'' @ name
         in if trim template = [] then Inl (field @ '' must not be empty'')
            else (case find_by (\<lambda>p. p \<notin> set known_placeholders) (placeholders template) of
               Some unknown \<Rightarrow>
                 Inl (field @ '' uses unknown placeholder '' @ unknown @ ''; only '' @ reason_placeholder @
                   '' and '' @ fixed_on_placeholder @ '' are filled in'')
             | None \<Rightarrow>
                 (case required_placeholder name of
                    Some required \<Rightarrow>
                      if contains_text template required then Inr ()
                      else Inl (field @ '' must contain '' @ required)
                  | None \<Rightarrow> Inr ()))))"

fun validate_each :: "(string \<times> string) list \<Rightarrow> string + unit" where
  "validate_each [] = Inr ()"
| "validate_each (named # rest) =
     (case validate_template named of Inl e \<Rightarrow> Inl e | Inr u \<Rightarrow> validate_each rest)"

definition templates_validate :: "SecurityTemplates \<Rightarrow> string + unit" where
  "templates_validate t = validate_each (templates_named t)"

record SecurityReplyVariables =
  rv_reason :: "string option"
  rv_fixed_on :: "int option"

definition or_empty :: "string option \<Rightarrow> string" where
  "or_empty v = (case v of None \<Rightarrow> [] | Some s \<Rightarrow> s)"

lemma strip_prefix_shorter: "strip_prefix (p # ps) (c # rest) = Some after \<Longrightarrow> length after \<le> length rest"
  by (auto simp: strip_prefix_Some split: if_splits)

text \<open>The loop over the remaining template: up to the next brace, and the placeholder that may stand there.\<close>

function render_from :: "string \<Rightarrow> string \<Rightarrow> string \<Rightarrow> string" where
  "render_from reason fixed_on remaining =
     (case break_at (\<lambda>c. c = CHR ''{'') remaining of
        (before, []) \<Rightarrow> before
      | (before, c # rest) \<Rightarrow>
          before @
          (case strip_prefix reason_placeholder (c # rest) of
             Some after \<Rightarrow> reason @ render_from reason fixed_on after
           | None \<Rightarrow>
               (case strip_prefix fixed_on_placeholder (c # rest) of
                  Some after \<Rightarrow> fixed_on @ render_from reason fixed_on after
                | None \<Rightarrow> CHR ''{'' # render_from reason fixed_on rest)))"
  by pat_completeness auto

termination
  by (relation "measure (\<lambda>(r, f, s). length s)")
    (auto simp: reason_placeholder_def fixed_on_placeholder_def split: if_splits
      dest!: break_at_shorter [OF sym] dest: arg_cong [of _ _ length] simp: strip_prefix_Some)

declare render_from.simps [simp del]

definition render_security_template :: "(int \<Rightarrow> string) \<Rightarrow> string \<Rightarrow> SecurityReplyVariables \<Rightarrow> string" where
  "render_security_template format_date template variables =
     render_from (or_empty (rv_reason variables)) (or_empty (map_option format_date (rv_fixed_on variables))) template"

definition template_for :: "SecurityTemplates \<Rightarrow> SecurityReplyKind \<Rightarrow> string" where
  "template_for t kind =
     (case kind of
        SecurityReplyKind.Confirmed \<Rightarrow> tm_confirmed t
      | SecurityReplyKind.NotReproducible \<Rightarrow> tm_not_reproducible t
      | SecurityReplyKind.AlreadyFixed \<Rightarrow> tm_already_fixed t
      | SecurityReplyKind.NotVulnerability \<Rightarrow> tm_not_vulnerability t
      | SecurityReplyKind.OutOfScope \<Rightarrow> tm_out_of_scope t
      | SecurityReplyKind.Duplicate \<Rightarrow> tm_duplicate t
      | SecurityReplyKind.FixLive \<Rightarrow> tm_fix_live t
      | SecurityReplyKind.FixLiveRewarded \<Rightarrow> tm_fix_live_rewarded t)"

section \<open>Rendering, character by character\<close>

lemma break_at_Cons: "break_at p (c # cs) = (if p c then ([], c # cs) else (c # fst (break_at p cs), snd (break_at p cs)))"
  by (simp add: break_at_takeWhile)

lemma render_Nil [simp]: "render_from r f [] = []"
  by (simp add: render_from.simps)

lemma render_other [simp]: "c \<noteq> CHR ''{'' \<Longrightarrow> render_from r f (c # cs) = c # render_from r f cs"
  by (subst (1 2) render_from.simps) (auto split: prod.split list.split)

lemma render_reason: "render_from r f (reason_placeholder @ s) = r @ render_from r f s"
  by (subst render_from.simps) (simp add: reason_placeholder_def)

lemma render_fixed_on: "render_from r f (fixed_on_placeholder @ s) = f @ render_from r f s"
  by (subst render_from.simps) (simp add: reason_placeholder_def fixed_on_placeholder_def)

lemma render_brace:
  "\<not> starts_with (CHR ''{'' # s) reason_placeholder \<Longrightarrow> \<not> starts_with (CHR ''{'' # s) fixed_on_placeholder \<Longrightarrow>
     render_from r f (CHR ''{'' # s) = CHR ''{'' # render_from r f s"
  by (subst render_from.simps) (simp add: starts_with_def)

text \<open>A brace opens a placeholder or stands for itself.\<close>

lemma render_cases [case_names Nil other reason fixed_on brace]:
  obtains "s = []"
    | c cs where "s = c # cs" "c \<noteq> CHR ''{''"
    | t where "s = reason_placeholder @ t"
    | t where "s = fixed_on_placeholder @ t"
    | t where "s = CHR ''{'' # t" "\<not> starts_with s reason_placeholder" "\<not> starts_with s fixed_on_placeholder"
  by (metis starts_with_iff neq_Nil_conv)

lemma render_step_contains:
  assumes "p \<in> {reason_placeholder, fixed_on_placeholder}" "contains_text s p"
  shows "contains_text (render_from r f s) (if p = reason_placeholder then r else f)"
  using assms(2)
proof (induction s rule: length_induct)
  case (1 s)
  have p: "p \<noteq> []" "hd p = CHR ''{''"
    using assms(1) by (auto simp: reason_placeholder_def fixed_on_placeholder_def)
  have skip: "contains_text t p" if "CHR ''{'' \<notin> set a" "contains_text (a @ t) p" for a t
    using contains_past [OF that(1), of t "tl p"] that(2) p by (cases p) auto
  show ?case
  proof (cases s rule: render_cases)
    case Nil
    with 1 p show ?thesis by simp
  next
    case (other c cs)
    with 1 skip [of "[c]" cs] show ?thesis by (auto intro: contains_text_append2 [of _ _ "[c]", simplified])
  next
    case (reason t)
    show ?thesis
    proof (cases "p = reason_placeholder")
      case True
      with reason show ?thesis by (simp add: render_reason contains_text_append1)
    next
      case False
      with assms(1) have p_eq: "p = fixed_on_placeholder" by simp
      have "\<not> starts_with s p"
        unfolding reason p_eq by (simp add: starts_with_def reason_placeholder_def fixed_on_placeholder_def)
      with "1.prems" have "contains_text (''reason}'' @ t) p" by (simp add: reason reason_placeholder_def)
      then have "contains_text t p" by (rule skip [rotated]) simp
      moreover have "length t < length s" by (simp add: reason reason_placeholder_def)
      ultimately show ?thesis using "1.IH" False reason by (simp add: render_reason contains_text_append2)
    qed
  next
    case (fixed_on t)
    show ?thesis
    proof (cases "p = reason_placeholder")
      case False
      with assms(1) fixed_on show ?thesis by (simp add: render_fixed_on contains_text_append1)
    next
      case True
      have "\<not> starts_with s p"
        unfolding fixed_on True by (simp add: starts_with_def reason_placeholder_def fixed_on_placeholder_def)
      with "1.prems" have "contains_text (''fixed_on}'' @ t) p" by (simp add: fixed_on fixed_on_placeholder_def)
      then have "contains_text t p" by (rule skip [rotated]) simp
      moreover have "length t < length s" by (simp add: fixed_on fixed_on_placeholder_def)
      ultimately show ?thesis using "1.IH" True fixed_on by (simp add: render_fixed_on contains_text_append2)
    qed
  next
    case (brace t)
    with "1.prems" assms(1) have "contains_text t p" by auto
    with "1.IH" brace show ?thesis
      by (auto simp: render_brace intro: contains_text_append2 [of _ _ "[CHR ''{'']", simplified])
  qed
qed

lemma render_contains:
  "contains_text s reason_placeholder \<Longrightarrow> contains_text (render_from r f s) r"
  "contains_text s fixed_on_placeholder \<Longrightarrow> contains_text (render_from r f s) f"
  using render_step_contains [of reason_placeholder s r f] render_step_contains [of fixed_on_placeholder s r f]
  by (simp_all add: reason_placeholder_def fixed_on_placeholder_def)

lemma validate_each_Inr: "validate_each ts = Inr () \<longleftrightarrow> list_all (\<lambda>t. validate_template t = Inr ()) ts"
  by (induction ts rule: validate_each.induct) (auto split: sum.split)

lemma validated_placeholder:
  assumes "validate_template (name, template) = Inr ()" "required_placeholder name = Some required"
  shows "contains_text template required"
  using assms by (auto simp: validate_template_def Let_def split: if_splits option.splits)

text \<open>
  Templates that pass their validation show what the reporter must be told: a reply that the report
  is no vulnerability or out of scope contains the reason given to it, and a reply that the issue was already
  fixed contains the formatted date.
\<close>

theorem validated_templates_show_reason:
  "templates_validate templates = Inr () \<Longrightarrow>
     contains_text (render_security_template format_date (template_for templates SecurityReplyKind.NotVulnerability)
       \<lparr>rv_reason = Some reason, rv_fixed_on = date\<rparr>) reason \<and>
     contains_text (render_security_template format_date (template_for templates SecurityReplyKind.OutOfScope)
       \<lparr>rv_reason = Some reason, rv_fixed_on = date\<rparr>) reason \<and>
     contains_text (render_security_template format_date (template_for templates SecurityReplyKind.AlreadyFixed)
       \<lparr>rv_reason = r, rv_fixed_on = Some day\<rparr>) (format_date day)"
proof -
  assume "templates_validate templates = Inr ()"
  then have "list_all (\<lambda>t. validate_template t = Inr ()) (templates_named templates)"
    by (simp add: templates_validate_def validate_each_Inr)
  then have "contains_text (tm_not_vulnerability templates) reason_placeholder"
      "contains_text (tm_out_of_scope templates) reason_placeholder"
      "contains_text (tm_already_fixed templates) fixed_on_placeholder"
    by (auto simp: templates_named_def required_placeholder_def dest: validated_placeholder)
  then show ?thesis
    by (simp add: render_security_template_def template_for_def or_empty_def render_contains)
qed

definition sample_templates :: SecurityTemplates where
  "sample_templates =
     \<lparr>tm_confirmed = ''Hi'', tm_not_reproducible = ''Hi'', tm_already_fixed = ''Fixed on {fixed_on}.'',
      tm_not_vulnerability = ''No: {reason}'', tm_out_of_scope = ''No: {reason}'', tm_duplicate = ''Hi'',
      tm_fix_live = ''Hi'', tm_fix_live_rewarded = ''Hi''\<rparr>"

theorem validated_templates_show_reason_witness:
  "contains_text (render_security_template show_int (template_for sample_templates SecurityReplyKind.NotVulnerability)
     \<lparr>rv_reason = Some ''works {fixed_on}'', rv_fixed_on = None\<rparr>) ''works {fixed_on}''"
proof -
  have "trim t = t" if "t \<in> {''Hi'', ''Fixed on {fixed_on}.'', ''No: {reason}''}" for t
    using that by (intro trim_id) (auto simp: whitespace_encodings_chars)
  then have "templates_validate sample_templates = Inr ()"
    by (simp add: templates_validate_def templates_named_def sample_templates_def validate_template_def
        Let_def find_by_def known_placeholders_def reason_placeholder_def fixed_on_placeholder_def
        required_placeholder_def identifier_char_def is_ascii_alphanumeric_def is_digit_def is_ascii_upper_def
        is_ascii_lower_def byte_def starts_with_def)
  from validated_templates_show_reason [OF this] show ?thesis by blast
qed

end
