(* ===== verification/History.thy ===== *)
theory History
  imports Text_Search Prelude Tables
begin

text \<open>
  The read-only git queries of \<open>crates/claudear-engine/src/security/history.rs\<close>. Every argument an agent chose is
  checked first. Running git, resolving a path in the file system and parsing a date are parameters.
\<close>

definition max_paths :: nat where "max_paths = 10"
definition max_path_chars :: nat where "max_path_chars = 200"
definition max_terms :: nat where "max_terms = 5"
definition min_term_chars :: nat where "min_term_chars = 3"
definition max_term_chars :: nat where "max_term_chars = 100"
definition max_output_lines :: nat where "max_output_lines = 200"

section \<open>Arguments\<close>

definition is_lower_hex :: "char \<Rightarrow> bool" where
  "is_lower_hex c \<longleftrightarrow> is_digit c \<or> (97 \<le> byte c \<and> byte c \<le> 102)"

text \<open>\<open>^[0-9a-f]{7,40}$\<close> and \<open>^[A-Za-z0-9._/-]{1,100}$\<close>; the \<open>Debug\<close> form of a refused text is a parameter.\<close>

definition sha_is_match :: "string \<Rightarrow> bool" where
  "sha_is_match sha \<longleftrightarrow> 7 \<le> length sha \<and> length sha \<le> 40 \<and> list_all is_lower_hex sha"

definition branch_is_match :: "string \<Rightarrow> bool" where
  "branch_is_match branch \<longleftrightarrow>
     1 \<le> length branch \<and> length branch \<le> 100 \<and>
     list_all (\<lambda>c. is_ascii_alphanumeric c \<or> c \<in> {CHR ''.'', CHR ''_'', CHR ''/'', CHR ''-''}) branch"

definition validate_sha :: "(string \<Rightarrow> string) \<Rightarrow> string \<Rightarrow> unit result" where
  "validate_sha debug sha =
     (if sha_is_match sha then Inr () else Inl (Other (''invalid commit sha: '' @ debug sha)))"

definition validate_branch :: "(string \<Rightarrow> string) \<Rightarrow> string \<Rightarrow> unit result" where
  "validate_branch debug branch =
     (if branch_is_match branch \<and> \<not> starts_with branch ''-'' \<and> \<not> contains_text branch ''..''
      then Inr () else Inl (Other (''invalid default branch: '' @ debug branch)))"

text \<open>\<open>char::is_control\<close>: U+0000 to U+001F and U+007F to U+009F.\<close>

fun has_control :: "string \<Rightarrow> bool" where
  "has_control [] \<longleftrightarrow> False"
| "has_control (c # cs) \<longleftrightarrow>
     byte c < 32 \<or> byte c = 127 \<or>
     (byte c = 194 \<and> (case cs of [] \<Rightarrow> False | d # _ \<Rightarrow> 128 \<le> byte d \<and> byte d < 160)) \<or> has_control cs"

text \<open>
  A path is the list of its components: its pieces between slashes, without the empty ones and the single dots.
  Without a doubled dot or a leading slash, all components of a path are \<open>Normal\<close> or \<open>CurDir\<close>, as the code
  demands.
\<close>

definition path_components :: "string \<Rightarrow> string list" where
  "path_components path = filter (\<lambda>c. c \<noteq> [] \<and> c \<noteq> ''.'') (split_on (CHR ''/'') path)"

text \<open>Up the parents of the candidate to the first that exists; the root has no parent.\<close>

fun nearest_resolves :: "(string list \<Rightarrow> string list option) \<Rightarrow> string list \<Rightarrow> nat \<Rightarrow> string list \<Rightarrow> bool" where
  "nearest_resolves canonicalize root n existing =
     (case canonicalize existing of
        Some resolved \<Rightarrow> take (length root) resolved = root
      | None \<Rightarrow>
          (case n of
             0 \<Rightarrow> False
           | Suc m \<Rightarrow> if existing = [] then False else nearest_resolves canonicalize root m (butlast existing)))"

definition resolves_inside :: "(string list \<Rightarrow> string list option) \<Rightarrow> string list \<Rightarrow> string list \<Rightarrow> bool" where
  "resolves_inside canonicalize project_dir candidate =
     (case canonicalize project_dir of
        None \<Rightarrow> False
      | Some root \<Rightarrow> nearest_resolves canonicalize root (length candidate) candidate)"

definition is_safe_path :: "(string list \<Rightarrow> string list option) \<Rightarrow> string list \<Rightarrow> string \<Rightarrow> bool" where
  "is_safe_path canonicalize project_dir path \<longleftrightarrow>
     \<not> (path = [] \<or> max_path_chars < chars_count path \<or> starts_with path ''-'' \<or> starts_with path ''/'' \<or>
        contains_text path ''..'' \<or> has_control path) \<and>
     resolves_inside canonicalize project_dir (project_dir @ path_components path)"

definition validate_paths :: "(string list \<Rightarrow> string list option) \<Rightarrow> string list \<Rightarrow> string list \<Rightarrow> string list" where
  "validate_paths canonicalize project_dir paths =
     take max_paths (filter (is_safe_path canonicalize project_dir) paths)"

definition validate_terms :: "string list \<Rightarrow> string list" where
  "validate_terms terms =
     take max_terms (filter (\<lambda>term.
       (let n = chars_count term in min_term_chars \<le> n \<and> n \<le> max_term_chars) \<and>
       \<not> starts_with term ''-'' \<and> \<not> has_control term) terms)"

section \<open>Queries\<close>

record Commit =
  cm_sha :: string
  cm_committed_at :: string
  cm_subject :: string

text \<open>What git did: its exit code, none when a signal ended it, and what it wrote.\<close>

record git_output =
  go_code :: "int option"
  go_stdout :: string
  go_stderr :: string

record History =
  hi_project_dir :: "string list"
  hi_remote_branch :: string

definition new_history ::
    "(string \<Rightarrow> string) \<Rightarrow> (string list \<Rightarrow> string list option) \<Rightarrow> string \<Rightarrow> string list \<Rightarrow> string \<Rightarrow> History result" where
  "new_history debug canonicalize io_text project_dir default_branch =
     rbind (validate_branch debug default_branch) (\<lambda>_.
       case canonicalize project_dir of
         None \<Rightarrow> Inl (Io (''repository directory unavailable: '' @ io_text))
       | Some dir \<Rightarrow> Inr \<lparr>hi_project_dir = dir, hi_remote_branch = ''origin/'' @ default_branch\<rparr>)"

definition newline :: string where
  "newline = [CHR 0x0A]"

definition capped :: "string \<Rightarrow> string" where
  "capped t = join_with newline (take max_output_lines (text_lines t))"

text \<open>\<open>splitn(3, '\t')\<close>: at most two splits.\<close>

fun splitn :: "nat \<Rightarrow> char \<Rightarrow> string \<Rightarrow> string list" where
  "splitn 0 c s = []"
| "splitn (Suc 0) c s = [s]"
| "splitn (Suc (Suc n)) c s =
     (case break_at (\<lambda>x. x = c) s of
        (before, []) \<Rightarrow> [before]
      | (before, _ # rest) \<Rightarrow> before # splitn (Suc n) c rest)"

definition parse_line :: "string \<Rightarrow> Commit option" where
  "parse_line line =
     (case splitn 3 (CHR 0x09) line of
        sha # committed_at # rest \<Rightarrow>
          if sha_is_match sha
          then Some \<lparr>cm_sha = sha, cm_committed_at = committed_at,
                     cm_subject = (case rest of [] \<Rightarrow> [] | subject # _ \<Rightarrow> subject)\<rparr>
          else None
      | _ \<Rightarrow> None)"

definition parse_log :: "string \<Rightarrow> Commit list" where
  "parse_log output = List.map_filter parse_line (text_lines output)"

definition log_arguments :: "string \<Rightarrow> string list" where
  "log_arguments limit = [''log'', ''--no-color'', ''--format=%H%x09%cI%x09%s'', ''-n'', limit]"

definition touching_arguments :: "History \<Rightarrow> string list \<Rightarrow> string list" where
  "touching_arguments h paths = log_arguments ''40'' @ [hi_remote_branch h, ''--''] @ paths"

definition mentioning_arguments :: "History \<Rightarrow> string \<Rightarrow> string list" where
  "mentioning_arguments h term = log_arguments ''20'' @ [''-S'' @ term, hi_remote_branch h]"

definition show_arguments :: "string \<Rightarrow> string list" where
  "show_arguments sha = [''show'', ''-s'', ''--format=%H%x00%cI'', sha]"

definition landing_arguments :: "History \<Rightarrow> string \<Rightarrow> string list" where
  "landing_arguments h full =
     [''log'', ''--no-color'', ''--ancestry-path'', ''--first-parent'', ''--format=%H%x00%cI%x00%P'',
      full @ ''..'' @ hi_remote_branch h]"

definition ancestor_arguments :: "History \<Rightarrow> string \<Rightarrow> string list" where
  "ancestor_arguments h sha = [''merge-base'', ''--is-ancestor'', sha, hi_remote_branch h]"

definition succeeded :: "git_output \<Rightarrow> bool" where
  "succeeded output \<longleftrightarrow> go_code output = Some 0"

text \<open>\<open>git\<close>, given what running the arguments gave.\<close>

definition git_stdout :: "string list \<Rightarrow> git_output result \<Rightarrow> string result" where
  "git_stdout arguments outcome =
     rbind outcome (\<lambda>output.
       if succeeded output then Inr (capped (go_stdout output))
       else Inl (Git (''git '' @ (case arguments of [] \<Rightarrow> [] | a # _ \<Rightarrow> a) @ '' failed: '' @ capped (go_stderr output))))"

text \<open>The library's parser of RFC 3339 instants gives its message or the instant.\<close>

definition parse_date :: "(string \<Rightarrow> string + datetime) \<Rightarrow> string \<Rightarrow> string \<Rightarrow> datetime result" where
  "parse_date parse_rfc3339 date sha =
     (case parse_rfc3339 (trim date) of
        Inl e \<Rightarrow> Inl (Git (''unparseable commit date for '' @ sha @ '': '' @ e))
      | Inr t \<Rightarrow> Inr t)"

definition first_line :: "string \<Rightarrow> string" where
  "first_line s = (case text_lines s of [] \<Rightarrow> [] | l # _ \<Rightarrow> l)"

definition split_once :: "char \<Rightarrow> string \<Rightarrow> (string \<times> string) option" where
  "split_once c s = (case break_at (\<lambda>x. x = c) s of (a, []) \<Rightarrow> None | (a, _ # b) \<Rightarrow> Some (a, b))"

text \<open>The full sha and committer date \<open>git show\<close> printed.\<close>

definition read_commit_date ::
    "(string \<Rightarrow> string) \<Rightarrow> (string \<Rightarrow> string + datetime) \<Rightarrow> string \<Rightarrow> string \<Rightarrow> (string \<times> datetime) result" where
  "read_commit_date debug parse_rfc3339 sha stdout =
     (case split_once (CHR 0x00) (first_line stdout) of
        None \<Rightarrow> Inl (Git (''unexpected git show output for '' @ sha))
      | Some (full, date) \<Rightarrow>
          rbind (validate_sha debug full) (\<lambda>_. rmap (Pair full) (parse_date parse_rfc3339 date sha)))"

text \<open>When \<open>full\<close>, committed at \<open>committed_at\<close>, became reachable, by the first-parent log after it.\<close>

definition read_landing ::
    "(string \<Rightarrow> string) \<Rightarrow> (string \<Rightarrow> string + datetime) \<Rightarrow> string \<Rightarrow> datetime \<Rightarrow> git_output \<Rightarrow>
       (string \<times> datetime) result" where
  "read_landing debug parse_rfc3339 full committed_at output =
     (if \<not> succeeded output
      then Inl (Git (''git log failed for '' @ full @ '': '' @ capped (go_stderr output)))
      else (case find_by (\<lambda>line. trim line \<noteq> []) (rev (text_lines (go_stdout output))) of
         None \<Rightarrow> Inr (full, committed_at)
       | Some oldest \<Rightarrow>
           (case split_on (CHR 0x00) oldest of
              merge # date # parents # _ \<Rightarrow>
                rbind (validate_sha debug merge) (\<lambda>_.
                  case split_whitespace parents of
                    parent # _ \<Rightarrow>
                      if parent = full then Inr (full, committed_at)
                      else rmap (Pair full) (parse_date parse_rfc3339 date merge)
                  | [] \<Rightarrow> rmap (Pair full) (parse_date parse_rfc3339 date merge))
            | _ \<Rightarrow> Inl (Git (''unexpected git log output for '' @ full)))))"

definition read_ancestor :: "string \<Rightarrow> git_output \<Rightarrow> bool result" where
  "read_ancestor sha output =
     (if go_code output = Some 0 then Inr True
      else if go_code output = Some 1 then Inr False
      else Inl (Git (''git merge-base failed for '' @ sha @ '': '' @ capped (go_stderr output))))"

end
