(* ===== verification/Floats.thy ===== *)
theory Floats
  imports Security_Store
begin

text \<open>
  IEEE numbers as their bits, as far as the security inbox compares them: \<open>f64\<close> confidences and \<open>f32\<close>
  similarities. No arithmetic is modelled.
\<close>

definition magnitude_key :: "int \<Rightarrow> int \<Rightarrow> int" where
  "magnitude_key sign_bit bits = (if bits < sign_bit then bits else sign_bit - bits)"

definition f64_key :: "f64 \<Rightarrow> int" where
  "f64_key w = magnitude_key (2 ^ 63) (uint w)"

text \<open>\<open>a <= b\<close> and \<open>a < b\<close>, which are false of NaNs; the two zeros are equal.\<close>

definition f64_le :: "f64 \<Rightarrow> f64 \<Rightarrow> bool" where
  "f64_le a b \<longleftrightarrow> \<not> f64_is_nan a \<and> \<not> f64_is_nan b \<and> f64_key a \<le> f64_key b"

definition f64_less :: "f64 \<Rightarrow> f64 \<Rightarrow> bool" where
  "f64_less a b \<longleftrightarrow> \<not> f64_is_nan a \<and> \<not> f64_is_nan b \<and> f64_key a < f64_key b"

definition f64_zero :: f64 where
  "f64_zero = 0"

definition f64_one :: f64 where
  "f64_one = 0x3FF0000000000000"

definition f64_clamp :: "f64 \<Rightarrow> f64 \<Rightarrow> f64 \<Rightarrow> f64" where
  "f64_clamp x low high =
     (let x = (if f64_less x low then low else x) in if f64_less high x then high else x)"

definition f32_is_nan :: "f32 \<Rightarrow> bool" where
  "f32_is_nan w \<longleftrightarrow> uint w div 2 ^ 23 mod 2 ^ 8 = 255 \<and> uint w mod 2 ^ 23 \<noteq> 0"

definition f32_key :: "f32 \<Rightarrow> int" where
  "f32_key w = magnitude_key (2 ^ 31) (uint w)"

definition f32_le :: "f32 \<Rightarrow> f32 \<Rightarrow> bool" where
  "f32_le a b \<longleftrightarrow> \<not> f32_is_nan a \<and> \<not> f32_is_nan b \<and> f32_key a \<le> f32_key b"

text \<open>\<open>total_cmp\<close>: the negative numbers in reverse, below all others.\<close>

definition f32_total_key :: "f32 \<Rightarrow> int" where
  "f32_total_key w = (if uint w < 2 ^ 31 then uint w else 2 ^ 31 - 1 - uint w)"

text \<open>A JSON number is finite: a NaN or an infinity becomes \<open>null\<close>.\<close>

definition json_f64 :: "f64 \<Rightarrow> json" where
  "json_f64 w = (if uint w div 2 ^ 52 mod 2 ^ 11 = 2047 then JNull else JReal w)"

end
