(* ===== verification/Assessment.thy ===== *)
theory Assessment
  imports History Owner_Pings Security_Rows Floats
begin

text \<open>
  The data of an assessment, \<open>crates/claudear-engine/src/security/assessment.rs\<close>: what an agent said of a report,
  the verdict, and the repository it named.
\<close>

section \<open>Assessments\<close>

record Assessment =
  as_title :: string
  as_summary :: string
  as_root_cause :: string
  as_suggested_fix :: string
  as_evidence :: string
  as_public_reason :: string
  as_severity :: "SecuritySeverity option"

definition no_assessment :: Assessment where
  "no_assessment =
     \<lparr>as_title = [], as_summary = [], as_root_cause = [], as_suggested_fix = [], as_evidence = [],
      as_public_reason = [], as_severity = None\<rparr>"

definition assessment_detail :: "Assessment \<Rightarrow> string \<Rightarrow> string option \<Rightarrow> json" where
  "assessment_detail a outcome repository =
     JObj [(''outcome'', JStr outcome), (''title'', JStr (as_title a)), (''summary'', JStr (as_summary a)),
           (''root_cause'', JStr (as_root_cause a)), (''suggested_fix'', JStr (as_suggested_fix a)),
           (''evidence'', JStr (as_evidence a)),
           (''severity'', json_opt (\<lambda>s. JStr (severity_as_str s)) (as_severity a)),
           (''repository'', json_opt JStr repository)]"

text \<open>\<open>detail.get(key).and_then(Value::as_str)\<close>, and the same with the empty text for none.\<close>

definition detail_str :: "string \<Rightarrow> json \<Rightarrow> string option" where
  "detail_str key detail = Option.bind (json_get key detail) json_as_str"

definition detail_text :: "string \<Rightarrow> json \<Rightarrow> string" where
  "detail_text key detail = (case detail_str key detail of None \<Rightarrow> [] | Some s \<Rightarrow> s)"

fun ok_value :: "string + 'a \<Rightarrow> 'a option" where
  "ok_value (Inl e) = None"
| "ok_value (Inr x) = Some x"

definition assessment_from_detail :: "json \<Rightarrow> Assessment" where
  "assessment_from_detail detail =
     \<lparr>as_title = detail_text ''title'' detail, as_summary = detail_text ''summary'' detail,
      as_root_cause = detail_text ''root_cause'' detail, as_suggested_fix = detail_text ''suggested_fix'' detail,
      as_evidence = detail_text ''evidence'' detail, as_public_reason = [],
      as_severity = Option.bind (detail_str ''severity'' detail) (\<lambda>s. ok_value (severity_from_str s))\<rparr>"

definition scrub_assessment :: "(string \<Rightarrow> string) \<Rightarrow> Assessment \<Rightarrow> Assessment" where
  "scrub_assessment scrub_internal a =
     a\<lparr>as_title := scrub_internal (as_title a), as_summary := scrub_internal (as_summary a),
       as_root_cause := scrub_internal (as_root_cause a), as_suggested_fix := scrub_internal (as_suggested_fix a),
       as_evidence := scrub_internal (as_evidence a), as_public_reason := scrub_internal (as_public_reason a)\<rparr>"

section \<open>Merged fixes and verdicts\<close>

record MergedFix =
  mf_commit :: string
  mf_merged_at :: datetime

definition merged_fix_record :: "(datetime \<Rightarrow> string) \<Rightarrow> MergedFix \<Rightarrow> json \<Rightarrow> json" where
  "merged_fix_record to_rfc3339 m detail =
     json_set ''merged_at'' (JStr (to_rfc3339 (mf_merged_at m)))
       (json_set ''fixed_by_commit'' (JStr (mf_commit m)) detail)"

definition merged_fix_from_detail :: "(string \<Rightarrow> string + datetime) \<Rightarrow> json \<Rightarrow> MergedFix option" where
  "merged_fix_from_detail parse_rfc3339 detail =
     (case detail_str ''fixed_by_commit'' detail of
        None \<Rightarrow> None
      | Some commit \<Rightarrow>
          if \<not> sha_is_match commit then None
          else (case Option.bind (detail_str ''merged_at'' detail) (\<lambda>t. ok_value (parse_rfc3339 t)) of
             None \<Rightarrow> None
           | Some merged_at \<Rightarrow> Some \<lparr>mf_commit = commit, mf_merged_at = merged_at\<rparr>))"

datatype Verdict =
    Valid
  | FixedAfterReport MergedFix
  | NotReproducible
  | AlreadyFixed string day
  | NotVulnerability
  | OutOfScope
  | NeedsHuman ReviewReason
  | UnindexedRepository string
  | ConflictingRepository string

fun verdict_review_reason :: "Verdict \<Rightarrow> ReviewReason option" where
  "verdict_review_reason (Verdict.NeedsHuman reason) = Some reason"
| "verdict_review_reason (Verdict.FixedAfterReport m) = Some ReviewReason.FixFoundInHistory"
| "verdict_review_reason (Verdict.UnindexedRepository r) = Some ReviewReason.UnindexedRepository"
| "verdict_review_reason (Verdict.ConflictingRepository r) = Some ReviewReason.AssessmentInconclusive"
| "verdict_review_reason _ = None"

fun verdict_record :: "(datetime \<Rightarrow> string) \<Rightarrow> (string \<Rightarrow> string) \<Rightarrow> Verdict \<Rightarrow> json \<Rightarrow> json" where
  "verdict_record to_rfc3339 scrub_internal (Verdict.FixedAfterReport m) detail =
     merged_fix_record to_rfc3339 m detail"
| "verdict_record to_rfc3339 scrub_internal (Verdict.UnindexedRepository r) detail =
     json_set ''named_repository'' (JStr (scrub_internal r)) detail"
| "verdict_record to_rfc3339 scrub_internal (Verdict.ConflictingRepository r) detail =
     json_set ''named_repository'' (JStr (scrub_internal r)) detail"
| "verdict_record to_rfc3339 scrub_internal _ detail = detail"

record AssessmentResult =
  ar_assessment :: Assessment
  ar_verdict :: Verdict
  ar_repository :: "string option"

record ReportText =
  rt_subject :: string
  rt_body :: string
  rt_attachments :: "string list"
  rt_reported_at :: datetime

datatype AgentOutcome = Valid | NotReproducible | NotVulnerability | OutOfScope | NeedsHuman

record PhaseA =
  pa_outcome :: AgentOutcome
  pa_affected_repository :: string
  pa_title :: string
  pa_summary :: string
  pa_public_reason :: string
  pa_severity :: string
  pa_root_cause :: string
  pa_suggested_fix :: string
  pa_evidence :: string
  pa_history_paths :: "string list"
  pa_history_terms :: "string list"

definition phase_assessment :: "(string \<Rightarrow> string) \<Rightarrow> PhaseA \<Rightarrow> Assessment" where
  "phase_assessment scrub_internal phase =
     scrub_assessment scrub_internal
       \<lparr>as_title = pa_title phase, as_summary = pa_summary phase, as_root_cause = pa_root_cause phase,
        as_suggested_fix = pa_suggested_fix phase, as_evidence = pa_evidence phase,
        as_public_reason = pa_public_reason phase, as_severity = ok_value (severity_from_str (pa_severity phase))\<rparr>"

definition phase_unresolved :: "(string \<Rightarrow> string) \<Rightarrow> PhaseA \<Rightarrow> Verdict \<Rightarrow> AssessmentResult" where
  "phase_unresolved scrub_internal phase verdict =
     \<lparr>ar_assessment = phase_assessment scrub_internal phase, ar_verdict = verdict, ar_repository = None\<rparr>"

section \<open>Screening\<close>

text \<open>\<open>crates/claudear-engine/src/security/screening.rs\<close>.\<close>

definition min_report_chars :: nat where
  "min_report_chars = 20"

datatype ScreeningVerdict = Spam | Report

record ScreeningResponse =
  sc_verdict :: ScreeningVerdict
  sc_confidence :: f64

datatype Screening = Spam f64 | Report "f64 option"

text \<open>\<open>HTML_TAG.replace_all(body, " ")\<close> for \<open><[^>]*>\<close>.\<close>

function strip_tags :: "string \<Rightarrow> string" where
  "strip_tags [] = []"
| "strip_tags (c # cs) =
     (if c = CHR ''<''
      then (case break_at (\<lambda>x. x = CHR ''>'') cs of
              (_, []) \<Rightarrow> c # strip_tags cs
            | (_, _ # rest) \<Rightarrow> CHR '' '' # strip_tags rest)
      else c # strip_tags cs)"
  by pat_completeness auto
termination
  by (relation "measure length")
    (auto dest!: break_at_shorter [OF sym])

definition is_trivially_empty :: "ReportText \<Rightarrow> bool" where
  "is_trivially_empty report \<longleftrightarrow>
     rt_attachments report = [] \<and> chars_count (trim (strip_tags (rt_body report))) < min_report_chars"

definition screening_of :: "f64 \<Rightarrow> ScreeningResponse \<Rightarrow> Screening" where
  "screening_of spam_confidence response =
     (let confidence = f64_clamp (sc_confidence response) f64_zero f64_one
      in if sc_verdict response = ScreeningVerdict.Spam \<and> f64_le spam_confidence confidence
         then Screening.Spam confidence
         else Screening.Report (Some confidence))"

section \<open>Named repositories\<close>

definition url_schemes :: "string list" where
  "url_schemes = [''https://'', ''http://'', ''ssh://'', ''git://'']"

definition strip_prefix_ignoring_case :: "string \<Rightarrow> string \<Rightarrow> string option" where
  "strip_prefix_ignoring_case t prefix =
     (if length prefix \<le> length t \<and> eq_ignore_ascii_case (take (length prefix) t) prefix
      then Some (drop (length prefix) t) else None)"

fun first_stripped :: "string \<Rightarrow> string list \<Rightarrow> string" where
  "first_stripped t [] = t"
| "first_stripped t (p # ps) =
     (case strip_prefix_ignoring_case t p of Some rest \<Rightarrow> rest | None \<Rightarrow> first_stripped t ps)"

definition github_path :: "string \<Rightarrow> string option" where
  "github_path reference =
     (let unschemed = first_stripped reference url_schemes;
          host = first_stripped unschemed [''git@''];
          host = first_stripped host [''www.'']
      in case strip_prefix_ignoring_case host ''github.com'' of
           Some (c # path) \<Rightarrow> if c = CHR ''/'' \<or> c = CHR '':'' then Some path else None
         | _ \<Rightarrow> None)"

definition github_repository :: "string \<Rightarrow> string option" where
  "github_repository path =
     (let path = trim_start_seqs [''/''] (fst (break_at (\<lambda>c. c = CHR ''?'' \<or> c = CHR ''#'') path))
      in case splitn 3 (CHR ''/'') path of
           owner # name # _ \<Rightarrow> Some (take (length owner + 1 + length name) path)
         | _ \<Rightarrow> None)"

definition repository_char :: "char \<Rightarrow> bool" where
  "repository_char c \<longleftrightarrow> is_ascii_alphanumeric c \<or> c \<in> {CHR ''-'', CHR ''_'', CHR ''.'', CHR ''/''}"

definition strip_suffix :: "string \<Rightarrow> string \<Rightarrow> string" where
  "strip_suffix t suffix = (case strip_prefix (rev suffix) (rev t) of None \<Rightarrow> t | Some r \<Rightarrow> rev r)"

definition plausible_name :: "string \<Rightarrow> bool" where
  "plausible_name name \<longleftrightarrow>
     2 \<le> length (split_on (CHR ''/'') name) \<and> list_all (\<lambda>s. s \<noteq> []) (split_on (CHR ''/'') name) \<and>
     list_all repository_char name \<and> \<not> contains_text name ''..''"

definition repository_name :: "string \<Rightarrow> string option" where
  "repository_name reference =
     (let trimmed = trim reference
      in case (case github_path trimmed of
                 Some path \<Rightarrow> github_repository path
               | None \<Rightarrow>
                   if list_ex (\<lambda>c. c = CHR '':'' \<or> c = CHR ''@'') trimmed then None
                   else Some (trim_end_seqs [''/''] (trim_start_seqs [''/''] trimmed))) of
           None \<Rightarrow> None
         | Some name \<Rightarrow>
             (let name = strip_suffix name ''.git'' in if plausible_name name then Some name else None))"

definition is_same_repository :: "string \<Rightarrow> string \<Rightarrow> bool" where
  "is_same_repository name checked \<longleftrightarrow>
     eq_ignore_ascii_case name (case repository_name checked of Some n \<Rightarrow> n | None \<Rightarrow> trim checked)"

datatype NamedRepository = Checked | Other string | Unrecognised string

definition named_repository :: "PhaseA \<Rightarrow> string \<Rightarrow> NamedRepository" where
  "named_repository phase checked =
     (let reference = trim (pa_affected_repository phase)
      in if reference = [] \<or> eq_ignore_ascii_case reference (trim checked) then NamedRepository.Checked
         else (case repository_name reference of
             Some name \<Rightarrow>
               if is_same_repository name checked then NamedRepository.Checked else NamedRepository.Other name
           | None \<Rightarrow> NamedRepository.Unrecognised reference))"

fun named_elsewhere :: "NamedRepository \<Rightarrow> string option" where
  "named_elsewhere NamedRepository.Checked = None"
| "named_elsewhere (NamedRepository.Other reference) = Some reference"
| "named_elsewhere (NamedRepository.Unrecognised reference) = Some reference"

section \<open>Spellings of a repository\<close>

definition repository_segment :: "string \<Rightarrow> bool" where
  "repository_segment t \<longleftrightarrow>
     t \<noteq> [] \<and> list_all (\<lambda>c. repository_char c \<and> c \<noteq> CHR ''/'') t \<and> \<not> contains_text t ''..''"

definition spelled :: "string \<Rightarrow> string \<Rightarrow> string \<Rightarrow> char \<Rightarrow> string \<Rightarrow> string" where
  "spelled scheme user www separator path = scheme @ user @ www @ ''github.com'' @ separator # path"

lemma strip_prefix_ignoring_case_simps:
  "strip_prefix_ignoring_case t [] = Some t"
  "strip_prefix_ignoring_case [] (q # p) = None"
  "strip_prefix_ignoring_case (c # t) (q # p) =
     (if to_ascii_lower c = to_ascii_lower q then strip_prefix_ignoring_case t p else None)"
  by (auto simp: strip_prefix_ignoring_case_def eq_ignore_ascii_case_def ascii_lowercase_def)

lemma scheme_letters:
  "map to_ascii_lower ''htpsgi:w/.ubcom@'' = ''htpsgi:w/.ubcom@''"
  by code_simp

lemma github_path_spelled:
  assumes "scheme \<in> {[], ''https://'', ''http://'', ''ssh://'', ''git://''}" "user \<in> {[], ''git@''}"
    "www \<in> {[], ''www.''}" "separator \<in> {CHR ''/'', CHR '':''}"
  shows "github_path (spelled scheme user www separator path) = Some path"
  using assms
  using scheme_letters
  by (auto simp: github_path_def spelled_def url_schemes_def strip_prefix_ignoring_case_simps Let_def)

lemma ends_with_after:
  assumes "x \<notin> set p" "ends_with (a @ x # b) p"
  shows "ends_with b p"
proof -
  obtain r where "a @ x # b = r @ p" using assms(2) by (auto simp: ends_with_iff)
  then consider d where "a = r @ d" "d @ x # b = p" | d where "r = a @ d" "x # b = d @ p"
    unfolding append_eq_append_conv2 by auto
  then show ?thesis
  proof cases
    case 1
    then have "x \<in> set p" by auto
    with assms(1) show ?thesis by simp
  next
    case 2
    then show ?thesis using assms(1) by (cases d) (auto simp: ends_with_iff)
  qed
qed

lemma strip_suffix_none: "\<not> ends_with t p \<Longrightarrow> strip_suffix t p = t"
  by (auto simp: strip_suffix_def ends_with_def split: option.splits)

lemma strip_suffix_append: "strip_suffix (t @ p) p = t"
  by (simp add: strip_suffix_def)

lemma segment_free:
  "repository_segment t \<Longrightarrow> c \<in> {CHR ''/'', CHR ''?'', CHR ''#''} \<Longrightarrow> c \<notin> set t"
proof -
  have "\<not> repository_char (CHR ''?'')" "\<not> repository_char (CHR ''#'')" by code_simp+
  then show "repository_segment t \<Longrightarrow> c \<in> {CHR ''/'', CHR ''?'', CHR ''#''} \<Longrightarrow> c \<notin> set t"
    by (auto simp: repository_segment_def list_all_iff)
qed

text \<open>What may follow the name: the suffix of a clone address, or anything below, a query or a fragment.\<close>

definition below_repository :: "string \<Rightarrow> bool" where
  "below_repository rest \<longleftrightarrow> rest = [] \<or> rest = ''.git'' \<or> hd rest \<in> {CHR ''/'', CHR ''?'', CHR ''#''}"

lemma takeWhile_segment:
  "repository_segment t \<Longrightarrow> takeWhile (\<lambda>c. c \<noteq> CHR ''?'' \<and> c \<noteq> CHR ''#'') (t @ r) =
     t @ takeWhile (\<lambda>c. c \<noteq> CHR ''?'' \<and> c \<noteq> CHR ''#'') r"
  by (rule takeWhile_append2) (use segment_free [of t] in blast)

lemma break_at_free: "list_all (\<lambda>c. \<not> p c) a \<Longrightarrow> p x \<Longrightarrow> break_at p (a @ x # b) = (a, x # b)"
  by (induction a) auto

lemma break_at_all_free: "list_all (\<lambda>c. \<not> p c) a \<Longrightarrow> break_at p a = (a, [])"
  by (induction a) auto

lemma segment_no_slash: "repository_segment t \<Longrightarrow> list_all (\<lambda>c. \<not> c = CHR ''/'') t"
  by (auto simp: repository_segment_def list_all_iff)

lemma github_repository_spelled:
  assumes owner: "repository_segment owner" and name: "repository_segment name" and rest: "below_repository rest"
  shows "github_repository (owner @ CHR ''/'' # name @ rest) =
    Some (owner @ CHR ''/'' # name @ (if rest = ''.git'' then rest else []))"
proof -
  define cut where "cut = takeWhile (\<lambda>c. c \<noteq> CHR ''?'' \<and> c \<noteq> CHR ''#'') rest"
  define path where "path = owner @ CHR ''/'' # name @ cut"
  have "fst (break_at (\<lambda>c. c = CHR ''?'' \<or> c = CHR ''#'') (owner @ CHR ''/'' # name @ rest)) = path"
    by (simp add: break_at_takeWhile takeWhile_segment owner name path_def cut_def)
  moreover have "trim_start_seqs [''/''] path = path"
    using owner by (cases owner) (auto simp: path_def trim_start_seqs_def repository_segment_def strip_while_unfold)
  moreover have "\<exists>more. splitn 3 (CHR ''/'') path = owner # (name @ (if rest = ''.git'' then rest else [])) # more"
  proof -
    have "splitn 3 (CHR ''/'') path = owner # splitn 2 (CHR ''/'') (name @ cut)"
      using break_at_free [OF segment_no_slash [OF owner], of "CHR ''/''"] by (simp add: path_def numeral_3_eq_3 numeral_2_eq_2)
    moreover have "cut = [] \<or> cut = ''.git'' \<and> rest = ''.git'' \<or> rest \<noteq> ''.git'' \<and> (\<exists>below. cut = CHR ''/'' # below)"
      using rest by (cases rest) (auto simp: below_repository_def cut_def)
    moreover have "cut = ''.git''" if "rest = ''.git''" by (simp add: cut_def that)
    moreover have "break_at (\<lambda>c. c = CHR ''/'') (name @ ''.git'') = (name @ ''.git'', [])"
      by (rule break_at_all_free) (use segment_no_slash [OF name] in simp)
    ultimately show ?thesis
      using break_at_free [OF segment_no_slash [OF name], of "CHR ''/''"] break_at_all_free [OF segment_no_slash [OF name]]
      by (auto simp: numeral_2_eq_2)
  qed
  ultimately show ?thesis
    by (auto simp: github_repository_def Let_def path_def cut_def)
qed

lemma plausible_segments:
  assumes "repository_segment owner" "repository_segment name"
  shows "plausible_name (owner @ CHR ''/'' # name)"
proof -
  have "split_on (CHR ''/'') (owner @ CHR ''/'' # name) = [owner, name]"
    using assms segment_free by (simp add: split_on_append split_on_free)
  moreover have "\<not> contains_text (owner @ CHR ''/'' # name) ''..''"
    using assms contains_text_around [of "CHR ''/''" "''..''" owner name] by (auto simp: repository_segment_def)
  ultimately show ?thesis
    using assms by (auto simp: plausible_name_def repository_segment_def repository_char_def list_all_iff)
qed

text \<open>
  Every spelling of a GitHub repository an agent may give (a URL of any of the known schemes, an SSH
  remote, with or without the \<open>www\<close> subdomain, as a clone address, or of a page below the repository, with a
  query or fragment) names that repository.
\<close>

theorem repository_spellings_agree:
  assumes "scheme \<in> {[], ''https://'', ''http://'', ''ssh://'', ''git://''}" "user \<in> {[], ''git@''}"
    "www \<in> {[], ''www.''}" "separator \<in> {CHR ''/'', CHR '':''}"
    and "repository_segment owner" "repository_segment name" "\<not> ends_with name ''.git''" "below_repository rest"
    and "trim reference = spelled scheme user www separator (owner @ CHR ''/'' # name @ rest)"
  shows "repository_name reference = Some (owner @ CHR ''/'' # name)"
proof -
  have "\<not> ends_with (owner @ CHR ''/'' # name) ''.git''"
    using assms(7) ends_with_after [of "CHR ''/''" "''.git''" owner name] by auto
  then have "strip_suffix (owner @ CHR ''/'' # name @ (if rest = ''.git'' then rest else [])) ''.git'' =
      owner @ CHR ''/'' # name"
    using strip_suffix_append [of "owner @ CHR ''/'' # name" "''.git''"] by (simp add: strip_suffix_none)
  then show ?thesis
    using assms github_path_spelled [OF assms(1-4)] github_repository_spelled [OF assms(5,6,8)]
    by (simp add: repository_name_def Let_def plausible_segments)
qed

theorem repository_spellings_agree_witness:
  "repository_name '' git@github.com:appwrite/appwrite.git '' = Some ''appwrite/appwrite''"
proof -
  have "trim '' git@github.com:appwrite/appwrite.git '' = ''git@github.com:appwrite/appwrite.git''"
    by (simp add: trim_def trim_start_seqs_def trim_end_seqs_def whitespace_encodings_chars strip_while_unfold)
  moreover have "repository_segment ''appwrite''" "\<not> ends_with ''appwrite'' ''.git''" by code_simp+
  ultimately show ?thesis
    using repository_spellings_agree [of "[]" "''git@''" "[]" "CHR '':''" "''appwrite''" "''appwrite''" "''.git''"
        "'' git@github.com:appwrite/appwrite.git ''"]
    by (simp add: spelled_def below_repository_def)
qed

section \<open>What an event keeps of an assessment\<close>

text \<open>
  The detail of an assessment event gives the assessment back, apart from the public reason, which is
  not stored; and with a fix found in history it gives that fix back, its instant as the library reads back what it
  wrote, exactly when the commit is a sha.
\<close>

theorem assessment_detail_round_trip:
  "assessment_from_detail (assessment_detail a outcome repository) = a\<lparr>as_public_reason := []\<rparr> \<and>
   merged_fix_from_detail parse (merged_fix_record to_rfc3339 m (assessment_detail a outcome repository)) =
     (if sha_is_match (mf_commit m)
      then map_option (\<lambda>t. \<lparr>mf_commit = mf_commit m, mf_merged_at = t\<rparr>) (ok_value (parse (to_rfc3339 (mf_merged_at m))))
      else None)"
proof -
  have "ok_value (severity_from_str (severity_as_str s)) = Some s" for s
    using severity_from_str_Inr [of "severity_as_str s" s] by simp
  then show ?thesis
    by (cases "as_severity a"; cases "ok_value (parse (to_rfc3339 (mf_merged_at m)))")
      (simp_all add: assessment_from_detail_def assessment_detail_def detail_text_def detail_str_def json_opt_def
        merged_fix_from_detail_def merged_fix_record_def)
qed

end
