(* ===== verification/Inbox.thy ===== *)
theory Inbox
  imports Security_Exact Owner_Pings Reply_Texts Assessment
begin

text \<open>
  The security inbox of \<open>crates/claudear-engine/src/security\<close>: its state and configuration, the owner pings of
  \<open>notify.rs\<close> and the customer replies of \<open>replies.rs\<close>. The mail source, the regular expressions that scrub
  texts and the rendering of reply bodies are parameters. Each reading of the clock is one tick of an arbitrary
  clock. A delivery is given in the four parts between which other calls may run (\<open>deliver_check\<close>,
  \<open>deliver_claim\<close>, \<open>deliver_send\<close>, \<open>deliver_record\<close>), of which \<open>deliver\<close> is the sequence.
\<close>

section \<open>State and configuration\<close>

datatype ConversationStatus = Active | Pending | Closed

fun conversation_status_as_str :: "ConversationStatus \<Rightarrow> string" where
  "conversation_status_as_str ConversationStatus.Active = ''active''"
| "conversation_status_as_str ConversationStatus.Pending = ''pending''"
| "conversation_status_as_str ConversationStatus.Closed = ''closed''"

datatype ReporterReply = Sent | Rejected string | Unconfirmed string

record mail =
  ml_report :: int
  ml_conversation :: string
  ml_kind :: SecurityReplyKind
  ml_body :: string
  ml_status :: "ConversationStatus option"

datatype LiveStatus = Live "string list" | Pending "string list" | Untracked

datatype RepositoryRole = Application | Package | Untracked

record PullRequestState =
  ps_merged :: bool
  ps_closed :: bool
  ps_merge_commit_sha :: "string option"
  ps_merged_at :: "datetime option"

text \<open>What \<open>trait DeploymentStatus\<close> answers may change between calls: it depends on the tick.\<close>

record DeploymentStatus =
  dp_role :: "string \<Rightarrow> RepositoryRole"
  dp_pull_request :: "nat \<Rightarrow> string \<Rightarrow> int \<Rightarrow> PullRequestState option result"
  dp_commit_status :: "nat \<Rightarrow> string \<Rightarrow> string \<Rightarrow> LiveStatus result"

text \<open>
  The configuration (\<open>SecurityInboxConfig\<close>, with durations in nanoseconds) and the outside world of a
  \<open>SecurityInbox\<close>. What may answer differently each time takes the tick at which it is asked: the number of
  outside readings so far.
\<close>

datatype SpamAction = Close | Spam

fun spam_action_as_str :: "SpamAction \<Rightarrow> string" where
  "spam_action_as_str SpamAction.Close = ''close''"
| "spam_action_as_str SpamAction.Spam = ''spam''"

record SecurityInboxConfig =
  cf_process_after :: "datetime option"
  cf_owner_mention :: "string option"
  cf_dashboard_url :: "string option"
  cf_spam_action :: SpamAction
  cf_spam_confidence :: f64
  cf_acknowledge_valid :: bool
  cf_close_after_reply :: bool
  cf_max_assessment_attempts :: u32
  cf_duplicate_similarity :: f32
  cf_duplicate_candidates :: nat
  cf_default_repository :: "string option"
  cf_scope :: string
  cf_reward :: NewSecurityAward
  cf_templates :: SecurityTemplates

record IndexedRepo =
  ix_name :: string
  ix_path :: "string list"
  ix_scm_url :: string
  ix_default_branch :: string

record inbox_env =
  en_config :: SecurityInboxConfig
  en_sending_stale_after :: int
  en_reply_retry_backoff :: int
  en_stale_assessment_after :: int
  en_scrub_internal :: "string \<Rightarrow> string"
  en_format_date :: "day \<Rightarrow> string"
  en_iso_date :: "day \<Rightarrow> string"
  en_to_rfc3339 :: "datetime \<Rightarrow> string"
  en_parse_rfc3339 :: "string \<Rightarrow> string + datetime"
  en_debug :: "string \<Rightarrow> string"
  en_db_text :: "db_failure \<Rightarrow> string"
  en_nonce :: "nat \<Rightarrow> nat \<Rightarrow> string"
  en_source :: "(mail \<times> ReporterReply) list \<Rightarrow> mail \<Rightarrow> ReporterReply"
  en_mark_spam :: "nat \<Rightarrow> string \<Rightarrow> unit result"
  en_resolve_issue :: "nat \<Rightarrow> string \<Rightarrow> unit result"
  en_deployment :: "DeploymentStatus option"
  en_agent :: "nat \<Rightarrow> string \<Rightarrow> json result"
  en_decode_screening :: "json \<Rightarrow> string + ScreeningResponse"
  en_decode_phase_a :: "json \<Rightarrow> string + PhaseA"
  en_decode_phase_b :: "json \<Rightarrow> string + string"
  en_decode_duplicate :: "json \<Rightarrow> string + string"
  en_embed :: "(nat \<Rightarrow> string \<Rightarrow> f32 list result) option"
  en_cosine_similarity :: "f32 list \<Rightarrow> f32 list \<Rightarrow> f32"
  en_index :: "IndexedRepo list result option"
  en_sync :: "nat \<Rightarrow> string list \<Rightarrow> string \<Rightarrow> string result"
  en_canonicalize :: "string list \<Rightarrow> string list option"
  en_io_text :: string
  en_tempdir :: "nat \<Rightarrow> unit result"
  en_git :: "nat \<Rightarrow> string list \<Rightarrow> string list \<Rightarrow> git_output result"

datatype source_call = Mark_spam string | Resolve_issue string | Add_comment string string

record inbox =
  ib_db :: security_db
  ib_clock :: "nat \<Rightarrow> datetime"
  ib_ticks :: nat
  ib_outbox :: "(mail \<times> ReporterReply) list"
  ib_pings :: "string list"
  ib_source_calls :: "source_call list"

text \<open>Asking the outside world.\<close>

definition ask :: "(nat \<Rightarrow> 'a) \<Rightarrow> (inbox, 'a) op" where
  "ask answer s = (Inr (answer (ib_ticks s)), s\<lparr>ib_ticks := ib_ticks s + 1\<rparr>)"

definition ask_result :: "(nat \<Rightarrow> 'a result) \<Rightarrow> (inbox, 'a) op" where
  "ask_result answer s = (answer (ib_ticks s), s\<lparr>ib_ticks := ib_ticks s + 1\<rparr>)"

definition on_db :: "(security_db, 'a) op \<Rightarrow> (inbox, 'a) op" where
  "on_db m s = (case m (ib_db s) of (r, db) \<Rightarrow> (r, s\<lparr>ib_db := db\<rparr>))"

definition clock :: "(inbox, datetime) op" where
  "clock s = ask (ib_clock s) s"

text \<open>A writing method of the store, which reads the clock itself.\<close>

definition store :: "(datetime \<Rightarrow> (security_db, 'a) op) \<Rightarrow> (inbox, 'a) op" where
  "store m = bind_op clock (\<lambda>now. on_db (m now))"

definition query :: "(security_db \<Rightarrow> 'a result) \<Rightarrow> (inbox, 'a) op" where
  "query q = on_db (read_op q)"

text \<open>An operation that leaves a part of the state alone.\<close>

definition keeps :: "('st \<Rightarrow> 'b) \<Rightarrow> ('st, 'a) op \<Rightarrow> bool" where
  "keeps part m \<longleftrightarrow> (\<forall>s. part (snd (m s)) = part s)"

lemma keepsD: "keeps part m \<Longrightarrow> part (snd (m s)) = part s"
  by (simp add: keeps_def)

lemma keeps_ret [simp]: "keeps part (ret a)"
  by (simp add: keeps_def ret_def)

lemma keeps_fail [simp]: "keeps part (fail e)"
  by (simp add: keeps_def fail_def)

lemma keeps_bind: "keeps part m \<Longrightarrow> (\<And>a. keeps part (f a)) \<Longrightarrow> keeps part (bind_op m f)"
  unfolding keeps_def bind_op_def by (auto split: sum.splits prod.splits) (metis snd_conv)+

lemma keeps_ask [simp]:
  "keeps ib_outbox (ask a)" "keeps ib_pings (ask a)" "keeps ib_clock (ask a)" "keeps ib_db (ask a)"
  "keeps ib_outbox (ask_result r)" "keeps ib_pings (ask_result r)" "keeps ib_clock (ask_result r)"
  "keeps ib_db (ask_result r)"
  by (simp_all add: keeps_def ask_def ask_result_def)

lemma keeps_of_result [simp]: "keeps part (of_result r)"
  by (simp add: keeps_def of_result_def)

lemma keeps_catch: "keeps part m \<Longrightarrow> keeps part (catch_op m)"
  by (auto simp: keeps_def catch_op_def split: prod.split) (metis snd_conv)

lemma keeps_on_db [simp]: "keeps ib_outbox (on_db m)" "keeps ib_pings (on_db m)" "keeps ib_clock (on_db m)"
  by (auto simp: keeps_def on_db_def split: prod.splits)

lemma keeps_clock [simp]:
  "keeps ib_outbox clock" "keeps ib_pings clock" "keeps ib_db clock" "keeps ib_clock clock"
  by (simp_all add: keeps_def clock_def ask_def)

lemma keeps_store [simp]: "keeps ib_outbox (store m)" "keeps ib_pings (store m)" "keeps ib_clock (store m)"
  by (simp_all add: store_def keeps_bind)

lemma keeps_query [simp]:
  "keeps ib_outbox (query q)" "keeps ib_pings (query q)" "keeps ib_db (query q)" "keeps ib_clock (query q)"
  by (simp_all add: query_def keeps_def on_db_def read_op_def)

lemma keeps_for_each: "(\<And>x. keeps part (f x)) \<Longrightarrow> keeps part (for_each f xs)"
  by (induction xs) (simp_all add: keeps_bind)

lemma store_db: "ib_db (snd (store m s)) = snd (m (ib_clock s (ib_ticks s)) (ib_db s))"
  "fst (store m s) = fst (m (ib_clock s (ib_ticks s)) (ib_db s))"
  by (simp_all add: store_def bind_op_def clock_def ask_def on_db_def split: prod.splits)

section \<open>Owner pings\<close>

text \<open>A ping whose delivery fails is only logged.\<close>

definition ping :: "inbox_env \<Rightarrow> OwnerAction \<Rightarrow> PingSubject \<Rightarrow> (inbox, unit) op" where
  "ping env action subject s =
     (Inr (), s\<lparr>ib_pings := ib_pings s @
        [owner_message (cf_owner_mention (en_config env)) (cf_dashboard_url (en_config env)) action subject]\<rparr>)"

section \<open>Replies\<close>

definition max_error_chars :: nat where
  "max_error_chars = 500"

definition max_reply_attempts :: u32 where
  "max_reply_attempts = 3"

datatype Delivery = Skipped | Sent | Failed | Unconfirmed

definition truncated_error :: "inbox_env \<Rightarrow> string \<Rightarrow> string" where
  "truncated_error env err = take_chars max_error_chars (en_scrub_internal env err)"

text \<open>\<open>DateTime::<Utc>::MAX_UTC\<close>, and \<open>TimeDelta::from_std(..).unwrap_or(TimeDelta::MAX)\<close>.\<close>

definition max_utc :: datetime where
  "max_utc = 8210266876799 * nanos_per_second + 999999999"

definition time_delta :: "int \<Rightarrow> int" where
  "time_delta duration = min duration timedelta_max"

definition retry_due :: "security_reply \<Rightarrow> int \<Rightarrow> datetime \<Rightarrow> bool" where
  "retry_due reply backoff now \<longleftrightarrow>
     (let factor = min (uint (sp_attempts reply)) (2 ^ 31 - 1);
          wait = (if backoff * factor \<le> timedelta_max then backoff * factor else timedelta_max);
          due = sp_claimed_at reply + wait
      in due \<le> max_utc \<and> due \<le> now)"

definition subject_for :: "security_report \<Rightarrow> (inbox, PingSubject) op" where
  "subject_for report =
     (case sr_vulnerability_id report of
        None \<Rightarrow> ret (ping_report (sr_id report))
      | Some vulnerability_id \<Rightarrow>
          bind_op (query (get_security_vulnerability vulnerability_id)) (\<lambda>found.
            ret (case found of
                   Some v \<Rightarrow> ping_for_report (sr_id report) v
                 | None \<Rightarrow> ping_report (sr_id report))))"

definition reply_body :: "inbox_env \<Rightarrow> security_report \<Rightarrow> SecurityReplyKind \<Rightarrow> string" where
  "reply_body env report kind =
     (let outcome = (case sr_outcome report of None \<Rightarrow> SecurityOutcome.NotVulnerability | Some x \<Rightarrow> x);
          reason = public_reason (en_scrub_internal env) (or_empty (sr_public_reason report)) outcome
      in render_security_template (en_format_date env) (template_for (cf_templates (en_config env)) kind)
           \<lparr>rv_reason = Some reason, rv_fixed_on = sr_fixed_on report\<rparr>)"

definition conversation_status :: "inbox_env \<Rightarrow> SecurityReplyKind \<Rightarrow> ConversationStatus option" where
  "conversation_status env kind =
     (if reply_kind_is_terminal kind \<and> cf_close_after_reply (en_config env) then Some ConversationStatus.Closed
      else if kind = SecurityReplyKind.Confirmed then Some ConversationStatus.Pending
      else None)"

definition ledger_entry :: "int \<Rightarrow> SecurityReplyKind \<Rightarrow> (inbox, security_reply option) op" where
  "ledger_entry report_id kind =
     bind_op (query (list_security_replies report_id)) (\<lambda>replies.
       ret (find_by (\<lambda>reply. shares_ledger_entry_with (sp_kind reply) kind) replies))"

definition mark_unconfirmed ::
    "inbox_env \<Rightarrow> security_report \<Rightarrow> SecurityReplyKind \<Rightarrow> string \<Rightarrow> (inbox, unit) op" where
  "mark_unconfirmed env report kind err =
     bind_op (store (\<lambda>now. complete_security_reply now (sr_id report) kind DeliveryStatus.Unconfirmed (Some err)
         (with_detail (JObj [(''kind'', JStr (reply_kind_as_str kind)), (''error'', JStr err)])
           (new_event SecurityEventKind.ReplyUnconfirmed)) None)) (\<lambda>_.
     bind_op (subject_for report) (\<lambda>subject.
     ping env (OwnerAction.NeedsReview ReviewReason.ReplyUnconfirmed) subject))"

definition record_rejected ::
    "inbox_env \<Rightarrow> security_report \<Rightarrow> SecurityReplyKind \<Rightarrow> u32 \<Rightarrow> string \<Rightarrow> (inbox, unit) op" where
  "record_rejected env report kind attempt err =
     (let exhausted = max_reply_attempts \<le> attempt;
          detail = JObj [(''kind'', JStr (reply_kind_as_str kind)), (''error'', JStr err),
                         (''attempt'', JInt (uint attempt))];
          escalation = filter_option transition_is_allowed
            (if exhausted then Some \<lparr>tr_from = sr_state report, tr_to = SecurityReportState.NeedsHuman\<rparr> else None);
          detail' = (if escalation \<noteq> None
                     then json_set ''reason'' (JStr (review_reason_as_str ReviewReason.ReplyFailed)) detail
                     else detail)
      in
      bind_op (store (\<lambda>now. complete_security_reply now (sr_id report) kind DeliveryStatus.Failed (Some err)
          (with_detail detail' (new_event SecurityEventKind.ReplyFailed)) escalation)) (\<lambda>escalated.
      if escalated
      then bind_op (subject_for report) (ping env (OwnerAction.NeedsReview ReviewReason.ReplyFailed))
      else ret ()))"

definition record_sent ::
    "security_report \<Rightarrow> SecurityReplyKind \<Rightarrow> ConversationStatus option \<Rightarrow> ReportTransition option \<Rightarrow>
       (inbox, unit) op" where
  "record_sent report kind status completion =
     bind_op (store (\<lambda>now. complete_security_reply now (sr_id report) kind DeliveryStatus.Sent None
         (with_detail (JObj [(''kind'', JStr (reply_kind_as_str kind)),
             (''conversation_status'', json_opt (\<lambda>s. JStr (conversation_status_as_str s)) status)])
           (new_event SecurityEventKind.ReplySent)) completion)) (\<lambda>_.
     if status = Some ConversationStatus.Closed
     then store (\<lambda>now. record_security_event now (Some (sr_id report)) None
            (with_detail (JObj [(''kind'', JStr (reply_kind_as_str kind))])
              (new_event SecurityEventKind.ConversationClosed)))
     else ret ())"

text \<open>
  Whether a delivery is due at all, the check with the number of the attempt and the event of its claim, and the
  claim.
\<close>

definition delivery_due :: "inbox_env \<Rightarrow> security_reply option \<Rightarrow> (inbox, bool) op" where
  "delivery_due env previous =
     (case previous of
        None \<Rightarrow> ret True
      | Some reply \<Rightarrow>
          if sp_status reply \<noteq> DeliveryStatus.Failed then ret False
          else bind_op clock (\<lambda>now. ret (retry_due reply (time_delta (en_reply_retry_backoff env)) now)))"

definition deliver_check ::
    "inbox_env \<Rightarrow> security_report \<Rightarrow> SecurityReplyKind \<Rightarrow> (inbox, (u32 \<times> NewSecurityEvent) option) op" where
  "deliver_check env report kind =
     bind_op (ledger_entry (sr_id report) kind) (\<lambda>previous.
     bind_op (delivery_due env previous) (\<lambda>due.
       if \<not> due then ret None
       else
         (let attempt = (case previous of None \<Rightarrow> 0 | Some reply \<Rightarrow> sp_attempts reply) + 1;
              claimed = with_detail (JObj [(''kind'', JStr (reply_kind_as_str kind)),
                  (''attempt'', JInt (uint attempt)),
                  (''previous_error'', json_opt JStr (case previous of None \<Rightarrow> None | Some reply \<Rightarrow> sp_error reply))])
                (new_event SecurityEventKind.ReplyClaimed)
          in ret (Some (attempt, claimed)))))"

definition deliver_claim ::
    "security_report \<Rightarrow> SecurityReplyKind \<Rightarrow> NewSecurityEvent \<Rightarrow> (inbox, bool) op" where
  "deliver_claim report kind claimed =
     store (\<lambda>now. claim_security_reply now (sr_id report) kind claimed)"

definition mail_for :: "inbox_env \<Rightarrow> security_report \<Rightarrow> SecurityReplyKind \<Rightarrow> mail" where
  "mail_for env report kind =
     \<lparr>ml_report = sr_id report, ml_conversation = sr_conversation_id report, ml_kind = kind,
      ml_body = reply_body env report kind, ml_status = conversation_status env kind\<rparr>"

definition send_mail :: "mail \<Rightarrow> ReporterReply \<Rightarrow> inbox \<Rightarrow> inbox" where
  "send_mail m reply s = s\<lparr>ib_outbox := ib_outbox s @ [(m, reply)]\<rparr>"

definition deliver_send ::
    "inbox_env \<Rightarrow> security_report \<Rightarrow> SecurityReplyKind \<Rightarrow> (inbox, ReporterReply) op" where
  "deliver_send env report kind s =
     (let m = mail_for env report kind; reply = en_source env (ib_outbox s) m in (Inr reply, send_mail m reply s))"

definition deliver_record ::
    "inbox_env \<Rightarrow> security_report \<Rightarrow> SecurityReplyKind \<Rightarrow> u32 \<Rightarrow> ReportTransition option \<Rightarrow> ReporterReply \<Rightarrow>
       (inbox, Delivery) op" where
  "deliver_record env report kind attempt completion reply =
     (case reply of
        ReporterReply.Sent \<Rightarrow>
          bind_op (record_sent report kind (conversation_status env kind) completion) (\<lambda>_. ret Delivery.Sent)
      | ReporterReply.Rejected err \<Rightarrow>
          bind_op (record_rejected env report kind attempt (truncated_error env err)) (\<lambda>_. ret Delivery.Failed)
      | ReporterReply.Unconfirmed err \<Rightarrow>
          bind_op (mark_unconfirmed env report kind (truncated_error env err)) (\<lambda>_. ret Delivery.Unconfirmed))"

definition deliver ::
    "inbox_env \<Rightarrow> security_report \<Rightarrow> SecurityReplyKind \<Rightarrow> ReportTransition option \<Rightarrow> (inbox, Delivery) op" where
  "deliver env report kind completion =
     bind_op (deliver_check env report kind) (\<lambda>checked.
       case checked of
         None \<Rightarrow> ret Delivery.Skipped
       | Some (attempt, claimed) \<Rightarrow>
           bind_op (deliver_claim report kind claimed) (\<lambda>won.
             if \<not> won then ret Delivery.Skipped
             else bind_op (deliver_send env report kind) (deliver_record env report kind attempt completion)))"

definition ensure_delivered ::
    "inbox_env \<Rightarrow> security_report \<Rightarrow> SecurityReplyKind \<Rightarrow> ReportTransition \<Rightarrow> (inbox, Delivery) op" where
  "ensure_delivered env report kind completion =
     bind_op (ledger_entry (sr_id report) kind) (\<lambda>existing.
       case existing of
         None \<Rightarrow> deliver env report kind (Some completion)
       | Some reply \<Rightarrow>
           (case sp_status reply of
              DeliveryStatus.Failed \<Rightarrow> deliver env report (sp_kind reply) (Some completion)
            | DeliveryStatus.Sent \<Rightarrow>
                bind_op (store (\<lambda>now. transition_security_report now (sr_id report) (tr_from completion)
                    (tr_to completion) no_report_changes
                    (with_detail (JObj [(''kind'', JStr (reply_kind_as_str (sp_kind reply))), (''recovered'', JBool True)])
                      (new_event SecurityEventKind.ReplySent)))) (\<lambda>_. ret Delivery.Skipped)
            | _ \<Rightarrow> ret Delivery.Skipped))"

section \<open>What the operations leave alone\<close>

lemma keeps_ping [simp]:
  "keeps ib_outbox (ping env action subject)" "keeps ib_db (ping env action subject)"
  by (simp_all add: keeps_def ping_def)

lemma keeps_subject_for [simp]: "keeps ib_outbox (subject_for report)" "keeps ib_db (subject_for report)"
  by (auto simp: subject_for_def keeps_bind split: option.split)

lemma keeps_ledger_entry [simp]: "keeps ib_outbox (ledger_entry i kind)" "keeps ib_db (ledger_entry i kind)"
  by (simp_all add: ledger_entry_def keeps_bind)

lemma keeps_delivery_due [simp]: "keeps ib_outbox (delivery_due env p)" "keeps ib_db (delivery_due env p)"
  by (auto simp: delivery_due_def keeps_bind split: option.split)

lemma keeps_deliver_check [simp]:
  "keeps ib_outbox (deliver_check env report kind)" "keeps ib_db (deliver_check env report kind)"
  by (auto simp: deliver_check_def Let_def intro!: keeps_bind)

lemma keeps_mark_unconfirmed [simp]: "keeps ib_outbox (mark_unconfirmed env report kind err)"
  by (simp add: mark_unconfirmed_def keeps_bind)

lemma keeps_record_rejected [simp]: "keeps ib_outbox (record_rejected env report kind attempt err)"
  by (auto simp: record_rejected_def Let_def intro!: keeps_bind)

lemma keeps_record_sent [simp]: "keeps ib_outbox (record_sent report kind status completion)"
  by (auto simp: record_sent_def intro!: keeps_bind)

lemma keeps_deliver_claim [simp]: "keeps ib_outbox (deliver_claim report kind e)"
  by (simp add: deliver_claim_def)

lemma keeps_deliver_record [simp]: "keeps ib_outbox (deliver_record env report kind attempt completion reply)"
  by (auto simp: deliver_record_def intro!: keeps_bind split: ReporterReply.split)

end
