(* ===== verification/Inbox_Delivery.thy ===== *)
theory Inbox_Delivery
  imports Inbox
begin

text \<open>
  Deliveries that run at the same time, with other calls of the store in between, are lost, or are given up as
  unconfirmed: however they interleave, a customer gets one mail per report and kind unless an admin says that it
  was not delivered.
\<close>

section \<open>The inbox operations as calls of the store\<close>

definition runs :: "inbox \<Rightarrow> security_call list \<Rightarrow> inbox \<Rightarrow> bool" where
  "runs s calls s' \<longleftrightarrow> ib_db s' = run_security calls (ib_db s)"

lemma runs_Nil [simp]: "runs s [] s' \<longleftrightarrow> ib_db s' = ib_db s"
  by (simp add: runs_def run_security_def)

lemma runs_append: "runs s c1 s1 \<Longrightarrow> runs s1 c2 s2 \<Longrightarrow> runs s (c1 @ c2) s2"
  by (simp add: runs_def run_security_def)

lemma bind_db_same:
  assumes "\<And>a. keeps ib_db (f a)"
  shows "ib_db (snd (bind_op m f s)) = ib_db (snd (m s))"
  unfolding bind_op_def using keepsD [OF assms] by (auto split: sum.splits prod.splits)

lemma mark_unconfirmed_db:
  "\<exists>now e. ib_db (snd (mark_unconfirmed env report kind err s)) =
     security_step (Complete_reply now (sr_id report) kind DeliveryStatus.Unconfirmed (Some err) e None) (ib_db s)"
proof -
  have "ib_db (snd (mark_unconfirmed env report kind err s)) =
    ib_db (snd (store (\<lambda>now. complete_security_reply now (sr_id report) kind DeliveryStatus.Unconfirmed (Some err)
      (with_detail (JObj [(''kind'', JStr (reply_kind_as_str kind)), (''error'', JStr err)])
        (new_event SecurityEventKind.ReplyUnconfirmed)) None) s))"
    unfolding mark_unconfirmed_def by (simp add: bind_db_same keeps_bind)
  then show ?thesis unfolding store_db security_step.simps by blast
qed

lemma record_rejected_db:
  "\<exists>now e tr. ib_db (snd (record_rejected env report kind attempt err s)) =
     security_step (Complete_reply now (sr_id report) kind DeliveryStatus.Failed (Some err) e tr) (ib_db s)"
proof -
  have "\<exists>e tr. ib_db (snd (record_rejected env report kind attempt err s)) =
    ib_db (snd (store (\<lambda>now. complete_security_reply now (sr_id report) kind DeliveryStatus.Failed (Some err) e tr) s))"
    unfolding record_rejected_def Let_def
    by (rule exI, rule exI, rule bind_db_same) (auto intro!: keeps_bind)
  then show ?thesis unfolding store_db security_step.simps by blast
qed

lemma record_sent_runs:
  "\<exists>now e later. runs s (Complete_reply now (sr_id report) kind DeliveryStatus.Sent None e completion # later)
       (snd (record_sent report kind status completion s)) \<and>
     (\<forall>c \<in> set later. \<exists>now r v e. c = Record_event now r v e)"
proof -
  define e where "e = with_detail (JObj [(''kind'', JStr (reply_kind_as_str kind)),
      (''conversation_status'', json_opt (\<lambda>s. JStr (conversation_status_as_str s)) status)])
    (new_event SecurityEventKind.ReplySent)"
  define m where "m = store (\<lambda>now. complete_security_reply now (sr_id report) kind DeliveryStatus.Sent None e completion)"
  have m: "ib_db (snd (m s)) = security_step (Complete_reply (ib_clock s (ib_ticks s)) (sr_id report) kind
      DeliveryStatus.Sent None e completion) (ib_db s)"
    by (simp add: m_def store_db)
  have rest: "\<exists>later. ib_db (snd (record_sent report kind status completion s)) =
      run_security later (ib_db (snd (m s))) \<and> (\<forall>c \<in> set later. \<exists>now r v e. c = Record_event now r v e)"
  proof (cases "fst (m s)")
    case (Inl x)
    then have "ib_db (snd (record_sent report kind status completion s)) = ib_db (snd (m s))"
      unfolding record_sent_def e_def [symmetric] m_def [symmetric]
      by (auto simp: bind_op_def split: sum.splits prod.splits)
    then show ?thesis by (intro exI [of _ "[]"]) (simp add: run_security_def)
  next
    case (Inr x)
    define s1 where "s1 = snd (m s)"
    have ms: "m s = (Inr x, s1)" using Inr by (simp add: s1_def prod_eq_iff)
    have "ib_db (snd (record_sent report kind status completion s)) = ib_db (snd (
        (if status = Some ConversationStatus.Closed
         then store (\<lambda>now. record_security_event now (Some (sr_id report)) None
            (with_detail (JObj [(''kind'', JStr (reply_kind_as_str kind))])
              (new_event SecurityEventKind.ConversationClosed)))
         else ret ()) s1))"
      unfolding record_sent_def e_def [symmetric] m_def [symmetric] by (simp add: bind_op_def ms)
    also have "\<dots> = (if status = Some ConversationStatus.Closed
        then run_security [Record_event (ib_clock s1 (ib_ticks s1)) (Some (sr_id report)) None
            (with_detail (JObj [(''kind'', JStr (reply_kind_as_str kind))])
              (new_event SecurityEventKind.ConversationClosed))] (ib_db s1)
        else run_security [] (ib_db s1))"
      by (simp add: store_db run_security_def ret_def)
    finally show ?thesis
      using ms by (cases "status = Some ConversationStatus.Closed") (auto intro!: exI)
  qed
  then show ?thesis
    using m unfolding runs_def run_security_def by (metis fold_simps(2) comp_apply)
qed

section \<open>The slot of a reply\<close>

text \<open>
  A reply has an open slot while it may be claimed: it has no row, or its row is \<open>failed\<close>. A claim takes the
  slot; only a completion as \<open>failed\<close>, or an admin who says that the reply was not delivered, opens it again.
\<close>

definition open_slot :: "int \<Rightarrow> SecurityReplyKind \<Rightarrow> security_db \<Rightarrow> nat" where
  "open_slot r k db =
     (case find_by (is_reply r k) (db_replies db) of
        None \<Rightarrow> 1
      | Some x \<Rightarrow> if sp_status x = delivery_status_as_str DeliveryStatus.Failed then 1 else 0)"

fun reopens :: "int \<Rightarrow> SecurityReplyKind \<Rightarrow> security_call \<Rightarrow> bool" where
  "reopens r k (Complete_reply now r' k' s err e tr) \<longleftrightarrow> r' = r \<and> k' = k \<and> s = DeliveryStatus.Failed"
| "reopens r k (Confirm_reply now r' k' delivered actor) \<longleftrightarrow> r' = r \<and> k' = k \<and> \<not> delivered"
| "reopens r k _ \<longleftrightarrow> False"

lemma open_slot_le: "open_slot r k db \<le> 1"
  by (simp add: open_slot_def split: option.split)

text \<open>Updating rows of a reply to a status that is not \<open>failed\<close>, or rows of other replies, opens no slot.\<close>

lemma open_slot_update:
  assumes keep: "\<And>x. is_reply r k (f x) = is_reply r k x"
    and status: "\<And>x. p x \<Longrightarrow> is_reply r k x \<Longrightarrow> sp_status (f x) \<noteq> delivery_status_as_str DeliveryStatus.Failed"
    and replies: "db_replies db' = update_where p f (db_replies db)"
  shows "open_slot r k db' \<le> open_slot r k db"
proof -
  have "find_by (is_reply r k) (db_replies db') =
      map_option (\<lambda>x. if p x then f x else x) (find_by (is_reply r k) (db_replies db))"
    unfolding replies by (rule find_by_update_where) (simp add: keep)
  with status show ?thesis
    by (auto simp: open_slot_def simp del: texts_kept split: option.splits dest: find_by_Some)
qed

lemma failed_text [simp]:
  "delivery_status_as_str s = delivery_status_as_str DeliveryStatus.Failed \<longleftrightarrow> s = DeliveryStatus.Failed"
  by (rule delivery_status.as_str_inject)

lemma is_reply_other: "is_reply r k x \<Longrightarrow> is_reply r' k' x \<Longrightarrow> r' = r \<and> k' = k"
  using is_reply_disjoint by blast

lemma open_slot_complete:
  assumes "security_ok db"
  shows "open_slot r k (snd (complete_security_reply now r' k' s err e tr db)) \<le>
    open_slot r k db + (if r' = r \<and> k' = k \<and> s = DeliveryStatus.Failed then 1 else 0)"
proof (cases "r' = r \<and> k' = k \<and> s = DeliveryStatus.Failed")
  case True
  then show ?thesis by (intro order_trans [OF open_slot_le]) simp
next
  case False
  let ?db' = "snd (complete_security_reply now r' k' s err e tr db)"
  have "db_replies ?db' = fst (snd (complete_spec now r' k' s err tr db))"
    using complete_exact [OF assms, of now r' k' s err e tr] by (metis fst_conv snd_conv)
  moreover have "fst (snd (complete_spec now r' k' s err tr db)) = db_replies db \<or>
      fst (snd (complete_spec now r' k' s err tr db)) =
        update_where (is_reply r' k') (completed s err (timestamp now)) (db_replies db)"
    unfolding complete_spec_def by simp
  ultimately consider "db_replies ?db' = db_replies db"
    | "db_replies ?db' = update_where (is_reply r' k') (completed s err (timestamp now)) (db_replies db)"
    by argo
  then have "open_slot r k ?db' \<le> open_slot r k db"
  proof cases
    case 1
    then show ?thesis by (simp add: open_slot_def)
  next
    case 2
    have "sp_status (completed s err t x) \<noteq> delivery_status_as_str DeliveryStatus.Failed"
      if "is_reply r' k' x" "is_reply r k x" for x t
    proof -
      have "s \<noteq> DeliveryStatus.Failed" using False is_reply_other [OF that(2,1)] by blast
      then show ?thesis by (simp add: completed_def del: texts_kept)
    qed
    moreover have "is_reply r k (completed s err t x) = is_reply r k x" for x t
      by (simp add: is_reply_def completed_def)
    ultimately show ?thesis using open_slot_update [OF _ _ 2, of r k] by blast
  qed
  with False show ?thesis by simp
qed

lemma open_slot_confirm:
  "open_slot r k (snd (confirm_security_reply now r' k' d actor db)) \<le>
    open_slot r k db + (if r' = r \<and> k' = k \<and> \<not> d then 1 else 0)"
proof (cases "r' = r \<and> k' = k \<and> \<not> d")
  case True
  then show ?thesis by (intro order_trans [OF open_slot_le]) simp
next
  case False
  have "open_slot r k db' \<le> open_slot r k db"
    if "db_replies db' = update_where (reply_in r' k' DeliveryStatus.Unconfirmed)
          (\<lambda>x. x\<lparr>sp_status := delivery_status_as_str (if d then DeliveryStatus.Sent else DeliveryStatus.Failed),
             sp_error := err, sp_completed_at := t\<rparr>) (db_replies db)" for db' err t
  proof (rule open_slot_update [OF _ _ that])
    fix x
    assume "reply_in r' k' DeliveryStatus.Unconfirmed x" "is_reply r k x"
    then have d using False is_reply_other unfolding reply_in_def by blast
    then show "sp_status (x\<lparr>sp_status := delivery_status_as_str (if d then DeliveryStatus.Sent else DeliveryStatus.Failed),
        sp_error := err, sp_completed_at := t\<rparr>) \<noteq> delivery_status_as_str DeliveryStatus.Failed"
      by (simp del: texts_kept)
  qed (simp add: is_reply_def)
  then have "open_slot r k (snd (confirm_security_reply now r' k' d actor db)) \<le> open_slot r k db"
    unfolding confirm_security_reply_def
    by (intro transaction_preserves [where P = "\<lambda>db'. open_slot r k db' \<le> open_slot r k db"])
      (auto simp: Let_def insert_event_Inr simp del: texts_kept split: if_splits)
  with False show ?thesis by simp
qed

lemma open_slot_claim:
  assumes "security_ok db"
  shows "open_slot r k (snd (claim_security_reply now r' k' e db)) \<le> open_slot r k db"
    and "fst (claim_security_reply now r k e db) = Inr True \<Longrightarrow>
      open_slot r k db = 1 \<and> open_slot r k (snd (claim_security_reply now r k e db)) = 0"
proof -
  have spec: "fst (claim_security_reply now r' k' e db) = fst (claim_spec now r' k' db)"
      "db_replies (snd (claim_security_reply now r' k' e db)) = snd (claim_spec now r' k' db)" for r' k'
    using claim_exact [OF assms, of now r' k' e] by (metis fst_conv snd_conv)+
  have found: "find_by (is_reply r k) (update_where (is_reply r' k') (reclaimed t) rows) =
      map_option (\<lambda>x. if is_reply r' k' x then reclaimed t x else x) (find_by (is_reply r k) rows)" for t rows r' k'
    by (rule find_by_update_where) (simp add: is_reply_def reclaimed_def)
  have status: "sp_status (claimed_row i r' k' t) = delivery_status_as_str DeliveryStatus.Sending" for i r' k' t
    by (simp add: claimed_row_def del: texts_kept)
  have new: "find_by (is_reply r k) [claimed_row i r' k' t] =
      (if r' = r \<and> k' = k then Some (claimed_row i r' k' t) else None)" for i t r' k'
    by (auto simp: find_by_def is_reply_def claimed_row_def reply_kind.as_str_inject simp del: reply_kind_as_str.simps)
  show "open_slot r k (snd (claim_security_reply now r' k' e db)) \<le> open_slot r k db"
  proof (cases "find_by (is_reply r k) (db_replies db)")
    case None
    then show ?thesis by (intro order_trans [OF open_slot_le]) (simp add: open_slot_def)
  next
    case (Some x)
    then have "is_reply r k x" by (auto dest: find_by_Some)
    with Some show ?thesis
      by (auto simp: open_slot_def spec claim_spec_def found find_by_append reclaimed_def simp del: texts_kept
          split: option.splits)
  qed
  show "open_slot r k db = 1 \<and> open_slot r k (snd (claim_security_reply now r k e db)) = 0"
    if "fst (claim_security_reply now r k e db) = Inr True"
  proof (cases "find_by (is_reply r k) (db_replies db)")
    case None
    with that show ?thesis
      by (simp add: open_slot_def spec claim_spec_def find_by_append new status del: texts_kept split: if_splits)
  next
    case (Some x)
    then have "is_reply r k x" by (auto dest: find_by_Some)
    with Some that show ?thesis
      by (simp add: open_slot_def spec claim_spec_def found reclaimed_def del: texts_kept split: if_splits)
  qed
qed

lemma open_slot_step:
  assumes "security_ok db"
  shows "open_slot r k (security_step c db) \<le> open_slot r k db + (if reopens r k c then 1 else 0)"
proof (cases c)
  case (Transition_report now i a b changes e)
  then show ?thesis by (simp add: transition_exact open_slot_def del: texts_kept)
next
  case (Attempt a)
  then show ?thesis using attempt_step_same [of db a] by (simp add: open_slot_def same_security_def)
next
  case (Complete_reply now r' k' s err e tr)
  then show ?thesis using open_slot_complete [OF assms] by simp
next
  case (Confirm_reply now r' k' d actor)
  then show ?thesis using open_slot_confirm by simp
next
  case (Claim_reply now r' k' e)
  then show ?thesis using open_slot_claim [OF assms] by simp
qed (simp_all add: open_slot_def same_replies)

lemma run_security_append [simp]: "run_security (c1 @ c2) db = run_security c2 (run_security c1 db)"
  by (simp add: run_security_def)

lemma open_slot_run:
  "security_ok db \<Longrightarrow> open_slot r k (run_security calls db) \<le> open_slot r k db + length (filter (reopens r k) calls)"
proof (induction calls rule: rev_induct)
  case (snoc c calls)
  have "open_slot r k (security_step c (run_security calls db)) \<le>
      open_slot r k (run_security calls db) + (if reopens r k c then 1 else 0)"
    by (rule open_slot_step [OF run_security_ok [OF snoc.prems]])
  with snoc show ?case by (auto simp: run_security_def)
qed (simp add: run_security_def)

section \<open>Deliveries side by side\<close>

text \<open>
  A running delivery, by how far it got: checked (with the attempt and the event of its claim), claimed, or
  answered by the mail source.
\<close>

datatype progress = Checked NewSecurityEvent | Claimed | Answered ReporterReply

record worker =
  wk_report :: security_report
  wk_kind :: SecurityReplyKind
  wk_completion :: "ReportTransition option"
  wk_attempt :: u32
  wk_progress :: progress

record world =
  wd_inbox :: inbox
  wd_workers :: "worker list"

text \<open>
  What may happen next: a delivery starts with its check, or the delivery at a position of the list claims,
  sends (with any answer of the source), records the answer, or is lost; a reply is marked unconfirmed by the
  sweep; or any call of the store is made.
\<close>

datatype delivery_action =
    Start security_report SecurityReplyKind "ReportTransition option"
  | Claim nat
  | Send nat ReporterReply
  | Settle nat
  | Lose nat
  | Expire security_report SecurityReplyKind string
  | Call security_call

definition remove_nth :: "nat \<Rightarrow> 'a list \<Rightarrow> 'a list" where
  "remove_nth i xs = take i xs @ drop (Suc i) xs"

definition nth_worker :: "nat \<Rightarrow> world \<Rightarrow> worker option" where
  "nth_worker i w = (if i < length (wd_workers w) then Some (wd_workers w ! i) else None)"

fun world_step :: "inbox_env \<Rightarrow> delivery_action \<Rightarrow> world \<Rightarrow> world" where
  "world_step env (Start report kind completion) w =
     (case deliver_check env report kind (wd_inbox w) of
        (Inr (Some (attempt, claimed)), s) \<Rightarrow>
          w\<lparr>wd_inbox := s, wd_workers := wd_workers w @
             [\<lparr>wk_report = report, wk_kind = kind, wk_completion = completion, wk_attempt = attempt,
               wk_progress = Checked claimed\<rparr>]\<rparr>
      | (_, s) \<Rightarrow> w\<lparr>wd_inbox := s\<rparr>)"
| "world_step env (Claim i) w =
     (case nth_worker i w of
        Some k \<Rightarrow>
          (case wk_progress k of
             Checked claimed \<Rightarrow>
               (case deliver_claim (wk_report k) (wk_kind k) claimed (wd_inbox w) of
                  (Inr True, s) \<Rightarrow>
                    w\<lparr>wd_inbox := s, wd_workers := (wd_workers w)[i := k\<lparr>wk_progress := Claimed\<rparr>]\<rparr>
                | (_, s) \<Rightarrow> w\<lparr>wd_inbox := s, wd_workers := remove_nth i (wd_workers w)\<rparr>)
           | _ \<Rightarrow> w)
      | None \<Rightarrow> w)"
| "world_step env (Send i reply) w =
     (case nth_worker i w of
        Some k \<Rightarrow>
          if wk_progress k = Claimed
          then w\<lparr>wd_inbox := send_mail (mail_for env (wk_report k) (wk_kind k)) reply (wd_inbox w),
                 wd_workers := (wd_workers w)[i := k\<lparr>wk_progress := Answered reply\<rparr>]\<rparr>
          else w
      | None \<Rightarrow> w)"
| "world_step env (Settle i) w =
     (case nth_worker i w of
        Some k \<Rightarrow>
          (case wk_progress k of
             Answered reply \<Rightarrow>
               w\<lparr>wd_inbox := snd (deliver_record env (wk_report k) (wk_kind k) (wk_attempt k) (wk_completion k)
                    reply (wd_inbox w)),
                 wd_workers := remove_nth i (wd_workers w)\<rparr>
           | _ \<Rightarrow> w)
      | None \<Rightarrow> w)"
| "world_step env (Lose i) w = w\<lparr>wd_workers := remove_nth i (wd_workers w)\<rparr>"
| "world_step env (Expire report kind err) w =
     w\<lparr>wd_inbox := snd (mark_unconfirmed env report kind err (wd_inbox w))\<rparr>"
| "world_step env (Call c) w =
     w\<lparr>wd_inbox := (wd_inbox w)\<lparr>ib_db := security_step c (ib_db (wd_inbox w))\<rparr>\<rparr>"

definition run_world :: "inbox_env \<Rightarrow> delivery_action list \<Rightarrow> world \<Rightarrow> world" where
  "run_world env actions w = fold (world_step env) actions w"

definition start_world :: "(nat \<Rightarrow> datetime) \<Rightarrow> world" where
  "start_world instants =
     \<lparr>wd_inbox = \<lparr>ib_db = empty_db, ib_clock = instants, ib_ticks = 0, ib_outbox = [], ib_pings = [],
        ib_source_calls = []\<rparr>,
      wd_workers = []\<rparr>"

section \<open>One mail gets through\<close>

text \<open>The mails of a report and kind that the source did not definitely reject: sent, or maybe sent.\<close>

definition got_through :: "int \<Rightarrow> SecurityReplyKind \<Rightarrow> mail \<times> ReporterReply \<Rightarrow> bool" where
  "got_through r k m \<longleftrightarrow>
     ml_report (fst m) = r \<and> ml_kind (fst m) = k \<and>
     (case snd m of ReporterReply.Rejected e \<Rightarrow> False | _ \<Rightarrow> True)"

definition mails_through :: "int \<Rightarrow> SecurityReplyKind \<Rightarrow> world \<Rightarrow> nat" where
  "mails_through r k w = length (filter (got_through r k) (ib_outbox (wd_inbox w)))"

text \<open>What a worker may still lead to: a mail of its own, or a slot opened by its rejection.\<close>

definition pending :: "int \<Rightarrow> SecurityReplyKind \<Rightarrow> worker \<Rightarrow> nat" where
  "pending r k x =
     (if sr_id (wk_report x) = r \<and> wk_kind x = k
      then (case wk_progress x of
              Checked e \<Rightarrow> 0
            | Claimed \<Rightarrow> 1
            | Answered reply \<Rightarrow> (case reply of ReporterReply.Rejected e \<Rightarrow> 1 | _ \<Rightarrow> 0))
      else 0)"

definition potential :: "int \<Rightarrow> SecurityReplyKind \<Rightarrow> world \<Rightarrow> nat" where
  "potential r k w =
     mails_through r k w + sum_list (map (pending r k) (wd_workers w)) + open_slot r k (ib_db (wd_inbox w))"

fun admits_another :: "int \<Rightarrow> SecurityReplyKind \<Rightarrow> delivery_action \<Rightarrow> bool" where
  "admits_another r k (Call c) \<longleftrightarrow> reopens r k c"
| "admits_another r k _ \<longleftrightarrow> False"

lemma sum_list_remove_nth:
  "i < length xs \<Longrightarrow> sum_list (map f (remove_nth i xs)) + (f (xs ! i) :: nat) = sum_list (map f xs)"
proof -
  assume "i < length xs"
  then have "xs = take i xs @ xs ! i # drop (Suc i) xs" by (rule id_take_nth_drop)
  then have "sum_list (map f xs) = sum_list (map f (take i xs @ xs ! i # drop (Suc i) xs))" by simp
  then show ?thesis by (simp add: remove_nth_def)
qed

lemma sum_list_replace_nth:
  "i < length xs \<Longrightarrow> sum_list (map f (xs[i := y])) + (f (xs ! i) :: nat) = sum_list (map f xs) + f y"
  using sum_list_remove_nth [of i xs f] sum_list_remove_nth [of i "xs[i := y]" f]
  by (simp add: remove_nth_def)

lemma deliver_claim_db:
  "\<exists>now. fst (deliver_claim report kind e s) = fst (claim_security_reply now (sr_id report) kind e (ib_db s)) \<and>
     ib_db (snd (deliver_claim report kind e s)) = snd (claim_security_reply now (sr_id report) kind e (ib_db s))"
  unfolding deliver_claim_def store_db by blast

lemma pending_le: "pending r k x \<le> 1"
  by (simp add: pending_def split: progress.split ReporterReply.split)

lemma reopens_record: "\<forall>c \<in> set later. \<exists>now r v e. c = Record_event now r v e \<Longrightarrow> filter (reopens r k) later = []"
  by (induction later) auto

text \<open>What settling an answer does to the store: the completion it stands for, and events.\<close>

lemma deliver_record_db:
  "\<exists>calls. ib_db (snd (deliver_record env report kind attempt completion reply s)) = run_security calls (ib_db s) \<and>
     length (filter (reopens r k) calls) \<le>
       (case reply of
          ReporterReply.Rejected e \<Rightarrow> if sr_id report = r \<and> kind = k then 1 else 0
        | _ \<Rightarrow> 0)"
proof (cases reply)
  case Sent
  obtain now e later where "runs s (Complete_reply now (sr_id report) kind DeliveryStatus.Sent None e completion # later)
      (snd (record_sent report kind (conversation_status env kind) completion s))"
    and later: "\<forall>c \<in> set later. \<exists>now r v e. c = Record_event now r v e"
    using record_sent_runs by blast
  moreover have "ib_db (snd (deliver_record env report kind attempt completion reply s)) =
      ib_db (snd (record_sent report kind (conversation_status env kind) completion s))"
    by (simp add: deliver_record_def Sent bind_db_same)
  ultimately show ?thesis
    using reopens_record [OF later] unfolding runs_def
    by (intro exI [of _ "Complete_reply now (sr_id report) kind DeliveryStatus.Sent None e completion # later"])
      (simp add: Sent)
next
  case (Rejected err)
  obtain now e tr where "ib_db (snd (record_rejected env report kind attempt (truncated_error env err) s)) =
      security_step (Complete_reply now (sr_id report) kind DeliveryStatus.Failed (Some (truncated_error env err)) e tr) (ib_db s)"
    using record_rejected_db by blast
  moreover have "ib_db (snd (deliver_record env report kind attempt completion reply s)) =
      ib_db (snd (record_rejected env report kind attempt (truncated_error env err) s))"
    by (simp add: deliver_record_def Rejected bind_db_same)
  ultimately show ?thesis
    by (intro exI [of _ "[Complete_reply now (sr_id report) kind DeliveryStatus.Failed (Some (truncated_error env err)) e tr]"])
      (simp add: Rejected run_security_def)
next
  case (Unconfirmed err)
  obtain now e where "ib_db (snd (mark_unconfirmed env report kind (truncated_error env err) s)) =
      security_step (Complete_reply now (sr_id report) kind DeliveryStatus.Unconfirmed (Some (truncated_error env err)) e None) (ib_db s)"
    using mark_unconfirmed_db by blast
  moreover have "ib_db (snd (deliver_record env report kind attempt completion reply s)) =
      ib_db (snd (mark_unconfirmed env report kind (truncated_error env err) s))"
    by (simp add: deliver_record_def Unconfirmed bind_db_same)
  ultimately show ?thesis
    by (intro exI [of _ "[Complete_reply now (sr_id report) kind DeliveryStatus.Unconfirmed (Some (truncated_error env err)) e None]"])
      (simp add: Unconfirmed run_security_def)
qed

definition world_ok :: "world \<Rightarrow> bool" where
  "world_ok w \<longleftrightarrow> security_ok (ib_db (wd_inbox w))"

lemma claim_security_ok: "security_ok db \<Longrightarrow> security_ok (snd (claim_security_reply now r k e db))"
  using step_security_ok [of db "Claim_reply now r k e"] by simp

lemma nth_worker_Some: "nth_worker i w = Some x \<longleftrightarrow> i < length (wd_workers w) \<and> x = wd_workers w ! i"
  by (auto simp: nth_worker_def)

lemma start_potential:
  "potential r k (world_step env (Start report kind completion) w) = potential r k w \<and>
   (world_ok w \<longrightarrow> world_ok (world_step env (Start report kind completion) w))"
proof -
  obtain checked s where s: "deliver_check env report kind (wd_inbox w) = (checked, s)" by fastforce
  have "ib_db s = ib_db (wd_inbox w)" "ib_outbox s = ib_outbox (wd_inbox w)"
    using keepsD [of ib_db "deliver_check env report kind" "wd_inbox w"]
      keepsD [of ib_outbox "deliver_check env report kind" "wd_inbox w"] s by simp_all
  then show ?thesis
    by (auto simp: s potential_def mails_through_def pending_def world_ok_def split: sum.split option.split prod.split)
qed

lemma claim_potential:
  assumes "world_ok w"
  shows "potential r k (world_step env (Claim i) w) \<le> potential r k w \<and> world_ok (world_step env (Claim i) w)"
proof (cases "\<exists>x e. nth_worker i w = Some x \<and> wk_progress x = Checked e")
  case True
  then obtain x e where x: "nth_worker i w = Some x" "wk_progress x = Checked e" by blast
  then have i: "i < length (wd_workers w)" "wd_workers w ! i = x" by (auto simp: nth_worker_Some)
  obtain res s where s: "deliver_claim (wk_report x) (wk_kind x) e (wd_inbox w) = (res, s)" by fastforce
  have outbox: "ib_outbox s = ib_outbox (wd_inbox w)"
    using keepsD [of ib_outbox "deliver_claim (wk_report x) (wk_kind x) e" "wd_inbox w"] s by simp
  obtain now where now: "res = fst (claim_security_reply now (sr_id (wk_report x)) (wk_kind x) e (ib_db (wd_inbox w)))"
      "ib_db s = snd (claim_security_reply now (sr_id (wk_report x)) (wk_kind x) e (ib_db (wd_inbox w)))"
    using deliver_claim_db [of "wk_report x" "wk_kind x" e "wd_inbox w"] s by auto
  have ok: "security_ok (ib_db (wd_inbox w))" using assms by (simp add: world_ok_def)
  have less: "open_slot r k (ib_db s) \<le> open_slot r k (ib_db (wd_inbox w))"
    unfolding now(2) by (rule open_slot_claim(1) [OF ok])
  have taken: "open_slot r k (ib_db (wd_inbox w)) = 1 \<and> open_slot r k (ib_db s) = 0"
    if "res = Inr True" "sr_id (wk_report x) = r" "wk_kind x = k"
    using open_slot_claim(2) [OF ok, of now r k e] that now by simp
  show ?thesis
  proof (cases "res = Inr True")
    case True
    have "sum_list (map (pending r k) ((wd_workers w)[i := x\<lparr>wk_progress := Claimed\<rparr>])) =
        sum_list (map (pending r k) (wd_workers w)) + (if sr_id (wk_report x) = r \<and> wk_kind x = k then 1 else 0)"
    proof -
      have "pending r k x = 0" by (simp add: pending_def x(2))
      moreover have "pending r k (x\<lparr>wk_progress := Claimed\<rparr>) =
          (if sr_id (wk_report x) = r \<and> wk_kind x = k then 1 else 0)"
        by (simp add: pending_def)
      ultimately show ?thesis
        using sum_list_replace_nth [OF i(1), of "pending r k" "x\<lparr>wk_progress := Claimed\<rparr>"] i(2) by simp
    qed
    with True taken less outbox ok show ?thesis
      by (auto simp: x s potential_def mails_through_def world_ok_def now(2) claim_security_ok)
  next
    case False
    have "sum_list (map (pending r k) (remove_nth i (wd_workers w))) \<le> sum_list (map (pending r k) (wd_workers w))"
      using sum_list_remove_nth [OF i(1), of "pending r k"] by simp
    with False less outbox ok show ?thesis
      by (auto simp: x s potential_def mails_through_def world_ok_def now(2) claim_security_ok
          split: sum.split bool.split)
  qed
next
  case False
  with assms show ?thesis by (auto split: option.split progress.split)
qed

lemma send_potential:
  "potential r k (world_step env (Send i reply) w) \<le> potential r k w \<and>
   (world_ok w \<longrightarrow> world_ok (world_step env (Send i reply) w))"
proof (cases "\<exists>x. nth_worker i w = Some x \<and> wk_progress x = Claimed")
  case True
  then obtain x where x: "nth_worker i w = Some x" "wk_progress x = Claimed" by blast
  then have i: "i < length (wd_workers w)" "wd_workers w ! i = x" by (auto simp: nth_worker_Some)
  let ?y = "x\<lparr>wk_progress := Answered reply\<rparr>"
  let ?m = "(mail_for env (wk_report x) (wk_kind x), reply)"
  have "pending r k x = (if sr_id (wk_report x) = r \<and> wk_kind x = k then 1 else 0)"
    by (simp add: pending_def x(2))
  moreover have "pending r k ?y + (if got_through r k ?m then 1 else 0) =
      (if sr_id (wk_report x) = r \<and> wk_kind x = k then 1 else 0)"
    by (simp add: pending_def got_through_def mail_for_def split: ReporterReply.split)
  ultimately have "sum_list (map (pending r k) ((wd_workers w)[i := ?y])) + (if got_through r k ?m then 1 else 0) =
      sum_list (map (pending r k) (wd_workers w))"
    using sum_list_replace_nth [OF i(1), of "pending r k" ?y, unfolded i(2)] by (simp split: if_splits)
  then show ?thesis
    using x by (auto simp: potential_def mails_through_def send_mail_def world_ok_def)
next
  case False
  then show ?thesis by (auto split: option.split)
qed

lemma settle_potential:
  assumes "world_ok w"
  shows "potential r k (world_step env (Settle i) w) \<le> potential r k w \<and> world_ok (world_step env (Settle i) w)"
proof (cases "\<exists>x reply. nth_worker i w = Some x \<and> wk_progress x = Answered reply")
  case True
  then obtain x reply where x: "nth_worker i w = Some x" "wk_progress x = Answered reply" by blast
  then have i: "i < length (wd_workers w)" "wd_workers w ! i = x" by (auto simp: nth_worker_Some)
  let ?settled = "deliver_record env (wk_report x) (wk_kind x) (wk_attempt x) (wk_completion x) reply"
  let ?s = "snd (?settled (wd_inbox w))"
  have outbox: "ib_outbox ?s = ib_outbox (wd_inbox w)" by (rule keepsD) simp
  obtain calls where calls: "ib_db ?s = run_security calls (ib_db (wd_inbox w))"
      "length (filter (reopens r k) calls) \<le> pending r k x"
    using deliver_record_db [of env "wk_report x" "wk_kind x" "wk_attempt x" "wk_completion x" reply "wd_inbox w" r k]
      x(2) by (force simp: pending_def split: ReporterReply.splits if_splits)
  have ok: "security_ok (ib_db (wd_inbox w))" using assms by (simp add: world_ok_def)
  have "open_slot r k (ib_db ?s) \<le> open_slot r k (ib_db (wd_inbox w)) + pending r k x"
    using open_slot_run [OF ok, of r k calls] calls by simp
  moreover have "sum_list (map (pending r k) (remove_nth i (wd_workers w))) + pending r k x =
      sum_list (map (pending r k) (wd_workers w))"
    using sum_list_remove_nth [OF i(1), of "pending r k"] i(2) by simp
  ultimately show ?thesis
    using x outbox ok by (simp add: potential_def mails_through_def world_ok_def calls(1) run_security_ok)
next
  case False
  with assms show ?thesis by (auto split: option.split progress.split)
qed

lemma lose_potential:
  "potential r k (world_step env (Lose i) w) \<le> potential r k w \<and>
   (world_ok w \<longrightarrow> world_ok (world_step env (Lose i) w))"
proof (cases "i < length (wd_workers w)")
  case True
  then show ?thesis
    using sum_list_remove_nth [OF True, of "pending r k"]
    by (simp add: potential_def mails_through_def world_ok_def)
next
  case False
  then show ?thesis by (simp add: potential_def mails_through_def world_ok_def remove_nth_def)
qed

lemma expire_potential:
  assumes "world_ok w"
  shows "potential r k (world_step env (Expire report kind err) w) \<le> potential r k w \<and>
    world_ok (world_step env (Expire report kind err) w)"
proof -
  let ?s = "snd (mark_unconfirmed env report kind err (wd_inbox w))"
  obtain now e where db: "ib_db ?s =
      security_step (Complete_reply now (sr_id report) kind DeliveryStatus.Unconfirmed (Some err) e None) (ib_db (wd_inbox w))"
    using mark_unconfirmed_db by blast
  have ok: "security_ok (ib_db (wd_inbox w))" using assms by (simp add: world_ok_def)
  have "ib_outbox ?s = ib_outbox (wd_inbox w)" by (rule keepsD) simp
  moreover have "open_slot r k (ib_db ?s) \<le> open_slot r k (ib_db (wd_inbox w))"
    unfolding db using open_slot_step [OF ok, of r k
        "Complete_reply now (sr_id report) kind DeliveryStatus.Unconfirmed (Some err) e None"] by simp
  moreover have "security_ok (ib_db ?s)" unfolding db by (rule step_security_ok [OF ok])
  ultimately show ?thesis by (simp add: potential_def mails_through_def world_ok_def)
qed

lemma step_potential:
  assumes "world_ok w"
  shows "potential r k (world_step env a w) \<le> potential r k w + (if admits_another r k a then 1 else 0) \<and>
    world_ok (world_step env a w)"
proof (cases a)
  case (Call c)
  have ok: "security_ok (ib_db (wd_inbox w))" using assms by (simp add: world_ok_def)
  show ?thesis
    using open_slot_step [OF ok, of r k c] step_security_ok [OF ok]
    by (simp add: Call potential_def mails_through_def world_ok_def split: if_splits)
next
  case (Start report kind completion)
  then show ?thesis using start_potential [of r k env report kind completion w] assms by simp
next
  case (Claim i)
  then show ?thesis using claim_potential [OF assms, of r k env i] by (simp del: world_step.simps)
next
  case (Send i reply)
  then show ?thesis using send_potential [of r k env i reply w] assms by (simp del: world_step.simps)
next
  case (Settle i)
  then show ?thesis using settle_potential [OF assms, of r k env i] by (simp del: world_step.simps)
next
  case (Lose i)
  then show ?thesis using lose_potential [of r k env i w] assms by (simp del: world_step.simps)
next
  case (Expire report kind err)
  then show ?thesis using expire_potential [OF assms, of r k env report kind err] by (simp del: world_step.simps)
qed

lemma run_potential:
  "world_ok w \<Longrightarrow>
     potential r k (run_world env actions w) \<le> potential r k w + length (filter (admits_another r k) actions) \<and>
     world_ok (run_world env actions w)"
  unfolding run_world_def
proof (induction actions arbitrary: w)
  case (Cons a actions)
  note step = step_potential [OF Cons.prems, of r k env a]
  from step Cons.IH [of "world_step env a w"]
  have "potential r k (fold (world_step env) actions (world_step env a w)) \<le>
      potential r k (world_step env a w) + length (filter (admits_another r k) actions)"
    "world_ok (fold (world_step env) actions (world_step env a w))" by blast+
  with step show ?case by (auto simp del: world_step.simps)
qed simp

text \<open>
  Property C3. However deliveries, crashes, sweeps and other calls of the store interleave, the number of mails
  of one report and kind that the mail source did not definitely reject is at most one, plus one for each time an
  admin confirmed that the reply was not delivered (or a caller outside the deliveries completed it as failed).
  In particular a reply that may have been sent is never sent again by the program itself.
\<close>

theorem one_mail_gets_through:
  "mails_through r k (run_world env actions (start_world instants)) \<le>
     1 + length (filter (admits_another r k) actions)"
proof -
  have "world_ok (start_world instants)"
    by (simp add: world_ok_def start_world_def empty_security_ok)
  moreover have "potential r k (start_world instants) = 1"
    by (simp add: potential_def mails_through_def start_world_def open_slot_def empty_db_def)
  ultimately show ?thesis
    using run_potential [of "start_world instants" r k env actions] by (simp add: potential_def)
qed

section \<open>A delivery is a run of its steps\<close>

definition undisturbed ::
    "inbox_env \<Rightarrow> security_report \<Rightarrow> SecurityReplyKind \<Rightarrow> ReportTransition option \<Rightarrow> inbox \<Rightarrow> delivery_action list" where
  "undisturbed env report kind completion s =
     [Start report kind completion, Claim 0, Send 0 (en_source env (ib_outbox s) (mail_for env report kind)), Settle 0]"

text \<open>
  The sequential \<open>deliver\<close> is the run of its four steps with nothing in between: what is proved of
  interleaved deliveries holds of the code's function.
\<close>

theorem deliver_is_undisturbed_run:
  "run_world env (undisturbed env report kind completion s) \<lparr>wd_inbox = s, wd_workers = []\<rparr> =
     \<lparr>wd_inbox = snd (deliver env report kind completion s), wd_workers = []\<rparr>"
proof -
  obtain res s1 where check: "deliver_check env report kind s = (res, s1)" by fastforce
  have out1: "ib_outbox s1 = ib_outbox s"
    using keepsD [of ib_outbox "deliver_check env report kind" s] check by simp
  show ?thesis
  proof (cases "\<exists>attempt claimed. res = Inr (Some (attempt, claimed))")
    case True
    then obtain attempt claimed where res: "res = Inr (Some (attempt, claimed))" by blast
    obtain won s2 where claim: "deliver_claim report kind claimed s1 = (won, s2)" by fastforce
    have out2: "ib_outbox s2 = ib_outbox s"
      using keepsD [of ib_outbox "deliver_claim report kind claimed" s1] claim out1 by simp
    note steps = undisturbed_def run_world_def deliver_def bind_op_def nth_worker_def remove_nth_def ret_def check res claim
    show ?thesis
    proof (cases won)
      case (Inl e)
      then show ?thesis by (simp add: steps)
    next
      case (Inr b)
      then show ?thesis by (cases b) (simp_all add: steps out2 deliver_send_def Let_def)
    qed
  next
    case False
    note steps = undisturbed_def run_world_def deliver_def bind_op_def nth_worker_def ret_def check
    show ?thesis
    proof (cases res)
      case (Inl e)
      then show ?thesis by (simp add: steps)
    next
      case (Inr checked)
      with False have "checked = None" by (cases checked) auto
      with Inr show ?thesis by (simp add: steps)
    qed
  qed
qed

end
