(* ===== verification/Inbox_Assess.thy ===== *)
theory Inbox_Assess
  imports Inbox Prompts
begin

text \<open>
  Screening and assessing a report: \<open>screening.rs\<close>, the methods of \<open>assessment.rs\<close> and the git queries of
  \<open>history.rs\<close>. Agents, git and repository syncs are asked through the environment.
\<close>

section \<open>Agents\<close>

definition report_prompt :: "ReportText \<Rightarrow> ReportPrompt" where
  "report_prompt report =
     \<lparr>pr_subject = rt_subject report, pr_body = rt_body report, pr_attachments = rt_attachments report\<rparr>"

text \<open>\<open>serde_json::from_value(..).map_err(..)\<close>.\<close>

definition decoded :: "string \<Rightarrow> string + 'a \<Rightarrow> 'a result" where
  "decoded what r = (case r of Inl e \<Rightarrow> Inl (error.Other (''malformed '' @ what @ '': '' @ e)) | Inr x \<Rightarrow> Inr x)"

text \<open>A query whose prompt is built with fresh nonces.\<close>

definition ask_agent :: "inbox_env \<Rightarrow> ((nat \<Rightarrow> string) \<Rightarrow> string) \<Rightarrow> (inbox, json) op" where
  "ask_agent env prompt =
     bind_op (ask (en_nonce env)) (\<lambda>nonces. ask_result (\<lambda>t. en_agent env t (prompt nonces)))"

definition tempdir :: "inbox_env \<Rightarrow> (inbox, unit) op" where
  "tempdir env = ask_result (en_tempdir env)"

definition screen :: "inbox_env \<Rightarrow> ReportText \<Rightarrow> (inbox, Screening) op" where
  "screen env report =
     (if is_trivially_empty report then ret (Screening.Spam f64_one)
      else bind_op (tempdir env) (\<lambda>_.
        bind_op (ask_agent env (\<lambda>nonces. screening_prompt nonces (report_prompt report))) (\<lambda>v.
        bind_op (of_result (decoded ''screening verdict'' (en_decode_screening env v))) (\<lambda>response.
          ret (screening_of (cf_spam_confidence (en_config env)) response)))))"

section \<open>Repositories\<close>

text \<open>The fields of \<open>claudear_analysis::inference::RepoResolution\<close> that are read.\<close>

datatype RepoResolution =
    Resolved (rr_project_dir: "string list") (rr_repo_name: string) (rr_scm_url: string)
  | Skip (rr_reason: string)

definition resolve_repo_for_cascade :: "inbox_env \<Rightarrow> string \<Rightarrow> RepoResolution" where
  "resolve_repo_for_cascade env repo_name =
     (case en_index env of
        None \<Rightarrow> RepoResolution.Skip ''No inferrer available''
      | Some (Inr repos) \<Rightarrow>
          (case find_by (\<lambda>repo. ix_name repo = repo_name) repos of
             Some repo \<Rightarrow> RepoResolution.Resolved (ix_path repo) (ix_name repo) (ix_scm_url repo)
           | None \<Rightarrow> RepoResolution.Skip (''Repository '' @ [CHR 0x27] @ repo_name @ [CHR 0x27] @ '' not found in index''))
      | Some (Inl e) \<Rightarrow> RepoResolution.Skip (''Index error: '' @ error_text (en_db_text env) e))"

record Checkout =
  co_project_dir :: "string list"
  co_repository :: string
  co_default_branch :: string

definition checkout :: "inbox_env \<Rightarrow> RepoResolution \<Rightarrow> (inbox, Checkout) op" where
  "checkout env resolution =
     (case (case (resolution, cf_default_repository (en_config env)) of
              (RepoResolution.Skip reason, Some fallback) \<Rightarrow> resolve_repo_for_cascade env fallback
            | _ \<Rightarrow> resolution) of
        RepoResolution.Resolved project_dir repo_name scm_url \<Rightarrow>
          bind_op (ask_result (\<lambda>t. en_sync env t project_dir scm_url)) (\<lambda>default_branch.
            ret \<lparr>co_project_dir = project_dir, co_repository = repo_name, co_default_branch = default_branch\<rparr>)
      | RepoResolution.Skip reason \<Rightarrow> fail (error.Other ''no repository resolved for the security assessment''))"

definition indexed_resolution :: "inbox_env \<Rightarrow> string \<Rightarrow> RepoResolution option result" where
  "indexed_resolution env repository =
     (case en_index env of
        None \<Rightarrow> Inr None
      | Some (Inl e) \<Rightarrow> Inl e
      | Some (Inr repos) \<Rightarrow>
          Inr (filter_option (\<lambda>r. case r of RepoResolution.Resolved d n u \<Rightarrow> True | _ \<Rightarrow> False)
            (map_option (\<lambda>repo. resolve_repo_for_cascade env (ix_name repo))
              (find_by (\<lambda>repo. eq_ignore_ascii_case (ix_name repo) repository) repos))))"

fun redirection :: "inbox_env \<Rightarrow> NamedRepository \<Rightarrow> RepoResolution option result" where
  "redirection env (NamedRepository.Other name) = indexed_resolution env name"
| "redirection env _ = Inr None"

definition phase_a :: "inbox_env \<Rightarrow> ReportText \<Rightarrow> Checkout \<Rightarrow> (inbox, PhaseA) op" where
  "phase_a env report co =
     bind_op (ask_agent env (\<lambda>nonces.
       assessment_prompt nonces (report_prompt report) (co_repository co) (cf_scope (en_config env)))) (\<lambda>v.
     of_result (decoded ''assessment'' (en_decode_phase_a env v)))"

section \<open>Git history\<close>

definition run_git :: "inbox_env \<Rightarrow> History \<Rightarrow> string list \<Rightarrow> (inbox, git_output result) op" where
  "run_git env h arguments = ask (\<lambda>t. en_git env t (hi_project_dir h) arguments)"

definition git :: "inbox_env \<Rightarrow> History \<Rightarrow> string list \<Rightarrow> (inbox, string) op" where
  "git env h arguments = bind_op (run_git env h arguments) (\<lambda>outcome. of_result (git_stdout arguments outcome))"

definition commits_touching :: "inbox_env \<Rightarrow> History \<Rightarrow> string list \<Rightarrow> (inbox, Commit list) op" where
  "commits_touching env h paths =
     (if paths = [] then ret []
      else bind_op (git env h (touching_arguments h paths)) (\<lambda>stdout. ret (parse_log stdout)))"

definition commits_mentioning :: "inbox_env \<Rightarrow> History \<Rightarrow> string \<Rightarrow> (inbox, Commit list) op" where
  "commits_mentioning env h term =
     bind_op (git env h (mentioning_arguments h term)) (\<lambda>stdout. ret (parse_log stdout))"

definition commit_date :: "inbox_env \<Rightarrow> History \<Rightarrow> string \<Rightarrow> (inbox, string \<times> datetime) op" where
  "commit_date env h sha =
     bind_op (of_result (validate_sha (en_debug env) sha)) (\<lambda>_.
     bind_op (git env h (show_arguments sha)) (\<lambda>stdout.
     of_result (read_commit_date (en_debug env) (en_parse_rfc3339 env) sha stdout)))"

definition landed_at :: "inbox_env \<Rightarrow> History \<Rightarrow> string \<Rightarrow> (inbox, string \<times> datetime) op" where
  "landed_at env h sha =
     bind_op (commit_date env h sha) (\<lambda>(full, committed_at).
     bind_op (run_git env h (landing_arguments h full)) (\<lambda>outcome.
     bind_op (of_result outcome) (\<lambda>output.
     of_result (read_landing (en_debug env) (en_parse_rfc3339 env) full committed_at output))))"

definition is_ancestor :: "inbox_env \<Rightarrow> History \<Rightarrow> string \<Rightarrow> (inbox, bool) op" where
  "is_ancestor env h sha =
     bind_op (of_result (validate_sha (en_debug env) sha)) (\<lambda>_.
     bind_op (run_git env h (ancestor_arguments h sha)) (\<lambda>outcome.
     bind_op (of_result outcome) (\<lambda>output. of_result (read_ancestor sha output))))"

fun first_of_each :: "string set \<Rightarrow> Commit list \<Rightarrow> Commit list" where
  "first_of_each seen [] = []"
| "first_of_each seen (c # cs) =
     (if cm_sha c \<in> seen then first_of_each seen cs else c # first_of_each (insert (cm_sha c) seen) cs)"

fun mentioning_each :: "inbox_env \<Rightarrow> History \<Rightarrow> string list \<Rightarrow> Commit list \<Rightarrow> (inbox, Commit list) op" where
  "mentioning_each env h [] commits = ret commits"
| "mentioning_each env h (term # rest) commits =
     bind_op (commits_mentioning env h term) (\<lambda>more. mentioning_each env h rest (commits @ more))"

definition candidate_commits :: "inbox_env \<Rightarrow> History \<Rightarrow> PhaseA \<Rightarrow> (inbox, Commit list) op" where
  "candidate_commits env h phase =
     (let paths = validate_paths (en_canonicalize env) (hi_project_dir h) (pa_history_paths phase);
          terms = validate_terms (pa_history_terms phase)
      in bind_op (commits_touching env h paths) (\<lambda>touching.
         bind_op (mentioning_each env h terms touching) (\<lambda>commits.
         ret (first_of_each {} commits))))"

definition day_of :: "datetime \<Rightarrow> day" where
  "day_of t = t div (86400 * nanos_per_second)"

definition find_existing_fix ::
    "inbox_env \<Rightarrow> ReportText \<Rightarrow> PhaseA \<Rightarrow> Assessment \<Rightarrow> Checkout \<Rightarrow> (inbox, Verdict) op" where
  "find_existing_fix env report phase assessment co =
     bind_op (of_result (new_history (en_debug env) (en_canonicalize env) (en_io_text env)
         (co_project_dir co) (co_default_branch co))) (\<lambda>h.
     bind_op (candidate_commits env h phase) (\<lambda>commits.
       if commits = [] then ret Verdict.NotReproducible
       else
         (let listing = map (\<lambda>c. \<lparr>hc_sha = cm_sha c, hc_committed_at = cm_committed_at c, hc_subject = cm_subject c\<rparr>)
                commits;
              shas = map cm_sha commits
          in bind_op (tempdir env) (\<lambda>_.
             bind_op (ask_agent env (\<lambda>nonces. history_prompt nonces (as_summary assessment) listing)) (\<lambda>v.
             bind_op (of_result (decoded ''history verdict'' (en_decode_phase_b env v))) (\<lambda>choice.
               if choice = ''none'' then ret Verdict.NotReproducible
               else if choice \<notin> set shas then fail (error.Other ''history verdict named an unlisted commit'')
               else bind_op (is_ancestor env h choice) (\<lambda>ancestor.
                 if \<not> ancestor then fail (error.Other ''chosen fix is not on the default branch'')
                 else bind_op (landed_at env h choice) (\<lambda>(commit, landed).
                   ret (if landed < rt_reported_at report then Verdict.AlreadyFixed commit (day_of landed)
                        else Verdict.FixedAfterReport \<lparr>mf_commit = commit, mf_merged_at = landed\<rparr>)))))))))"

definition phase_b ::
    "inbox_env \<Rightarrow> ReportText \<Rightarrow> PhaseA \<Rightarrow> Assessment \<Rightarrow> Checkout \<Rightarrow> (inbox, Verdict) op" where
  "phase_b env report phase assessment co =
     bind_op (catch_op (find_existing_fix env report phase assessment co)) (\<lambda>found.
       ret (case found of
              Inr verdict \<Rightarrow> verdict
            | Inl e \<Rightarrow> Verdict.NeedsHuman ReviewReason.UnverifiableFix))"

section \<open>Assessing\<close>

definition verdict_of ::
    "inbox_env \<Rightarrow> ReportText \<Rightarrow> PhaseA \<Rightarrow> Assessment \<Rightarrow> Checkout \<Rightarrow> (inbox, Verdict) op" where
  "verdict_of env report phase assessment co =
     (case pa_outcome phase of
        AgentOutcome.Valid \<Rightarrow> ret Verdict.Valid
      | AgentOutcome.NotVulnerability \<Rightarrow> ret Verdict.NotVulnerability
      | AgentOutcome.OutOfScope \<Rightarrow> ret Verdict.OutOfScope
      | AgentOutcome.NeedsHuman \<Rightarrow> ret (Verdict.NeedsHuman ReviewReason.AssessmentInconclusive)
      | AgentOutcome.NotReproducible \<Rightarrow>
          bind_op (phase_b env report phase assessment co) (\<lambda>verdict.
            ret (if verdict = Verdict.NotReproducible \<and> rt_attachments report \<noteq> []
                 then Verdict.NeedsHuman ReviewReason.AttachmentEvidence else verdict)))"

definition settle_assessment ::
    "inbox_env \<Rightarrow> ReportText \<Rightarrow> PhaseA \<Rightarrow> Checkout \<Rightarrow> (inbox, AssessmentResult) op" where
  "settle_assessment env report phase co =
     (let assessment = phase_assessment (en_scrub_internal env) phase
      in bind_op (verdict_of env report phase assessment co) (\<lambda>verdict.
         ret \<lparr>ar_assessment = assessment, ar_verdict = verdict, ar_repository = Some (co_repository co)\<rparr>))"

definition assess :: "inbox_env \<Rightarrow> ReportText \<Rightarrow> RepoResolution \<Rightarrow> (inbox, AssessmentResult) op" where
  "assess env report resolution =
     bind_op (checkout env resolution) (\<lambda>co.
     bind_op (phase_a env report co) (\<lambda>phase.
       (let named = named_repository phase (co_repository co)
        in case named_elsewhere named of
             None \<Rightarrow> settle_assessment env report phase co
           | Some reference \<Rightarrow>
               bind_op (of_result (redirection env named)) (\<lambda>redirected.
                 case redirected of
                   None \<Rightarrow>
                     ret (phase_unresolved (en_scrub_internal env) phase
                       (Verdict.UnindexedRepository (en_scrub_internal env reference)))
                 | Some resolution' \<Rightarrow>
                     bind_op (checkout env resolution') (\<lambda>co'.
                     bind_op (phase_a env report co') (\<lambda>phase'.
                       case named_elsewhere (named_repository phase' (co_repository co')) of
                         Some reference' \<Rightarrow>
                           ret (phase_unresolved (en_scrub_internal env) phase'
                             (Verdict.ConflictingRepository (en_scrub_internal env reference')))
                       | None \<Rightarrow> settle_assessment env report phase' co'))))))"

end
