(* ===== verification/Inbox_Register.thy ===== *)
theory Inbox_Register
  imports Inbox_Assess
begin

text \<open>
  Linking a valid report to its vulnerability, \<open>crates/claudear-engine/src/security/dedup.rs\<close>. The code holds
  the registration lock throughout \<open>register\<close>, which is one operation here.
\<close>

section \<open>Valid reports\<close>

definition recent_candidates :: nat where
  "recent_candidates = 20"

definition max_compared_vulnerabilities :: "64 word" where
  "max_compared_vulnerabilities = 1000"

datatype RegistrationKind = Created | Adopted | Replaced | Duplicate | Relinked

record Registration =
  rg_kind :: RegistrationKind
  rg_vulnerability :: security_vulnerability

datatype AssessmentOrigin = Agent | Admin

fun origin_as_str :: "AssessmentOrigin \<Rightarrow> string" where
  "origin_as_str AssessmentOrigin.Agent = ''agent''"
| "origin_as_str AssessmentOrigin.Admin = ''admin''"

fun registering_state :: "AssessmentOrigin \<Rightarrow> SecurityReportState" where
  "registering_state AssessmentOrigin.Agent = SecurityReportState.Assessing"
| "registering_state AssessmentOrigin.Admin = SecurityReportState.Registering"

record ValidReport =
  vr_report :: security_report
  vr_assessment :: Assessment
  vr_repository :: "string option"
  vr_merged :: "MergedFix option"
  vr_origin :: AssessmentOrigin

definition valid_first_report :: "ValidReport \<Rightarrow> FirstReport" where
  "valid_first_report valid = FirstReport (sr_id (vr_report valid)) (sr_reported_at (vr_report valid))"

definition valid_event :: "ValidReport \<Rightarrow> SecurityEventKind \<Rightarrow> int \<Rightarrow> RegistrationKind \<Rightarrow> NewSecurityEvent" where
  "valid_event valid kind vulnerability_id registration =
     (let detail = assessment_detail (vr_assessment valid) (outcome_as_str SecurityOutcome.Valid) (vr_repository valid);
          detail = json_set ''origin'' (JStr (origin_as_str (vr_origin valid))) detail;
          detail = json_set ''vulnerability_id'' (JInt vulnerability_id) detail;
          detail = (if registration = RegistrationKind.Relinked then json_set ''relinked'' (JBool True) detail
                    else detail)
      in with_detail detail (new_event kind))"

definition valid_changes :: "ValidReport \<Rightarrow> SecurityOutcome \<Rightarrow> int \<Rightarrow> SecurityReportChanges" where
  "valid_changes valid outcome vulnerability_id =
     no_report_changes\<lparr>rc_outcome := Some outcome, rc_assessment_summary := Some (as_summary (vr_assessment valid)),
       rc_affected_repository := vr_repository valid, rc_fixed_by_commit := map_option mf_commit (vr_merged valid),
       rc_vulnerability_id := Some vulnerability_id\<rparr>"

section \<open>Candidates\<close>

definition embedding_of :: "inbox_env \<Rightarrow> Assessment \<Rightarrow> (inbox, f32 list option) op" where
  "embedding_of env assessment =
     (case en_embed env of
        None \<Rightarrow> ret None
      | Some embedder \<Rightarrow>
          bind_op (ask (\<lambda>t. embedder t (as_title assessment @ newline @ as_summary assessment))) (\<lambda>embedded.
            ret (case embedded of
                   Inr embedding \<Rightarrow> if embedding \<noteq> [] then Some embedding else None
                 | Inl e \<Rightarrow> None)))"

definition candidates ::
    "inbox_env \<Rightarrow> SecurityVulnerabilityCandidate list \<Rightarrow> f32 list option \<Rightarrow> SecurityVulnerabilityCandidate list" where
  "candidates env compared embedding =
     (case embedding of
        None \<Rightarrow> take recent_candidates compared
      | Some embedding \<Rightarrow>
          (let (scorable, unscorable) = partition (\<lambda>c. length (cd_embedding c) = length embedding) compared;
               scored = filter (\<lambda>(similarity, c). f32_le (cf_duplicate_similarity (en_config env)) similarity)
                 (map (\<lambda>c. (en_cosine_similarity env embedding (cd_embedding c), c)) scorable);
               scored = order_asc (\<lambda>(similarity, c). - f32_total_key similarity) scored
           in map snd (take (cf_duplicate_candidates (en_config env)) scored) @ take recent_candidates unscorable))"

definition judge ::
    "inbox_env \<Rightarrow> Assessment \<Rightarrow> SecurityVulnerabilityCandidate list \<Rightarrow> (inbox, int option) op" where
  "judge env assessment cs =
     (if cs = [] then ret None
      else
        (let listing = map (\<lambda>c. \<lparr>dc_id = cd_id c, dc_title = cd_title c, dc_summary = cd_summary c\<rparr>) cs;
             ids = map cd_id cs
         in bind_op (tempdir env) (\<lambda>_.
            bind_op (ask_agent env (\<lambda>nonces.
              duplicate_prompt nonces (as_title assessment) (as_summary assessment) listing)) (\<lambda>v.
            bind_op (of_result (decoded ''duplicate verdict'' (en_decode_duplicate env v))) (\<lambda>duplicate_of.
              if duplicate_of = ''none'' then ret None
              else (case find_by (\<lambda>i. show_int i = duplicate_of) ids of
                  Some i \<Rightarrow> ret (Some i)
                | None \<Rightarrow> fail (error.Other ''duplicate verdict named an unknown candidate'')))))))"

section \<open>Registering\<close>

definition link_tracking ::
    "ValidReport \<Rightarrow> security_vulnerability \<Rightarrow> RegistrationKind \<Rightarrow> (inbox, Registration option) op" where
  "link_tracking valid v kind =
     bind_op (store (\<lambda>now. transition_security_report now (sr_id (vr_report valid))
         (registering_state (vr_origin valid)) SecurityReportState.Tracking
         (valid_changes valid SecurityOutcome.Valid (sv_id v))
         (valid_event valid SecurityEventKind.Assessed (sv_id v) kind))) (\<lambda>moved.
     ret (if moved then Some \<lparr>rg_kind = kind, rg_vulnerability = v\<rparr> else None))"

definition link_as_duplicate :: "ValidReport \<Rightarrow> security_vulnerability \<Rightarrow> (inbox, Registration option) op" where
  "link_as_duplicate valid matched =
     bind_op (store (\<lambda>now. transition_security_report now (sr_id (vr_report valid))
         (registering_state (vr_origin valid)) SecurityReportState.Replying
         (valid_changes valid SecurityOutcome.Duplicate (sv_id matched))
         (valid_event valid SecurityEventKind.DuplicateLinked (sv_id matched) RegistrationKind.Duplicate))) (\<lambda>moved.
     ret (if moved then Some \<lparr>rg_kind = RegistrationKind.Duplicate, rg_vulnerability = matched\<rparr> else None))"

definition try_replace :: "ValidReport \<Rightarrow> security_vulnerability \<Rightarrow> FirstReporterDecision \<Rightarrow> (inbox, bool) op" where
  "try_replace valid matched decision =
     (if decision = FirstReporterDecision.Replace
      then store (\<lambda>now. replace_first_reporter now (sv_id matched) (sv_first_report_id matched)
             (sr_id (vr_report valid)) (sr_reported_at (vr_report valid)))
      else ret False)"

definition link_duplicate :: "ValidReport \<Rightarrow> security_vulnerability \<Rightarrow> (inbox, Registration option) op" where
  "link_duplicate valid matched =
     bind_op (query (get_security_award (sv_id matched))) (\<lambda>award.
       (let decision = select_first_reporter (FirstReport (sv_first_report_id matched) (sv_first_reported_at matched))
              (valid_first_report valid) (award \<noteq> None)
        in bind_op (try_replace valid matched decision) (\<lambda>replaced.
           if replaced
           then bind_op (query (get_security_vulnerability (sv_id matched))) (\<lambda>found.
             link_tracking valid (case found of Some v \<Rightarrow> v | None \<Rightarrow> matched) RegistrationKind.Replaced)
           else link_as_duplicate valid matched)))"

definition linked_vulnerability :: "security_report \<Rightarrow> (inbox, security_vulnerability option) op" where
  "linked_vulnerability report =
     (case sr_vulnerability_id report of
        Some vulnerability_id \<Rightarrow> query (get_security_vulnerability vulnerability_id)
      | None \<Rightarrow> ret None)"

definition new_vulnerability :: "ValidReport \<Rightarrow> f32 list option \<Rightarrow> NewSecurityVulnerability" where
  "new_vulnerability valid embedding =
     \<lparr>nv_title = as_title (vr_assessment valid), nv_summary = as_summary (vr_assessment valid),
      nv_embedding = (case embedding of None \<Rightarrow> [] | Some e \<Rightarrow> e), nv_repository = vr_repository valid,
      nv_severity = as_severity (vr_assessment valid),
      nv_state = (if vr_merged valid \<noteq> None then VulnerabilityState.Merged else VulnerabilityState.AwaitingFix),
      nv_first_report_id = sr_id (vr_report valid), nv_first_reported_at = sr_reported_at (vr_report valid),
      nv_merge_commit = map_option mf_commit (vr_merged valid),
      nv_merged_at = map_option mf_merged_at (vr_merged valid)\<rparr>"

definition register_new :: "inbox_env \<Rightarrow> ValidReport \<Rightarrow> (inbox, Registration option) op" where
  "register_new env valid =
     bind_op (embedding_of env (vr_assessment valid)) (\<lambda>embedding.
     bind_op (query (list_security_vulnerability_candidates max_compared_vulnerabilities)) (\<lambda>compared.
     bind_op (judge env (vr_assessment valid) (candidates env compared embedding)) (\<lambda>matched.
       case matched of
         Some i \<Rightarrow>
           bind_op (query (get_security_vulnerability i)) (\<lambda>found.
             case found of
               None \<Rightarrow> fail (error.Other ''duplicate vulnerability disappeared'')
             | Some v \<Rightarrow> link_duplicate valid v)
       | None \<Rightarrow>
           bind_op (store (\<lambda>now. create_security_vulnerability now (new_vulnerability valid embedding))) (\<lambda>v.
           link_tracking valid v RegistrationKind.Created))))"

definition register :: "inbox_env \<Rightarrow> ValidReport \<Rightarrow> (inbox, Registration option) op" where
  "register env valid =
     bind_op (query (find_security_vulnerability_by_first_report (sr_id (vr_report valid)))) (\<lambda>existing.
       case existing of
         Some v \<Rightarrow> link_tracking valid v RegistrationKind.Adopted
       | None \<Rightarrow>
           bind_op (linked_vulnerability (vr_report valid)) (\<lambda>linked.
             case linked of
               Some v \<Rightarrow> link_tracking valid v RegistrationKind.Relinked
             | None \<Rightarrow> register_new env valid))"

end
