(* ===== verification/Issues.thy ===== *)
theory Issues
  imports Prelude
begin

text \<open>
  Issues of every source, \<open>crates/claudear-core/src/types.rs\<close>. The metadata is the entries of a hash map of
  JSON values; a reader gives the value of the type asked for, or nothing.
\<close>

datatype IssuePriority = No_Priority | Low_Priority | Medium_Priority | High_Priority | Critical_Priority

fun issue_priority_as_str :: "IssuePriority \<Rightarrow> string" where
  "issue_priority_as_str No_Priority = ''none''"
| "issue_priority_as_str Low_Priority = ''low''"
| "issue_priority_as_str Medium_Priority = ''medium''"
| "issue_priority_as_str High_Priority = ''high''"
| "issue_priority_as_str Critical_Priority = ''critical''"

datatype IssueStatus = Open_Issue | In_Progress_Issue | Resolved_Issue | Ignored_Issue

fun issue_status_as_str :: "IssueStatus \<Rightarrow> string" where
  "issue_status_as_str Open_Issue = ''open''"
| "issue_status_as_str In_Progress_Issue = ''in_progress''"
| "issue_status_as_str Resolved_Issue = ''resolved''"
| "issue_status_as_str Ignored_Issue = ''ignored''"

record Issue =
  is_id :: string
  is_short_id :: string
  is_title :: string
  is_description :: "string option"
  is_url :: string
  is_source :: string
  is_priority :: IssuePriority
  is_status :: IssueStatus
  is_metadata :: "(string \<times> json) list"
  is_created_at :: "datetime option"
  is_updated_at :: "datetime option"

definition new_issue :: "string \<Rightarrow> string \<Rightarrow> string \<Rightarrow> string \<Rightarrow> string \<Rightarrow> Issue" where
  "new_issue i short_id title url source =
     \<lparr>is_id = i, is_short_id = short_id, is_title = title, is_description = None, is_url = url, is_source = source,
      is_priority = No_Priority, is_status = Open_Issue, is_metadata = [], is_created_at = None,
      is_updated_at = None\<rparr>"

definition metadata :: "Issue \<Rightarrow> string \<Rightarrow> (json \<Rightarrow> 'a option) \<Rightarrow> 'a option" where
  "metadata issue key read = Option.bind (map_of (is_metadata issue) key) read"

end
