(* ===== verification/Inbox_Intake.thy ===== *)
theory Inbox_Intake
  imports Inbox_Fix
begin

text \<open>
  The intake of polled conversations, \<open>crates/claudear-engine/src/security/intake.rs\<close>: what to do with each one,
  and the screening and assessment of new reports.
\<close>

section \<open>Issues\<close>

text \<open>\<open>get_metadata::<T>(key)\<close> for a \<open>u32\<close>, a \<open>String\<close> and a \<open>Vec<String>\<close>.\<close>

fun json_u32 :: "json \<Rightarrow> u32 option" where
  "json_u32 (JInt i) = (if 0 \<le> i \<and> i < 2 ^ 32 then Some (word_of_int i) else None)"
| "json_u32 _ = None"

fun json_strings :: "json \<Rightarrow> string list option" where
  "json_strings (JArr js) = those (map json_as_str js)"
| "json_strings _ = None"

definition thread_count :: "Issue \<Rightarrow> u32" where
  "thread_count issue = (case metadata issue ''customer_thread_count'' json_u32 of Some n \<Rightarrow> n | None \<Rightarrow> 0)"

definition new_report :: "Issue \<Rightarrow> (inbox, NewSecurityReport) op" where
  "new_report issue =
     bind_op (case is_created_at issue of Some t \<Rightarrow> ret t | None \<Rightarrow> clock) (\<lambda>reported_at.
     ret \<lparr>nr_source = is_source issue, nr_conversation_id = is_id issue, nr_short_id = is_short_id issue,
          nr_mailbox_id = or_empty (metadata issue ''mailbox_id'' json_as_str), nr_url = is_url issue,
          nr_subject = is_title issue, nr_reporter_email = metadata issue ''customer_email'' json_as_str,
          nr_reporter_customer_id = metadata issue ''customer_id'' json_as_str, nr_reported_at = reported_at,
          nr_customer_thread_count = thread_count issue\<rparr>)"

definition report_text :: "Issue \<Rightarrow> security_report \<Rightarrow> ReportText" where
  "report_text issue report =
     \<lparr>rt_subject = is_title issue, rt_body = or_empty (is_description issue),
      rt_attachments = (case metadata issue ''attachments'' json_strings of Some names \<Rightarrow> names | None \<Rightarrow> []),
      rt_reported_at = sr_reported_at report\<rparr>"

fun reply_outcome :: "Verdict \<Rightarrow> SecurityOutcome option" where
  "reply_outcome Verdict.NotReproducible = Some SecurityOutcome.NotReproducible"
| "reply_outcome (Verdict.AlreadyFixed commit fixed_on) = Some SecurityOutcome.AlreadyFixed"
| "reply_outcome Verdict.NotVulnerability = Some SecurityOutcome.NotVulnerability"
| "reply_outcome Verdict.OutOfScope = Some SecurityOutcome.OutOfScope"
| "reply_outcome _ = None"

section \<open>Polling\<close>

datatype SecurityPollDecision = Route | FollowUp | Skip

datatype SecurityRoute = Done string | RunFix SecurityFixRequest

definition predates_processing :: "inbox_env \<Rightarrow> Issue \<Rightarrow> bool" where
  "predates_processing env issue \<longleftrightarrow>
     (case (cf_process_after (en_config env), is_created_at issue) of
        (None, _) \<Rightarrow> False
      | (Some after, Some created_at) \<Rightarrow> created_at < after
      | (Some after, None) \<Rightarrow> True)"

definition decision_for :: "Issue \<Rightarrow> security_report \<Rightarrow> SecurityPollDecision" where
  "decision_for issue report =
     (case sr_state report of
        SecurityReportState.Received \<Rightarrow> SecurityPollDecision.Route
      | SecurityReportState.Assessing \<Rightarrow> SecurityPollDecision.Skip
      | _ \<Rightarrow> if sr_customer_thread_count report < thread_count issue then SecurityPollDecision.FollowUp
             else SecurityPollDecision.Skip)"

definition poll_decision :: "inbox_env \<Rightarrow> Issue \<Rightarrow> (inbox, SecurityPollDecision) op" where
  "poll_decision env issue =
     (if predates_processing env issue then ret SecurityPollDecision.Skip
      else bind_op (query (get_security_report_by_conversation (is_source issue) (is_id issue))) (\<lambda>found.
        ret (case found of None \<Rightarrow> SecurityPollDecision.Route | Some report \<Rightarrow> decision_for issue report)))"

definition observe_follow_up :: "inbox_env \<Rightarrow> Issue \<Rightarrow> (inbox, unit) op" where
  "observe_follow_up env issue =
     bind_op (query (get_security_report_by_conversation (is_source issue) (is_id issue))) (\<lambda>found.
       case found of
         None \<Rightarrow> ret ()
       | Some report \<Rightarrow>
           bind_op (store (\<lambda>now. record_security_follow_up now (sr_id report) (sr_customer_thread_count report)
               (thread_count issue))) (\<lambda>recorded.
             if recorded
             then bind_op (subject_for report) (ping env OwnerAction.ReporterFollowUp)
             else ret ()))"

section \<open>Replying and acknowledging\<close>

definition reply_with_outcome :: "inbox_env \<Rightarrow> int \<Rightarrow> (inbox, unit) op" where
  "reply_with_outcome env report_id =
     bind_op (query (get_security_report report_id)) (\<lambda>found.
       case found of
         None \<Rightarrow> ret ()
       | Some report \<Rightarrow>
           (case Option.bind (sr_outcome report) reply_kind_for_outcome of
              None \<Rightarrow> ret ()
            | Some kind \<Rightarrow>
                bind_op (ensure_delivered env report kind
                  \<lparr>tr_from = SecurityReportState.Replying, tr_to = SecurityReportState.Closed\<rparr>) (\<lambda>_. ret ())))"

definition deliver_confirmed :: "inbox_env \<Rightarrow> int \<Rightarrow> (inbox, unit) op" where
  "deliver_confirmed env report_id =
     (if cf_acknowledge_valid (en_config env)
      then bind_op (query (get_security_report report_id)) (\<lambda>found.
        case found of
          None \<Rightarrow> ret ()
        | Some report \<Rightarrow> bind_op (deliver env report SecurityReplyKind.Confirmed None) (\<lambda>_. ret ()))
      else ret ())"

definition acknowledge :: "inbox_env \<Rightarrow> int \<Rightarrow> Registration \<Rightarrow> (inbox, unit) op" where
  "acknowledge env report_id registration =
     bind_op (if rg_kind registration = RegistrationKind.Created
              then ping env OwnerAction.NewValidReport (ping_vulnerability (rg_vulnerability registration))
              else ret ()) (\<lambda>_.
       case rg_kind registration of
         RegistrationKind.Duplicate \<Rightarrow> reply_with_outcome env report_id
       | RegistrationKind.Relinked \<Rightarrow> ret ()
       | _ \<Rightarrow> deliver_confirmed env report_id)"

section \<open>Routing\<close>

definition route_done :: "string \<Rightarrow> (inbox, SecurityRoute) op" where
  "route_done reason = ret (SecurityRoute.Done reason)"

definition immediate_fix :: "inbox_env \<Rightarrow> security_report \<Rightarrow> (inbox, SecurityFixRequest option) op" where
  "immediate_fix env report =
     (case sr_vulnerability_id report of
        None \<Rightarrow> ret None
      | Some vulnerability_id \<Rightarrow>
          bind_op (query (get_security_vulnerability vulnerability_id)) (\<lambda>found.
            case found of
              None \<Rightarrow> ret None
            | Some v \<Rightarrow>
                if sv_state v = VulnerabilityState.AwaitingFix \<and> sv_first_report_id v = sr_id report
                then bind_op (fix_attempt vulnerability_id) (\<lambda>attempt.
                  if attempt = None then fix_request env vulnerability_id else ret None)
                else ret None))"

definition route_existing :: "inbox_env \<Rightarrow> security_report \<Rightarrow> (inbox, SecurityRoute) op" where
  "route_existing env report =
     (let otherwise = route_done (''report is '' @ report_state_as_str (sr_state report))
      in if sr_state report = SecurityReportState.Tracking
         then bind_op (immediate_fix env report) (\<lambda>request.
           case request of Some r \<Rightarrow> ret (SecurityRoute.RunFix r) | None \<Rightarrow> otherwise)
         else otherwise)"

definition release :: "inbox_env \<Rightarrow> security_report \<Rightarrow> string \<Rightarrow> (inbox, unit) op" where
  "release env report err =
     bind_op (store (\<lambda>now. transition_security_report now (sr_id report)
         SecurityReportState.Assessing SecurityReportState.Received
         (no_report_changes\<lparr>rc_assessment_attempts := Some (sr_assessment_attempts report + 1)\<rparr>)
         (with_detail (JObj [(''error'', JStr (truncated_error env err))])
           (new_event SecurityEventKind.AssessmentFailed)))) (\<lambda>_. ret ())"

definition call_source :: "source_call \<Rightarrow> (nat \<Rightarrow> unit result) \<Rightarrow> (inbox, unit) op" where
  "call_source c answer s =
     ask_result answer (s\<lparr>ib_source_calls := ib_source_calls s @ [c]\<rparr>)"

definition mark_spam :: "inbox_env \<Rightarrow> string \<Rightarrow> (inbox, unit) op" where
  "mark_spam env conversation_id =
     call_source (Mark_spam conversation_id) (\<lambda>t. en_mark_spam env t conversation_id)"

definition resolve_issue :: "inbox_env \<Rightarrow> string \<Rightarrow> (inbox, unit) op" where
  "resolve_issue env conversation_id =
     call_source (Resolve_issue conversation_id) (\<lambda>t. en_resolve_issue env t conversation_id)"

definition run_spam_action :: "inbox_env \<Rightarrow> string \<Rightarrow> (inbox, unit) op" where
  "run_spam_action env conversation_id =
     (if cf_spam_action (en_config env) = SpamAction.Spam
      then bind_op (catch_op (mark_spam env conversation_id)) (\<lambda>marked.
        case marked of
          Inr u \<Rightarrow> ret ()
        | Inl e \<Rightarrow> resolve_issue env conversation_id)
      else resolve_issue env conversation_id)"

definition spam_note :: string where
  "spam_note = ''Closed automatically as spam.''"

definition conversation_closed_by_spam_action :: "inbox_env \<Rightarrow> int \<Rightarrow> (inbox, unit) op" where
  "conversation_closed_by_spam_action env report_id =
     store (\<lambda>now. record_security_event now (Some report_id) None
       (with_detail (JObj [(''spam_action'', JStr (spam_action_as_str (cf_spam_action (en_config env))))])
         (new_event SecurityEventKind.ConversationClosed)))"

text \<open>A comment that fails is only logged.\<close>

definition close_spam :: "inbox_env \<Rightarrow> security_report \<Rightarrow> f64 \<Rightarrow> (inbox, unit) op" where
  "close_spam env report confidence =
     bind_op (run_spam_action env (sr_conversation_id report)) (\<lambda>_.
     bind_op (call_source (Add_comment (sr_conversation_id report) spam_note) (\<lambda>t. Inr ())) (\<lambda>_.
     bind_op (conversation_closed_by_spam_action env (sr_id report)) (\<lambda>_.
     bind_op (store (\<lambda>now. transition_security_report now (sr_id report)
         SecurityReportState.Assessing SecurityReportState.Spam
         (no_report_changes\<lparr>rc_outcome := Some SecurityOutcome.Spam, rc_spam_confidence := Some confidence\<rparr>)
         (with_detail (JObj [(''confidence'', json_f64 confidence)])
           (new_event SecurityEventKind.ScreenedSpam)))) (\<lambda>_. ret ()))))"

section \<open>Applying an assessment\<close>

definition verdict_merged :: "Verdict \<Rightarrow> MergedFix option" where
  "verdict_merged verdict = (case verdict of Verdict.FixedAfterReport m \<Rightarrow> Some m | _ \<Rightarrow> None)"

definition apply_review ::
    "inbox_env \<Rightarrow> security_report \<Rightarrow> AssessmentResult \<Rightarrow> ReviewReason \<Rightarrow> (inbox, SecurityRoute) op" where
  "apply_review env report result reason =
     (let a = ar_assessment result;
          detail = assessment_detail a ''needs_human'' (ar_repository result);
          detail = json_set ''reason'' (JStr (review_reason_as_str reason)) detail;
          detail = verdict_record (en_to_rfc3339 env) (en_scrub_internal env) (ar_verdict result) detail
      in bind_op (store (\<lambda>now. transition_security_report now (sr_id report)
           SecurityReportState.Assessing SecurityReportState.NeedsHuman
           (no_report_changes\<lparr>rc_assessment_summary := Some (as_summary a),
              rc_affected_repository := ar_repository result,
              rc_fixed_by_commit := map_option mf_commit (verdict_merged (ar_verdict result))\<rparr>)
           (with_detail detail (new_event SecurityEventKind.NeedsHuman)))) (\<lambda>moved.
         bind_op (if moved then ping env (OwnerAction.NeedsReview reason) (ping_report (sr_id report)) else ret ()) (\<lambda>_.
         route_done (''needs human review: '' @ review_reason_as_str reason))))"

definition apply_outcome ::
    "inbox_env \<Rightarrow> security_report \<Rightarrow> AssessmentResult \<Rightarrow> SecurityOutcome \<Rightarrow> (inbox, SecurityRoute) op" where
  "apply_outcome env report result outcome =
     (let a = ar_assessment result;
          fixed = (case ar_verdict result of Verdict.AlreadyFixed commit fixed_on \<Rightarrow> Some (commit, fixed_on) | _ \<Rightarrow> None);
          reason = (if outcome = SecurityOutcome.NotVulnerability \<or> outcome = SecurityOutcome.OutOfScope
                    then Some (public_reason (en_scrub_internal env) (as_public_reason a) outcome) else None)
      in bind_op (store (\<lambda>now. transition_security_report now (sr_id report)
           SecurityReportState.Assessing SecurityReportState.Replying
           (no_report_changes\<lparr>rc_outcome := Some outcome, rc_public_reason := reason,
              rc_assessment_summary := Some (as_summary a), rc_affected_repository := ar_repository result,
              rc_fixed_by_commit := map_option fst fixed, rc_fixed_on := map_option snd fixed\<rparr>)
           (with_detail (assessment_detail a (outcome_as_str outcome) (ar_repository result))
             (new_event SecurityEventKind.Assessed)))) (\<lambda>moved.
         if \<not> moved then route_done ''report left assessment meanwhile''
         else bind_op (reply_with_outcome env (sr_id report)) (\<lambda>_.
           route_done (''replied '' @ outcome_as_str outcome))))"

definition apply_valid :: "inbox_env \<Rightarrow> security_report \<Rightarrow> AssessmentResult \<Rightarrow> (inbox, SecurityRoute) op" where
  "apply_valid env report result =
     bind_op (register env
       \<lparr>vr_report = report, vr_assessment = ar_assessment result, vr_repository = ar_repository result,
        vr_merged = None, vr_origin = AssessmentOrigin.Agent\<rparr>) (\<lambda>registration.
       case registration of
         None \<Rightarrow> route_done ''report left assessment meanwhile''
       | Some r \<Rightarrow>
           bind_op (acknowledge env (sr_id report) r) (\<lambda>_.
           bind_op (query (get_security_report (sr_id report))) (\<lambda>stored.
             case stored of
               Some s \<Rightarrow> route_existing env s
             | None \<Rightarrow> route_done ''report disappeared'')))"

definition apply_assessment ::
    "inbox_env \<Rightarrow> security_report \<Rightarrow> AssessmentResult \<Rightarrow> (inbox, SecurityRoute) op" where
  "apply_assessment env report result =
     (case verdict_review_reason (ar_verdict result) of
        Some reason \<Rightarrow> apply_review env report result reason
      | None \<Rightarrow>
          (case reply_outcome (ar_verdict result) of
             Some outcome \<Rightarrow> apply_outcome env report result outcome
           | None \<Rightarrow> apply_valid env report result))"

definition screen_and_assess ::
    "inbox_env \<Rightarrow> security_report \<Rightarrow> ReportText \<Rightarrow> RepoResolution \<Rightarrow> (inbox, SecurityRoute) op" where
  "screen_and_assess env report t resolution =
     bind_op (screen env t) (\<lambda>screening.
       case screening of
         Screening.Spam confidence \<Rightarrow>
           bind_op (close_spam env report confidence) (\<lambda>_. route_done ''screened as spam'')
       | Screening.Report confidence \<Rightarrow>
           bind_op (assess env t resolution) (apply_assessment env report))"

definition route_received ::
    "inbox_env \<Rightarrow> Issue \<Rightarrow> RepoResolution \<Rightarrow> security_report \<Rightarrow> (inbox, SecurityRoute) op" where
  "route_received env issue resolution report =
     (if cf_max_assessment_attempts (en_config env) \<le> sr_assessment_attempts report
      then bind_op (store (\<lambda>now. transition_security_report now (sr_id report)
          SecurityReportState.Received SecurityReportState.NeedsHuman no_report_changes
          (with_detail (JObj [(''reason'', JStr (review_reason_as_str ReviewReason.AssessmentFailed)),
              (''attempts'', JInt (uint (sr_assessment_attempts report)))])
            (new_event SecurityEventKind.NeedsHuman)))) (\<lambda>moved.
        bind_op (if moved then ping env (OwnerAction.NeedsReview ReviewReason.AssessmentFailed) (ping_report (sr_id report))
                 else ret ()) (\<lambda>_.
        route_done ''assessment attempts exhausted''))
      else bind_op (store (\<lambda>now. transition_security_report now (sr_id report)
          SecurityReportState.Received SecurityReportState.Assessing no_report_changes
          (with_detail (JObj [(''attempt'', JInt (uint (sr_assessment_attempts report + 1)))])
            (new_event SecurityEventKind.AssessmentStarted)))) (\<lambda>claimed.
        if \<not> claimed then route_done ''assessment already claimed''
        else bind_op (catch_op (screen_and_assess env report (report_text issue report) resolution)) (\<lambda>assessed.
          case assessed of
            Inr route \<Rightarrow> ret route
          | Inl e \<Rightarrow>
              bind_op (release env report (error_text (en_db_text env) e)) (\<lambda>_.
              route_done ''assessment failed and was released''))))"

definition route_report :: "inbox_env \<Rightarrow> Issue \<Rightarrow> RepoResolution \<Rightarrow> (inbox, SecurityRoute) op" where
  "route_report env issue resolution =
     (if predates_processing env issue then route_done ''received before process_after''
      else bind_op (new_report issue) (\<lambda>new.
        bind_op (store (\<lambda>now. upsert_security_report now new)) (\<lambda>report.
          if sr_state report \<noteq> SecurityReportState.Received then route_existing env report
          else route_received env issue resolution report)))"

definition route :: "inbox_env \<Rightarrow> Issue \<Rightarrow> RepoResolution \<Rightarrow> (inbox, SecurityRoute) op" where
  "route env issue resolution =
     bind_op (catch_op (route_report env issue resolution)) (\<lambda>routed.
       case routed of
         Inr r \<Rightarrow> ret r
       | Inl e \<Rightarrow> route_done (truncated_error env (error_text (en_db_text env) e)))"

end
