(* ===== verification/Inbox_Sweep.thy ===== *)
theory Inbox_Sweep
  imports Inbox_Intake
begin

text \<open>
  The periodic sweep of the security inbox, \<open>crates/claudear-engine/src/security/lifecycle.rs\<close>, that moves every
  report and vulnerability forward from the store alone. A step that fails is counted and the sweep goes on.
\<close>

section \<open>Steps and their errors\<close>

record SecurityAdvanceSummary =
  su_released :: nat
  su_replies_sent :: nat
  su_merged :: nat
  su_live :: nat
  su_awards_prepared :: nat
  su_needs_human :: nat
  su_errors :: nat

definition empty_summary :: SecurityAdvanceSummary where
  "empty_summary =
     \<lparr>su_released = 0, su_replies_sent = 0, su_merged = 0, su_live = 0, su_awards_prepared = 0,
      su_needs_human = 0, su_errors = 0\<rparr>"

record sweep =
  sw_inbox :: inbox
  sw_summary :: SecurityAdvanceSummary

definition on_inbox :: "(inbox, 'a) op \<Rightarrow> (sweep, 'a) op" where
  "on_inbox m s = (case m (sw_inbox s) of (r, i) \<Rightarrow> (r, s\<lparr>sw_inbox := i\<rparr>))"

definition bump :: "(SecurityAdvanceSummary \<Rightarrow> SecurityAdvanceSummary) \<Rightarrow> (sweep, unit) op" where
  "bump f s = (Inr (), s\<lparr>sw_summary := f (sw_summary s)\<rparr>)"

definition count_delivery :: "Delivery \<Rightarrow> (sweep, unit) op" where
  "count_delivery delivery =
     (if delivery = Delivery.Sent then bump (su_replies_sent_update Suc) else ret ())"

definition count_needs_human :: "bool \<Rightarrow> (sweep, unit) op" where
  "count_needs_human moved = (if moved then bump (su_needs_human_update Suc) else ret ())"

text \<open>\<open>record\<close>: the value of a step, or none and one more error.\<close>

definition record_step :: "(sweep, 'a) op \<Rightarrow> (sweep, 'a option) op" where
  "record_step m =
     bind_op (catch_op m) (\<lambda>r.
       case r of
         Inr x \<Rightarrow> ret (Some x)
       | Inl e \<Rightarrow> bind_op (bump (su_errors_update Suc)) (\<lambda>_. ret None))"

text \<open>The pattern of most parts of the sweep: list, and handle each on its own.\<close>

definition sweep_each :: "(sweep, 'a list) op \<Rightarrow> ('a \<Rightarrow> (sweep, unit) op) \<Rightarrow> (sweep, unit) op" where
  "sweep_each list_all_of handle =
     bind_op (record_step list_all_of) (\<lambda>found.
       case found of
         None \<Rightarrow> ret ()
       | Some xs \<Rightarrow> for_each (\<lambda>x. bind_op (record_step (handle x)) (\<lambda>_. ret ())) xs)"

definition every_report :: "SecurityReportState \<Rightarrow> SecurityReportFilter" where
  "every_report state = \<lparr>rf_state = Some state, rf_outcome = None, rf_limit = Some (-1)\<rparr>"

section \<open>Confirmed reports\<close>

definition confirmed_assessment :: "inbox_env \<Rightarrow> json \<Rightarrow> Assessment" where
  "confirmed_assessment env detail =
     no_assessment
       \<lparr>as_title := en_scrub_internal env (detail_text ''title'' detail),
        as_summary := en_scrub_internal env (detail_text ''summary'' detail),
        as_severity := Option.bind (detail_str ''severity'' detail) (\<lambda>s. ok_value (severity_from_str s))\<rparr>"

definition found_fix :: "inbox_env \<Rightarrow> security_report \<Rightarrow> security_event list \<Rightarrow> MergedFix option" where
  "found_fix env report timeline =
     filter_option (\<lambda>m. sr_fixed_by_commit report = Some (mf_commit m))
       (Option.bind
         (find_by (\<lambda>e. se_report_id e = Some (sr_id report) \<and> se_kind e = SecurityEventKind.NeedsHuman \<and>
              detail_str ''reason'' (se_detail e) = Some (review_reason_as_str ReviewReason.FixFoundInHistory))
           (rev timeline))
         (\<lambda>e. merged_fix_from_detail (en_parse_rfc3339 env) (se_detail e)))"

definition fix_found_in_history :: "inbox_env \<Rightarrow> security_report \<Rightarrow> (inbox, MergedFix option) op" where
  "fix_found_in_history env report =
     (if sr_fixed_by_commit report = None then ret None
      else bind_op (query (list_security_timeline (sr_id report))) (\<lambda>timeline. ret (found_fix env report timeline)))"

definition or_else :: "'a option \<Rightarrow> 'a option \<Rightarrow> 'a option" where
  "or_else a b = (case a of None \<Rightarrow> b | Some x \<Rightarrow> a)"

definition registration_failed :: "inbox_env \<Rightarrow> security_report \<Rightarrow> error \<Rightarrow> (sweep, unit) op" where
  "registration_failed env report e =
     bind_op (on_inbox (store (\<lambda>now. transition_security_report now (sr_id report)
         SecurityReportState.Registering SecurityReportState.NeedsHuman no_report_changes
         (with_detail (JObj [(''reason'', JStr (review_reason_as_str ReviewReason.RegistrationFailed)),
             (''error'', JStr (truncated_error env (error_text (en_db_text env) e)))])
           (new_event SecurityEventKind.NeedsHuman))))) (\<lambda>moved.
     bind_op (count_needs_human moved) (\<lambda>_.
     bind_op (if moved
              then on_inbox (ping env (OwnerAction.NeedsReview ReviewReason.RegistrationFailed) (ping_report (sr_id report)))
              else ret ()) (\<lambda>_.
     fail e)))"

definition register_confirmation ::
    "inbox_env \<Rightarrow> security_report \<times> security_event \<Rightarrow> (sweep, unit) op" where
  "register_confirmation env confirmed =
     (case confirmed of (report, confirmation) \<Rightarrow>
        (let a = confirmed_assessment env (se_detail confirmation);
             repository = or_else (or_else (detail_str ''repository'' (se_detail confirmation))
               (sr_affected_repository report)) (cf_default_repository (en_config env))
         in bind_op (on_inbox (fix_found_in_history env report)) (\<lambda>merged.
            bind_op (catch_op (on_inbox (register env
              \<lparr>vr_report = report, vr_assessment = a, vr_repository = repository, vr_merged = merged,
               vr_origin = AssessmentOrigin.Admin\<rparr>))) (\<lambda>registered.
            case registered of
              Inl e \<Rightarrow> registration_failed env report e
            | Inr None \<Rightarrow> ret ()
            | Inr (Some registration) \<Rightarrow> on_inbox (acknowledge env (sr_id report) registration)))))"

definition register_admin_confirmed :: "inbox_env \<Rightarrow> (sweep, unit) op" where
  "register_admin_confirmed env =
     sweep_each (on_inbox (query list_admin_confirmed_reports)) (register_confirmation env)"

section \<open>Stale assessments\<close>

text \<open>The store reads the clock twice: for the cutoff, and for the time of the update.\<close>

definition release_stale_assessments :: "inbox_env \<Rightarrow> (inbox, nat) op" where
  "release_stale_assessments env =
     bind_op clock (\<lambda>now1. store (\<lambda>now2. release_stale_security_assessments now1 now2 (en_stale_assessment_after env)))"

definition sweep_stale :: "inbox_env \<Rightarrow> (sweep, unit) op" where
  "sweep_stale env =
     bind_op (record_step (on_inbox (release_stale_assessments env))) (\<lambda>released.
       case released of
         Some n \<Rightarrow> bump (su_released_update (\<lambda>_. n))
       | None \<Rightarrow> ret ())"

section \<open>Replies\<close>

definition awaits_confirmation :: "inbox_env \<Rightarrow> security_report \<Rightarrow> (inbox, bool) op" where
  "awaits_confirmation env report =
     (if \<not> cf_acknowledge_valid (en_config env) then ret False
      else (case sr_vulnerability_id report of
         None \<Rightarrow> ret False
       | Some vulnerability_id \<Rightarrow>
           bind_op (query (get_security_vulnerability vulnerability_id)) (\<lambda>found.
             case found of
               None \<Rightarrow> ret False
             | Some v \<Rightarrow>
                 if sv_first_report_id v \<noteq> sr_id report \<or> sv_state v = VulnerabilityState.Live then ret False
                 else bind_op (query (list_security_replies (sr_id report))) (\<lambda>replies.
                   ret (case find_by (\<lambda>r. sp_kind r = SecurityReplyKind.Confirmed) replies of
                          None \<Rightarrow> True
                        | Some r \<Rightarrow> sp_status r = DeliveryStatus.Failed)))))"

definition unconfirmed_after_restart :: string where
  "unconfirmed_after_restart = ''delivery outcome unknown: the reply was still sending when claudear stopped''"

text \<open>\<open>DateTime::<Utc>::MIN_UTC\<close> when the subtraction leaves the range.\<close>

definition sending_cutoff :: "inbox_env \<Rightarrow> datetime \<Rightarrow> datetime" where
  "sending_cutoff env now = max min_utc (now - time_delta (en_sending_stale_after env))"

definition expire_stale_sending :: "inbox_env \<Rightarrow> security_report \<Rightarrow> (inbox, unit) op" where
  "expire_stale_sending env report =
     bind_op clock (\<lambda>now.
     bind_op (query (list_security_replies (sr_id report))) (\<lambda>replies.
     for_each (\<lambda>reply.
       if sp_status reply = DeliveryStatus.Sending \<and> sp_claimed_at reply \<le> sending_cutoff env now
       then mark_unconfirmed env report (sp_kind reply) unconfirmed_after_restart
       else ret ()) replies))"

definition settle_report_replies :: "inbox_env \<Rightarrow> security_report \<Rightarrow> (sweep, unit) op" where
  "settle_report_replies env report =
     bind_op (on_inbox (expire_stale_sending env report)) (\<lambda>_.
       case sr_state report of
         SecurityReportState.Replying \<Rightarrow>
           (case Option.bind (sr_outcome report) reply_kind_for_outcome of
              None \<Rightarrow> ret ()
            | Some kind \<Rightarrow>
                bind_op (on_inbox (ensure_delivered env report kind
                  \<lparr>tr_from = SecurityReportState.Replying, tr_to = SecurityReportState.Closed\<rparr>)) count_delivery)
       | SecurityReportState.Tracking \<Rightarrow>
           bind_op (on_inbox (awaits_confirmation env report)) (\<lambda>awaits.
             if awaits
             then bind_op (on_inbox (deliver env report SecurityReplyKind.Confirmed None)) count_delivery
             else ret ())
       | _ \<Rightarrow> ret ())"

definition settle_replies :: "inbox_env \<Rightarrow> (sweep, unit) op" where
  "settle_replies env =
     for_each (\<lambda>state. sweep_each (on_inbox (query (list_security_reports (every_report state))))
         (settle_report_replies env))
       [SecurityReportState.Replying, SecurityReportState.Tracking]"

definition close_overridden_spam :: "inbox_env \<Rightarrow> (sweep, unit) op" where
  "close_overridden_spam env =
     sweep_each
       (on_inbox (query (list_security_reports_without_event SecurityReportState.Spam SecurityEventKind.ConversationClosed)))
       (\<lambda>report. on_inbox (bind_op (run_spam_action env (sr_conversation_id report)) (\<lambda>_.
         conversation_closed_by_spam_action env (sr_id report))))"

section \<open>Fixes\<close>

definition escalate_counted ::
    "inbox_env \<Rightarrow> int \<Rightarrow> VulnerabilityState \<Rightarrow> ReviewReason \<Rightarrow> (sweep, unit) op" where
  "escalate_counted env i expected reason =
     bind_op (on_inbox (escalate env i expected reason)) count_needs_human"

definition reconcile_opened_fix :: "inbox_env \<Rightarrow> security_vulnerability \<Rightarrow> (sweep, unit) op" where
  "reconcile_opened_fix env v =
     bind_op (on_inbox (fix_attempt (sv_id v))) (\<lambda>attempt.
       case attempt of
         None \<Rightarrow> ret ()
       | Some a \<Rightarrow>
           (case at_pr_url a of
              None \<Rightarrow> ret ()
            | Some url \<Rightarrow>
                (case linkable_pull_request v url of
                   Inl e \<Rightarrow> escalate_counted env (sv_id v) VulnerabilityState.AwaitingFix ReviewReason.InvalidPullRequest
                 | Inr pull_request \<Rightarrow> on_inbox (link_fix (sv_id v) (Some (at_id a)) url))))"

definition reconcile_opened_fixes :: "inbox_env \<Rightarrow> (sweep, unit) op" where
  "reconcile_opened_fixes env =
     sweep_each (on_inbox (query (list_security_vulnerabilities (Some VulnerabilityState.AwaitingFix))))
       (reconcile_opened_fix env)"

definition deployment_check_ping_interval :: int where
  "deployment_check_ping_interval = 24 * 3600 * nanos_per_second"

definition recent_check :: "security_event option \<Rightarrow> (inbox, bool) op" where
  "recent_check last_event =
     (case last_event of
        None \<Rightarrow> ret False
      | Some e \<Rightarrow> bind_op clock (\<lambda>now. ret (now - se_created_at e < deployment_check_ping_interval)))"

definition deployment_check_failed :: "inbox_env \<Rightarrow> security_vulnerability \<Rightarrow> string \<Rightarrow> (inbox, unit) op" where
  "deployment_check_failed env v err =
     bind_op (query (last_security_event (sv_id v) SecurityEventKind.DeploymentCheckFailed)) (\<lambda>last_event.
     bind_op (recent_check last_event) (\<lambda>recent.
       if recent then ret ()
       else bind_op (store (\<lambda>now. record_security_event now None (Some (sv_id v))
           (with_detail (JObj [(''error'', JStr (truncated_error env err))])
             (new_event SecurityEventKind.DeploymentCheckFailed)))) (\<lambda>_.
         ping env (OwnerAction.NeedsReview ReviewReason.DeploymentCheckFailed) (ping_vulnerability v))))"

definition bump_required :: "inbox_env \<Rightarrow> security_vulnerability \<Rightarrow> string \<Rightarrow> (inbox, unit) op" where
  "bump_required env v repository =
     bind_op (store (\<lambda>now. record_security_event now None (Some (sv_id v))
         (with_detail (JObj [(''repository'', JStr repository)]) (new_event SecurityEventKind.CloudBumpRequired)))) (\<lambda>_.
     ping env OwnerAction.CloudBumpRequired (ping_vulnerability v))"

definition merged_at_or_now :: "PullRequestState \<Rightarrow> (inbox, datetime) op" where
  "merged_at_or_now state = (case ps_merged_at state of Some t \<Rightarrow> ret t | None \<Rightarrow> clock)"

definition mark_merged_fix ::
    "inbox_env \<Rightarrow> DeploymentStatus \<Rightarrow> security_vulnerability \<Rightarrow> string \<Rightarrow> string \<Rightarrow> PullRequestState \<Rightarrow>
       (sweep, unit) op" where
  "mark_merged_fix env deployment v url repository state =
     bind_op (on_inbox (merged_at_or_now state)) (\<lambda>merged_at.
     bind_op (on_inbox (store (\<lambda>now. transition_security_vulnerability now (sv_id v)
         VulnerabilityState.Fixing VulnerabilityState.Merged
         (no_vulnerability_changes\<lparr>vc_repository := Some repository, vc_merge_commit := ps_merge_commit_sha state,
            vc_merged_at := Some merged_at\<rparr>)
         (with_detail (JObj [(''pull_request_url'', JStr url),
             (''merge_commit'', json_opt JStr (ps_merge_commit_sha state))])
           (new_event SecurityEventKind.Merged))))) (\<lambda>moved.
       if \<not> moved then ret ()
       else bind_op (bump (su_merged_update Suc)) (\<lambda>_.
         if dp_role deployment repository = RepositoryRole.Package then on_inbox (bump_required env v repository)
         else ret ())))"

definition advance_fixing_vulnerability :: "inbox_env \<Rightarrow> security_vulnerability \<Rightarrow> (sweep, unit) op" where
  "advance_fixing_vulnerability env v =
     bind_op (on_inbox (fix_attempt (sv_id v))) (\<lambda>attempt.
       if map_option at_status attempt = Some FixAttemptStatus.CannotFix
       then escalate_counted env (sv_id v) VulnerabilityState.Fixing ReviewReason.FixFailed
       else (case (en_deployment env, sv_pull_request_url v) of
           (Some deployment, Some url) \<Rightarrow>
             (case linkable_pull_request v url of
                Inl e \<Rightarrow> escalate_counted env (sv_id v) VulnerabilityState.Fixing ReviewReason.InvalidPullRequest
              | Inr pull_request \<Rightarrow>
                  (let repository = pull_request_repository pull_request
                   in bind_op (on_inbox (ask (\<lambda>t. dp_pull_request deployment t repository (pr_number pull_request))))
                     (\<lambda>answer.
                     case answer of
                       Inr (Some state) \<Rightarrow>
                         if ps_merged state \<and> ps_merge_commit_sha state = None
                         then escalate_counted env (sv_id v) VulnerabilityState.Fixing ReviewReason.MissingMergeCommit
                         else if ps_merged state then mark_merged_fix env deployment v url repository state
                         else if ps_closed state
                         then escalate_counted env (sv_id v) VulnerabilityState.Fixing ReviewReason.PullRequestClosed
                         else ret ()
                     | Inr None \<Rightarrow> on_inbox (deployment_check_failed env v ''pull request not found'')
                     | Inl e \<Rightarrow> on_inbox (deployment_check_failed env v (error_text (en_db_text env) e)))))
         | _ \<Rightarrow> ret ()))"

definition advance_fixing :: "inbox_env \<Rightarrow> (sweep, unit) op" where
  "advance_fixing env =
     sweep_each (on_inbox (query (list_security_vulnerabilities (Some VulnerabilityState.Fixing))))
       (advance_fixing_vulnerability env)"

definition mark_live :: "security_vulnerability \<Rightarrow> string list \<Rightarrow> (sweep, unit) op" where
  "mark_live v versions =
     bind_op (on_inbox (bind_op clock (\<lambda>live_at. store (\<lambda>now. transition_security_vulnerability now (sv_id v)
         VulnerabilityState.Merged VulnerabilityState.Live
         (no_vulnerability_changes\<lparr>vc_deployed_version := Some (join_with '', '' versions), vc_live_at := Some live_at\<rparr>)
         (with_detail (JObj [(''versions'', JArr (map JStr versions))]) (new_event SecurityEventKind.Live)))))) (\<lambda>moved.
     if moved then bump (su_live_update Suc) else ret ())"

definition advance_merged_vulnerability ::
    "inbox_env \<Rightarrow> DeploymentStatus \<Rightarrow> security_vulnerability \<Rightarrow> (sweep, unit) op" where
  "advance_merged_vulnerability env deployment v =
     (case (sv_repository v, sv_merge_commit v) of
        (Some repository, Some commit) \<Rightarrow>
          bind_op (on_inbox (ask (\<lambda>t. dp_commit_status deployment t repository commit))) (\<lambda>answer.
            case answer of
              Inr (LiveStatus.Live versions) \<Rightarrow> mark_live v versions
            | Inr (LiveStatus.Pending versions) \<Rightarrow> ret ()
            | Inr LiveStatus.Untracked \<Rightarrow>
                escalate_counted env (sv_id v) VulnerabilityState.Merged ReviewReason.UntrackedRepository
            | Inl e \<Rightarrow> on_inbox (deployment_check_failed env v (error_text (en_db_text env) e)))
      | (repository, _) \<Rightarrow>
          escalate_counted env (sv_id v) VulnerabilityState.Merged
            (if repository = None then ReviewReason.UntrackedRepository else ReviewReason.MissingMergeCommit))"

definition advance_merged :: "inbox_env \<Rightarrow> (sweep, unit) op" where
  "advance_merged env =
     (case en_deployment env of
        None \<Rightarrow> ret ()
      | Some deployment \<Rightarrow>
          sweep_each (on_inbox (query (list_security_vulnerabilities (Some VulnerabilityState.Merged))))
            (advance_merged_vulnerability env deployment))"

section \<open>Live fixes and awards\<close>

fun any_confirmed :: "security_report list \<Rightarrow> (inbox, bool) op" where
  "any_confirmed [] = ret False"
| "any_confirmed (report # reports) =
     bind_op (query (list_security_timeline (sr_id report))) (\<lambda>timeline.
       if list_ex (\<lambda>e. se_report_id e = Some (sr_id report) \<and> se_kind e = SecurityEventKind.AdminConfirmed) timeline
       then ret True else any_confirmed reports)"

definition is_rewardable :: "security_vulnerability \<Rightarrow> (inbox, bool) op" where
  "is_rewardable v =
     (if sv_pull_request_url v \<noteq> None then ret True
      else bind_op (query (list_reports_for_vulnerability (sv_id v))) any_confirmed)"

definition prepare_award :: "inbox_env \<Rightarrow> security_vulnerability \<Rightarrow> (inbox, bool) op" where
  "prepare_award env v =
     bind_op (is_rewardable v) (\<lambda>rewardable.
       if rewardable
       then store (\<lambda>now. prepare_security_award now (sv_id v) (sv_first_report_id v) (cf_reward (en_config env)))
       else ret False)"

definition live_kind :: "security_award option \<Rightarrow> security_report \<Rightarrow> SecurityReplyKind" where
  "live_kind award report =
     (case award of
        Some a \<Rightarrow>
          if sa_report_id a = sr_id report \<and> sa_status a \<noteq> AwardStatus.Cancelled
          then SecurityReplyKind.FixLiveRewarded else SecurityReplyKind.FixLive
      | None \<Rightarrow> SecurityReplyKind.FixLive)"

definition announce_to :: "inbox_env \<Rightarrow> security_award option \<Rightarrow> security_report \<Rightarrow> (sweep, unit) op" where
  "announce_to env award report =
     bind_op (on_inbox (ensure_delivered env report (live_kind award report)
       \<lparr>tr_from = SecurityReportState.Tracking, tr_to = SecurityReportState.Resolved\<rparr>)) count_delivery"

definition announce_live :: "inbox_env \<Rightarrow> int \<times> security_report list \<Rightarrow> (sweep, unit) op" where
  "announce_live env grp =
     (case grp of (vulnerability_id, reports) \<Rightarrow>
        bind_op (on_inbox (query (get_security_vulnerability vulnerability_id))) (\<lambda>found.
          case found of
            None \<Rightarrow> ret ()
          | Some v \<Rightarrow>
              if sv_state v \<noteq> VulnerabilityState.Live then ret ()
              else
                bind_op (on_inbox (prepare_award env v)) (\<lambda>prepared.
                bind_op (if prepared then bump (su_awards_prepared_update Suc) else ret ()) (\<lambda>_.
                bind_op (on_inbox (query (get_security_award (sv_id v)))) (\<lambda>award.
                for_each (announce_to env award) reports)))))"

text \<open>The \<open>BTreeMap\<close> of the tracking reports by their vulnerability.\<close>

definition by_vulnerability :: "security_report list \<Rightarrow> (int \<times> security_report list) list" where
  "by_vulnerability tracking =
     map (\<lambda>i. (i, filter (\<lambda>r. sr_vulnerability_id r = Some i) tracking))
       (sort (remdups (List.map_filter sr_vulnerability_id tracking)))"

definition notify_award :: "inbox_env \<Rightarrow> security_award \<Rightarrow> (inbox, unit) op" where
  "notify_award env award =
     bind_op (store (\<lambda>now. update_security_award_status now (sa_vulnerability_id award) [AwardStatus.Prepared]
         AwardStatus.OwnerNotified None None)) (\<lambda>moved.
       if \<not> moved then ret ()
       else bind_op (query (get_security_vulnerability (sa_vulnerability_id award))) (\<lambda>found.
         ping env OwnerAction.AwardReady
           (case found of
              Some v \<Rightarrow> ping_for_report (sa_report_id award) v
            | None \<Rightarrow> ping_report (sa_report_id award))))"

definition notify_prepared_awards :: "inbox_env \<Rightarrow> (sweep, unit) op" where
  "notify_prepared_awards env =
     sweep_each (on_inbox (query (list_security_awards (Some AwardStatus.Prepared))))
       (\<lambda>award. on_inbox (notify_award env award))"

text \<open>A failed listing returns before the awards.\<close>

definition advance_live :: "inbox_env \<Rightarrow> (sweep, unit) op" where
  "advance_live env =
     bind_op (record_step (on_inbox (query (list_security_reports (every_report SecurityReportState.Tracking)))))
       (\<lambda>found.
       case found of
         None \<Rightarrow> ret ()
       | Some tracking \<Rightarrow>
           bind_op (for_each (\<lambda>grp. bind_op (record_step (announce_live env grp)) (\<lambda>_. ret ()))
             (by_vulnerability tracking)) (\<lambda>_.
           notify_prepared_awards env))"

section \<open>The sweep\<close>

definition advance_steps :: "inbox_env \<Rightarrow> (sweep, unit) op" where
  "advance_steps env =
     for_each id
       [register_admin_confirmed env, sweep_stale env, settle_replies env, close_overridden_spam env,
        reconcile_opened_fixes env, advance_fixing env, advance_merged env, advance_live env]"

definition advance :: "inbox_env \<Rightarrow> (inbox, SecurityAdvanceSummary) op" where
  "advance env s =
     (case advance_steps env \<lparr>sw_inbox = s, sw_summary = empty_summary\<rparr> of
        (_, s') \<Rightarrow> (Inr (sw_summary s'), sw_inbox s'))"

end
