(* ===== verification/Inbox_Admin.thy ===== *)
theory Inbox_Admin
  imports Inbox_Sweep
begin

text \<open>
  The endpoints of the admins, \<open>crates/claudear-engine/src/api/security_reports.rs\<close>: overrides, fix links, go-live
  confirmations, awards and the summary. A handler answers with its value or a status code; extracting the admin
  and the body of the request is left to the web framework.
\<close>

section \<open>Handlers\<close>

datatype StatusCode = Bad_request | Not_found | Conflict | Internal_server_error

type_synonym 'a handler = "inbox \<Rightarrow> (StatusCode + 'a) \<times> inbox"

definition answer :: "StatusCode + 'a \<Rightarrow> 'a handler" where
  "answer r s = (r, s)"

text \<open>\<open>.map_err(internal_error)?\<close>.\<close>

definition try_op :: "(inbox, 'a) op \<Rightarrow> ('a \<Rightarrow> 'b handler) \<Rightarrow> 'b handler" where
  "try_op m f s =
     (case m s of (Inl e, s') \<Rightarrow> (Inl Internal_server_error, s') | (Inr x, s') \<Rightarrow> f x s')"

definition ok_or :: "StatusCode \<Rightarrow> 'a option \<Rightarrow> StatusCode + 'a" where
  "ok_or code v = (case v of None \<Rightarrow> Inl code | Some x \<Rightarrow> Inr x)"

section \<open>Overrides\<close>

definition max_reason_chars :: nat where "max_reason_chars = 1000"
definition max_award_note_chars :: nat where "max_award_note_chars = 1000"
definition max_deployed_version_chars :: nat where "max_deployed_version_chars = 100"

definition linkable_states :: "VulnerabilityState list" where
  "linkable_states = [VulnerabilityState.AwaitingFix, VulnerabilityState.NeedsHuman]"

definition live_source_states :: "VulnerabilityState list" where
  "live_source_states = [VulnerabilityState.Merged, VulnerabilityState.NeedsHuman]"

definition awardable_statuses :: "AwardStatus list" where
  "awardable_statuses = [AwardStatus.Prepared, AwardStatus.OwnerNotified]"

definition clean_public_reason :: "string option \<Rightarrow> string option" where
  "clean_public_reason raw =
     map_option (take_chars max_reason_chars) (filter_option (\<lambda>r. r \<noteq> []) (map_option trim raw))"

fun override_json :: "inbox_env \<Rightarrow> SecurityOverride \<Rightarrow> json" where
  "override_json env SecurityOverride.Reassess = JObj [(''action'', JStr ''reassess'')]"
| "override_json env (SecurityOverride.Outcome out reason fixed_on) =
     JObj [(''action'', JStr ''outcome''), (''outcome'', JStr (outcome_as_str out)),
           (''public_reason'', json_opt JStr reason),
           (''fixed_on'', json_opt (\<lambda>d. JStr (en_iso_date env d)) fixed_on)]"
| "override_json env (SecurityOverride.ConfirmDelivery kind delivered) =
     JObj [(''action'', JStr ''confirm_delivery''), (''kind'', JStr (reply_kind_as_str kind)),
           (''delivered'', JBool delivered)]"
| "override_json env (SecurityOverride.ConfirmValid title summary repository severity) =
     JObj [(''action'', JStr ''confirm_valid''), (''title'', JStr title), (''summary'', JStr summary),
           (''repository'', json_opt JStr repository),
           (''severity'', json_opt (\<lambda>s. JStr (severity_as_str s)) severity)]"

definition overridden :: "inbox_env \<Rightarrow> string \<Rightarrow> SecurityOverride \<Rightarrow> NewSecurityEvent" where
  "overridden env admin action =
     with_detail (override_json env action) (with_actor admin (new_event SecurityEventKind.Overridden))"

fun apply_override :: "inbox_env \<Rightarrow> string \<Rightarrow> int \<Rightarrow> SecurityOverride \<Rightarrow> (inbox, bool) op" where
  "apply_override env admin i SecurityOverride.Reassess =
     store (\<lambda>now. transition_security_report now i SecurityReportState.NeedsHuman SecurityReportState.Received
       (no_report_changes\<lparr>rc_assessment_attempts := Some 0\<rparr>) (overridden env admin SecurityOverride.Reassess))"
| "apply_override env admin i (SecurityOverride.Outcome out reason fixed_on) =
     (let reason = clean_public_reason reason;
          next_state = (if out = SecurityOutcome.Spam then SecurityReportState.Spam else SecurityReportState.Replying)
      in store (\<lambda>now. transition_security_report now i SecurityReportState.NeedsHuman next_state
           (no_report_changes\<lparr>rc_outcome := Some out, rc_public_reason := reason, rc_fixed_on := fixed_on\<rparr>)
           (overridden env admin (SecurityOverride.Outcome out reason fixed_on))))"
| "apply_override env admin i (SecurityOverride.ConfirmDelivery kind delivered) =
     store (\<lambda>now. confirm_security_reply now i kind delivered admin)"
| "apply_override env admin i (SecurityOverride.ConfirmValid title summary repository severity) =
     store (\<lambda>now. transition_security_report now i SecurityReportState.NeedsHuman SecurityReportState.Registering
       no_report_changes
       (with_detail (JObj [(''title'', JStr (trim title)), (''summary'', JStr (trim summary)),
           (''repository'', json_opt JStr repository),
           (''severity'', json_opt (\<lambda>s. JStr (severity_as_str s)) severity)])
         (with_actor admin (new_event SecurityEventKind.AdminConfirmed))))"

definition override_handler :: "inbox_env \<Rightarrow> string \<Rightarrow> int \<Rightarrow> SecurityOverride \<Rightarrow> security_report handler" where
  "override_handler env admin i action =
     (case validate_override action of
        Inl e \<Rightarrow> answer (Inl Bad_request)
      | Inr u \<Rightarrow>
          try_op (query (get_security_report i)) (\<lambda>found.
            if found = None then answer (Inl Not_found)
            else try_op (apply_override env admin i action) (\<lambda>applied.
              if \<not> applied then answer (Inl Conflict)
              else try_op (query (get_security_report i)) (\<lambda>report. answer (ok_or Not_found report)))))"

section \<open>Awards and vulnerabilities\<close>

definition award_handler :: "string \<Rightarrow> int \<Rightarrow> string option \<Rightarrow> security_award handler" where
  "award_handler admin vulnerability_id raw_note =
     (let note = filter_option (\<lambda>n. n \<noteq> []) (map_option trim raw_note)
      in if (case note of None \<Rightarrow> False | Some n \<Rightarrow> max_award_note_chars < chars_count n) then answer (Inl Bad_request)
         else try_op (query (get_security_award vulnerability_id)) (\<lambda>found.
           if found = None then answer (Inl Not_found)
           else try_op (store (\<lambda>now. update_security_award_status now vulnerability_id awardable_statuses
               AwardStatus.Awarded (Some admin) note)) (\<lambda>awarded.
             if \<not> awarded then answer (Inl Conflict)
             else try_op (query (get_security_award vulnerability_id)) (\<lambda>award. answer (ok_or Not_found award)))))"

definition transition_vulnerability ::
    "int \<Rightarrow> VulnerabilityState list \<Rightarrow> VulnerabilityState \<Rightarrow> SecurityVulnerabilityChanges \<Rightarrow> NewSecurityEvent \<Rightarrow>
       security_vulnerability handler" where
  "transition_vulnerability vulnerability_id allowed next_state changes e =
     try_op (query (get_security_vulnerability vulnerability_id)) (\<lambda>found.
       case found of
         None \<Rightarrow> answer (Inl Not_found)
       | Some v \<Rightarrow>
           if sv_state v \<notin> set allowed then answer (Inl Conflict)
           else try_op (store (\<lambda>now. transition_security_vulnerability now vulnerability_id (sv_state v) next_state
               changes e)) (\<lambda>moved.
             if \<not> moved then answer (Inl Conflict)
             else try_op (query (get_security_vulnerability vulnerability_id)) (\<lambda>v. answer (ok_or Not_found v))))"

definition pull_request_handler :: "string \<Rightarrow> int \<Rightarrow> string \<Rightarrow> security_vulnerability handler" where
  "pull_request_handler admin vulnerability_id raw_url =
     (let url = trim raw_url
      in try_op (query (get_security_vulnerability vulnerability_id)) (\<lambda>found.
         case found of
           None \<Rightarrow> answer (Inl Not_found)
         | Some v \<Rightarrow>
             (case linkable_pull_request v url of
                Inl e \<Rightarrow> answer (Inl Bad_request)
              | Inr pull_request \<Rightarrow>
                  transition_vulnerability vulnerability_id linkable_states VulnerabilityState.Fixing
                    (no_vulnerability_changes\<lparr>vc_pull_request_url := Some url\<rparr>)
                    (with_detail (JObj [(''pull_request_url'', JStr url)])
                      (with_actor admin (new_event SecurityEventKind.PullRequestLinked))))))"

definition live_handler :: "string \<Rightarrow> int \<Rightarrow> string \<Rightarrow> security_vulnerability handler" where
  "live_handler admin vulnerability_id raw_version =
     (let deployed_version = trim raw_version
      in if deployed_version = [] \<or> max_deployed_version_chars < chars_count deployed_version
         then answer (Inl Bad_request)
         else try_op clock (\<lambda>live_at.
           transition_vulnerability vulnerability_id live_source_states VulnerabilityState.Live
             (no_vulnerability_changes\<lparr>vc_deployed_version := Some deployed_version, vc_live_at := Some live_at\<rparr>)
             (with_detail (JObj [(''deployed_version'', JStr deployed_version)])
               (with_actor admin (new_event SecurityEventKind.Live)))))"

section \<open>Listings\<close>

text \<open>\<open>count_by\<close>: the counts of the keys, as the function of the hash map.\<close>

definition count_by :: "'a list \<Rightarrow> ('a \<Rightarrow> 'k option) \<Rightarrow> 'k \<Rightarrow> nat option" where
  "count_by items key =
     fold (\<lambda>k counts. counts(k := Some ((case counts k of None \<Rightarrow> 0 | Some n \<Rightarrow> n) + 1)))
       (List.map_filter key items) (\<lambda>_. None)"

record SecuritySummary =
  sy_reports_by_state :: "SecurityReportState \<Rightarrow> nat option"
  sy_reports_by_outcome :: "SecurityOutcome \<Rightarrow> nat option"
  sy_vulnerabilities_by_state :: "VulnerabilityState \<Rightarrow> nat option"
  sy_pending_awards :: nat
  sy_unconfirmed_replies :: nat

definition all_reports :: "(inbox, security_report list) op" where
  "all_reports = query (list_security_reports \<lparr>rf_state = None, rf_outcome = None, rf_limit = Some (-1)\<rparr>)"

definition summary_handler :: "SecuritySummary handler" where
  "summary_handler =
     try_op all_reports (\<lambda>reports.
     try_op (query (list_security_vulnerabilities None)) (\<lambda>vulnerabilities.
     try_op (query (list_security_awards None)) (\<lambda>awards.
     try_op (query (\<lambda>db. Inr (list_reports_with_unconfirmed_replies db))) (\<lambda>unconfirmed.
     answer (Inr
       \<lparr>sy_reports_by_state = count_by reports (\<lambda>r. Some (sr_state r)),
        sy_reports_by_outcome = count_by reports sr_outcome,
        sy_vulnerabilities_by_state = count_by vulnerabilities (\<lambda>v. Some (sv_state v)),
        sy_pending_awards = length (filter (\<lambda>a. sa_status a \<in> set awardable_statuses) awards),
        sy_unconfirmed_replies = length unconfirmed\<rparr>)))))"

record SecurityReportRow =
  rw_id :: int
  rw_short_id :: string
  rw_url :: string
  rw_subject :: string
  rw_reporter_email :: "string option"
  rw_reported_at :: datetime
  rw_state :: SecurityReportState
  rw_outcome :: "SecurityOutcome option"
  rw_vulnerability_id :: "int option"
  rw_is_first_reporter :: bool
  rw_vulnerability_state :: "VulnerabilityState option"
  rw_severity :: "SecuritySeverity option"
  rw_pull_request_url :: "string option"
  rw_deployed_version :: "string option"
  rw_live_at :: "datetime option"
  rw_award_status :: "AwardStatus option"
  rw_unconfirmed_reply :: bool
  rw_updated_at :: datetime

definition row_of_report ::
    "security_report \<Rightarrow> security_vulnerability option \<Rightarrow> security_award option \<Rightarrow> bool \<Rightarrow> SecurityReportRow" where
  "row_of_report report v award unconfirmed_reply =
     \<lparr>rw_id = sr_id report, rw_short_id = sr_short_id report, rw_url = sr_url report, rw_subject = sr_subject report,
      rw_reporter_email = sr_reporter_email report, rw_reported_at = sr_reported_at report,
      rw_state = sr_state report, rw_outcome = sr_outcome report, rw_vulnerability_id = sr_vulnerability_id report,
      rw_is_first_reporter = (case v of None \<Rightarrow> False | Some v \<Rightarrow> sv_first_report_id v = sr_id report),
      rw_vulnerability_state = map_option sv_state v, rw_severity = Option.bind v sv_severity,
      rw_pull_request_url = Option.bind v sv_pull_request_url, rw_deployed_version = Option.bind v sv_deployed_version,
      rw_live_at = Option.bind v sv_live_at,
      rw_award_status = map_option sa_status (filter_option (\<lambda>a. sa_report_id a = sr_id report) award),
      rw_unconfirmed_reply = unconfirmed_reply, rw_updated_at = sr_updated_at report\<rparr>"

definition report_rows ::
    "security_report list \<Rightarrow> (int \<Rightarrow> security_vulnerability option) \<Rightarrow> (int \<Rightarrow> security_award option) \<Rightarrow>
       (inbox, SecurityReportRow list) op" where
  "report_rows reports vulnerabilities awards =
     bind_op (query (\<lambda>db. Inr (list_reports_with_unconfirmed_replies db))) (\<lambda>unconfirmed.
     ret (map (\<lambda>r. row_of_report r (Option.bind (sr_vulnerability_id r) vulnerabilities)
         (Option.bind (sr_vulnerability_id r) awards) (sr_id r \<in> set unconfirmed)) reports))"

text \<open>Collecting into a hash map: the last of a key wins.\<close>

definition by_key :: "('a \<Rightarrow> int) \<Rightarrow> 'a list \<Rightarrow> int \<Rightarrow> 'a option" where
  "by_key key xs = map_of (rev (map (\<lambda>x. (key x, x)) xs))"

definition clamp_limit :: "64 word option \<Rightarrow> 64 word" where
  "clamp_limit limit = (let n = (case limit of None \<Rightarrow> 100 | Some n \<Rightarrow> n) in max 1 (min n 500))"

definition reports_handler ::
    "SecurityReportState option \<Rightarrow> SecurityOutcome option \<Rightarrow> 64 word option \<Rightarrow> SecurityReportRow list handler" where
  "reports_handler state outcome limit =
     try_op (query (list_security_reports
       \<lparr>rf_state = state, rf_outcome = outcome, rf_limit = Some (clamp_limit limit)\<rparr>)) (\<lambda>reports.
     try_op (query (list_security_vulnerabilities None)) (\<lambda>vulnerabilities.
     try_op (query (list_security_awards None)) (\<lambda>awards.
     try_op (report_rows reports (by_key sv_id vulnerabilities) (by_key sa_vulnerability_id awards)) (\<lambda>rows.
     answer (Inr rows)))))"

record SecurityReportDetail =
  dt_report :: security_report
  dt_vulnerability :: "security_vulnerability option"
  dt_events :: "security_event list"
  dt_replies :: "security_reply list"
  dt_award :: "security_award option"
  dt_related_reports :: "SecurityReportRow list"

definition related_rows ::
    "security_vulnerability option \<Rightarrow> security_award option \<Rightarrow> (inbox, SecurityReportRow list) op" where
  "related_rows vulnerability award =
     (case vulnerability of
        None \<Rightarrow> ret []
      | Some v \<Rightarrow>
          bind_op (query (list_reports_for_vulnerability (sv_id v))) (\<lambda>reports.
          report_rows reports [sv_id v \<mapsto> v]
            (case award of None \<Rightarrow> Map.empty | Some a \<Rightarrow> [sa_vulnerability_id a \<mapsto> a])))"

definition report_handler :: "int \<Rightarrow> SecurityReportDetail handler" where
  "report_handler i =
     try_op (query (get_security_report i)) (\<lambda>found.
       case found of
         None \<Rightarrow> answer (Inl Not_found)
       | Some report \<Rightarrow>
           try_op (linked_vulnerability report) (\<lambda>v.
           try_op (case v of Some v \<Rightarrow> query (get_security_award (sv_id v)) | None \<Rightarrow> ret None) (\<lambda>award.
           try_op (related_rows v award) (\<lambda>related.
           try_op (query (list_security_timeline i)) (\<lambda>events.
           try_op (query (list_security_replies i)) (\<lambda>replies.
           answer (Inr \<lparr>dt_report = report, dt_vulnerability = v, dt_events = events, dt_replies = replies,
             dt_award = award, dt_related_reports = related\<rparr>)))))))"

end
