(* ===== verification/Inbox_Effects.thy ===== *)
theory Inbox_Effects
  imports Inbox_Admin Security_Runs
begin

text \<open>
  A calculus for what the operations of the security inbox do to its state. An operation goes \<open>along\<close> a relation
  when it leads from every state to a related one, and \<open>after\<close> is the weakest precondition. The locales hold the
  rules that any preorder of states satisfies (\<open>effects\<close>), any that lets the inbox read its surroundings
  (\<open>inbox_effects\<close>), and any that also allows its routine calls and mails (\<open>routine_effects\<close>).
\<close>

section \<open>Operations along a relation\<close>

definition along :: "('st \<Rightarrow> 'st \<Rightarrow> bool) \<Rightarrow> ('st \<Rightarrow> 'b \<times> 'st) \<Rightarrow> bool" where
  "along R m \<longleftrightarrow> (\<forall>s. R s (snd (m s)))"

definition after :: "('st \<Rightarrow> 'b \<times> 'st) \<Rightarrow> ('b \<Rightarrow> 'st \<Rightarrow> bool) \<Rightarrow> 'st \<Rightarrow> bool" where
  "after m Q s \<longleftrightarrow> Q (fst (m s)) (snd (m s))"

lemma alongI: "(\<And>s. R s (snd (m s))) \<Longrightarrow> along R m"
  by (simp add: along_def)

lemma alongD: "along R m \<Longrightarrow> R s (snd (m s))"
  by (simp add: along_def)

lemma along_after: "along R m \<longleftrightarrow> (\<forall>s. after m (\<lambda>r. R s) s)"
  by (simp add: along_def after_def)

lemma along_mono: "along R m \<Longrightarrow> (\<And>s t. R s t \<Longrightarrow> R' s t) \<Longrightarrow> along R' m"
  by (simp add: along_def)

lemma after_mono: "after m Q s \<Longrightarrow> (\<And>r t. Q r t \<Longrightarrow> Q' r t) \<Longrightarrow> after m Q' s"
  by (simp add: after_def)

lemma after_conj: "after m Q s \<Longrightarrow> after m Q' s \<Longrightarrow> after m (\<lambda>r t. Q r t \<and> Q' r t) s"
  by (simp add: after_def)

lemma afterD: "after m Q s \<Longrightarrow> m s = (r, t) \<Longrightarrow> Q r t"
  by (simp add: after_def)

lemma after_along: "along R m \<Longrightarrow> after m (\<lambda>r. R s) s"
  by (simp add: along_after)

lemma after_ret [simp]: "after (ret a) Q s \<longleftrightarrow> Q (Inr a) s"
  by (simp add: after_def ret_def)

lemma after_fail [simp]: "after (fail e) Q s \<longleftrightarrow> Q (Inl e) s"
  by (simp add: after_def fail_def)

lemma after_of_result [simp]: "after (of_result r) Q s \<longleftrightarrow> Q r s"
  by (simp add: after_def of_result_def)

lemma after_answer [simp]: "after (answer r) Q s \<longleftrightarrow> Q r s"
  by (simp add: after_def answer_def)

fun and_then :: "('a \<Rightarrow> ('st, 'b) op) \<Rightarrow> ('b result \<Rightarrow> 'st \<Rightarrow> bool) \<Rightarrow> 'a result \<Rightarrow> 'st \<Rightarrow> bool" where
  "and_then f Q (Inl e) s \<longleftrightarrow> Q (Inl e) s"
| "and_then f Q (Inr a) s \<longleftrightarrow> after (f a) Q s"

lemma after_bind [simp]: "after (bind_op m f) Q s \<longleftrightarrow> after m (and_then f Q) s"
  by (auto simp: after_def bind_op_def split: sum.splits prod.splits)

lemma after_bindI:
  assumes "after m Q' s" and "\<And>a t. Q' (Inr a) t \<Longrightarrow> after (f a) Q t" and "\<And>e t. Q' (Inl e) t \<Longrightarrow> Q (Inl e) t"
  shows "after (bind_op m f) Q s"
proof -
  have "and_then f Q r t" if "Q' r t" for r t using assms(2,3) that by (cases r) auto
  then show ?thesis using after_mono [OF assms(1)] by simp
qed

lemma after_catch [simp]: "after (catch_op m) Q s \<longleftrightarrow> after m (\<lambda>r. Q (Inr r)) s"
  by (simp add: after_def catch_op_def split: prod.split)

lemma after_query [simp]: "after (query q) Q s \<longleftrightarrow> Q (q (ib_db s)) s"
  by (simp add: after_def query_def on_db_def read_op_def)

lemma after_for_each:
  assumes "\<And>x xs s. J (x # xs) s \<Longrightarrow> after (f x) (\<lambda>r. J xs) s" and "J xs s"
  shows "after (for_each f xs) (\<lambda>r t. \<exists>rest. J rest t) s"
  using assms(2)
proof (induction xs arbitrary: s)
  case (Cons x xs)
  then have "after (f x) (\<lambda>r. J xs) s" using assms(1) by blast
  then have "after (f x) (and_then (\<lambda>_. for_each f xs) (\<lambda>r t. \<exists>rest. J rest t)) s"
  proof (rule after_mono)
    fix r t
    assume "J xs t"
    then show "and_then (\<lambda>_. for_each f xs) (\<lambda>r t. \<exists>rest. J rest t) r t"
      using Cons.IH by (cases r) auto
  qed
  then show ?case by simp
qed auto

section \<open>From one condition to another\<close>

definition brings :: "('st \<Rightarrow> bool) \<Rightarrow> ('st \<Rightarrow> 'b \<times> 'st) \<Rightarrow> ('st \<Rightarrow> bool) \<Rightarrow> bool" where
  "brings P m Q \<longleftrightarrow> (\<forall>s. P s \<longrightarrow> Q (snd (m s)))"

lemma bringsI: "(\<And>s. P s \<Longrightarrow> Q (snd (m s))) \<Longrightarrow> brings P m Q"
  by (simp add: brings_def)

lemma bringsD: "brings P m Q \<Longrightarrow> P s \<Longrightarrow> Q (snd (m s))"
  by (simp add: brings_def)

lemma brings_along: "along (\<lambda>s t. P s \<longrightarrow> P t) m \<longleftrightarrow> brings P m P"
  by (simp add: brings_def along_def)

lemma brings_weaken:
  "brings P' m Q' \<Longrightarrow> (\<And>s. P s \<Longrightarrow> P' s) \<Longrightarrow> (\<And>s. Q' s \<Longrightarrow> Q s) \<Longrightarrow> brings P m Q"
  by (simp add: brings_def)

lemma brings_ret: "(\<And>s. P s \<Longrightarrow> Q s) \<Longrightarrow> brings P (ret a) Q"
  by (simp add: brings_def ret_def)

lemma brings_of_result: "(\<And>s. P s \<Longrightarrow> Q s) \<Longrightarrow> brings P (of_result r) Q"
  by (simp add: brings_def of_result_def)

lemma brings_answer: "(\<And>s. P s \<Longrightarrow> Q s) \<Longrightarrow> brings P (answer r) Q"
  by (simp add: brings_def answer_def)

text \<open>With what is known of the result of the first operation.\<close>

lemma brings_bind_result:
  assumes "\<And>s. P s \<Longrightarrow> after m (\<lambda>r t. case r of Inl e \<Rightarrow> Q t | Inr a \<Rightarrow> P' a t) s"
    and "\<And>a. brings (P' a) (f a) Q"
  shows "brings P (bind_op m f) Q"
proof (rule bringsI)
  fix s
  assume "P s"
  then have m: "case fst (m s) of Inl e \<Rightarrow> Q (snd (m s)) | Inr a \<Rightarrow> P' a (snd (m s))"
    using assms(1) by (simp add: after_def)
  show "Q (snd (bind_op m f s))"
  proof (cases "m s")
    case (Pair r t)
    then show ?thesis using m bringsD [OF assms(2)] by (cases r) (auto simp: bind_op_def)
  qed
qed

lemma brings_bind:
  assumes "brings P m P'" and "\<And>a. brings P' (f a) Q" and "\<And>s. P' s \<Longrightarrow> Q s"
  shows "brings P (bind_op m f) Q"
  by (rule brings_bind_result [where P' = "\<lambda>_. P'"])
    (use assms in \<open>auto simp: after_def brings_def split: sum.split\<close>)

lemma brings_query:
  assumes "\<And>a. brings (\<lambda>s. P s \<and> q (ib_db s) = Inr a) (f a) Q" and "\<And>s. P s \<Longrightarrow> Q s"
  shows "brings P (bind_op (query q) f) Q"
  by (rule brings_bind_result [where P' = "\<lambda>a s. P s \<and> q (ib_db s) = Inr a"])
    (use assms in \<open>auto split: sum.split\<close>)

lemma brings_try_query:
  assumes "\<And>a. brings (\<lambda>s. P s \<and> q (ib_db s) = Inr a) (f a) Q" and "\<And>s. P s \<Longrightarrow> Q s"
  shows "brings P (try_op (query q) f) Q"
proof (rule bringsI)
  fix s
  assume "P s"
  then show "Q (snd (try_op (query q) f s))"
    using bringsD [OF assms(1)] assms(2) [of s]
    by (cases "q (ib_db s)") (simp_all add: try_op_def query_def on_db_def read_op_def)
qed

lemma brings_try:
  assumes "brings P m P'" and "\<And>a. brings P' (f a) Q" and "\<And>s. P' s \<Longrightarrow> Q s"
  shows "brings P (try_op m f) Q"
proof (rule bringsI)
  fix s
  assume "P s"
  then have "P' (snd (m s))" by (rule bringsD [OF assms(1)])
  then show "Q (snd (try_op m f s))"
    using bringsD [OF assms(2)] assms(3) by (cases "m s"; cases "fst (m s)") (auto simp: try_op_def)
qed

lemma brings_for_each: "(\<And>x. x \<in> set xs \<Longrightarrow> brings P (f x) P) \<Longrightarrow> brings P (for_each f xs) P"
  by (induction xs) (auto intro: brings_ret brings_bind)

lemma brings_if: "(b \<Longrightarrow> brings P m Q) \<Longrightarrow> (\<not> b \<Longrightarrow> brings P m' Q) \<Longrightarrow> brings P (if b then m else m') Q"
  by simp

text \<open>Conditions on the inbox of a sweep.\<close>

definition sweeps :: "(inbox \<Rightarrow> bool) \<Rightarrow> (sweep, 'a) op \<Rightarrow> (inbox \<Rightarrow> bool) \<Rightarrow> bool" where
  "sweeps P m Q \<longleftrightarrow> brings (\<lambda>s. P (sw_inbox s)) m (\<lambda>s. Q (sw_inbox s))"

lemma sweeps_on_inbox: "brings P m Q \<Longrightarrow> sweeps P (on_inbox m) Q"
  by (simp add: sweeps_def brings_def on_inbox_def split: prod.split) (metis snd_conv)

lemma sweeps_ret: "(\<And>s. P s \<Longrightarrow> Q s) \<Longrightarrow> sweeps P (ret a) Q"
  by (simp add: sweeps_def brings_ret)

lemma sweeps_counts:
  "(\<And>s. P s \<Longrightarrow> Q s) \<Longrightarrow> sweeps P (bump f) Q" "(\<And>s. P s \<Longrightarrow> Q s) \<Longrightarrow> sweeps P (count_delivery d) Q"
  "(\<And>s. P s \<Longrightarrow> Q s) \<Longrightarrow> sweeps P (count_needs_human b) Q"
  by (simp_all add: sweeps_def brings_def bump_def count_delivery_def count_needs_human_def ret_def)

lemma sweeps_bind:
  "sweeps P m P' \<Longrightarrow> (\<And>a. sweeps P' (f a) Q) \<Longrightarrow> (\<And>s. P' s \<Longrightarrow> Q s) \<Longrightarrow> sweeps P (bind_op m f) Q"
  unfolding sweeps_def by (rule brings_bind)

lemma sweeps_bind_result:
  assumes "\<And>s. P s \<Longrightarrow> after m (\<lambda>r t. case r of Inl e \<Rightarrow> Q t | Inr a \<Rightarrow> P' a t) s"
    and "\<And>a. sweeps (P' a) (f a) Q"
  shows "sweeps P (bind_op (on_inbox m) f) Q"
  unfolding sweeps_def
proof (rule brings_bind_result)
  show "after (on_inbox m) (\<lambda>r t. case r of Inl e \<Rightarrow> Q (sw_inbox t) | Inr a \<Rightarrow> P' a (sw_inbox t)) s"
    if "P (sw_inbox s)" for s
    using assms(1) [OF that] by (cases "m (sw_inbox s)") (auto simp: after_def on_inbox_def split: sum.splits)
  show "brings (\<lambda>s. P' a (sw_inbox s)) (f a) (\<lambda>s. Q (sw_inbox s))" for a
    using assms(2) by (simp add: sweeps_def)
qed

lemma sweeps_query:
  assumes "\<And>a. sweeps (\<lambda>s. P s \<and> q (ib_db s) = Inr a) (f a) Q" and "\<And>s. P s \<Longrightarrow> Q s"
  shows "sweeps P (bind_op (on_inbox (query q)) f) Q"
  by (rule sweeps_bind_result [where P' = "\<lambda>a s. P s \<and> q (ib_db s) = Inr a"])
    (use assms in \<open>auto split: sum.split\<close>)

lemma sweeps_weaken:
  "sweeps P' m Q' \<Longrightarrow> (\<And>s. P s \<Longrightarrow> P' s) \<Longrightarrow> (\<And>s. Q' s \<Longrightarrow> Q s) \<Longrightarrow> sweeps P m Q"
  by (simp add: sweeps_def brings_def)

lemma sweeps_for_each: "(\<And>x. x \<in> set xs \<Longrightarrow> sweeps P (f x) P) \<Longrightarrow> sweeps P (for_each f xs) P"
  unfolding sweeps_def by (rule brings_for_each)

lemma sweeps_record:
  assumes "sweeps P m Q"
  shows "sweeps P (record_step m) Q"
  unfolding sweeps_def brings_def
proof (intro allI impI)
  fix s :: sweep
  assume "P (sw_inbox s)"
  then have "Q (sw_inbox (snd (m s)))" using assms by (simp add: sweeps_def brings_def)
  then show "Q (sw_inbox (snd (record_step m s)))"
    by (cases "m s"; cases "fst (m s)") (auto simp: record_step_def bind_op_def catch_op_def ret_def bump_def)
qed

text \<open>Listing rows and handling each: what is known of the list has to last while its elements are handled.\<close>

lemma sweeps_each:
  assumes listed: "\<And>s xs. P s \<Longrightarrow> q (ib_db s) = Inr xs \<Longrightarrow> J xs s"
    and handled: "\<And>xs x. x \<in> set xs \<Longrightarrow> sweeps (J xs) (f x) (J xs)"
    and finish: "\<And>xs s. J xs s \<Longrightarrow> Q s" and "\<And>s. P s \<Longrightarrow> Q s"
  shows "sweeps P (sweep_each (on_inbox (query q)) f) Q"
  unfolding sweep_each_def sweeps_def
proof (rule brings_bind_result [where P' = "\<lambda>found s. case found of None \<Rightarrow> Q (sw_inbox s) | Some xs \<Rightarrow> J xs (sw_inbox s)"])
  fix s :: sweep
  assume "P (sw_inbox s)"
  then show "after (record_step (on_inbox (query q))) (\<lambda>r t. case r of Inl e \<Rightarrow> Q (sw_inbox t)
      | Inr a \<Rightarrow> (case a of None \<Rightarrow> Q (sw_inbox t) | Some xs \<Rightarrow> J xs (sw_inbox t))) s"
    using assms(4) listed
    by (cases "q (ib_db (sw_inbox s))")
      (auto simp: after_def record_step_def bind_op_def catch_op_def on_inbox_def query_def on_db_def read_op_def
        ret_def bump_def)
next
  fix found :: "'a list option"
  have "sweeps (J xs) (for_each (\<lambda>x. bind_op (record_step (f x)) (\<lambda>_. ret ())) xs) (J xs)" for xs
    by (intro sweeps_for_each sweeps_bind sweeps_record sweeps_ret) (rule handled)
  then have each: "sweeps (J xs) (for_each (\<lambda>x. bind_op (record_step (f x)) (\<lambda>_. ret ())) xs) Q" for xs
    by (rule sweeps_weaken) (auto intro: finish)
  show "brings (\<lambda>s. case found of None \<Rightarrow> Q (sw_inbox s) | Some xs \<Rightarrow> J xs (sw_inbox s))
      (case found of None \<Rightarrow> ret () | Some xs \<Rightarrow> for_each (\<lambda>x. bind_op (record_step (f x)) (\<lambda>_. ret ())) xs)
      (\<lambda>s. Q (sw_inbox s))"
    using each by (cases found) (auto simp: sweeps_def intro: brings_ret)
qed

section \<open>Relations closed under sequences\<close>

locale effects =
  fixes R :: "'st \<Rightarrow> 'st \<Rightarrow> bool"
  assumes refl: "R s s"
    and trans: "R s t \<Longrightarrow> R t u \<Longrightarrow> R s u"
begin

lemma ret: "along R (ret a)"
  by (simp add: along_def ret_def refl)

lemma fail: "along R (fail e)"
  by (simp add: along_def fail_def refl)

lemma of_result: "along R (of_result r)"
  by (simp add: along_def of_result_def refl)

lemma bind: "along R m \<Longrightarrow> (\<And>a. along R (f a)) \<Longrightarrow> along R (bind_op m f)"
  unfolding along_def
proof (rule allI)
  fix s
  assume m: "\<forall>s. R s (snd (m s))" and f: "\<And>a. \<forall>s. R s (snd (f a s))"
  show "R s (snd (bind_op m f s))"
  proof (cases "m s")
    case (Pair r t)
    then have "R s t" using m by (metis snd_conv)
    with Pair show ?thesis using f trans by (cases r) (auto simp: bind_op_def)
  qed
qed

lemma catch: "along R m \<Longrightarrow> along R (catch_op m)"
  by (simp add: along_def catch_op_def split: prod.split) (metis snd_conv)

lemma for_each: "(\<And>x. along R (f x)) \<Longrightarrow> along R (for_each f xs)"
  by (induction xs) (auto intro: ret bind)

lemma for_each_in: "(\<And>x. x \<in> set xs \<Longrightarrow> along R (f x)) \<Longrightarrow> along R (for_each f xs)"
  by (induction xs) (auto intro: ret bind)

lemma if_bool: "along R m \<Longrightarrow> along R m' \<Longrightarrow> along R (if b then m else m')"
  by simp

lemma case_option: "along R m \<Longrightarrow> (\<And>x. along R (f x)) \<Longrightarrow> along R (case v of None \<Rightarrow> m | Some x \<Rightarrow> f x)"
  by (cases v) simp_all

lemma case_sum: "(\<And>e. along R (g e)) \<Longrightarrow> (\<And>x. along R (f x)) \<Longrightarrow> along R (case v of Inl e \<Rightarrow> g e | Inr x \<Rightarrow> f x)"
  by (cases v) simp_all

lemma case_prod: "(\<And>x y. along R (f x y)) \<Longrightarrow> along R (case v of (x, y) \<Rightarrow> f x y)"
  by (cases v) simp

lemmas combinators = ret fail of_result bind catch for_each if_bool case_option case_sum case_prod

end

section \<open>Reading the surroundings\<close>

locale inbox_effects = effects R for R :: "inbox \<Rightarrow> inbox \<Rightarrow> bool" +
  assumes tick: "R s (s\<lparr>ib_ticks := Suc (ib_ticks s)\<rparr>)"
    and pinged: "R s (s\<lparr>ib_pings := pings\<rparr>)"
    and source_called: "R s (s\<lparr>ib_source_calls := calls\<rparr>)"
begin

lemma ask: "along R (ask f)"
  by (simp add: along_def ask_def tick)

lemma ask_result: "along R (ask_result f)"
  by (simp add: along_def ask_result_def tick)

lemma clock: "along R clock"
  by (simp add: along_def clock_def ask_def tick)

lemma query: "along R (query q)"
  by (simp add: along_def query_def on_db_def read_op_def refl)

lemma ping: "along R (ping env action subject)"
  by (simp add: along_def ping_def pinged)

lemma call_source: "along R (call_source c f)"
proof (rule alongI)
  fix s :: inbox
  let ?t = "s\<lparr>ib_source_calls := ib_source_calls s @ [c]\<rparr>"
  have "R s ?t" by (rule source_called)
  moreover have "R ?t (?t\<lparr>ib_ticks := Suc (ib_ticks ?t)\<rparr>)" by (rule tick)
  ultimately show "R s (snd (call_source c f s))" unfolding call_source_def ask_result_def using trans by simp
qed

lemma answer: "along R (answer r)"
  by (simp add: along_def answer_def refl)

lemma try_op: "along R m \<Longrightarrow> (\<And>a. along R (f a)) \<Longrightarrow> along R (try_op m f)"
  unfolding along_def
proof (rule allI)
  fix s
  assume m: "\<forall>s. R s (snd (m s))" and f: "\<And>a. \<forall>s. R s (snd (f a s))"
  show "R s (snd (try_op m f s))"
  proof (cases "m s")
    case (Pair r t)
    then have "R s t" using m by (metis snd_conv)
    with Pair show ?thesis using f trans by (cases r) (auto simp: try_op_def)
  qed
qed

lemma store: "(\<And>now. along R (on_db (m now))) \<Longrightarrow> along R (store m)"
  unfolding store_def by (rule bind [OF clock])

lemma store_call:
  assumes "\<And>now db. snd (m now db) = security_step (c now) db"
    and "\<And>now s. R s (s\<lparr>ib_db := security_step (c now) (ib_db s)\<rparr>)"
  shows "along R (store m)"
proof (rule store, rule alongI)
  fix now and s :: inbox
  have "snd (on_db (m now) s) = s\<lparr>ib_db := security_step (c now) (ib_db s)\<rparr>"
    using assms(1) [of now "ib_db s"] by (cases "m now (ib_db s)") (simp add: on_db_def)
  then show "R s (snd (on_db (m now) s))" using assms(2) by simp
qed

lemmas reading = combinators ask ask_result clock query ping call_source answer try_op

end

text \<open>The same relation between the states of a sweep.\<close>

sublocale inbox_effects \<subseteq> on_sweep: effects "\<lambda>s t. R (sw_inbox s) (sw_inbox t)"
  by unfold_locales (auto intro: refl trans)

context inbox_effects begin

abbreviation swept :: "(sweep \<Rightarrow> 'b \<times> sweep) \<Rightarrow> bool" where
  "swept m \<equiv> along (\<lambda>s t. R (sw_inbox s) (sw_inbox t)) m"

lemma on_inbox: "along R m \<Longrightarrow> swept (on_inbox m)"
  by (simp add: along_def on_inbox_def split: prod.split) (metis snd_conv)

lemma bump: "swept (bump f)"
  by (simp add: along_def bump_def refl)

lemma counts: "swept (count_delivery d)" "swept (count_needs_human b)"
  by (auto simp: count_delivery_def count_needs_human_def intro: bump on_sweep.ret)

lemma record_step: "swept m \<Longrightarrow> swept (record_step m)"
  unfolding record_step_def by (intro on_sweep.combinators bump)

lemma sweep_each: "swept m \<Longrightarrow> (\<And>x. swept (f x)) \<Longrightarrow> swept (sweep_each m f)"
  unfolding sweep_each_def by (intro on_sweep.combinators record_step)

lemmas sweeping = on_sweep.combinators on_inbox bump counts record_step sweep_each

end

end
