(* ===== verification/Inbox_Footprints.thy ===== *)
theory Inbox_Footprints
  imports Inbox_Effects
begin

text \<open>
  What the operations of the inbox may do, for every relation closed under the calls they make: the deliveries, the
  owner pings, escalations, and everything else that neither creates vulnerabilities, moves them anywhere but to a
  human, prepares awards nor announces live fixes (\<open>routine_effects\<close>).
\<close>

section \<open>Calls of the store\<close>

definition permits :: "(inbox \<Rightarrow> inbox \<Rightarrow> bool) \<Rightarrow> security_call \<Rightarrow> bool" where
  "permits R c \<longleftrightarrow> (\<forall>s. R s (s\<lparr>ib_db := security_step c (ib_db s)\<rparr>))"

definition sends :: "(inbox \<Rightarrow> inbox \<Rightarrow> bool) \<Rightarrow> mail \<Rightarrow> bool" where
  "sends R m \<longleftrightarrow> (\<forall>reply s. R s (send_mail m reply s))"

text \<open>An event other than a failed deployment check, whose events limit the pings.\<close>

definition plain_event :: "NewSecurityEvent \<Rightarrow> bool" where
  "plain_event e \<longleftrightarrow> ne_kind e \<noteq> SecurityEventKind.DeploymentCheckFailed"

lemma plain_events [simp]:
  "plain_event (new_event kind) \<longleftrightarrow> kind \<noteq> SecurityEventKind.DeploymentCheckFailed"
  "plain_event (with_detail d e) \<longleftrightarrow> plain_event e" "plain_event (with_actor a e) \<longleftrightarrow> plain_event e"
  by (simp_all add: plain_event_def new_event_def with_detail_def with_actor_def)

definition starts_no_assessment :: "ReportTransition option \<Rightarrow> bool" where
  "starts_no_assessment t \<longleftrightarrow> (case t of None \<Rightarrow> True | Some t \<Rightarrow> tr_to t \<noteq> SecurityReportState.Assessing)"

text \<open>The calls a delivery of a reply makes.\<close>

fun delivery_call :: "int \<Rightarrow> SecurityReplyKind \<Rightarrow> security_call \<Rightarrow> bool" where
  "delivery_call i kind (Claim_reply now r k e) \<longleftrightarrow> r = i \<and> k = kind"
| "delivery_call i kind (Complete_reply now r k s err e t) \<longleftrightarrow> r = i \<and> k = kind \<and> starts_no_assessment t"
| "delivery_call i kind (Record_event now r v e) \<longleftrightarrow> plain_event e"
| "delivery_call i kind (Transition_report now r a b changes e) \<longleftrightarrow>
     r = i \<and> b \<noteq> SecurityReportState.Assessing \<and> changes = no_report_changes"
| "delivery_call i kind _ \<longleftrightarrow> False"

text \<open>The calls every part of the inbox may make at any time.\<close>

fun routine_call :: "security_call \<Rightarrow> bool" where
  "routine_call (Transition_report now r a b changes e) \<longleftrightarrow> b \<noteq> SecurityReportState.Assessing"
| "routine_call (Record_event now r v e) \<longleftrightarrow> plain_event e"
| "routine_call (Transition_vulnerability now i a b changes e) \<longleftrightarrow>
     b = VulnerabilityState.NeedsHuman \<and> changes = no_vulnerability_changes"
| "routine_call (Claim_reply now r k e) \<longleftrightarrow> \<not> is_fix_live k"
| "routine_call (Complete_reply now r k s err e t) \<longleftrightarrow> starts_no_assessment t"
| "routine_call (Create_vulnerability now v) \<longleftrightarrow> False"
| "routine_call (Replace_first_reporter now v old r at) \<longleftrightarrow> False"
| "routine_call (Prepare_award now v r a) \<longleftrightarrow> False"
| "routine_call _ \<longleftrightarrow> True"

lemma delivery_is_routine: "\<not> is_fix_live kind \<Longrightarrow> delivery_call i kind c \<Longrightarrow> routine_call c"
  by (cases c) auto

context inbox_effects begin

lemma stored:
  assumes "\<And>now db. snd (m now db) = security_step (c now) db" and "\<And>now. permits R (c now)"
  shows "along R (store m)"
  using store_call [of m c] assms by (simp add: permits_def)

lemma stores_upsert:
  "(\<And>now. permits R (Upsert_report now report)) \<Longrightarrow> along R (store (\<lambda>now. upsert_security_report now report))"
  by (rule stored [where c = "\<lambda>now. Upsert_report now report"]) simp_all

lemma stores_transition_report:
  "(\<And>now. permits R (Transition_report now i a b changes e)) \<Longrightarrow> along R (store (\<lambda>now. transition_security_report now i a b changes e))"
  by (rule stored [where c = "\<lambda>now. Transition_report now i a b changes e"]) simp_all

lemma stores_release_stale:
  "(\<And>now. permits R (Release_stale now1 now stale)) \<Longrightarrow> along R (store (\<lambda>now. release_stale_security_assessments now1 now stale))"
  by (rule stored [where c = "\<lambda>now. Release_stale now1 now stale"]) simp_all

lemma stores_follow_up:
  "(\<And>now. permits R (Follow_up now i old new)) \<Longrightarrow> along R (store (\<lambda>now. record_security_follow_up now i old new))"
  by (rule stored [where c = "\<lambda>now. Follow_up now i old new"]) simp_all

lemma stores_record_event:
  "(\<And>now. permits R (Record_event now r v e)) \<Longrightarrow> along R (store (\<lambda>now. record_security_event now r v e))"
  by (rule stored [where c = "\<lambda>now. Record_event now r v e"]) simp_all

lemma stores_create:
  "(\<And>now. permits R (Create_vulnerability now nv)) \<Longrightarrow> along R (store (\<lambda>now. create_security_vulnerability now nv))"
  by (rule stored [where c = "\<lambda>now. Create_vulnerability now nv"]) simp_all

lemma stores_transition_vulnerability:
  "(\<And>now. permits R (Transition_vulnerability now i a b changes e)) \<Longrightarrow> along R (store (\<lambda>now. transition_security_vulnerability now i a b changes e))"
  by (rule stored [where c = "\<lambda>now. Transition_vulnerability now i a b changes e"]) simp_all

lemma stores_replace:
  "(\<And>now. permits R (Replace_first_reporter now i old r at)) \<Longrightarrow> along R (store (\<lambda>now. replace_first_reporter now i old r at))"
  by (rule stored [where c = "\<lambda>now. Replace_first_reporter now i old r at"]) simp_all

lemma stores_prepare:
  "(\<And>now. permits R (Prepare_award now i r award)) \<Longrightarrow> along R (store (\<lambda>now. prepare_security_award now i r award))"
  by (rule stored [where c = "\<lambda>now. Prepare_award now i r award"]) simp_all

lemma stores_update_award:
  "(\<And>now. permits R (Update_award now i es st actor note)) \<Longrightarrow> along R (store (\<lambda>now. update_security_award_status now i es st actor note))"
  by (rule stored [where c = "\<lambda>now. Update_award now i es st actor note"]) simp_all

lemma stores_claim:
  "(\<And>now. permits R (Claim_reply now r k e)) \<Longrightarrow> along R (store (\<lambda>now. claim_security_reply now r k e))"
  by (rule stored [where c = "\<lambda>now. Claim_reply now r k e"]) simp_all

lemma stores_complete:
  "(\<And>now. permits R (Complete_reply now r k s err e t)) \<Longrightarrow> along R (store (\<lambda>now. complete_security_reply now r k s err e t))"
  by (rule stored [where c = "\<lambda>now. Complete_reply now r k s err e t"]) simp_all

lemma stores_confirm:
  "(\<And>now. permits R (Confirm_reply now r k d actor)) \<Longrightarrow> along R (store (\<lambda>now. confirm_security_reply now r k d actor))"
  by (rule stored [where c = "\<lambda>now. Confirm_reply now r k d actor"]) simp_all

lemmas stores =
  stores_upsert stores_transition_report stores_release_stale stores_follow_up stores_record_event stores_create stores_transition_vulnerability
  stores_replace stores_prepare stores_update_award stores_claim stores_complete stores_confirm

section \<open>Deliveries\<close>

lemma subject_for: "along R (subject_for report)"
  unfolding subject_for_def by (intro reading)

lemma ledger_entry: "along R (ledger_entry i kind)"
  unfolding ledger_entry_def by (intro reading)

lemma deliver_check: "along R (deliver_check env report kind)"
  unfolding deliver_check_def delivery_due_def Let_def by (intro reading ledger_entry)

lemma mark_unconfirmed:
  "(\<And>now err e. permits R (Complete_reply now (sr_id report) kind DeliveryStatus.Unconfirmed err e None)) \<Longrightarrow>
   along R (mark_unconfirmed env report kind err)"
  unfolding mark_unconfirmed_def by (intro reading stores subject_for)

lemma deliver_send: "sends R (mail_for env report kind) \<Longrightarrow> along R (deliver_send env report kind)"
  by (simp add: along_def sends_def deliver_send_def Let_def)

lemma deliver:
  assumes calls: "\<And>c. delivery_call (sr_id report) kind c \<Longrightarrow> permits R c"
    and mails: "sends R (mail_for env report kind)" and completion: "starts_no_assessment completion"
  shows "along R (deliver env report kind completion)"
proof -
  have escalation: "starts_no_assessment
      (filter_option transition_is_allowed (if b then Some \<lparr>tr_from = a, tr_to = SecurityReportState.NeedsHuman\<rparr> else None))"
    for a b
    by (cases b) (simp_all add: starts_no_assessment_def)
  have none: "starts_no_assessment None" by (simp add: starts_no_assessment_def)
  have "along R (record_sent report kind status completion)" for status
    unfolding record_sent_def using completion by (intro reading stores calls) simp_all
  moreover have "along R (record_rejected env report kind attempt err)" for attempt err
    unfolding record_rejected_def Let_def using escalation by (intro reading stores subject_for calls) simp_all
  moreover have "along R (mark_unconfirmed env report kind err)" for err
    using none by (intro mark_unconfirmed calls) simp
  ultimately have settled: "along R (deliver_record env report kind attempt completion reply)" for attempt reply
    unfolding deliver_record_def by (cases reply) (auto intro: reading)
  show ?thesis
    unfolding deliver_def deliver_claim_def
    by (intro reading deliver_check stores calls deliver_send mails settled) simp_all
qed

lemma ledger_entry_kind:
  "fst (ledger_entry i kind s) = Inr (Some reply) \<Longrightarrow> shares_ledger_entry_with (sp_kind reply) kind"
  by (auto simp: ledger_entry_def bind_op_def query_def on_db_def read_op_def ret_def split: sum.splits
      dest: find_by_Some)

text \<open>The replies to deliver depend on the entry in the ledger: it is of a kind in \<open>K\<close>.\<close>

lemma ensure_delivered_from:
  assumes entry: "\<And>reply. fst (ledger_entry (sr_id report) kind s) = Inr (Some reply) \<Longrightarrow> sp_kind reply \<in> K"
    and kind: "kind \<in> K"
    and calls: "\<And>k c. k \<in> K \<Longrightarrow> delivery_call (sr_id report) k c \<Longrightarrow> permits R c"
    and mails: "\<And>k. k \<in> K \<Longrightarrow> sends R (mail_for env report k)"
    and completion: "tr_to completion \<noteq> SecurityReportState.Assessing"
  shows "R s (snd (ensure_delivered env report kind completion s))"
proof -
  have some: "starts_no_assessment (Some completion)" using completion by (simp add: starts_no_assessment_def)
  let ?rest = "\<lambda>existing. case existing of
         None \<Rightarrow> deliver env report kind (Some completion)
       | Some reply \<Rightarrow>
           (case sp_status reply of
              DeliveryStatus.Failed \<Rightarrow> deliver env report (sp_kind reply) (Some completion)
            | DeliveryStatus.Sent \<Rightarrow>
                bind_op (store (\<lambda>now. transition_security_report now (sr_id report) (tr_from completion)
                    (tr_to completion) no_report_changes
                    (with_detail (JObj [(''kind'', JStr (reply_kind_as_str (sp_kind reply))), (''recovered'', JBool True)])
                      (new_event SecurityEventKind.ReplySent)))) (\<lambda>_. ret Delivery.Skipped)
            | _ \<Rightarrow> ret Delivery.Skipped)"
  have delivered: "along R (deliver env report k (Some completion))" if "k \<in> K" for k
    by (rule deliver) (use calls [OF that] mails [OF that] some in auto)
  have recovered: "along R (store (\<lambda>now. transition_security_report now (sr_id report) (tr_from completion)
      (tr_to completion) no_report_changes e))" for e
    using completion by (intro stores calls [OF kind]) simp
  have rest: "along R (?rest existing)" if "\<And>reply. existing = Some reply \<Longrightarrow> sp_kind reply \<in> K" for existing
  proof (cases existing)
    case (Some reply)
    then show ?thesis using that delivered recovered by (cases "sp_status reply") (auto intro: reading)
  qed (simp add: delivered kind)
  obtain r t where m: "ledger_entry (sr_id report) kind s = (r, t)" by fastforce
  then have st: "R s t" using alongD [OF ledger_entry, of s "sr_id report" kind] by simp
  show ?thesis
  proof (cases r)
    case (Inl e)
    then show ?thesis using m st by (simp add: ensure_delivered_def bind_op_def)
  next
    case (Inr existing)
    then have "along R (?rest existing)" by (intro rest entry) (use m in simp)
    then have "R t (snd (?rest existing t))" by (rule alongD)
    then show ?thesis using m Inr trans [OF st] by (simp add: ensure_delivered_def bind_op_def)
  qed
qed

lemma ensure_delivered:
  assumes calls: "\<And>k c. shares_ledger_entry_with k kind \<Longrightarrow> delivery_call (sr_id report) k c \<Longrightarrow> permits R c"
    and mails: "\<And>k. shares_ledger_entry_with k kind \<Longrightarrow> sends R (mail_for env report k)"
    and completion: "tr_to completion \<noteq> SecurityReportState.Assessing"
  shows "along R (ensure_delivered env report kind completion)"
  by (rule alongI, rule ensure_delivered_from [where K = "{k. shares_ledger_entry_with k kind}"])
    (auto simp: shares_ledger_entry_with_def completion intro: calls mails dest: ledger_entry_kind)

end

end
