(* ===== verification/Inbox_Routine.thy ===== *)
theory Inbox_Routine
  imports Inbox_Footprints
begin

text \<open>
  Everything the security inbox does that is routine, for every relation that allows routine calls and mails; and
  the same of whole operations, given their parts that are not (\<open>engine_effects\<close>).
\<close>

section \<open>Routine operations\<close>

locale routine_effects = inbox_effects R for R +
  assumes routine: "routine_call c \<Longrightarrow> permits R c"
    and mailed: "\<not> is_fix_live (ml_kind m) \<Longrightarrow> sends R m"
begin

lemma sends_kind: "\<not> is_fix_live kind \<Longrightarrow> sends R (mail_for env report kind)"
  by (simp add: mailed mail_for_def)

lemma shares_plain: "shares_ledger_entry_with k kind \<Longrightarrow> \<not> is_fix_live kind \<Longrightarrow> \<not> is_fix_live k"
  by (auto simp: shares_ledger_entry_with_def)

lemma deliver_plain:
  "\<not> is_fix_live kind \<Longrightarrow> starts_no_assessment completion \<Longrightarrow> along R (deliver env report kind completion)"
  by (rule deliver) (auto intro: routine sends_kind delivery_is_routine)

lemma ensure_delivered_plain:
  "\<not> is_fix_live kind \<Longrightarrow> tr_to completion \<noteq> SecurityReportState.Assessing \<Longrightarrow>
     along R (ensure_delivered env report kind completion)"
  by (rule ensure_delivered) (auto intro: routine sends_kind delivery_is_routine dest: shares_plain)

lemma outcome_kind_plain: "reply_kind_for_outcome out = Some kind \<Longrightarrow> \<not> is_fix_live kind"
  by (cases out) (auto simp: is_fix_live_def)

lemma reply_with_outcome: "along R (reply_with_outcome env i)"
proof -
  have "along R (case Option.bind (sr_outcome report) reply_kind_for_outcome of
      None \<Rightarrow> ret ()
    | Some kind \<Rightarrow> bind_op (ensure_delivered env report kind
        \<lparr>tr_from = SecurityReportState.Replying, tr_to = SecurityReportState.Closed\<rparr>) (\<lambda>_. ret ()))" for report
    by (cases "Option.bind (sr_outcome report) reply_kind_for_outcome")
      (auto intro!: reading ensure_delivered_plain dest: outcome_kind_plain split: bind_splits)
  note delivery = this
  show ?thesis unfolding reply_with_outcome_def by (intro reading delivery)
qed

lemma starts_none: "starts_no_assessment None"
  by (simp add: starts_no_assessment_def)

lemma confirmed_plain: "\<not> is_fix_live SecurityReplyKind.Confirmed"
  by (simp add: is_fix_live_def)

lemma acknowledge: "along R (acknowledge env i registration)"
proof -
  have "along R (deliver_confirmed env i)"
    unfolding deliver_confirmed_def by (intro reading deliver_plain confirmed_plain starts_none)
  then show ?thesis
    unfolding acknowledge_def
    by (cases "rg_kind registration") (auto intro!: reading reply_with_outcome)
qed

lemma fix_attempt: "along R (fix_attempt i)"
  unfolding fix_attempt_def by (rule query)

lemma fix_request: "along R (fix_request env i)"
  unfolding fix_request_def first_assessment_def by (intro reading)

lemma route_existing: "along R (route_existing env report)"
  unfolding route_existing_def immediate_fix_def route_done_def Let_def
  by (intro reading fix_attempt fix_request)

lemma report_moves:
  "b \<noteq> SecurityReportState.Assessing \<Longrightarrow>
     along R (store (\<lambda>now. transition_security_report now i a b changes e))"
  by (intro stores routine) simp

lemma noted: "plain_event e \<Longrightarrow> along R (store (\<lambda>now. record_security_event now r v e))"
  by (intro stores routine) simp

lemma release: "along R (release env report err)"
  unfolding release_def by (intro reading report_moves) simp

lemma run_spam_action: "along R (run_spam_action env i)"
  unfolding run_spam_action_def mark_spam_def resolve_issue_def by (intro reading)

lemma conversation_closed: "along R (conversation_closed_by_spam_action env i)"
  unfolding conversation_closed_by_spam_action_def by (intro noted) simp

lemma close_spam: "along R (close_spam env report confidence)"
  unfolding close_spam_def by (intro reading run_spam_action conversation_closed report_moves) simp

lemma ask_agent: "along R (ask_agent env prompt)"
  unfolding ask_agent_def by (intro reading)

lemma tempdir: "along R (tempdir env)"
  unfolding tempdir_def by (intro reading)

lemma screen: "along R (screen env report)"
  unfolding screen_def by (intro reading ask_agent tempdir)

lemma checkout: "along R (checkout env resolution)"
  unfolding checkout_def
  by (cases "case (resolution, cf_default_repository (en_config env)) of
      (RepoResolution.Skip reason, Some fallback) \<Rightarrow> resolve_repo_for_cascade env fallback | _ \<Rightarrow> resolution")
    (auto intro!: reading)

lemma phase_a: "along R (phase_a env report co)"
  unfolding phase_a_def by (intro reading ask_agent)

lemma run_git: "along R (run_git env h arguments)"
  unfolding run_git_def by (rule ask)

lemma git: "along R (git env h arguments)"
  unfolding git_def by (intro reading run_git)

lemma mentioning_each: "along R (mentioning_each env h terms commits)"
  by (induction terms arbitrary: commits) (auto intro!: reading git simp: commits_mentioning_def)

lemma candidate_commits: "along R (candidate_commits env h phase)"
  unfolding candidate_commits_def commits_touching_def Let_def by (intro reading git mentioning_each)

lemma is_ancestor: "along R (is_ancestor env h sha)"
  unfolding is_ancestor_def by (intro reading run_git)

lemma landed_at: "along R (landed_at env h sha)"
  unfolding landed_at_def commit_date_def by (intro reading run_git git)

lemma find_existing_fix: "along R (find_existing_fix env report phase a co)"
  unfolding find_existing_fix_def Let_def
  by (intro reading candidate_commits tempdir ask_agent is_ancestor landed_at)

lemma settle_assessment: "along R (settle_assessment env report phase co)"
proof -
  have "along R (verdict_of env report phase a co)" for a
    unfolding verdict_of_def phase_b_def
    by (cases "pa_outcome phase") (auto intro!: reading find_existing_fix)
  then show ?thesis unfolding settle_assessment_def Let_def by (intro reading)
qed

lemma assess: "along R (assess env report resolution)"
  unfolding assess_def Let_def by (intro reading checkout phase_a settle_assessment)

lemma apply_review: "along R (apply_review env report result reason)"
  unfolding apply_review_def route_done_def Let_def by (intro reading report_moves) simp

lemma apply_outcome: "along R (apply_outcome env report result out)"
  unfolding apply_outcome_def route_done_def Let_def by (intro reading report_moves reply_with_outcome) simp

lemma observe_follow_up: "along R (observe_follow_up env issue)"
  unfolding observe_follow_up_def by (intro reading stores subject_for routine) simp

lemma escalate: "along R (escalate env i a reason)"
  unfolding escalate_def by (intro reading stores routine) simp

lemma escalate_first: "along R (escalate_first env i expected reason)"
  by (induction expected) (auto intro!: reading escalate)

lemma record_fix_failure: "along R (record_fix_failure env i err permanent)"
  unfolding record_fix_failure_def by (intro reading noted escalate_first) simp

lemma override_handler: "along R (override_handler env admin i action)"
proof -
  have "along R (apply_override env admin i action)"
    by (cases action) (auto simp: Let_def intro!: report_moves stores routine)
  then show ?thesis unfolding override_handler_def by (intro reading)
qed

lemma award_handler: "along R (award_handler admin i note)"
  unfolding award_handler_def Let_def by (intro reading stores routine) simp

section \<open>Routine steps of a sweep\<close>

lemma registration_failed: "swept (registration_failed env report e)"
  unfolding registration_failed_def by (intro sweeping reading report_moves) simp

lemma sweep_stale: "swept (sweep_stale env)"
proof -
  have "along R (release_stale_assessments env)"
    unfolding release_stale_assessments_def by (intro reading stores routine) simp
  then show ?thesis unfolding sweep_stale_def by (intro sweeping)
qed

lemma expire_stale_sending: "along R (expire_stale_sending env report)"
proof -
  have "along R (mark_unconfirmed env report kind err)" for kind err
    by (rule mark_unconfirmed) (simp add: routine starts_none)
  then show ?thesis unfolding expire_stale_sending_def by (intro reading)
qed

lemma settle_report_replies: "swept (settle_report_replies env report)"
proof -
  have "swept (case Option.bind (sr_outcome report) reply_kind_for_outcome of
      None \<Rightarrow> ret ()
    | Some kind \<Rightarrow> bind_op (on_inbox (ensure_delivered env report kind
        \<lparr>tr_from = SecurityReportState.Replying, tr_to = SecurityReportState.Closed\<rparr>)) count_delivery)"
    by (cases "Option.bind (sr_outcome report) reply_kind_for_outcome")
      (auto intro!: sweeping ensure_delivered_plain dest: outcome_kind_plain split: bind_splits)
  moreover have "along R (awaits_confirmation env report)"
    unfolding awaits_confirmation_def by (intro reading)
  ultimately show ?thesis
    unfolding settle_report_replies_def
    by (cases "sr_state report")
      (auto intro!: sweeping expire_stale_sending deliver_plain confirmed_plain starts_none)
qed

lemma settle_replies: "swept (settle_replies env)"
  unfolding settle_replies_def by (intro sweeping query settle_report_replies)

lemma close_overridden_spam: "swept (close_overridden_spam env)"
  unfolding close_overridden_spam_def by (intro sweeping query reading run_spam_action conversation_closed)

lemma escalate_counted: "swept (escalate_counted env i a reason)"
  unfolding escalate_counted_def by (intro sweeping escalate)

lemma bump_required: "along R (bump_required env v repository)"
  unfolding bump_required_def by (intro reading noted) simp

lemma notify_prepared_awards: "swept (notify_prepared_awards env)"
  unfolding notify_prepared_awards_def notify_award_def by (intro sweeping reading query stores routine) simp

lemma is_rewardable: "along R (is_rewardable v)"
proof -
  have "along R (any_confirmed reports)" for reports
    by (induction reports) (auto intro!: reading)
  then show ?thesis unfolding is_rewardable_def by (intro reading)
qed

end

end
