(* ===== verification/Inbox_Runs.thy ===== *)
theory Inbox_Runs
  imports Inbox_Routine
begin

text \<open>
  The inbox as a machine: the actions the rest of the program takes on it, one at a time, and the runs of actions
  from an empty inbox. \<open>engine_effects\<close> gives the effect of every action from the effects of the parts that are not
  routine; every run is a run of calls of the store.
\<close>

section \<open>Actions\<close>

text \<open>
  Routing a polled issue, noting its follow-ups, the sweep, the outcomes of a fix run, the endpoints of the admins,
  and calls on the attempts by other parts of the program.
\<close>

datatype inbox_action =
    Route_issue Issue RepoResolution
  | Observe_issue Issue
  | Sweep
  | Fix_opened int "int option" string
  | Fix_failed int string bool
  | Admin_override string int SecurityOverride
  | Admin_award string int "string option"
  | Admin_pull_request string int string
  | Admin_live string int string
  | Other_attempt attempt_call

fun inbox_step :: "inbox_env \<Rightarrow> inbox_action \<Rightarrow> inbox \<Rightarrow> inbox" where
  "inbox_step env (Route_issue issue resolution) s = snd (route env issue resolution s)"
| "inbox_step env (Observe_issue issue) s = snd (observe_follow_up env issue s)"
| "inbox_step env Sweep s = snd (advance env s)"
| "inbox_step env (Fix_opened i attempt_id url) s = snd (link_fix i attempt_id url s)"
| "inbox_step env (Fix_failed i err permanent) s = snd (record_fix_failure env i err permanent s)"
| "inbox_step env (Admin_override admin i action) s = snd (override_handler env admin i action s)"
| "inbox_step env (Admin_award admin i note) s = snd (award_handler admin i note s)"
| "inbox_step env (Admin_pull_request admin i url) s = snd (pull_request_handler admin i url s)"
| "inbox_step env (Admin_live admin i version) s = snd (live_handler admin i version s)"
| "inbox_step env (Other_attempt c) s = s\<lparr>ib_db := attempt_step c (ib_db s)\<rparr>"

definition run_inbox :: "inbox_env \<Rightarrow> inbox_action list \<Rightarrow> inbox \<Rightarrow> inbox" where
  "run_inbox env actions s = fold (inbox_step env) actions s"

definition start_inbox :: "(nat \<Rightarrow> datetime) \<Rightarrow> inbox" where
  "start_inbox instants =
     \<lparr>ib_db = empty_db, ib_clock = instants, ib_ticks = 0, ib_outbox = [], ib_pings = [], ib_source_calls = []\<rparr>"

lemma run_inbox_simps [simp]:
  "run_inbox env [] s = s" "run_inbox env (a # actions) s = run_inbox env actions (inbox_step env a s)"
  "run_inbox env (xs @ ys) s = run_inbox env ys (run_inbox env xs s)"
  by (simp_all add: run_inbox_def)

lemma run_inbox_invariant:
  assumes "\<And>a s. I s \<Longrightarrow> I (inbox_step env a s)" and "I s"
  shows "I (run_inbox env actions s)"
  using assms(2) by (induction actions arbitrary: s) (simp_all add: assms(1))

section \<open>Effects of the actions\<close>

context routine_effects begin

lemma apply_assessment:
  assumes "\<And>valid. along R (register env valid)"
  shows "along R (apply_assessment env report result)"
proof -
  have "along R (apply_valid env report result)"
    unfolding apply_valid_def route_done_def by (intro reading assms acknowledge route_existing)
  then show ?thesis unfolding apply_assessment_def by (intro reading apply_review apply_outcome)
qed

lemma screen_and_assess:
  assumes "\<And>valid. along R (register env valid)"
  shows "along R (screen_and_assess env report t resolution)"
proof -
  have "along R (case screening of
         Screening.Spam confidence \<Rightarrow> bind_op (close_spam env report confidence) (\<lambda>_. route_done ''screened as spam'')
       | Screening.Report confidence \<Rightarrow> bind_op (assess env t resolution) (apply_assessment env report))" for screening
    unfolding route_done_def
    by (cases screening) (auto intro!: reading close_spam assess apply_assessment assms)
  note screened = this
  show ?thesis unfolding screen_and_assess_def by (intro reading screen screened)
qed

lemma received:
  assumes register: "\<And>valid. along R (register env valid)"
    and start: "\<And>now i e. permits R (Transition_report now i SecurityReportState.Received
      SecurityReportState.Assessing no_report_changes e)"
  shows "along R (route_received env issue resolution report)"
proof -
  have "along R (store (\<lambda>now. transition_security_report now i SecurityReportState.Received
      SecurityReportState.Assessing no_report_changes e))" for i e
    by (intro stores start)
  note started = this
  have moved: "along R (store (\<lambda>now. transition_security_report now i SecurityReportState.Received
      SecurityReportState.NeedsHuman no_report_changes e))" for i e
    by (rule report_moves) simp
  show ?thesis
    unfolding route_received_def route_done_def
    by (intro reading started moved screen_and_assess register release)
qed

end

locale action_effects = routine_effects R for R +
  fixes env :: inbox_env
  assumes registers: "along R (register env valid)"
    and receives: "along R (route_received env issue resolution report)"
    and links: "along R (link_fix i attempt_id url)"
    and pull_request: "along R (pull_request_handler admin i url)"
    and live: "along R (live_handler admin i version)"
begin

lemma route: "along R (route env issue resolution)"
proof -
  have "along R (route_report env issue resolution)"
    unfolding route_report_def new_report_def route_done_def
    by (intro reading stores routine receives route_existing) simp
  then show ?thesis unfolding route_def route_done_def by (intro reading)
qed

lemma register_confirmation: "swept (register_confirmation env confirmed)"
proof -
  obtain report confirmation where confirmed: "confirmed = (report, confirmation)" by (cases confirmed)
  have "swept (case registered of
              Inl e \<Rightarrow> registration_failed env report e
            | Inr None \<Rightarrow> ret ()
            | Inr (Some registration) \<Rightarrow> on_inbox (acknowledge env (sr_id report) registration))" for registered
    by (auto intro!: sweeping registration_failed acknowledge split: sum.split option.split)
  note registered = this
  have "along R (fix_found_in_history env report)"
    unfolding fix_found_in_history_def by (intro reading)
  then show ?thesis
    unfolding register_confirmation_def confirmed Let_def prod.case
    by (intro sweeping registers registered)
qed

lemma register_admin_confirmed: "swept (register_admin_confirmed env)"
  unfolding register_admin_confirmed_def by (intro sweeping query register_confirmation)

lemma reconcile_opened_fixes: "swept (reconcile_opened_fixes env)"
  unfolding reconcile_opened_fixes_def reconcile_opened_fix_def
  by (intro sweeping query fix_attempt escalate_counted links)

lemma attempted: "R s (s\<lparr>ib_db := attempt_step c (ib_db s)\<rparr>)"
  using routine [of "Attempt c"] by (simp add: permits_def)

lemma step_elsewhere: "a \<noteq> Sweep \<Longrightarrow> R s (inbox_step env a s)"
  by (cases a) (simp_all add: alongD [OF route] alongD [OF observe_follow_up] alongD [OF links]
      alongD [OF record_fix_failure] alongD [OF override_handler] alongD [OF award_handler]
      alongD [OF pull_request] alongD [OF live] attempted)

end

locale engine_effects = action_effects R env for R env +
  assumes fixing: "swept (advance_fixing env)"
    and merged: "swept (advance_merged env)"
    and announcing: "swept (advance_live env)"
begin

lemma advance_steps: "swept (advance_steps env)"
  unfolding advance_steps_def
  by (rule on_sweep.for_each_in)
    (auto intro: register_admin_confirmed sweep_stale settle_replies close_overridden_spam reconcile_opened_fixes
      fixing merged announcing)

lemma advance: "along R (advance env)"
proof (rule alongI)
  fix s
  have "R s (sw_inbox (snd (advance_steps env \<lparr>sw_inbox = s, sw_summary = empty_summary\<rparr>)))"
    using alongD [OF advance_steps, of "\<lparr>sw_inbox = s, sw_summary = empty_summary\<rparr>"] by simp
  then show "R s (snd (advance env s))"
    by (cases "advance_steps env \<lparr>sw_inbox = s, sw_summary = empty_summary\<rparr>") (simp add: advance_def)
qed

lemma step: "R s (inbox_step env a s)"
  by (cases "a = Sweep") (simp_all add: alongD [OF advance] step_elsewhere)

lemma run: "R s (run_inbox env actions s)"
proof (induction actions arbitrary: s)
  case (Cons a actions)
  show ?case using trans [OF step Cons.IH] by simp
qed (simp add: refl)

end

section \<open>The other operations\<close>

text \<open>Only the announcement of live fixes prepares awards and sends the mails of fixes that are live.\<close>

fun quiet_call :: "security_call \<Rightarrow> bool" where
  "quiet_call (Prepare_award now i r award) \<longleftrightarrow> False"
| "quiet_call (Claim_reply now r k e) \<longleftrightarrow> \<not> is_fix_live k"
| "quiet_call _ \<longleftrightarrow> True"

lemma routine_is_quiet: "routine_call c \<Longrightarrow> quiet_call c"
  by (cases c) auto

lemma quiet_calls:
  "quiet_call (Transition_report now i a b changes e)" "quiet_call (Transition_vulnerability now i va vb vchanges e)"
  "quiet_call (Record_event now r v e)" "quiet_call (Create_vulnerability now nv)"
  "quiet_call (Replace_first_reporter now i old new at)"
  by simp_all

locale quiet_effects = inbox_effects R for R +
  assumes quiet: "quiet_call c \<Longrightarrow> permits R c"
    and plain: "\<not> is_fix_live (ml_kind m) \<Longrightarrow> sends R m"

sublocale quiet_effects \<subseteq> routine_effects R
  by unfold_locales (auto intro: quiet plain routine_is_quiet)

context quiet_effects begin

lemmas quietly = quiet_calls [THEN quiet]

lemma quiet_register: "along R (register env valid)"
proof -
  have track: "along R (link_tracking valid v kind)" for v kind
    unfolding link_tracking_def by (intro reading stores quietly)
  have "along R (link_duplicate valid v)" for v
    unfolding link_duplicate_def try_replace_def link_as_duplicate_def Let_def
    by (intro reading stores quietly track)
  moreover have "along R (judge env a cs)" for a cs
    unfolding judge_def Let_def by (intro reading tempdir ask_agent)
  moreover have "along R (embedding_of env a)" for a
    unfolding embedding_of_def by (intro reading)
  ultimately show ?thesis
    unfolding register_def register_new_def linked_vulnerability_def
    by (intro reading stores quietly track) auto
qed

lemma quiet_link_fix: "along R (link_fix i attempt_id url)"
proof -
  have "along R (first_transition i next_state changes e expected)" for next_state changes e expected
    by (induction expected) (auto intro!: reading stores quietly)
  note moved = this
  show ?thesis unfolding link_fix_def by (intro reading moved)
qed

lemma quiet_transition: "along R (transition_vulnerability i allowed next_state changes e)"
  unfolding transition_vulnerability_def by (intro reading stores quietly)

lemma quiet_fixing: "swept (advance_fixing env)"
proof -
  have checked: "along R (deployment_check_failed env v err)" for v err
    unfolding deployment_check_failed_def recent_check_def by (intro reading stores quietly)
  have merged: "swept (mark_merged_fix env deployment v url repository state)" for deployment v url repository state
    unfolding mark_merged_fix_def merged_at_or_now_def
    by (intro sweeping reading stores quietly bump_required)
  show ?thesis
    unfolding advance_fixing_def advance_fixing_vulnerability_def Let_def
    by (intro sweeping query fix_attempt ask escalate_counted checked merged)
qed

lemma quiet_merged: "swept (advance_merged env)"
proof -
  have checked: "along R (deployment_check_failed env v err)" for v err
    unfolding deployment_check_failed_def recent_check_def by (intro reading stores quietly)
  have live: "swept (mark_live v versions)" for v versions
    unfolding mark_live_def by (intro sweeping reading stores quietly)
  have "swept (case answer of
              Inr (LiveStatus.Live versions) \<Rightarrow> mark_live v versions
            | Inr (LiveStatus.Pending versions) \<Rightarrow> ret ()
            | Inr LiveStatus.Untracked \<Rightarrow>
                escalate_counted env (sv_id v) VulnerabilityState.Merged ReviewReason.UntrackedRepository
            | Inl e \<Rightarrow> on_inbox (deployment_check_failed env v (error_text (en_db_text env) e)))" for v answer
    by (auto intro!: sweeping live escalate_counted checked split: sum.split LiveStatus.split)
  note answered = this
  have "swept (advance_merged_vulnerability env deployment v)" for deployment v
    unfolding advance_merged_vulnerability_def
    by (auto intro!: sweeping ask answered escalate_counted split: option.split)
  note advanced = this
  show ?thesis unfolding advance_merged_def by (intro sweeping query advanced)
qed

lemma quiet_pull_request: "along R (pull_request_handler admin i url)"
  unfolding pull_request_handler_def Let_def by (intro reading quiet_transition)

lemma quiet_live: "along R (live_handler admin i version)"
  unfolding live_handler_def Let_def by (intro reading quiet_transition)

lemma quiet_received: "along R (route_received env issue resolution report)"
  by (rule received [OF quiet_register quiet]) simp

end

sublocale quiet_effects \<subseteq> action_effects R env for env
  by unfold_locales (rule quiet_register quiet_received quiet_link_fix quiet_pull_request quiet_live)+

text \<open>A relation that allows every call and mail.\<close>

locale open_effects = inbox_effects R for R +
  assumes every_call: "permits R c" and every_mail: "sends R m"

sublocale open_effects \<subseteq> quiet_effects R
  by unfold_locales (rule every_call every_mail)+

context open_effects begin

lemma open_announce: "swept (advance_live env)"
proof -
  have "along R (ensure_delivered env report kind
      \<lparr>tr_from = SecurityReportState.Tracking, tr_to = SecurityReportState.Resolved\<rparr>)" for report kind
    by (rule ensure_delivered) (simp_all add: every_call every_mail)
  note delivered = this
  have "swept (announce_live env grp)" for grp
    unfolding announce_live_def announce_to_def prepare_award_def
    by (intro sweeping reading is_rewardable stores every_call delivered)
  note announced = this
  show ?thesis unfolding advance_live_def by (intro sweeping query announced notify_prepared_awards)
qed

end

sublocale open_effects \<subseteq> engine_effects R env for env
  by unfold_locales (rule quiet_fixing quiet_merged open_announce)+

section \<open>Runs of the store\<close>

text \<open>
  Whatever the inbox does, its database goes through calls of the store, its clock and ticks only move on, and
  mails are only added.
\<close>

definition moves_on :: "inbox \<Rightarrow> inbox \<Rightarrow> bool" where
  "moves_on s t \<longleftrightarrow>
     (\<exists>calls. ib_db t = run_security calls (ib_db s)) \<and> (\<exists>mails. ib_outbox t = ib_outbox s @ mails) \<and>
     ib_clock t = ib_clock s \<and> ib_ticks s \<le> ib_ticks t"

interpretation engine: open_effects moves_on
proof unfold_locales
  show "moves_on s s" for s
    unfolding moves_on_def by (auto intro!: exI [of _ "[]"] simp: run_security_def)
  show "moves_on s u" if "moves_on s t" "moves_on t u" for s t u
    using that unfolding moves_on_def run_security_def by (metis append_assoc comp_apply fold_append order_trans)
  show "permits moves_on c" for c
    unfolding permits_def moves_on_def
    by (auto intro!: exI [of _ "[c]"] simp: run_security_def)
qed (auto simp: moves_on_def sends_def send_mail_def run_security_def intro!: exI [of _ "[]"])

lemma inbox_is_store_run:
  "\<exists>calls. ib_db (run_inbox env actions (start_inbox instants)) = run_security calls empty_db"
  using engine.run [of "start_inbox instants" env actions] by (simp add: moves_on_def start_inbox_def)

end
