(* ===== verification/Security_Frames.thy ===== *)
theory Security_Frames
  imports Security_Exact
begin

text \<open>
  Which tables a call of the store writes, and that it leaves everything read from the others alone. A call that
  writes its table is told exactly: what it does to the vulnerabilities and awards.
\<close>

datatype table = Reports | Vulnerabilities | Replies | Awards | Attempts

fun writes :: "security_call \<Rightarrow> table set" where
  "writes (Upsert_report now report) = {Reports}"
| "writes (Transition_report now i a b changes e) = {Reports}"
| "writes (Release_stale now1 now2 stale_after) = {Reports}"
| "writes (Follow_up now i old new) = {Reports}"
| "writes (Record_event now r v e) = {}"
| "writes (Create_vulnerability now v) = {Vulnerabilities}"
| "writes (Transition_vulnerability now i a b changes e) = {Vulnerabilities}"
| "writes (Replace_first_reporter now v old r at) = {Vulnerabilities}"
| "writes (Claim_reply now r k e) = {Replies}"
| "writes (Complete_reply now r k s err e t) = {Replies, Reports}"
| "writes (Confirm_reply now r k d actor) = {Replies}"
| "writes (Prepare_award now v r a) = {Awards}"
| "writes (Update_award now v es s actor note) = {Awards}"
| "writes (Attempt c) = {Attempts}"

section \<open>What is not written stays\<close>

lemma read_back_Inr:
  assumes "rbind x (\<lambda>db. rbind (q db) (\<lambda>v. case v of Some r \<Rightarrow> Inr (r, db) | None \<Rightarrow> Inl e)) = Inr (a, db')"
  shows "x = Inr db'"
proof (cases x)
  case (Inr db)
  then obtain v where "q db = Inr v" "(case v of Some r \<Rightarrow> Inr (r, db) | None \<Rightarrow> Inl e) = Inr (a, db')"
    using assms by auto
  with Inr show ?thesis by (cases v) auto
qed (use assms in simp)

locale frame =
  fixes part :: "security_db \<Rightarrow> 'x" and tables :: "table set"
  assumes events: "part (db\<lparr>db_events := es, db_next_event := n\<rparr>) = part db"
    and reports: "Reports \<notin> tables \<Longrightarrow> part (db\<lparr>db_reports := rs\<rparr>) = part db"
      "Reports \<notin> tables \<Longrightarrow> part (db\<lparr>db_next_report := n\<rparr>) = part db"
    and vulnerabilities: "Vulnerabilities \<notin> tables \<Longrightarrow> part (db\<lparr>db_vulnerabilities := vs\<rparr>) = part db"
      "Vulnerabilities \<notin> tables \<Longrightarrow> part (db\<lparr>db_next_vulnerability := n\<rparr>) = part db"
    and replies: "Replies \<notin> tables \<Longrightarrow> part (db\<lparr>db_replies := ps\<rparr>) = part db"
      "Replies \<notin> tables \<Longrightarrow> part (db\<lparr>db_next_reply := n\<rparr>) = part db"
    and awards: "Awards \<notin> tables \<Longrightarrow> part (db\<lparr>db_awards := as\<rparr>) = part db"
      "Awards \<notin> tables \<Longrightarrow> part (db\<lparr>db_next_award := n\<rparr>) = part db"
    and attempts: "Attempts \<notin> tables \<Longrightarrow> part (attempt_step c db) = part db"
begin

lemma noted: "part (add_event row e t db) = part db"
  by (simp add: add_event_def events)

lemmas rows = Let_def insert_event_Inr ret_def fail_def update_in_state_def move_report_def

lemma unchanged:
  "(\<And>a db'. body db = Inr (a, db') \<Longrightarrow> part db' = part db) \<Longrightarrow> part (snd (transaction body db)) = part db"
  by (rule transaction_preserves [where P = "\<lambda>db'. part db' = part db"]) auto

lemma report_calls:
  assumes "Reports \<notin> tables"
  shows "part (snd (upsert_security_report now report db)) = part db"
    "part (snd (transition_security_report now i a b changes e db)) = part db"
    "part (snd (release_stale_security_assessments now now2 stale_after db)) = part db"
    "part (snd (record_security_follow_up now i old new db)) = part db"
proof -
  show "part (snd (upsert_security_report now report db)) = part db"
    unfolding upsert_security_report_def
    by (rule unchanged, unfold Let_def, drule read_back_Inr)
      (auto simp: rows reports [OF assms] noted simp del: texts_kept split: if_splits)
  show "part (snd (transition_security_report now i a b changes e db)) = part db"
    unfolding transition_security_report_def Let_def
    by (auto simp: rows reports [OF assms] noted intro!: unchanged simp del: texts_kept split: if_splits)
  have "release_reports t e is db1 = Inr db2 \<Longrightarrow> part db2 = part db1" for t e "is" db1 db2
    by (induction "is" arbitrary: db1) (auto simp: release_report_def rows reports [OF assms] noted simp del: texts_kept)
  then show "part (snd (release_stale_security_assessments now now2 stale_after db)) = part db"
    unfolding release_stale_security_assessments_def
    by (cases "stale_cutoff now stale_after") (auto simp: Let_def ret_def intro!: unchanged)
  show "part (snd (record_security_follow_up now i old new db)) = part db"
    unfolding record_security_follow_up_def
    by (auto simp: rows reports [OF assms] noted intro!: unchanged split: if_splits)
qed

lemma event_call: "part (snd (record_security_event now ri vi e db)) = part db"
  unfolding record_security_event_def by (auto simp: rows noted intro!: unchanged split: if_splits)

lemma vulnerability_calls:
  assumes "Vulnerabilities \<notin> tables"
  shows "part (snd (create_security_vulnerability now v db)) = part db"
    "part (snd (transition_security_vulnerability now i a b changes e db)) = part db"
    "part (snd (replace_first_reporter now i j rr at db)) = part db"
proof -
  note seen = rows vulnerabilities [OF assms] noted
  show "part (snd (create_security_vulnerability now v db)) = part db"
    unfolding create_security_vulnerability_def
    by (auto simp: seen intro!: unchanged simp del: texts_kept split: if_splits option.splits)
  show "part (snd (transition_security_vulnerability now i a b changes e db)) = part db"
    unfolding transition_security_vulnerability_def
    by (auto simp: seen intro!: unchanged simp del: texts_kept split: if_splits)
  show "part (snd (replace_first_reporter now i j rr at db)) = part db"
    unfolding replace_first_reporter_def by (auto simp: seen intro!: unchanged split: if_splits)
qed

lemma reply_calls:
  assumes "Replies \<notin> tables"
  shows "part (snd (claim_security_reply now r k e db)) = part db"
    "Reports \<notin> tables \<Longrightarrow> part (snd (complete_security_reply now r k s err e tr db)) = part db"
    "part (snd (confirm_security_reply now r k d actor db)) = part db"
proof -
  note seen = rows replies [OF assms] noted
  show "part (snd (claim_security_reply now r k e db)) = part db"
    unfolding claim_security_reply_def
    by (rule unchanged) (auto simp: seen insert_reply_def simp del: texts_kept split: if_splits option.splits)
  show "part (snd (complete_security_reply now r k s err e tr db)) = part db" if "Reports \<notin> tables"
    unfolding complete_security_reply_def
    by (auto simp: seen reports [OF that] intro!: unchanged simp del: texts_kept split: if_splits option.splits)
  show "part (snd (confirm_security_reply now r k d actor db)) = part db"
    unfolding confirm_security_reply_def
    by (rule unchanged) (auto simp: seen simp del: texts_kept split: if_splits prod.splits)
qed

lemma award_calls:
  assumes "Awards \<notin> tables"
  shows "part (snd (prepare_security_award now i rr aw db)) = part db"
    "part (snd (update_security_award_status now i es st actor note db)) = part db"
proof -
  note seen = rows awards [OF assms] noted
  show "part (snd (prepare_security_award now i rr aw db)) = part db"
    unfolding prepare_security_award_def
    by (rule unchanged) (auto simp: seen simp del: texts_kept split: if_splits option.splits)
  show "part (snd (update_security_award_status now i es st actor note db)) = part db"
    unfolding update_security_award_status_def
    by (rule unchanged) (auto simp: seen simp del: texts_kept split: if_splits option.splits)
qed

lemma step: "tables \<inter> writes c = {} \<Longrightarrow> part (security_step c db) = part db"
  by (cases c) (simp_all add: report_calls event_call vulnerability_calls reply_calls award_calls attempts)

end

interpretation reports_frame: frame db_reports "{Reports}"
  by unfold_locales (simp_all add: attempt_step_same [unfolded same_security_def])
interpretation vulnerabilities_frame: frame db_vulnerabilities "{Vulnerabilities}"
  by unfold_locales (simp_all add: attempt_step_same [unfolded same_security_def])
interpretation replies_frame: frame db_replies "{Replies}"
  by unfold_locales (simp_all add: attempt_step_same [unfolded same_security_def])
interpretation awards_frame: frame db_awards "{Awards}"
  by unfold_locales (simp_all add: attempt_step_same [unfolded same_security_def])

end
