(* ===== verification/Security_Effects.thy ===== *)
theory Security_Effects
  imports Security_Frames
begin

text \<open>
  What the writing calls do to vulnerabilities, awards, replies and links, told by their results; and what only ever
  grows: events, the reports awards are for.
\<close>

section \<open>What grows\<close>

definition award_key :: "award_row \<Rightarrow> int \<times> int" where
  "award_key a = (sa_vulnerability_id a, sa_report_id a)"

definition grows :: "security_db \<Rightarrow> security_db \<Rightarrow> bool" where
  "grows db db' \<longleftrightarrow>
     set (db_events db) \<subseteq> set (db_events db') \<and> award_key ` set (db_awards db) \<subseteq> award_key ` set (db_awards db') \<and>
     sr_id ` set (db_reports db) \<subseteq> sr_id ` set (db_reports db')"

lemma grows_refl [simp]: "grows db db"
  by (simp add: grows_def)

lemma grows_trans: "grows a b \<Longrightarrow> grows b c \<Longrightarrow> grows a c"
  unfolding grows_def by (elim conjE) (intro conjI; erule (1) subset_trans)

lemma image_update_where: "(\<And>x. k (f x) = k x) \<Longrightarrow> k ` set (update_where p f xs) = k ` set xs"
  by (induction xs) (auto simp: update_where_def)

lemma change_grows: "change db db' \<Longrightarrow> grows db db'"
proof (induction rule: change.induct)
  case (reply_added report_id kind t db db')
  then show ?case by (auto simp: insert_reply_def Let_def grows_def split: if_splits)
next
  case (attempts_changed db c)
  then show ?case using attempt_step_same [of db c] by (simp add: same_security_def grows_def)
next
  case (award_moved s s' f i db e t)
  have "award_key ` set (update_where p f xs) = award_key ` set xs" for p xs
    by (rule image_update_where) (use award_moved in \<open>simp add: award_update_def award_key_def\<close>)
  then show ?case by (auto simp: grows_def add_event_def)
next
  case (report_moved a b db f i e t)
  have "sr_id ` set (update_where p f xs) = sr_id ` set xs" for p xs
    by (rule image_update_where) (use report_moved in \<open>simp add: report_update_def\<close>)
  then show ?case by (auto simp: grows_def add_event_def)
next
  case (report_edited db f p)
  have "sr_id ` set (update_where p f xs) = sr_id ` set xs" for p xs
    by (rule image_update_where) (use report_edited in \<open>simp add: report_update_def\<close>)
  then show ?case by (auto simp: grows_def)
qed (auto simp: grows_def add_event_def)

lemma changes_grow: "change\<^sup>*\<^sup>* db db' \<Longrightarrow> grows db db'"
  by (induction rule: rtranclp_induct) (auto intro: grows_trans change_grows)

lemma step_grows: "security_ok db \<Longrightarrow> grows db (security_step c db)"
  by (rule changes_grow, rule call_changes) (simp add: security_ok_def)

section \<open>Vulnerabilities\<close>

definition moved_vulnerability ::
    "VulnerabilityState \<Rightarrow> SecurityVulnerabilityChanges \<Rightarrow> stamp \<Rightarrow> vulnerability_row \<Rightarrow> vulnerability_row" where
  "moved_vulnerability b changes t v =
     fold id (vulnerability_assignments changes) (v\<lparr>sv_state := vulnerability_state_as_str b, sv_updated_at := t\<rparr>)"

lemma moved_vulnerability_keeps [simp]:
  "sv_id (moved_vulnerability b changes t v) = sv_id v"
  "sv_first_report_id (moved_vulnerability b changes t v) = sv_first_report_id v"
  "sv_state (moved_vulnerability b changes t v) = vulnerability_state_as_str b"
  by (simp_all add: moved_vulnerability_def del: texts_kept)

lemma moved_vulnerability_assigns:
  "sv_repository (moved_vulnerability b changes t v) = coalesce (vc_repository changes) (sv_repository v)"
  "sv_pull_request_url (moved_vulnerability b changes t v) = coalesce (vc_pull_request_url changes) (sv_pull_request_url v)"
  "sv_merge_commit (moved_vulnerability b changes t v) = coalesce (vc_merge_commit changes) (sv_merge_commit v)"
  unfolding moved_vulnerability_def vulnerability_assignments_def assign_def coalesce_def
  by (simp_all del: texts_kept split: option.split)

definition vulnerability_transition ::
    "stamp \<Rightarrow> int \<Rightarrow> VulnerabilityState \<Rightarrow> VulnerabilityState \<Rightarrow> SecurityVulnerabilityChanges \<Rightarrow> NewSecurityEvent \<Rightarrow>
       security_db \<Rightarrow> security_db" where
  "vulnerability_transition t i a b changes e db =
     add_event (vulnerability_event i (Some (vulnerability_state_as_str a)) (Some (vulnerability_state_as_str b))) e t
       (db\<lparr>db_vulnerabilities := update_where (in_state sv_id sv_state i (vulnerability_state_as_str a))
          (moved_vulnerability b changes t) (db_vulnerabilities db)\<rparr>)"

lemma transition_vulnerability_effect:
  assumes "transition_security_vulnerability now i a b changes e db = (r, db')"
  shows "db' = (if r = Inr True then vulnerability_transition (timestamp now) i a b changes e db else db)"
proof (cases "vulnerability_can_transition_to a b")
  case True
  have fold_eq: "fold id ([f, g] @ as) = fold id as \<circ> (g \<circ> f)" for f g :: "'r \<Rightarrow> 'r" and as
    by (simp add: fun_eq_iff)
  have moved: "moved_vulnerability b changes t = fold id (vulnerability_assignments changes) \<circ>
      (sv_updated_at_update (\<lambda>_. t) \<circ> sv_state_update (\<lambda>_. vulnerability_state_as_str b))" for t
    by (simp add: fun_eq_iff moved_vulnerability_def del: texts_kept)
  show ?thesis
    using assms True
    unfolding transition_security_vulnerability_def update_in_state_def fold_eq
    by (cases r)
      (auto simp: Let_def transaction_Inl transaction_Inr insert_event_Inr event_rows vulnerability_transition_def moved
        simp del: texts_kept split: if_splits)
qed (use assms in \<open>auto simp: transition_security_vulnerability_def ret_def\<close>)

lemma create_vulnerability_effect:
  assumes "create_security_vulnerability now nv db = (r, db')"
  shows "db_vulnerabilities db' = db_vulnerabilities db \<or>
     (vulnerability_is_initial (nv_state nv) \<and> db_vulnerabilities db' =
       db_vulnerabilities db @ [vulnerability_of_new (db_next_vulnerability db) nv (timestamp now)])"
proof (cases "vulnerability_is_initial (nv_state nv)")
  case True
  let ?P = "\<lambda>db'. db_vulnerabilities db' = db_vulnerabilities db \<or> db_vulnerabilities db' =
       db_vulnerabilities db @ [vulnerability_of_new (db_next_vulnerability db) nv (timestamp now)]"
  have "?P (snd (create_security_vulnerability now nv db))"
    unfolding create_security_vulnerability_def
    by (simp only: True not_True_eq_False if_False Let_def, rule transaction_preserves [where P = ?P])
      (simp, split if_split_asm, simp, drule read_back_Inr,
        auto simp: event_rows insert_event_Inr add_event_def simp del: texts_kept)
  with assms True show ?thesis by simp
qed (use assms in \<open>auto simp: create_security_vulnerability_def fail_def\<close>)

lemma replace_effect:
  assumes "replace_first_reporter now i old new at db = (r, db')"
  shows "db_vulnerabilities db' = db_vulnerabilities db \<or>
     db_vulnerabilities db' = update_where (replaceable db i old new (timestamp at))
       (\<lambda>v. v\<lparr>sv_first_report_id := new, sv_first_reported_at := timestamp at, sv_updated_at := timestamp now\<rparr>)
       (db_vulnerabilities db)"
proof (cases "new = old")
  case False
  let ?P = "\<lambda>db'. db_vulnerabilities db' = db_vulnerabilities db \<or>
     db_vulnerabilities db' = update_where (replaceable db i old new (timestamp at))
       (\<lambda>v. v\<lparr>sv_first_report_id := new, sv_first_reported_at := timestamp at, sv_updated_at := timestamp now\<rparr>)
       (db_vulnerabilities db)"
  have "?P (snd (replace_first_reporter now i old new at db))"
    unfolding replace_first_reporter_def
    by (simp only: False if_False, rule transaction_preserves [where P = ?P])
      (auto simp: Let_def event_rows insert_event_Inr add_event_def split: if_splits)
  with assms show ?thesis by simp
qed (use assms in \<open>auto simp: replace_first_reporter_def ret_def\<close>)

end
