(* ===== verification/Inbox_Invariants.thy ===== *)
theory Inbox_Invariants
  imports Inbox_Runs Security_Effects
begin

text \<open>
  The invariant of the security inbox: on top of the invariant of its store, no two vulnerabilities have the same
  first report, a live vulnerability is backed by a deployment answer or an admin, a merged one names its commit, a
  linked pull request is one of the repository, and only reports with an award are told of it. Routine calls keep it.
\<close>

section \<open>The invariant\<close>

fun is_live_answer :: "LiveStatus result \<Rightarrow> bool" where
  "is_live_answer (Inr (LiveStatus.Live versions)) \<longleftrightarrow> True"
| "is_live_answer _ \<longleftrightarrow> False"

text \<open>At some earlier tick the deployment answered that the commit is live in the repository.\<close>

definition seen_deployed :: "inbox_env \<Rightarrow> nat \<Rightarrow> string option \<Rightarrow> string option \<Rightarrow> bool" where
  "seen_deployed env ticks repository commit \<longleftrightarrow>
     (case (en_deployment env, repository, commit) of
        (Some d, Some r, Some c) \<Rightarrow> list_ex (\<lambda>t. is_live_answer (dp_commit_status d t r c)) [0..<ticks]
      | _ \<Rightarrow> False)"

text \<open>An admin confirmed that the vulnerability went live.\<close>

definition admin_live_event :: "int \<Rightarrow> event_row \<Rightarrow> bool" where
  "admin_live_event i e \<longleftrightarrow>
     se_vulnerability_id e = Some i \<and> se_kind e = event_kind_as_str SecurityEventKind.Live \<and> se_actor e \<noteq> None"

definition live_backed :: "inbox_env \<Rightarrow> nat \<Rightarrow> security_db \<Rightarrow> vulnerability_row \<Rightarrow> bool" where
  "live_backed env ticks db v \<longleftrightarrow>
     (if sv_state v = vulnerability_state_as_str VulnerabilityState.Live
      then seen_deployed env ticks (sv_repository v) (sv_merge_commit v) \<or>
           list_ex (admin_live_event (sv_id v)) (db_events db)
      else True)"

definition merge_named :: "vulnerability_row \<Rightarrow> bool" where
  "merge_named v \<longleftrightarrow>
     (if sv_state v = vulnerability_state_as_str VulnerabilityState.Merged then sv_merge_commit v \<noteq> None else True)"

definition pull_request_fits :: "string option \<Rightarrow> string option \<Rightarrow> bool" where
  "pull_request_fits repository url \<longleftrightarrow>
     (case url of
        None \<Rightarrow> True
      | Some u \<Rightarrow>
          (case pull_request_parse u of
             None \<Rightarrow> False
           | Some p \<Rightarrow> (case repository of None \<Rightarrow> True | Some r \<Rightarrow> pull_request_belongs_to p r)))"

definition vulnerability_fine :: "inbox_env \<Rightarrow> nat \<Rightarrow> security_db \<Rightarrow> vulnerability_row \<Rightarrow> bool" where
  "vulnerability_fine env ticks db v \<longleftrightarrow>
     live_backed env ticks db v \<and> merge_named v \<and> pull_request_fits (sv_repository v) (sv_pull_request_url v)"

definition has_award :: "security_db \<Rightarrow> int \<Rightarrow> bool" where
  "has_award db r \<longleftrightarrow> list_ex (\<lambda>a. sa_report_id a = r) (db_awards db)"

definition rewarded_ok :: "security_db \<Rightarrow> bool" where
  "rewarded_ok db \<longleftrightarrow>
     list_all (\<lambda>p. has_award db (sp_report_id p))
       (filter (\<lambda>p. sp_kind p = reply_kind_as_str SecurityReplyKind.FixLiveRewarded) (db_replies db))"

definition first_reports_distinct :: "security_db \<Rightarrow> bool" where
  "first_reports_distinct db \<longleftrightarrow> distinct (map sv_first_report_id (db_vulnerabilities db))"

definition inbox_ok :: "inbox_env \<Rightarrow> inbox \<Rightarrow> bool" where
  "inbox_ok env s \<longleftrightarrow>
     security_ok (ib_db s) \<and> first_reports_distinct (ib_db s) \<and>
     list_all (vulnerability_fine env (ib_ticks s) (ib_db s)) (db_vulnerabilities (ib_db s)) \<and>
     rewarded_ok (ib_db s)"

lemma start_inbox_ok: "inbox_ok env (start_inbox instants)"
  by (simp add: inbox_ok_def start_inbox_def empty_security_ok first_reports_distinct_def rewarded_ok_def)
    (simp add: empty_db_def)

section \<open>Monotonicity\<close>

lemma seen_deployed_mono: "seen_deployed env t r c \<Longrightarrow> t \<le> t' \<Longrightarrow> seen_deployed env t' r c"
  unfolding seen_deployed_def
  by (cases "en_deployment env"; cases r; cases c) (auto simp: list_ex_iff)

lemma fine_mono:
  assumes "vulnerability_fine env t db v" "t \<le> t'" "set (db_events db) \<subseteq> set (db_events db')"
  shows "vulnerability_fine env t' db' v"
  using assms seen_deployed_mono [of env t "sv_repository v" "sv_merge_commit v" t']
  unfolding vulnerability_fine_def live_backed_def
  by (auto simp: list_ex_iff simp del: texts_kept split: if_splits)

lemma has_award_grows: "grows db db' \<Longrightarrow> has_award db r \<Longrightarrow> has_award db' r"
  unfolding grows_def has_award_def list_ex_iff award_key_def by force

lemma inbox_ok_other [simp]:
  "inbox_ok env (s\<lparr>ib_pings := pings\<rparr>) \<longleftrightarrow> inbox_ok env s"
  "inbox_ok env (s\<lparr>ib_source_calls := calls\<rparr>) \<longleftrightarrow> inbox_ok env s"
  "inbox_ok env (s\<lparr>ib_outbox := mails\<rparr>) \<longleftrightarrow> inbox_ok env s"
  "inbox_ok env (send_mail m reply s) \<longleftrightarrow> inbox_ok env s"
  by (simp_all add: inbox_ok_def send_mail_def)

lemma inbox_ok_tick: "inbox_ok env s \<Longrightarrow> inbox_ok env (s\<lparr>ib_ticks := Suc (ib_ticks s)\<rparr>)"
  unfolding inbox_ok_def list_all_iff by (auto intro: fine_mono)

section \<open>Replies\<close>

lemma map_update_where_same: "(\<And>x. k (f x) = k x) \<Longrightarrow> map k (update_where p f xs) = map k xs"
  by (simp add: map_update_where)

fun claims :: "security_call \<Rightarrow> (int \<times> string) set" where
  "claims (Claim_reply now r k e) = {(r, reply_kind_as_str k)}"
| "claims _ = {}"

lemma claim_keys:
  "map reply_key (db_replies (snd (claim_security_reply now r k e db))) = map reply_key (db_replies db) \<or>
   map reply_key (db_replies (snd (claim_security_reply now r k e db))) =
     map reply_key (db_replies db) @ [(r, reply_kind_as_str k)]"
proof -
  let ?P = "\<lambda>db'. map reply_key (db_replies db') = map reply_key (db_replies db) \<or>
      map reply_key (db_replies db') = map reply_key (db_replies db) @ [(r, reply_kind_as_str k)]"
  have kept: "map reply_key (update_where p (\<lambda>r. r\<lparr>sp_status := st, sp_attempts := sp_attempts r + 1,
      sp_claimed_at := t, sp_completed_at := None\<rparr>) xs) = map reply_key xs" for p st t xs
    by (rule map_update_where_same) (simp add: reply_key_def)
  show ?thesis
    unfolding claim_security_reply_def
    by (rule transaction_preserves [where P = ?P])
      (auto simp: Let_def insert_event_Inr add_event_def kept insert_reply_def reply_key_def
        simp del: texts_kept reply_kind_as_str.simps split: if_splits option.splits)
qed

lemma completion_keys:
  "map reply_key (db_replies (snd (complete_security_reply now r k st err e tr db))) = map reply_key (db_replies db)"
  "map reply_key (db_replies (snd (confirm_security_reply now r k d actor db))) = map reply_key (db_replies db)"
proof -
  let ?P = "\<lambda>db'. map reply_key (db_replies db') = map reply_key (db_replies db)"
  have kept: "map reply_key (update_where p (\<lambda>r. r\<lparr>sp_status := st, sp_error := err,
      sp_completed_at := t\<rparr>) xs) = map reply_key xs" for p st err t xs
    by (rule map_update_where_same) (simp add: reply_key_def)
  have moved: "db_replies db2 = db_replies db1" if "move_report i t ch at db1 = Inr (b, db2)" for i t ch at db1 b db2
    using that by (auto simp: move_report_def update_in_state_def split: if_splits)
  show "?P (snd (complete_security_reply now r k st err e tr db))"
    unfolding complete_security_reply_def
    by (auto simp: Let_def fail_def insert_event_Inr add_event_def kept simp del: texts_kept reply_kind_as_str.simps
        intro!: transaction_preserves [where P = ?P] dest!: moved split: if_splits option.splits)
  show "?P (snd (confirm_security_reply now r k d actor db))"
    unfolding confirm_security_reply_def
    by (rule transaction_preserves [where P = ?P])
      (auto simp: Let_def insert_event_Inr add_event_def kept simp del: texts_kept reply_kind_as_str.simps
        split: if_splits prod.splits)
qed

lemma step_reply_keys:
  "reply_key ` set (db_replies (security_step c db)) \<subseteq> claims c \<union> reply_key ` set (db_replies db)"
proof -
  have "set (map reply_key (db_replies (security_step c db))) \<subseteq> claims c \<union> set (map reply_key (db_replies db))"
  proof (cases "Replies \<in> writes c")
    case True
    then show ?thesis
    proof (cases c)
      case (Claim_reply now r k e)
      then show ?thesis
        using claim_keys [of now r k e db] by (elim disjE) (simp_all del: set_map reply_kind_as_str.simps, blast)
    qed (simp_all add: completion_keys del: set_map)
  next
    case False
    then have "db_replies (security_step c db) = db_replies db" by (intro replies_frame.step) simp
    then show ?thesis by simp
  qed
  then show ?thesis by simp
qed

lemma rewarded_ok_keys:
  "rewarded_ok db \<longleftrightarrow>
     (\<forall>r. (r, reply_kind_as_str SecurityReplyKind.FixLiveRewarded) \<in> reply_key ` set (db_replies db) \<longrightarrow> has_award db r)"
proof
  assume ok: "rewarded_ok db"
  show "\<forall>r. (r, reply_kind_as_str SecurityReplyKind.FixLiveRewarded) \<in> reply_key ` set (db_replies db) \<longrightarrow> has_award db r"
    using ok unfolding rewarded_ok_def list_all_iff reply_key_def by (auto simp del: reply_kind_as_str.simps)
next
  assume keys: "\<forall>r. (r, reply_kind_as_str SecurityReplyKind.FixLiveRewarded) \<in> reply_key ` set (db_replies db) \<longrightarrow>
      has_award db r"
  show "rewarded_ok db"
    unfolding rewarded_ok_def list_all_iff
  proof
    fix p
    assume "p \<in> set (filter (\<lambda>p. sp_kind p = reply_kind_as_str SecurityReplyKind.FixLiveRewarded) (db_replies db))"
    then have "(sp_report_id p, reply_kind_as_str SecurityReplyKind.FixLiveRewarded) \<in> reply_key ` set (db_replies db)"
      unfolding reply_key_def by (intro image_eqI [of _ _ p]) auto
    with keys show "has_award db (sp_report_id p)" by blast
  qed
qed

lemma step_rewarded:
  assumes "security_ok db" "rewarded_ok db"
    and claim: "\<And>r. (r, reply_kind_as_str SecurityReplyKind.FixLiveRewarded) \<in> claims c \<Longrightarrow> has_award db r"
  shows "rewarded_ok (security_step c db)"
  using assms step_reply_keys [of c db] has_award_grows [OF step_grows [OF assms(1)]]
  unfolding rewarded_ok_keys by blast

section \<open>Calls\<close>

lemma call_ok:
  assumes ok: "inbox_ok env s"
    and rows: "\<And>v. v \<in> set (db_vulnerabilities (security_step c (ib_db s))) \<Longrightarrow>
      v \<notin> set (db_vulnerabilities (ib_db s)) \<Longrightarrow>
      vulnerability_fine env (ib_ticks s) (security_step c (ib_db s)) v"
    and first: "first_reports_distinct (security_step c (ib_db s))"
    and claim: "\<And>r. (r, reply_kind_as_str SecurityReplyKind.FixLiveRewarded) \<in> claims c \<Longrightarrow> has_award (ib_db s) r"
  shows "inbox_ok env (s\<lparr>ib_db := security_step c (ib_db s)\<rparr>)"
proof -
  let ?db = "security_step c (ib_db s)"
  have ok_db: "security_ok (ib_db s)" using ok by (simp add: inbox_ok_def)
  then have "set (db_events (ib_db s)) \<subseteq> set (db_events ?db)" using step_grows [of "ib_db s" c] by (simp add: grows_def)
  then have "vulnerability_fine env (ib_ticks s) ?db v" if "v \<in> set (db_vulnerabilities ?db)" for v
    using that ok rows [OF that] fine_mono [of env "ib_ticks s" "ib_db s" v "ib_ticks s" ?db]
    by (auto simp: inbox_ok_def list_all_iff)
  moreover have "rewarded_ok ?db"
    using ok by (intro step_rewarded ok_db claim) (simp_all add: inbox_ok_def)
  ultimately show ?thesis
    using ok_db first step_security_ok by (simp add: inbox_ok_def list_all_iff)
qed

lemma call_ok_elsewhere:
  assumes ok: "inbox_ok env s" and "Vulnerabilities \<notin> writes c"
    and claim: "\<And>r. (r, reply_kind_as_str SecurityReplyKind.FixLiveRewarded) \<in> claims c \<Longrightarrow> has_award (ib_db s) r"
  shows "inbox_ok env (s\<lparr>ib_db := security_step c (ib_db s)\<rparr>)"
proof -
  have "db_vulnerabilities (security_step c (ib_db s)) = db_vulnerabilities (ib_db s)"
    using assms(2) by (intro vulnerabilities_frame.step) simp
  then show ?thesis
    using ok by (intro call_ok [OF ok _ _ claim]) (simp_all add: inbox_ok_def first_reports_distinct_def)
qed

text \<open>Moving a vulnerability keeps the invariant when the rows it moves are fine afterwards.\<close>

lemma transition_ok:
  assumes ok: "inbox_ok env s"
    and rows: "\<And>v t. v \<in> set (db_vulnerabilities (ib_db s)) \<Longrightarrow> sv_id v = i \<Longrightarrow>
      sv_state v = vulnerability_state_as_str a \<Longrightarrow> vulnerability_fine env (ib_ticks s) (ib_db s) v \<Longrightarrow>
      vulnerability_fine env (ib_ticks s) (vulnerability_transition (timestamp now) i a b changes e (ib_db s))
        (moved_vulnerability b changes (timestamp now) v)"
  shows "inbox_ok env (s\<lparr>ib_db := security_step (Transition_vulnerability now i a b changes e) (ib_db s)\<rparr>)"
proof -
  let ?db = "ib_db s" and ?c = "Transition_vulnerability now i a b changes e"
  obtain r db' where m: "transition_security_vulnerability now i a b changes e ?db = (r, db')" by fastforce
  have db': "db' = (if r = Inr True then vulnerability_transition (timestamp now) i a b changes e ?db else ?db)"
    by (rule transition_vulnerability_effect [OF m])
  have step: "security_step ?c ?db = db'" using m by simp
  show ?thesis
  proof (cases "r = Inr True")
    case True
    then have moved: "security_step ?c ?db = vulnerability_transition (timestamp now) i a b changes e ?db"
      using step db' by simp
    show ?thesis
    proof (rule call_ok [OF ok])
      fix v
      assume v: "v \<in> set (db_vulnerabilities (security_step ?c ?db))" "v \<notin> set (db_vulnerabilities ?db)"
      then obtain w where w: "w \<in> set (db_vulnerabilities ?db)" "sv_id w = i"
          "sv_state w = vulnerability_state_as_str a" "v = moved_vulnerability b changes (timestamp now) w"
        unfolding moved vulnerability_transition_def
        by (auto simp: in_update_where in_state_def simp del: texts_kept split: if_splits)
      then show "vulnerability_fine env (ib_ticks s) (security_step ?c ?db) v"
        using ok rows [OF w(1-3)] unfolding moved by (simp add: inbox_ok_def list_all_iff)
    next
      have "map sv_first_report_id (db_vulnerabilities (security_step ?c ?db)) =
          map sv_first_report_id (db_vulnerabilities ?db)"
        unfolding moved vulnerability_transition_def by (simp add: map_update_where_same)
      then show "first_reports_distinct (security_step ?c ?db)"
        using ok by (simp add: inbox_ok_def first_reports_distinct_def)
    qed simp
  next
    case False
    then have "security_step ?c ?db = ?db" using step db' by simp
    then show ?thesis using ok by (simp del: security_step.simps)
  qed
qed

lemma transition_fine:
  assumes "vulnerability_fine env t db v" and "b \<noteq> VulnerabilityState.Live"
    and "b = VulnerabilityState.Merged \<Longrightarrow> coalesce (vc_merge_commit changes) (sv_merge_commit v) \<noteq> None"
    and "pull_request_fits (coalesce (vc_repository changes) (sv_repository v))
      (coalesce (vc_pull_request_url changes) (sv_pull_request_url v))"
  shows "vulnerability_fine env t' db' (moved_vulnerability b changes at v)"
proof -
  have "vulnerability_state_as_str b = vulnerability_state_as_str c \<longleftrightarrow> b = c" for c
    by (rule vulnerability_state.as_str_inject)
  then show ?thesis
    using assms
    by (auto simp: vulnerability_fine_def live_backed_def merge_named_def moved_vulnerability_assigns simp del: texts_kept)
qed

lemma coalesce_None [simp]: "coalesce None v = v"
  by (simp add: coalesce_def)

lemma fine_fits: "vulnerability_fine env t db v \<Longrightarrow> pull_request_fits (sv_repository v) (sv_pull_request_url v)"
  by (simp add: vulnerability_fine_def)

lemma routine_ok:
  assumes "inbox_ok env s" "routine_call c"
  shows "inbox_ok env (s\<lparr>ib_db := security_step c (ib_db s)\<rparr>)"
proof (cases "Vulnerabilities \<in> writes c")
  case True
  then obtain now i a e where c: "c = Transition_vulnerability now i a VulnerabilityState.NeedsHuman
      no_vulnerability_changes e"
    using assms(2) by (cases c) auto
  show ?thesis unfolding c
    by (rule transition_ok [OF assms(1)], rule transition_fine)
      (auto simp: no_vulnerability_changes_def dest: fine_fits)
next
  case False
  have "claims c \<subseteq> {(r, reply_kind_as_str k) | r k. \<not> is_fix_live k}"
    using assms(2) by (cases c) auto
  then have "(r, reply_kind_as_str SecurityReplyKind.FixLiveRewarded) \<notin> claims c" for r
    using reply_kind.as_str_inject by (fastforce simp: is_fix_live_def simp del: reply_kind_as_str.simps)
  with False show ?thesis by (intro call_ok_elsewhere assms(1)) auto
qed

interpretation keeping: routine_effects "\<lambda>s t. inbox_ok env s \<longrightarrow> inbox_ok env t" for env
  by unfold_locales (auto simp: inbox_ok_tick permits_def sends_def routine_ok simp del: security_step.simps)

end
