(* ===== verification/Inbox_Safety.thy ===== *)
theory Inbox_Safety
  imports Inbox_Invariants
begin

text \<open>
  The parts of the security inbox that are not routine keep its invariant: registration, the links of pull requests,
  the admin's word that a fix is live, and the steps of the sweep that find fixes merged and live. What was read of a
  vulnerability has to hold until it is acted on, which \<open>holding\<close> carries.
\<close>

section \<open>Rows that were read\<close>

lemma row_to_vulnerability_fields:
  "row_to_vulnerability r = Inr v \<Longrightarrow>
     sv_id v = sv_id r \<and> vulnerability_state_as_str (sv_state v) = sv_state r \<and>
     sv_first_report_id v = sv_first_report_id r \<and> sv_repository v = sv_repository r \<and>
     sv_pull_request_url v = sv_pull_request_url r \<and> sv_merge_commit v = sv_merge_commit r"
  by (auto simp: row_to_vulnerability_def vulnerability_state_from_str_Inr simp del: texts_kept)

lemma get_vulnerability_row:
  assumes "get_security_vulnerability i db = Inr (Some v)"
  obtains r where "r \<in> set (db_vulnerabilities db)" "sv_id r = i" "row_to_vulnerability r = Inr v"
  using assms
  by (auto simp: get_security_vulnerability_def query_vulnerability_def map_or_conversion_Inr
      dest: find_by_Some split: option.splits)

lemma collect_results_in:
  "collect_results (map f xs) = Inr ys \<Longrightarrow> y \<in> set ys \<Longrightarrow> \<exists>x \<in> set xs. f x = Inr y"
  by (induction xs arbitrary: ys) auto

lemma listed_vulnerability_row:
  assumes "list_security_vulnerabilities state db = Inr vs" "v \<in> set vs"
  obtains r where "r \<in> set (db_vulnerabilities db)" "row_to_vulnerability r = Inr v"
  using collect_results_in [OF assms(1) [unfolded list_security_vulnerabilities_def] assms(2)]
  by auto

lemma unique_vulnerability:
  "security_ok db \<Longrightarrow> r \<in> set (db_vulnerabilities db) \<Longrightarrow> r' \<in> set (db_vulnerabilities db) \<Longrightarrow> sv_id r = sv_id r' \<Longrightarrow>
     r = r'"
  unfolding security_ok_def keys_ok_def by (blast dest: keys_below_unique)

section \<open>What holds of all vulnerabilities\<close>

text \<open>A condition on the identifiers, the repository, the pull request and the commit of each vulnerability.\<close>

type_synonym row_condition = "int \<Rightarrow> int \<Rightarrow> string option \<Rightarrow> string option \<Rightarrow> string option \<Rightarrow> bool"

definition row_holds :: "row_condition \<Rightarrow> vulnerability_row \<Rightarrow> bool" where
  "row_holds Q r \<longleftrightarrow>
     Q (sv_id r) (sv_first_report_id r) (sv_repository r) (sv_pull_request_url r) (sv_merge_commit r)"

definition holding :: "inbox_env \<Rightarrow> row_condition \<Rightarrow> inbox \<Rightarrow> bool" where
  "holding env Q s \<longleftrightarrow> inbox_ok env s \<and> list_all (row_holds Q) (db_vulnerabilities (ib_db s))"

lemma holdingD:
  "holding env Q s \<Longrightarrow> inbox_ok env s"
  "holding env Q s \<Longrightarrow> r \<in> set (db_vulnerabilities (ib_db s)) \<Longrightarrow> row_holds Q r"
  by (simp_all add: holding_def list_all_iff)

lemma holding_tick: "holding env Q s \<Longrightarrow> holding env Q (s\<lparr>ib_ticks := Suc (ib_ticks s)\<rparr>)"
  by (simp add: holding_def inbox_ok_tick)

lemma holding_other [simp]:
  "holding env Q (s\<lparr>ib_pings := pings\<rparr>) \<longleftrightarrow> holding env Q s"
  "holding env Q (s\<lparr>ib_source_calls := calls\<rparr>) \<longleftrightarrow> holding env Q s"
  "holding env Q (send_mail m reply s) \<longleftrightarrow> holding env Q s"
  by (simp_all add: holding_def) (simp add: send_mail_def)

lemma transition_rows:
  assumes "v \<in> set (db_vulnerabilities (security_step (Transition_vulnerability now i a b changes e) db))"
  shows "v \<in> set (db_vulnerabilities db) \<or>
    (\<exists>w \<in> set (db_vulnerabilities db). sv_id w = i \<and> sv_state w = vulnerability_state_as_str a \<and>
       v = moved_vulnerability b changes (timestamp now) w)"
proof -
  obtain r db' where m: "transition_security_vulnerability now i a b changes e db = (r, db')" by fastforce
  show ?thesis
    using assms transition_vulnerability_effect [OF m]
    by (auto simp: m vulnerability_transition_def in_update_where in_state_def simp del: texts_kept split: if_splits)
qed

lemma transition_holding:
  assumes ok: "holding env Q s"
    and rows: "\<And>v. v \<in> set (db_vulnerabilities (ib_db s)) \<Longrightarrow> sv_id v = i \<Longrightarrow>
      sv_state v = vulnerability_state_as_str a \<Longrightarrow> vulnerability_fine env (ib_ticks s) (ib_db s) v \<Longrightarrow> row_holds Q v \<Longrightarrow>
      vulnerability_fine env (ib_ticks s) (vulnerability_transition (timestamp now) i a b changes e (ib_db s))
        (moved_vulnerability b changes (timestamp now) v) \<and>
      row_holds Q (moved_vulnerability b changes (timestamp now) v)"
  shows "holding env Q (s\<lparr>ib_db := security_step (Transition_vulnerability now i a b changes e) (ib_db s)\<rparr>)"
proof -
  let ?c = "Transition_vulnerability now i a b changes e"
  have fine: "vulnerability_fine env (ib_ticks s) (ib_db s) v" if "v \<in> set (db_vulnerabilities (ib_db s))" for v
    using ok that by (simp add: holding_def inbox_ok_def list_all_iff)
  have "inbox_ok env (s\<lparr>ib_db := security_step ?c (ib_db s)\<rparr>)"
    using rows fine holdingD [OF ok] by (intro transition_ok) blast+
  moreover have "row_holds Q v" if "v \<in> set (db_vulnerabilities (security_step ?c (ib_db s)))" for v
    using transition_rows [OF that] rows fine holdingD [OF ok] by blast
  ultimately show ?thesis by (simp add: holding_def list_all_iff del: security_step.simps)
qed

lemma routine_holding:
  assumes "holding env Q s" "routine_call c"
  shows "holding env Q (s\<lparr>ib_db := security_step c (ib_db s)\<rparr>)"
proof (cases "Vulnerabilities \<in> writes c")
  case True
  then obtain now i a e where c: "c = Transition_vulnerability now i a VulnerabilityState.NeedsHuman
      no_vulnerability_changes e"
    using assms(2) by (cases c) auto
  show ?thesis unfolding c
    by (rule transition_holding [OF assms(1)], rule conjI, rule transition_fine)
      (auto simp: no_vulnerability_changes_def row_holds_def moved_vulnerability_assigns dest: fine_fits)
next
  case False
  then have "db_vulnerabilities (security_step c (ib_db s)) = db_vulnerabilities (ib_db s)"
    by (intro vulnerabilities_frame.step) simp
  then show ?thesis
    using routine_ok [of env s c] assms by (simp add: holding_def del: security_step.simps)
qed

interpretation holding: routine_effects "\<lambda>s t. holding env Q s \<longrightarrow> holding env Q t" for env Q
  by unfold_locales (auto simp: holding_tick permits_def sends_def routine_holding simp del: security_step.simps)

section \<open>Bringing\<close>

lemma brings_store:
  assumes call: "\<And>now db. snd (m now db) = security_step (c now) db"
    and tick: "\<And>s. P s \<Longrightarrow> P (s\<lparr>ib_ticks := Suc (ib_ticks s)\<rparr>)"
    and step: "\<And>now s. P s \<Longrightarrow> Q (s\<lparr>ib_db := security_step (c now) (ib_db s)\<rparr>)"
  shows "brings P (store m) Q"
proof (rule bringsI)
  fix s :: inbox
  let ?t = "s\<lparr>ib_ticks := Suc (ib_ticks s)\<rparr>"
  assume "P s"
  then have "Q (?t\<lparr>ib_db := security_step (c (ib_clock s (ib_ticks s))) (ib_db ?t)\<rparr>)" by (intro step tick)
  then show "Q (snd (store m s))"
    using call [of "ib_clock s (ib_ticks s)" "ib_db s"]
    by (cases "m (ib_clock s (ib_ticks s)) (ib_db s)") (simp add: store_def bind_op_def clock_def ask_def on_db_def)
qed

lemma brings_holding: "along (\<lambda>s t. holding env Q s \<longrightarrow> holding env Q t) m \<Longrightarrow> brings (holding env Q) m (inbox_ok env)"
  by (auto simp: along_def brings_def dest: holdingD)

lemma brings_ok: "along (\<lambda>s t. inbox_ok env s \<longrightarrow> inbox_ok env t) m \<Longrightarrow> brings (inbox_ok env) m (inbox_ok env)"
  by (simp add: brings_along)

lemma brings_kept: "along (\<lambda>s t. inbox_ok env s \<longrightarrow> inbox_ok env t) m \<Longrightarrow> brings (holding env Q) m (inbox_ok env)"
  by (auto simp: along_def brings_def dest: holdingD)

section \<open>Registration\<close>

text \<open>No vulnerability has the report as its first.\<close>

definition unreported :: "int \<Rightarrow> row_condition" where
  "unreported i = (\<lambda>v first repository url commit. first \<noteq> i)"

lemma unreported_rows: "list_all (row_holds (unreported i)) rows \<longleftrightarrow> i \<notin> set (map sv_first_report_id rows)"
  by (auto simp: list_all_iff row_holds_def unreported_def)

lemma create_ok:
  assumes ok: "holding env (unreported (nv_first_report_id nv)) s"
    and named: "nv_state nv = VulnerabilityState.Merged \<Longrightarrow> nv_merge_commit nv \<noteq> None"
  shows "inbox_ok env (s\<lparr>ib_db := security_step (Create_vulnerability now nv) (ib_db s)\<rparr>)"
proof -
  let ?db = "ib_db s" and ?c = "Create_vulnerability now nv"
  let ?new = "vulnerability_of_new (db_next_vulnerability ?db) nv (timestamp now)"
  obtain r db' where m: "create_security_vulnerability now nv ?db = (r, db')" by fastforce
  then have step: "security_step ?c ?db = db'" by simp
  have fine: "vulnerability_fine env t db1 ?new" if "vulnerability_is_initial (nv_state nv)" for t db1
    using that named
    by (cases "nv_state nv")
      (auto simp: vulnerability_fine_def live_backed_def merge_named_def pull_request_fits_def vulnerability_of_new_def)
  show ?thesis
  proof (rule call_ok)
    show "inbox_ok env s" using ok by (rule holdingD)
    show "vulnerability_fine env (ib_ticks s) (security_step ?c ?db) v"
      if "v \<in> set (db_vulnerabilities (security_step ?c ?db))" "v \<notin> set (db_vulnerabilities ?db)" for v
      using that create_vulnerability_effect [OF m] fine unfolding step by auto
    show "first_reports_distinct (security_step ?c ?db)"
      using create_vulnerability_effect [OF m] ok unreported_rows unfolding step
      by (auto simp: holding_def inbox_ok_def first_reports_distinct_def vulnerability_of_new_def)
  qed simp
qed

lemma distinct_update_one:
  assumes "distinct (map k rows)" "x \<notin> set (map k rows)" "\<And>r. k (f r) = x"
    "\<And>r r'. r \<in> set rows \<Longrightarrow> r' \<in> set rows \<Longrightarrow> p r \<Longrightarrow> p r' \<Longrightarrow> r = r'"
  shows "distinct (map k (update_where p f rows))"
  using assms
proof (induction rows)
  case (Cons r rows)
  have IH: "distinct (map k (update_where p f rows))" using Cons by auto
  have "k ` set (update_where p f rows) \<subseteq> (if \<exists>r \<in> set rows. p r then {x} else {}) \<union> k ` set rows"
    using Cons.prems(3) by (auto simp: in_update_where split: if_splits)
  moreover have "\<not> (\<exists>r \<in> set rows. p r)" if "p r" using Cons.prems that by auto
  moreover have "update_where p f rows = rows" if "\<not> (\<exists>r \<in> set rows. p r)"
    using that by (intro update_where_id) auto
  ultimately show ?case
    using IH Cons.prems by (cases "p r") (auto simp: update_where_def split: if_splits)
qed simp

lemma replace_ok:
  assumes ok: "holding env (unreported new) s"
  shows "inbox_ok env (s\<lparr>ib_db := security_step (Replace_first_reporter now i old new at) (ib_db s)\<rparr>)"
proof -
  let ?db = "ib_db s" and ?c = "Replace_first_reporter now i old new at"
  obtain r db' where m: "replace_first_reporter now i old new at ?db = (r, db')" by fastforce
  then have step: "security_step ?c ?db = db'" by simp
  have ok_db: "inbox_ok env s" "security_ok ?db" "first_reports_distinct ?db"
    using ok by (simp_all add: holding_def inbox_ok_def)
  have events: "set (db_events ?db) \<subseteq> set (db_events db')"
    using step_grows [OF ok_db(2), of ?c] unfolding step grows_def by simp
  have fields: "vulnerability_fine env t db1 (v\<lparr>sv_first_report_id := x, sv_first_reported_at := y, sv_updated_at := z\<rparr>) \<longleftrightarrow>
      vulnerability_fine env t db1 v" for t db1 v x y z
    by (simp add: vulnerability_fine_def live_backed_def merge_named_def)
  show ?thesis
  proof (rule call_ok [OF ok_db(1)])
    fix v
    assume v: "v \<in> set (db_vulnerabilities (security_step ?c ?db))" "v \<notin> set (db_vulnerabilities ?db)"
    then obtain w where w: "w \<in> set (db_vulnerabilities ?db)"
        "v = w\<lparr>sv_first_report_id := new, sv_first_reported_at := timestamp at, sv_updated_at := timestamp now\<rparr>"
      using replace_effect [OF m] unfolding step by (auto simp: in_update_where split: if_splits)
    have "vulnerability_fine env (ib_ticks s) ?db w" using ok_db(1) w(1) by (simp add: inbox_ok_def list_all_iff)
    then have "vulnerability_fine env (ib_ticks s) db' w" by (rule fine_mono) (simp_all add: events)
    then show "vulnerability_fine env (ib_ticks s) (security_step ?c ?db) v" unfolding step w(2) fields .
  next
    have "distinct (map sv_first_report_id (update_where (replaceable ?db i old new (timestamp at))
        (\<lambda>v. v\<lparr>sv_first_report_id := new, sv_first_reported_at := timestamp at, sv_updated_at := timestamp now\<rparr>)
        (db_vulnerabilities ?db)))"
      using ok ok_db(3) unique_vulnerability [OF ok_db(2)]
      by (intro distinct_update_one [where x = new])
        (simp_all add: holding_def unreported_rows first_reports_distinct_def replaceable_def)
    then show "first_reports_distinct (security_step ?c ?db)"
      using replace_effect [OF m] ok_db(3) unfolding step first_reports_distinct_def by auto
  qed simp
qed

lemma link_tracking_ok: "along (\<lambda>s t. inbox_ok env s \<longrightarrow> inbox_ok env t) (link_tracking valid v kind)"
  unfolding link_tracking_def by (intro keeping.reading keeping.report_moves) simp

lemma link_as_duplicate_ok: "along (\<lambda>s t. inbox_ok env s \<longrightarrow> inbox_ok env t) (link_as_duplicate valid v)"
  unfolding link_as_duplicate_def by (intro keeping.reading keeping.report_moves) simp

lemma try_replace_ok:
  "brings (holding env (unreported (sr_id (vr_report valid)))) (try_replace valid v decision) (inbox_ok env)"
proof (cases "decision = FirstReporterDecision.Replace")
  case True
  have "brings (holding env (unreported (sr_id (vr_report valid))))
      (store (\<lambda>now. replace_first_reporter now i old (sr_id (vr_report valid)) at)) (inbox_ok env)" for i old at
    by (rule brings_store [where c = "\<lambda>now. Replace_first_reporter now i old (sr_id (vr_report valid)) at"])
      (simp_all add: holding_tick replace_ok del: security_step.simps, simp)
  then show ?thesis using True by (simp add: try_replace_def)
qed (auto simp: try_replace_def intro: brings_ret holdingD)

lemma link_duplicate_ok:
  "brings (holding env (unreported (sr_id (vr_report valid)))) (link_duplicate valid v) (inbox_ok env)"
proof -
  let ?P = "holding env (unreported (sr_id (vr_report valid)))"
  have after_replacing: "brings (inbox_ok env) (if replaced
      then bind_op (query (get_security_vulnerability (sv_id v))) (\<lambda>found.
        link_tracking valid (case found of Some v \<Rightarrow> v | None \<Rightarrow> v) RegistrationKind.Replaced)
      else link_as_duplicate valid v) (inbox_ok env)" for replaced
    by (intro brings_ok keeping.reading link_tracking_ok link_as_duplicate_ok)
  show ?thesis
    unfolding link_duplicate_def Let_def
    by (rule brings_bind [where P' = ?P, OF brings_along [THEN iffD1, OF holding.query]],
        rule brings_bind [OF try_replace_ok after_replacing])
      (auto dest: holdingD)
qed

lemma register_new_ok:
  "brings (holding env (unreported (sr_id (vr_report valid)))) (register_new env valid) (inbox_ok env)"
proof -
  let ?P = "holding env (unreported (sr_id (vr_report valid)))"
  have embedding: "brings ?P (embedding_of env a) ?P" for a
    unfolding brings_along [symmetric] embedding_of_def by (intro holding.reading)
  have judge: "brings ?P (judge env a cs) ?P" for a cs
    unfolding brings_along [symmetric] judge_def Let_def by (intro holding.reading holding.tempdir holding.ask_agent)
  have query: "brings ?P (query q) ?P" for q :: "security_db \<Rightarrow> 'b result"
    by (rule brings_along [THEN iffD1, OF holding.query])
  have create: "brings ?P (store (\<lambda>now. create_security_vulnerability now (new_vulnerability valid e))) (inbox_ok env)" for e
  proof (rule brings_store [where c = "\<lambda>now. Create_vulnerability now (new_vulnerability valid e)"])
    show "inbox_ok env (s\<lparr>ib_db := security_step (Create_vulnerability now (new_vulnerability valid e)) (ib_db s)\<rparr>)"
      if "?P s" for now s
      using that by (intro create_ok) (auto simp: new_vulnerability_def split: if_splits)
  qed (simp_all add: holding_tick)
  have known: "brings ?P (case found of
        None \<Rightarrow> fail (error.Other ''duplicate vulnerability disappeared'')
      | Some v \<Rightarrow> link_duplicate valid v) (inbox_ok env)" for found
    by (cases found) (auto simp: link_duplicate_ok intro!: brings_kept keeping.reading)
  have new: "brings ?P (case matched of
      Some i \<Rightarrow> bind_op (query (get_security_vulnerability i)) (\<lambda>found.
        case found of
          None \<Rightarrow> fail (error.Other ''duplicate vulnerability disappeared'')
        | Some v \<Rightarrow> link_duplicate valid v)
    | None \<Rightarrow> bind_op (store (\<lambda>now. create_security_vulnerability now (new_vulnerability valid e))) (\<lambda>v.
        link_tracking valid v RegistrationKind.Created)) (inbox_ok env)" for matched e
    by (cases matched)
      (auto intro!: brings_bind [OF query known] brings_bind [OF create brings_ok [OF link_tracking_ok]] dest: holdingD)
  show ?thesis
    unfolding register_new_def
    by (rule brings_bind [OF embedding], rule brings_bind [OF query], rule brings_bind [OF judge new])
      (auto dest: holdingD)
qed

lemma register_ok: "along (\<lambda>s t. inbox_ok env s \<longrightarrow> inbox_ok env t) (register env valid)"
proof -
  let ?i = "sr_id (vr_report valid)"
  have unreported: "holding env (unreported ?i) s"
    if "inbox_ok env s" "find_security_vulnerability_by_first_report ?i (ib_db s) = Inr None" for s
  proof -
    have "order_asc sv_id (filter (\<lambda>v. sv_first_report_id v = ?i) (db_vulnerabilities (ib_db s))) = []"
      using that(2) by (auto simp: find_security_vulnerability_by_first_report_def split: list.splits)
    then have "set (filter (\<lambda>v. sv_first_report_id v = ?i) (db_vulnerabilities (ib_db s))) = {}"
      by (metis set_order_asc list.set(1))
    then show ?thesis using that(1) by (auto simp: holding_def list_all_iff row_holds_def unreported_def)
  qed
  have linked: "brings (holding env (unreported ?i)) (case linked of
      Some v \<Rightarrow> link_tracking valid v RegistrationKind.Relinked | None \<Rightarrow> register_new env valid) (inbox_ok env)" for linked
    by (cases linked) (auto simp: register_new_ok brings_kept link_tracking_ok)
  have "brings (holding env (unreported ?i)) (linked_vulnerability r) (holding env (unreported ?i))" for r
    unfolding brings_along [symmetric] linked_vulnerability_def by (intro holding.reading)
  then have fresh: "brings (holding env (unreported ?i)) (bind_op (linked_vulnerability (vr_report valid)) (\<lambda>linked.
      case linked of
        Some v \<Rightarrow> link_tracking valid v RegistrationKind.Relinked
      | None \<Rightarrow> register_new env valid)) (inbox_ok env)"
    by (rule brings_bind [OF _ linked]) (auto dest: holdingD)
  show ?thesis
    unfolding register_def brings_along
  proof (rule brings_query)
    fix existing
    show "brings (\<lambda>s. inbox_ok env s \<and> find_security_vulnerability_by_first_report ?i (ib_db s) = Inr existing)
        (case existing of
           Some v \<Rightarrow> link_tracking valid v RegistrationKind.Adopted
         | None \<Rightarrow> bind_op (linked_vulnerability (vr_report valid)) (\<lambda>linked.
             case linked of
               Some v \<Rightarrow> link_tracking valid v RegistrationKind.Relinked
             | None \<Rightarrow> register_new env valid)) (inbox_ok env)"
    proof (cases existing)
      case None
      then show ?thesis by (simp only: option.case) (rule brings_weaken [OF fresh], simp_all add: unreported)
    next
      case (Some v)
      then show ?thesis by (simp only: option.case) (rule brings_weaken [OF brings_ok [OF link_tracking_ok]], simp_all)
    qed
  qed
qed

section \<open>Received reports\<close>

lemma received_ok: "along (\<lambda>s t. inbox_ok env s \<longrightarrow> inbox_ok env t) (route_received env issue resolution report)"
proof (rule keeping.received [OF register_ok])
  show "permits (\<lambda>s t. inbox_ok env s \<longrightarrow> inbox_ok env t) (Transition_report now i SecurityReportState.Received
      SecurityReportState.Assessing no_report_changes e)" for now i e
    by (auto simp: permits_def simp del: security_step.simps intro!: call_ok_elsewhere)
qed

section \<open>Pull requests\<close>

text \<open>The pull request is one of the repository the vulnerability will have.\<close>

definition fits_at :: "int \<Rightarrow> string option \<Rightarrow> string \<Rightarrow> row_condition" where
  "fits_at i named url =
     (\<lambda>v first repository linked commit. if v = i then pull_request_fits (coalesce named repository) (Some url) else True)"

lemma link_transition_ok:
  assumes "vc_repository changes = named" "vc_pull_request_url changes = Some url"
  shows "brings (holding env (fits_at i named url))
    (store (\<lambda>now. transition_security_vulnerability now i a VulnerabilityState.Fixing changes e))
    (holding env (fits_at i named url))"
proof (rule brings_store [where c = "\<lambda>now. Transition_vulnerability now i a VulnerabilityState.Fixing changes e"])
  fix now s
  assume "holding env (fits_at i named url) s"
  then show "holding env (fits_at i named url) (s\<lparr>ib_db :=
      security_step (Transition_vulnerability now i a VulnerabilityState.Fixing changes e) (ib_db s)\<rparr>)"
  proof (rule transition_holding)
    fix v
    assume v: "sv_id v = i" "vulnerability_fine env (ib_ticks s) (ib_db s) v" "row_holds (fits_at i named url) v"
    then have "vulnerability_fine env (ib_ticks s) (vulnerability_transition (timestamp now) i a
        VulnerabilityState.Fixing changes e (ib_db s)) (moved_vulnerability VulnerabilityState.Fixing changes (timestamp now) v)"
      by (intro transition_fine [OF v(2)])
        (auto simp: assms row_holds_def fits_at_def coalesce_def split: option.splits)
    moreover have "row_holds (fits_at i named url) (moved_vulnerability VulnerabilityState.Fixing changes (timestamp now) v)"
      using v by (cases named) (auto simp: assms row_holds_def fits_at_def moved_vulnerability_assigns coalesce_def)
    ultimately show "vulnerability_fine env (ib_ticks s) (vulnerability_transition (timestamp now) i a
        VulnerabilityState.Fixing changes e (ib_db s)) (moved_vulnerability VulnerabilityState.Fixing changes (timestamp now) v) \<and>
      row_holds (fits_at i named url) (moved_vulnerability VulnerabilityState.Fixing changes (timestamp now) v)" ..
  qed
qed (simp_all add: holding_tick)

lemma linkable_fits:
  assumes "get_security_vulnerability i (ib_db s) = Inr (Some v)" "linkable_pull_request v url = Inr p" "inbox_ok env s"
  shows "holding env (fits_at i (if sv_repository v = None then Some (pull_request_repository p) else None) url) s"
    and "holding env (fits_at i None url) s"
proof -
  obtain r where r: "r \<in> set (db_vulnerabilities (ib_db s))" "sv_id r = i" "row_to_vulnerability r = Inr v"
    using assms(1) by (rule get_vulnerability_row)
  have only: "r' = r" if "r' \<in> set (db_vulnerabilities (ib_db s))" "sv_id r' = i" for r'
    using unique_vulnerability [OF _ that(1) r(1)] that(2) r(2) assms(3) by (simp add: inbox_ok_def)
  have same: "sv_repository r = sv_repository v" using row_to_vulnerability_fields [OF r(3)] by simp
  have belongs: "pull_request_belongs_to p (pull_request_repository p)"
    by (simp add: pull_request_belongs_to_def eq_ignore_ascii_case_def)
  show "holding env (fits_at i None url) s"
    and "holding env (fits_at i (if sv_repository v = None then Some (pull_request_repository p) else None) url) s"
    using assms(2,3) same belongs
    by (auto simp: holding_def list_all_iff row_holds_def fits_at_def pull_request_fits_def linkable_pull_request_def
        coalesce_def split: option.splits if_splits dest!: only)
qed

lemma link_fix_ok: "along (\<lambda>s t. inbox_ok env s \<longrightarrow> inbox_ok env t) (link_fix i attempt_id url)"
proof -
  have moves: "brings (holding env (fits_at i named url)) (first_transition i VulnerabilityState.Fixing changes e expected)
      (holding env (fits_at i named url))"
    if "vc_repository changes = named" "vc_pull_request_url changes = Some url" for named changes e expected
  proof (induction expected)
    case (Cons a expected)
    then show ?case
      by (auto intro!: brings_bind [OF link_transition_ok [OF that]] brings_if brings_ret)
  qed (simp add: brings_ret)
  show ?thesis
    unfolding link_fix_def brings_along
  proof (rule brings_query)
    fix found
    let ?P = "\<lambda>s. inbox_ok env s \<and> get_security_vulnerability i (ib_db s) = Inr found"
    show "brings ?P (case found of
        None \<Rightarrow> fail (error.Other (''unknown vulnerability '' @ show_int i))
      | Some v \<Rightarrow>
          bind_op (of_result (linkable_pull_request v url)) (\<lambda>pull_request.
          bind_op (first_transition i VulnerabilityState.Fixing
            (no_vulnerability_changes
              \<lparr>vc_repository := (if sv_repository v = None then Some (pull_request_repository pull_request) else None),
               vc_fix_attempt_id := attempt_id, vc_pull_request_url := Some url\<rparr>)
            (with_detail (JObj [(''attempt_id'', json_opt JInt attempt_id), (''pull_request_url'', JStr url)])
              (new_event SecurityEventKind.PullRequestOpened))
            [VulnerabilityState.AwaitingFix, VulnerabilityState.NeedsHuman]) (\<lambda>moved. ret ()))) (inbox_ok env)"
    proof (cases found)
      case (Some v)
      have linked: "brings (holding env (fits_at i (if sv_repository v = None then Some (pull_request_repository p) else None) url))
          (bind_op (first_transition i VulnerabilityState.Fixing
            (no_vulnerability_changes
              \<lparr>vc_repository := (if sv_repository v = None then Some (pull_request_repository p) else None),
               vc_fix_attempt_id := attempt_id, vc_pull_request_url := Some url\<rparr>) e expected)
            (\<lambda>moved. ret ())) (inbox_ok env)" for p e expected
        by (rule brings_bind [OF moves brings_ret]) (auto dest: holdingD)
      show ?thesis
        unfolding Some option.case
        by (rule brings_bind_result [OF _ linked], unfold after_of_result)
          (split sum.split, intro conjI allI impI, simp, blast intro: linkable_fits(1))
    qed (auto simp: brings_def fail_def)
  qed
qed

section \<open>Admins\<close>

lemma transition_vulnerability_brings:
  assumes moves: "\<And>a. brings P (store (\<lambda>now. transition_security_vulnerability now i a b changes e)) P'"
    and "\<And>s. P s \<Longrightarrow> Q s" "\<And>s. P' s \<Longrightarrow> Q s"
  shows "brings P (transition_vulnerability i allowed b changes e) Q"
proof -
  have answered: "brings P' (if \<not> moved then answer (Inl Conflict)
      else try_op (query (get_security_vulnerability i)) (\<lambda>v. answer (ok_or Not_found v))) Q" for moved
    using assms(3) by (auto intro!: brings_if brings_answer brings_try_query)
  have "brings (\<lambda>s. P s \<and> get_security_vulnerability i (ib_db s) = Inr found) (case found of
         None \<Rightarrow> answer (Inl Not_found)
       | Some v \<Rightarrow>
           if sv_state v \<notin> set allowed then answer (Inl Conflict)
           else try_op (store (\<lambda>now. transition_security_vulnerability now i (sv_state v) b changes e)) (\<lambda>moved.
             if \<not> moved then answer (Inl Conflict)
             else try_op (query (get_security_vulnerability i)) (\<lambda>v. answer (ok_or Not_found v)))) Q" for found
    by (cases found)
      (auto intro!: brings_if brings_answer brings_weaken [OF brings_try [OF moves answered assms(3)]]
        dest: assms(2))
  then show ?thesis
    unfolding transition_vulnerability_def by (rule brings_try_query) (rule assms(2))
qed

lemma pull_request_handler_ok: "along (\<lambda>s t. inbox_ok env s \<longrightarrow> inbox_ok env t) (pull_request_handler admin i raw_url)"
proof -
  let ?url = "trim raw_url"
  have linked: "brings (holding env (fits_at i None ?url))
      (transition_vulnerability i linkable_states VulnerabilityState.Fixing
        (no_vulnerability_changes\<lparr>vc_pull_request_url := Some ?url\<rparr>) e) (inbox_ok env)" for e
    by (rule transition_vulnerability_brings [OF link_transition_ok])
      (auto simp: no_vulnerability_changes_def dest: holdingD)
  show ?thesis
    unfolding pull_request_handler_def Let_def brings_along
  proof (rule brings_try_query)
    fix found
    let ?P = "\<lambda>s. inbox_ok env s \<and> get_security_vulnerability i (ib_db s) = Inr found"
    show "brings ?P (case found of
        None \<Rightarrow> answer (Inl Not_found)
      | Some v \<Rightarrow>
          (case linkable_pull_request v ?url of
             Inl e \<Rightarrow> answer (Inl Bad_request)
           | Inr p \<Rightarrow>
               transition_vulnerability i linkable_states VulnerabilityState.Fixing
                 (no_vulnerability_changes\<lparr>vc_pull_request_url := Some ?url\<rparr>)
                 (with_detail (JObj [(''pull_request_url'', JStr ?url)])
                   (with_actor admin (new_event SecurityEventKind.PullRequestLinked))))) (inbox_ok env)"
    proof (cases found)
      case (Some v)
      show ?thesis
      proof (cases "linkable_pull_request v ?url")
        case (Inr p)
        then show ?thesis
          by (simp only: Some option.case sum.case) (rule brings_weaken [OF linked], auto intro: linkable_fits(2))
      qed (auto simp: Some intro: brings_answer)
    qed (auto intro: brings_answer)
  qed
qed

text \<open>An admin's word that the fix is live is the event it is recorded in.\<close>

lemma admin_live_ok:
  assumes "vc_repository changes = None" "vc_pull_request_url changes = None" "vc_merge_commit changes = None"
    and "ne_kind e = SecurityEventKind.Live" "ne_actor e \<noteq> None"
  shows "brings (inbox_ok env)
    (store (\<lambda>now. transition_security_vulnerability now i a VulnerabilityState.Live changes e)) (inbox_ok env)"
proof (rule brings_store [where c = "\<lambda>now. Transition_vulnerability now i a VulnerabilityState.Live changes e"])
  fix now s
  assume "inbox_ok env s"
  then show "inbox_ok env (s\<lparr>ib_db := security_step (Transition_vulnerability now i a VulnerabilityState.Live changes e) (ib_db s)\<rparr>)"
  proof (rule transition_ok)
    fix v
    assume v: "sv_id v = i" "vulnerability_fine env (ib_ticks s) (ib_db s) v"
    have "list_ex (admin_live_event i) (db_events (vulnerability_transition (timestamp now) i a VulnerabilityState.Live changes e
        (ib_db s)))"
      using assms(4,5)
      by (simp add: vulnerability_transition_def add_event_def list_ex_iff admin_live_event_def event_of_def event_rows)
    then show "vulnerability_fine env (ib_ticks s) (vulnerability_transition (timestamp now) i a VulnerabilityState.Live changes e
        (ib_db s)) (moved_vulnerability VulnerabilityState.Live changes (timestamp now) v)"
      using v assms fine_fits [OF v(2)]
      by (auto simp: vulnerability_fine_def live_backed_def merge_named_def moved_vulnerability_assigns)
  qed
qed (simp_all add: inbox_ok_tick)

lemma live_handler_ok: "along (\<lambda>s t. inbox_ok env s \<longrightarrow> inbox_ok env t) (live_handler admin i version)"
proof -
  have clock: "brings (inbox_ok env) clock (inbox_ok env)"
    by (rule brings_along [THEN iffD1, OF keeping.clock])
  have moved: "brings (inbox_ok env) (transition_vulnerability i live_source_states VulnerabilityState.Live
      (no_vulnerability_changes\<lparr>vc_deployed_version := Some d, vc_live_at := Some live_at\<rparr>)
      (with_detail detail (with_actor admin (new_event SecurityEventKind.Live)))) (inbox_ok env)" for d live_at detail
    by (rule transition_vulnerability_brings [OF admin_live_ok])
      (simp_all add: no_vulnerability_changes_def with_detail_def with_actor_def new_event_def)
  show ?thesis
    unfolding live_handler_def Let_def brings_along
    by (intro brings_if brings_answer brings_try [OF clock moved])
qed

section \<open>Merged fixes\<close>

lemma swept_sweeps: "along (\<lambda>s t. P (sw_inbox s) \<longrightarrow> P (sw_inbox t)) m \<longleftrightarrow> sweeps P m P"
  by (simp add: sweeps_def brings_def along_def)

text \<open>The vulnerabilities still have the pull requests they were listed with.\<close>

definition urls_of :: "security_vulnerability list \<Rightarrow> row_condition" where
  "urls_of vs = (\<lambda>i first repository url commit. \<forall>v \<in> set vs. sv_id v = i \<longrightarrow> url = sv_pull_request_url v)"

lemma deployment_check_ok:
  "along (\<lambda>s t. holding env Q s \<longrightarrow> holding env Q t) (deployment_check_failed env' v err)"
proof -
  have "permits (\<lambda>s t. holding env Q s \<longrightarrow> holding env Q t) (Record_event now r i e)" for now r i e
    unfolding permits_def
  proof (intro allI impI)
    fix s
    assume "holding env Q s"
    moreover have "db_vulnerabilities (security_step (Record_event now r i e) (ib_db s)) = db_vulnerabilities (ib_db s)"
      by (rule vulnerabilities_frame.step) simp
    ultimately show "holding env Q (s\<lparr>ib_db := security_step (Record_event now r i e) (ib_db s)\<rparr>)"
      by (auto simp: holding_def simp del: security_step.simps intro!: call_ok_elsewhere)
  qed
  note recorded = this
  show ?thesis
    unfolding deployment_check_failed_def recent_check_def by (intro holding.reading holding.stores recorded)
qed

lemma mark_merged_ok:
  assumes v: "v \<in> set vs" "sv_pull_request_url v = Some url" "linkable_pull_request v url = Inr p"
    and merged: "ps_merge_commit_sha state \<noteq> None"
  shows "sweeps (holding env (urls_of vs))
    (mark_merged_fix env' deployment v url (pull_request_repository p) state) (holding env (urls_of vs))"
proof -
  have parsed: "pull_request_parse url = Some p"
    using v(3) by (auto simp: linkable_pull_request_def split: option.splits if_splits)
  have moved: "brings (holding env (urls_of vs)) (store (\<lambda>now. transition_security_vulnerability now (sv_id v)
      VulnerabilityState.Fixing VulnerabilityState.Merged
      (no_vulnerability_changes\<lparr>vc_repository := Some (pull_request_repository p),
         vc_merge_commit := ps_merge_commit_sha state, vc_merged_at := at\<rparr>) e)) (holding env (urls_of vs))" for at e
  proof (rule brings_store [where c = "\<lambda>now. Transition_vulnerability now (sv_id v) VulnerabilityState.Fixing
      VulnerabilityState.Merged (no_vulnerability_changes\<lparr>vc_repository := Some (pull_request_repository p),
         vc_merge_commit := ps_merge_commit_sha state, vc_merged_at := at\<rparr>) e"])
    fix now s
    let ?changes = "no_vulnerability_changes\<lparr>vc_repository := Some (pull_request_repository p),
         vc_merge_commit := ps_merge_commit_sha state, vc_merged_at := at\<rparr>"
    assume "holding env (urls_of vs) s"
    then show "holding env (urls_of vs) (s\<lparr>ib_db := security_step (Transition_vulnerability now (sv_id v)
        VulnerabilityState.Fixing VulnerabilityState.Merged ?changes e) (ib_db s)\<rparr>)"
    proof (rule transition_holding)
      fix r
      assume r: "sv_id r = sv_id v" "vulnerability_fine env (ib_ticks s) (ib_db s) r" "row_holds (urls_of vs) r"
      then have "sv_pull_request_url r = Some url" using v(1,2) by (auto simp: row_holds_def urls_of_def)
      then show "vulnerability_fine env (ib_ticks s) (vulnerability_transition (timestamp now) (sv_id v)
          VulnerabilityState.Fixing VulnerabilityState.Merged ?changes e (ib_db s))
          (moved_vulnerability VulnerabilityState.Merged ?changes (timestamp now) r) \<and>
        row_holds (urls_of vs) (moved_vulnerability VulnerabilityState.Merged ?changes (timestamp now) r)"
        using r merged parsed
        by (intro conjI transition_fine [OF r(2)])
          (auto simp: no_vulnerability_changes_def row_holds_def urls_of_def moved_vulnerability_assigns coalesce_def
            pull_request_fits_def pull_request_belongs_to_def eq_ignore_ascii_case_def)
    qed
  qed (simp_all add: holding_tick)
  then have moved_on: "along (\<lambda>s t. holding env (urls_of vs) s \<longrightarrow> holding env (urls_of vs) t)
      (store (\<lambda>now. transition_security_vulnerability now (sv_id v)
      VulnerabilityState.Fixing VulnerabilityState.Merged
      (no_vulnerability_changes\<lparr>vc_repository := Some (pull_request_repository p),
         vc_merge_commit := ps_merge_commit_sha state, vc_merged_at := at\<rparr>) e))" for at e
    by (simp add: brings_along)
  show ?thesis
    unfolding swept_sweeps [symmetric] mark_merged_fix_def merged_at_or_now_def
    by (intro holding.sweeping holding.reading holding.bump_required moved_on)
qed

lemma advance_fixing_vulnerability_ok:
  assumes "v \<in> set vs"
  shows "sweeps (holding env (urls_of vs)) (advance_fixing_vulnerability env v) (holding env (urls_of vs))"
proof -
  let ?R = "\<lambda>s t. holding env (urls_of vs) (sw_inbox s) \<longrightarrow> holding env (urls_of vs) (sw_inbox t)"
  have answered: "along ?R (case answer of
      Inr (Some state) \<Rightarrow>
        if ps_merged state \<and> ps_merge_commit_sha state = None
        then escalate_counted env (sv_id v) VulnerabilityState.Fixing ReviewReason.MissingMergeCommit
        else if ps_merged state then mark_merged_fix env deployment v url (pull_request_repository p) state
        else if ps_closed state
        then escalate_counted env (sv_id v) VulnerabilityState.Fixing ReviewReason.PullRequestClosed
        else ret ()
    | Inr None \<Rightarrow> on_inbox (deployment_check_failed env v ''pull request not found'')
    | Inl e \<Rightarrow> on_inbox (deployment_check_failed env v (error_text (en_db_text env) e)))"
    if "sv_pull_request_url v = Some url" "linkable_pull_request v url = Inr p" for answer deployment url p
    using mark_merged_ok [OF assms that]
    by (cases answer)
      (auto simp: swept_sweeps [symmetric] intro!: holding.sweeping holding.escalate_counted deployment_check_ok
        split: option.split)
  have known: "along ?R (case (en_deployment env, sv_pull_request_url v) of
           (Some deployment, Some url) \<Rightarrow>
             (case linkable_pull_request v url of
                Inl e \<Rightarrow> escalate_counted env (sv_id v) VulnerabilityState.Fixing ReviewReason.InvalidPullRequest
              | Inr pull_request \<Rightarrow>
                  bind_op (on_inbox (ask (\<lambda>t. dp_pull_request deployment t (pull_request_repository pull_request)
                      (pr_number pull_request))))
                     (\<lambda>answer.
                     case answer of
                       Inr (Some state) \<Rightarrow>
                         if ps_merged state \<and> ps_merge_commit_sha state = None
                         then escalate_counted env (sv_id v) VulnerabilityState.Fixing ReviewReason.MissingMergeCommit
                         else if ps_merged state
                         then mark_merged_fix env deployment v url (pull_request_repository pull_request) state
                         else if ps_closed state
                         then escalate_counted env (sv_id v) VulnerabilityState.Fixing ReviewReason.PullRequestClosed
                         else ret ()
                     | Inr None \<Rightarrow> on_inbox (deployment_check_failed env v ''pull request not found'')
                     | Inl e \<Rightarrow> on_inbox (deployment_check_failed env v (error_text (en_db_text env) e))))
         | _ \<Rightarrow> ret ())"
    by (cases "en_deployment env"; cases "sv_pull_request_url v";
        cases "linkable_pull_request v (the (sv_pull_request_url v))")
      (auto intro!: holding.sweeping holding.escalate_counted holding.ask answered)
  show ?thesis
    unfolding swept_sweeps [symmetric] advance_fixing_vulnerability_def Let_def
    by (intro holding.sweeping holding.fix_attempt holding.escalate_counted known)
qed

lemma listed_urls:
  assumes "inbox_ok env s" "list_security_vulnerabilities state (ib_db s) = Inr vs"
  shows "holding env (urls_of vs) s"
proof -
  have "sv_pull_request_url r = sv_pull_request_url v"
    if r: "r \<in> set (db_vulnerabilities (ib_db s))" and v: "v \<in> set vs" "sv_id v = sv_id r" for r v
  proof -
    obtain r' where "r' \<in> set (db_vulnerabilities (ib_db s))" "row_to_vulnerability r' = Inr v"
      using listed_vulnerability_row [OF assms(2) v(1)] .
    then show ?thesis
      using row_to_vulnerability_fields unique_vulnerability [OF _ r] v(2) assms(1) by (metis inbox_ok_def)
  qed
  then show ?thesis using assms(1) by (auto simp: holding_def list_all_iff row_holds_def urls_of_def)
qed

lemma advance_fixing_ok: "along (\<lambda>s t. inbox_ok env (sw_inbox s) \<longrightarrow> inbox_ok env (sw_inbox t)) (advance_fixing env)"
  unfolding swept_sweeps advance_fixing_def
  by (rule sweeps_each [where J = "\<lambda>vs. holding env (urls_of vs)"])
    (auto intro: listed_urls advance_fixing_vulnerability_ok holdingD)

section \<open>Live fixes\<close>

text \<open>The vulnerabilities still have the repositories and commits they were listed with.\<close>

definition commits_of :: "security_vulnerability list \<Rightarrow> row_condition" where
  "commits_of vs =
     (\<lambda>i first repository url commit.
        \<forall>v \<in> set vs. sv_id v = i \<longrightarrow> repository = sv_repository v \<and> commit = sv_merge_commit v)"

lemma listed_commits:
  assumes "inbox_ok env s" "list_security_vulnerabilities state (ib_db s) = Inr vs"
  shows "holding env (commits_of vs) s"
proof -
  have "sv_repository r = sv_repository v \<and> sv_merge_commit r = sv_merge_commit v"
    if r: "r \<in> set (db_vulnerabilities (ib_db s))" and v: "v \<in> set vs" "sv_id v = sv_id r" for r v
  proof -
    obtain r' where "r' \<in> set (db_vulnerabilities (ib_db s))" "row_to_vulnerability r' = Inr v"
      using listed_vulnerability_row [OF assms(2) v(1)] .
    then show ?thesis
      using row_to_vulnerability_fields unique_vulnerability [OF _ r] v(2) assms(1) by (metis inbox_ok_def)
  qed
  then show ?thesis using assms(1) by (auto simp: holding_def list_all_iff row_holds_def commits_of_def)
qed

definition seen_holding :: "inbox_env \<Rightarrow> row_condition \<Rightarrow> string \<Rightarrow> string \<Rightarrow> inbox \<Rightarrow> bool" where
  "seen_holding env Q repository commit s \<longleftrightarrow>
     holding env Q s \<and> seen_deployed env (ib_ticks s) (Some repository) (Some commit)"

lemma seen_holding_tick:
  "seen_holding env Q r c s \<Longrightarrow> seen_holding env Q r c (s\<lparr>ib_ticks := Suc (ib_ticks s)\<rparr>)"
  using seen_deployed_mono [of env "ib_ticks s" "Some r" "Some c" "Suc (ib_ticks s)"]
  by (simp add: seen_holding_def holding_tick)

lemma mark_live_ok:
  assumes v: "v \<in> set vs" "sv_repository v = Some repository" "sv_merge_commit v = Some commit"
  shows "sweeps (seen_holding env (commits_of vs) repository commit) (mark_live v versions) (holding env (commits_of vs))"
proof -
  let ?P = "seen_holding env (commits_of vs) repository commit"
  have ended: "sweeps (holding env (commits_of vs)) (if moved then bump (su_live_update Suc) else ret ())
      (holding env (commits_of vs))" for moved
    by (cases moved) (auto intro: sweeps_counts sweeps_ret)
  have clock: "brings ?P clock ?P"
    by (rule bringsI) (simp add: clock_def ask_def seen_holding_tick)
  have moved: "brings ?P (store (\<lambda>now. transition_security_vulnerability now (sv_id v)
      VulnerabilityState.Merged VulnerabilityState.Live
      (no_vulnerability_changes\<lparr>vc_deployed_version := d, vc_live_at := live_at\<rparr>) e)) (holding env (commits_of vs))"
    for d live_at e
  proof (rule brings_store [where c = "\<lambda>now. Transition_vulnerability now (sv_id v) VulnerabilityState.Merged
      VulnerabilityState.Live (no_vulnerability_changes\<lparr>vc_deployed_version := d, vc_live_at := live_at\<rparr>) e"])
    fix now s
    let ?changes = "no_vulnerability_changes\<lparr>vc_deployed_version := d, vc_live_at := live_at\<rparr>"
    assume s: "?P s"
    then have "holding env (commits_of vs) s" by (simp add: seen_holding_def)
    then show "holding env (commits_of vs) (s\<lparr>ib_db := security_step (Transition_vulnerability now (sv_id v)
        VulnerabilityState.Merged VulnerabilityState.Live ?changes e) (ib_db s)\<rparr>)"
    proof (rule transition_holding)
      fix r
      assume r: "sv_id r = sv_id v" "vulnerability_fine env (ib_ticks s) (ib_db s) r" "row_holds (commits_of vs) r"
      then have "sv_repository r = Some repository" "sv_merge_commit r = Some commit"
        using v by (auto simp: row_holds_def commits_of_def)
      then show "vulnerability_fine env (ib_ticks s) (vulnerability_transition (timestamp now) (sv_id v)
          VulnerabilityState.Merged VulnerabilityState.Live ?changes e (ib_db s))
          (moved_vulnerability VulnerabilityState.Live ?changes (timestamp now) r) \<and>
        row_holds (commits_of vs) (moved_vulnerability VulnerabilityState.Live ?changes (timestamp now) r)"
        using s r fine_fits [OF r(2)]
        by (auto simp: seen_holding_def vulnerability_fine_def live_backed_def merge_named_def no_vulnerability_changes_def
            moved_vulnerability_assigns row_holds_def)
    qed
  qed (simp_all add: seen_holding_tick)
  show ?thesis
    unfolding mark_live_def
    by (intro sweeps_bind [OF sweeps_on_inbox ended] brings_bind [OF clock moved]) (auto simp: seen_holding_def)
qed

lemma advance_merged_vulnerability_ok:
  assumes v: "v \<in> set vs" and deployment: "en_deployment env = Some deployment"
  shows "sweeps (holding env (commits_of vs)) (advance_merged_vulnerability env deployment v) (holding env (commits_of vs))"
proof (cases "\<exists>repository commit. sv_repository v = Some repository \<and> sv_merge_commit v = Some commit")
  case True
  then obtain repository commit where known: "sv_repository v = Some repository" "sv_merge_commit v = Some commit"
    by blast
  let ?seen = "\<lambda>answer s. if is_live_answer answer then seen_holding env (commits_of vs) repository commit s
      else holding env (commits_of vs) s"
  have asked: "after (ask (\<lambda>t. dp_commit_status deployment t repository commit))
      (\<lambda>r t. case r of Inl e \<Rightarrow> holding env (commits_of vs) t | Inr status \<Rightarrow> ?seen status t) s"
    if "holding env (commits_of vs) s" for s
  proof -
    have "seen_deployed env (Suc (ib_ticks s)) (Some repository) (Some commit)"
      if "is_live_answer (dp_commit_status deployment (ib_ticks s) repository commit)"
      using that deployment by (auto simp: seen_deployed_def list_ex_iff)
    then show ?thesis using that by (simp add: after_def ask_def seen_holding_def holding_tick)
  qed
  have others: "sweeps (holding env (commits_of vs)) (escalate_counted env i a reason) (holding env (commits_of vs))"
    "sweeps (holding env (commits_of vs)) (on_inbox (deployment_check_failed env v err)) (holding env (commits_of vs))"
    for i a reason err
    unfolding swept_sweeps [symmetric] by (intro holding.escalate_counted holding.on_inbox deployment_check_ok)+
  have answered: "sweeps (?seen status) (case status of
        Inr (LiveStatus.Live versions) \<Rightarrow> mark_live v versions
      | Inr (LiveStatus.Pending versions) \<Rightarrow> ret ()
      | Inr LiveStatus.Untracked \<Rightarrow>
          escalate_counted env (sv_id v) VulnerabilityState.Merged ReviewReason.UntrackedRepository
      | Inl e \<Rightarrow> on_inbox (deployment_check_failed env v (error_text (en_db_text env) e))) (holding env (commits_of vs))"
    for status
  proof (cases status)
    case (Inr live)
    then show ?thesis
      by (cases live) (auto intro: others sweeps_ret mark_live_ok [OF v known])
  qed (auto intro: others)
  show ?thesis
    unfolding advance_merged_vulnerability_def known prod.case option.case
    by (rule sweeps_bind_result [where P' = ?seen]) (rule asked answered; simp)+
next
  case False
  have "sweeps (holding env (commits_of vs)) (escalate_counted env i a reason) (holding env (commits_of vs))" for i a reason
    unfolding swept_sweeps [symmetric] by (rule holding.escalate_counted)
  then show ?thesis
    using False unfolding advance_merged_vulnerability_def by (cases "sv_repository v"; cases "sv_merge_commit v") auto
qed

lemma advance_merged_ok: "along (\<lambda>s t. inbox_ok env (sw_inbox s) \<longrightarrow> inbox_ok env (sw_inbox t)) (advance_merged env)"
proof (cases "en_deployment env")
  case (Some deployment)
  show ?thesis
    unfolding swept_sweeps advance_merged_def Some option.case
    by (rule sweeps_each [where J = "\<lambda>vs. holding env (commits_of vs)"])
      (auto intro: listed_commits advance_merged_vulnerability_ok [OF _ Some] holdingD)
qed (simp add: advance_merged_def keeping.on_sweep.ret)

end
