(* ===== verification/Inbox_Announce.thy ===== *)
theory Inbox_Announce
  imports Inbox_Safety
begin

text \<open>
  What the announcement of live fixes may do: it mails a fix as live only to reports of live vulnerabilities, with a
  reward only where there is an award, and prepares awards only for live vulnerabilities that were fixed by a pull
  request or confirmed by an admin. Every other part of the inbox is quiet. With this the invariant of the inbox holds
  after every action.
\<close>

section \<open>What is due\<close>

definition links :: "security_db \<Rightarrow> (int \<times> int option) list" where
  "links db = map (\<lambda>r. (sr_id r, sr_vulnerability_id r)) (db_reports db)"

definition linked :: "security_db \<Rightarrow> int \<Rightarrow> vulnerability_row \<Rightarrow> bool" where
  "linked db r v \<longleftrightarrow> list_ex (\<lambda>x. sr_id x = r \<and> sr_vulnerability_id x = Some (sv_id v)) (db_reports db)"

definition is_live :: "vulnerability_row \<Rightarrow> bool" where
  "is_live v \<longleftrightarrow> sv_state v = vulnerability_state_as_str VulnerabilityState.Live"

definition announcement_due :: "security_db \<Rightarrow> mail \<Rightarrow> bool" where
  "announcement_due db m \<longleftrightarrow>
     list_ex (\<lambda>v. is_live v \<and> linked db (ml_report m) v) (db_vulnerabilities db) \<and>
     (if ml_kind m = SecurityReplyKind.FixLiveRewarded then has_award db (ml_report m) else True)"

definition admin_confirmed :: "security_db \<Rightarrow> vulnerability_row \<Rightarrow> bool" where
  "admin_confirmed db v \<longleftrightarrow>
     list_ex (\<lambda>e. se_kind e = event_kind_as_str SecurityEventKind.AdminConfirmed \<and>
       (case se_report_id e of None \<Rightarrow> False | Some r \<Rightarrow> linked db r v)) (db_events db)"

definition award_due :: "security_db \<Rightarrow> int \<Rightarrow> bool" where
  "award_due db i \<longleftrightarrow>
     list_ex (\<lambda>v. sv_id v = i \<and> is_live v \<and> (sv_pull_request_url v \<noteq> None \<or> admin_confirmed db v)) (db_vulnerabilities db)"

definition fix_live_mails :: "inbox \<Rightarrow> mail list" where
  "fix_live_mails s = filter (\<lambda>m. is_fix_live (ml_kind m)) (map fst (ib_outbox s))"

lemma linked_links: "linked db r v \<longleftrightarrow> (r, Some (sv_id v)) \<in> set (links db)"
  by (auto simp: linked_def links_def list_ex_iff)

lemma fix_live_mails_other [simp]:
  "fix_live_mails (s\<lparr>ib_ticks := t\<rparr>) = fix_live_mails s" "fix_live_mails (s\<lparr>ib_pings := p\<rparr>) = fix_live_mails s"
  "fix_live_mails (s\<lparr>ib_source_calls := c\<rparr>) = fix_live_mails s" "fix_live_mails (s\<lparr>ib_db := db\<rparr>) = fix_live_mails s"
  "fix_live_mails (send_mail m reply s) = fix_live_mails s @ (if is_fix_live (ml_kind m) then [m] else [])"
  by (simp_all add: fix_live_mails_def send_mail_def)

lemma due_mono:
  assumes "db_vulnerabilities db' = db_vulnerabilities db" "links db' = links db" "grows db db'"
  shows "announcement_due db m \<Longrightarrow> announcement_due db' m" and "award_due db i \<Longrightarrow> award_due db' i"
proof -
  have linked: "linked db' = linked db" using assms(2) by (simp add: fun_eq_iff linked_links)
  then show "announcement_due db m \<Longrightarrow> announcement_due db' m"
    using assms(1) has_award_grows [OF assms(3)] by (auto simp: announcement_due_def split: if_splits)
  have "admin_confirmed db v \<Longrightarrow> admin_confirmed db' v" for v
    using assms(3) by (auto simp: admin_confirmed_def linked list_ex_iff grows_def cong: option.case_cong)
  then show "award_due db i \<Longrightarrow> award_due db' i"
    using assms(1) by (auto simp: award_due_def list_ex_iff)
qed

section \<open>Awards\<close>

fun prepares :: "security_call \<Rightarrow> (int \<times> int) set" where
  "prepares (Prepare_award now v r award) = {(v, r)}"
| "prepares _ = {}"

lemma award_source_id: "award_source v r db = Some x \<Longrightarrow> sr_id x = r"
  by (auto simp: award_source_def dest: find_by_Some split: option.splits if_splits)

lemma prepare_keys:
  "map award_key (db_awards (snd (prepare_security_award now v r award db))) = map award_key (db_awards db) \<or>
   map award_key (db_awards (snd (prepare_security_award now v r award db))) = map award_key (db_awards db) @ [(v, r)]"
proof -
  let ?P = "\<lambda>db'. map award_key (db_awards db') = map award_key (db_awards db) \<or>
      map award_key (db_awards db') = map award_key (db_awards db) @ [(v, r)]"
  show ?thesis
    unfolding prepare_security_award_def
    by (rule transaction_preserves [where P = ?P])
      (auto simp: Let_def insert_event_Inr add_event_def award_key_def dest: award_source_id
        simp del: texts_kept split: if_splits option.splits)
qed

lemma update_award_keys:
  "map award_key (db_awards (snd (update_security_award_status now i es st actor note db))) = map award_key (db_awards db)"
proof -
  let ?P = "\<lambda>db'. map award_key (db_awards db') = map award_key (db_awards db)"
  have kept: "map award_key (update_where p (\<lambda>a. a\<lparr>sa_status := st, sa_actor := ac a, sa_note := n a,
      sa_updated_at := t\<rparr>) xs) = map award_key xs" for p st ac n t xs
    by (rule map_update_where_same) (simp add: award_key_def)
  show ?thesis
    unfolding update_security_award_status_def
    by (rule transaction_preserves [where P = ?P])
      (auto simp: Let_def insert_event_Inr add_event_def kept simp del: texts_kept split: if_splits option.splits)
qed

lemma step_award_keys:
  "award_key ` set (db_awards (security_step c db)) \<subseteq> prepares c \<union> award_key ` set (db_awards db)"
proof -
  have "set (map award_key (db_awards (security_step c db))) \<subseteq> prepares c \<union> set (map award_key (db_awards db))"
  proof (cases "Awards \<in> writes c")
    case True
    then show ?thesis
    proof (cases c)
      case (Prepare_award now v r award)
      then show ?thesis
        using prepare_keys [of now v r award db] by (elim disjE) (simp_all del: set_map, blast)
    qed (simp_all add: update_award_keys del: set_map)
  next
    case False
    then have "db_awards (security_step c db) = db_awards db" by (intro awards_frame.step) simp
    then show ?thesis by simp
  qed
  then show ?thesis by simp
qed

section \<open>Steady calls\<close>

text \<open>The calls of the announcement: vulnerabilities and links stay.\<close>

fun steady_call :: "security_call \<Rightarrow> bool" where
  "steady_call (Claim_reply now r k e) \<longleftrightarrow> True"
| "steady_call (Complete_reply now r k s err e t) \<longleftrightarrow> True"
| "steady_call (Record_event now r v e) \<longleftrightarrow> True"
| "steady_call (Transition_report now r a b changes e) \<longleftrightarrow> changes = no_report_changes"
| "steady_call (Prepare_award now v r award) \<longleftrightarrow> True"
| "steady_call (Update_award now v es s actor note) \<longleftrightarrow> True"
| "steady_call _ \<longleftrightarrow> False"

interpretation links_frame: frame links "{Reports}"
  by unfold_locales (simp_all add: links_def attempt_step_same [unfolded same_security_def])

lemma move_report_links:
  assumes "move_report i t no_report_changes at db = Inr (moved, db')"
  shows "links db' = links db"
proof -
  have "report_assignments no_report_changes = []"
    by (simp add: report_assignments_def no_report_changes_def assign_def)
  moreover have "map (\<lambda>r. (sr_id r, sr_vulnerability_id r)) (update_where p (\<lambda>r. r\<lparr>sr_state := st, sr_updated_at := at\<rparr>) xs) =
      map (\<lambda>r. (sr_id r, sr_vulnerability_id r)) xs" for p st xs
    by (rule map_update_where_same) simp
  ultimately show ?thesis
    using assms
    by (auto simp: move_report_def update_in_state_def links_def comp_def split: if_splits)
qed

lemma steady_links: "steady_call c \<Longrightarrow> links (security_step c db) = links db"
proof (cases "Reports \<in> writes c")
  case True
  assume steady: "steady_call c"
  let ?P = "\<lambda>db'. links db' = links db"
  show ?thesis
  proof (cases c)
    case (Transition_report now i a b changes e)
    have "?P (snd (transition_security_report now i a b no_report_changes e db))"
      unfolding transition_security_report_def
      by (auto simp: Let_def ret_def insert_event_Inr links_frame.noted simp del: texts_kept
          intro!: transaction_preserves [where P = ?P] dest!: move_report_links split: if_splits)
    then show ?thesis using Transition_report steady by simp
  next
    case (Complete_reply now r k s err e t)
    have "?P (snd (complete_security_reply now r k s err e t db))"
      unfolding complete_security_reply_def
      by (auto simp: Let_def fail_def insert_event_Inr links_frame.noted links_frame.replies
          simp del: texts_kept reply_kind_as_str.simps
          intro!: transaction_preserves [where P = ?P] dest!: move_report_links split: if_splits option.splits)
    then show ?thesis using Complete_reply by simp
  qed (use True steady in auto)
next
  case False
  then show ?thesis by (intro links_frame.step) simp
qed

lemma steady_vulnerabilities: "steady_call c \<Longrightarrow> db_vulnerabilities (security_step c db) = db_vulnerabilities db"
  by (rule vulnerabilities_frame.step, cases c) auto

lemma steady_writes: "steady_call c \<Longrightarrow> Vulnerabilities \<notin> writes c"
  by (cases c) auto

section \<open>During the announcement\<close>

text \<open>
  The vulnerabilities are still \<open>vs\<close> and the links \<open>ls\<close>; what was mailed since \<open>old\<close> and awarded beyond \<open>awarded\<close>
  is due; the reports \<open>rewarded\<close> have awards.
\<close>

definition announcing ::
    "inbox_env \<Rightarrow> mail list \<Rightarrow> int list \<Rightarrow> vulnerability_row list \<Rightarrow> (int \<times> int option) list \<Rightarrow> int list \<Rightarrow> inbox \<Rightarrow> bool" where
  "announcing env old awarded vs ls rewarded s \<longleftrightarrow>
     inbox_ok env s \<and> db_vulnerabilities (ib_db s) = vs \<and> links (ib_db s) = ls \<and>
     (\<exists>new. fix_live_mails s = old @ new \<and> list_all (announcement_due (ib_db s)) new) \<and>
     (\<forall>a \<in> set (db_awards (ib_db s)). sa_vulnerability_id a \<in> set awarded \<or> award_due (ib_db s) (sa_vulnerability_id a)) \<and>
     list_all (has_award (ib_db s)) rewarded"

lemma announcing_ok: "announcing env old awarded vs ls rewarded s \<Longrightarrow> inbox_ok env s"
  by (simp add: announcing_def)

lemma announcing_rewarded:
  "announcing env old awarded vs ls (i # rewarded) s \<longleftrightarrow>
     announcing env old awarded vs ls rewarded s \<and> has_award (ib_db s) i"
  by (auto simp: announcing_def)

lemma announcing_start:
  "inbox_ok env s \<Longrightarrow> announcing env (fix_live_mails s) (map sa_vulnerability_id (db_awards (ib_db s)))
     (db_vulnerabilities (ib_db s)) (links (ib_db s)) [] s"
  by (auto simp: announcing_def)

lemma announcing_tick:
  "announcing env old awarded vs ls rewarded s \<Longrightarrow>
     announcing env old awarded vs ls rewarded (s\<lparr>ib_ticks := Suc (ib_ticks s)\<rparr>)"
  by (auto simp: announcing_def inbox_ok_tick)

interpretation announcing:
  inbox_effects "\<lambda>s t. announcing env old awarded vs ls rewarded s \<longrightarrow> announcing env old awarded vs ls rewarded t"
    for env old awarded vs ls rewarded
  by unfold_locales (auto simp: announcing_tick, auto simp: announcing_def)

lemma announcing_call:
  assumes s: "announcing env old awarded vs ls rewarded s" and c: "steady_call c"
    and claim: "\<And>r. (r, reply_kind_as_str SecurityReplyKind.FixLiveRewarded) \<in> claims c \<Longrightarrow> has_award (ib_db s) r"
    and prepared: "\<And>v r. (v, r) \<in> prepares c \<Longrightarrow> award_due (ib_db s) v"
  shows "announcing env old awarded vs ls rewarded (s\<lparr>ib_db := security_step c (ib_db s)\<rparr>)"
proof -
  let ?db = "ib_db s" and ?db' = "security_step c (ib_db s)"
  have ok: "inbox_ok env s" using s by (rule announcing_ok)
  then have ok_db: "security_ok ?db" by (simp add: inbox_ok_def)
  note grown = step_grows [OF ok_db, of c]
  note due = due_mono [OF steady_vulnerabilities [OF c] steady_links [OF c] grown]
  have "inbox_ok env (s\<lparr>ib_db := ?db'\<rparr>)" by (rule call_ok_elsewhere [OF ok steady_writes [OF c] claim])
  moreover have "sa_vulnerability_id a \<in> set awarded \<or> award_due ?db' (sa_vulnerability_id a)"
    if "a \<in> set (db_awards ?db')" for a
  proof -
    have "award_key a \<in> prepares c \<union> award_key ` set (db_awards ?db)" using step_award_keys that by blast
    then consider "award_key a \<in> prepares c" | b where "b \<in> set (db_awards ?db)" "award_key a = award_key b" by auto
    then show ?thesis
    proof cases
      case 1
      then show ?thesis using prepared due(2) by (auto simp: award_key_def)
    next
      case 2
      then show ?thesis using s due(2) [of "sa_vulnerability_id b"] by (auto simp: announcing_def award_key_def)
    qed
  qed
  moreover have "list_all (announcement_due ?db') new" if "list_all (announcement_due ?db) new" for new
    using that due(1) by (auto simp: list_all_iff)
  moreover have "list_all (has_award ?db') rewarded"
    using s has_award_grows [OF grown] by (auto simp: announcing_def list_all_iff)
  ultimately show ?thesis
    using s steady_vulnerabilities [OF c] steady_links [OF c] unfolding announcing_def
    by (auto simp del: security_step.simps)
qed

section \<open>Mails of live fixes\<close>

lemma delivery_steady: "delivery_call i kind c \<Longrightarrow> steady_call c \<and> prepares c = {} \<and> claims c \<subseteq> {(i, reply_kind_as_str kind)}"
  by (cases c) auto

lemma kind_texts_differ: "reply_kind_as_str k = reply_kind_as_str k' \<longleftrightarrow> k = k'"
  by (rule reply_kind.as_str_inject)

lemma announcing_delivers:
  assumes "kind = SecurityReplyKind.FixLiveRewarded \<Longrightarrow> i \<in> set rewarded" and "delivery_call i kind c"
  shows "permits (\<lambda>s t. announcing env old awarded vs ls rewarded s \<longrightarrow> announcing env old awarded vs ls rewarded t) c"
  unfolding permits_def
proof (intro allI impI)
  fix s
  assume s: "announcing env old awarded vs ls rewarded s"
  note steady = delivery_steady [OF assms(2)]
  show "announcing env old awarded vs ls rewarded (s\<lparr>ib_db := security_step c (ib_db s)\<rparr>)"
  proof (rule announcing_call [OF s])
    fix r
    assume "(r, reply_kind_as_str SecurityReplyKind.FixLiveRewarded) \<in> claims c"
    then have "r = i" "kind = SecurityReplyKind.FixLiveRewarded" using steady kind_texts_differ
      by (auto simp del: reply_kind_as_str.simps)
    then show "has_award (ib_db s) r" using assms(1) s by (auto simp: announcing_def list_all_iff)
  qed (use steady in auto)
qed

lemma announcing_sends:
  assumes "kind = SecurityReplyKind.FixLiveRewarded \<Longrightarrow> sr_id report \<in> set rewarded"
    and live: "v \<in> set vs" "is_live v" "(sr_id report, Some (sv_id v)) \<in> set ls"
  shows "sends (\<lambda>s t. announcing env old awarded vs ls rewarded s \<longrightarrow> announcing env old awarded vs ls rewarded t)
    (mail_for env' report kind)"
  unfolding sends_def
proof (intro allI impI)
  fix reply s
  let ?m = "mail_for env' report kind"
  assume s: "announcing env old awarded vs ls rewarded s"
  then obtain new where new: "fix_live_mails s = old @ new" "list_all (announcement_due (ib_db s)) new"
    by (auto simp: announcing_def)
  have "announcement_due (ib_db s) ?m"
    using s assms by (auto simp: announcing_def announcement_due_def mail_for_def list_ex_iff list_all_iff linked_links)
  then have "list_all (announcement_due (ib_db s)) (new @ (if is_fix_live (ml_kind ?m) then [?m] else []))"
    using new(2) by simp
  moreover have "fix_live_mails (send_mail ?m reply s) = old @ new @ (if is_fix_live (ml_kind ?m) then [?m] else [])"
    using new(1) by simp
  moreover have "ib_db (send_mail ?m reply s) = ib_db s" by (simp add: send_mail_def)
  ultimately show "announcing env old awarded vs ls rewarded (send_mail ?m reply s)"
    using s unfolding announcing_def by auto
qed

lemma rewarded_entry:
  assumes "inbox_ok env s" "fst (ledger_entry i kind s) = Inr (Some reply)" "sp_kind reply = SecurityReplyKind.FixLiveRewarded"
  shows "has_award (ib_db s) i"
proof -
  obtain replies where replies: "list_security_replies i (ib_db s) = Inr replies" "reply \<in> set replies"
    using assms(2)
    by (auto simp: ledger_entry_def bind_op_def query_def on_db_def read_op_def ret_def split: sum.splits
        dest: find_by_Some)
  then obtain p where p: "p \<in> set (db_replies (ib_db s))" "sp_report_id p = i" "row_to_reply p = Inr reply"
    using collect_results_in [OF replies(1) [unfolded list_security_replies_def] replies(2)] by auto
  then have "sp_kind p = reply_kind_as_str SecurityReplyKind.FixLiveRewarded"
    using row_to_reply_fields [OF p(3)] assms(3) by simp
  then show ?thesis using assms(1) p(1,2) by (auto simp: inbox_ok_def rewarded_ok_def list_all_iff simp del: reply_kind_as_str.simps)
qed

lemma ensure_delivered_announcing:
  assumes fix_live: "is_fix_live kind"
    and rewarded: "kind = SecurityReplyKind.FixLiveRewarded \<Longrightarrow> sr_id report \<in> set rewarded"
    and live: "v \<in> set vs" "is_live v" "(sr_id report, Some (sv_id v)) \<in> set ls"
    and completion: "tr_to completion \<noteq> SecurityReportState.Assessing"
  shows "brings (announcing env old awarded vs ls rewarded) (ensure_delivered env' report kind completion)
    (announcing env old awarded vs ls rewarded)"
proof (rule bringsI)
  fix s
  let ?A = "announcing env old awarded vs ls rewarded"
  let ?A' = "announcing env old awarded vs ls (sr_id report # rewarded)"
  assume s: "?A s"
  show "?A (snd (ensure_delivered env' report kind completion s))"
  proof (cases "has_award (ib_db s) (sr_id report)")
    case True
    have "along (\<lambda>s t. ?A' s \<longrightarrow> ?A' t) (ensure_delivered env' report kind completion)"
      by (rule announcing.ensure_delivered) (auto intro: announcing_delivers announcing_sends live simp: completion)
    then show ?thesis
      using s True alongD [of "\<lambda>s t. ?A' s \<longrightarrow> ?A' t"] by (auto simp: announcing_rewarded)
  next
    case False
    then have "sr_id report \<notin> set rewarded" using s by (auto simp: announcing_def list_all_iff)
    then have kind: "kind = SecurityReplyKind.FixLive" using fix_live rewarded by (auto simp: is_fix_live_def)
    have "?A s \<longrightarrow> ?A (snd (ensure_delivered env' report kind completion s))"
    proof (rule announcing.ensure_delivered_from [where K = "{SecurityReplyKind.FixLive}"])
      fix reply
      assume entry: "fst (ledger_entry (sr_id report) kind s) = Inr (Some reply)"
      then have "is_fix_live (sp_kind reply)"
        using announcing.ledger_entry_kind [OF entry] by (auto simp: kind shares_ledger_entry_with_def is_fix_live_def)
      moreover have "sp_kind reply \<noteq> SecurityReplyKind.FixLiveRewarded"
        using rewarded_entry [OF announcing_ok [OF s] entry] False by blast
      ultimately show "sp_kind reply \<in> {SecurityReplyKind.FixLive}" by (auto simp: is_fix_live_def)
    qed (auto intro: announcing_delivers announcing_sends live simp: completion kind)
    then show ?thesis using s by blast
  qed
qed

definition rewarded_by :: "security_award option \<Rightarrow> int list" where
  "rewarded_by award = (case award of None \<Rightarrow> [] | Some a \<Rightarrow> [sa_report_id a])"

lemma announce_to_announcing:
  assumes "v \<in> set vs" "is_live v" "(sr_id report, Some (sv_id v)) \<in> set ls"
  shows "sweeps (announcing env old awarded vs ls (rewarded_by award)) (announce_to env' award report)
    (announcing env old awarded vs ls (rewarded_by award))"
proof -
  have "brings (announcing env old awarded vs ls (rewarded_by award))
      (ensure_delivered env' report (live_kind award report)
        \<lparr>tr_from = SecurityReportState.Tracking, tr_to = SecurityReportState.Resolved\<rparr>)
      (announcing env old awarded vs ls (rewarded_by award))"
    by (rule ensure_delivered_announcing [OF _ _ assms])
      (auto simp: live_kind_def is_fix_live_def rewarded_by_def split: option.splits if_splits)
  then show ?thesis
    unfolding announce_to_def by (intro sweeps_bind [OF sweeps_on_inbox] sweeps_counts)
qed

section \<open>Preparing awards\<close>

lemma any_confirmed_result:
  assumes "any_confirmed reports s = (r, t)"
  shows "t = s \<and> (r = Inr True \<longrightarrow> (\<exists>report \<in> set reports. \<exists>e \<in> set (db_events (ib_db s)).
    se_report_id e = Some (sr_id report) \<and> se_kind e = event_kind_as_str SecurityEventKind.AdminConfirmed))"
  using assms
proof (induction reports arbitrary: r)
  case Nil
  then show ?case by (auto simp: ret_def)
next
  case (Cons report reports)
  show ?case
  proof (cases "list_security_timeline (sr_id report) (ib_db s)")
    case (Inl e)
    then show ?thesis
      using Cons.prems by (auto simp: bind_op_def query_def on_db_def read_op_def)
  next
    case (Inr timeline)
    let ?found = "list_ex (\<lambda>e. se_report_id e = Some (sr_id report) \<and> se_kind e = SecurityEventKind.AdminConfirmed) timeline"
    have m: "(if ?found then ret True else any_confirmed reports) s = (r, t)"
      using Cons.prems Inr by (simp add: bind_op_def query_def on_db_def read_op_def)
    show ?thesis
    proof (cases ?found)
      case True
      then obtain e where e: "e \<in> set timeline" "se_report_id e = Some (sr_id report)"
          "se_kind e = SecurityEventKind.AdminConfirmed"
        by (auto simp: list_ex_iff)
      then obtain row where "row \<in> set (db_events (ib_db s))" "row_to_event 0 row = Inr e"
        using collect_results_in [OF Inr [unfolded list_security_timeline_def] e(1)] by auto
      then have "\<exists>row \<in> set (db_events (ib_db s)). se_report_id row = Some (sr_id report) \<and>
          se_kind row = event_kind_as_str SecurityEventKind.AdminConfirmed"
        using e(2,3) by (force simp: row_to_event_def event_kind_from_str_Inr simp del: event_kind_as_str.simps)
      then show ?thesis using m True by (auto simp: ret_def simp del: event_kind_as_str.simps)
    next
      case False
      then show ?thesis using m Cons.IH [of r] by (auto simp del: event_kind_as_str.simps)
    qed
  qed
qed

lemma rewardable_due:
  assumes v: "row \<in> set (db_vulnerabilities (ib_db s))" "row_to_vulnerability row = Inr v" "is_live row"
    and m: "is_rewardable v s = (r, t)"
  shows "t = s \<and> (r = Inr True \<longrightarrow> award_due (ib_db s) (sv_id v))"
proof (cases "sv_pull_request_url v = None")
  case True
  show ?thesis
  proof (cases "list_reports_for_vulnerability (sv_id v) (ib_db s)")
    case (Inl e)
    then show ?thesis using m True by (auto simp: is_rewardable_def bind_op_def query_def on_db_def read_op_def)
  next
    case (Inr reports)
    then have any: "any_confirmed reports s = (r, t)"
      using m True by (simp add: is_rewardable_def bind_op_def query_def on_db_def read_op_def)
    have "award_due (ib_db s) (sv_id v)"
      if report: "report \<in> set reports" and e: "e \<in> set (db_events (ib_db s))" "se_report_id e = Some (sr_id report)"
        "se_kind e = event_kind_as_str SecurityEventKind.AdminConfirmed" for report e
    proof -
      obtain x where "x \<in> set (db_reports (ib_db s))" "sr_vulnerability_id x = Some (sv_id v)" "row_to_report 0 x = Inr report"
        using collect_results_in [OF Inr [unfolded list_reports_for_vulnerability_def] report] by auto
      then have "linked (ib_db s) (sr_id report) row"
        using row_to_vulnerability_fields [OF v(2)] row_to_report_fields by (fastforce simp: linked_def list_ex_iff)
      then have "admin_confirmed (ib_db s) row"
        using e by (auto simp: admin_confirmed_def list_ex_iff intro!: bexI [of _ e] simp del: event_kind_as_str.simps)
      then show ?thesis
        using v row_to_vulnerability_fields [OF v(2)] by (auto simp: award_due_def list_ex_iff)
    qed
    then show ?thesis using any_confirmed_result [OF any] by blast
  qed
next
  case False
  then have "award_due (ib_db s) (sv_id v)"
    using v row_to_vulnerability_fields [OF v(2)] by (auto simp: award_due_def list_ex_iff)
  then show ?thesis using m False by (auto simp: is_rewardable_def ret_def)
qed

lemma prepare_award_announcing:
  assumes v: "row \<in> set vs" "row_to_vulnerability row = Inr v" "is_live row"
  shows "brings (announcing env old awarded vs ls rewarded) (prepare_award env' v) (announcing env old awarded vs ls rewarded)"
proof -
  let ?A = "announcing env old awarded vs ls rewarded"
  let ?P = "\<lambda>rewardable s. ?A s \<and> (rewardable \<longrightarrow> award_due (ib_db s) (sv_id v))"
  have asked: "after (is_rewardable v) (\<lambda>r t. case r of Inl e \<Rightarrow> ?A t | Inr rewardable \<Rightarrow> ?P rewardable t) s" if "?A s" for s
  proof -
    obtain r t where m: "is_rewardable v s = (r, t)" by fastforce
    have "row \<in> set (db_vulnerabilities (ib_db s))" using that v(1) by (simp add: announcing_def)
    then have "t = s \<and> (r = Inr True \<longrightarrow> award_due (ib_db s) (sv_id v))" using v(2,3) m by (rule rewardable_due)
    then show ?thesis using that m by (auto simp: after_def split: sum.split)
  qed
  have "brings (?P rewardable) (if rewardable
      then store (\<lambda>now. prepare_security_award now (sv_id v) (sv_first_report_id v) (cf_reward (en_config env')))
      else ret False) ?A" for rewardable
  proof (cases rewardable)
    case True
    have "brings (?P True) (store (\<lambda>now. prepare_security_award now (sv_id v) (sv_first_report_id v)
        (cf_reward (en_config env')))) ?A"
      by (rule brings_store [where c = "\<lambda>now. Prepare_award now (sv_id v) (sv_first_report_id v) (cf_reward (en_config env'))"])
        (auto simp: announcing_tick simp del: security_step.simps intro!: announcing_call, simp)
    then show ?thesis using True by simp
  qed (auto intro: brings_ret)
  note prepared = this
  show ?thesis
    unfolding prepare_award_def by (rule brings_bind_result [OF asked prepared])
qed

section \<open>The announcement\<close>

lemma award_found: "get_security_award i db = Inr (Some a) \<Longrightarrow> has_award db (sa_report_id a)"
  using row_to_award_fields
  by (fastforce simp: get_security_award_def query_award_def map_or_conversion_Inr has_award_def list_ex_iff
      dest: find_by_Some split: option.splits)

lemma sweeps_pure: "(\<And>s. P s \<Longrightarrow> C) \<Longrightarrow> (C \<Longrightarrow> sweeps P m Q) \<Longrightarrow> sweeps P m Q"
  by (auto simp: sweeps_def brings_def)

lemma announce_live_announcing:
  assumes reports: "\<And>r. r \<in> set reports \<Longrightarrow> (sr_id r, Some i) \<in> set ls"
  shows "sweeps (announcing env old awarded vs ls []) (announce_live env' (i, reports)) (announcing env old awarded vs ls [])"
proof -
  let ?A = "announcing env old awarded vs ls"
  have told: "sweeps (?A (rewarded_by award)) (for_each (announce_to env' award) reports) (?A [])"
    if "row \<in> set vs" "is_live row" "sv_id row = i" for award row
  proof -
    have "sweeps (?A (rewarded_by award)) (for_each (announce_to env' award) reports) (?A (rewarded_by award))"
      by (rule sweeps_for_each, rule announce_to_announcing) (use that reports in auto)
    then show ?thesis by (rule sweeps_weaken) (auto simp: announcing_def)
  qed
  have awarded: "sweeps (?A []) (bind_op (on_inbox (query (get_security_award (sv_id v)))) (\<lambda>award.
      for_each (announce_to env' award) reports)) (?A [])"
    if "row \<in> set vs" "is_live row" "sv_id row = i" for v row
  proof (rule sweeps_query)
    fix award
    show "sweeps (\<lambda>s. ?A [] s \<and> get_security_award (sv_id v) (ib_db s) = Inr award)
        (for_each (announce_to env' award) reports) (?A [])"
      by (rule sweeps_weaken [OF told [OF that]])
        (auto simp: announcing_def rewarded_by_def award_found split: option.split)
  qed
  have prepared: "sweeps (?A []) (bind_op (on_inbox (prepare_award env' v)) (\<lambda>prepared.
      bind_op (if prepared then bump (su_awards_prepared_update Suc) else ret ()) (\<lambda>_.
      bind_op (on_inbox (query (get_security_award (sv_id v)))) (\<lambda>award.
      for_each (announce_to env' award) reports)))) (?A [])"
    if row: "row \<in> set vs" "row_to_vulnerability row = Inr v" "is_live row" "sv_id row = i" for v row
  proof -
    have "sweeps (?A []) (if b then bump (su_awards_prepared_update Suc) else ret ()) (?A [])" for b
      by (cases b) (auto intro: sweeps_counts sweeps_ret)
    then show ?thesis
      by (intro sweeps_bind [OF sweeps_on_inbox [OF prepare_award_announcing [OF row(1-3)]]]
          sweeps_bind [OF _ awarded [OF row(1,3,4)]])
  qed
  show ?thesis
    unfolding announce_live_def prod.case
  proof (rule sweeps_query)
    fix found
    let ?P = "\<lambda>s. ?A [] s \<and> get_security_vulnerability i (ib_db s) = Inr found"
    let ?m = "case found of
            None \<Rightarrow> ret ()
          | Some v \<Rightarrow>
              if sv_state v \<noteq> VulnerabilityState.Live then ret ()
              else
                bind_op (on_inbox (prepare_award env' v)) (\<lambda>prepared.
                bind_op (if prepared then bump (su_awards_prepared_update Suc) else ret ()) (\<lambda>_.
                bind_op (on_inbox (query (get_security_award (sv_id v)))) (\<lambda>award.
                for_each (announce_to env' award) reports)))"
    show "sweeps ?P ?m (?A [])"
    proof (cases "\<exists>v. found = Some v \<and> sv_state v = VulnerabilityState.Live")
      case True
      then obtain v where v: "found = Some v" "sv_state v = VulnerabilityState.Live" by blast
      show ?thesis
      proof (rule sweeps_pure)
        fix s
        assume "?P s"
        then show "\<exists>row \<in> set vs. row_to_vulnerability row = Inr v \<and> is_live row \<and> sv_id row = i"
          using v row_to_vulnerability_fields
          by (auto simp: announcing_def is_live_def elim!: get_vulnerability_row simp del: texts_kept) metis
      next
        assume "\<exists>row \<in> set vs. row_to_vulnerability row = Inr v \<and> is_live row \<and> sv_id row = i"
        then obtain row where "row \<in> set vs" "row_to_vulnerability row = Inr v" "is_live row" "sv_id row = i" by blast
        then show ?thesis using sweeps_weaken [OF prepared] by (simp add: v)
      qed
    next
      case False
      then have "?m = ret ()" by (auto split: option.split)
      then show ?thesis by (auto intro: sweeps_ret)
    qed
  qed
qed

lemma notify_prepared_announcing:
  "sweeps (announcing env old awarded vs ls []) (notify_prepared_awards env') (announcing env old awarded vs ls [])"
proof -
  have "permits (\<lambda>s t. announcing env old awarded vs ls [] s \<longrightarrow> announcing env old awarded vs ls [] t)
      (Update_award now i es st actor memo)" for now i es st actor memo
    unfolding permits_def by (auto simp del: security_step.simps intro!: announcing_call)
  note updated = this
  show ?thesis
    unfolding swept_sweeps [symmetric] notify_prepared_awards_def notify_award_def
    by (intro announcing.sweeping announcing.reading announcing.stores updated)
qed

lemma sweeps_record_query:
  assumes "\<And>s xs. P s \<Longrightarrow> q (ib_db s) = Inr xs \<Longrightarrow> J xs s" "\<And>xs. sweeps (J xs) (f (Some xs)) Q" "sweeps P (f None) Q"
  shows "sweeps P (bind_op (record_step (on_inbox (query q))) f) Q"
  unfolding sweeps_def
proof (rule bringsI)
  fix s :: sweep
  assume s: "P (sw_inbox s)"
  show "Q (sw_inbox (snd (bind_op (record_step (on_inbox (query q))) f s)))"
  proof (cases "q (ib_db (sw_inbox s))")
    case (Inl e)
    have "Q (sw_inbox (snd (f None (s\<lparr>sw_summary := su_errors_update Suc (sw_summary s)\<rparr>))))"
      using assms(3) s by (simp add: sweeps_def brings_def)
    then show ?thesis
      using Inl by (simp add: bind_op_def record_step_def catch_op_def on_inbox_def query_def on_db_def read_op_def ret_def bump_def)
  next
    case (Inr xs)
    then have "Q (sw_inbox (snd (f (Some xs) s)))"
      using assms(2) assms(1) [OF s Inr] by (simp add: sweeps_def brings_def)
    then show ?thesis
      using Inr by (simp add: bind_op_def record_step_def catch_op_def on_inbox_def query_def on_db_def read_op_def ret_def)
  qed
qed

lemma advance_live_announcing:
  "sweeps (announcing env old awarded vs ls []) (advance_live env') (announcing env old awarded vs ls [])"
  unfolding advance_live_def
proof (rule sweeps_record_query)
  let ?A = "announcing env old awarded vs ls []"
  let ?J = "\<lambda>tracking s. ?A s \<and> (\<forall>r \<in> set tracking. (sr_id r, sr_vulnerability_id r) \<in> set ls)"
  show "?J tracking s" if s: "?A s" and found: "list_security_reports (every_report SecurityReportState.Tracking) (ib_db s) = Inr tracking"
    for s tracking
  proof -
    have "(sr_id r, sr_vulnerability_id r) \<in> set (links (ib_db s))" if r: "r \<in> set tracking" for r
    proof -
      obtain x where "x \<in> set (db_reports (ib_db s))" "row_to_report 0 x = Inr r"
        using collect_results_in [OF found [unfolded list_security_reports_def] r] set_sql_limit
        by fastforce
      then show ?thesis by (force simp: links_def row_to_report_def)
    qed
    then show ?thesis using s by (simp add: announcing_def)
  qed
  show "sweeps (?J tracking) (case Some tracking of None \<Rightarrow> ret () | Some tracking \<Rightarrow>
      bind_op (for_each (\<lambda>grp. bind_op (record_step (announce_live env' grp)) (\<lambda>_. ret ())) (by_vulnerability tracking))
        (\<lambda>_. notify_prepared_awards env')) ?A" for tracking
  proof (rule sweeps_pure)
    assume listed: "\<forall>r \<in> set tracking. (sr_id r, sr_vulnerability_id r) \<in> set ls"
    have each: "sweeps ?A (bind_op (record_step (announce_live env' grp)) (\<lambda>_. ret ())) ?A"
      if member: "grp \<in> set (by_vulnerability tracking)" for grp
    proof -
      obtain i reports where grp: "grp = (i, reports)" by (cases grp)
      then have "(sr_id r, Some i) \<in> set ls" if "r \<in> set reports" for r
        using member that listed by (force simp: by_vulnerability_def)
      then show ?thesis
        unfolding grp by (intro sweeps_bind [OF sweeps_record [OF announce_live_announcing]] sweeps_ret)
    qed
    have "sweeps ?A (bind_op (for_each (\<lambda>grp. bind_op (record_step (announce_live env' grp)) (\<lambda>_. ret ()))
        (by_vulnerability tracking)) (\<lambda>_. notify_prepared_awards env')) ?A"
      by (intro sweeps_bind [OF sweeps_for_each [OF each] notify_prepared_announcing])
    then show "sweeps (?J tracking) (case Some tracking of None \<Rightarrow> ret () | Some tracking \<Rightarrow>
      bind_op (for_each (\<lambda>grp. bind_op (record_step (announce_live env' grp)) (\<lambda>_. ret ())) (by_vulnerability tracking))
        (\<lambda>_. notify_prepared_awards env')) ?A"
      by (simp only: option.case) (erule sweeps_weaken, simp_all)
  qed blast
  show "sweeps ?A (case None of None \<Rightarrow> ret () | Some tracking \<Rightarrow>
      bind_op (for_each (\<lambda>grp. bind_op (record_step (announce_live env' grp)) (\<lambda>_. ret ())) (by_vulnerability tracking))
        (\<lambda>_. notify_prepared_awards env')) ?A"
    by (simp add: sweeps_ret)
qed

end
