(* ===== verification/Inbox_Guarantees.thy ===== *)
theory Inbox_Guarantees
  imports Inbox_Announce
begin

text \<open>
  What holds of the security inbox after any sequence of its actions: a report is rewarded at most once, vulnerabilities are live and merged only with evidence, and only sweeps announce live fixes
  and prepare awards, each when it is due.
\<close>

section \<open>The invariant of the inbox\<close>

interpretation safe: engine_effects "\<lambda>s t. inbox_ok env s \<longrightarrow> inbox_ok env t" env for env
proof unfold_locales
  have "sweeps (inbox_ok env) (advance_live env) (inbox_ok env)"
    unfolding sweeps_def
  proof (rule bringsI)
    fix s :: sweep
    assume "inbox_ok env (sw_inbox s)"
    from bringsD [OF advance_live_announcing [unfolded sweeps_def] announcing_start [OF this]]
    show "inbox_ok env (sw_inbox (snd (advance_live env s)))" by (rule announcing_ok)
  qed
  then show "keeping.swept env (advance_live env)" by (simp add: swept_sweeps)
qed (rule register_ok received_ok link_fix_ok pull_request_handler_ok live_handler_ok advance_fixing_ok advance_merged_ok)+

lemma step_ok: "inbox_ok env s \<Longrightarrow> inbox_ok env (inbox_step env a s)"
  using safe.step by blast

lemma reachable_inbox_ok: "inbox_ok env (run_inbox env actions (start_inbox instants))"
  by (rule run_inbox_invariant) (auto intro: step_ok start_inbox_ok)

section \<open>Quiet actions\<close>

definition quiet_between :: "inbox \<Rightarrow> inbox \<Rightarrow> bool" where
  "quiet_between s t \<longleftrightarrow>
     fix_live_mails t = fix_live_mails s \<and>
     award_key ` set (db_awards (ib_db t)) \<subseteq> award_key ` set (db_awards (ib_db s))"

lemma quiet_prepares: "quiet_call c \<Longrightarrow> prepares c = {}"
  by (cases c) auto

interpretation quietly: quiet_effects quiet_between
proof unfold_locales
  show "permits quiet_between c" if "quiet_call c" for c
    using step_award_keys [of c] quiet_prepares [OF that]
    by (simp add: permits_def quiet_between_def del: security_step.simps)
  show "quiet_between s u" if "quiet_between s t" "quiet_between t u" for s t u
    using that unfolding quiet_between_def by (elim conjE, intro conjI) (simp, erule (1) subset_trans)
qed (auto simp: quiet_between_def sends_def send_mail_def fix_live_mails_def)

section \<open>Sweeps\<close>

lemma for_each_append:
  "for_each f (xs @ ys) = bind_op (for_each f xs) (\<lambda>_. for_each f ys)"
  by (induction xs) (auto simp: fun_eq_iff bind_op_def ret_def split: prod.split sum.split)

text \<open>What the sweep announces is due when it ends.\<close>

definition announces :: "inbox \<Rightarrow> inbox \<Rightarrow> bool" where
  "announces s t \<longleftrightarrow>
     (\<exists>new. fix_live_mails t = fix_live_mails s @ new \<and> list_all (announcement_due (ib_db t)) new) \<and>
     (\<forall>a \<in> set (db_awards (ib_db t)). sa_vulnerability_id a \<in> sa_vulnerability_id ` set (db_awards (ib_db s)) \<or>
        award_due (ib_db t) (sa_vulnerability_id a))"

lemma vulnerability_keys: "sa_vulnerability_id ` set as = fst ` award_key ` set as"
  by (simp add: image_image award_key_def)

lemma quiet_announces: "quiet_between s t \<Longrightarrow> announces s t"
  unfolding quiet_between_def announces_def vulnerability_keys by (auto simp: award_key_def image_iff)

lemma advance_announces:
  assumes "inbox_ok env s"
  shows "announces s (snd (advance env s))"
proof -
  let ?front = "[register_admin_confirmed env, sweep_stale env, settle_replies env, close_overridden_spam env,
      reconcile_opened_fixes env, advance_fixing env, advance_merged env]"
  let ?s = "\<lparr>sw_inbox = s, sw_summary = empty_summary\<rparr>"
  have steps: "advance_steps env = bind_op (for_each id ?front) (\<lambda>_. for_each id [advance_live env])"
    unfolding advance_steps_def for_each_append [symmetric] by simp
  have front: "quietly.swept (for_each id ?front)"
    by (rule quietly.on_sweep.for_each_in)
      (auto intro: quietly.register_admin_confirmed quietly.sweep_stale quietly.settle_replies quietly.close_overridden_spam
        quietly.reconcile_opened_fixes quietly.quiet_fixing quietly.quiet_merged)
  obtain r u where u: "for_each id ?front ?s = (r, u)" by fastforce
  then have quiet: "quiet_between s (sw_inbox u)" using alongD [OF front, of ?s] by simp
  show ?thesis
  proof (cases r)
    case (Inl e)
    then show ?thesis
      using u quiet_announces [OF quiet] by (simp add: advance_def steps bind_op_def)
  next
    case (Inr x)
    have "keeping.swept env (for_each id ?front)"
      by (rule keeping.on_sweep.for_each_in)
        (auto intro: safe.register_admin_confirmed keeping.sweep_stale keeping.settle_replies keeping.close_overridden_spam
          safe.reconcile_opened_fixes advance_fixing_ok advance_merged_ok)
    then have ok: "inbox_ok env (sw_inbox u)" using alongD [of _ "for_each id ?front" ?s] u assms by fastforce
    obtain r' t where t: "advance_live env u = (r', t)" by fastforce
    have announcing: "announcing env (fix_live_mails (sw_inbox u)) (map sa_vulnerability_id (db_awards (ib_db (sw_inbox u))))
        (db_vulnerabilities (ib_db (sw_inbox u))) (links (ib_db (sw_inbox u))) [] (sw_inbox t)"
      using bringsD [OF advance_live_announcing [unfolded sweeps_def] announcing_start [OF ok], of env] t by simp
    have "sa_vulnerability_id ` set (db_awards (ib_db (sw_inbox u))) \<subseteq> sa_vulnerability_id ` set (db_awards (ib_db s))"
      using quiet unfolding quiet_between_def vulnerability_keys by (blast intro: image_mono)
    then have "announces s (sw_inbox t)"
      using announcing quiet by (auto simp: announcing_def announces_def quiet_between_def)
    moreover have "sw_inbox (snd (advance_steps env ?s)) = sw_inbox t"
      using u t Inr by (cases r') (simp_all add: steps bind_op_def ret_def)
    ultimately show ?thesis
      by (cases "advance_steps env ?s") (simp add: advance_def)
  qed
qed

lemma step_announces:
  assumes "inbox_ok env s"
  shows "announces s (inbox_step env a s)"
proof (cases "a = Sweep")
  case True
  then show ?thesis using advance_announces [OF assms] by simp
qed (simp add: quiet_announces quietly.step_elsewhere)

section \<open>Guarantees\<close>

lemma distinct_by_link:
  assumes "distinct (map k xs)" "\<And>x. x \<in> set xs \<Longrightarrow> \<exists>y \<in> set ys. f y = k x \<and> g y = h x" "distinct (map g ys)" "inj_on f (set ys)"
  shows "distinct (map h xs)"
proof -
  have "x = x'" if x: "x \<in> set xs" "x' \<in> set xs" "h x = h x'" for x x'
  proof -
    obtain y y' where y: "y \<in> set ys" "f y = k x" "g y = h x" "y' \<in> set ys" "f y' = k x'" "g y' = h x'"
      using assms(2) x(1,2) by metis
    then have "y = y'" using x(3) assms(3) by (auto simp: distinct_map inj_on_def)
    then show ?thesis using y x(1,2) assms(1) by (auto simp: distinct_map inj_on_def)
  qed
  then show ?thesis using assms(1) by (auto simp: distinct_map inj_on_def)
qed

lemma ok_one_reward:
  assumes "inbox_ok env s"
  shows "distinct (map sa_report_id (db_awards (ib_db s)))"
proof (rule distinct_by_link [where ys = "db_vulnerabilities (ib_db s)"])
  have ok: "security_ok (ib_db s)" and first: "first_reports_distinct (ib_db s)"
    using assms by (simp_all add: inbox_ok_def)
  show "distinct (map sa_vulnerability_id (db_awards (ib_db s)))"
    using ok by (simp add: security_ok_def unique_ok_def)
  show "distinct (map sv_first_report_id (db_vulnerabilities (ib_db s)))"
    using first by (simp add: first_reports_distinct_def)
  show "inj_on sv_id (set (db_vulnerabilities (ib_db s)))"
    using unique_vulnerability [OF ok] by (auto simp: inj_on_def)
  show "\<exists>v \<in> set (db_vulnerabilities (ib_db s)). sv_id v = sa_vulnerability_id a \<and> sv_first_report_id v = sa_report_id a"
    if "a \<in> set (db_awards (ib_db s))" for a
    using ok that
    by (fastforce simp: security_ok_def refs_ok_def awards_pin_def award_pins_def award_refs_def list_all_iff
        vulnerability_exists_iff)
qed

text \<open>
  Property C1. A vulnerability is live only when the deployment answered so for its repository and merge commit at an
  earlier time, or when an admin said so, which is recorded.
\<close>

theorem live_only_with_evidence:
  "let s = run_inbox env actions (start_inbox instants)
   in list_all (live_backed env (ib_ticks s) (ib_db s)) (db_vulnerabilities (ib_db s))"
  using reachable_inbox_ok [of env actions instants]
  by (simp add: Let_def inbox_ok_def vulnerability_fine_def list_all_iff)

text \<open>
  Property C16. A merged vulnerability names the commit that was merged, and a linked pull request is a canonical
  GitHub one of the vulnerability's repository.
\<close>

theorem merged_and_linked_fixes_named:
  "list_all (\<lambda>v. merge_named v \<and> pull_request_fits (sv_repository v) (sv_pull_request_url v))
     (db_vulnerabilities (ib_db (run_inbox env actions (start_inbox instants))))"
  using reachable_inbox_ok [of env actions instants]
  by (simp add: inbox_ok_def vulnerability_fine_def list_all_iff)

text \<open>
  Property C6. No report is rewarded twice, no two vulnerabilities credit the same report, and a report was told of a
  reward only when there is one for it.
\<close>

theorem one_reward_per_report:
  "let db = ib_db (run_inbox env actions (start_inbox instants))
   in distinct (map sa_report_id (db_awards db)) \<and> first_reports_distinct db \<and> rewarded_ok db"
  using reachable_inbox_ok [of env actions instants] ok_one_reward [OF reachable_inbox_ok]
  by (simp add: Let_def inbox_ok_def)

lemma announces_due:
  assumes "announces s t" "list_all P (fix_live_mails s)" "\<And>m. announcement_due (ib_db t) m \<Longrightarrow> P m"
  shows "list_all P (fix_live_mails t)"
  using assms by (auto simp: announces_def list_all_iff)

text \<open>
  Property C5. Every mail that a fix is live was sent at a moment when its report was linked to a live vulnerability,
  and one that promises a reward when the report had an award.
\<close>

theorem announcements_were_due:
  "list_all
     (\<lambda>m. list_ex (\<lambda>k. announcement_due (ib_db (run_inbox env (take k actions) (start_inbox instants))) m)
        [0..<Suc (length actions)])
     (fix_live_mails (run_inbox env actions (start_inbox instants)))"
proof (induction actions rule: rev_induct)
  case Nil
  show ?case by (simp add: fix_live_mails_def start_inbox_def)
next
  case (snoc a actions)
  let ?run = "\<lambda>actions. run_inbox env actions (start_inbox instants)"
  have step: "announces (?run actions) (?run (actions @ [a]))"
    using step_announces [OF reachable_inbox_ok] by simp
  show ?case
  proof (rule announces_due [OF step])
    show "list_all (\<lambda>m. list_ex (\<lambda>k. announcement_due (ib_db (?run (take k (actions @ [a])))) m)
        [0..<Suc (length (actions @ [a]))]) (fix_live_mails (?run actions))"
      using snoc by (fastforce simp: list_all_iff list_ex_iff)
    show "list_ex (\<lambda>k. announcement_due (ib_db (?run (take k (actions @ [a])))) m) [0..<Suc (length (actions @ [a]))]"
      if "announcement_due (ib_db (?run (actions @ [a]))) m" for m
      using that by (auto simp: list_ex_iff intro!: bexI [of _ "Suc (length actions)"])
  qed
qed

text \<open>
  Property C15. Every award was prepared at a moment when its vulnerability was live and had a pull request or a
  report an admin confirmed.
\<close>

theorem awards_were_due:
  "list_all
     (\<lambda>a. list_ex (\<lambda>k. award_due (ib_db (run_inbox env (take k actions) (start_inbox instants))) (sa_vulnerability_id a))
        [0..<Suc (length actions)])
     (db_awards (ib_db (run_inbox env actions (start_inbox instants))))"
proof (induction actions rule: rev_induct)
  case Nil
  show ?case by (simp add: start_inbox_def empty_db_def)
next
  case (snoc a actions)
  let ?run = "\<lambda>actions. run_inbox env actions (start_inbox instants)"
  have step: "announces (?run actions) (?run (actions @ [a]))"
    using step_announces [OF reachable_inbox_ok] by simp
  show ?case
    unfolding list_all_iff
  proof
    fix w
    assume "w \<in> set (db_awards (ib_db (?run (actions @ [a]))))"
    with step consider "sa_vulnerability_id w \<in> sa_vulnerability_id ` set (db_awards (ib_db (?run actions)))"
      | "award_due (ib_db (?run (actions @ [a]))) (sa_vulnerability_id w)"
      by (auto simp: announces_def)
    then show "list_ex (\<lambda>k. award_due (ib_db (?run (take k (actions @ [a])))) (sa_vulnerability_id w))
        [0..<Suc (length (actions @ [a]))]"
    proof cases
      case 1
      then obtain w' where w': "w' \<in> set (db_awards (ib_db (?run actions)))" "sa_vulnerability_id w = sa_vulnerability_id w'"
        by blast
      then obtain k where "k \<le> length actions" "award_due (ib_db (?run (take k actions))) (sa_vulnerability_id w)"
        using snoc unfolding list_all_iff list_ex_iff by fastforce
      then have "k \<in> set [0..<Suc (length (actions @ [a]))]" "award_due (ib_db (?run (take k (actions @ [a]))))
          (sa_vulnerability_id w)"
        by auto
      then show ?thesis unfolding list_ex_iff by blast
    next
      case 2
      then show ?thesis by (auto simp: list_ex_iff intro!: bexI [of _ "Suc (length actions)"])
    qed
  qed
qed

text \<open>Only sweeps announce live fixes and prepare awards.\<close>

theorem only_sweeps_announce:
  "fix_live_mails (inbox_step env a s) = fix_live_mails s \<and>
     award_key ` set (db_awards (ib_db (inbox_step env a s))) \<subseteq> award_key ` set (db_awards (ib_db s)) \<or> a = Sweep"
  using quietly.step_elsewhere [of a s env] by (cases "a = Sweep") (simp_all add: quiet_between_def)

end
