(* ===== verification/Identities.thy ===== *)
theory Identities
  imports Text_Search Text_Enum
begin

text \<open>
  The identities of a person, \<open>crates/claudear-core/src/identity/\<close>: the fields, their validation, and the
  handles of one person with their normal form. Case folding by \<open>str::to_lowercase\<close> (Unicode tables of
  the standard library) is the parameter \<open>lower\<close> of the operations that use it.
\<close>

section \<open>Characters\<close>

text \<open>A character occurs in a valid UTF-8 text exactly where its encoding occurs as bytes.\<close>

definition has_char_of :: "string list \<Rightarrow> string \<Rightarrow> bool" where
  "has_char_of encodings s = list_ex (contains_text s) encodings"

text \<open>The encodings of U+0000 to U+001F and of U+007F to U+009F.\<close>

definition control_encodings :: "string list" where
  "control_encodings =
     map (\<lambda>n. [char_of n]) ([0::nat ..< 32] @ [127]) @ map (\<lambda>n. [char_of (194::nat), char_of n]) [128::nat ..< 160]"

section \<open>Fields\<close>

datatype IdentityField =
    Slug
  | LinearNames
  | GithubUsernames
  | SentryUsernames
  | JiraUsernames
  | GitlabUsernames
  | DiscordId
  | SlackId
  | Email
  | PushUserKey
  | SmsNumber
  | WhatsappNumber
  | TelegramChatId

definition identity_fields :: "IdentityField list" where
  "identity_fields =
     [Slug, LinearNames, GithubUsernames, SentryUsernames, JiraUsernames, GitlabUsernames, DiscordId, SlackId,
      Email, PushUserKey, SmsNumber, WhatsappNumber, TelegramChatId]"

definition exclusive_fields :: "IdentityField list" where
  "exclusive_fields =
     [LinearNames, GithubUsernames, SentryUsernames, JiraUsernames, GitlabUsernames, DiscordId, SlackId]"

fun field_as_str :: "IdentityField \<Rightarrow> string" where
  "field_as_str Slug = ''slug''"
| "field_as_str LinearNames = ''linear_names''"
| "field_as_str GithubUsernames = ''github_usernames''"
| "field_as_str SentryUsernames = ''sentry_usernames''"
| "field_as_str JiraUsernames = ''jira_usernames''"
| "field_as_str GitlabUsernames = ''gitlab_usernames''"
| "field_as_str DiscordId = ''discord_id''"
| "field_as_str SlackId = ''slack_id''"
| "field_as_str Email = ''email''"
| "field_as_str PushUserKey = ''push_user_key''"
| "field_as_str SmsNumber = ''sms_number''"
| "field_as_str WhatsappNumber = ''whatsapp_number''"
| "field_as_str TelegramChatId = ''telegram_chat_id''"

definition is_sensitive :: "IdentityField \<Rightarrow> bool" where
  "is_sensitive f \<longleftrightarrow> f \<in> {Email, PushUserKey, SmsNumber, WhatsappNumber, TelegramChatId}"

definition is_case_insensitive :: "IdentityField \<Rightarrow> bool" where
  "is_case_insensitive f \<longleftrightarrow> f \<in> {GithubUsernames, GitlabUsernames}"

definition comparison_key :: "(string \<Rightarrow> string) \<Rightarrow> IdentityField \<Rightarrow> string \<Rightarrow> string" where
  "comparison_key lower f v = (if is_case_insensitive f then lower v else v)"

lemma all_identity_fields [simp]: "set identity_fields = UNIV"
  unfolding identity_fields_def by (auto intro: IdentityField.exhaust)

lemma distinct_identity_fields: "distinct identity_fields"
  by (simp add: identity_fields_def)

text \<open>The names under which the fields are stored.\<close>

interpretation field_names: string_enum "''identity field''" identity_fields field_as_str
  by unfold_locales (simp, simp add: identity_fields_def)

definition normalize_login_email :: "(string \<Rightarrow> string) \<Rightarrow> string \<Rightarrow> string" where
  "normalize_login_email lower email = lower (trim email)"

datatype IdentityOrigin = Console | Config_Entry | Unset

datatype Role = Admin | Viewer

fun role_as_str :: "Role \<Rightarrow> string" where
  "role_as_str Admin = ''admin''"
| "role_as_str Viewer = ''viewer''"

definition role_from_str :: "string \<Rightarrow> string + Role" where
  "role_from_str v =
     (if v = ''admin'' then Inr Admin else if v = ''viewer'' then Inr Viewer
      else Inl (''unknown role: '' @ v))"

datatype UserStatus = Active_User | Invited

fun user_status_as_str :: "UserStatus \<Rightarrow> string" where
  "user_status_as_str Active_User = ''active''"
| "user_status_as_str Invited = ''invited''"

definition user_status_from_str :: "string \<Rightarrow> string + UserStatus" where
  "user_status_from_str v =
     (if v = ''active'' then Inr Active_User else if v = ''invited'' then Inr Invited
      else Inl (''unknown user status: '' @ v))"

interpretation roles: closed_text_enum "[Admin, Viewer]" role_as_str role_from_str
proof (unfold_locales, goal_cases)
  case 1
  show ?case by (auto intro: Role.exhaust)
next
  case (2 x)
  show ?case by (cases x) (simp_all add: role_from_str_def)
next
  case (3 s x)
  then show ?case by (auto simp: role_from_str_def split: if_splits)
qed

interpretation user_statuses: closed_text_enum "[Active_User, Invited]" user_status_as_str user_status_from_str
proof (unfold_locales, goal_cases)
  case 1
  show ?case by (auto intro: UserStatus.exhaust)
next
  case (2 x)
  show ?case by (cases x) (simp_all add: user_status_from_str_def)
next
  case (3 s x)
  then show ?case by (auto simp: user_status_from_str_def split: if_splits)
qed

section \<open>Validation\<close>

record IdentityViolation =
  iv_field :: IdentityField
  iv_message :: string

definition console_key_prefix :: string where
  "console_key_prefix = ''console-''"

definition invalid_slug_message :: string where
  "invalid_slug_message =
     ''slug must be 1-63 characters of a-z, 0-9, '' @ [CHR 0x27] @ ''.'' @ [CHR 0x27] @ '', '' @ [CHR 0x27] @
     ''_'' @ [CHR 0x27] @ '' or '' @ [CHR 0x27] @ ''-'' @ [CHR 0x27] @ '', starting with a letter or digit''"

definition reserved_slug_message :: string where
  "reserved_slug_message =
     ''slug must not start with '' @ [CHR 0x27] @ ''console-'' @ [CHR 0x27] @ '', which is reserved''"

definition is_digits :: "string \<Rightarrow> nat \<Rightarrow> nat \<Rightarrow> bool" where
  "is_digits v low high \<longleftrightarrow> low \<le> length v \<and> length v \<le> high \<and> list_all is_digit v"

fun is_slug :: "string \<Rightarrow> bool" where
  "is_slug [] = False"
| "is_slug (c # cs) \<longleftrightarrow>
     length (c # cs) \<le> 63 \<and> (is_ascii_lower c \<or> is_digit c) \<and>
     list_all (\<lambda>c. is_ascii_lower c \<or> is_digit c \<or> c \<in> set ''._-'') cs"

definition is_text :: "string \<Rightarrow> bool" where
  "is_text v \<longleftrightarrow> 1 \<le> chars_count v \<and> chars_count v \<le> 255 \<and> \<not> has_char_of control_encodings v"

definition is_github_login :: "string \<Rightarrow> bool" where
  "is_github_login v \<longleftrightarrow>
     1 \<le> length v \<and> length v \<le> 39 \<and> list_all (\<lambda>c. is_ascii_alphanumeric c \<or> c = CHR ''-'') v \<and>
     \<not> starts_with v ''-'' \<and> \<not> ends_with v ''-'' \<and> \<not> contains_text v ''--''"

fun is_gitlab_username :: "string \<Rightarrow> bool" where
  "is_gitlab_username [] = False"
| "is_gitlab_username (c # cs) \<longleftrightarrow>
     length (c # cs) \<le> 255 \<and> is_ascii_alphanumeric c \<and>
     list_all (\<lambda>c. is_ascii_alphanumeric c \<or> c \<in> set ''_.-'') cs"

definition is_discord_id :: "string \<Rightarrow> bool" where
  "is_discord_id v = is_digits v 17 20"

definition is_slack_id :: "string \<Rightarrow> bool" where
  "is_slack_id v =
     (case v of
        [] \<Rightarrow> False
      | c # suffix \<Rightarrow>
          c \<in> set ''UW'' \<and> 8 \<le> length suffix \<and> length suffix \<le> 20 \<and>
          list_all (\<lambda>c. is_ascii_upper c \<or> is_digit c) suffix)"

definition is_email :: "string \<Rightarrow> bool" where
  "is_email v =
     (if length v > 254 \<or> has_char_of whitespace_encodings v then False
      else case break_at (\<lambda>c. c = CHR ''@'') v of
        (local_part, []) \<Rightarrow> False
      | (local_part, at # domain) \<Rightarrow>
          local_part \<noteq> [] \<and> CHR ''@'' \<notin> set domain \<and> CHR ''.'' \<in> set domain \<and>
          \<not> starts_with domain ''.'' \<and> \<not> ends_with domain ''.'')"

definition is_e164 :: "string \<Rightarrow> bool" where
  "is_e164 v =
     (case strip_prefix ''+'' v of
        None \<Rightarrow> False
      | Some digits \<Rightarrow> is_digits digits 7 15 \<and> \<not> starts_with digits ''0'')"

definition is_telegram_chat_id :: "string \<Rightarrow> bool" where
  "is_telegram_chat_id v =
     is_digits (case strip_prefix ''-'' v of None \<Rightarrow> v | Some digits \<Rightarrow> digits) 1 20"

definition is_pushover_key :: "string \<Rightarrow> bool" where
  "is_pushover_key v \<longleftrightarrow> length v = 30 \<and> list_all is_ascii_alphanumeric v"

definition validate_slug :: "string \<Rightarrow> IdentityViolation + unit" where
  "validate_slug slug =
     (if starts_with slug console_key_prefix then Inl \<lparr>iv_field = Slug, iv_message = reserved_slug_message\<rparr>
      else if is_slug slug then Inr ()
      else Inl \<lparr>iv_field = Slug, iv_message = invalid_slug_message\<rparr>)"

definition quoted :: "string \<Rightarrow> string" where
  "quoted v = [CHR 0x27] @ v @ [CHR 0x27]"

fun violation_message :: "IdentityField \<Rightarrow> string \<Rightarrow> string" where
  "violation_message GithubUsernames v = quoted v @ '' is not a valid GitHub login''"
| "violation_message GitlabUsernames v = quoted v @ '' is not a valid GitLab username''"
| "violation_message DiscordId v = ''Discord ID must be a 17-20 digit Discord user ID''"
| "violation_message SlackId v = ''Slack ID must look like U0123456789''"
| "violation_message Email v = ''email must be a valid email address''"
| "violation_message PushUserKey v = ''push_user_key must be a 30-character Pushover user key''"
| "violation_message TelegramChatId v = ''telegram_chat_id must be a numeric chat ID''"
| "violation_message Slug v = invalid_slug_message"
| "violation_message f v =
     (if f \<in> {LinearNames, SentryUsernames, JiraUsernames}
      then field_as_str f @ '' entries must be 1-255 characters with no control characters''
      else field_as_str f @ '' must be E.164, e.g. +14155550123'')"

fun valid_value :: "IdentityField \<Rightarrow> string \<Rightarrow> bool" where
  "valid_value GithubUsernames v = is_github_login v"
| "valid_value GitlabUsernames v = is_gitlab_username v"
| "valid_value DiscordId v = is_discord_id v"
| "valid_value SlackId v = is_slack_id v"
| "valid_value Email v = is_email v"
| "valid_value PushUserKey v = is_pushover_key v"
| "valid_value SmsNumber v = is_e164 v"
| "valid_value WhatsappNumber v = is_e164 v"
| "valid_value TelegramChatId v = is_telegram_chat_id v"
| "valid_value Slug v \<longleftrightarrow> validate_slug v = Inr ()"
| "valid_value f v = is_text v"

definition validate_value :: "IdentityField \<Rightarrow> string \<Rightarrow> IdentityViolation + unit" where
  "validate_value f v =
     (if f = Slug then validate_slug v
      else if valid_value f v then Inr ()
      else Inl \<lparr>iv_field = f, iv_message = violation_message f v\<rparr>)"

lemma validate_value_ok: "validate_value f v = Inr () \<longleftrightarrow> valid_value f v"
  by (cases f) (auto simp: validate_value_def)

text \<open>A violation names the field it is about, and is the only answer to an invalid value.\<close>

lemma validate_value_violation: "validate_value f v = Inl e \<Longrightarrow> iv_field e = f \<and> \<not> valid_value f v"
  by (cases f) (auto simp: validate_value_def validate_slug_def split: if_splits)

section \<open>The handles of one person\<close>

record Identities =
  id_linear_names :: "string list"
  id_github_usernames :: "string list"
  id_sentry_usernames :: "string list"
  id_jira_usernames :: "string list"
  id_gitlab_usernames :: "string list"
  id_discord_id :: "string option"
  id_slack_id :: "string option"
  id_email :: "string option"
  id_push_user_key :: "string option"
  id_sms_number :: "string option"
  id_whatsapp_number :: "string option"
  id_telegram_chat_id :: "string option"

datatype Slot = List_Slot "string list" | Scalar "string option"

fun slot_values :: "Slot \<Rightarrow> string list" where
  "slot_values (List_Slot vs) = vs"
| "slot_values (Scalar v) = (case v of None \<Rightarrow> [] | Some x \<Rightarrow> [x])"

fun slot_is_empty :: "Slot \<Rightarrow> bool" where
  "slot_is_empty (List_Slot vs) \<longleftrightarrow> vs = []"
| "slot_is_empty (Scalar v) \<longleftrightarrow> v = None"

fun slot_cleared :: "Slot \<Rightarrow> Slot" where
  "slot_cleared (List_Slot vs) = List_Slot []"
| "slot_cleared (Scalar v) = Scalar None"

fun slot :: "Identities \<Rightarrow> IdentityField \<Rightarrow> Slot option" where
  "slot x Slug = None"
| "slot x LinearNames = Some (List_Slot (id_linear_names x))"
| "slot x GithubUsernames = Some (List_Slot (id_github_usernames x))"
| "slot x SentryUsernames = Some (List_Slot (id_sentry_usernames x))"
| "slot x JiraUsernames = Some (List_Slot (id_jira_usernames x))"
| "slot x GitlabUsernames = Some (List_Slot (id_gitlab_usernames x))"
| "slot x DiscordId = Some (Scalar (id_discord_id x))"
| "slot x SlackId = Some (Scalar (id_slack_id x))"
| "slot x Email = Some (Scalar (id_email x))"
| "slot x PushUserKey = Some (Scalar (id_push_user_key x))"
| "slot x SmsNumber = Some (Scalar (id_sms_number x))"
| "slot x WhatsappNumber = Some (Scalar (id_whatsapp_number x))"
| "slot x TelegramChatId = Some (Scalar (id_telegram_chat_id x))"

text \<open>Writing through \<open>slot_mut\<close>: the field keeps the shape of its slot.\<close>

fun slot_list :: "Slot \<Rightarrow> string list" where
  "slot_list (List_Slot vs) = vs"
| "slot_list (Scalar v) = []"

fun slot_scalar :: "Slot \<Rightarrow> string option" where
  "slot_scalar (List_Slot vs) = None"
| "slot_scalar (Scalar v) = v"

fun slot_mut :: "IdentityField \<Rightarrow> (Slot \<Rightarrow> Slot) \<Rightarrow> Identities \<Rightarrow> Identities" where
  "slot_mut Slug g x = x"
| "slot_mut LinearNames g x = x\<lparr>id_linear_names := slot_list (g (List_Slot (id_linear_names x)))\<rparr>"
| "slot_mut GithubUsernames g x = x\<lparr>id_github_usernames := slot_list (g (List_Slot (id_github_usernames x)))\<rparr>"
| "slot_mut SentryUsernames g x = x\<lparr>id_sentry_usernames := slot_list (g (List_Slot (id_sentry_usernames x)))\<rparr>"
| "slot_mut JiraUsernames g x = x\<lparr>id_jira_usernames := slot_list (g (List_Slot (id_jira_usernames x)))\<rparr>"
| "slot_mut GitlabUsernames g x = x\<lparr>id_gitlab_usernames := slot_list (g (List_Slot (id_gitlab_usernames x)))\<rparr>"
| "slot_mut DiscordId g x = x\<lparr>id_discord_id := slot_scalar (g (Scalar (id_discord_id x)))\<rparr>"
| "slot_mut SlackId g x = x\<lparr>id_slack_id := slot_scalar (g (Scalar (id_slack_id x)))\<rparr>"
| "slot_mut Email g x = x\<lparr>id_email := slot_scalar (g (Scalar (id_email x)))\<rparr>"
| "slot_mut PushUserKey g x = x\<lparr>id_push_user_key := slot_scalar (g (Scalar (id_push_user_key x)))\<rparr>"
| "slot_mut SmsNumber g x = x\<lparr>id_sms_number := slot_scalar (g (Scalar (id_sms_number x)))\<rparr>"
| "slot_mut WhatsappNumber g x = x\<lparr>id_whatsapp_number := slot_scalar (g (Scalar (id_whatsapp_number x)))\<rparr>"
| "slot_mut TelegramChatId g x = x\<lparr>id_telegram_chat_id := slot_scalar (g (Scalar (id_telegram_chat_id x)))\<rparr>"

definition normalize_value :: "IdentityField \<Rightarrow> string \<Rightarrow> string option" where
  "normalize_value f v =
     (let trimmed = trim v;
          handle = (if is_case_insensitive f
                    then (case strip_prefix ''@'' trimmed of None \<Rightarrow> trimmed | Some rest \<Rightarrow> rest)
                    else trimmed)
      in if handle = [] then None else Some handle)"

text \<open>Keeping the values whose key \<open>seen.insert(..)\<close> has not met yet.\<close>

fun first_of_key :: "('a \<Rightarrow> 'k) \<Rightarrow> 'k list \<Rightarrow> 'a list \<Rightarrow> 'a list" where
  "first_of_key key seen [] = []"
| "first_of_key key seen (v # vs) =
     (if key v \<in> set seen then first_of_key key seen vs
      else v # first_of_key key (key v # seen) vs)"

fun normalize_slot :: "(string \<Rightarrow> string) \<Rightarrow> IdentityField \<Rightarrow> Slot \<Rightarrow> Slot" where
  "normalize_slot lower f (List_Slot vs) =
     List_Slot (first_of_key (comparison_key lower f) [] (List.map_filter (normalize_value f) vs))"
| "normalize_slot lower f (Scalar v) = Scalar (Option.bind v (normalize_value f))"

definition normalized :: "(string \<Rightarrow> string) \<Rightarrow> Identities \<Rightarrow> Identities" where
  "normalized lower x = fold (\<lambda>f. slot_mut f (normalize_slot lower f)) identity_fields x"

fun violation_of :: "IdentityViolation + unit \<Rightarrow> IdentityViolation option" where
  "violation_of (Inl e) = Some e"
| "violation_of (Inr _) = None"

definition slot_violations :: "Identities \<Rightarrow> IdentityField \<Rightarrow> IdentityViolation list" where
  "slot_violations x f =
     (case slot x f of
        None \<Rightarrow> []
      | Some s \<Rightarrow> List.map_filter (\<lambda>v. violation_of (validate_value f v)) (slot_values s))"

definition validate :: "Identities \<Rightarrow> IdentityViolation list + unit" where
  "validate x =
     (let violations = concat (map (slot_violations x) identity_fields)
      in if violations = [] then Inr () else Inl violations)"

definition redacted_identities :: "Identities \<Rightarrow> Identities" where
  "redacted_identities x = fold (\<lambda>f. slot_mut f slot_cleared) (filter is_sensitive identity_fields) x"

definition field_values :: "Identities \<Rightarrow> IdentityField \<Rightarrow> string list" where
  "field_values x f = (case slot x f of None \<Rightarrow> [] | Some s \<Rightarrow> slot_values s)"

definition identities_is_empty :: "Identities \<Rightarrow> bool" where
  "identities_is_empty x = list_all slot_is_empty (List.map_filter (slot x) identity_fields)"

record ConsoleIdentity =
  ci_user_id :: int
  ci_login_email :: string
  ci_name :: string
  ci_slug :: "string option"
  ci_identities :: Identities
  ci_updated_at :: string

section \<open>Slots\<close>

lemma identities_eqI: "(\<And>f. slot x f = slot y f) \<Longrightarrow> x = (y :: Identities)"
proof -
  assume slots: "\<And>f. slot x f = slot y f"
  show ?thesis
    using slots [of LinearNames] slots [of GithubUsernames] slots [of SentryUsernames] slots [of JiraUsernames]
      slots [of GitlabUsernames] slots [of DiscordId] slots [of SlackId] slots [of Email] slots [of PushUserKey]
      slots [of SmsNumber] slots [of WhatsappNumber] slots [of TelegramChatId]
    by (cases x, cases y) simp
qed

definition same_shape :: "(Slot \<Rightarrow> Slot) \<Rightarrow> bool" where
  "same_shape g \<longleftrightarrow> (\<forall>vs. \<exists>ws. g (List_Slot vs) = List_Slot ws) \<and> (\<forall>v. \<exists>w. g (Scalar v) = Scalar w)"

lemma same_shape_cleared [simp]: "same_shape slot_cleared"
  by (simp add: same_shape_def)

lemma same_shape_normalize [simp]: "same_shape (normalize_slot lower f)"
  by (simp add: same_shape_def)

lemma slot_slot_mut_same: "same_shape g \<Longrightarrow> slot (slot_mut f g x) f = map_option g (slot x f)"
  by (cases f) (auto simp: same_shape_def, (metis slot_list.simps(1) slot_scalar.simps(2))+)

lemma slot_slot_mut_other: "h \<noteq> f \<Longrightarrow> slot (slot_mut f g x) h = slot x h"
  by (cases f; cases h) simp_all

text \<open>What a loop over fields that rewrites their slots does.\<close>

lemma slot_fold:
  assumes "\<And>f. same_shape (g f)" "distinct fs"
  shows "slot (fold (\<lambda>f. slot_mut f (g f)) fs x) h =
    (if h \<in> set fs then map_option (g h) (slot x h) else slot x h)"
  using assms(2)
proof (induction fs arbitrary: x)
  case (Cons f fs)
  then show ?case
    by (cases "h = f") (simp_all add: slot_slot_mut_same slot_slot_mut_other assms(1))
qed simp

lemma slot_normalized: "slot (normalized lower x) f = map_option (normalize_slot lower f) (slot x f)"
  unfolding normalized_def by (subst slot_fold) (simp_all add: distinct_identity_fields)

lemma slot_redacted:
  "slot (redacted_identities x) f = (if is_sensitive f then map_option slot_cleared (slot x f) else slot x f)"
  unfolding redacted_identities_def by (subst slot_fold) (simp_all add: distinct_identity_fields)

lemma slot_Slug [simp]: "slot x f = None \<longleftrightarrow> f = Slug"
  by (cases f) simp_all

section \<open>Normal forms\<close>

lemma trim_trim [simp]: "trim (trim s) = trim s"
proof -
  let ?a = "strip_while whitespace_encodings s"
  let ?t = "trim s"
  have t: "?t = rev (strip_while (map rev whitespace_encodings) (rev ?a))"
    by (simp add: trim_def trim_start_seqs_def trim_end_seqs_def)
  obtain u where "rev ?a = u @ rev ?t" using strip_while_suffix [of "rev ?a"] t by (metis rev_rev_ident)
  then have prefix: "?a = ?t @ rev u" by (metis rev_append rev_rev_ident)
  have "strip_first ps ?a = None \<Longrightarrow> strip_first ps ?t = None" for ps
    by (induction ps) (auto simp: prefix strip_prefix_Some split: option.splits if_splits)
  then have "strip_while whitespace_encodings ?t = ?t"
    using strip_first_stop [of whitespace_encodings s] by (subst strip_while.simps) simp
  moreover have "strip_while (map rev whitespace_encodings) (rev ?t) = rev ?t" by (simp add: t)
  ultimately show ?thesis
    by (simp add: trim_def trim_start_seqs_def trim_end_seqs_def)
qed

lemma first_of_key_subset: "set (first_of_key key seen vs) \<subseteq> set vs"
  by (induction key seen vs rule: first_of_key.induct) auto

lemma first_of_key_distinct:
  "distinct (map key (first_of_key key seen vs)) \<and> set (map key (first_of_key key seen vs)) \<inter> set seen = {}"
  by (induction key seen vs rule: first_of_key.induct) auto

lemma first_of_key_same:
  "distinct (map key vs) \<Longrightarrow> set (map key vs) \<inter> set seen = {} \<Longrightarrow> first_of_key key seen vs = vs"
  by (induction key seen vs rule: first_of_key.induct) auto

lemma first_of_key_keys: "set (map key (first_of_key key seen vs)) \<union> set seen = set (map key vs) \<union> set seen"
  by (induction key seen vs rule: first_of_key.induct) auto

lemma normalize_value_Some:
  "normalize_value f v = Some w \<Longrightarrow> w \<noteq> [] \<and> (is_case_insensitive f \<or> trim w = w)"
  by (auto simp: normalize_value_def Let_def split: if_splits)

text \<open>A login is made of letters, digits and punctuation, so it has no space and no \<open>@\<close> to lose.\<close>

lemma trim_no_whitespace:
  assumes "\<And>p. p \<in> set whitespace_encodings \<Longrightarrow> \<not> contains_text s p"
  shows "trim s = s"
proof -
  have none: "strip_first ps s' = None"
    if "\<And>p. p \<in> set ps \<Longrightarrow> strip_prefix p s' = None" for ps and s' :: string
    using that by (induction ps) auto
  have "strip_prefix p s = None" if "p \<in> set whitespace_encodings" for p
    using assms [OF that] contains_text_iff [of s p] strip_prefix_Some [of p s]
    by (metis append_Nil not_None_eq)
  moreover have "strip_prefix (rev p) (rev s) = None" if "p \<in> set whitespace_encodings" for p
  proof (rule ccontr)
    assume "strip_prefix (rev p) (rev s) \<noteq> None"
    then obtain r where "s = r @ p" using ends_with_iff [of s p] by (auto simp: ends_with_def)
    then show False using assms [OF that] contains_text_iff [of s p] by (metis append_Nil2)
  qed
  ultimately show ?thesis
    by (intro trim_id none) auto
qed

definition login_char :: "char \<Rightarrow> bool" where
  "login_char c \<longleftrightarrow> is_ascii_alphanumeric c \<or> c \<in> set ''_.-''"

lemma whitespace_not_login: "list_all (\<lambda>p. list_ex (\<lambda>c. \<not> login_char c) p) whitespace_encodings"
  by code_simp

lemma at_not_login: "\<not> login_char (CHR ''@'')"
  by code_simp

lemma trim_login: "list_all login_char s \<Longrightarrow> trim s = s"
  using whitespace_not_login
  by (intro trim_no_whitespace) (fastforce simp: contains_text_iff list_all_iff list_ex_iff)

lemma valid_login: "is_case_insensitive f \<Longrightarrow> valid_value f v \<Longrightarrow> list_all login_char v \<and> v \<noteq> []"
  by (cases v)
    (auto simp: is_case_insensitive_def is_github_login_def login_char_def list_all_iff)

lemma normalize_valid_login:
  assumes "is_case_insensitive f" "valid_value f v"
  shows "normalize_value f v = Some v"
proof -
  have v: "list_all login_char v" "v \<noteq> []" using valid_login assms by auto
  then have "strip_prefix ''@'' v = None"
    using at_not_login by (cases v) auto
  with v assms(1) show ?thesis by (simp add: normalize_value_def trim_login)
qed

lemma normalize_value_stable:
  "normalize_value f v = Some w \<Longrightarrow> valid_value f w \<Longrightarrow> normalize_value f w = Some w"
  using normalize_value_Some [of f v w] normalize_valid_login [of f w]
  by (cases "is_case_insensitive f") (auto simp: normalize_value_def)

lemma map_filter_all: "(\<And>v. v \<in> set vs \<Longrightarrow> g v = Some v) \<Longrightarrow> List.map_filter g vs = vs"
  by (induction vs) (simp_all add: List.map_filter_def)

lemma set_map_filter_iff: "w \<in> set (List.map_filter g vs) \<longleftrightarrow> (\<exists>v \<in> set vs. g v = Some w)"
  by (induction vs) (auto simp: List.map_filter_def)

lemma map_filter_empty: "List.map_filter g vs = [] \<longleftrightarrow> (\<forall>v \<in> set vs. g v = None)"
  by (induction vs) (auto simp: List.map_filter_def)

lemma normalize_slot_stable:
  assumes "list_all (valid_value f) (slot_values (normalize_slot lower f s))"
  shows "normalize_slot lower f (normalize_slot lower f s) = normalize_slot lower f s"
proof (cases s)
  case (List_Slot vs)
  let ?ws = "first_of_key (comparison_key lower f) [] (List.map_filter (normalize_value f) vs)"
  have "normalize_value f w = Some w" if "w \<in> set ?ws" for w
    using that assms List_Slot
      subsetD [OF first_of_key_subset [of "comparison_key lower f" "[]" "List.map_filter (normalize_value f) vs"], of w]
    by (auto simp: list_all_iff set_map_filter_iff intro: normalize_value_stable)
  then have "List.map_filter (normalize_value f) ?ws = ?ws" by (rule map_filter_all)
  then show ?thesis
    using List_Slot by (simp add: first_of_key_same first_of_key_distinct)
next
  case (Scalar v)
  with assms show ?thesis
    by (cases v; cases "normalize_value f (the v)") (auto intro: normalize_value_stable)
qed

lemma validate_ok: "validate x = Inr () \<longleftrightarrow> (\<forall>f. list_all (valid_value f) (field_values x f))"
proof -
  have "violation_of r = None \<longleftrightarrow> r = Inr ()" for r :: "IdentityViolation + unit"
    by (cases r) auto
  then have "slot_violations x f = [] \<longleftrightarrow> list_all (valid_value f) (field_values x f)" for f
    by (auto simp: slot_violations_def field_values_def map_filter_empty validate_value_ok list_all_iff
        split: option.splits)
  then show ?thesis
    by (simp add: validate_def Let_def)
qed

section \<open>Properties\<close>

text \<open>
  Normalizing is idempotent on everything that passes validation: once the normal form of a person's
  handles is valid, normalizing it again changes nothing. (In general it is not: each pass strips one \<open>@\<close>.)
\<close>

theorem valid_normal_form_is_stable:
  assumes "validate (normalized lower x) = Inr ()"
  shows "normalized lower (normalized lower x) = normalized lower x"
proof (rule identities_eqI)
  fix f
  have "list_all (valid_value f) (field_values (normalized lower x) f)"
    using assms by (simp add: validate_ok)
  then show "slot (normalized lower (normalized lower x)) f = slot (normalized lower x) f"
    by (cases "slot x f") (simp_all add: slot_normalized field_values_def normalize_slot_stable)
qed

definition no_identities :: Identities where
  "no_identities = \<lparr>id_linear_names = [], id_github_usernames = [], id_sentry_usernames = [], id_jira_usernames = [],
     id_gitlab_usernames = [], id_discord_id = None, id_slack_id = None, id_email = None, id_push_user_key = None,
     id_sms_number = None, id_whatsapp_number = None, id_telegram_chat_id = None\<rparr>"

definition example_identities :: Identities where
  "example_identities = no_identities\<lparr>id_github_usernames := ['' @Amy-B '', ''amy-b'', '''']\<rparr>"

lemma trim_example: "trim '' @Amy-B '' = ''@Amy-B''"
proof -
  show ?thesis
    by (simp add: trim_def trim_start_seqs_def trim_end_seqs_def whitespace_encodings_chars strip_while_unfold)
qed

lemma example_normalized:
  "normalized ascii_lowercase example_identities = no_identities\<lparr>id_github_usernames := [''Amy-B'']\<rparr>"
proof -
  have "normalize_value GithubUsernames '' @Amy-B '' = Some ''Amy-B''"
    by (simp add: normalize_value_def trim_example is_case_insensitive_def)
  moreover have "normalize_value GithubUsernames ''amy-b'' = Some ''amy-b''"
    by (rule normalize_valid_login) code_simp+
  moreover have "normalize_value GithubUsernames '''' = None"
    by (simp add: normalize_value_def trim_def trim_start_seqs_def trim_end_seqs_def whitespace_encodings_chars
        strip_while_unfold)
  moreover have "ascii_lowercase ''Amy-B'' = ascii_lowercase ''amy-b''" by code_simp
  ultimately show ?thesis
    by (simp add: normalized_def example_identities_def identity_fields_def no_identities_def comparison_key_def
        is_case_insensitive_def List.map_filter_def)
qed

lemma valid_normal_form_is_stable_witness:
  "normalized ascii_lowercase (normalized ascii_lowercase example_identities) =
     normalized ascii_lowercase example_identities"
proof (rule valid_normal_form_is_stable)
  have "valid_value GithubUsernames ''Amy-B''" by code_simp
  then show "validate (normalized ascii_lowercase example_identities) = Inr ()"
    unfolding validate_ok
  proof (intro allI)
    fix f
    show "list_all (valid_value f) (field_values (normalized ascii_lowercase example_identities) f)"
      using \<open>valid_value GithubUsernames ''Amy-B''\<close>
      by (cases f) (simp_all add: field_values_def example_normalized no_identities_def)
  qed
qed

text \<open>
  Validation accepts exactly the handles whose values are all valid, and otherwise reports exactly the
  invalid values, in the order of the fields and values.
\<close>

theorem validation_exact:
  "case validate x of
     Inr u \<Rightarrow> list_all (\<lambda>f. list_all (valid_value f) (field_values x f)) identity_fields
   | Inl vs \<Rightarrow> vs \<noteq> [] \<and> map iv_field vs = concat (map (\<lambda>f. map (\<lambda>v. f)
       (filter (\<lambda>v. \<not> valid_value f v) (field_values x f))) identity_fields)"
proof (cases "validate x")
  case (Inl vs)
  then have vs: "vs = concat (map (slot_violations x) identity_fields)" "vs \<noteq> []"
    by (auto simp: validate_def Let_def split: if_splits)
  have one: "map iv_field (List.map_filter (\<lambda>v. violation_of (validate_value f v)) us) =
      map (\<lambda>v. f) (filter (\<lambda>v. \<not> valid_value f v) us)" for f us
  proof (induction us)
    case (Cons u us)
    then show ?case
      using validate_value_ok [of f u] validate_value_violation [of f u]
      by (cases "validate_value f u") (auto simp: List.map_filter_def)
  qed (simp add: List.map_filter_def)
  have "map iv_field (slot_violations x f) =
      map (\<lambda>v. f) (filter (\<lambda>v. \<not> valid_value f v) (field_values x f))" for f
    by (auto simp: slot_violations_def field_values_def one split: option.splits)
  with vs show ?thesis
    by (simp add: Inl map_concat comp_def)
next
  case (Inr u)
  then show ?thesis using validate_ok [of x] by (simp add: list_all_iff)
qed

text \<open>The message of a violation never repeats a sensitive value.\<close>

lemma sensitive_message: "is_sensitive f \<Longrightarrow> violation_message f v = violation_message f w"
  by (cases f) (simp_all add: is_sensitive_def)

lemma redacted_hides_sensitive:
  "field_values (redacted_identities x) f = (if is_sensitive f then [] else field_values x f)"
proof (cases "slot x f")
  case (Some s)
  then show ?thesis by (cases s) (simp_all add: field_values_def slot_redacted)
qed (simp add: field_values_def slot_redacted)

end
