(* ===== verification/User_Registry.thy ===== *)
theory User_Registry
  imports Identities "HOL-Library.List_Lexorder" "HOL-Library.Char_ord" "HOL-Library.AList" "HOL-Library.Multiset"
begin

text \<open>
  The registry of people, \<open>crates/claudear-config/src/users.rs\<close>: people from the configuration merged with the
  console's, and who owns a handle. A hash map of the code is the list of its entries in its iteration
  order, which the standard library leaves open, when the code walks it, and a partial function when the
  code only looks keys up. Keys compare by their bytes, as the orders of \<open>List_Lexorder\<close> and \<open>Char_ord\<close> do.
\<close>

section \<open>Configuration\<close>

record UserConfig =
  linear_names :: "string list"
  github_usernames :: "string list"
  sentry_usernames :: "string list"
  jira_usernames :: "string list"
  gitlab_usernames :: "string list"
  discord_id :: "string option"
  slack_id :: "string option"
  email :: "string option"
  push_user_key :: "string option"
  sms_number :: "string option"
  whatsapp_number :: "string option"
  telegram_chat_id :: "string option"

definition identities_of_user :: "UserConfig \<Rightarrow> Identities" where
  "identities_of_user u =
     \<lparr>id_linear_names = linear_names u, id_github_usernames = github_usernames u,
      id_sentry_usernames = sentry_usernames u, id_jira_usernames = jira_usernames u,
      id_gitlab_usernames = gitlab_usernames u, id_discord_id = discord_id u, id_slack_id = slack_id u,
      id_email = email u, id_push_user_key = push_user_key u, id_sms_number = sms_number u,
      id_whatsapp_number = whatsapp_number u, id_telegram_chat_id = telegram_chat_id u\<rparr>"

definition user_of_identities :: "Identities \<Rightarrow> UserConfig" where
  "user_of_identities x =
     \<lparr>linear_names = id_linear_names x, github_usernames = id_github_usernames x,
      sentry_usernames = id_sentry_usernames x, jira_usernames = id_jira_usernames x,
      gitlab_usernames = id_gitlab_usernames x, discord_id = id_discord_id x, slack_id = id_slack_id x,
      email = id_email x, push_user_key = id_push_user_key x, sms_number = id_sms_number x,
      whatsapp_number = id_whatsapp_number x, telegram_chat_id = id_telegram_chat_id x\<rparr>"

lemma identities_user_round_trip [simp]:
  "user_of_identities (identities_of_user u) = u" "identities_of_user (user_of_identities x) = x"
  by (simp_all add: identities_of_user_def user_of_identities_def)

datatype NotificationChannel = Discord | Slack | Email_Channel | Push | Sms | Whatsapp | Telegram

fun channel_address :: "NotificationChannel \<Rightarrow> UserConfig \<Rightarrow> string option" where
  "channel_address Discord u = discord_id u"
| "channel_address Slack u = slack_id u"
| "channel_address Email_Channel u = email u"
| "channel_address Push u = push_user_key u"
| "channel_address Sms u = sms_number u"
| "channel_address Whatsapp u = whatsapp_number u"
| "channel_address Telegram u = telegram_chat_id u"

definition handle_sources :: "(string \<times> IdentityField) list" where
  "handle_sources =
     [(''linear'', LinearNames), (''github'', GithubUsernames), (''sentry'', SentryUsernames),
      (''jira'', JiraUsernames), (''gitlab'', GitlabUsernames)]"

record ResolvedUser =
  ru_slug :: string
  ru_discord_id :: "string option"
  ru_slack_id :: "string option"
  ru_email :: "string option"
  ru_push_user_key :: "string option"
  ru_sms_number :: "string option"

section \<open>The seed\<close>

definition explicit_slug :: "ConsoleIdentity \<Rightarrow> string option" where
  "explicit_slug e =
     (case ci_slug e of None \<Rightarrow> None | Some s \<Rightarrow> (let slug = trim s in if slug = [] then None else Some slug))"

definition console_key :: "int \<Rightarrow> string" where
  "console_key user_id = console_key_prefix @ show_int user_id"

definition email_key :: "(string \<Rightarrow> string) \<Rightarrow> string \<Rightarrow> string option" where
  "email_key lower address =
     (let trimmed = trim address in if trimmed = [] then None else Some (lower trimmed))"

definition source_field :: "string \<Rightarrow> IdentityField option" where
  "source_field source =
     map_option snd (find (\<lambda>(name, f). eq_ignore_ascii_case name source) handle_sources)"

fun exclusive_values :: "UserConfig \<Rightarrow> IdentityField \<Rightarrow> string list" where
  "exclusive_values u LinearNames = linear_names u"
| "exclusive_values u GithubUsernames = github_usernames u"
| "exclusive_values u SentryUsernames = sentry_usernames u"
| "exclusive_values u JiraUsernames = jira_usernames u"
| "exclusive_values u GitlabUsernames = gitlab_usernames u"
| "exclusive_values u DiscordId = (case discord_id u of None \<Rightarrow> [] | Some v \<Rightarrow> [v])"
| "exclusive_values u SlackId = (case slack_id u of None \<Rightarrow> [] | Some v \<Rightarrow> [v])"
| "exclusive_values u f = []"

record Seed =
  seed_users :: "(string \<times> UserConfig) list"
  seed_emails :: "string \<Rightarrow> string list option"

definition push_email :: "(string \<Rightarrow> string) \<Rightarrow> string \<times> UserConfig \<Rightarrow> (string \<Rightarrow> string list option) \<Rightarrow>
    (string \<Rightarrow> string list option)" where
  "push_email lower = (\<lambda>(key, user) emails.
     (case Option.bind (email user) (email_key lower) of
        None \<Rightarrow> emails
      | Some address \<Rightarrow> emails(address \<mapsto> case_option [] id (emails address) @ [key])))"

definition seed_new :: "(string \<Rightarrow> string) \<Rightarrow> (string \<times> UserConfig) list \<Rightarrow> Seed" where
  "seed_new lower users =
     (let kept = filter (\<lambda>(key, user). \<not> starts_with key console_key_prefix) users;
          emails = fold (push_email lower) kept (\<lambda>address. None)
      in \<lparr>seed_users = kept, seed_emails = map_option sort \<circ> emails\<rparr>)"

definition keys_for_email :: "(string \<Rightarrow> string) \<Rightarrow> Seed \<Rightarrow> string \<Rightarrow> string list" where
  "keys_for_email lower seed address =
     (case Option.bind (email_key lower address) (seed_emails seed) of None \<Rightarrow> [] | Some keys \<Rightarrow> keys)"

section \<open>Person keys\<close>

text \<open>
  The two passes of \<open>assign_keys\<close> over the entries, each with the keys claimed so far: explicit slugs, then matches
  of the login email with the configuration; who has no key yet gets the console key.
\<close>

fun claim_slugs :: "ConsoleIdentity list \<Rightarrow> string set \<Rightarrow> string option list \<times> string set" where
  "claim_slugs [] claimed = ([], claimed)"
| "claim_slugs (e # es) claimed =
     (case explicit_slug e of
        Some slug \<Rightarrow>
          (if slug \<in> claimed then (case claim_slugs es claimed of (ks, c) \<Rightarrow> (None # ks, c))
           else (case claim_slugs es (insert slug claimed) of (ks, c) \<Rightarrow> (Some slug # ks, c)))
      | None \<Rightarrow> (case claim_slugs es claimed of (ks, c) \<Rightarrow> (None # ks, c)))"

fun claim_emails :: "(string \<Rightarrow> string) \<Rightarrow> Seed \<Rightarrow> (string option \<times> ConsoleIdentity) list \<Rightarrow> string set \<Rightarrow>
    string option list" where
  "claim_emails lower seed [] claimed = []"
| "claim_emails lower seed ((Some key, e) # rest) claimed = Some key # claim_emails lower seed rest claimed"
| "claim_emails lower seed ((None, e) # rest) claimed =
     (case find (\<lambda>key. key \<notin> claimed) (keys_for_email lower seed (ci_login_email e)) of
        Some key \<Rightarrow> Some key # claim_emails lower seed rest (insert key claimed)
      | None \<Rightarrow> None # claim_emails lower seed rest claimed)"

definition assign_keys :: "(string \<Rightarrow> string) \<Rightarrow> Seed \<Rightarrow> ConsoleIdentity list \<Rightarrow> string list" where
  "assign_keys lower seed entries =
     (case claim_slugs entries {} of (slugs, claimed) \<Rightarrow>
        (let keys = claim_emails lower seed (zip slugs entries) claimed
         in map2 (\<lambda>key e. case_option (console_key (ci_user_id e)) id key) keys entries))"

section \<open>The directory\<close>

record Person =
  ps_key :: string
  ps_origin :: IdentityOrigin
  ps_user :: UserConfig

definition person_resolved :: "Person \<Rightarrow> ResolvedUser" where
  "person_resolved p =
     \<lparr>ru_slug = ps_key p, ru_discord_id = discord_id (ps_user p), ru_slack_id = slack_id (ps_user p),
      ru_email = email (ps_user p), ru_push_user_key = push_user_key (ps_user p),
      ru_sms_number = sms_number (ps_user p)\<rparr>"

type_synonym handle = "IdentityField \<times> string"

definition handle_new :: "(string \<Rightarrow> string) \<Rightarrow> IdentityField \<Rightarrow> string \<Rightarrow> handle" where
  "handle_new lower f v = (f, comparison_key lower f v)"

record Directory =
  dir_entries :: "ConsoleIdentity list"
  dir_consoles :: "int \<Rightarrow> nat option"
  dir_persons :: "Person list"
  dir_keys :: "string \<Rightarrow> nat option"
  dir_handles :: "handle \<Rightarrow> nat option"

fun dedup_by_key :: "('a \<Rightarrow> 'k) \<Rightarrow> 'a list \<Rightarrow> 'a list" where
  "dedup_by_key key (x # y # xs) =
     (if key x = key y then dedup_by_key key (x # xs) else x # dedup_by_key key (y # xs))"
| "dedup_by_key key xs = xs"

definition or_insert :: "'k \<Rightarrow> 'v \<Rightarrow> ('k \<Rightarrow> 'v option) \<Rightarrow> ('k \<Rightarrow> 'v option)" where
  "or_insert k v m = (case m k of None \<Rightarrow> m(k \<mapsto> v) | Some _ \<Rightarrow> m)"

definition person_handles :: "(string \<Rightarrow> string) \<Rightarrow> Person \<Rightarrow> handle list" where
  "person_handles lower p =
     concat (map (\<lambda>f. map (handle_new lower f) (exclusive_values (ps_user p) f)) exclusive_fields)"

definition claim_handles :: "(string \<Rightarrow> string) \<Rightarrow> nat \<times> Person \<Rightarrow> (handle \<Rightarrow> nat option) \<Rightarrow> (handle \<Rightarrow> nat option)" where
  "claim_handles lower = (\<lambda>(index, p). fold (\<lambda>h. or_insert h index) (person_handles lower p))"

definition console_entries :: "ConsoleIdentity list \<Rightarrow> ConsoleIdentity list" where
  "console_entries entries = dedup_by_key ci_user_id (sort_key ci_user_id entries)"

definition directory_persons :: "(string \<Rightarrow> string) \<Rightarrow> Seed \<Rightarrow> ConsoleIdentity list \<Rightarrow> Person list" where
  "directory_persons lower seed entries =
     (let console_keys = assign_keys lower seed entries;
          config_keys = sort (filter (\<lambda>key. key \<notin> set console_keys) (map fst (seed_users seed)))
      in map2 (\<lambda>e key. \<lparr>ps_key = key, ps_origin = Console, ps_user = user_of_identities (ci_identities e)\<rparr>)
           entries console_keys @
         map (\<lambda>key. \<lparr>ps_key = key, ps_origin = Config_Entry, ps_user = the (map_of (seed_users seed) key)\<rparr>) config_keys)"

definition directory_build :: "(string \<Rightarrow> string) \<Rightarrow> Seed \<Rightarrow> ConsoleIdentity list \<Rightarrow> Directory" where
  "directory_build lower seed entries =
     (let entries = console_entries entries;
          persons = directory_persons lower seed entries;
          keys = fold (\<lambda>(index, p). or_insert (ps_key p) index) (List.enumerate 0 persons) (\<lambda>k. None)
      in \<lparr>dir_entries = entries,
          dir_consoles = fold (\<lambda>(index, e) m. m(ci_user_id e \<mapsto> index)) (List.enumerate 0 entries) (\<lambda>k. None),
          dir_persons = persons,
          dir_keys = fold (\<lambda>(index, e) m. m(console_key (ci_user_id e) \<mapsto> index)) (List.enumerate 0 entries) keys,
          dir_handles = fold (claim_handles lower) (List.enumerate 0 persons) (\<lambda>h. None)\<rparr>)"

definition directory_person :: "Directory \<Rightarrow> string \<Rightarrow> Person option" where
  "directory_person dir key = map_option ((!) (dir_persons dir)) (dir_keys dir key)"

definition handle_owner :: "(string \<Rightarrow> string) \<Rightarrow> Directory \<Rightarrow> IdentityField \<Rightarrow> string \<Rightarrow> Person option" where
  "handle_owner lower dir f v = map_option ((!) (dir_persons dir)) (dir_handles dir (handle_new lower f v))"

definition stored_key :: "(string \<Rightarrow> string) \<Rightarrow> Directory \<Rightarrow> ConsoleIdentity \<Rightarrow> string option" where
  "stored_key lower dir e =
     (case dir_consoles dir (ci_user_id e) of
        None \<Rightarrow> None
      | Some index \<Rightarrow>
          (let stored = dir_entries dir ! index
           in if explicit_slug stored = explicit_slug e \<and>
                 email_key lower (ci_login_email stored) = email_key lower (ci_login_email e)
              then Some (ps_key (dir_persons dir ! index)) else None))"

definition directory_resolve_reference :: "Directory \<Rightarrow> NotificationChannel \<Rightarrow> string \<Rightarrow> string" where
  "directory_resolve_reference dir channel reference =
     (case Option.bind (directory_person dir reference) (\<lambda>p. channel_address channel (ps_user p)) of
        None \<Rightarrow> reference
      | Some address \<Rightarrow> address)"

section \<open>The registry\<close>

text \<open>Every clone shares one directory: the state of the registry is the seed and the current directory.\<close>

record UserRegistry =
  reg_seed :: Seed
  reg_directory :: Directory

definition registry_new :: "(string \<Rightarrow> string) \<Rightarrow> (string \<times> UserConfig) list \<Rightarrow> UserRegistry" where
  "registry_new lower users =
     (let seed = seed_new lower users in \<lparr>reg_seed = seed, reg_directory = directory_build lower seed []\<rparr>)"

definition replace_console :: "(string \<Rightarrow> string) \<Rightarrow> ConsoleIdentity list \<Rightarrow> UserRegistry \<Rightarrow> UserRegistry" where
  "replace_console lower entries r = r\<lparr>reg_directory := directory_build lower (reg_seed r) entries\<rparr>"

fun reload :: "(string \<Rightarrow> string) \<Rightarrow> 'e + ConsoleIdentity list \<Rightarrow> UserRegistry \<Rightarrow> ('e + unit) \<times> UserRegistry" where
  "reload lower (Inl e) r = (Inl e, r)"
| "reload lower (Inr entries) r = (Inr (), replace_console lower entries r)"

definition resolve_assignee :: "(string \<Rightarrow> string) \<Rightarrow> UserRegistry \<Rightarrow> string \<Rightarrow> string \<Rightarrow> ResolvedUser option" where
  "resolve_assignee lower r source assignee =
     (case source_field source of
        None \<Rightarrow> None
      | Some f \<Rightarrow> map_option person_resolved (handle_owner lower (reg_directory r) f assignee))"

definition get_by_slug :: "UserRegistry \<Rightarrow> string \<Rightarrow> UserConfig option" where
  "get_by_slug r slug = map_option ps_user (directory_person (reg_directory r) slug)"

text \<open>Collecting into a hash map: the last value of a key stays.\<close>

definition collect_entries :: "('k \<times> 'v) list \<Rightarrow> ('k \<times> 'v) list" where
  "collect_entries kvs = fold (\<lambda>(k, v). AList.update k v) kvs []"

definition registry_users :: "UserRegistry \<Rightarrow> (string \<times> UserConfig) list" where
  "registry_users r = collect_entries (map (\<lambda>p. (ps_key p, ps_user p)) (dir_persons (reg_directory r)))"

definition person_origin :: "UserRegistry \<Rightarrow> string \<Rightarrow> IdentityOrigin option" where
  "person_origin r slug = map_option ps_origin (directory_person (reg_directory r) slug)"

definition person_key :: "(string \<Rightarrow> string) \<Rightarrow> UserRegistry \<Rightarrow> ConsoleIdentity \<Rightarrow> string" where
  "person_key lower r e =
     (case explicit_slug e of
        Some slug \<Rightarrow> slug
      | None \<Rightarrow>
          (case stored_key lower (reg_directory r) e of
             Some key \<Rightarrow> key
           | None \<Rightarrow>
               (let others = filter (\<lambda>x. ci_user_id x \<noteq> ci_user_id e) (dir_entries (reg_directory r));
                    entries = sort_key ci_user_id (others @ [e])
                in case find (\<lambda>(x, key). ci_user_id x = ci_user_id e)
                          (zip entries (assign_keys lower (reg_seed r) entries)) of
                     Some (x, key) \<Rightarrow> key
                   | None \<Rightarrow> console_key (ci_user_id e))))"

definition configured_for_email :: "(string \<Rightarrow> string) \<Rightarrow> UserRegistry \<Rightarrow> string \<Rightarrow> (string \<times> UserConfig) option" where
  "configured_for_email lower r address =
     (case keys_for_email lower (reg_seed r) address of
        [] \<Rightarrow> None
      | key # rest \<Rightarrow> map_option (Pair key) (map_of (seed_users (reg_seed r)) key))"

definition registry_owner :: "(string \<Rightarrow> string) \<Rightarrow> UserRegistry \<Rightarrow> IdentityField \<Rightarrow> string \<Rightarrow> string option" where
  "registry_owner lower r f v =
     (let person =
        (if f = Slug
         then (case directory_person (reg_directory r) v of
                 None \<Rightarrow> None
               | Some p \<Rightarrow> if ps_origin p = Console then Some p else None)
         else handle_owner lower (reg_directory r) f v)
      in map_option ps_key person)"

definition discord_id_for_github :: "(string \<Rightarrow> string) \<Rightarrow> UserRegistry \<Rightarrow> string \<Rightarrow> string option" where
  "discord_id_for_github lower r login =
     Option.bind (handle_owner lower (reg_directory r) GithubUsernames login) (\<lambda>p. discord_id (ps_user p))"

definition resolve_reference :: "UserRegistry \<Rightarrow> NotificationChannel \<Rightarrow> string \<Rightarrow> string" where
  "resolve_reference r channel reference = directory_resolve_reference (reg_directory r) channel reference"

definition resolve_references :: "UserRegistry \<Rightarrow> NotificationChannel \<Rightarrow> string list \<Rightarrow> string list" where
  "resolve_references r channel references =
     map (directory_resolve_reference (reg_directory r) channel) references"

definition registry_is_empty :: "UserRegistry \<Rightarrow> bool" where
  "registry_is_empty r \<longleftrightarrow> dir_persons (reg_directory r) = []"

section \<open>First claims\<close>

lemma or_insert_apply: "or_insert k v m x = (if m x = None \<and> x = k then Some v else m x)"
  by (auto simp: or_insert_def split: option.splits)

lemma fold_or_insert:
  "fold (\<lambda>h. or_insert h i) hs m x = (if m x = None \<and> x \<in> set hs then Some i else m x)"
  by (induction hs arbitrary: m) (auto simp: or_insert_apply)

lemma first_claim:
  "fold (\<lambda>(i, p). fold (\<lambda>h. or_insert h i) (hs p)) (List.enumerate n ps) m x =
     (case m x of Some i \<Rightarrow> Some i
      | None \<Rightarrow> map_option fst (find (\<lambda>(i, p). x \<in> set (hs p)) (List.enumerate n ps)))"
  by (induction ps arbitrary: n m) (simp_all add: fold_or_insert split: option.splits)

lemma find_enumerate:
  "find (\<lambda>(i, p). P p) (List.enumerate n ps) = Some (i, p) \<Longrightarrow>
     n \<le> i \<and> i < n + length ps \<and> ps ! (i - n) = p \<and> find P ps = Some p"
  by (induction ps arbitrary: n) (fastforce simp: nth_Cons' split: if_splits)+

lemma find_enumerate_None: "find (\<lambda>(i, p). P p) (List.enumerate n ps) = None \<longleftrightarrow> find P ps = None"
  by (induction ps arbitrary: n) simp_all

lemma nth_first_claim:
  "map_option ((!) ps) (map_option fst (find (\<lambda>(i, p). P p) (List.enumerate 0 ps))) = find P ps"
proof (cases "find (\<lambda>(i, p). P p) (List.enumerate 0 ps)")
  case None
  then show ?thesis using find_enumerate_None [of P 0 ps] by simp
next
  case (Some q)
  then show ?thesis using find_enumerate [of P 0 ps "fst q" "snd q"] by simp
qed

lemma last_insert:
  assumes "distinct (map key es)"
  shows "fold (\<lambda>(i, e) m. m(key e \<mapsto> i)) (List.enumerate n es) m x =
    (case find (\<lambda>(i, e). key e = x) (List.enumerate n es) of Some (i, e) \<Rightarrow> Some i | None \<Rightarrow> m x)"
  using assms
proof (induction es arbitrary: n m)
  case (Cons e es)
  have "find (\<lambda>(i, e). key e = x) (List.enumerate (Suc n) es) = None" if "key e = x"
  proof -
    from that Cons.prems have "\<forall>y \<in> set es. key y \<noteq> x" by (metis distinct.simps(2) image_eqI list.set_map list.simps(9))
    then show ?thesis by (subst find_enumerate_None) (simp add: find_None_iff)
  qed
  with Cons show ?case by (auto split: option.splits)
qed simp

text \<open>Who owns a handle: the first person, in the order of the directory, with a value of the same key.\<close>

definition claims_handle :: "(string \<Rightarrow> string) \<Rightarrow> IdentityField \<Rightarrow> string \<Rightarrow> Person \<Rightarrow> bool" where
  "claims_handle lower f v p =
     list_ex (\<lambda>w. comparison_key lower f w = comparison_key lower f v) (exclusive_values (ps_user p) f)"

lemma exclusive_values_fields: "exclusive_values u f = [] \<or> f \<in> set exclusive_fields"
  by (cases f) (simp_all add: exclusive_fields_def)

lemma handle_claimed: "handle_new lower f v \<in> set (person_handles lower p) \<longleftrightarrow> claims_handle lower f v p"
proof -
  have "handle_new lower f v \<in> set (person_handles lower p) \<longleftrightarrow>
      f \<in> set exclusive_fields \<and> (\<exists>w \<in> set (exclusive_values (ps_user p) f). comparison_key lower f v = comparison_key lower f w)"
    by (auto simp: person_handles_def handle_new_def)
  then show ?thesis
    using exclusive_values_fields [of "ps_user p" f] by (force simp: claims_handle_def list_ex_iff)
qed

lemma handle_owner_built:
  "handle_owner lower (directory_build lower seed es) f v =
     find (claims_handle lower f v) (dir_persons (directory_build lower seed es))"
  by (simp add: handle_owner_def directory_build_def Let_def claim_handles_def first_claim handle_claimed nth_first_claim)

section \<open>The entries of a directory\<close>

lemma dedup_sorted:
  "sorted (map key xs) \<Longrightarrow>
     sorted (map key (dedup_by_key key xs)) \<and> distinct (map key (dedup_by_key key xs)) \<and>
     set (map key (dedup_by_key key xs)) = set (map key xs)"
proof (induction key xs rule: dedup_by_key.induct)
  case (1 key x y xs)
  show ?case
  proof (cases "key x = key y")
    case True
    with 1 show ?thesis by auto
  next
    case False
    with 1 have IH: "sorted (map key (dedup_by_key key (y # xs)))" "distinct (map key (dedup_by_key key (y # xs)))"
      "set (map key (dedup_by_key key (y # xs))) = set (map key (y # xs))" by auto
    from False 1 have "\<forall>z \<in> set (map key (y # xs)). key x < z" by fastforce
    with IH False show ?thesis by (auto simp: less_le)
  qed
qed auto

lemma dedup_subset: "set (dedup_by_key key xs) \<subseteq> set xs"
  by (induction key xs rule: dedup_by_key.induct) auto

lemma console_entries_sorted:
  "sorted (map ci_user_id (console_entries es))" "distinct (map ci_user_id (console_entries es))"
  "set (map ci_user_id (console_entries es)) = ci_user_id ` set es"
  using dedup_sorted [of ci_user_id "sort_key ci_user_id es"] by (simp_all add: console_entries_def)

lemma console_entries_subset: "set (console_entries es) \<subseteq> set es"
  using dedup_subset [of ci_user_id "sort_key ci_user_id es"] by (simp add: console_entries_def)

lemma dedup_distinct: "distinct (map key xs) \<Longrightarrow> dedup_by_key key xs = xs"
  by (induction key xs rule: dedup_by_key.induct) auto

lemma length_claim_slugs: "length (fst (claim_slugs es c)) = length es"
  by (induction es c rule: claim_slugs.induct) (auto split: option.splits prod.splits)

lemma length_claim_emails: "length (claim_emails lower seed kes c) = length kes"
  by (induction lower seed kes c rule: claim_emails.induct) (auto split: option.splits)

lemma length_assign_keys [simp]: "length (assign_keys lower seed es) = length es"
  using length_claim_slugs [of es "{}"]
  by (auto simp: assign_keys_def Let_def length_claim_emails split: prod.splits)

section \<open>Assigned keys\<close>

text \<open>Only the user id, the explicit slug and the login email of an entry matter for its key.\<close>

definition same_claim :: "(string \<Rightarrow> string) \<Rightarrow> ConsoleIdentity \<Rightarrow> ConsoleIdentity \<Rightarrow> bool" where
  "same_claim lower a b \<longleftrightarrow>
     ci_user_id a = ci_user_id b \<and> explicit_slug a = explicit_slug b \<and>
     email_key lower (ci_login_email a) = email_key lower (ci_login_email b)"

lemma claim_slugs_cong: "list_all2 (same_claim lower) es fs \<Longrightarrow> claim_slugs es c = claim_slugs fs c"
  by (induction es fs arbitrary: c rule: list_all2_induct) (auto simp: same_claim_def split: option.splits)

lemma keys_for_email_cong: "same_claim lower a b \<Longrightarrow>
    keys_for_email lower seed (ci_login_email a) = keys_for_email lower seed (ci_login_email b)"
  by (simp add: same_claim_def keys_for_email_def)

lemma claim_emails_cong:
  "list_all2 (same_claim lower) es fs \<Longrightarrow>
     claim_emails lower seed (zip ks es) c = claim_emails lower seed (zip ks fs) c"
proof (induction es fs arbitrary: c ks rule: list_all2_induct)
  case (Cons a es b fs)
  show ?case
  proof (cases ks)
    case k: (Cons k ks')
    then show ?thesis
      using Cons keys_for_email_cong [OF Cons(1), of seed] by (cases k) (auto split: option.splits)
  qed simp
qed simp

lemma assign_keys_cong:
  assumes "list_all2 (same_claim lower) es fs"
  shows "assign_keys lower seed es = assign_keys lower seed fs"
proof -
  have ids: "map ci_user_id es = map ci_user_id fs"
    using assms by (induction rule: list_all2_induct) (simp_all add: same_claim_def)
  have "map2 (\<lambda>key e. case_option (console_key (ci_user_id e)) id key) keys xs =
      map2 (\<lambda>key i. case_option (console_key i) id key) keys (map ci_user_id xs)" for keys and xs :: "ConsoleIdentity list"
    by (simp add: zip_map2 split_def comp_def cong: option.case_cong)
  then show ?thesis
    by (simp add: assign_keys_def claim_slugs_cong [OF assms] claim_emails_cong [OF assms] ids split_def)
qed

fun somes :: "'a option list \<Rightarrow> 'a list" where
  "somes [] = []"
| "somes (None # xs) = somes xs"
| "somes (Some x # xs) = x # somes xs"

lemma set_somes [simp]: "x \<in> set (somes xs) \<longleftrightarrow> Some x \<in> set xs"
  by (induction xs rule: somes.induct) auto

text \<open>The slugs claimed in the first pass: each once, each the slug of its entry.\<close>

lemma claim_slugs_sound:
  "claim_slugs es c = (ks, c') \<Longrightarrow>
     list_all2 (\<lambda>k e. k = None \<or> k = explicit_slug e) ks es \<and> distinct (somes ks) \<and>
     set (somes ks) \<inter> c = {} \<and> c' = c \<union> set (somes ks)"
proof (induction es c arbitrary: ks c' rule: claim_slugs.induct)
  case (2 e es claimed)
  show ?case
  proof (cases "\<exists>slug. explicit_slug e = Some slug \<and> slug \<notin> claimed")
    case True
    then obtain slug where slug: "explicit_slug e = Some slug" "slug \<notin> claimed" by blast
    with "2.prems" obtain ks' where ks: "claim_slugs es (insert slug claimed) = (ks', c')" "ks = Some slug # ks'"
      by (auto split: prod.splits)
    from "2.IH"(3) [OF slug ks(1)] slug ks(2) show ?thesis by auto
  next
    case False
    with "2.prems" obtain ks' where ks: "claim_slugs es claimed = (ks', c')" "ks = None # ks'"
      by (auto split: prod.splits option.splits if_splits)
    have "list_all2 (\<lambda>k e. k = None \<or> k = explicit_slug e) ks' es \<and> distinct (somes ks') \<and>
        set (somes ks') \<inter> claimed = {} \<and> c' = claimed \<union> set (somes ks')"
      using "2.IH"(1) [OF _ ks(1)] "2.IH"(2) [OF _ _ ks(1)] False by (cases "explicit_slug e") blast+
    with ks(2) show ?thesis by simp
  qed
qed simp

text \<open>An entry whose explicit slug no entry before it has gets it.\<close>

lemma claim_slugs_gives:
  "claim_slugs es c = (ks, c') \<Longrightarrow> i < length es \<Longrightarrow> explicit_slug (es ! i) = Some slug \<Longrightarrow> slug \<notin> c \<Longrightarrow>
     list_all (\<lambda>e. explicit_slug e \<noteq> Some slug) (take i es) \<Longrightarrow> ks ! i = Some slug"
proof (induction es c arbitrary: ks c' i rule: claim_slugs.induct)
  case (2 e es claimed)
  then show ?case
    by (cases i) (auto split: option.splits prod.splits if_splits)
qed simp

lemma claim_emails_keeps:
  "length ks = length es \<Longrightarrow> i < length es \<Longrightarrow> ks ! i = Some k \<Longrightarrow>
     claim_emails lower seed (zip ks es) c ! i = Some k"
proof (induction ks es arbitrary: i c rule: list_induct2)
  case (Cons x xs y ys)
  then show ?case by (cases x; cases i) (auto split: option.splits)
qed simp

lemma assigned_slug:
  assumes "i < length es" "explicit_slug (es ! i) = Some slug"
    "list_all (\<lambda>e. explicit_slug e \<noteq> Some slug) (take i es)"
  shows "assign_keys lower seed es ! i = slug"
proof -
  obtain ks c where claim: "claim_slugs es {} = (ks, c)" by (cases "claim_slugs es {}")
  then have len: "length ks = length es" using length_claim_slugs [of es "{}"] by simp
  have "ks ! i = Some slug" using claim_slugs_gives [OF claim assms(1,2) _ assms(3)] by simp
  then show ?thesis
    using assms len claim by (simp add: assign_keys_def length_claim_emails claim_emails_keeps)
qed

text \<open>The second pass keeps keys distinct and takes new ones from the configuration only.\<close>

lemma claim_emails_sound:
  "distinct (somes (map fst kes)) \<Longrightarrow> set (somes (map fst kes)) \<subseteq> c \<Longrightarrow>
     distinct (somes (claim_emails lower seed kes c)) \<and>
     set (somes (claim_emails lower seed kes c)) \<subseteq>
       set (somes (map fst kes)) \<union>
         ((\<Union>e \<in> snd ` set kes. set (keys_for_email lower seed (ci_login_email e))) - c)"
proof (induction lower seed kes c rule: claim_emails.induct)
  case (2 lower seed key e rest claimed)
  then have "key \<in> claimed" "distinct (somes (map fst rest))" "set (somes (map fst rest)) \<subseteq> claimed"
    "key \<notin> set (somes (map fst rest))" by auto
  moreover from this(2,3) 2(1) have "distinct (somes (claim_emails lower seed rest claimed))"
    "set (somes (claim_emails lower seed rest claimed)) \<subseteq> set (somes (map fst rest)) \<union>
      ((\<Union>e \<in> snd ` set rest. set (keys_for_email lower seed (ci_login_email e))) - claimed)" by blast+
  ultimately show ?case by auto
next
  case (3 lower seed e rest claimed)
  show ?case
  proof (cases "find (\<lambda>key. key \<notin> claimed) (keys_for_email lower seed (ci_login_email e))")
    case None
    have "distinct (somes (claim_emails lower seed rest claimed))"
      "set (somes (claim_emails lower seed rest claimed)) \<subseteq> set (somes (map fst rest)) \<union>
        ((\<Union>e \<in> snd ` set rest. set (keys_for_email lower seed (ci_login_email e))) - claimed)"
      using 3 None by auto
    with None show ?thesis by auto
  next
    case (Some key)
    then have key: "key \<in> set (keys_for_email lower seed (ci_login_email e))" "key \<notin> claimed"
      by (auto simp: find_Some_iff)
    let ?ks = "claim_emails lower seed rest (insert key claimed)"
    have "set (somes (map fst rest)) \<subseteq> insert key claimed" using 3(4) by auto
    with 3 Some have IH: "distinct (somes ?ks)"
      "set (somes ?ks) \<subseteq> set (somes (map fst rest)) \<union>
         ((\<Union>e \<in> snd ` set rest. set (keys_for_email lower seed (ci_login_email e))) - insert key claimed)"
      by simp_all
    have "key \<notin> set (somes ?ks)" using IH(2) 3(4) key(2) by fastforce
    with Some key IH show ?thesis by auto
  qed
qed simp

text \<open>No explicit slug may use the reserved prefix; then the keys of a directory are distinct.\<close>

definition slugs_allowed :: "ConsoleIdentity list \<Rightarrow> bool" where
  "slugs_allowed es =
     list_all (\<lambda>e. case explicit_slug e of None \<Rightarrow> True | Some slug \<Rightarrow> \<not> starts_with slug console_key_prefix) es"

definition seed_ok :: "Seed \<Rightarrow> bool" where
  "seed_ok seed \<longleftrightarrow>
     list_all (\<lambda>k. \<not> starts_with k console_key_prefix) (map fst (seed_users seed)) \<and>
     (\<forall>address keys. seed_emails seed address = Some keys \<longrightarrow> set keys \<subseteq> fst ` set (seed_users seed))"

lemma push_emails:
  "fold (push_email lower) us m address = Some keys \<Longrightarrow>
     set keys \<subseteq> fst ` set us \<union> (case m address of None \<Rightarrow> {} | Some ks \<Rightarrow> set ks)"
proof (induction us arbitrary: m)
  case (Cons u us)
  obtain key user where u: "u = (key, user)" by force
  have "set keys \<subseteq> fst ` set us \<union>
      (case push_email lower u m address of None \<Rightarrow> {} | Some ks \<Rightarrow> set ks)"
    using Cons by simp
  also have "\<dots> \<subseteq> fst ` set (u # us) \<union> (case m address of None \<Rightarrow> {} | Some ks \<Rightarrow> set ks)"
    by (auto simp: u push_email_def split: option.splits if_splits)
  finally show ?case .
qed simp

lemma seed_new_ok: "seed_ok (seed_new lower users)"
proof -
  have "set keys \<subseteq> fst ` set (seed_users (seed_new lower users))"
    if "seed_emails (seed_new lower users) address = Some keys" for address keys
    using that push_emails [of lower "filter (\<lambda>(key, user). \<not> starts_with key console_key_prefix) users" "\<lambda>x. None" address]
    by (auto simp: seed_new_def Let_def)
  then show ?thesis
    by (auto simp: seed_ok_def seed_new_def Let_def list_all_iff)
qed

lemma keys_for_email_configured:
  "seed_ok seed \<Longrightarrow> set (keys_for_email lower seed address) \<subseteq> fst ` set (seed_users seed)"
proof (cases "Option.bind (email_key lower address) (seed_emails seed)")
  case (Some keys)
  then obtain key where "seed_emails seed key = Some keys" by (auto simp: bind_eq_Some_conv)
  moreover assume "seed_ok seed"
  ultimately show ?thesis using Some by (simp add: keys_for_email_def seed_ok_def)
qed (simp add: keys_for_email_def)

lemma console_key_reserved [simp]: "starts_with (console_key i) console_key_prefix"
  by (auto simp: console_key_def starts_with_iff)

lemma console_key_inject [simp]: "console_key i = console_key j \<longleftrightarrow> i = j"
  by (simp add: console_key_def)

lemma distinct_keys:
  "list_all2 (\<lambda>k e. True) ks es \<Longrightarrow> distinct (map ci_user_id es) \<Longrightarrow> distinct (somes ks) \<Longrightarrow>
     \<forall>k \<in> set (somes ks). \<not> starts_with k console_key_prefix \<Longrightarrow>
     distinct (map2 (\<lambda>key e. case_option (console_key (ci_user_id e)) id key) ks es) \<and>
     set (map2 (\<lambda>key e. case_option (console_key (ci_user_id e)) id key) ks es) \<subseteq>
       set (somes ks) \<union> (\<lambda>e. console_key (ci_user_id e)) ` set es"
proof (induction ks es rule: list_all2_induct)
  case (Cons k ks e es)
  show ?case
  proof (cases k)
    case None
    with Cons have IH: "distinct (map2 (\<lambda>key e. case_option (console_key (ci_user_id e)) id key) ks es)"
      "set (map2 (\<lambda>key e. case_option (console_key (ci_user_id e)) id key) ks es) \<subseteq>
       set (somes ks) \<union> (\<lambda>e. console_key (ci_user_id e)) ` set es" by simp_all
    have "console_key (ci_user_id e) \<notin> set (somes ks)" using Cons.prems(3) None console_key_reserved [of "ci_user_id e"] by (metis somes.simps(2))
    moreover have "console_key (ci_user_id e) \<notin> (\<lambda>e. console_key (ci_user_id e)) ` set es"
      using Cons.prems(1) by force
    ultimately show ?thesis using IH None by auto
  next
    case (Some x)
    with Cons have IH: "distinct (map2 (\<lambda>key e. case_option (console_key (ci_user_id e)) id key) ks es)"
      "set (map2 (\<lambda>key e. case_option (console_key (ci_user_id e)) id key) ks es) \<subseteq>
       set (somes ks) \<union> (\<lambda>e. console_key (ci_user_id e)) ` set es" by simp_all
    have "\<not> starts_with x console_key_prefix" "x \<notin> set (somes ks)" using Cons.prems(2,3) Some by auto
    then have "x \<notin> set (somes ks) \<union> (\<lambda>e. console_key (ci_user_id e)) ` set es" by auto
    with IH Some show ?thesis by auto
  qed
qed simp

lemma assign_keys_distinct:
  assumes "seed_ok seed" "slugs_allowed es" "distinct (map ci_user_id es)"
  shows "distinct (assign_keys lower seed es)"
proof -
  obtain ks c where claim: "claim_slugs es {} = (ks, c)" by (cases "claim_slugs es {}")
  then have len: "length ks = length es" using length_claim_slugs [of es "{}"] by simp
  note first = claim_slugs_sound [OF claim]
  let ?ks = "claim_emails lower seed (zip ks es) c"
  have sound: "distinct (somes ?ks)" "set (somes ?ks) \<subseteq> set (somes ks) \<union>
      ((\<Union>e \<in> snd ` set (zip ks es). set (keys_for_email lower seed (ci_login_email e))) - c)"
    using claim_emails_sound [of "zip ks es" c lower seed] first len by simp_all
  have "(\<Union>e \<in> snd ` set (zip ks es). set (keys_for_email lower seed (ci_login_email e))) \<subseteq> fst ` set (seed_users seed)"
    using keys_for_email_configured [OF assms(1), of lower] by blast
  with sound have second: "distinct (somes ?ks)" "set (somes ?ks) \<subseteq> set (somes ks) \<union> fst ` set (seed_users seed)"
    by blast+
  have "\<not> starts_with k console_key_prefix" if "k \<in> set (somes ?ks)" for k
  proof (cases "Some k \<in> set ks")
    case True
    then obtain i where i: "i < length ks" "ks ! i = Some k" by (auto simp: in_set_conv_nth)
    then have "explicit_slug (es ! i) = Some k" "es ! i \<in> set es"
      using first len by (auto simp: list_all2_conv_all_nth)
    then show ?thesis using assms(2) by (auto simp: slugs_allowed_def list_all_iff)
  next
    case False
    then have "k \<in> fst ` set (seed_users seed)" using that second(2) by auto
    then show ?thesis using assms(1) by (auto simp: seed_ok_def list_all_iff)
  qed
  then show ?thesis
    using distinct_keys [of ?ks es] second(1) assms(3) len claim
    by (simp add: assign_keys_def list_all2_conv_all_nth length_claim_emails)
qed

section \<open>Runs of a registry\<close>

inductive registry_run :: "(string \<Rightarrow> string) \<Rightarrow> (string \<times> UserConfig) list \<Rightarrow> UserRegistry \<Rightarrow> bool"
  for lower and configured where
  created: "registry_run lower configured (registry_new lower configured)"
| replaced: "registry_run lower configured r \<Longrightarrow> registry_run lower configured (replace_console lower entries r)"

lemma registry_run_reload: "registry_run lower configured r \<Longrightarrow> registry_run lower configured (snd (reload lower loaded r))"
  by (cases loaded) (simp_all add: replaced)

lemma registry_built:
  "registry_run lower configured r \<Longrightarrow>
     reg_seed r = seed_new lower configured \<and>
     (\<exists>es. reg_directory r = directory_build lower (seed_new lower configured) es)"
  by (induction rule: registry_run.induct) (auto simp: registry_new_def replace_console_def Let_def)

lemma dir_entries_built [simp]: "dir_entries (directory_build lower seed es) = console_entries es"
  by (simp add: directory_build_def Let_def)

lemma dir_persons_built: "dir_persons (directory_build lower seed es) = directory_persons lower seed (console_entries es)"
  by (simp add: directory_build_def Let_def)

lemma dir_consoles_built:
  "dir_consoles (directory_build lower seed es) i =
     map_option fst (find (\<lambda>(n, e). ci_user_id e = i) (List.enumerate 0 (console_entries es)))"
  by (simp add: directory_build_def Let_def last_insert console_entries_sorted split: option.splits)

lemma persons_at:
  "n < length es \<Longrightarrow> directory_persons lower seed es ! n =
     \<lparr>ps_key = assign_keys lower seed es ! n, ps_origin = Console, ps_user = user_of_identities (ci_identities (es ! n))\<rparr>"
  by (simp add: directory_persons_def Let_def nth_append)

lemma console_at:
  assumes "n < length (console_entries es)"
  shows "dir_consoles (directory_build lower seed es) (ci_user_id (console_entries es ! n)) = Some n"
proof -
  let ?es = "console_entries es" and ?i = "ci_user_id (console_entries es ! n)"
  have "find (\<lambda>(n, e). ci_user_id e = ?i) (List.enumerate 0 ?es) \<noteq> None"
    using assms nth_mem [OF assms] by (subst find_enumerate_None) (auto simp: find_None_iff simp del: nth_mem)
  then obtain m e where found: "find (\<lambda>(n, e). ci_user_id e = ?i) (List.enumerate 0 ?es) = Some (m, e)" by force
  then have "m < length ?es" "?es ! m = e" "ci_user_id e = ?i"
    using find_enumerate [of "\<lambda>e. ci_user_id e = ?i" 0 ?es m e] by (auto simp: find_Some_iff)
  then have "m = n"
    using assms console_entries_sorted(2) [of es] by (auto simp: distinct_conv_nth)
  with found show ?thesis by (simp add: dir_consoles_built)
qed

lemma consoles_at:
  assumes "dir_consoles (directory_build lower seed es) i = Some m"
  shows "m < length (console_entries es)" "ci_user_id (console_entries es ! m) = i"
proof -
  obtain e where found: "find (\<lambda>(n, e). ci_user_id e = i) (List.enumerate 0 (console_entries es)) = Some (m, e)"
    using assms by (auto simp: dir_consoles_built)
  note * = find_enumerate [of "\<lambda>e. ci_user_id e = i", OF found]
  then show "m < length (console_entries es)" by simp
  from * have "find (\<lambda>e. ci_user_id e = i) (console_entries es) = Some e" by blast
  then have "ci_user_id e = i" by (auto simp: find_Some_iff)
  with * show "ci_user_id (console_entries es ! m) = i" by simp
qed

section \<open>Properties of the registry\<close>

text \<open>
  Property C34. A handle (a name or login of an issue tracker, or a chat id) belongs to the first person of the
  directory who lists it, and so does what is resolved from it; contact details never have an owner.
\<close>

theorem first_claimer_owns_handle:
  assumes "registry_run lower configured r"
  shows "handle_owner lower (reg_directory r) f v = find (claims_handle lower f v) (dir_persons (reg_directory r)) \<and>
    (f \<notin> set exclusive_fields \<longrightarrow> handle_owner lower (reg_directory r) f v = None)"
proof -
  obtain es where "reg_directory r = directory_build lower (seed_new lower configured) es"
    using registry_built [OF assms] by blast
  then have owner: "handle_owner lower (reg_directory r) f v = find (claims_handle lower f v) (dir_persons (reg_directory r))"
    by (simp add: handle_owner_built)
  have "handle_owner lower (reg_directory r) f v = None" if "f \<notin> set exclusive_fields"
  proof -
    have "\<not> claims_handle lower f v p" for p
      using that exclusive_values_fields [of "ps_user p" f] by (auto simp: claims_handle_def)
    then show ?thesis by (simp add: owner find_None_iff)
  qed
  then show ?thesis using owner by blast
qed

definition amy :: ConsoleIdentity where
  "amy = \<lparr>ci_user_id = 7, ci_login_email = ''amy@example.com'', ci_name = ''Amy'', ci_slug = None,
     ci_identities = no_identities\<lparr>id_github_usernames := [''Amy-B'']\<rparr>, ci_updated_at = ''''\<rparr>"

definition configured_bob :: "(string \<times> UserConfig) list" where
  "configured_bob = [(''bob'', (user_of_identities no_identities)\<lparr>github_usernames := [''bob'', ''amy-b'']\<rparr>)]"

definition example_registry :: UserRegistry where
  "example_registry = replace_console ascii_lowercase [amy] (registry_new ascii_lowercase configured_bob)"

lemma example_run: "registry_run ascii_lowercase configured_bob example_registry"
  by (simp add: example_registry_def created replaced)

text \<open>Replacing an entry of a directory by one of the same user.\<close>

lemma filter_others:
  "distinct (map ci_user_id ds) \<Longrightarrow> m < length ds \<Longrightarrow> ci_user_id (ds ! m) = i \<Longrightarrow>
     filter (\<lambda>x. ci_user_id x \<noteq> i) ds = take m ds @ drop (Suc m) ds"
proof (induction ds arbitrary: m)
  case (Cons d ds)
  show ?case
  proof (cases m)
    case 0
    with Cons.prems have "\<forall>x \<in> set ds. ci_user_id x \<noteq> i" by (auto simp: image_iff)
    with 0 Cons.prems show ?thesis by (auto simp: filter_id_conv)
  next
    case (Suc n)
    with Cons.prems have "ci_user_id d \<noteq> i" using nth_mem [of n ds] by fastforce
    with Suc Cons show ?thesis by simp
  qed
qed simp

lemma replaced_entry:
  assumes "sorted (map ci_user_id ds)" "distinct (map ci_user_id ds)" "m < length ds" "ci_user_id (ds ! m) = ci_user_id e"
  shows "sort_key ci_user_id (filter (\<lambda>x. ci_user_id x \<noteq> ci_user_id e) ds @ [e]) = ds[m := e]"
proof (rule sort_key_inj_key_eq)
  have "ds[m := e] = take m ds @ e # drop (Suc m) ds" using assms(3) by (simp add: upd_conv_take_nth_drop)
  then show mset: "mset (filter (\<lambda>x. ci_user_id x \<noteq> ci_user_id e) ds @ [e]) = mset (ds[m := e])"
    by (simp add: filter_others [OF assms(2-4)])
  have same: "map ci_user_id (ds[m := e]) = map ci_user_id ds"
    using list_update_id [of "map ci_user_id ds" m] assms(3,4) by (simp add: map_update)
  then show "sorted (map ci_user_id (ds[m := e]))" using assms(1) by simp
  have "inj_on ci_user_id (set (ds[m := e]))" using same assms(2) by (metis distinct_map)
  then show "inj_on ci_user_id (set (filter (\<lambda>x. ci_user_id x \<noteq> ci_user_id e) ds @ [e]))"
    using mset by (metis set_mset_mset)
qed

lemma find_zip_key:
  "distinct (map f xs) \<Longrightarrow> n < length xs \<Longrightarrow> length ys = length xs \<Longrightarrow>
     find (\<lambda>(x, k). f x = f (xs ! n)) (zip xs ys) = Some (xs ! n, ys ! n)"
  unfolding find_Some_iff by (auto simp: distinct_conv_nth intro!: exI [of _ n])

lemma console_entries_added:
  assumes "distinct (map ci_user_id ds)"
  shows "console_entries (filter (\<lambda>x. ci_user_id x \<noteq> ci_user_id e) ds @ [e]) =
    sort_key ci_user_id (filter (\<lambda>x. ci_user_id x \<noteq> ci_user_id e) ds @ [e])"
proof -
  have "distinct (map ci_user_id (filter (\<lambda>x. ci_user_id x \<noteq> ci_user_id e) ds @ [e]))"
    using assms by (auto simp: distinct_map_filter)
  then have "distinct (map ci_user_id (sort_key ci_user_id (filter (\<lambda>x. ci_user_id x \<noteq> ci_user_id e) ds @ [e])))"
    by (metis distinct_map distinct_sort set_sort)
  then show ?thesis by (simp only: console_entries_def dedup_distinct)
qed

text \<open>The key a stored entry keeps is the key of the rebuilt directory.\<close>

lemma stored_key_kept:
  assumes es: "sorted (map ci_user_id ds)" "distinct (map ci_user_id ds)" and m: "m < length ds"
    and same: "ci_user_id (ds ! m) = ci_user_id e" "explicit_slug (ds ! m) = explicit_slug e"
      "email_key lower (ci_login_email (ds ! m)) = email_key lower (ci_login_email e)"
  shows "assign_keys lower seed (ds[m := e]) = assign_keys lower seed ds"
proof (rule assign_keys_cong [symmetric])
  show "list_all2 (same_claim lower) ds (ds[m := e])"
    unfolding list_all2_conv_all_nth
  proof (intro conjI allI impI)
    fix i
    assume "i < length ds"
    then show "same_claim lower (ds ! i) (ds[m := e] ! i)"
      using same m by (cases "i = m") (simp_all add: same_claim_def)
  qed simp
qed

text \<open>
  The person key the registry predicts for a console entry is the key its user holds once the entry is
  part of the directory, whether it is new or replaces one, provided no other user has the same explicit slug.
\<close>

theorem predicted_key_is_held:
  assumes run: "registry_run lower configured r"
    and slug_free: "list_all (\<lambda>x. ci_user_id x = ci_user_id e \<or> explicit_slug e = None \<or> explicit_slug x \<noteq> explicit_slug e)
      (dir_entries (reg_directory r))"
  shows "stored_key lower (reg_directory (replace_console lower
      (filter (\<lambda>x. ci_user_id x \<noteq> ci_user_id e) (dir_entries (reg_directory r)) @ [e]) r)) e =
    Some (person_key lower r e)"
proof -
  let ?dir = "reg_directory r" and ?seed = "reg_seed r"
  define ds where "ds = dir_entries ?dir"
  define es where "es = sort_key ci_user_id (filter (\<lambda>x. ci_user_id x \<noteq> ci_user_id e) ds @ [e])"
  define dir' where "dir' = directory_build lower ?seed (filter (\<lambda>x. ci_user_id x \<noteq> ci_user_id e) ds @ [e])"
  obtain cs where dir: "?dir = directory_build lower ?seed cs" using registry_built [OF run] by auto
  then have ds: "sorted (map ci_user_id ds)" "distinct (map ci_user_id ds)" "ds = console_entries cs"
    by (simp_all add: ds_def console_entries_sorted)
  have entries: "console_entries (filter (\<lambda>x. ci_user_id x \<noteq> ci_user_id e) ds @ [e]) = es"
    by (simp only: es_def console_entries_added [OF ds(2)])
  have "e \<in> set es" by (simp add: es_def)
  then obtain n where n: "n < length es" "es ! n = e" by (auto simp: in_set_conv_nth)
  have ids: "distinct (map ci_user_id es)" using console_entries_sorted(2) entries by metis
  have "dir_consoles dir' (ci_user_id e) = Some n"
    unfolding dir'_def using console_at [of n "filter (\<lambda>x. ci_user_id x \<noteq> ci_user_id e) ds @ [e]"] n entries by simp
  then have held: "stored_key lower dir' e = Some (assign_keys lower ?seed es ! n)"
    using n by (simp add: stored_key_def dir'_def dir_persons_built entries persons_at)
  have "person_key lower r e = assign_keys lower ?seed es ! n"
  proof (cases "explicit_slug e")
    case (Some slug)
    have "explicit_slug x \<noteq> Some slug" if x: "x \<in> set (take n es)" for x
    proof -
      obtain k where "k < n" "es ! k = x" using x by (auto simp: in_set_conv_nth)
      moreover have "distinct es" using ids by (simp add: distinct_map)
      ultimately have "x \<noteq> e" "x \<in> set es" using n by (auto simp: nth_eq_iff_index_eq)
      then have "x \<in> set ds" "ci_user_id x \<noteq> ci_user_id e" by (auto simp: es_def)
      then show ?thesis using slug_free Some by (auto simp: list_all_iff ds_def)
    qed
    with n Some show ?thesis by (simp add: person_key_def assigned_slug list_all_iff)
  next
    case None
    show ?thesis
    proof (cases "stored_key lower ?dir e")
      case stored: (Some key)
      then obtain m where m: "dir_consoles ?dir (ci_user_id e) = Some m"
        and same: "explicit_slug (ds ! m) = explicit_slug e"
          "email_key lower (ci_login_email (ds ! m)) = email_key lower (ci_login_email e)"
        and key: "key = ps_key (dir_persons ?dir ! m)"
        by (auto simp: stored_key_def ds_def Let_def split: option.splits if_splits)
      have at: "m < length ds" "ci_user_id (ds ! m) = ci_user_id e"
        using m consoles_at by (simp_all add: dir ds(3))
      have es: "es = ds[m := e]" unfolding es_def by (rule replaced_entry [OF ds(1,2) at])
      then have "ci_user_id (ds ! n) = ci_user_id (ds ! m)" "n < length ds"
        using n at by (auto simp: nth_list_update split: if_splits)
      then have "n = m" using ds(2) at(1) by (metis distinct_conv_nth length_map nth_map)
      moreover have "key = assign_keys lower ?seed ds ! m"
        using at(1) by (simp add: key dir dir_persons_built ds(3) persons_at)
      ultimately show ?thesis
        using stored_key_kept [OF ds(1,2) at(1) at(2) same] es stored None by (simp add: person_key_def)
    next
      case fresh: None
      have "find (\<lambda>(x, key). ci_user_id x = ci_user_id e) (zip es (assign_keys lower ?seed es)) =
          Some (e, assign_keys lower ?seed es ! n)"
        using find_zip_key [OF ids n(1), of "assign_keys lower ?seed es"] n(2) by simp
      with fresh None show ?thesis by (simp add: person_key_def Let_def ds_def [symmetric] es_def [symmetric])
    qed
  qed
  with held show ?thesis
    by (simp add: replace_console_def dir'_def ds_def)
qed

text \<open>
  In every directory of people no two people have the same key, console people come first, by their ids,
  and every person of the configuration is there unless a console person has taken over the key, provided no
  console slug uses the reserved prefix.
\<close>

theorem person_keys_distinct:
  assumes run: "registry_run lower configured r" and keys: "distinct (map fst configured)"
    and allowed: "slugs_allowed (dir_entries (reg_directory r))"
  shows "distinct (map ps_key (dir_persons (reg_directory r)))"
    and "map ps_origin (dir_persons (reg_directory r)) =
      replicate (length (dir_entries (reg_directory r))) Console @
      replicate (length (dir_persons (reg_directory r)) - length (dir_entries (reg_directory r))) Config_Entry"
    and "set (map fst (seed_users (reg_seed r))) \<subseteq> set (map ps_key (dir_persons (reg_directory r)))"
proof -
  let ?seed = "reg_seed r"
  obtain cs where dir: "reg_directory r = directory_build lower ?seed cs"
    and seed: "?seed = seed_new lower configured"
    using registry_built [OF run] by auto
  let ?es = "console_entries cs"
  let ?ks = "assign_keys lower ?seed ?es"
  let ?cs = "sort (filter (\<lambda>key. key \<notin> set ?ks) (map fst (seed_users ?seed)))"
  have ks: "distinct ?ks"
    using assign_keys_distinct [of ?seed ?es lower] allowed
    by (simp add: dir seed seed_new_ok console_entries_sorted)
  have cs: "distinct ?cs" "set ?ks \<inter> set ?cs = {}"
    using keys by (auto simp: seed seed_new_def Let_def distinct_map_filter)
  have persons: "map ps_key (dir_persons (reg_directory r)) = ?ks @ ?cs"
    by (simp add: dir dir_persons_built directory_persons_def Let_def map2_map_map [symmetric] comp_def split_def
        map_snd_zip)
  then show "distinct (map ps_key (dir_persons (reg_directory r)))" using ks cs by simp
  have len: "length (dir_persons (reg_directory r)) = length ?es + length ?cs"
    using arg_cong [OF persons, of length] by simp
  show "map ps_origin (dir_persons (reg_directory r)) =
      replicate (length (dir_entries (reg_directory r))) Console @
      replicate (length (dir_persons (reg_directory r)) - length (dir_entries (reg_directory r))) Config_Entry"
    unfolding len
    by (simp add: dir dir_persons_built directory_persons_def Let_def split_def comp_def map_replicate_const)
  show "set (map fst (seed_users ?seed)) \<subseteq> set (map ps_key (dir_persons (reg_directory r)))"
    unfolding persons by auto
qed

lemma example_entries: "dir_entries (reg_directory example_registry) = [amy]"
  by (simp add: example_registry_def replace_console_def console_entries_def)

lemma example_persons:
  "dir_persons (reg_directory example_registry) =
     [\<lparr>ps_key = ''console-7'', ps_origin = Console, ps_user = user_of_identities (ci_identities amy)\<rparr>,
      \<lparr>ps_key = ''bob'', ps_origin = Config_Entry, ps_user = snd (hd configured_bob)\<rparr>]"
proof -
  have slug: "explicit_slug amy = None" by (simp add: explicit_slug_def amy_def)
  have no_email: "email (snd (hd configured_bob)) = None"
    by (simp add: configured_bob_def user_of_identities_def no_identities_def)
  have "\<not> starts_with ''bob'' console_key_prefix" "console_key 7 = ''console-7''" by code_simp+
  moreover from this no_email have "seed_users (reg_seed example_registry) = configured_bob"
    "keys_for_email ascii_lowercase (reg_seed example_registry) (ci_login_email amy) = []"
    by (simp_all add: example_registry_def replace_console_def registry_new_def seed_new_def Let_def configured_bob_def
        keys_for_email_def push_email_def bind_eq_Some_conv split: option.splits)
  ultimately show ?thesis
    using slug
    by (simp add: example_registry_def replace_console_def dir_persons_built console_entries_def directory_persons_def
        assign_keys_def configured_bob_def) (simp add: amy_def)
qed

lemma first_claimer_owns_handle_witness:
  "registry_owner ascii_lowercase example_registry GithubUsernames ''AMY-B'' = Some ''console-7'' \<and>
   registry_owner ascii_lowercase example_registry Email ''amy@example.com'' = None"
proof -
  have "ascii_lowercase ''AMY-B'' = ascii_lowercase ''Amy-B''" by code_simp
  then have "find (claims_handle ascii_lowercase GithubUsernames ''AMY-B'') (dir_persons (reg_directory example_registry)) =
      Some \<lparr>ps_key = ''console-7'', ps_origin = Console, ps_user = user_of_identities (ci_identities amy)\<rparr>"
    by (simp add: example_persons claims_handle_def comparison_key_def is_case_insensitive_def user_of_identities_def
        amy_def)
  moreover have "handle_owner ascii_lowercase (reg_directory example_registry) Email ''amy@example.com'' = None"
    using first_claimer_owns_handle [OF example_run, of Email "''amy@example.com''", THEN conjunct2]
    by (simp add: exclusive_fields_def)
  ultimately show ?thesis
    using first_claimer_owns_handle [OF example_run, of GithubUsernames "''AMY-B''"] by (simp add: registry_owner_def)
qed

lemma predicted_key_is_held_witness:
  "stored_key ascii_lowercase (reg_directory (replace_console ascii_lowercase [amy] example_registry)) amy =
     Some (person_key ascii_lowercase example_registry amy)"
  using predicted_key_is_held [OF example_run, of amy] by (simp add: example_entries)

lemma person_keys_distinct_witness:
  "distinct (map ps_key (dir_persons (reg_directory example_registry)))"
  by (rule person_keys_distinct [OF example_run])
    (simp_all add: configured_bob_def example_entries slugs_allowed_def explicit_slug_def amy_def)

section \<open>Walking a hash map\<close>

lemma pushed_emails:
  "fold (push_email lower) vs m address =
     (let new = map fst (filter (\<lambda>(key, user). Option.bind (email user) (email_key lower) = Some address) vs)
      in if new = [] then m address else Some (case_option [] id (m address) @ new))"
  by (induction vs arbitrary: m) (auto simp: push_email_def Let_def split: option.splits)

lemma emails_ignore_order:
  assumes "mset xs = mset ys"
  shows "map_option sort (fold (push_email lower) xs (\<lambda>a. None) address) =
    map_option sort (fold (push_email lower) ys (\<lambda>a. None) address)"
proof -
  let ?new = "\<lambda>vs. map fst (filter (\<lambda>(key, user). Option.bind (email user) (email_key lower) = Some address) vs)"
  have new: "mset (?new xs) = mset (?new ys)" using assms by (simp add: mset_filter mset_map)
  then have "sort (?new xs) = sort (?new ys)" by (intro properties_for_sort) simp_all
  moreover have "?new xs = [] \<longleftrightarrow> ?new ys = []" using new by (metis mset_zero_iff)
  ultimately show ?thesis by (simp add: pushed_emails Let_def)
qed

lemma claim_emails_seed:
  "(\<And>address. keys_for_email lower seed address = keys_for_email lower seed' address) \<Longrightarrow>
     claim_emails lower seed kes c = claim_emails lower seed' kes c"
proof (induction kes arbitrary: c)
  case (Cons ke kes)
  then show ?case by (cases ke; cases "fst ke") (auto split: option.splits)
qed simp

text \<open>
  The directory of people does not depend on the order in which the configuration's hash map is walked:
  for any two orders of the same entries the keys, the people and their handles are the same.
\<close>

theorem directory_ignores_map_order:
  assumes "mset users = mset users'" "distinct (map fst users)"
  shows "directory_build lower (seed_new lower users) entries = directory_build lower (seed_new lower users') entries"
proof -
  let ?keep = "\<lambda>(key, user). \<not> starts_with key console_key_prefix"
  let ?us = "filter ?keep users" and ?us' = "filter ?keep users'"
  have us: "mset ?us = mset ?us'" "distinct (map fst ?us)"
    using assms by (simp_all add: distinct_map_filter)
  have emails: "seed_emails (seed_new lower users) = seed_emails (seed_new lower users')"
    using emails_ignore_order [OF us(1)] by (auto simp: seed_new_def Let_def)
  then have keys: "keys_for_email lower (seed_new lower users) = keys_for_email lower (seed_new lower users')"
    by (intro ext) (simp only: keys_for_email_def)
  then have assigned: "assign_keys lower (seed_new lower users) es = assign_keys lower (seed_new lower users') es" for es
    by (simp add: assign_keys_def claim_emails_seed [of lower "seed_new lower users" "seed_new lower users'"])
  have sorted: "sort (filter (\<lambda>key. key \<notin> set ks) (map fst ?us)) = sort (filter (\<lambda>key. key \<notin> set ks) (map fst ?us'))" for ks
    using us(1) by (intro properties_for_sort) simp_all
  have "set ?us = set ?us'" using us(1) by (metis set_mset_mset)
  moreover have "distinct (map fst ?us')" using us by (metis mset_eq_imp_distinct_iff mset_map)
  ultimately have "map_of ?us = map_of ?us'" using us(2) map_of_inject_set by blast
  then have "directory_persons lower (seed_new lower users) es = directory_persons lower (seed_new lower users') es" for es
    by (simp add: directory_persons_def assigned) (simp add: seed_new_def Let_def sorted)
  then show ?thesis by (simp add: directory_build_def)
qed

lemma directory_ignores_map_order_witness:
  "directory_build id (seed_new id [(''bob'', user_of_identities no_identities), (''amy'', user_of_identities no_identities)]) [] =
   directory_build id (seed_new id [(''amy'', user_of_identities no_identities), (''bob'', user_of_identities no_identities)]) []"
  by (rule directory_ignores_map_order) simp_all

end
