(* ===== verification/Rosters.thy ===== *)
theory Rosters
  imports User_Registry Issues
begin

text \<open>
  The developers that open pull requests can be assigned to,
  \<open>crates/claudear-analysis/src/distribution/developer.rs\<close> and \<open>roster.rs\<close>, with the map from GitHub logins to
  Discord users of \<open>crates/claudear-analysis/src/deploy_qa/map.rs\<close>.
\<close>

section \<open>Developers\<close>

record Developer =
  dv_login :: string
  dv_discord_id :: "string option"
  dv_slack_id :: "string option"

definition developer_new :: "string \<Rightarrow> Developer" where
  "developer_new login = \<lparr>dv_login = login, dv_discord_id = None, dv_slack_id = None\<rparr>"

definition developer_handle :: "Developer \<Rightarrow> string" where
  "developer_handle d = ''@'' @ dv_login d"

record MappedDiscordUser =
  md_discord_username :: "string option"
  md_discord_user_id :: string
  md_status :: "string option"

record GitHubDiscordMap =
  gm_guild_id :: "string option"
  gm_by_github_login :: "(string \<times> MappedDiscordUser) list"

definition mention_for :: "GitHubDiscordMap \<Rightarrow> string \<Rightarrow> string option" where
  "mention_for m login =
     map_option (\<lambda>u. ''<@'' @ md_discord_user_id u @ ''>'')
       (case map_of (gm_by_github_login m) login of
          Some u \<Rightarrow> Some u
        | None \<Rightarrow> map_option snd (find (\<lambda>(l, u). eq_ignore_ascii_case l login) (gm_by_github_login m)))"

section \<open>Rosters\<close>

record Roster =
  ro_developers :: "Developer list"
  ro_logins :: "string \<Rightarrow> nat option"
  ro_slugs :: "string \<Rightarrow> nat option"

record Entry =
  en_developer :: Developer
  en_aliases :: "string list"
  en_slugs :: "string list"

definition non_empty :: "string option \<Rightarrow> string option" where
  "non_empty v = (case v of None \<Rightarrow> None | Some s \<Rightarrow> (let t = trim s in if t = [] then None else Some t))"

definition empty_roster :: Roster where
  "empty_roster = \<lparr>ro_developers = [], ro_logins = (\<lambda>l. None), ro_slugs = (\<lambda>s. None)\<rparr>"

text \<open>One turn of the loop of \<open>from_entries\<close>. The insertion of a login that was there replaces its index as well.\<close>

definition add_entry :: "(string \<Rightarrow> string) \<Rightarrow> Entry \<Rightarrow> Roster \<Rightarrow> Roster" where
  "add_entry lower e r =
     (let d = en_developer e;
          index = length (ro_developers r);
          key = lower (dv_login d);
          logins = (ro_logins r)(key \<mapsto> index)
      in if ro_logins r key \<noteq> None then r\<lparr>ro_logins := logins\<rparr>
         else \<lparr>ro_developers = ro_developers r @ [d],
               ro_logins = fold (\<lambda>a m. m(lower a \<mapsto> index)) (en_aliases e) logins,
               ro_slugs = fold (\<lambda>s m. m(s \<mapsto> index)) (en_slugs e) (ro_slugs r)\<rparr>)"

definition from_entries :: "(string \<Rightarrow> string) \<Rightarrow> Entry list \<Rightarrow> Roster" where
  "from_entries lower entries =
     fold (add_entry lower) (sort_key (\<lambda>e. lower (dv_login (en_developer e))) entries) empty_roster"

definition from_developers :: "(string \<Rightarrow> string) \<Rightarrow> Developer list \<Rightarrow> Roster" where
  "from_developers lower ds =
     from_entries lower (map (\<lambda>d. \<lparr>en_developer = d, en_aliases = [dv_login d], en_slugs = []\<rparr>) ds)"

definition roster_find :: "(string \<Rightarrow> string) \<Rightarrow> Roster \<Rightarrow> string \<Rightarrow> Developer option" where
  "roster_find lower r login = map_option ((!) (ro_developers r)) (ro_logins r (lower (trim login)))"

definition by_slug :: "Roster \<Rightarrow> string \<Rightarrow> Developer option" where
  "by_slug r slug = map_option ((!) (ro_developers r)) (ro_slugs r slug)"

definition by_discord_id :: "Roster \<Rightarrow> string \<Rightarrow> Developer option" where
  "by_discord_id r i = find (\<lambda>d. dv_discord_id d = Some i) (ro_developers r)"

definition by_slack_id :: "Roster \<Rightarrow> string \<Rightarrow> Developer option" where
  "by_slack_id r i = find (\<lambda>d. dv_slack_id d = Some i) (ro_developers r)"

section \<open>Building the roster\<close>

definition is_excluded :: "string list \<Rightarrow> string \<Rightarrow> bool" where
  "is_excluded excluded login = list_ex (\<lambda>x. eq_ignore_ascii_case (trim x) login) excluded"

definition person_aliases :: "(string \<Rightarrow> string) \<Rightarrow> UserRegistry \<Rightarrow> string \<Rightarrow> UserConfig \<Rightarrow> string list" where
  "person_aliases lower registry key user =
     filter (\<lambda>login. registry_owner lower registry GithubUsernames login = Some key)
       (map trim (github_usernames user))"

definition person_entry :: "(string \<Rightarrow> string) \<Rightarrow> UserRegistry \<Rightarrow> string \<Rightarrow> UserConfig \<Rightarrow> Entry" where
  "person_entry lower registry key user =
     (let aliases = person_aliases lower registry key user; login = hd aliases
      in \<lparr>en_developer =
            \<lparr>dv_login = login, dv_discord_id = non_empty (discord_id_for_github lower registry login),
             dv_slack_id = non_empty (slack_id user)\<rparr>,
          en_aliases = aliases, en_slugs = [key]\<rparr>)"

type_synonym drafts = "Entry list \<times> (string \<Rightarrow> nat option)"

definition add_person ::
  "(string \<Rightarrow> string) \<Rightarrow> UserRegistry \<Rightarrow> string list \<Rightarrow> string \<times> UserConfig \<Rightarrow> drafts \<Rightarrow> drafts" where
  "add_person lower registry excluded = (\<lambda>(key, user) (entries, known).
     (let aliases = person_aliases lower registry key user
      in if aliases = [] then (entries, known)
         else if list_ex (is_excluded excluded) aliases then (entries, known)
         else (entries @ [person_entry lower registry key user],
               fold (\<lambda>a m. m(lower a \<mapsto> length entries)) aliases known)))"

definition fill_discord :: "string option \<Rightarrow> Entry \<Rightarrow> Entry" where
  "fill_discord i e =
     (let d = en_developer e
      in e\<lparr>en_developer := d\<lparr>dv_discord_id := (case dv_discord_id d of None \<Rightarrow> i | Some x \<Rightarrow> Some x)\<rparr>\<rparr>)"

definition add_mapped ::
  "(string \<Rightarrow> string) \<Rightarrow> string list \<Rightarrow> string \<times> MappedDiscordUser \<Rightarrow> drafts \<Rightarrow> drafts" where
  "add_mapped lower excluded = (\<lambda>(login, user) (entries, known).
     (let i = non_empty (Some (md_discord_user_id user)); login = trim login
      in if login = [] \<or> is_excluded excluded login then (entries, known)
         else case known (lower login) of
           Some index \<Rightarrow> (entries[index := fill_discord i (entries ! index)], known)
         | None \<Rightarrow>
             (entries @ [\<lparr>en_developer = (developer_new login)\<lparr>dv_discord_id := i\<rparr>, en_aliases = [login], en_slugs = []\<rparr>],
              known(lower login \<mapsto> length entries))))"

definition roster_entries ::
  "(string \<Rightarrow> string) \<Rightarrow> UserRegistry \<Rightarrow> GitHubDiscordMap \<Rightarrow> string list \<Rightarrow> drafts" where
  "roster_entries lower registry m excluded =
     fold (add_mapped lower excluded) (sort_key fst (gm_by_github_login m))
       (fold (add_person lower registry excluded) (sort_key fst (registry_users registry)) ([], \<lambda>l. None))"

definition roster_new ::
  "(string \<Rightarrow> string) \<Rightarrow> UserRegistry \<Rightarrow> GitHubDiscordMap \<Rightarrow> string list \<Rightarrow> Roster" where
  "roster_new lower registry m excluded = from_entries lower (fst (roster_entries lower registry m excluded))"

section \<open>Requesters\<close>

definition requester_metadata :: "Issue \<Rightarrow> string \<Rightarrow> string option" where
  "requester_metadata issue key =
     (case metadata issue key json_as_str of
        None \<Rightarrow> None
      | Some v \<Rightarrow> if trim v = [] then None else Some v)"

definition found_requesters :: "(string \<Rightarrow> string) \<Rightarrow> Roster \<Rightarrow> Issue \<Rightarrow> Developer list" where
  "found_requesters lower r issue =
     (let source = lower (is_source issue);
          listed = (\<lambda>look key. case Option.bind (requester_metadata issue key) look of None \<Rightarrow> [] | Some d \<Rightarrow> [d])
      in listed (by_slug r) ''resolved_user'' @
         (if source \<in> {''github'', ''github_issues''}
          then listed (roster_find lower r) ''assignee'' @ listed (roster_find lower r) ''author'' else []) @
         (if source = ''discord'' then listed (by_discord_id r) ''author_id''
          else if source = ''slack'' then listed (by_slack_id r) ''author_id'' else []))"

definition requesters :: "(string \<Rightarrow> string) \<Rightarrow> Roster \<Rightarrow> Issue \<Rightarrow> string list" where
  "requesters lower r issue = first_of_key (\<lambda>l. l) [] (map dv_login (found_requesters lower r issue))"

section \<open>Well-formed rosters\<close>

text \<open>
  What everyone relies on: logins and aliases lead to developers of the roster, no two developers share a login up to
  case, every developer is found by its login, and developers come in the order of their lowercase logins.
\<close>

definition roster_ok :: "(string \<Rightarrow> string) \<Rightarrow> Roster \<Rightarrow> bool" where
  "roster_ok lower r \<longleftrightarrow>
     (\<forall>l i. ro_logins r l = Some i \<longrightarrow> i < length (ro_developers r)) \<and>
     (\<forall>s i. ro_slugs r s = Some i \<longrightarrow> i < length (ro_developers r)) \<and>
     (\<forall>i < length (ro_developers r). ro_logins r (lower (dv_login (ro_developers r ! i))) = Some i) \<and>
     (\<forall>d \<in> set (ro_developers r). trim (dv_login d) = dv_login d) \<and>
     sorted (map (lower \<circ> dv_login) (ro_developers r))"

lemma roster_ok_distinct:
  assumes "roster_ok lower r"
  shows "distinct (map (lower \<circ> dv_login) (ro_developers r))"
proof -
  have "ro_logins r (lower (dv_login (ro_developers r ! i))) = Some i" if "i < length (ro_developers r)" for i
    using assms that by (simp add: roster_ok_def)
  then have "i = j" if "i < length (ro_developers r)" "j < length (ro_developers r)"
    "lower (dv_login (ro_developers r ! i)) = lower (dv_login (ro_developers r ! j))" for i j
    using that by (metis option.inject)
  then show ?thesis by (auto simp: distinct_conv_nth)
qed

lemma roster_ok_logins:
  assumes "roster_ok lower r"
  shows "distinct (map dv_login (ro_developers r))"
proof -
  have "distinct (map lower (map dv_login (ro_developers r)))"
    using roster_ok_distinct [OF assms] by (simp add: comp_def)
  then show ?thesis by (simp only: distinct_map)
qed

lemma found_on_roster: "roster_ok lower r \<Longrightarrow> roster_find lower r l = Some d \<Longrightarrow> d \<in> set (ro_developers r)"
  by (auto simp: roster_find_def roster_ok_def)

lemma finds_own_login: "roster_ok lower r \<Longrightarrow> d \<in> set (ro_developers r) \<Longrightarrow> roster_find lower r (dv_login d) = Some d"
  by (auto simp: roster_find_def roster_ok_def in_set_conv_nth)

lemma by_slug_on_roster: "roster_ok lower r \<Longrightarrow> by_slug r s = Some d \<Longrightarrow> d \<in> set (ro_developers r)"
  by (auto simp: by_slug_def roster_ok_def)

lemma by_chat_on_roster:
  "by_discord_id r i = Some d \<Longrightarrow> d \<in> set (ro_developers r)"
  "by_slack_id r i = Some d \<Longrightarrow> d \<in> set (ro_developers r)"
  by (auto simp: by_discord_id_def by_slack_id_def find_Some_iff)

lemma found_requesters_on_roster:
  "roster_ok lower r \<Longrightarrow> set (found_requesters lower r issue) \<subseteq> set (ro_developers r)"
proof -
  assume ok: "roster_ok lower r"
  have one: "set (case Option.bind x look of None \<Rightarrow> [] | Some d \<Rightarrow> [d]) \<subseteq> set (ro_developers r)"
    if "\<And>v d. look v = Some d \<Longrightarrow> d \<in> set (ro_developers r)" for x :: "string option" and look
    using that by (cases x; cases "look (the x)") auto
  let ?listed = "\<lambda>look key. case Option.bind (requester_metadata issue key) look of None \<Rightarrow> [] | Some d \<Rightarrow> [d]"
  have "set (?listed (by_slug r) key) \<subseteq> set (ro_developers r)" for key
    by (rule one) (rule by_slug_on_roster [OF ok])
  moreover have "set (?listed (roster_find lower r) key) \<subseteq> set (ro_developers r)" for key
    by (rule one) (rule found_on_roster [OF ok])
  moreover have "set (?listed (by_discord_id r) key) \<subseteq> set (ro_developers r)" for key
    by (rule one) (rule by_chat_on_roster)
  moreover have "set (?listed (by_slack_id r) key) \<subseteq> set (ro_developers r)" for key
    by (rule one) (rule by_chat_on_roster)
  ultimately show ?thesis
    unfolding found_requesters_def Let_def set_append by (simp only: Un_subset_iff split: if_split) simp
qed

lemma requesters_on_roster:
  assumes "roster_ok lower r"
  shows "distinct (requesters lower r issue)" "set (requesters lower r issue) \<subseteq> dv_login ` set (ro_developers r)"
proof -
  show "distinct (requesters lower r issue)"
    using first_of_key_distinct [of "\<lambda>l. l" "[]" "map dv_login (found_requesters lower r issue)"]
    unfolding requesters_def list.map_ident by (rule conjunct1)
  have "set (requesters lower r issue) \<subseteq> set (map dv_login (found_requesters lower r issue))"
    unfolding requesters_def by (rule first_of_key_subset)
  then show "set (requesters lower r issue) \<subseteq> dv_login ` set (ro_developers r)"
    using found_requesters_on_roster [OF assms, of issue] by fastforce
qed

section \<open>From entries to a roster\<close>

definition entry_keys :: "(string \<Rightarrow> string) \<Rightarrow> Entry \<Rightarrow> string set" where
  "entry_keys lower e = lower ` set (en_aliases e)"

definition entries_ok :: "(string \<Rightarrow> string) \<Rightarrow> Entry list \<Rightarrow> bool" where
  "entries_ok lower es \<longleftrightarrow>
     distinct es \<and>
     (\<forall>e \<in> set es. dv_login (en_developer e) \<in> set (en_aliases e) \<and> trim (dv_login (en_developer e)) = dv_login (en_developer e)) \<and>
     (\<forall>e \<in> set es. \<forall>e' \<in> set es. entry_keys lower e \<inter> entry_keys lower e' \<noteq> {} \<longrightarrow> e = e') \<and>
     (\<forall>e \<in> set es. \<forall>e' \<in> set es. set (en_slugs e) \<inter> set (en_slugs e') \<noteq> {} \<longrightarrow> e = e')"

lemma entries_ok_mset: "entries_ok lower es \<Longrightarrow> mset fs = mset es \<Longrightarrow> entries_ok lower fs"
  unfolding entries_ok_def by (metis mset_eq_imp_distinct_iff set_mset_mset)

lemma fold_same: "fold (\<lambda>a m. m(f a \<mapsto> n)) xs m k = (if k \<in> f ` set xs then Some n else m k)"
  by (induction xs arbitrary: m) auto

lemma fold_same_id: "fold (\<lambda>a m. m(a \<mapsto> n)) xs m k = (if k \<in> set xs then Some n else m k)"
  by (induction xs arbitrary: m) auto

text \<open>The roster after the first entries: each developer at its place, with exactly its keys.\<close>

definition roster_of :: "(string \<Rightarrow> string) \<Rightarrow> Entry list \<Rightarrow> Roster \<Rightarrow> bool" where
  "roster_of lower es r \<longleftrightarrow>
     ro_developers r = map en_developer es \<and>
     (\<forall>l i. ro_logins r l = Some i \<longleftrightarrow> i < length es \<and> l \<in> entry_keys lower (es ! i)) \<and>
     (\<forall>s i. ro_slugs r s = Some i \<longleftrightarrow> i < length es \<and> s \<in> set (en_slugs (es ! i)))"

lemma roster_of_add:
  assumes "roster_of lower es r" "entries_ok lower (es @ [e])"
  shows "roster_of lower (es @ [e]) (add_entry lower e r)"
proof -
  have len: "length (ro_developers r) = length es" using assms(1) by (simp add: roster_of_def)
  have login: "lower (dv_login (en_developer e)) \<in> entry_keys lower e"
    using assms(2) by (auto simp: entries_ok_def entry_keys_def)
  have "e \<notin> set es" using assms(2) by (simp add: entries_ok_def)
  then have other: "es ! i \<noteq> e" if "i < length es" for i using that nth_mem by blast
  have keys: "entry_keys lower (es ! i) \<inter> entry_keys lower e = {}" if "i < length es" for i
    using assms(2) other [OF that] that by (fastforce simp: entries_ok_def)
  have slugs: "set (en_slugs (es ! i)) \<inter> set (en_slugs e) = {}" if "i < length es" for i
    using assms(2) other [OF that] that by (fastforce simp: entries_ok_def)
  have keys': "l \<notin> entry_keys lower (es ! i)" if "l \<in> entry_keys lower e" "i < length es" for l i
    using keys that by blast
  have slugs': "s \<notin> set (en_slugs (es ! i))" if "s \<in> set (en_slugs e)" "i < length es" for s i
    using slugs that by blast
  have fresh: "ro_logins r l = None" if "l \<in> entry_keys lower e" for l
    using assms(1) keys that by (cases "ro_logins r l") (fastforce simp: roster_of_def)+
  have "ro_logins (add_entry lower e r) = fold (\<lambda>a m. m(lower a \<mapsto> length es)) (en_aliases e)
      ((ro_logins r)(lower (dv_login (en_developer e)) \<mapsto> length es))"
    using fresh [OF login] len by (simp add: add_entry_def Let_def)
  also have "\<dots> = (\<lambda>l. if l \<in> entry_keys lower e then Some (length es) else ro_logins r l)"
    using login by (auto simp: fold_same entry_keys_def fun_eq_iff)
  finally have logins: "ro_logins (add_entry lower e r) =
      (\<lambda>l. if l \<in> entry_keys lower e then Some (length es) else ro_logins r l)" .
  have slug_map: "ro_slugs (add_entry lower e r) = (\<lambda>s. if s \<in> set (en_slugs e) then Some (length es) else ro_slugs r s)"
    using fresh [OF login] len by (auto simp: add_entry_def Let_def fold_same_id fun_eq_iff)
  have developers: "ro_developers (add_entry lower e r) = ro_developers r @ [en_developer e]"
    using fresh [OF login] by (simp add: add_entry_def Let_def)
  have nth: "(es @ [e]) ! i = (if i < length es then es ! i else e)" if "i < Suc (length es)" for i
    using that by (auto simp: nth_append less_Suc_eq)
  show ?thesis
    unfolding roster_of_def developers logins slug_map
    using assms(1) keys' slugs' nth
    by (auto simp: roster_of_def less_Suc_eq split: if_splits)
qed

lemma roster_of_fold:
  "roster_of lower es r \<Longrightarrow> entries_ok lower (es @ fs) \<Longrightarrow> roster_of lower (es @ fs) (fold (add_entry lower) fs r)"
proof (induction fs arbitrary: es r)
  case (Cons f fs)
  have "entries_ok lower (es @ [f])" using Cons.prems(2) unfolding entries_ok_def by auto
  then have "roster_of lower (es @ [f]) (add_entry lower f r)" by (rule roster_of_add [OF Cons.prems(1)])
  then show ?case using Cons.IH [of "es @ [f]"] Cons.prems(2) by simp
qed simp

lemma from_entries_roster:
  assumes "entries_ok lower es"
  shows "roster_of lower (sort_key (\<lambda>e. lower (dv_login (en_developer e))) es) (from_entries lower es)"
proof -
  have "roster_of lower [] empty_roster" by (simp add: roster_of_def empty_roster_def)
  moreover have "entries_ok lower ([] @ sort_key (\<lambda>e. lower (dv_login (en_developer e))) es)"
    using assms by (rule entries_ok_mset) simp
  ultimately show ?thesis
    unfolding from_entries_def using roster_of_fold by fastforce
qed

lemma roster_of_ok:
  assumes "roster_of lower es r" "entries_ok lower es" "sorted (map (\<lambda>e. lower (dv_login (en_developer e))) es)"
  shows "roster_ok lower r"
  using assms unfolding roster_ok_def roster_of_def entries_ok_def entry_keys_def
  by (auto simp: comp_def)

lemma from_entries_ok: "entries_ok lower es \<Longrightarrow> roster_ok lower (from_entries lower es)"
  by (rule roster_of_ok [OF from_entries_roster]) (auto intro: entries_ok_mset)

text \<open>A login finds a developer exactly when it is one of the aliases of its entry, up to case.\<close>

lemma from_entries_find:
  assumes "entries_ok lower es"
  shows "roster_find lower (from_entries lower es) l = Some d \<longleftrightarrow>
    (\<exists>e \<in> set es. en_developer e = d \<and> lower (trim l) \<in> entry_keys lower e)"
proof -
  let ?es = "sort_key (\<lambda>e. lower (dv_login (en_developer e))) es"
  note r = from_entries_roster [OF assms]
  have "roster_find lower (from_entries lower es) l = Some d \<longleftrightarrow>
      (\<exists>i < length ?es. lower (trim l) \<in> entry_keys lower (?es ! i) \<and> en_developer (?es ! i) = d)"
    using r by (auto simp: roster_find_def roster_of_def)
  also have "\<dots> \<longleftrightarrow> (\<exists>e \<in> set ?es. en_developer e = d \<and> lower (trim l) \<in> entry_keys lower e)"
    by (metis in_set_conv_nth)
  finally show ?thesis by simp
qed

section \<open>The entries of a new roster\<close>

fun drafts_ok :: "(string \<Rightarrow> string) \<Rightarrow> drafts \<Rightarrow> bool" where
  "drafts_ok lower (es, known) \<longleftrightarrow>
     (\<forall>k i. known k = Some i \<longleftrightarrow> i < length es \<and> k \<in> entry_keys lower (es ! i)) \<and>
     (\<forall>e \<in> set es. dv_login (en_developer e) \<in> set (en_aliases e) \<and> trim (dv_login (en_developer e)) = dv_login (en_developer e)) \<and>
     distinct (concat (map en_slugs es))"

lemma distinct_concat_disjoint:
  "distinct (concat (map f es)) \<Longrightarrow> e \<in> set es \<Longrightarrow> e' \<in> set es \<Longrightarrow> set (f e) \<inter> set (f e') \<noteq> {} \<Longrightarrow> e = e'"
  by (induction es) fastforce+

lemma drafts_entries_ok:
  assumes "drafts_ok lower (es, known)"
  shows "entries_ok lower es"
proof -
  have same: "i = j" if ij: "i < length es" "j < length es" "entry_keys lower (es ! i) \<inter> entry_keys lower (es ! j) \<noteq> {}" for i j
  proof -
    obtain k where "k \<in> entry_keys lower (es ! i)" "k \<in> entry_keys lower (es ! j)" using ij(3) by blast
    then have "known k = Some i" "known k = Some j" using assms ij by simp_all
    then show ?thesis by simp
  qed
  have login: "lower (dv_login (en_developer e)) \<in> entry_keys lower e" if "e \<in> set es" for e
    using assms that by (auto simp: entry_keys_def)
  then have keyed: "entry_keys lower (es ! i) \<inter> entry_keys lower (es ! i) \<noteq> {}" if "i < length es" for i
    using that by (metis Int_absorb empty_iff nth_mem)
  have "distinct es"
    unfolding distinct_conv_nth using same keyed by metis
  moreover have "e = e'" if "e \<in> set es" "e' \<in> set es" "entry_keys lower e \<inter> entry_keys lower e' \<noteq> {}" for e e'
    using that same by (metis in_set_conv_nth)
  ultimately show ?thesis
    using assms distinct_concat_disjoint [of en_slugs es] by (simp add: entries_ok_def)
qed

lemma known_add:
  assumes "\<forall>k i. known k = Some i \<longleftrightarrow> i < length es \<and> k \<in> entry_keys lower (es ! i)"
    and "\<And>i. i < length es \<Longrightarrow> entry_keys lower (es ! i) \<inter> entry_keys lower e = {}"
  shows "(if k \<in> entry_keys lower e then Some (length es) else known k) = Some i \<longleftrightarrow>
    i < length (es @ [e]) \<and> k \<in> entry_keys lower ((es @ [e]) ! i)"
  using assms by (cases "i < length es") (auto simp: nth_append less_Suc_eq)

text \<open>While people are added: each entry belongs to a key that is done, and its aliases to that person.\<close>

fun people_ok :: "(string \<Rightarrow> string) \<Rightarrow> UserRegistry \<Rightarrow> string set \<Rightarrow> drafts \<Rightarrow> bool" where
  "people_ok lower registry ks (es, known) \<longleftrightarrow>
     drafts_ok lower (es, known) \<and>
     (\<forall>e \<in> set es. \<exists>key \<in> ks. en_slugs e = [key] \<and>
       (\<forall>a \<in> set (en_aliases e). registry_owner lower registry GithubUsernames a = Some key))"

lemma owner_lower:
  "lower a = lower b \<Longrightarrow> registry_owner lower r GithubUsernames a = registry_owner lower r GithubUsernames b"
  by (simp add: registry_owner_def handle_owner_def handle_new_def comparison_key_def is_case_insensitive_def)

lemma person_aliases_owned:
  "a \<in> set (person_aliases lower registry key user) \<Longrightarrow>
     registry_owner lower registry GithubUsernames a = Some key \<and> trim a = a"
  by (auto simp: person_aliases_def)

lemma people_ok_add:
  assumes "people_ok lower registry ks d" "key \<notin> ks"
  shows "people_ok lower registry (insert key ks) (add_person lower registry excluded (key, user) d)"
proof -
  obtain es known where d: "d = (es, known)" by force
  let ?aliases = "person_aliases lower registry key user"
  let ?e = "person_entry lower registry key user"
  have old: "drafts_ok lower (es, known)"
    "\<forall>e \<in> set es. \<exists>key \<in> ks. en_slugs e = [key] \<and>
       (\<forall>a \<in> set (en_aliases e). registry_owner lower registry GithubUsernames a = Some key)"
    using assms(1) by (auto simp: d)
  show ?thesis
  proof (cases "?aliases = [] \<or> list_ex (is_excluded excluded) ?aliases")
    case True
    then have "add_person lower registry excluded (key, user) d = d" by (auto simp: add_person_def d Let_def)
    with old show ?thesis by (auto simp: d)
  next
    case False
    then have new: "add_person lower registry excluded (key, user) d =
        (es @ [?e], fold (\<lambda>a m. m(lower a \<mapsto> length es)) ?aliases known)"
      by (simp add: add_person_def d Let_def)
    have e: "en_aliases ?e = ?aliases" "dv_login (en_developer ?e) = hd ?aliases" "en_slugs ?e = [key]"
      by (simp_all add: person_entry_def Let_def)
    have disjoint: "entry_keys lower (es ! i) \<inter> entry_keys lower ?e = {}" if lt: "i < length es" for i
    proof (rule ccontr)
      assume "entry_keys lower (es ! i) \<inter> entry_keys lower ?e \<noteq> {}"
      then obtain a b where ab: "a \<in> set (en_aliases (es ! i))" "b \<in> set ?aliases" "lower a = lower b"
        by (auto simp: entry_keys_def e(1))
      obtain key' where "key' \<in> ks" "registry_owner lower registry GithubUsernames a = Some key'"
        using bspec [OF old(2) nth_mem [OF lt]] ab(1) by blast
      with person_aliases_owned [OF ab(2)] owner_lower [of lower a b registry, OF ab(3)] assms(2) show False by auto
    qed
    have "hd ?aliases \<in> set ?aliases" using False by simp
    moreover have "fold (\<lambda>a m. m(lower a \<mapsto> length es)) ?aliases known k =
        (if k \<in> entry_keys lower ?e then Some (length es) else known k)" for k
      by (simp add: fold_same entry_keys_def e(1))
    moreover have "key \<notin> set (concat (map en_slugs es))" using old(2) assms(2) by auto
    ultimately have "drafts_ok lower (es @ [?e], fold (\<lambda>a m. m(lower a \<mapsto> length es)) ?aliases known)"
      using old(1) known_add [of known es lower ?e] disjoint person_aliases_owned [of "hd ?aliases" lower registry key user]
      by (simp add: e)
    with old(2) show ?thesis
      unfolding new by (auto simp: e dest: person_aliases_owned)
  qed
qed

lemma people_ok_fold:
  "people_ok lower registry ks d \<Longrightarrow> distinct (map fst us) \<Longrightarrow> set (map fst us) \<inter> ks = {} \<Longrightarrow>
     people_ok lower registry (ks \<union> set (map fst us)) (fold (add_person lower registry excluded) us d)"
proof (induction us arbitrary: ks d)
  case (Cons u us)
  obtain key user where u: "u = (key, user)" by force
  have "people_ok lower registry (insert key ks) (add_person lower registry excluded u d)"
    using Cons.prems by (simp add: u people_ok_add)
  from Cons.IH [OF this] Cons.prems show ?case by (simp add: u)
qed simp

lemma fill_discord_keeps [simp]:
  "en_aliases (fill_discord i e) = en_aliases e" "en_slugs (fill_discord i e) = en_slugs e"
  "dv_login (en_developer (fill_discord i e)) = dv_login (en_developer e)"
  "entry_keys lower (fill_discord i e) = entry_keys lower e"
  by (simp_all add: fill_discord_def Let_def entry_keys_def)

lemma drafts_ok_add_mapped:
  assumes "drafts_ok lower d"
  shows "drafts_ok lower (add_mapped lower excluded (login, user) d)"
proof -
  obtain es known where d: "d = (es, known)" by force
  let ?login = "trim login" and ?i = "non_empty (Some (md_discord_user_id user))"
  show ?thesis
  proof (cases "?login = [] \<or> is_excluded excluded ?login")
    case True
    then have "add_mapped lower excluded (login, user) d = d" by (auto simp: add_mapped_def d Let_def)
    with assms show ?thesis by simp
  next
    case allowed: False
    show ?thesis
    proof (cases "known (lower ?login)")
      case None
      let ?e = "\<lparr>en_developer = (developer_new ?login)\<lparr>dv_discord_id := ?i\<rparr>, en_aliases = [?login], en_slugs = []\<rparr>"
      have new: "add_mapped lower excluded (login, user) d = (es @ [?e], known(lower ?login \<mapsto> length es))"
        using allowed None by (simp add: add_mapped_def d Let_def)
      have keys: "entry_keys lower ?e = {lower ?login}" by (simp add: entry_keys_def)
      have "entry_keys lower (es ! i) \<inter> entry_keys lower ?e = {}" if "i < length es" for i
      proof -
        have "lower ?login \<notin> entry_keys lower (es ! i)"
          using assms None that unfolding d drafts_ok.simps by (metis option.distinct(1))
        then show ?thesis unfolding keys by simp
      qed
      moreover have "(known(lower ?login \<mapsto> length es)) k = (if k \<in> entry_keys lower ?e then Some (length es) else known k)" for k
        by (simp add: keys)
      ultimately show ?thesis
        unfolding new using assms known_add [of known es lower ?e] by (simp add: d developer_new_def)
    next
      case (Some index)
      then have index: "index < length es" using assms by (simp add: d)
      have new: "add_mapped lower excluded (login, user) d = (es[index := fill_discord ?i (es ! index)], known)"
        using allowed Some by (simp add: add_mapped_def d Let_def)
      have nth: "en_aliases (es[index := fill_discord ?i (es ! index)] ! j) = en_aliases (es ! j)"
        "entry_keys lower (es[index := fill_discord ?i (es ! index)] ! j) = entry_keys lower (es ! j)" for j
        using index by (cases "j = index"; simp)+
      have slugs: "map en_slugs (es[index := fill_discord ?i (es ! index)]) = map en_slugs es"
        using list_update_id [of "map en_slugs es" index] index by (simp add: map_update)
      have "dv_login (en_developer e) \<in> set (en_aliases e) \<and> trim (dv_login (en_developer e)) = dv_login (en_developer e)"
        if "e \<in> set (es[index := fill_discord ?i (es ! index)])" for e
      proof -
        have logins: "\<forall>e \<in> set es. dv_login (en_developer e) \<in> set (en_aliases e) \<and>
            trim (dv_login (en_developer e)) = dv_login (en_developer e)"
          using assms by (simp add: d)
        from that consider "e = fill_discord ?i (es ! index)" | "e \<in> set es"
          using set_update_subset_insert [of es index] by blast
        then show ?thesis using logins nth_mem [OF index] by cases simp_all
      qed
      moreover have "\<forall>k i. known k = Some i \<longleftrightarrow> i < length es \<and> k \<in> entry_keys lower (es ! i)"
        "distinct (concat (map en_slugs es))"
        using assms by (simp_all add: d)
      ultimately show ?thesis
        unfolding new drafts_ok.simps length_list_update nth(2) slugs by blast
    qed
  qed
qed

lemma drafts_ok_fold_mapped: "drafts_ok lower d \<Longrightarrow> drafts_ok lower (fold (add_mapped lower excluded) ms d)"
proof (induction ms arbitrary: d)
  case (Cons m ms)
  show ?case using Cons.IH [OF drafts_ok_add_mapped [OF Cons.prems, of excluded "fst m" "snd m"]] by simp
qed simp

lemma distinct_collected: "distinct (map fst (collect_entries kvs))"
proof -
  have "distinct (map fst (fold (\<lambda>(k, v). AList.update k v) kvs m))" if "distinct (map fst m)" for m :: "('a \<times> 'b) list"
    using that by (induction kvs arbitrary: m) (auto simp: distinct_update)
  then show ?thesis by (simp add: collect_entries_def)
qed

lemma people_entries_ok:
  "drafts_ok lower (fold (add_person lower registry excluded) (sort_key fst (registry_users registry)) ([], \<lambda>l. None))"
proof -
  let ?us = "sort_key fst (registry_users registry)"
  have "distinct (map fst (registry_users registry))"
    by (simp add: registry_users_def distinct_collected)
  then have us: "distinct (map fst ?us)" by (metis distinct_map distinct_sort set_sort)
  have "people_ok lower registry {} ([], \<lambda>l. None)" by simp
  then have "people_ok lower registry ({} \<union> set (map fst ?us))
      (fold (add_person lower registry excluded) ?us ([], \<lambda>l. None))"
    by (rule people_ok_fold) (use us in auto)
  then show ?thesis
    by (cases "fold (add_person lower registry excluded) ?us ([], \<lambda>l. None)") simp
qed

lemma roster_entries_ok: "drafts_ok lower (roster_entries lower registry m excluded)"
  unfolding roster_entries_def by (rule drafts_ok_fold_mapped [OF people_entries_ok])

text \<open>No entry has an excluded login.\<close>

definition none_excluded :: "string list \<Rightarrow> Entry list \<Rightarrow> bool" where
  "none_excluded excluded es = list_all (\<lambda>e. \<not> is_excluded excluded (dv_login (en_developer e))) es"

lemma none_excluded_person:
  "none_excluded excluded (fst d) \<Longrightarrow> none_excluded excluded (fst (add_person lower registry excluded u d))"
  by (cases u; cases d; cases "person_aliases lower registry (fst u) (snd u)")
    (auto simp: none_excluded_def add_person_def person_entry_def Let_def)

lemma none_excluded_mapped:
  "none_excluded excluded (fst d) \<Longrightarrow> drafts_ok lower d \<Longrightarrow> none_excluded excluded (fst (add_mapped lower excluded u d))"
proof -
  assume ok: "none_excluded excluded (fst d)" "drafts_ok lower d"
  obtain es known where d: "d = (es, known)" by force
  have "none_excluded excluded (es[i := fill_discord x (es ! i)])" if "i < length es" for i x
    using ok(1) nth_mem [OF that] set_update_subset_insert [of es i "fill_discord x (es ! i)"]
    by (auto simp: none_excluded_def list_all_iff d)
  moreover have "i < length es" if "known k = Some i" for k i using ok(2) that by (simp add: d)
  ultimately show ?thesis
    using ok(1) by (cases u) (auto simp: add_mapped_def d Let_def none_excluded_def developer_new_def split: option.splits)
qed

lemma none_excluded_entries: "none_excluded excluded (fst (roster_entries lower registry m excluded))"
proof -
  have people: "none_excluded excluded (fst (fold (add_person lower registry excluded) us d))"
    if "none_excluded excluded (fst d)" for us d
    using that by (induction us arbitrary: d) (simp_all add: none_excluded_person)
  have mapped: "none_excluded excluded (fst (fold (add_mapped lower excluded) ms d))"
    if "none_excluded excluded (fst d)" "drafts_ok lower d" for ms d
    using that
  proof (induction ms arbitrary: d)
    case (Cons m ms)
    show ?case
      using Cons.IH [OF none_excluded_mapped [OF Cons.prems]] drafts_ok_add_mapped [OF Cons.prems(2), of excluded "fst m" "snd m"]
      by simp
  qed simp
  show ?thesis
    unfolding roster_entries_def by (rule mapped [OF people people_entries_ok]) (simp add: none_excluded_def)
qed

lemma new_roster_facts:
  "roster_ok lower (roster_new lower registry m excluded) \<and>
   list_all (\<lambda>d. \<not> is_excluded excluded (dv_login d)) (ro_developers (roster_new lower registry m excluded))"
proof -
  obtain es known where es: "roster_entries lower registry m excluded = (es, known)" by force
  then have ok: "entries_ok lower es"
    using roster_entries_ok drafts_entries_ok by metis
  have "ro_developers (roster_new lower registry m excluded) =
      map en_developer (sort_key (\<lambda>e. lower (dv_login (en_developer e))) es)"
    using from_entries_roster [OF ok] by (simp add: roster_new_def es roster_of_def)
  moreover have "none_excluded excluded es" using none_excluded_entries es by (metis fst_conv)
  ultimately show ?thesis
    using from_entries_ok [OF ok] by (auto simp: roster_new_def es none_excluded_def list_all_iff)
qed

lemma new_roster_ok: "roster_ok lower (roster_new lower registry m excluded)"
  using new_roster_facts by (rule conjunct1)

text \<open>
  The roster built from the registry and the GitHub to Discord map is well-formed: it lists its developers
  in the order of their lowercase logins, no login twice, finds every one of them by login, and whatever a
  login, alias or person key leads to is a developer of the roster. No developer has an excluded login.
\<close>

theorem new_roster_well_formed:
  "roster_ok lower (roster_new lower registry m excluded) \<and>
   list_all (\<lambda>d. \<not> is_excluded excluded (dv_login d)) (ro_developers (roster_new lower registry m excluded))"
  by (rule new_roster_facts)

definition two_logins :: UserRegistry where
  "two_logins = registry_new ascii_lowercase
     [(''amy'', (user_of_identities no_identities)\<lparr>github_usernames := [''amy'', ''amy-bot'']\<rparr>)]"

definition amy_mapped :: GitHubDiscordMap where
  "amy_mapped = \<lparr>gm_guild_id = None, gm_by_github_login =
     [(''amy'', \<lparr>md_discord_username = None, md_discord_user_id = ''42'', md_status = None\<rparr>)]\<rparr>"

lemma two_logins_persons:
  "dir_persons (reg_directory two_logins) =
     [\<lparr>ps_key = ''amy'', ps_origin = Config_Entry,
       ps_user = (user_of_identities no_identities)\<lparr>github_usernames := [''amy'', ''amy-bot'']\<rparr>\<rparr>]"
proof -
  have "\<not> starts_with ''amy'' console_key_prefix" by code_simp
  then show ?thesis
    by (simp add: two_logins_def registry_new_def Let_def dir_persons_built console_entries_def directory_persons_def
        assign_keys_def seed_new_def)
qed

lemma trim_literals: "trim ''amy'' = ''amy''" "trim ''amy-bot'' = ''amy-bot''" "trim ''42'' = ''42''"
  by (rule trim_login; code_simp)+

text \<open>
  Excluding a person by one of their logins does not keep them off the roster: another login of theirs that
  the GitHub to Discord map lists is added, although the registry knows its owner.
\<close>

theorem excluded_person_returns:
  "roster_find ascii_lowercase (roster_new ascii_lowercase two_logins amy_mapped [''amy-bot'']) ''amy'' =
     Some \<lparr>dv_login = ''amy'', dv_discord_id = Some ''42'', dv_slack_id = None\<rparr> \<and>
   registry_owner ascii_lowercase two_logins GithubUsernames ''amy'' = Some ''amy''"
proof -
  let ?p = "\<lparr>ps_key = ''amy'', ps_origin = Config_Entry,
       ps_user = (user_of_identities no_identities)\<lparr>github_usernames := [''amy'', ''amy-bot'']\<rparr>\<rparr>"
  have texts: "\<not> eq_ignore_ascii_case ''amy-bot'' ''amy''" by code_simp
  have run: "registry_run ascii_lowercase
      [(''amy'', (user_of_identities no_identities)\<lparr>github_usernames := [''amy'', ''amy-bot'']\<rparr>)] two_logins"
    unfolding two_logins_def by (rule created)
  have owners: "registry_owner ascii_lowercase two_logins GithubUsernames l = Some ''amy''"
    if "l \<in> {''amy'', ''amy-bot''}" for l
    using that unfolding registry_owner_def
    by (auto simp: first_claimer_owns_handle(1) [OF run] two_logins_persons claims_handle_def)
  have "registry_users two_logins = [(''amy'', ps_user ?p)]"
    by (simp add: registry_users_def two_logins_persons collect_entries_def)
  then have "roster_entries ascii_lowercase two_logins amy_mapped [''amy-bot''] =
      ([\<lparr>en_developer = \<lparr>dv_login = ''amy'', dv_discord_id = Some ''42'', dv_slack_id = None\<rparr>,
         en_aliases = [''amy''], en_slugs = []\<rparr>], (\<lambda>l. None)(ascii_lowercase ''amy'' \<mapsto> 0))"
    by (simp add: roster_entries_def add_person_def add_mapped_def Let_def person_aliases_def trim_literals owners
        is_excluded_def texts amy_mapped_def non_empty_def developer_new_def)
  then show ?thesis
    using owners by (simp add: roster_new_def from_entries_def roster_find_def add_entry_def Let_def empty_roster_def
        trim_literals)
qed

end
