(* ===== verification/Pull_Requests.thy ===== *)
theory Pull_Requests
  imports Rosters
begin

text \<open>
  Open pull requests and the messages about them, \<open>crates/claudear-analysis/src/distribution/pull_request.rs\<close> and
  \<open>notice.rs\<close>, with the assignment types of \<open>crates/claudear-core/src/types.rs\<close>. A score is a finite
  non-negative \<open>f64\<close>, given by its value.
\<close>

section \<open>Assignments\<close>

datatype AssignmentReason = Requester | CodeOwner | Author | Activity | Load

fun assignment_reason_as_str :: "AssignmentReason \<Rightarrow> string" where
  "assignment_reason_as_str Requester = ''requester''"
| "assignment_reason_as_str CodeOwner = ''code_owner''"
| "assignment_reason_as_str Author = ''author''"
| "assignment_reason_as_str Activity = ''activity''"
| "assignment_reason_as_str Load = ''load''"

fun parse_variant :: "string \<Rightarrow> ('a \<Rightarrow> string) \<Rightarrow> 'a list \<Rightarrow> string \<Rightarrow> string + 'a" where
  "parse_variant what as_str [] v = Inl (''unknown '' @ what @ '': '' @ v)"
| "parse_variant what as_str (x # xs) v = (if v = as_str x then Inr x else parse_variant what as_str xs v)"

definition assignment_reason_from_str :: "string \<Rightarrow> string + AssignmentReason" where
  "assignment_reason_from_str =
     parse_variant ''assignment reason'' assignment_reason_as_str [Requester, CodeOwner, Author, Activity, Load]"

datatype AssignmentStatus = Active | Released | Closed_Assignment

fun assignment_status_as_str :: "AssignmentStatus \<Rightarrow> string" where
  "assignment_status_as_str Active = ''active''"
| "assignment_status_as_str Released = ''released''"
| "assignment_status_as_str Closed_Assignment = ''closed''"

definition assignment_status_from_str :: "string \<Rightarrow> string + AssignmentStatus" where
  "assignment_status_from_str =
     parse_variant ''assignment status'' assignment_status_as_str [Active, Released, Closed_Assignment]"

lemma parse_variant_Inr: "parse_variant what as_str xs v = Inr x \<Longrightarrow> v = as_str x"
  by (induction xs) (auto split: if_splits)

interpretation assignment_reasons: closed_text_enum "[Requester, CodeOwner, Author, Activity, Load]"
  assignment_reason_as_str assignment_reason_from_str
proof (unfold_locales, goal_cases)
  case 1
  show ?case by (auto intro: AssignmentReason.exhaust)
next
  case (2 x)
  show ?case by (cases x) (simp_all add: assignment_reason_from_str_def)
next
  case (3 s x)
  then show ?case unfolding assignment_reason_from_str_def by (rule parse_variant_Inr)
qed

interpretation assignment_statuses: closed_text_enum "[Active, Released, Closed_Assignment]"
  assignment_status_as_str assignment_status_from_str
proof (unfold_locales, goal_cases)
  case 1
  show ?case by (auto intro: AssignmentStatus.exhaust)
next
  case (2 x)
  show ?case by (cases x) (simp_all add: assignment_status_from_str_def)
next
  case (3 s x)
  then show ?case unfolding assignment_status_from_str_def by (rule parse_variant_Inr)
qed

section \<open>Reviews\<close>

datatype PullRequestState = Open_Pr | Closed_Pr | Merged_Pr

datatype ReviewVerdict = Approved | ChangesRequested | Commented | Dismissed | Pending_Review

definition to_ascii_upper :: "char \<Rightarrow> char" where
  "to_ascii_upper c = (if is_ascii_lower c then char_of (byte c - 32) else c)"

definition verdict_from_github :: "string \<Rightarrow> ReviewVerdict" where
  "verdict_from_github state =
     (let s = map to_ascii_upper state
      in if s = ''APPROVED'' then Approved
         else if s = ''CHANGES_REQUESTED'' then ChangesRequested
         else if s = ''COMMENTED'' then Commented
         else if s = ''DISMISSED'' then Dismissed
         else Pending_Review)"

definition is_submitted :: "ReviewVerdict \<Rightarrow> bool" where
  "is_submitted v \<longleftrightarrow> v \<in> {Approved, ChangesRequested, Commented}"

record Review =
  rv_reviewer :: string
  rv_verdict :: ReviewVerdict
  rv_commit :: "string option"

datatype Attention = Needed | Draft | MergePending | Reviewed | Merged_Attention | Closed_Attention

definition attention_is_needed :: "Attention \<Rightarrow> bool" where
  "attention_is_needed a \<longleftrightarrow> a = Needed"

definition attention_is_finished :: "Attention \<Rightarrow> bool" where
  "attention_is_finished a \<longleftrightarrow> a \<in> {Merged_Attention, Closed_Attention}"

record PullRequest =
  pr_url :: string
  pr_repo :: string
  pr_number :: int
  pr_title :: string
  pr_state :: PullRequestState
  pr_draft :: bool
  pr_auto_merge :: bool
  pr_head :: "string option"
  pr_requested_reviewers :: "string list"
  pr_reviews :: "Review list"
  pr_created_at :: "datetime option"

text \<open>The latest decision of each reviewer, in the order of their first decisions.\<close>

fun decide :: "string \<Rightarrow> ReviewVerdict \<Rightarrow> (string \<times> ReviewVerdict) list \<Rightarrow> (string \<times> ReviewVerdict) list" where
  "decide reviewer v [] = [(reviewer, v)]"
| "decide reviewer v ((login, w) # rest) =
     (if login = reviewer then (login, v) # rest else (login, w) # decide reviewer v rest)"

definition add_review :: "(string \<Rightarrow> string) \<Rightarrow> Review \<Rightarrow> (string \<times> ReviewVerdict) list \<Rightarrow> (string \<times> ReviewVerdict) list" where
  "add_review lower review decisions =
     (if rv_verdict review \<in> {Approved, ChangesRequested, Dismissed}
      then decide (lower (rv_reviewer review)) (rv_verdict review) decisions else decisions)"

definition is_approved :: "(string \<Rightarrow> string) \<Rightarrow> PullRequest \<Rightarrow> bool" where
  "is_approved lower pr =
     (let decisions = fold (add_review lower) (pr_reviews pr) []
      in list_ex (\<lambda>(login, v). v = Approved) decisions \<and>
         \<not> list_ex (\<lambda>(login, v). v = ChangesRequested) decisions)"

definition has_reviewed_head :: "PullRequest \<Rightarrow> string \<Rightarrow> bool" where
  "has_reviewed_head pr login =
     (case pr_head pr of
        None \<Rightarrow> False
      | Some head \<Rightarrow>
          \<not> list_ex (\<lambda>r. eq_ignore_ascii_case r login) (pr_requested_reviewers pr) \<and>
          list_ex (\<lambda>r. eq_ignore_ascii_case (rv_reviewer r) login \<and> is_submitted (rv_verdict r) \<and>
            rv_commit r = Some head) (pr_reviews pr))"

definition attention :: "(string \<Rightarrow> string) \<Rightarrow> PullRequest \<Rightarrow> string option \<Rightarrow> Attention" where
  "attention lower pr assignee =
     (case pr_state pr of
        Merged_Pr \<Rightarrow> Merged_Attention
      | Closed_Pr \<Rightarrow> Closed_Attention
      | Open_Pr \<Rightarrow>
          if pr_draft pr then Draft
          else if pr_auto_merge pr \<and> is_approved lower pr then MergePending
          else (case assignee of
                  None \<Rightarrow> Needed
                | Some login \<Rightarrow> if has_reviewed_head pr login then Reviewed else Needed))"

section \<open>Whether a pull request is approved\<close>

definition decisive :: "ReviewVerdict \<Rightarrow> bool" where
  "decisive v \<longleftrightarrow> v \<noteq> Commented \<and> v \<noteq> Pending_Review"

text \<open>What the code means to compute: the last decisive review of a reviewer.\<close>

definition last_decision :: "(string \<Rightarrow> string) \<Rightarrow> Review list \<Rightarrow> string \<Rightarrow> ReviewVerdict option" where
  "last_decision lower reviews who =
     (let mine = filter (\<lambda>r. decisive (rv_verdict r) \<and> lower (rv_reviewer r) = who) reviews
      in if mine = [] then None else Some (rv_verdict (last mine)))"

lemma decide_lookup: "map_of (decide reviewer v ds) = (map_of ds)(reviewer \<mapsto> v)"
  by (induction reviewer v ds rule: decide.induct) auto

lemma decide_key_set: "set (map fst (decide reviewer v ds)) = insert reviewer (set (map fst ds))"
  by (induction reviewer v ds rule: decide.induct) auto

lemma decide_keys: "distinct (map fst ds) \<Longrightarrow> distinct (map fst (decide reviewer v ds))"
proof (induction reviewer v ds rule: decide.induct)
  case (2 reviewer v login w rest)
  then show ?case using decide_key_set [of reviewer v rest] by auto
qed simp

lemma decisive_cases: "v \<in> {Approved, ChangesRequested, Dismissed} \<longleftrightarrow> decisive v"
  by (cases v) (simp_all add: decisive_def)

lemma decisions_lookup:
  "map_of (fold (add_review lower) reviews []) = last_decision lower reviews \<and>
   distinct (map fst (fold (add_review lower) reviews []))"
proof (induction reviews rule: rev_induct)
  case (snoc r reviews)
  show ?case
  proof (cases "decisive (rv_verdict r)")
    case True
    then have "add_review lower r = decide (lower (rv_reviewer r)) (rv_verdict r)"
      unfolding add_review_def decisive_cases fun_eq_iff by simp
    with snoc True show ?thesis
      by (auto simp: decide_lookup decide_keys last_decision_def Let_def fun_eq_iff)
  next
    case False
    then have "add_review lower r = (\<lambda>ds. ds)"
      unfolding add_review_def decisive_cases fun_eq_iff by simp
    with snoc False show ?thesis by (simp add: last_decision_def Let_def fun_eq_iff)
  qed
qed (simp add: last_decision_def fun_eq_iff)

text \<open>
  A pull request counts as approved exactly when the latest decisive review of some reviewer approves it
  and that of no reviewer asks for changes; comments and pending reviews decide nothing, dismissals withdraw.
\<close>

theorem approved_by_last_decisions:
  "is_approved lower pr \<longleftrightarrow>
     (\<exists>who. last_decision lower (pr_reviews pr) who = Some Approved) \<and>
     (\<nexists>who. last_decision lower (pr_reviews pr) who = Some ChangesRequested)"
proof -
  let ?ds = "fold (add_review lower) (pr_reviews pr) []"
  have ds: "map_of ?ds = last_decision lower (pr_reviews pr)" "distinct (map fst ?ds)"
    using decisions_lookup by blast+
  have "list_ex (\<lambda>(login, v). v = w) ?ds \<longleftrightarrow> (\<exists>who. last_decision lower (pr_reviews pr) who = Some w)" for w
    using ds(2) by (auto simp: list_ex_iff ds(1) [symmetric])
  then show ?thesis by (simp add: is_approved_def Let_def)
qed

section \<open>Notices\<close>

text \<open>The bytes of U+200B, and of the bullet before a line.\<close>

definition mention_break :: string where
  "mention_break = [char_of (226::nat), char_of (128::nat), char_of (139::nat)]"

definition bullet :: string where
  "bullet = [char_of (226::nat), char_of (128::nat), char_of (162::nat)]"

record Markup =
  mk_mention :: "Developer \<Rightarrow> string"
  mk_link :: "string \<Rightarrow> string \<Rightarrow> string"
  mk_text :: "string \<Rightarrow> string"

definition break_mentions :: "string \<Rightarrow> string" where
  "break_mentions v = replace_text ''@'' (''@'' @ mention_break) v"

definition plain_text :: Markup where
  "plain_text =
     \<lparr>mk_mention = developer_handle, mk_link = (\<lambda>label url. label @ '' ('' @ url @ '')''), mk_text = break_mentions\<rparr>"

record PullRequestSummary =
  ps_url :: string
  ps_repo :: string
  ps_number :: int
  ps_title :: string
  ps_opened_at :: "datetime option"

definition summary_label :: "PullRequestSummary \<Rightarrow> string" where
  "summary_label s = ps_repo s @ ''#'' @ show_int (ps_number s)"

definition nanos_per_day :: int where
  "nanos_per_day = 86400 * nanos_per_second"

definition summary_line :: "Markup \<Rightarrow> datetime \<Rightarrow> PullRequestSummary \<Rightarrow> string" where
  "summary_line markup now s =
     (let link = mk_link markup (summary_label s) (ps_url s); title = mk_text markup (ps_title s)
      in case ps_opened_at s of
           Some opened_at \<Rightarrow>
             bullet @ '' '' @ link @ '' '' @ title @ '' (open '' @
             show_int (max 0 ((now - opened_at) div nanos_per_day)) @ ''d)''
         | None \<Rightarrow> bullet @ '' '' @ link @ '' '' @ title)"

definition summary_of :: "PullRequest \<Rightarrow> PullRequestSummary" where
  "summary_of pr =
     \<lparr>ps_url = pr_url pr, ps_repo = pr_repo pr, ps_number = pr_number pr, ps_title = pr_title pr,
      ps_opened_at = pr_created_at pr\<rparr>"

record AssignmentNotice =
  an_developer :: Developer
  an_pull_request :: PullRequestSummary
  an_reason :: AssignmentReason
  an_previous :: "string option"

fun explain :: "AssignmentReason \<Rightarrow> string" where
  "explain Requester = ''You asked for this work.''"
| "explain CodeOwner = ''You own the changed code.''"
| "explain Author = ''You recently worked on the changed files.''"
| "explain Activity = ''You'' @ [CHR 0x27] @ ''re active in this repository.''"
| "explain Load = ''Shared out to balance the review load.''"

definition line_feed :: string where
  "line_feed = [char_of (10::nat)]"

definition notice_render :: "Markup \<Rightarrow> AssignmentNotice \<Rightarrow> string" where
  "notice_render markup n =
     mk_mention markup (an_developer n) @ '' you'' @ [CHR 0x27] @ ''re responsible for getting '' @
     mk_link markup (summary_label (an_pull_request n)) (ps_url (an_pull_request n)) @
     '' over the line: '' @ mk_text markup (ps_title (an_pull_request n)) @ line_feed @
     explain (an_reason n) @
     (case an_previous n of
        None \<Rightarrow> []
      | Some previous \<Rightarrow> '' Taking over from '' @ mk_text markup (''@'' @ previous) @ ''.'')"

record DigestGroup =
  dg_developer :: Developer
  dg_pull_requests :: "PullRequestSummary list"

definition group_heading :: "Markup \<Rightarrow> DigestGroup \<Rightarrow> string" where
  "group_heading markup g =
     (let count = length (dg_pull_requests g)
      in mk_mention markup (dg_developer g) @ '' '' @ show_nat count @ '' Claudear PR'' @
         (if count = 1 then [] else ''s'') @ '' waiting on you:'')"

definition group_lines :: "Markup \<Rightarrow> datetime \<Rightarrow> DigestGroup \<Rightarrow> string list" where
  "group_lines markup now g = map (summary_line markup now) (dg_pull_requests g)"

definition group_render :: "Markup \<Rightarrow> datetime \<Rightarrow> DigestGroup \<Rightarrow> string" where
  "group_render markup now g = join_with line_feed (group_heading markup g # group_lines markup now g)"

text \<open>The loop of \<open>pages\<close> with the page under construction and its length in characters.\<close>

fun fill_pages :: "nat \<Rightarrow> string list \<Rightarrow> string \<Rightarrow> nat \<Rightarrow> string list" where
  "fill_pages limit [] page len = (if len > 0 then [page] else [])"
| "fill_pages limit (line # lines) page len =
     (let line = take_chars limit line; line_length = chars_count line
      in if len > 0 \<and> len + 1 + line_length > limit then page # fill_pages limit lines line line_length
         else if len > 0 then fill_pages limit lines (page @ line_feed @ line) (len + 1 + line_length)
         else fill_pages limit lines (page @ line) line_length)"

definition group_pages :: "Markup \<Rightarrow> datetime \<Rightarrow> nat \<Rightarrow> DigestGroup \<Rightarrow> string list" where
  "group_pages markup now limit g = fill_pages limit (group_heading markup g # group_lines markup now g) [] 0"

record Digest =
  dg_groups :: "DigestGroup list"
  dg_generated_at :: datetime

definition digest_title :: string where
  "digest_title =
     ''Open Claudear PRs: if you'' @ [CHR 0x27] @ ''re tagged, it'' @ [CHR 0x27] @
     ''s your responsibility to get the PR over the line.''"

definition digest_is_empty :: "Digest \<Rightarrow> bool" where
  "digest_is_empty d \<longleftrightarrow> dg_groups d = []"

definition digest_count :: "Digest \<Rightarrow> nat" where
  "digest_count d = sum_list (map (length \<circ> dg_pull_requests) (dg_groups d))"

definition digest_render :: "Markup \<Rightarrow> Digest \<Rightarrow> string" where
  "digest_render markup d =
     join_with (line_feed @ line_feed)
       (digest_title # map (group_render markup (dg_generated_at d)) (dg_groups d))"

section \<open>Pages\<close>

lemma chars_count_cut: "chars_count (take_chars n s) = min n (chars_count s)"
  by (induction n s rule: take_chars.induct) (auto split: nat.split)

lemma chars_count_line_feed [simp]: "chars_count line_feed = 1"
  by code_simp

lemma pages_fit:
  "chars_count page = len \<Longrightarrow> len \<le> limit \<Longrightarrow> p \<in> set (fill_pages limit lines page len) \<Longrightarrow> chars_count p \<le> limit"
proof (induction limit lines page len rule: fill_pages.induct)
  case (2 limit line lines page len)
  then show ?case by (auto simp: Let_def chars_count_cut split: if_splits)
qed (auto split: if_splits)

lemma fill_pages_not_Nil: "0 < len \<Longrightarrow> fill_pages limit lines page len \<noteq> []"
  by (induction limit lines page len rule: fill_pages.induct) (auto simp: Let_def)

lemma join_merged: "join_with sep ((a @ sep @ b) # ws) = join_with sep (a # b # ws)"
  by (cases ws) simp_all

lemma pages_join:
  "chars_count page = len \<Longrightarrow> (len = 0 \<Longrightarrow> page = []) \<Longrightarrow> 0 < limit \<Longrightarrow> list_all (\<lambda>l. 0 < chars_count l) lines \<Longrightarrow>
     join_with line_feed (fill_pages limit lines page len) =
     join_with line_feed ((if len > 0 then [page] else []) @ map (take_chars limit) lines)"
proof (induction limit lines page len rule: fill_pages.induct)
  case (2 limit line lines page len)
  let ?line = "take_chars limit line"
  have pos: "0 < chars_count ?line" using "2.prems" by (simp add: chars_count_cut)
  consider "len > 0" "len + 1 + chars_count ?line > limit" | "len > 0" "len + 1 + chars_count ?line \<le> limit" | "len = 0"
    by linarith
  then show ?case
  proof cases
    case 1
    with "2.IH"(1) [OF refl refl] "2.prems" pos
    have "join_with line_feed (fill_pages limit lines ?line (chars_count ?line)) =
        join_with line_feed (?line # map (take_chars limit) lines)" by simp
    with 1 fill_pages_not_Nil [OF pos] show ?thesis by (simp add: Let_def join_append_sep)
  next
    case 2
    with "2.IH"(2) [OF refl refl] "2.prems" pos
    have "join_with line_feed (fill_pages limit lines (page @ line_feed @ ?line) (len + 1 + chars_count ?line)) =
        join_with line_feed ((page @ line_feed @ ?line) # map (take_chars limit) lines)" by simp
    with 2 show ?thesis by (simp add: Let_def join_merged)
  next
    case 3
    with "2.IH"(3) [OF refl refl] "2.prems" pos
    show ?thesis by (simp add: Let_def)
  qed
qed simp

lemma heading_not_empty: "0 < chars_count (group_heading markup g)"
proof -
  have "0 < chars_count '' waiting on you:''" by code_simp
  then show ?thesis by (simp add: group_heading_def Let_def)
qed

lemma line_not_empty: "0 < chars_count (summary_line markup now s)"
proof -
  have "0 < chars_count bullet" by code_simp
  then show ?thesis by (simp add: summary_line_def Let_def split: option.splits)
qed

text \<open>
  Property C36. The pages of a digest group are never longer than the limit of the channel, and put together line by line
  they are the rendered group with every line cut to the limit: nothing is lost, repeated or reordered.
\<close>

theorem pages_fit_and_cover:
  assumes "0 < limit"
  shows "list_all (\<lambda>p. chars_count p \<le> limit) (group_pages markup now limit g) \<and>
    join_with line_feed (group_pages markup now limit g) =
      join_with line_feed (map (take_chars limit) (group_heading markup g # group_lines markup now g))"
proof (rule conjI)
  show "list_all (\<lambda>p. chars_count p \<le> limit) (group_pages markup now limit g)"
    unfolding group_pages_def list_all_iff using pages_fit [of "[]" 0 limit] by (auto simp del: fill_pages.simps)
  have "list_all (\<lambda>l. 0 < chars_count l) (group_heading markup g # group_lines markup now g)"
    using heading_not_empty line_not_empty by (simp add: group_lines_def list_all_iff)
  then show "join_with line_feed (group_pages markup now limit g) =
      join_with line_feed (map (take_chars limit) (group_heading markup g # group_lines markup now g))"
    unfolding group_pages_def using pages_join [of "[]" 0 limit] assms by (simp del: fill_pages.simps list.map)
qed

definition example_group :: DigestGroup where
  "example_group = \<lparr>dg_developer = developer_new ''amy'', dg_pull_requests =
     [\<lparr>ps_url = ''u'', ps_repo = ''a/b'', ps_number = 1, ps_title = ''t'', ps_opened_at = None\<rparr>]\<rparr>"

lemma pages_fit_and_cover_witness:
  "list_all (\<lambda>p. chars_count p \<le> 40) (group_pages plain_text 0 40 example_group) \<and>
   length (group_pages plain_text 0 40 example_group) = 2"
proof -
  have "length (group_pages plain_text 0 40 example_group) = 2" by code_simp
  then show ?thesis using pages_fit_and_cover [of 40 plain_text 0 example_group] by simp
qed

section \<open>Mentions\<close>

lemma replace_char: "replace_text [c] r s = concat (map (\<lambda>x. if x = c then r else [x]) s)"
  by (induction "[c]" r s rule: replace_text.induct) auto

lemma break_Cons: "break_mentions (x # v) = (if x = CHR ''@'' then ''@'' @ mention_break else [x]) @ break_mentions v"
  unfolding break_mentions_def replace_char by simp

lemma at_not_break: "CHR ''@'' \<notin> set mention_break"
  by code_simp

lemma broken_at: "break_mentions v = u @ CHR ''@'' # w \<Longrightarrow> \<exists>w'. w = mention_break @ w'"
proof (induction v arbitrary: u)
  case (Cons x v)
  show ?case
  proof (cases "x = CHR ''@''")
    case True
    with Cons.prems have eq: "CHR ''@'' # mention_break @ break_mentions v = u @ CHR ''@'' # w"
      by (simp add: break_Cons)
    show ?thesis
    proof (cases u)
      case Nil
      with eq show ?thesis by auto
    next
      case (Cons y u')
      with eq have "mention_break @ break_mentions v = u' @ CHR ''@'' # w" by simp
      then obtain u'' where "break_mentions v = u'' @ CHR ''@'' # w"
        using at_not_break
        by (auto simp: append_eq_append_conv2 Cons_eq_append_conv append_eq_Cons_conv dest: arg_cong [of _ _ set])
      then show ?thesis by (rule Cons.IH)
    qed
  next
    case False
    with Cons.prems obtain u' where "break_mentions v = u' @ CHR ''@'' # w"
      by (auto simp: break_Cons Cons_eq_append_conv)
    then show ?thesis by (rule Cons.IH)
  qed
qed (simp add: break_mentions_def)

text \<open>
  A title never pings anyone in plain text: wherever it is shown, every \<open>@\<close> of it is followed by a zero
  width space, so no channel reads it as a mention.
\<close>

theorem titles_never_ping:
  assumes "mk_text plain_text title = u @ CHR ''@'' # w"
  shows "\<exists>w'. w = mention_break @ w'"
  using assms by (intro broken_at [of title u w]) (simp add: plain_text_def)

lemma titles_never_ping_witness: "\<exists>w'. mention_break @ ''here'' = mention_break @ w'"
proof (rule titles_never_ping [of "''@here''" "[]"])
  show "mk_text plain_text ''@here'' = [] @ CHR ''@'' # mention_break @ ''here''" by code_simp
qed

end
