(* ===== verification/Scores.thy ===== *)
theory Scores
  imports Complex_Main
begin

text \<open>
  The arithmetic of non-negative finite \<open>f64\<close> values, as the scores of pull request owners use it: a value is the
  rational number it stands for, and an operation is the exact one, rounded to the nearest value, ties to
  even. No score comes near the largest \<open>f64\<close>, so rounding to infinity is left out.
\<close>

section \<open>Rounding\<close>

fun bit_length :: "nat \<Rightarrow> nat" where
  "bit_length n = (if n = 0 then 0 else Suc (bit_length (n div 2)))"

declare bit_length.simps [simp del]

text \<open>The exponent \<open>e\<close> with \<open>2 powi e \<le> x < 2 powi (e + 1)\<close>.\<close>

definition binade :: "rat \<Rightarrow> int" where
  "binade x =
     (if 1 \<le> x then int (bit_length (nat \<lfloor>x\<rfloor>)) - 1
      else - int (bit_length (nat (\<lceil>1 / x\<rceil> - 1))))"

text \<open>The distance of neighbouring values around \<open>x\<close>: 52 bits of fraction, exponents from \<open>-1022\<close>.\<close>

definition ulp :: "rat \<Rightarrow> rat" where
  "ulp x = 2 powi (max (binade x) (-1022) - 52)"

definition round_half_even :: "rat \<Rightarrow> int" where
  "round_half_even q =
     (let n = \<lfloor>q\<rfloor>; r = q - of_int n
      in if r < 1 / 2 then n else if r > 1 / 2 then n + 1 else if even n then n else n + 1)"

definition round_f64 :: "rat \<Rightarrow> rat" where
  "round_f64 x = (if x = 0 then 0 else of_int (round_half_even (x / ulp x)) * ulp x)"

definition f64_of_nat :: "nat \<Rightarrow> rat" where
  "f64_of_nat n = round_f64 (of_nat n)"

definition f64_add :: "rat \<Rightarrow> rat \<Rightarrow> rat" where
  "f64_add a b = round_f64 (a + b)"

definition f64_div :: "rat \<Rightarrow> rat \<Rightarrow> rat" where
  "f64_div a b = round_f64 (a / b)"

section \<open>How far rounding goes\<close>

lemma bit_length_bounds: "0 < n \<Longrightarrow> 2 ^ (bit_length n - 1) \<le> n \<and> n < 2 ^ bit_length n"
proof (induction n rule: bit_length.induct)
  case (1 n)
  show ?case
  proof (cases "n = 1")
    case True
    then show ?thesis by (simp add: bit_length.simps)
  next
    case False
    with 1 have IH: "2 ^ (bit_length (n div 2) - 1) \<le> n div 2" "n div 2 < 2 ^ bit_length (n div 2)" by auto
    have pos: "0 < bit_length (n div 2)" using False 1(2) by (subst bit_length.simps) auto
    have len: "bit_length n = Suc (bit_length (n div 2))" using 1(2) by (subst bit_length.simps) simp
    have "(2::nat) ^ bit_length (n div 2) = 2 * 2 ^ (bit_length (n div 2) - 1)"
      using pos by (cases "bit_length (n div 2)") simp_all
    with IH show ?thesis unfolding len by (simp only: diff_Suc_1 power_Suc) linarith
  qed
qed

lemma bit_length_le: "n < 2 ^ k \<Longrightarrow> bit_length n \<le> k"
proof (cases "n = 0")
  case False
  assume "n < 2 ^ k"
  with bit_length_bounds [of n] False have "(2::nat) ^ (bit_length n - 1) < 2 ^ k" by linarith
  then have "bit_length n - 1 < k" by (simp only: power_strict_increasing_iff)
  then show ?thesis by simp
qed (simp add: bit_length.simps)

lemma binade_le: "0 < x \<Longrightarrow> x < 2 ^ k \<Longrightarrow> binade x < int k"
proof (cases "1 \<le> x")
  case True
  assume "x < 2 ^ k"
  then have "\<lfloor>x\<rfloor> < 2 ^ k" by (simp add: floor_less_iff)
  with True have "nat \<lfloor>x\<rfloor> < 2 ^ k" by (simp add: nat_less_iff)
  then have "bit_length (nat \<lfloor>x\<rfloor>) \<le> k" by (rule bit_length_le)
  then show ?thesis using True by (simp add: binade_def)
next
  case False
  assume "0 < x"
  with False have "1 < 1 / x" by simp
  then have "1 < \<lceil>1 / x\<rceil>" by (simp add: less_ceiling_iff)
  then have "0 < bit_length (nat (\<lceil>1 / x\<rceil> - 1))" by (subst bit_length.simps) simp
  with False show ?thesis by (simp add: binade_def)
qed

lemma ulp_pos [simp]: "0 < ulp x"
  by (simp add: ulp_def)

lemma ulp_not_0 [simp]: "ulp x \<noteq> 0"
  by (simp add: ulp_def)

lemma ulp_le: "0 < x \<Longrightarrow> x < 2 ^ k \<Longrightarrow> ulp x \<le> 2 powi (int k - 53)"
  using binade_le [of x k] unfolding ulp_def by (intro power_int_increasing) auto

lemma round_half_even_error: "\<bar>of_int (round_half_even q) - q\<bar> \<le> 1 / 2"
  unfolding round_half_even_def Let_def
  using of_int_floor_le [of q] floor_correct [of q] by (auto simp: abs_le_iff)

lemma round_half_even_nonneg: "0 \<le> q \<Longrightarrow> 0 \<le> round_half_even q"
  unfolding round_half_even_def Let_def by auto

lemma round_half_even_int [simp]: "round_half_even (of_int n) = n"
  by (simp add: round_half_even_def)

lemma round_f64_0 [simp]: "round_f64 0 = 0"
  by (simp add: round_f64_def)

lemma round_f64_nonneg: "0 \<le> x \<Longrightarrow> 0 \<le> round_f64 x"
  using round_half_even_nonneg [of "x / ulp x"] ulp_pos [of x]
  by (simp add: round_f64_def zero_le_mult_iff less_imp_le)

lemma round_f64_error:
  assumes "0 \<le> x" "x < 2 ^ k"
  shows "\<bar>round_f64 x - x\<bar> \<le> 2 powi (int k - 54)"
proof (cases "x = 0")
  case False
  let ?q = "x / ulp x"
  have "round_f64 x - x = (of_int (round_half_even ?q) - ?q) * ulp x"
    using False ulp_pos [of x] by (simp add: round_f64_def left_diff_distrib)
  then have "\<bar>round_f64 x - x\<bar> = \<bar>of_int (round_half_even ?q) - ?q\<bar> * ulp x"
    using ulp_pos [of x] by (simp add: abs_mult abs_of_pos)
  also have "\<dots> \<le> 1 / 2 * ulp x"
    using round_half_even_error ulp_pos [of x] by (intro mult_right_mono) (auto simp: less_imp_le)
  also have "\<dots> \<le> 1 / 2 * 2 powi (int k - 53)"
    using ulp_le [of x k] assms False by simp
  also have "\<dots> = 2 powi (int k - 54)"
    using power_int_add [of "2 :: rat" "int k - 54" 1] by simp
  finally show ?thesis .
qed simp

lemma f64_of_nat_exact:
  assumes "n < 2 ^ 53"
  shows "f64_of_nat n = of_nat n"
proof (cases "n = 0")
  case False
  let ?x = "of_nat n :: rat"
  have "binade ?x = int (bit_length n) - 1" using False by (simp add: binade_def)
  moreover have "bit_length n \<le> 53" using assms by (rule bit_length_le)
  moreover have "0 < bit_length n" using False by (subst bit_length.simps) simp
  ultimately obtain e where e: "ulp ?x = 2 powi (- int e)"
    by (intro that [of "53 - bit_length n"]) (simp add: ulp_def of_nat_diff)
  have "?x / ulp ?x = of_int (int n * 2 ^ e)"
    by (simp add: e power_int_minus divide_inverse)
  then have "round_f64 ?x = of_int (int n * 2 ^ e) * ulp ?x"
    using False by (simp add: round_f64_def del: of_int_mult)
  then show ?thesis by (simp add: f64_of_nat_def e power_int_minus)
qed (simp add: f64_of_nat_def)

end
