(* ===== verification/Assignments.thy ===== *)
theory Assignments
  imports Fix_Attempts Pull_Requests Scores
begin

text \<open>
  The store of pull request assignments: \<open>PrAssignment\<close> of \<open>crates/claudear-core/src/types.rs\<close> and the methods of
  \<open>SqliteTracker\<close> over the table \<open>pr_assignments\<close> (\<open>crates/claudear-storage/src/sqlite.rs\<close>, migration V16).
  A timestamp column written by \<open>to_rfc3339\<close> is the instant it names: these texts keep the nanosecond and order as
  the instants do.
\<close>

section \<open>Assignments and rows\<close>

record PrAssignment =
  as_id :: int
  as_pr_url :: string
  as_repo :: string
  as_pr_number :: int
  as_assignee :: string
  as_previous :: "string option"
  as_reason :: AssignmentReason
  as_score :: rat
  as_status :: AssignmentStatus
  as_assigned_at :: datetime
  as_ended_at :: "datetime option"
  as_notified_at :: "datetime option"

definition new_pr_assignment ::
  "datetime \<Rightarrow> string \<Rightarrow> string \<Rightarrow> int \<Rightarrow> string \<Rightarrow> AssignmentReason \<Rightarrow> rat \<Rightarrow> PrAssignment" where
  "new_pr_assignment now url repo number assignee reason score =
     \<lparr>as_id = 0, as_pr_url = url, as_repo = repo, as_pr_number = number, as_assignee = assignee, as_previous = None,
      as_reason = reason, as_score = score, as_status = Active, as_assigned_at = now, as_ended_at = None,
      as_notified_at = None\<rparr>"

record assignment_row =
  pa_id :: int
  pa_pr_url :: string
  pa_repo :: string
  pa_pr_number :: int
  pa_assignee :: string
  pa_previous :: "string option"
  pa_reason :: string
  pa_score :: rat
  pa_status :: string
  pa_assigned_at :: datetime
  pa_ended_at :: "datetime option"
  pa_notified_at :: "datetime option"

record assignments_db = attempts_db +
  db_assignments :: "assignment_row list"
  db_next_assignment :: int

fun parse_column :: "nat \<Rightarrow> string + 'a \<Rightarrow> 'a result" where
  "parse_column column (Inl message) = Inl (Database (Conversion_failed column message))"
| "parse_column column (Inr x) = Inr x"

definition row_to_pr_assignment :: "assignment_row \<Rightarrow> PrAssignment result" where
  "row_to_pr_assignment r =
     rbind (parse_column 6 (assignment_reason_from_str (pa_reason r))) (\<lambda>reason.
     rbind (parse_column 8 (assignment_status_from_str (pa_status r))) (\<lambda>status.
       Inr \<lparr>as_id = pa_id r, as_pr_url = pa_pr_url r, as_repo = pa_repo r, as_pr_number = pa_pr_number r,
            as_assignee = pa_assignee r, as_previous = pa_previous r, as_reason = reason, as_score = pa_score r,
            as_status = status, as_assigned_at = pa_assigned_at r, as_ended_at = pa_ended_at r,
            as_notified_at = pa_notified_at r\<rparr>))"

section \<open>Methods\<close>

definition is_active :: "assignment_row \<Rightarrow> bool" where
  "is_active r \<longleftrightarrow> pa_status r = ''active''"

definition active_pr_assignments :: "'x assignments_db_scheme \<Rightarrow> PrAssignment list result" where
  "active_pr_assignments s =
     collect_results (map row_to_pr_assignment
       (order_asc (\<lambda>r. (pa_assigned_at r, pa_id r)) (filter is_active (db_assignments s))))"

definition active_pr_assignment :: "string \<Rightarrow> 'x assignments_db_scheme \<Rightarrow> PrAssignment option result" where
  "active_pr_assignment url s =
     (case find_by (\<lambda>r. pa_pr_url r = url \<and> is_active r) (db_assignments s) of
        None \<Rightarrow> Inr None
      | Some r \<Rightarrow> rmap Some (row_to_pr_assignment r))"

definition new_assignment_row :: "int \<Rightarrow> PrAssignment \<Rightarrow> assignment_row" where
  "new_assignment_row i a =
     \<lparr>pa_id = i, pa_pr_url = as_pr_url a, pa_repo = as_repo a, pa_pr_number = as_pr_number a,
      pa_assignee = as_assignee a, pa_previous = as_previous a, pa_reason = assignment_reason_as_str (as_reason a),
      pa_score = as_score a, pa_status = ''active'', pa_assigned_at = as_assigned_at a, pa_ended_at = None,
      pa_notified_at = None\<rparr>"

text \<open>
  The partial unique index turns the \<open>INSERT OR IGNORE\<close> away; the key it was to take is used up all the same
  (\<open>AUTOINCREMENT\<close>).
\<close>

definition record_pr_assignment :: "PrAssignment \<Rightarrow> ('x assignments_db_scheme, PrAssignment option) op" where
  "record_pr_assignment a s =
     (let r = new_assignment_row (db_next_assignment s) a; s = s\<lparr>db_next_assignment := db_next_assignment s + 1\<rparr>
      in if list_ex (\<lambda>x. pa_pr_url x = as_pr_url a \<and> is_active x) (db_assignments s) then (Inr None, s)
         else let s = s\<lparr>db_assignments := db_assignments s @ [r]\<rparr>
              in (case find_by (\<lambda>x. pa_id x = pa_id r) (db_assignments s) of
                    None \<Rightarrow> Inl (Database Query_returned_no_rows)
                  | Some x \<Rightarrow> rmap Some (row_to_pr_assignment x), s))"

definition update_assignments ::
  "(assignment_row \<Rightarrow> bool) \<Rightarrow> (assignment_row \<Rightarrow> assignment_row) \<Rightarrow> ('x assignments_db_scheme, bool) op" where
  "update_assignments p f s =
     (Inr (0 < rows_affected p (db_assignments s)), s\<lparr>db_assignments := update_where p f (db_assignments s)\<rparr>)"

definition end_pr_assignment :: "datetime \<Rightarrow> int \<Rightarrow> AssignmentStatus \<Rightarrow> ('x assignments_db_scheme, bool) op" where
  "end_pr_assignment now i status =
     update_assignments (\<lambda>r. pa_id r = i \<and> is_active r)
       (\<lambda>r. r\<lparr>pa_status := assignment_status_as_str status, pa_ended_at := Some now\<rparr>)"

definition mark_pr_assignment_notified :: "datetime \<Rightarrow> int \<Rightarrow> ('x assignments_db_scheme, bool) op" where
  "mark_pr_assignment_notified now i =
     update_assignments (\<lambda>r. pa_id r = i \<and> is_active r \<and> pa_notified_at r = None)
       (\<lambda>r. r\<lparr>pa_notified_at := Some now\<rparr>)"

section \<open>The invariant of the table\<close>

definition assignment_row_ok :: "assignment_row \<Rightarrow> bool" where
  "assignment_row_ok r \<longleftrightarrow>
     (\<exists>a. row_to_pr_assignment r = Inr a) \<and> (is_active r \<longleftrightarrow> pa_ended_at r = None)"

definition assignments_ok :: "'x assignments_db_scheme \<Rightarrow> bool" where
  "assignments_ok s \<longleftrightarrow>
     0 < db_next_assignment s \<and> keys_below pa_id (db_next_assignment s) (db_assignments s) \<and>
     distinct (map pa_pr_url (filter is_active (db_assignments s))) \<and>
     list_all assignment_row_ok (db_assignments s)"

text \<open>One call of another process or of this one; an assignment is only ever ended as released or closed.\<close>

datatype assignment_call =
    Record_Assignment PrAssignment
  | End_Assignment datetime int AssignmentStatus
  | Notify_Assignment datetime int

fun assignment_step :: "assignment_call \<Rightarrow> 'x assignments_db_scheme \<Rightarrow> 'x assignments_db_scheme" where
  "assignment_step (Record_Assignment a) s = snd (record_pr_assignment a s)"
| "assignment_step (End_Assignment now i status) s = snd (end_pr_assignment now i status s)"
| "assignment_step (Notify_Assignment now i) s = snd (mark_pr_assignment_notified now i s)"

fun call_ends :: "assignment_call \<Rightarrow> bool" where
  "call_ends (End_Assignment now i status) \<longleftrightarrow> status \<noteq> Active"
| "call_ends c \<longleftrightarrow> True"

lemma reason_round_trip [simp]: "assignment_reason_from_str (assignment_reason_as_str x) = Inr x"
  by (cases x) (simp_all add: assignment_reason_from_str_def)

lemma status_round_trip [simp]: "assignment_status_from_str (assignment_status_as_str x) = Inr x"
  by (cases x) (simp_all add: assignment_status_from_str_def)

lemma status_active [simp]: "assignment_status_as_str x = ''active'' \<longleftrightarrow> x = Active"
  by (cases x) simp_all

lemma active_from_str [simp]: "assignment_status_from_str ''active'' = Inr Active"
  using status_round_trip [of Active] by simp

lemma row_of_new:
  "row_to_pr_assignment (new_assignment_row i a) =
     Inr (a\<lparr>as_id := i, as_status := Active, as_ended_at := None, as_notified_at := None\<rparr>)"
  by (simp add: row_to_pr_assignment_def new_assignment_row_def)

lemma new_row_ok: "assignment_row_ok (new_assignment_row i a)"
  unfolding assignment_row_ok_def row_of_new by (simp add: is_active_def new_assignment_row_def)

lemma empty_assignments_ok: "db_assignments s = [] \<Longrightarrow> db_next_assignment s = 1 \<Longrightarrow> assignments_ok s"
  by (simp add: assignments_ok_def)

lemma record_pr_assignment_eq:
  assumes "assignments_ok s"
  shows "record_pr_assignment a s =
    (if list_ex (\<lambda>x. pa_pr_url x = as_pr_url a \<and> is_active x) (db_assignments s)
     then (Inr None, s\<lparr>db_next_assignment := db_next_assignment s + 1\<rparr>)
     else (Inr (Some (a\<lparr>as_id := db_next_assignment s, as_status := Active, as_ended_at := None, as_notified_at := None\<rparr>)),
       s\<lparr>db_next_assignment := db_next_assignment s + 1,
         db_assignments := db_assignments s @ [new_assignment_row (db_next_assignment s) a]\<rparr>))"
proof -
  let ?r = "new_assignment_row (db_next_assignment s) a"
  have "pa_id ?r = db_next_assignment s" by (simp add: new_assignment_row_def)
  moreover have "find_by (\<lambda>x. pa_id x = db_next_assignment s) (db_assignments s) = None"
    using assms by (force simp: find_by_None assignments_ok_def keys_below_def)
  ultimately show ?thesis
    unfolding record_pr_assignment_def Let_def
    by (simp add: find_by_append row_of_new) (simp add: find_by_def row_of_new)
qed

lemma assignments_ok_record:
  assumes "assignments_ok s"
  shows "assignments_ok (snd (record_pr_assignment a s))"
proof -
  have "keys_below pa_id (db_next_assignment s + 1) (db_assignments s)"
    using assms by (auto simp: assignments_ok_def keys_below_def)
  moreover have "keys_below pa_id (db_next_assignment s + 1)
      (db_assignments s @ [new_assignment_row (db_next_assignment s) a])"
    using assms by (intro keys_below_insert) (simp_all add: assignments_ok_def new_assignment_row_def)
  moreover have "is_active (new_assignment_row i a)" "pa_pr_url (new_assignment_row i a) = as_pr_url a" for i
    by (simp_all add: is_active_def new_assignment_row_def)
  ultimately show ?thesis
    using assms new_row_ok unfolding record_pr_assignment_eq [OF assms]
    by (auto simp: assignments_ok_def list_ex_iff)
qed

lemma assignments_ok_update:
  assumes "assignments_ok s"
    and id: "\<And>r. p r \<Longrightarrow> pa_id (f r) = pa_id r \<and> pa_pr_url (f r) = pa_pr_url r"
    and row: "\<And>r. p r \<Longrightarrow> assignment_row_ok r \<Longrightarrow> assignment_row_ok (f r)"
    and active: "\<And>r. p r \<Longrightarrow> is_active (f r) \<Longrightarrow> is_active r"
  shows "assignments_ok (snd (update_assignments p f s))"
proof -
  let ?rows = "update_where p f (db_assignments s)"
  have sub: "set (map pa_pr_url (filter is_active (update_where p f rows))) \<subseteq> set (map pa_pr_url (filter is_active rows))" for rows
    using id active by (force simp: in_update_where)
  have "distinct (map pa_pr_url (filter is_active rows)) \<Longrightarrow> distinct (map pa_pr_url (filter is_active (update_where p f rows)))" for rows
  proof (induction rows)
    case (Cons r rows)
    have IH: "distinct (map pa_pr_url (filter is_active (update_where p f rows)))"
      using Cons by (simp split: if_splits)
    let ?r = "if p r then f r else r"
    show ?case
    proof (cases "is_active ?r")
      case True
      then have r: "is_active r" "pa_pr_url ?r = pa_pr_url r" using id active by (auto split: if_splits)
      then have "pa_pr_url r \<notin> set (map pa_pr_url (filter is_active rows))" using Cons.prems by auto
      then have "pa_pr_url ?r \<notin> set (map pa_pr_url (filter is_active (update_where p f rows)))" using sub [of rows] r(2) by auto
      with True IH show ?thesis by (simp add: update_where_def)
    next
      case False
      with IH show ?thesis by (simp add: update_where_def)
    qed
  qed simp
  then show ?thesis
    using assms(1) id row
    by (auto simp: assignments_ok_def update_assignments_def keys_below_update list_all_update_where)
qed

lemma assignment_step_ok:
  assumes "assignments_ok s" "call_ends c"
  shows "assignments_ok (assignment_step c s)"
proof (cases c)
  case (Record_Assignment a)
  then show ?thesis using assignments_ok_record [OF assms(1)] by simp
next
  case (End_Assignment now i status)
  then have status: "status \<noteq> Active" using assms(2) by simp
  show ?thesis unfolding End_Assignment assignment_step.simps end_pr_assignment_def
    by (rule assignments_ok_update [OF assms(1)])
      (use status in \<open>auto simp: assignment_row_ok_def row_to_pr_assignment_def is_active_def\<close>)
next
  case (Notify_Assignment now i)
  show ?thesis unfolding Notify_Assignment assignment_step.simps mark_pr_assignment_notified_def
    by (rule assignments_ok_update [OF assms(1)])
      (auto simp: assignment_row_ok_def row_to_pr_assignment_def is_active_def)
qed

section \<open>What the table promises\<close>

definition run_assignments :: "assignment_call list \<Rightarrow> 'x assignments_db_scheme \<Rightarrow> 'x assignments_db_scheme" where
  "run_assignments calls s = fold assignment_step calls s"

lemma run_assignments_ok: "assignments_ok s \<Longrightarrow> list_all call_ends calls \<Longrightarrow> assignments_ok (run_assignments calls s)"
  unfolding run_assignments_def by (induction calls arbitrary: s) (simp_all add: assignment_step_ok)

lemma active_row_read:
  "assignments_ok s \<Longrightarrow> r \<in> set (db_assignments s) \<Longrightarrow> \<exists>a. row_to_pr_assignment r = Inr a"
  by (auto simp: assignments_ok_def list_all_iff assignment_row_ok_def)

lemma row_read_url:
  "row_to_pr_assignment r = Inr a \<Longrightarrow>
     as_pr_url a = pa_pr_url r \<and> as_id a = pa_id r \<and> as_assignee a = pa_assignee r \<and> as_notified_at a = pa_notified_at r"
  by (auto simp: row_to_pr_assignment_def)

lemma active_pr_assignments_read:
  assumes "assignments_ok s"
  shows "\<exists>as. active_pr_assignments s = Inr as \<and> distinct (map as_pr_url as) \<and> distinct (map as_id as) \<and>
    (\<forall>a. a \<in> set as \<longleftrightarrow> (\<exists>r \<in> set (db_assignments s). is_active r \<and> row_to_pr_assignment r = Inr a))"
proof -
  define rs where "rs = order_asc (\<lambda>r. (pa_assigned_at r, pa_id r)) (filter is_active (db_assignments s))"
  have rs: "set rs = {r \<in> set (db_assignments s). is_active r}" by (auto simp: rs_def)
  define g where "g r = (THE a. row_to_pr_assignment r = Inr a)" for r
  have g: "row_to_pr_assignment r = Inr (g r)" if r: "r \<in> set rs" for r
  proof -
    obtain a where "row_to_pr_assignment r = Inr a" using r active_row_read [OF assms] rs by blast
    then show ?thesis by (simp add: g_def)
  qed
  have "mset rs = mset (filter is_active (db_assignments s))" by (simp add: rs_def order_asc_def)
  then have "mset (map pa_pr_url rs) = mset (map pa_pr_url (filter is_active (db_assignments s)))"
    "mset (map pa_id rs) = mset (map pa_id (filter is_active (db_assignments s)))" by (simp_all add: mset_map)
  then have distinct: "distinct (map pa_pr_url rs)" "distinct (map pa_id rs)"
    using assms by (metis assignments_ok_def mset_eq_imp_distinct_iff,
        metis assignments_ok_def distinct_map_filter keys_below_def mset_eq_imp_distinct_iff)
  have maps: "map as_pr_url (map g rs) = map pa_pr_url rs" "map as_id (map g rs) = map pa_id rs"
    using row_read_url [OF g] by simp_all
  show ?thesis
  proof (intro exI [of _ "map g rs"] conjI allI)
    show "active_pr_assignments s = Inr (map g rs)"
      using g by (simp add: active_pr_assignments_def rs_def [symmetric] collect_results_all_Inr)
    show "distinct (map as_pr_url (map g rs))" "distinct (map as_id (map g rs))" using distinct unfolding maps .
    show "a \<in> set (map g rs) \<longleftrightarrow> (\<exists>r \<in> set (db_assignments s). is_active r \<and> row_to_pr_assignment r = Inr a)" for a
      using g rs by force
  qed
qed

lemma active_pr_assignment_read:
  assumes "assignments_ok s"
  shows "active_pr_assignment url s = Inr (Some a) \<longleftrightarrow>
    (\<exists>r \<in> set (db_assignments s). is_active r \<and> pa_pr_url r = url \<and> row_to_pr_assignment r = Inr a)"
proof -
  have unique: "r = r'" if "r \<in> set (db_assignments s)" "r' \<in> set (db_assignments s)" "is_active r" "is_active r'"
    "pa_pr_url r = pa_pr_url r'" for r r'
    using assms that by (auto simp: assignments_ok_def distinct_map inj_on_def)
  show ?thesis
  proof (cases "find_by (\<lambda>r. pa_pr_url r = url \<and> is_active r) (db_assignments s)")
    case None
    then have "active_pr_assignment url s = Inr None" by (simp add: active_pr_assignment_def)
    with None show ?thesis by (auto simp: find_by_None)
  next
    case (Some r)
    from find_by_Some [OF this] have r: "r \<in> set (db_assignments s)" "pa_pr_url r = url" "is_active r" by simp_all
    have "(\<exists>r' \<in> set (db_assignments s). is_active r' \<and> pa_pr_url r' = url \<and> row_to_pr_assignment r' = Inr a) \<longleftrightarrow>
        row_to_pr_assignment r = Inr a"
      using r unique [OF r(1) _ r(3)] by blast
    then show ?thesis using Some by (simp add: active_pr_assignment_def)
  qed
qed

lemma active_pr_assignment_total:
  assumes "assignments_ok s"
  shows "\<exists>found. active_pr_assignment url s = Inr found"
proof (cases "find_by (\<lambda>r. pa_pr_url r = url \<and> is_active r) (db_assignments s)")
  case (Some r)
  then have "r \<in> set (db_assignments s)" by (rule find_by_Some [THEN conjunct1])
  then obtain a where "row_to_pr_assignment r = Inr a" using active_row_read [OF assms] by blast
  then show ?thesis using Some by (simp add: active_pr_assignment_def)
qed (simp add: active_pr_assignment_def)

text \<open>
  Property C13. Whatever calls were made on a fresh table, in whatever order, a pull request has at most one active
  assignment: the list of the active ones can be read and names no URL twice, and looking one up by its URL gives the
  one of the list.
\<close>

theorem one_active_assignment:
  assumes "list_all call_ends calls" "db_assignments s = []" "db_next_assignment s = 1"
  shows "\<exists>as. active_pr_assignments (run_assignments calls s) = Inr as \<and> distinct (map as_pr_url as) \<and>
    active_pr_assignment url (run_assignments calls s) = Inr (find (\<lambda>a. as_pr_url a = url) as)"
proof -
  let ?s = "run_assignments calls s"
  have ok: "assignments_ok ?s" by (intro run_assignments_ok empty_assignments_ok assms)
  obtain as where as: "active_pr_assignments ?s = Inr as" "distinct (map as_pr_url as)" "distinct (map as_id as)"
    "\<forall>a. a \<in> set as \<longleftrightarrow> (\<exists>r \<in> set (db_assignments ?s). is_active r \<and> row_to_pr_assignment r = Inr a)"
    using active_pr_assignments_read [OF ok] by blast
  obtain found where found: "active_pr_assignment url ?s = Inr found" using active_pr_assignment_total [OF ok] by blast
  have iff: "found = Some a \<longleftrightarrow> a \<in> set as \<and> as_pr_url a = url" for a
  proof -
    have "found = Some a \<longleftrightarrow> (\<exists>r \<in> set (db_assignments ?s). is_active r \<and> pa_pr_url r = url \<and> row_to_pr_assignment r = Inr a)"
      using active_pr_assignment_read [OF ok, of url a] found by simp
    also have "\<dots> \<longleftrightarrow> a \<in> set as \<and> as_pr_url a = url" using as(4) row_read_url by auto
    finally show ?thesis .
  qed
  have "find (\<lambda>a. as_pr_url a = url) as = found"
  proof (cases found)
    case None
    then show ?thesis using iff by (auto simp: find_None_iff)
  next
    case (Some a)
    then have "a \<in> set as" "as_pr_url a = url" using iff by simp_all
    then have "find_by (\<lambda>a. as_pr_url a = url) as = Some a"
      using as(2) by (intro find_by_unique) (simp_all add: distinct_map inj_on_def)
    then show ?thesis unfolding find_by_def Some .
  qed
  then show ?thesis using as found by auto
qed

lemma ended_step:
  assumes "r \<in> set (db_assignments s)" "\<not> is_active r"
  shows "r \<in> set (db_assignments (assignment_step c s))"
proof (cases c)
  case (Record_Assignment a)
  then show ?thesis using assms by (simp add: record_pr_assignment_def Let_def)
next
  case (End_Assignment now i status)
  then show ?thesis using assms by (force simp: end_pr_assignment_def update_assignments_def in_update_where)
next
  case (Notify_Assignment now i)
  then show ?thesis using assms by (force simp: mark_pr_assignment_notified_def update_assignments_def in_update_where)
qed

text \<open>
  An assignment that was ended is history: no later call changes its row, revives it or removes it.
\<close>

theorem ended_assignments_stay:
  assumes "r \<in> set (db_assignments s)" "\<not> is_active r"
  shows "r \<in> set (db_assignments (run_assignments calls s))"
  using assms unfolding run_assignments_def by (induction calls arbitrary: s) (simp_all add: ended_step)

definition example_assignment :: PrAssignment where
  "example_assignment = new_pr_assignment 5 ''https://github.com/o/r/pull/1'' ''o/r'' 1 ''amy'' Author 20"

definition example_store :: assignments_db where
  "example_store = \<lparr>db_attempts = [], db_next_attempt = 1, db_assignments = [], db_next_assignment = 1\<rparr>"

lemma one_active_assignment_witness:
  "\<exists>as. active_pr_assignments (run_assignments [Record_Assignment example_assignment, Record_Assignment example_assignment,
       End_Assignment 7 1 Released, Record_Assignment example_assignment] example_store) = Inr as \<and> distinct (map as_pr_url as) \<and>
     active_pr_assignment ''https://github.com/o/r/pull/1'' (run_assignments [Record_Assignment example_assignment,
       Record_Assignment example_assignment, End_Assignment 7 1 Released, Record_Assignment example_assignment] example_store) =
       Inr (find (\<lambda>a. as_pr_url a = ''https://github.com/o/r/pull/1'') as)"
  by (rule one_active_assignment) (simp_all add: example_store_def)

lemma ended_assignments_stay_witness:
  "(new_assignment_row 1 example_assignment)\<lparr>pa_status := ''closed'', pa_ended_at := Some 7\<rparr>
     \<in> set (db_assignments (run_assignments [Notify_Assignment 8 1, End_Assignment 9 1 Released, Record_Assignment example_assignment]
         (example_store\<lparr>db_assignments := [(new_assignment_row 1 example_assignment)\<lparr>pa_status := ''closed'', pa_ended_at := Some 7\<rparr>],
            db_next_assignment := 2\<rparr>)))"
  by (rule ended_assignments_stay) (simp_all add: is_active_def)

end
