(* ===== verification/Code_Owners.thy ===== *)
theory Code_Owners
  imports Text_Search
begin

text \<open>
  CODEOWNERS files, \<open>crates/claudear-analysis/src/distribution/codeowners.rs\<close>. The regular expression library is a
  parameter: it compiles an expression to its match test, or fails, and escapes a literal.
\<close>

section \<open>Characters\<close>

text \<open>\<open>chars()\<close>: each byte that starts a sequence with the bytes that continue it.\<close>

function text_chars :: "string \<Rightarrow> string list" where
  "text_chars [] = []"
| "text_chars (c # cs) =
     (c # takeWhile continues_sequence cs) # text_chars (dropWhile continues_sequence cs)"
  by pat_completeness auto
termination
  by (relation "measure length") (auto simp: length_dropWhile_le less_Suc_eq_le)

lemma concat_text_chars: "concat (text_chars s) = s"
  by (induction s rule: text_chars.induct) auto

section \<open>Patterns\<close>

record regex_library =
  rx_new :: "string \<Rightarrow> (string \<Rightarrow> bool) option"
  rx_escape :: "string \<Rightarrow> string"

record Rule =
  rl_pattern :: "string \<Rightarrow> bool"
  rl_owners :: "string list"

type_synonym CodeOwners = "Rule list"

fun glob_expression :: "(string \<Rightarrow> string) \<Rightarrow> string list \<Rightarrow> string" where
  "glob_expression escape [] = []"
| "glob_expression escape (c # cs) =
     (if c = ''*'' then
        (case cs of
           d # ds \<Rightarrow>
             if d = ''*'' then
               (case ds of
                  e # es \<Rightarrow> if e = ''/'' then ''(?:.*/)?'' @ glob_expression escape es
                            else ''.*'' @ glob_expression escape ds
                | [] \<Rightarrow> ''.*'' @ glob_expression escape ds)
             else ''[^/]*'' @ glob_expression escape cs
         | [] \<Rightarrow> ''[^/]*'' @ glob_expression escape cs)
      else if c = ''?'' then ''[^/]'' @ glob_expression escape cs
      else escape c @ glob_expression escape cs)"

definition pattern_expression :: "(string \<Rightarrow> string) \<Rightarrow> string \<Rightarrow> string option" where
  "pattern_expression escape pattern =
     (let directory = ends_with pattern ''/'';
          trimmed = trim_end_seqs [''/''] pattern;
          anchored = CHR ''/'' \<in> set trimmed;
          body = trim_start_seqs [''/''] trimmed
      in if body = [] then None
         else Some ((if anchored then ''^'' else ''^(?:.*/)?'') @ glob_expression escape (text_chars body) @
           (if directory then ''/.*$'' else ''(?:/.*)?$'')))"

definition compile_pattern :: "regex_library \<Rightarrow> string \<Rightarrow> (string \<Rightarrow> bool) option" where
  "compile_pattern lib pattern = Option.bind (pattern_expression (rx_escape lib) pattern) (rx_new lib)"

definition login_owner :: "string \<Rightarrow> string option" where
  "login_owner owner =
     (case strip_prefix ''@'' owner of
        None \<Rightarrow> None
      | Some login \<Rightarrow> if CHR ''/'' \<in> set login then None else Some login)"

definition rule_of_line :: "regex_library \<Rightarrow> string \<Rightarrow> Rule option" where
  "rule_of_line lib line =
     (case split_whitespace (trim (fst (break_at (\<lambda>c. c = CHR ''#'') line))) of
        [] \<Rightarrow> None
      | pattern # owners \<Rightarrow>
          map_option (\<lambda>p. \<lparr>rl_pattern = p, rl_owners = List.map_filter login_owner owners\<rparr>) (compile_pattern lib pattern))"

definition codeowners_parse :: "regex_library \<Rightarrow> string \<Rightarrow> CodeOwners" where
  "codeowners_parse lib text = List.map_filter (rule_of_line lib) (text_lines text)"

definition codeowners_owners :: "CodeOwners \<Rightarrow> string \<Rightarrow> string list" where
  "codeowners_owners rules path =
     (case find (\<lambda>r. rl_pattern r (trim_start_seqs [''/''] path)) (rev rules) of
        None \<Rightarrow> []
      | Some r \<Rightarrow> rl_owners r)"

section \<open>Which rule decides\<close>

lemma parse_snoc:
  "List.map_filter f (xs @ [x]) = List.map_filter f xs @ (case f x of None \<Rightarrow> [] | Some y \<Rightarrow> [y])"
  by (induction xs) (auto simp: List.map_filter_def split: option.splits)

lemma owners_snoc:
  "codeowners_owners (rules @ [r]) path =
     (if rl_pattern r (trim_start_seqs [''/''] path) then rl_owners r else codeowners_owners rules path)"
  by (simp add: codeowners_owners_def)

definition line_decides :: "regex_library \<Rightarrow> string \<Rightarrow> string \<Rightarrow> bool" where
  "line_decides lib path line =
     (case rule_of_line lib line of None \<Rightarrow> False | Some r \<Rightarrow> rl_pattern r (trim_start_seqs [''/''] path))"

lemma deciding_line:
  assumes "login \<in> set (codeowners_owners (List.map_filter (rule_of_line lib) lines) path)"
  shows "\<exists>before line after r. lines = before @ line # after \<and> rule_of_line lib line = Some r \<and>
    line_decides lib path line \<and> login \<in> set (rl_owners r) \<and> \<not> list_ex (line_decides lib path) after"
  using assms
proof (induction lines rule: rev_induct)
  case Nil
  then show ?case by (simp add: codeowners_owners_def List.map_filter_def)
next
  case (snoc line lines)
  show ?case
  proof (cases "line_decides lib path line")
    case True
    then obtain r where "rule_of_line lib line = Some r" "rl_pattern r (trim_start_seqs [''/''] path)"
      by (auto simp: line_decides_def split: option.splits)
    with True snoc.prems have "rule_of_line lib line = Some r" "login \<in> set (rl_owners r)"
      by (simp_all add: parse_snoc owners_snoc)
    with True show ?thesis
      by (intro exI [of _ lines] exI [of _ line] exI [of _ "[]"] exI [of _ r]) simp
  next
    case False
    then have "codeowners_owners (List.map_filter (rule_of_line lib) (lines @ [line])) path =
        codeowners_owners (List.map_filter (rule_of_line lib) lines) path"
      by (auto simp: parse_snoc owners_snoc line_decides_def split: option.splits)
    with snoc obtain before l after r where "lines = before @ l # after" "rule_of_line lib l = Some r"
      "line_decides lib path l" "login \<in> set (rl_owners r)" "\<not> list_ex (line_decides lib path) after"
      by fastforce
    with False have "lines @ [line] = before @ l # (after @ [line])"
      "\<not> list_ex (line_decides lib path) (after @ [line])" by simp_all
    with \<open>rule_of_line lib l = Some r\<close> \<open>line_decides lib path l\<close> \<open>login \<in> set (rl_owners r)\<close> show ?thesis
      by blast
  qed
qed

lemma map_filter_set: "set (List.map_filter f xs) = {y. \<exists>x \<in> set xs. f x = Some y}"
  by (induction xs) (auto simp: List.map_filter_def)

lemma login_owner_Some: "login_owner w = Some login \<Longrightarrow> w = CHR ''@'' # login \<and> CHR ''/'' \<notin> set login"
  by (auto simp: login_owner_def strip_prefix_Some split: option.splits if_splits)

lemma rule_owners_named:
  assumes "rule_of_line lib line = Some r" "login \<in> set (rl_owners r)"
  shows "CHR ''/'' \<notin> set login \<and> contains_text line (CHR ''@'' # login)"
proof -
  let ?rule = "fst (break_at (\<lambda>c. c = CHR ''#'') line)"
  obtain w where w: "w \<in> set (split_whitespace (trim ?rule))" "login_owner w = Some login"
    using assms by (fastforce simp: rule_of_line_def map_filter_set split: list.splits)
  have "contains_text ?rule (trim ?rule)" unfolding contains_text_iff using trim_infix by metis
  then have "contains_text ?rule w" using split_whitespace_infix [OF w(1)] contains_text_trans by blast
  moreover have "contains_text line ?rule"
    unfolding contains_text_iff break_at_takeWhile fst_conv by (metis append_Nil takeWhile_dropWhile_id)
  ultimately show ?thesis using login_owner_Some [OF w(2)] contains_text_trans by blast
qed

text \<open>
  Every owner of a path is a login that the last deciding line of the CODEOWNERS file names behind an
  \<open>@\<close>: no later line has a pattern matching the path, and a team of an organization is never an owner.
\<close>

theorem last_matching_line_owns:
  assumes "login \<in> set (codeowners_owners (codeowners_parse lib text) path)"
  shows "\<exists>before line after. text_lines text = before @ line # after \<and> line_decides lib path line \<and>
    \<not> list_ex (line_decides lib path) after \<and> contains_text line (CHR ''@'' # login) \<and> CHR ''/'' \<notin> set login"
  using deciding_line [OF assms [unfolded codeowners_parse_def]] rule_owners_named by blast

definition example_library :: regex_library where
  "example_library =
     \<lparr>rx_new = (\<lambda>e. if e = ''^(?:.*/)?src(?:/.*)?$'' then Some (\<lambda>p. starts_with p ''src'') else None),
      rx_escape = (\<lambda>c. c)\<rparr>"

lemma example_rule:
  "rule_of_line example_library ''src @amy @org/team'' = Some \<lparr>rl_pattern = (\<lambda>p. starts_with p ''src''), rl_owners = [''amy'']\<rparr>"
proof -
  have "trim ''src @amy @org/team'' = ''src @amy @org/team''"
    by (rule trim_id) (simp_all add: whitespace_encodings_chars)
  moreover have "split_whitespace ''src @amy @org/team'' = [''src'', ''@amy'', ''@org/team'']"
    by (simp add: split_whitespace_def split_words.simps finished_word_def whitespace_encodings_chars)
  moreover have "pattern_expression (\<lambda>c. c) ''src'' = Some ''^(?:.*/)?src(?:/.*)?$''"
    by (simp add: pattern_expression_def trim_end_seqs_def trim_start_seqs_def strip_while_unfold ends_with_def
        continues_sequence_def byte_def)
  ultimately show ?thesis
    by (simp add: rule_of_line_def compile_pattern_def example_library_def List.map_filter_def login_owner_def)
qed

lemma last_matching_line_owns_witness:
  "\<exists>before line after. text_lines ''src @amy @org/team'' = before @ line # after \<and>
     line_decides example_library ''src/a'' line \<and>
     \<not> list_ex (line_decides example_library ''src/a'') after \<and> contains_text line ''@amy'' \<and> CHR ''/'' \<notin> set ''amy''"
proof -
  have "text_lines ''src @amy @org/team'' = [''src @amy @org/team'']" by code_simp
  then have "codeowners_parse example_library ''src @amy @org/team'' =
      [\<lparr>rl_pattern = (\<lambda>p. starts_with p ''src''), rl_owners = [''amy'']\<rparr>]"
    by (simp add: codeowners_parse_def List.map_filter_def example_rule)
  then have "codeowners_owners (codeowners_parse example_library ''src @amy @org/team'') ''src/a'' = [''amy'']"
    by (simp add: codeowners_owners_def trim_start_seqs_def strip_while_unfold starts_with_def)
  then show ?thesis
    using last_matching_line_owns [of "''amy''" example_library "''src @amy @org/team''" "''src/a''"] by simp
qed

end
