(* ===== verification/Ownership.thy ===== *)
theory Ownership
  imports Scores Pull_Requests Code_Owners
begin

text \<open>
  Scoring how closely each developer owns a pull request,
  \<open>crates/claudear-analysis/src/distribution/ownership.rs\<close>. The hash map of points is the list of its entries in
  iteration order; which order that is does not matter for the ranking, as is proved.
\<close>

section \<open>Evidence and candidates\<close>

definition requester_weight :: rat where
  "requester_weight = 100"

definition code_owner_weight :: rat where
  "code_owner_weight = 40"

definition author_weight :: rat where
  "author_weight = 20"

definition activity_weight :: rat where
  "activity_weight = 5"

definition signals :: "AssignmentReason list" where
  "signals = [Requester, CodeOwner, Author, Activity]"

record Evidence =
  ev_requesters :: "string list"
  ev_files :: "string list"
  ev_codeowners :: "CodeOwners option"
  ev_file_authors :: "string list"
  ev_repository_authors :: "string list"

record Candidate =
  ca_login :: string
  ca_score :: rat
  ca_reason :: AssignmentReason

type_synonym points = "(string \<times> rat list) list"

definition signal_index :: "AssignmentReason \<Rightarrow> nat" where
  "signal_index s = (if s \<in> set signals then length (takeWhile (\<lambda>c. c \<noteq> s) signals) else 0)"

fun add_points :: "string \<Rightarrow> nat \<Rightarrow> rat \<Rightarrow> points \<Rightarrow> points" where
  "add_points login i v [] = [(login, (replicate (length signals) 0)[i := f64_add 0 v])]"
| "add_points login i v ((l, ps) # rest) =
     (if l = login then (l, ps[i := f64_add (ps ! i) v]) # rest else (l, ps) # add_points login i v rest)"

definition award :: "(string \<Rightarrow> string) \<Rightarrow> Roster \<Rightarrow> AssignmentReason \<Rightarrow> rat \<Rightarrow> string \<Rightarrow> points \<Rightarrow> points" where
  "award lower roster signal v login points =
     (case roster_find lower roster login of
        None \<Rightarrow> points
      | Some d \<Rightarrow> add_points (dv_login d) (signal_index signal) v points)"

definition award_requesters :: "(string \<Rightarrow> string) \<Rightarrow> Roster \<Rightarrow> string list \<Rightarrow> points \<Rightarrow> points" where
  "award_requesters lower roster asked =
     fold (\<lambda>(position, r). award lower roster Requester
         (f64_div requester_weight (f64_add (f64_of_nat position) 1)) r)
       (List.enumerate 0 (first_of_key (\<lambda>k. k) [] (map lower asked)))"

definition owner_key :: "(string \<Rightarrow> string) \<Rightarrow> Roster \<Rightarrow> string \<Rightarrow> string" where
  "owner_key lower roster owner =
     (case roster_find lower roster owner of None \<Rightarrow> lower owner | Some d \<Rightarrow> dv_login d)"

definition award_owners :: "(string \<Rightarrow> string) \<Rightarrow> Roster \<Rightarrow> CodeOwners option \<Rightarrow> string list \<Rightarrow> points \<Rightarrow> points" where
  "award_owners lower roster codeowners files =
     (case codeowners of
        None \<Rightarrow> (\<lambda>points. points)
      | Some rules \<Rightarrow>
          (let share = f64_div code_owner_weight (f64_of_nat (max 1 (length files)))
           in fold (\<lambda>file. fold (award lower roster CodeOwner share)
                (first_of_key (\<lambda>k. k) [] (map (owner_key lower roster) (codeowners_owners rules file)))) files))"

definition award_authors :: "(string \<Rightarrow> string) \<Rightarrow> Roster \<Rightarrow> AssignmentReason \<Rightarrow> rat \<Rightarrow> string list \<Rightarrow> points \<Rightarrow> points" where
  "award_authors lower roster signal weight authors =
     (let share = f64_div weight (f64_of_nat (max 1 (length authors)))
      in fold (award lower roster signal share) authors)"

definition points_of :: "(string \<Rightarrow> string) \<Rightarrow> Roster \<Rightarrow> Evidence \<Rightarrow> points" where
  "points_of lower roster ev =
     award_authors lower roster Activity activity_weight (ev_repository_authors ev)
       (award_authors lower roster Author author_weight (ev_file_authors ev)
         (award_owners lower roster (ev_codeowners ev) (ev_files ev)
           (award_requesters lower roster (ev_requesters ev) [])))"

definition strongest :: "rat list \<Rightarrow> nat" where
  "strongest ps = fold (\<lambda>i best. if ps ! i > ps ! best then i else best) [0 ..< length ps] 0"

definition candidate_of :: "string \<times> rat list \<Rightarrow> Candidate" where
  "candidate_of = (\<lambda>(login, ps).
     \<lparr>ca_login = login, ca_score = fold (\<lambda>v total. f64_add total v) ps 0, ca_reason = signals ! strongest ps\<rparr>)"

definition ranking :: "(string \<Rightarrow> string) \<Rightarrow> points \<Rightarrow> Candidate list" where
  "ranking lower points =
     sort_key (\<lambda>c. (- ca_score c, lower (ca_login c)))
       (filter (\<lambda>c. ca_score c > 0) (map candidate_of points))"

definition rank :: "(string \<Rightarrow> string) \<Rightarrow> Roster \<Rightarrow> Evidence \<Rightarrow> Candidate list" where
  "rank lower roster ev = ranking lower (points_of lower roster ev)"

section \<open>The points of a developer\<close>

text \<open>Every login with points is one of the roster, has four signals, and comes once.\<close>

definition points_ok :: "Roster \<Rightarrow> points \<Rightarrow> bool" where
  "points_ok roster points \<longleftrightarrow>
     distinct (map fst points) \<and>
     list_all (\<lambda>(l, ps). l \<in> dv_login ` set (ro_developers roster) \<and> length ps = 4) points"

definition points_at :: "string \<Rightarrow> points \<Rightarrow> rat list" where
  "points_at login points = (case map_of points login of None \<Rightarrow> replicate 4 0 | Some ps \<Rightarrow> ps)"

lemma add_points_keys: "set (map fst (add_points login i v points)) = insert login (set (map fst points))"
  by (induction login i v points rule: add_points.induct) auto

lemma signals_length [simp]: "length signals = 4"
  by (simp add: signals_def)

lemma add_points_ok:
  "points_ok roster points \<Longrightarrow> login \<in> dv_login ` set (ro_developers roster) \<Longrightarrow>
     points_ok roster (add_points login i v points)"
proof (induction login i v points rule: add_points.induct)
  case (2 login i v l ps rest)
  have keys: "set (map fst (add_points login i v rest)) = insert login (set (map fst rest))" by (rule add_points_keys)
  show ?case
  proof (cases "l = login")
    case True
    with 2 show ?thesis by (simp add: points_ok_def)
  next
    case False
    then have "l \<notin> set (map fst (add_points login i v rest))" using 2(2) unfolding keys by (simp add: points_ok_def)
    with 2 False show ?thesis by (simp add: points_ok_def)
  qed
qed (simp add: points_ok_def)

lemma points_at_add:
  "points_at l (add_points login i v points) =
     (if l = login then (points_at login points)[i := f64_add (points_at login points ! i) v] else points_at l points)"
proof (induction login i v points rule: add_points.induct)
  case (1 login i v)
  have "(replicate 4 0 :: rat list)[i := f64_add 0 v] = (replicate 4 0)[i := f64_add (replicate 4 0 ! i) v]"
    by (cases "i < 4") (simp_all only: nth_replicate list_update_beyond length_replicate not_less)
  then show ?case by (simp only: points_at_def add_points.simps signals_length map_of.simps fst_conv snd_conv) simp
qed (auto simp: points_at_def)

lemma award_ok: "roster_ok lower roster \<Longrightarrow> points_ok roster points \<Longrightarrow> points_ok roster (award lower roster s v login points)"
  by (auto simp: award_def intro!: add_points_ok dest: found_on_roster split: option.splits)

lemma fold_award_ok:
  "roster_ok lower roster \<Longrightarrow> points_ok roster points \<Longrightarrow> points_ok roster (fold (award lower roster s v) logins points)"
  by (induction logins arbitrary: points) (simp_all add: award_ok)

lemma points_of_ok:
  assumes "roster_ok lower roster"
  shows "points_ok roster (points_of lower roster ev)"
proof -
  have requesters: "points_ok roster (fold (\<lambda>(position, r). award lower roster Requester (f position) r) rs points)"
    if "points_ok roster points" for rs and f :: "nat \<Rightarrow> rat" and points
    using that by (induction rs arbitrary: points) (auto simp: award_ok [OF assms])
  have owners: "points_ok roster (fold (\<lambda>file. fold (award lower roster s v) (g file)) files points)"
    if "points_ok roster points" for s v g and files :: "string list" and points
    using that by (induction files arbitrary: points) (simp_all add: fold_award_ok [OF assms])
  have "points_ok roster []" by (simp add: points_ok_def)
  then show ?thesis
    by (simp add: points_of_def award_authors_def award_owners_def award_requesters_def Let_def requesters owners
        fold_award_ok [OF assms] split: option.splits)
qed

section \<open>Rankings\<close>

lemma candidate_login [simp]: "ca_login (candidate_of p) = fst p"
  by (simp add: candidate_of_def split_beta)

text \<open>
  The ranking does not depend on the order in which the hash map of points is walked: any two orders of the
  same points of a roster's developers give the same ranking.
\<close>

theorem ranking_ignores_map_order:
  assumes "roster_ok lower roster" "points_ok roster points" "mset points' = mset points"
  shows "ranking lower points' = ranking lower points"
proof -
  let ?key = "\<lambda>c. (- ca_score c, lower (ca_login c))"
  let ?cs = "filter (\<lambda>c. ca_score c > 0) (map candidate_of points)"
  let ?cs' = "filter (\<lambda>c. ca_score c > 0) (map candidate_of points')"
  have mset: "mset ?cs' = mset ?cs" using assms(3) by (simp add: mset_filter mset_map)
  have logins: "inj_on lower (dv_login ` set (ro_developers roster))"
    using roster_ok_distinct [OF assms(1)] by (auto simp: distinct_map comp_inj_on_iff [symmetric] dest: inj_on_imageI)
  have points: "distinct (map fst points)" "fst ` set points \<subseteq> dv_login ` set (ro_developers roster)"
    using assms(2) by (auto simp: points_ok_def list_all_iff)
  have "inj_on ?key (set ?cs)"
  proof (rule inj_onI)
    fix c d
    assume "c \<in> set ?cs" "d \<in> set ?cs" and key: "?key c = ?key d"
    then obtain p q where pq: "p \<in> set points" "c = candidate_of p" "q \<in> set points" "d = candidate_of q" by auto
    then have "fst p \<in> dv_login ` set (ro_developers roster)" "fst q \<in> dv_login ` set (ro_developers roster)"
      using points(2) by blast+
    moreover have "lower (fst p) = lower (fst q)" using key pq by simp
    ultimately have "fst p = fst q" using logins by (simp only: inj_on_eq_iff)
    then have "p = q" using pq points(1) by (auto simp: distinct_map inj_on_def)
    then show "c = d" using pq by simp
  qed
  then have "inj_on ?key (set ?cs')" using mset by (metis set_mset_mset)
  then show ?thesis
    unfolding ranking_def using mset sort_key_inj_key_eq [of ?cs' "sort_key ?key ?cs" ?key] by simp
qed

section \<open>What the signals are worth\<close>

definition signal_of :: "nat \<Rightarrow> string \<Rightarrow> points \<Rightarrow> rat" where
  "signal_of i l points = points_at l points ! i"

text \<open>The rounding error of values below 256.\<close>

definition rounding_error :: rat where
  "rounding_error = 1 / 2 ^ 46"

lemma rounding_error_pos: "0 < rounding_error"
  by (simp add: rounding_error_def)

lemma round_f64_small: "0 \<le> x \<Longrightarrow> x < 256 \<Longrightarrow> \<bar>round_f64 x - x\<bar> \<le> rounding_error"
proof -
  assume "0 \<le> x" "x < 256"
  then have "\<bar>round_f64 x - x\<bar> \<le> 2 powi (int 8 - 54)" by (intro round_f64_error) simp_all
  also have "int 8 - 54 = - int 46" by simp
  also have "(2 :: rat) powi (- int 46) = rounding_error"
    unfolding power_int_minus power_int_of_nat rounding_error_def by (simp only: inverse_eq_divide)
  finally show ?thesis .
qed

lemma points_at_length: "points_ok roster points \<Longrightarrow> length (points_at l points) = 4"
  by (auto simp: points_at_def points_ok_def list_all_iff split: option.splits dest: map_of_SomeD)

lemma signal_index_simps [simp]:
  "signal_index Requester = 0" "signal_index CodeOwner = 1" "signal_index Author = 2" "signal_index Activity = 3"
  by (simp_all add: signal_index_def signals_def)

definition finds :: "(string \<Rightarrow> string) \<Rightarrow> Roster \<Rightarrow> string \<Rightarrow> string \<Rightarrow> bool" where
  "finds lower roster l login \<longleftrightarrow> map_option dv_login (roster_find lower roster login) = Some l"

lemma signal_of_award:
  assumes "points_ok roster points" "signal_index s < 4"
  shows "signal_of i l (award lower roster s v login points) =
    (if i = signal_index s \<and> finds lower roster l login
     then f64_add (signal_of i l points) v else signal_of i l points)"
proof (cases "roster_find lower roster login")
  case (Some d)
  then show ?thesis
    using points_at_length [OF assms(1), of l] assms(2)
    by (auto simp: award_def finds_def signal_of_def points_at_add nth_list_update)
qed (simp add: award_def finds_def)

lemma f64_add_bounds:
  assumes "0 \<le> a" "0 \<le> b" "a + b < 256"
  shows "0 \<le> f64_add a b" "f64_add a b \<le> a + b + rounding_error" "a + b - rounding_error \<le> f64_add a b"
  using assms round_f64_small [of "a + b"] by (auto simp: f64_add_def round_f64_nonneg abs_le_iff)

text \<open>A share of a weight, and as many shares as there are parts.\<close>

lemma share_bounds:
  assumes "0 < n" "n \<le> 2 ^ 32" "0 \<le> w" "w < 256"
  shows "0 \<le> f64_div w (f64_of_nat n)" "f64_div w (f64_of_nat n) \<le> w / of_nat n + rounding_error"
proof -
  have n: "f64_of_nat n = of_nat n" using assms(2) by (intro f64_of_nat_exact) simp
  have "(1 :: rat) \<le> of_nat n" using assms(1) by simp
  then have "w / of_nat n \<le> w" using assms(3) mult_left_mono [of 1 "of_nat n" w] by (simp add: divide_le_eq)
  then show "f64_div w (f64_of_nat n) \<le> w / of_nat n + rounding_error"
    using round_f64_small [of "w / of_nat n"] assms by (simp add: f64_div_def n abs_le_iff)
  show "0 \<le> f64_div w (f64_of_nat n)" using assms by (simp add: f64_div_def n round_f64_nonneg)
qed

text \<open>How many of the logins lead to a developer.\<close>

definition hits :: "(string \<Rightarrow> string) \<Rightarrow> Roster \<Rightarrow> string \<Rightarrow> string list \<Rightarrow> nat" where
  "hits lower roster l logins = length (filter (finds lower roster l) logins)"

text \<open>Awards of the same share keep below what exact arithmetic gives, plus one rounding error each.\<close>

lemma fold_awards:
  assumes roster: "roster_ok lower roster" and i: "i = signal_index s" "i < 4"
    and v: "0 \<le> v" and small: "a + of_nat n * (v + rounding_error) < 256"
  shows "points_ok roster points \<Longrightarrow> 0 \<le> signal_of i l points \<Longrightarrow>
      signal_of i l points \<le> a + of_nat k * (v + rounding_error) \<Longrightarrow> k + hits lower roster l logins \<le> n \<Longrightarrow>
      0 \<le> signal_of i l (fold (award lower roster s v) logins points) \<and>
      signal_of i l (fold (award lower roster s v) logins points) \<le>
        a + of_nat (k + hits lower roster l logins) * (v + rounding_error)"
proof (induction logins arbitrary: points k)
  case (Cons login logins)
  let ?points = "award lower roster s v login points"
  have ok: "points_ok roster ?points" using Cons.prems(1) by (rule award_ok [OF roster])
  note award = signal_of_award [OF Cons.prems(1), of s i l lower v login]
  show ?case
  proof (cases "finds lower roster l login")
    case False
    then have "signal_of i l ?points = signal_of i l points" using award i by simp
    with Cons.IH [OF ok, of k] Cons.prems False show ?thesis by (simp add: hits_def)
  next
    case True
    define c where "c = v + rounding_error"
    have c: "0 \<le> c" "v \<le> c" using v rounding_error_pos by (simp_all add: c_def)
    have "of_nat (Suc k) * c \<le> of_nat n * c"
      using Cons.prems(4) True c by (intro mult_right_mono) (simp_all add: hits_def)
    then have step: "of_nat k * c + c \<le> of_nat n * c" by (simp add: distrib_right)
    have small': "a + of_nat n * c < 256" using small by (simp add: c_def)
    have le: "signal_of i l points \<le> a + of_nat k * c" using Cons.prems(3) by (simp add: c_def)
    have "signal_of i l points + v < 256" using le step small' c by linarith
    note bounds = f64_add_bounds [OF Cons.prems(2) v this]
    have "signal_of i l ?points = f64_add (signal_of i l points) v" using award i True by simp
    then have "0 \<le> signal_of i l ?points \<and> signal_of i l ?points \<le> a + (of_nat k * c + c)"
      using bounds le by (simp add: c_def)
    then have "0 \<le> signal_of i l ?points \<and> signal_of i l ?points \<le> a + of_nat (Suc k) * (v + rounding_error)"
      by (simp add: c_def distrib_right)
    with Cons.IH [OF ok, of "Suc k"] Cons.prems(4) True show ?thesis by (simp add: hits_def)
  qed
qed (simp add: hits_def)

lemma fold_awards_other:
  assumes "roster_ok lower roster" "signal_index s < 4" "i \<noteq> signal_index s"
  shows "points_ok roster points \<Longrightarrow> signal_of i l (fold (award lower roster s v) logins points) = signal_of i l points"
proof (induction logins arbitrary: points)
  case (Cons login logins)
  then show ?case
    using Cons.IH [OF award_ok [OF assms(1) Cons.prems]] signal_of_award [OF Cons.prems assms(2), of i l lower v login]
      assms(3) by simp
qed simp

text \<open>A weight shared out in \<open>n\<close> parts stays below the weight and a small error.\<close>

lemma shared_weight:
  assumes roster: "roster_ok lower roster" and i: "i = signal_index s" "i < 4"
    and w: "0 \<le> w" "w \<le> 40" and n: "0 < n" "n \<le> 2 ^ 32"
    and points: "points_ok roster points" "signal_of i l points = 0" "hits lower roster l logins \<le> n"
  shows "0 \<le> signal_of i l (fold (award lower roster s (f64_div w (f64_of_nat n))) logins points)"
    "signal_of i l (fold (award lower roster s (f64_div w (f64_of_nat n))) logins points) \<le> w + 1"
proof -
  define v where "v = f64_div w (f64_of_nat n)"
  have v: "0 \<le> v" "v \<le> w / of_nat n + rounding_error"
    unfolding v_def using share_bounds [OF n w(1)] w(2) by simp_all
  have pos: "(0 :: rat) < of_nat n" using n by simp
  have "of_nat n * (v + rounding_error) \<le> of_nat n * (w / of_nat n + 2 * rounding_error)"
    using v(2) by (intro mult_left_mono) simp_all
  also have "\<dots> = w + 2 * of_nat n * rounding_error" using pos by (simp add: distrib_left)
  also have "2 * of_nat n * rounding_error \<le> 2 * 2 ^ 32 * rounding_error"
    using n(2) rounding_error_pos by (intro mult_right_mono) (simp_all add: of_nat_le_iff [of n "2 ^ 32", where ?'a = rat, simplified] del: of_nat_le_iff)
  also have "(2 :: rat) * 2 ^ 32 * rounding_error \<le> 1" by (simp add: rounding_error_def)
  finally have total: "of_nat n * (v + rounding_error) \<le> w + 1" by simp
  have "0 \<le> signal_of i l (fold (award lower roster s v) logins points) \<and>
      signal_of i l (fold (award lower roster s v) logins points) \<le>
        0 + of_nat (0 + hits lower roster l logins) * (v + rounding_error)"
    using total w points by (intro fold_awards [OF roster i v(1)]) auto
  moreover have "of_nat (hits lower roster l logins) * (v + rounding_error) \<le> of_nat n * (v + rounding_error)"
    using points(3) v rounding_error_pos by (intro mult_right_mono) simp_all
  ultimately show "0 \<le> signal_of i l (fold (award lower roster s v) logins points)"
    "signal_of i l (fold (award lower roster s v) logins points) \<le> w + 1"
    using total by simp_all
qed

section \<open>Who the awards go to\<close>

text \<open>What \<open>to_lowercase\<close> gives: folding twice is folding once, also around \<open>trim\<close>.\<close>

definition folds_case :: "(string \<Rightarrow> string) \<Rightarrow> bool" where
  "folds_case lower \<longleftrightarrow> (\<forall>s. lower (trim (lower s)) = lower (trim s))"

lemma roster_find_lower: "folds_case lower \<Longrightarrow> roster_find lower roster (lower s) = roster_find lower roster s"
  by (simp add: roster_find_def folds_case_def)

lemma owner_key_finds:
  assumes "roster_ok lower roster" "folds_case lower" "finds lower roster l (owner_key lower roster owner)"
  shows "owner_key lower roster owner = l"
proof (cases "roster_find lower roster owner")
  case None
  then show ?thesis using assms by (simp add: owner_key_def finds_def roster_find_lower)
next
  case (Some d)
  then have "roster_find lower roster (dv_login d) = Some d"
    using found_on_roster finds_own_login assms(1) by blast
  then show ?thesis using assms(3) Some by (simp add: owner_key_def finds_def)
qed

lemma filter_distinct_le_1: "distinct xs \<Longrightarrow> (\<And>x. x \<in> set xs \<Longrightarrow> P x \<Longrightarrow> x = y) \<Longrightarrow> length (filter P xs) \<le> 1"
proof -
  assume xs: "distinct xs" and P: "\<And>x. x \<in> set xs \<Longrightarrow> P x \<Longrightarrow> x = y"
  have "set (filter P xs) \<subseteq> {y}" using P by auto
  then have "card (set (filter P xs)) \<le> 1" using card_mono [of "{y}"] by fastforce
  then show ?thesis using distinct_card [OF distinct_filter [OF xs, of P]] by linarith
qed

lemma hits_of_file:
  assumes "roster_ok lower roster" "folds_case lower"
  shows "hits lower roster l (first_of_key (\<lambda>k. k) [] (map (owner_key lower roster) owners)) \<le> 1"
  unfolding hits_def
proof (rule filter_distinct_le_1 [where y = l])
  let ?keys = "first_of_key (\<lambda>k. k) [] (map (owner_key lower roster) owners)"
  show "distinct ?keys"
    using first_of_key_distinct [of "\<lambda>k. k" "[]" "map (owner_key lower roster) owners"] unfolding list.map_ident by blast
  fix k
  assume "k \<in> set ?keys" "finds lower roster l k"
  then show "k = l"
    using first_of_key_subset [of "\<lambda>k. k" "[]" "map (owner_key lower roster) owners"] owner_key_finds [OF assms]
    by fastforce
qed

lemma hits_of_files:
  assumes "roster_ok lower roster" "folds_case lower"
  shows "hits lower roster l (concat (map (\<lambda>file. first_of_key (\<lambda>k. k) []
    (map (owner_key lower roster) (owners file))) files)) \<le> length files"
proof (induction files)
  case (Cons path files)
  then show ?case
    using hits_of_file [OF assms, of l "owners path"] by (simp add: hits_def)
qed (simp add: hits_def)

lemma fold_fold_concat: "fold (\<lambda>x. fold f (g x)) xs = fold f (concat (map g xs))"
  by (induction xs) (simp_all add: fun_eq_iff)

lemma hits_le_length: "hits lower roster l logins \<le> length logins"
  by (simp add: hits_def)

text \<open>Requesters: who is not found by any gets nothing, and the first of distinct developers gets the whole weight.\<close>

lemma requesters_skip:
  assumes "roster_ok lower roster"
  shows "points_ok roster points \<Longrightarrow> i \<noteq> 0 \<or> list_all (\<lambda>(n, r). \<not> finds lower roster l r) nrs \<Longrightarrow>
    signal_of i l (fold (\<lambda>(n, r). award lower roster Requester (w n) r) nrs points) = signal_of i l points"
proof (induction nrs arbitrary: points)
  case (Cons nr nrs)
  obtain n r where nr: "nr = (n, r)" by force
  show ?case
    using Cons.IH [OF award_ok [OF assms Cons.prems(1)]] signal_of_award [OF Cons.prems(1), of Requester i l lower "w n" r]
      Cons.prems by (auto simp: nr)
qed simp

lemma whole_weight: "f64_div requester_weight (f64_add (f64_of_nat 0) 1) = 100" "f64_add 0 100 = 100"
proof -
  have hundred: "round_f64 100 = 100" using f64_of_nat_exact [of 100] by (simp add: f64_of_nat_def)
  moreover have "round_f64 1 = 1" using f64_of_nat_exact [of 1] by (simp add: f64_of_nat_def)
  ultimately show "f64_div requester_weight (f64_add (f64_of_nat 0) 1) = 100" "f64_add 0 100 = 100"
    by (simp_all add: f64_div_def f64_add_def requester_weight_def f64_of_nat_def)
qed

lemma requester_points:
  assumes roster: "roster_ok lower roster" and lower: "folds_case lower"
    and rs: "distinct (r # rs)" "set (r # rs) \<subseteq> dv_login ` set (ro_developers roster)"
  defines "points \<equiv> award_requesters lower roster (r # rs) []"
  shows "signal_of 0 r points = 100" "l \<notin> set (r # rs) \<Longrightarrow> signal_of 0 l points = 0"
    "i \<noteq> 0 \<Longrightarrow> i < 4 \<Longrightarrow> signal_of i l points = 0" "points_ok roster points"
proof -
  have finds: "finds lower roster l (lower x) \<longleftrightarrow> x = l" if x: "x \<in> set (r # rs)" for x l
  proof -
    obtain d where "d \<in> set (ro_developers roster)" "x = dv_login d" using rs(2) x by blast
    then show ?thesis using finds_own_login [OF roster] by (simp add: finds_def roster_find_lower [OF lower])
  qed
  have "inj_on lower (dv_login ` set (ro_developers roster))"
    using roster_ok_distinct [OF roster] by (auto simp: distinct_map dest: inj_on_imageI)
  then have "distinct (map lower (r # rs))" using rs by (metis distinct_map inj_on_subset)
  then have keys: "first_of_key (\<lambda>k. k) [] (map lower (r # rs)) = map lower (r # rs)"
    by (intro first_of_key_same) simp_all
  let ?w = "\<lambda>n. f64_div requester_weight (f64_add (f64_of_nat n) 1)"
  let ?step = "\<lambda>(n, r). award lower roster Requester (?w n) r"
  have points: "points = fold ?step (List.enumerate 1 (map lower rs)) (award lower roster Requester (?w 0) (lower r) [])"
    unfolding points_def award_requesters_def keys by simp
  have empty: "points_ok roster []" "\<And>i l. i < 4 \<Longrightarrow> signal_of i l [] = 0"
    by (simp_all add: points_ok_def signal_of_def points_at_def)
  have ok: "points_ok roster (award lower roster Requester (?w 0) (lower r) [])" by (rule award_ok [OF roster empty(1)])
  have first: "signal_of i l (award lower roster Requester (?w 0) (lower r) []) = (if i = 0 \<and> r = l then 100 else 0)"
    if "i < 4" for i l
    using signal_of_award [OF empty(1), of Requester i l lower "?w 0" "lower r"] finds [of r l] that
    by (simp add: whole_weight empty(2))
  have rest: "list_all (\<lambda>(n, x). \<not> finds lower roster l x) (List.enumerate 1 (map lower rs))" if "l \<notin> set rs" for l
    using finds that by (auto simp: list_all_iff in_set_enumerate_eq dest!: nth_mem)
  have skip: "signal_of i l points = signal_of i l (award lower roster Requester (?w 0) (lower r) [])"
    if "i \<noteq> 0 \<or> l \<notin> set rs" for i l
    unfolding points using requesters_skip [OF roster ok, of i l "List.enumerate 1 (map lower rs)" ?w] rest that by blast
  show "signal_of 0 r points = 100" using skip [of 0 r] first [of 0 r] rs(1) by simp
  show "l \<notin> set (r # rs) \<Longrightarrow> signal_of 0 l points = 0" using skip [of 0 l] first [of 0 l] by auto
  show "i \<noteq> 0 \<Longrightarrow> i < 4 \<Longrightarrow> signal_of i l points = 0" using skip [of i l] first [of i l] by simp
  have "points_ok roster (fold (\<lambda>(n, r). award lower roster Requester (w n) r) nrs ps)"
    if "points_ok roster ps" for w :: "nat \<Rightarrow> rat" and nrs ps
    using that by (induction nrs arbitrary: ps) (auto simp: award_ok [OF roster])
  from this [OF ok] show "points_ok roster points" unfolding points .
qed

section \<open>The first requester\<close>

definition score_of :: "rat list \<Rightarrow> rat" where
  "score_of ps = fold (\<lambda>v total. f64_add total v) ps 0"

lemma candidate_score: "ca_score (candidate_of (l, ps)) = score_of ps"
  by (simp add: candidate_of_def score_of_def)

lemma score_bounds:
  assumes "length ps = 4" "\<And>i. i < 4 \<Longrightarrow> 0 \<le> ps ! i" "ps ! 0 + ps ! 1 + ps ! 2 + ps ! 3 + 4 * rounding_error < 256"
  shows "ps ! 0 + ps ! 1 + ps ! 2 + ps ! 3 - 4 * rounding_error \<le> score_of ps"
    "score_of ps \<le> ps ! 0 + ps ! 1 + ps ! 2 + ps ! 3 + 4 * rounding_error"
proof -
  obtain a b c d where ps: "ps = [a, b, c, d]"
    using assms(1) by (auto simp: length_Suc_conv numeral_eq_Suc)
  have nonneg: "0 \<le> a" "0 \<le> b" "0 \<le> c" "0 \<le> d"
    using assms(2) [of 0] assms(2) [of 1] assms(2) [of 2] assms(2) [of 3] by (simp_all add: ps)
  have sum: "a + b + c + d + 4 * rounding_error < 256" using assms(3) by (simp add: ps)
  note e = rounding_error_pos
  note one = f64_add_bounds [of 0 a]
  note two = f64_add_bounds [of "f64_add 0 a" b]
  note three = f64_add_bounds [of "f64_add (f64_add 0 a) b" c]
  note four = f64_add_bounds [of "f64_add (f64_add (f64_add 0 a) b) c" d]
  have 1: "0 \<le> f64_add 0 a" "f64_add 0 a \<le> a + rounding_error" "a - rounding_error \<le> f64_add 0 a"
    using one nonneg sum e by auto
  let ?ab = "f64_add (f64_add 0 a) b"
  have 2: "0 \<le> ?ab" "?ab \<le> a + b + 2 * rounding_error" "a + b - 2 * rounding_error \<le> ?ab"
    using two 1 nonneg sum e by auto
  let ?abc = "f64_add ?ab c"
  have 3: "0 \<le> ?abc" "?abc \<le> a + b + c + 3 * rounding_error" "a + b + c - 3 * rounding_error \<le> ?abc"
    using three 2 nonneg sum e by auto
  have 4: "f64_add ?abc d \<le> a + b + c + d + 4 * rounding_error" "a + b + c + d - 4 * rounding_error \<le> f64_add ?abc d"
    using four 3 nonneg sum e by auto
  from 4 show "ps ! 0 + ps ! 1 + ps ! 2 + ps ! 3 - 4 * rounding_error \<le> score_of ps"
    "score_of ps \<le> ps ! 0 + ps ! 1 + ps ! 2 + ps ! 3 + 4 * rounding_error"
    by (simp_all add: ps score_of_def)
qed

lemma score_near:
  assumes "length ps = 4" "\<And>i. ps ! i = f i"
    "f 0 \<in> {0..100}" "f 1 \<in> {0..41}" "f 2 \<in> {0..21}" "f 3 \<in> {0..6}"
  shows "\<bar>score_of ps - (f 0 + f 1 + f 2 + f 3)\<bar> \<le> 4"
proof -
  have e: "0 < rounding_error" "rounding_error \<le> 1" by (simp_all add: rounding_error_def)
  have nonneg: "0 \<le> ps ! i" if "i < 4" for i
  proof -
    have "i = 0 \<or> i = 1 \<or> i = 2 \<or> i = 3" using that by linarith
    then show ?thesis using assms by auto
  qed
  have sum: "ps ! 0 + ps ! 1 + ps ! 2 + ps ! 3 + 4 * rounding_error < 256"
    using assms(3-6) e unfolding assms(2) atLeastAtMost_iff by linarith
  have "\<bar>score_of ps - (f 0 + f 1 + f 2 + f 3)\<bar> \<le> 4 * rounding_error"
    using score_bounds [OF assms(1) nonneg sum] unfolding assms(2) abs_le_iff by linarith
  then show ?thesis using e by linarith
qed

text \<open>All four signals of a developer, for evidence of up to \<open>2 ^ 32\<close> files and commits.\<close>

definition evidence_fits :: "Evidence \<Rightarrow> bool" where
  "evidence_fits ev \<longleftrightarrow>
     length (ev_files ev) \<le> 2 ^ 32 \<and> length (ev_file_authors ev) \<le> 2 ^ 32 \<and> length (ev_repository_authors ev) \<le> 2 ^ 32"

lemma owner_points:
  fixes codeowners :: "CodeOwners option" and i :: nat
  assumes roster: "roster_ok lower roster" and lower: "folds_case lower" and n: "length files \<le> 2 ^ 32"
    and points: "points_ok roster points" "signal_of 1 l points = 0"
  defines "points' \<equiv> award_owners lower roster codeowners files points"
  shows "points_ok roster points'" "i \<noteq> 1 \<Longrightarrow> signal_of i l points' = signal_of i l points"
    "0 \<le> signal_of 1 l points'" "signal_of 1 l points' \<le> 41"
proof -
  show "points_ok roster points'" "i \<noteq> 1 \<Longrightarrow> signal_of i l points' = signal_of i l points"
    using points fold_awards_other [OF roster, of CodeOwner i points l]
    by (auto simp: points'_def award_owners_def Let_def fold_fold_concat fold_award_ok [OF roster] split: option.splits)
  have "0 \<le> signal_of 1 l points' \<and> signal_of 1 l points' \<le> 41"
  proof (cases codeowners)
    case (Some rules)
    let ?logins = "concat (map (\<lambda>file. first_of_key (\<lambda>k. k) []
      (map (owner_key lower roster) (codeowners_owners rules file))) files)"
    have "hits lower roster l ?logins \<le> length files" by (rule hits_of_files [OF roster lower])
    then have "hits lower roster l ?logins \<le> max 1 (length files)" by simp
    from shared_weight [OF roster _ _ _ _ _ _ points this, of CodeOwner code_owner_weight] n Some
    show ?thesis by (simp add: points'_def award_owners_def Let_def fold_fold_concat code_owner_weight_def)
  qed (use points in \<open>simp add: points'_def award_owners_def\<close>)
  then show "0 \<le> signal_of 1 l points'" "signal_of 1 l points' \<le> 41" by simp_all
qed

lemma author_points:
  fixes i :: nat
  assumes roster: "roster_ok lower roster" and n: "length authors \<le> 2 ^ 32" and s: "signal_index s < 4"
    and w: "0 \<le> w" "w \<le> 40"
    and points: "points_ok roster points" "signal_of (signal_index s) l points = 0"
  defines "points' \<equiv> award_authors lower roster s w authors points"
  shows "points_ok roster points'" "i \<noteq> signal_index s \<Longrightarrow> signal_of i l points' = signal_of i l points"
    "0 \<le> signal_of (signal_index s) l points'" "signal_of (signal_index s) l points' \<le> w + 1"
proof -
  show "points_ok roster points'" "i \<noteq> signal_index s \<Longrightarrow> signal_of i l points' = signal_of i l points"
    using points fold_awards_other [OF roster s, of i points l]
    by (auto simp: points'_def award_authors_def Let_def fold_award_ok [OF roster])
  have "hits lower roster l authors \<le> max 1 (length authors)" using hits_le_length [of lower roster l authors] by simp
  from shared_weight [OF roster refl s w _ _ points this] n
  show "0 \<le> signal_of (signal_index s) l points'" "signal_of (signal_index s) l points' \<le> w + 1"
    by (simp_all add: points'_def award_authors_def Let_def)
qed

lemma points_of_signals:
  assumes roster: "roster_ok lower roster" and lower: "folds_case lower" and fits: "evidence_fits ev"
    and rs: "ev_requesters ev = r # rs" "distinct (r # rs)" "set (r # rs) \<subseteq> dv_login ` set (ro_developers roster)"
  shows "signal_of 0 r (points_of lower roster ev) = 100"
    "l \<notin> set (r # rs) \<Longrightarrow> signal_of 0 l (points_of lower roster ev) = 0"
    "0 \<le> signal_of 1 l (points_of lower roster ev)" "signal_of 1 l (points_of lower roster ev) \<le> 41"
    "0 \<le> signal_of 2 l (points_of lower roster ev)" "signal_of 2 l (points_of lower roster ev) \<le> 21"
    "0 \<le> signal_of 3 l (points_of lower roster ev)" "signal_of 3 l (points_of lower roster ev) \<le> 6"
proof -
  define p0 where "p0 = award_requesters lower roster (r # rs) []"
  define p1 where "p1 = award_owners lower roster (ev_codeowners ev) (ev_files ev) p0"
  define p2 where "p2 = award_authors lower roster Author author_weight (ev_file_authors ev) p1"
  define p3 where "p3 = award_authors lower roster Activity activity_weight (ev_repository_authors ev) p2"
  have ev: "points_of lower roster ev = p3" by (simp add: points_of_def p0_def p1_def p2_def p3_def rs(1))
  note 0 = requester_points [OF roster lower rs(2,3), folded p0_def]
  note 1 = owner_points [OF roster lower _ 0(4), where files = "ev_files ev" and codeowners = "ev_codeowners ev", folded p1_def]
  have files: "length (ev_files ev) \<le> 2 ^ 32" "length (ev_file_authors ev) \<le> 2 ^ 32" "length (ev_repository_authors ev) \<le> 2 ^ 32"
    using fits by (simp_all add: evidence_fits_def)
  have 10: "signal_of 1 l p0 = 0" for l using 0(3) [of 1 l] by simp
  have ok1: "points_ok roster p1" using 1(1) [OF files(1) 10] .
  have at1: "i \<noteq> 1 \<Longrightarrow> signal_of i l p1 = signal_of i l p0" for i l using 1(2) [OF files(1) 10] by simp
  note 2 = author_points [OF roster files(2) _ _ _ ok1, where s = Author and w = author_weight, folded p2_def, simplified]
  have 20: "signal_of 2 l p1 = 0" for l using at1 [of 2 l] 0(3) [of 2 l] by simp
  have w2: "0 \<le> author_weight" "author_weight \<le> 40" by (simp_all add: author_weight_def)
  have ok2: "points_ok roster p2" using 2(1) [OF w2 20] .
  have at2: "i \<noteq> 2 \<Longrightarrow> signal_of i l p2 = signal_of i l p1" for i l using 2(2) [OF w2 20] by simp
  note 3 = author_points [OF roster files(3) _ _ _ ok2, where s = Activity and w = activity_weight, folded p3_def, simplified]
  have 30: "signal_of 3 l p2 = 0" for l using at2 [of 3 l] at1 [of 3 l] 0(3) [of 3 l] by simp
  have w3: "0 \<le> activity_weight" "activity_weight \<le> 40" by (simp_all add: activity_weight_def)
  have at3: "i \<noteq> 3 \<Longrightarrow> signal_of i l p3 = signal_of i l p2" for i l using 3(2) [OF w3 30] by simp
  show "signal_of 0 r (points_of lower roster ev) = 100" using at3 [of 0] at2 [of 0] at1 [of 0] 0(1) by (simp add: ev)
  show "l \<notin> set (r # rs) \<Longrightarrow> signal_of 0 l (points_of lower roster ev) = 0"
    using at3 [of 0] at2 [of 0] at1 [of 0] 0(2) by (simp add: ev)
  show "0 \<le> signal_of 1 l (points_of lower roster ev)" "signal_of 1 l (points_of lower roster ev) \<le> 41"
    using at3 [of 1] at2 [of 1] 1(3,4) [OF files(1) 10, of l] by (simp_all add: ev)
  show "0 \<le> signal_of 2 l (points_of lower roster ev)" "signal_of 2 l (points_of lower roster ev) \<le> 21"
    using at3 [of 2] 2(3,4) [OF w2 20, of l] by (simp_all add: ev author_weight_def)
  show "0 \<le> signal_of 3 l (points_of lower roster ev)" "signal_of 3 l (points_of lower roster ev) \<le> 6"
    using 3(3,4) [OF w3 30, of l] by (simp_all add: ev activity_weight_def)
qed

section \<open>Properties of the ranking\<close>

lemma ranking_set: "set (ranking lower points) = {c \<in> candidate_of ` set points. 0 < ca_score c}"
  by (auto simp: ranking_def)

lemma points_at_entry: "points_ok roster points \<Longrightarrow> (l, ps) \<in> set points \<Longrightarrow> points_at l points = ps"
  by (simp add: points_at_def points_ok_def)

lemma score_of_points:
  assumes "points_ok roster points" "(l, ps) \<in> set points"
  shows "ps ! i = signal_of i l points" "length ps = 4"
  using assms points_at_entry [OF assms] by (auto simp: signal_of_def points_ok_def list_all_iff)

lemma strongest_less: "ps \<noteq> [] \<Longrightarrow> strongest ps < length ps"
proof -
  have "fold (\<lambda>i best. if ps ! i > ps ! best then i else best) js b < length ps"
    if "\<forall>i \<in> set js. i < length ps" "b < length ps" for js b
    using that by (induction js arbitrary: b) auto
  then show "ps \<noteq> [] \<Longrightarrow> strongest ps < length ps" by (simp add: strongest_def)
qed

lemma distinct_map_sort_key: "distinct (map f (sort_key k xs)) = distinct (map f xs)"
  by (rule mset_eq_imp_distinct_iff) simp

text \<open>
  The candidates for a pull request are developers of the roster, each once, with a positive score and the
  signal that contributes to it as the reason (never the load), strongest first and ties by lowercase login.
\<close>

theorem ranking_sound:
  assumes "roster_ok lower roster"
  shows "distinct (map ca_login (rank lower roster ev))"
    and "set (map ca_login (rank lower roster ev)) \<subseteq> dv_login ` set (ro_developers roster)"
    and "list_all (\<lambda>c. 0 < ca_score c \<and> ca_reason c \<noteq> Load) (rank lower roster ev)"
    and "sorted (map (\<lambda>c. (- ca_score c, lower (ca_login c))) (rank lower roster ev))"
proof -
  let ?points = "points_of lower roster ev"
  note ok = points_of_ok [OF assms, of ev]
  have "distinct (map fst ?points)" using ok by (simp add: points_ok_def)
  then have "distinct (map ca_login (map candidate_of ?points))" by (simp add: comp_def)
  then have "distinct (map ca_login (filter (\<lambda>c. 0 < ca_score c) (map candidate_of ?points)))"
    by (rule distinct_map_filter)
  then show "distinct (map ca_login (rank lower roster ev))"
    unfolding rank_def ranking_def by (simp only: distinct_map_sort_key)
  show "set (map ca_login (rank lower roster ev)) \<subseteq> dv_login ` set (ro_developers roster)"
    using ok by (auto simp: rank_def ranking_set points_ok_def list_all_iff)
  have "ca_reason (candidate_of (l, ps)) \<noteq> Load" if "(l, ps) \<in> set ?points" for l ps
  proof -
    have "length ps = 4" by (rule score_of_points(2) [OF ok that])
    then have "strongest ps < 4" using strongest_less [of ps] by force
    then have "signals ! strongest ps \<in> set signals" by (intro nth_mem) simp
    then show ?thesis by (auto simp: candidate_of_def signals_def)
  qed
  then show "list_all (\<lambda>c. 0 < ca_score c \<and> ca_reason c \<noteq> Load) (rank lower roster ev)"
    by (auto simp: rank_def ranking_set list_all_iff)
  show "sorted (map (\<lambda>c. (- ca_score c, lower (ca_login c))) (rank lower roster ev))"
    by (simp add: rank_def ranking_def)
qed

text \<open>
  Property C14. Whoever asked for the work first outranks everyone who merely owns the code: the score of the first
  requester of an issue is above the score of every candidate who did not ask for it, however the rounding goes.
\<close>

theorem first_requester_outranks_owners:
  assumes roster: "roster_ok lower roster" and lower: "folds_case lower" and fits: "evidence_fits ev"
    and ev: "ev_requesters ev = requesters lower roster issue" "requesters lower roster issue = r # rs"
  shows "\<exists>c \<in> set (rank lower roster ev). ca_login c = r \<and>
    list_all (\<lambda>c'. ca_login c' \<in> set (r # rs) \<or> ca_score c' < ca_score c) (rank lower roster ev)"
proof -
  let ?points = "points_of lower roster ev"
  have rs: "ev_requesters ev = r # rs" "distinct (r # rs)" "set (r # rs) \<subseteq> dv_login ` set (ro_developers roster)"
    using requesters_on_roster [OF roster, of issue] ev by simp_all
  note ok = points_of_ok [OF roster, of ev]
  note s = points_of_signals [OF roster lower fits rs]
  have e: "0 < rounding_error" "rounding_error \<le> 1" by (simp_all add: rounding_error_def)
  have "points_at r ?points \<noteq> replicate 4 0" using s(1) by (auto simp: signal_of_def)
  then obtain ps where ps: "(r, ps) \<in> set ?points"
    by (auto simp: points_at_def split: option.splits dest: map_of_SomeD)
  have signals: "\<bar>score_of qs - (signal_of 0 l ?points + signal_of 1 l ?points + signal_of 2 l ?points + signal_of 3 l ?points)\<bar> \<le> 4"
    if qs: "(l, qs) \<in> set ?points" and zero: "0 \<le> signal_of 0 l ?points" "signal_of 0 l ?points \<le> 100" for l qs
  proof (rule score_near)
    show "length qs = 4" by (rule score_of_points(2) [OF ok qs])
    show "qs ! i = signal_of i l ?points" for i by (rule score_of_points(1) [OF ok qs])
    show "signal_of 1 l ?points \<in> {0..41}" "signal_of 2 l ?points \<in> {0..21}" "signal_of 3 l ?points \<in> {0..6}"
      "signal_of 0 l ?points \<in> {0..100}"
      using s(3-8) [of l] zero by simp_all
  qed
  have first: "90 \<le> score_of ps"
    using signals [OF ps] s(1) s(3,5,7) [of r] unfolding abs_le_iff by linarith
  have others: "score_of qs \<le> 72" if "(l, qs) \<in> set ?points" "l \<notin> set (r # rs)" for l qs
    using signals [OF that(1)] s(2) [OF that(2)] s(4,6,8) [of l] unfolding abs_le_iff by linarith
  show ?thesis
  proof (intro bexI [of _ "candidate_of (r, ps)"] conjI)
    show "candidate_of (r, ps) \<in> set (rank lower roster ev)"
      using ps first by (auto simp: rank_def ranking_set candidate_score)
    show "list_all (\<lambda>c'. ca_login c' \<in> set (r # rs) \<or> ca_score c' < ca_score (candidate_of (r, ps))) (rank lower roster ev)"
      using others first by (force simp: rank_def ranking_set candidate_score list_all_iff)
  qed simp
qed

section \<open>Examples\<close>

text \<open>Amy and Bob asked for the work; Cat wrote and owns all of it.\<close>

definition example_roster :: Roster where
  "example_roster = from_developers id (map developer_new [''amy'', ''bob'', ''cat''])"

definition example_evidence :: Evidence where
  "example_evidence =
     \<lparr>ev_requesters = [''amy'', ''bob''], ev_files = [''src/a''],
      ev_codeowners = Some [\<lparr>rl_pattern = (\<lambda>p. True), rl_owners = [''cat'']\<rparr>],
      ev_file_authors = [''cat''], ev_repository_authors = [''cat'']\<rparr>"

lemma example_roster:
  "example_roster =
     \<lparr>ro_developers = map developer_new [''amy'', ''bob'', ''cat''],
      ro_logins = (\<lambda>l. None)(''amy'' \<mapsto> 0, ''bob'' \<mapsto> Suc 0, ''cat'' \<mapsto> Suc (Suc 0)), ro_slugs = (\<lambda>s. None)\<rparr>"
proof -
  let ?entry = "\<lambda>login. \<lparr>en_developer = developer_new login, en_aliases = [login], en_slugs = []\<rparr>"
  have "sort_key (\<lambda>e. id (dv_login (en_developer e))) (map ?entry [''amy'', ''bob'', ''cat'']) =
      map ?entry [''amy'', ''bob'', ''cat'']"
    by (rule sort_key_id_if_sorted) (simp add: developer_new_def)
  then show ?thesis
    by (simp add: example_roster_def from_developers_def from_entries_def add_entry_def empty_roster_def developer_new_def Let_def)
qed

lemma example_trims: "trim ''amy'' = ''amy''" "trim ''bob'' = ''bob''" "trim ''cat'' = ''cat''"
  by (rule trim_login, code_simp)+

lemma example_roster_ok: "roster_ok id example_roster"
  using example_trims by (simp add: example_roster roster_ok_def developer_new_def less_Suc_eq)

lemma example_find:
  "roster_find id example_roster ''amy'' = Some (developer_new ''amy'')"
  "roster_find id example_roster ''bob'' = Some (developer_new ''bob'')"
  "roster_find id example_roster ''cat'' = Some (developer_new ''cat'')"
  using example_trims by (simp_all add: roster_find_def example_roster)

lemma round_f64_numeral: "numeral n < (2 :: nat) ^ 53 \<Longrightarrow> round_f64 (numeral n) = numeral n"
  using f64_of_nat_exact [of "numeral n"] by (simp add: f64_of_nat_def)

lemma round_f64_1: "round_f64 1 = 1"
  using f64_of_nat_exact [of 1] by (simp add: f64_of_nat_def)

lemma example_points:
  "points_of id example_roster example_evidence =
     [(''amy'', [100, 0, 0, 0]), (''bob'', [50, 0, 0, 0]), (''cat'', [0, 40, 20, 5])]"
  by (simp add: points_of_def example_evidence_def award_authors_def award_owners_def award_requesters_def Let_def
      award_def example_find add_points.simps f64_add_def f64_div_def f64_of_nat_def round_f64_numeral round_f64_1
      developer_new_def signals_def signal_index_def owner_key_def codeowners_owners_def requester_weight_def
      code_owner_weight_def author_weight_def activity_weight_def)

text \<open>
  A second requester gets half the weight of the first, which owning and having written all of the code exceeds: only
  the closest requester outranks everyone who merely owns the code.
\<close>

lemma second_requester_outranked: "map ca_login (rank id example_roster example_evidence) = [''amy'', ''cat'', ''bob'']"
  by (simp add: rank_def ranking_def example_points candidate_of_def f64_add_def round_f64_numeral)

lemma example_folds: "folds_case id"
  by (simp add: folds_case_def)

lemma ranking_ignores_map_order_witness:
  "ranking id [(''bob'', [50, 0, 0, 0]), (''cat'', [0, 40, 20, 5]), (''amy'', [100, 0, 0, 0])] =
     ranking id [(''amy'', [100, 0, 0, 0]), (''bob'', [50, 0, 0, 0]), (''cat'', [0, 40, 20, 5])]"
  by (rule ranking_ignores_map_order [OF example_roster_ok])
    (simp_all add: points_ok_def example_roster developer_new_def add_mset_commute)

lemma ranking_sound_witness:
  "sorted (map (\<lambda>c. (- ca_score c, id (ca_login c))) (rank id example_roster example_evidence))"
  by (rule ranking_sound(4) [OF example_roster_ok])

definition example_issue :: Issue where
  "example_issue = (new_issue ''1'' ''A-1'' ''Fix'' ''https://e.x'' ''github'')
     \<lparr>is_metadata := [(''assignee'', JStr ''amy''), (''author'', JStr ''bob'')]\<rparr>"

lemma example_requesters: "requesters id example_roster example_issue = [''amy'', ''bob'']"
  using example_trims
  by (simp add: requesters_def found_requesters_def example_issue_def new_issue_def requester_metadata_def metadata_def
      Let_def example_find developer_new_def)

lemma first_requester_outranks_owners_witness:
  "\<exists>c \<in> set (rank id example_roster example_evidence). ca_login c = ''amy'' \<and>
    list_all (\<lambda>c'. ca_login c' \<in> {''amy'', ''bob''} \<or> ca_score c' < ca_score c) (rank id example_roster example_evidence)"
  using first_requester_outranks_owners [OF example_roster_ok example_folds, of example_evidence example_issue "''amy''" "[''bob'']"]
  by (simp add: example_requesters evidence_fits_def example_evidence_def)

end
