(* ===== verification/Balancing.thy ===== *)
theory Balancing
  imports Ownership
begin

text \<open>
  Spreading open pull requests across the roster, \<open>crates/claudear-analysis/src/distribution/balancer.rs\<close>:
  nobody is given a pull request beyond the fair share, and owners lose theirs only at it.
\<close>

section \<open>The balancer\<close>

record Pending =
  pe_key :: string
  pe_candidates :: "Candidate list"

record Decision =
  de_key :: string
  de_assignee :: string
  de_reason :: AssignmentReason
  de_score :: rat

record Balancer =
  ba_roster :: Roster
  ba_tolerance :: nat

fun position :: "('a \<Rightarrow> bool) \<Rightarrow> 'a list \<Rightarrow> nat option" where
  "position P [] = None"
| "position P (x # xs) = (if P x then Some 0 else map_option Suc (position P xs))"

definition developer_index :: "(string \<Rightarrow> string) \<Rightarrow> Roster \<Rightarrow> string \<Rightarrow> nat option" where
  "developer_index lower roster login =
     (case roster_find lower roster login of
        None \<Rightarrow> None
      | Some d \<Rightarrow> position (\<lambda>c. dv_login c = dv_login d) (ro_developers roster))"

definition best_score :: "Pending \<Rightarrow> rat" where
  "best_score p = (case pe_candidates p of [] \<Rightarrow> 0 | c # cs \<Rightarrow> ca_score c)"

definition candidate_score_at :: "(string \<Rightarrow> nat option) \<Rightarrow> Candidate list \<Rightarrow> nat \<Rightarrow> rat" where
  "candidate_score_at index candidates i =
     (case find (\<lambda>c. index (ca_login c) = Some i) candidates of None \<Rightarrow> 0 | Some c \<Rightarrow> ca_score c)"

text \<open>The first of the smallest, as \<open>Iterator::min_by\<close> picks it.\<close>

definition least_loaded :: "(string \<Rightarrow> nat option) \<Rightarrow> nat list \<Rightarrow> Candidate list \<Rightarrow> nat" where
  "least_loaded index loads candidates =
     (let key = \<lambda>i. (loads ! i, - candidate_score_at index candidates i)
      in fold (\<lambda>i best. if key i < key best then i else best) [0 ..< length loads] 0)"

fun under_share :: "(string \<Rightarrow> nat option) \<Rightarrow> nat list \<Rightarrow> nat \<Rightarrow> Candidate list \<Rightarrow> (nat \<times> AssignmentReason \<times> rat) option" where
  "under_share index loads share [] = None"
| "under_share index loads share (c # cs) =
     (case index (ca_login c) of
        None \<Rightarrow> under_share index loads share cs
      | Some i \<Rightarrow> if loads ! i < share then Some (i, ca_reason c, ca_score c) else under_share index loads share cs)"

definition chosen :: "(string \<Rightarrow> nat option) \<Rightarrow> nat list \<Rightarrow> nat \<Rightarrow> Candidate list \<Rightarrow> nat \<times> AssignmentReason \<times> rat" where
  "chosen index loads share candidates =
     (case under_share index loads share candidates of
        Some choice \<Rightarrow> choice
      | None \<Rightarrow>
          (let i = least_loaded index loads candidates
           in (i, Load, candidate_score_at index candidates i)))"

fun place_all :: "(string \<Rightarrow> nat option) \<Rightarrow> Developer list \<Rightarrow> nat \<Rightarrow> nat list \<Rightarrow> Pending list \<Rightarrow> Decision list" where
  "place_all index developers share loads [] = []"
| "place_all index developers share loads (p # ps) =
     (let (i, reason, score) = chosen index loads share (pe_candidates p)
      in \<lparr>de_key = pe_key p, de_assignee = dv_login (developers ! i), de_reason = reason, de_score = score\<rparr>
         # place_all index developers share (loads[i := loads ! i + 1]) ps)"

definition held_loads :: "(string \<Rightarrow> string) \<Rightarrow> Roster \<Rightarrow> string list \<Rightarrow> nat list" where
  "held_loads lower roster held =
     fold (\<lambda>login loads. case developer_index lower roster login of None \<Rightarrow> loads | Some i \<Rightarrow> loads[i := loads ! i + 1])
       held (replicate (length (ro_developers roster)) 0)"

definition div_ceil :: "nat \<Rightarrow> nat \<Rightarrow> nat" where
  "div_ceil a b = (if a mod b = 0 then a div b else a div b + 1)"

definition fair_share :: "nat \<Rightarrow> nat list \<Rightarrow> Pending list \<Rightarrow> nat" where
  "fair_share tolerance loads pending = div_ceil (sum_list loads + length pending) (length loads) + tolerance"

definition balancer_assign :: "(string \<Rightarrow> string) \<Rightarrow> Balancer \<Rightarrow> Pending list \<Rightarrow> string list \<Rightarrow> Decision list" where
  "balancer_assign lower b pending held =
     (let roster = ba_roster b; developers = ro_developers roster
      in if developers = [] then []
         else
           let loads = held_loads lower roster held
           in place_all (developer_index lower roster) developers (fair_share (ba_tolerance b) loads pending) loads
                (sort_key (\<lambda>p. (- best_score p, pe_key p)) pending))"

section \<open>Positions\<close>

lemma position_Some: "position P xs = Some i \<Longrightarrow> i < length xs \<and> P (xs ! i)"
  by (induction xs arbitrary: i) (auto split: if_splits)

lemma position_distinct: "distinct (map f xs) \<Longrightarrow> i < length xs \<Longrightarrow> position (\<lambda>x. f x = f (xs ! i)) xs = Some i"
proof (induction xs arbitrary: i)
  case (Cons x xs)
  then show ?case by (cases i) force+
qed simp

lemma developer_index_Some:
  "developer_index lower roster login = Some i \<Longrightarrow>
     i < length (ro_developers roster) \<and> finds lower roster (dv_login (ro_developers roster ! i)) login"
  by (auto simp: developer_index_def finds_def dest: position_Some split: option.splits)

lemma developer_index_finds:
  assumes "roster_ok lower roster" "i < length (ro_developers roster)"
  shows "developer_index lower roster login = Some i \<longleftrightarrow> finds lower roster (dv_login (ro_developers roster ! i)) login"
proof -
  have "distinct (map dv_login (ro_developers roster))"
    using roster_ok_distinct [OF assms(1)] by (auto simp: distinct_map dest: inj_on_imageI2)
  from position_distinct [OF this assms(2)] show ?thesis
    by (auto simp: developer_index_def finds_def dest: position_Some split: option.splits)
qed

section \<open>The least loaded\<close>

lemma fold_min:
  fixes key :: "nat \<Rightarrow> 'a :: linorder"
  shows "let m = fold (\<lambda>i best. if key i < key best then i else best) js b
    in m \<in> insert b (set js) \<and> (\<forall>i \<in> insert b (set js). key m \<le> key i)"
proof (induction js arbitrary: b)
  case (Cons i js)
  from Cons [of "if key i < key b then i else b"] show ?case
    by (auto simp: Let_def split: if_splits intro: order_trans less_imp_le)
qed simp

lemma least_loaded_least:
  assumes "loads \<noteq> []"
  shows "least_loaded index loads candidates < length loads"
    "i < length loads \<Longrightarrow> loads ! least_loaded index loads candidates \<le> loads ! i"
proof -
  let ?m = "least_loaded index loads candidates"
  note min = fold_min [where key = "\<lambda>i. (loads ! i, - candidate_score_at index candidates i)" and b = 0 and js = "[0 ..< length loads]"]
  have m: "?m \<in> insert 0 {0 ..< length loads}"
    "\<forall>i \<in> insert 0 {0 ..< length loads}. (loads ! ?m, - candidate_score_at index candidates ?m) \<le> (loads ! i, - candidate_score_at index candidates i)"
    using min by (simp_all add: least_loaded_def Let_def)
  show "?m < length loads" using m(1) assms by auto
  show "loads ! ?m \<le> loads ! i" if "i < length loads"
    using bspec [OF m(2), of i] that by (auto simp: less_eq_prod_def)
qed

text \<open>As long as fewer are placed than the shares of all add up to, somebody is under the share.\<close>

lemma someone_under:
  assumes "sum_list loads < length loads * share"
  shows "\<exists>i < length loads. loads ! i < share"
proof (rule ccontr)
  assume "\<not> ?thesis"
  then have none: "\<not> loads ! i < share" if "i < length loads" for i using that by blast
  have "\<forall>l \<in> set loads. share \<le> l"
  proof
    fix l
    assume "l \<in> set loads"
    then obtain i where "i < length loads" "l = loads ! i" by (auto simp: in_set_conv_nth)
    then show "share \<le> l" using none [of i] by simp
  qed
  then have "length loads * share \<le> sum_list loads" by (induction loads) auto
  with assms show False by simp
qed

lemma div_ceil_times: "0 < b \<Longrightarrow> a \<le> b * div_ceil a b"
proof -
  assume b: "0 < b"
  have split: "a = b * (a div b) + a mod b" by simp
  have "a mod b < b" using b by simp
  then have "a \<le> b * (a div b) + b" using split by linarith
  then show ?thesis using split by (auto simp: div_ceil_def algebra_simps)
qed

lemma under_share_Some:
  "under_share index loads share cs = Some (i, reason, score) \<Longrightarrow>
     loads ! i < share \<and> (\<exists>c \<in> set cs. index (ca_login c) = Some i \<and> reason = ca_reason c \<and> score = ca_score c)"
  by (induction cs) (auto split: option.splits if_splits)

lemma under_share_None:
  "under_share index loads share cs = None \<Longrightarrow> c \<in> set cs \<Longrightarrow> index (ca_login c) = Some i \<Longrightarrow> share \<le> loads ! i"
  by (induction cs) (auto split: option.splits if_splits)

section \<open>Placing\<close>

definition given :: "Decision list \<Rightarrow> string \<Rightarrow> nat" where
  "given decisions login = length (filter (\<lambda>d. de_assignee d = login) decisions)"

definition in_range :: "nat \<Rightarrow> (string \<Rightarrow> nat option) \<Rightarrow> bool" where
  "in_range n index \<longleftrightarrow> (\<forall>login i. index login = Some i \<longrightarrow> i < n)"

definition enough :: "nat \<Rightarrow> nat list \<Rightarrow> Pending list \<Rightarrow> bool" where
  "enough share loads ps \<longleftrightarrow> loads \<noteq> [] \<and> sum_list loads + length ps \<le> length loads * share"

lemma chosen_under_share:
  assumes "in_range (length loads) index" "enough share loads (p # ps)" "chosen index loads share cs = (i, reason, score)"
  shows "i < length loads" "loads ! i < share"
proof -
  have "i < length loads \<and> loads ! i < share"
  proof (cases "under_share index loads share cs")
    case None
    then have i: "i = least_loaded index loads cs" using assms(3) by (simp add: chosen_def Let_def)
    obtain j where "j < length loads" "loads ! j < share"
      using someone_under [of loads share] assms(2) by (auto simp: enough_def)
    then show ?thesis
      using least_loaded_least(1) [of loads index cs] least_loaded_least(2) [of loads j index cs] assms(2) i
      by (auto simp: enough_def)
  next
    case (Some choice)
    then show ?thesis using assms(1,3) under_share_Some [of index loads share cs i reason score]
      by (auto simp: chosen_def in_range_def)
  qed
  then show "i < length loads" "loads ! i < share" by simp_all
qed

lemma enough_step: "enough share loads (p # ps) \<Longrightarrow> i < length loads \<Longrightarrow> enough share (loads[i := loads ! i + 1]) ps"
  by (auto simp: enough_def sum_list_update)

lemma given_Cons: "given (d # ds) login = (if de_assignee d = login then 1 else 0) + given ds login"
  by (simp add: given_def)

lemma login_eq_iff: "distinct (map f xs) \<Longrightarrow> i < length xs \<Longrightarrow> j < length xs \<Longrightarrow> f (xs ! i) = f (xs ! j) \<longleftrightarrow> i = j"
  using nth_eq_iff_index_eq [of "map f xs" i j] by simp

lemma place_all_bounded:
  assumes "distinct (map dv_login developers)" "in_range (length developers) index" "j < length developers"
  shows "length loads = length developers \<Longrightarrow> enough share loads ps \<Longrightarrow>
    loads ! j + given (place_all index developers share loads ps) (dv_login (developers ! j)) \<le> max (loads ! j) share"
proof (induction ps arbitrary: loads)
  case (Cons p ps)
  obtain i reason score where c: "chosen index loads share (pe_candidates p) = (i, reason, score)"
    by (cases "chosen index loads share (pe_candidates p)") auto
  have i: "i < length developers" "loads ! i < share"
    using chosen_under_share [OF _ Cons.prems(2) c] assms(2) Cons.prems(1) by simp_all
  have "enough share (loads[i := loads ! i + 1]) ps" using enough_step [OF Cons.prems(2)] i Cons.prems(1) by simp
  from Cons.IH [OF _ this] show ?case
    using Cons.prems(1) i assms(3) login_eq_iff [OF assms(1) i(1) assms(3)]
    by (auto simp: c given_Cons nth_list_update max_def split: if_splits)
qed (simp add: given_def)

definition decided_soundly ::
  "(string \<Rightarrow> nat option) \<Rightarrow> Developer list \<Rightarrow> nat \<Rightarrow> nat list \<Rightarrow> Decision list \<Rightarrow> Pending \<Rightarrow> Decision \<Rightarrow> bool" where
  "decided_soundly index developers share loads ds p d \<longleftrightarrow>
     de_key d = pe_key p \<and> de_assignee d \<in> dv_login ` set developers \<and>
     (list_ex (\<lambda>c. map_option (\<lambda>i. dv_login (developers ! i)) (index (ca_login c)) = Some (de_assignee d) \<and>
          de_reason d = ca_reason c \<and> de_score d = ca_score c) (pe_candidates p) \<or>
      de_reason d = Load \<and>
      list_all (\<lambda>c. case index (ca_login c) of
          None \<Rightarrow> True
        | Some j \<Rightarrow> share \<le> loads ! j + given ds (dv_login (developers ! j))) (pe_candidates p))"

lemma decided_soundly_mono:
  assumes "decided_soundly index developers share loads' ds' p d"
    "\<And>login j. index login = Some j \<Longrightarrow>
      loads' ! j + given ds' (dv_login (developers ! j)) \<le> loads ! j + given ds (dv_login (developers ! j))"
  shows "decided_soundly index developers share loads ds p d"
  using assms unfolding decided_soundly_def by (fastforce simp: list_all_iff split: option.splits intro: order_trans)

lemma place_all_sound:
  assumes "distinct (map dv_login developers)" "in_range (length developers) index"
  shows "length loads = length developers \<Longrightarrow> enough share loads ps \<Longrightarrow>
    list_all2 (decided_soundly index developers share loads (place_all index developers share loads ps)) ps
      (place_all index developers share loads ps)"
proof (induction ps arbitrary: loads)
  case (Cons p ps)
  obtain i reason score where c: "chosen index loads share (pe_candidates p) = (i, reason, score)"
    by (cases "chosen index loads share (pe_candidates p)") auto
  have i: "i < length developers"
    using chosen_under_share [OF _ Cons.prems(2) c] assms(2) Cons.prems(1) by simp_all
  let ?loads = "loads[i := loads ! i + 1]"
  let ?rest = "place_all index developers share ?loads ps"
  let ?d = "\<lparr>de_key = pe_key p, de_assignee = dv_login (developers ! i), de_reason = reason, de_score = score\<rparr>"
  have same: "?loads ! j + given ?rest (dv_login (developers ! j)) = loads ! j + given (?d # ?rest) (dv_login (developers ! j))"
    if "j < length developers" for j
    using that i Cons.prems(1) login_eq_iff [OF assms(1) i that] by (auto simp: given_Cons nth_list_update)
  have "enough share ?loads ps" using enough_step [OF Cons.prems(2)] i Cons.prems(1) by simp
  from Cons.IH [OF _ this] have IH: "list_all2 (decided_soundly index developers share ?loads ?rest) ps ?rest"
    using Cons.prems(1) by simp
  have rest: "list_all2 (decided_soundly index developers share loads (?d # ?rest)) ps ?rest"
    using IH
  proof (rule list_all2_mono)
    fix q e
    assume "decided_soundly index developers share ?loads ?rest q e"
    then show "decided_soundly index developers share loads (?d # ?rest) q e"
      by (rule decided_soundly_mono) (use same assms(2) in \<open>auto simp: in_range_def\<close>)
  qed
  have "decided_soundly index developers share loads (?d # ?rest) p ?d"
  proof (cases "under_share index loads share (pe_candidates p)")
    case None
    then have "reason = Load" using c by (simp add: chosen_def Let_def)
    then show ?thesis using i under_share_None [OF None]
      by (auto simp: decided_soundly_def list_all_iff trans_le_add1 split: option.splits)
  next
    case (Some choice)
    then have "under_share index loads share (pe_candidates p) = Some (i, reason, score)" using c by (simp add: chosen_def)
    from under_share_Some [OF this] show ?thesis using i by (auto simp: decided_soundly_def list_ex_iff)
  qed
  then show ?case using rest by (simp add: c)
qed simp

section \<open>What the balancer promises\<close>

text \<open>How many of the held pull requests a developer holds.\<close>

definition holds :: "(string \<Rightarrow> string) \<Rightarrow> Roster \<Rightarrow> string list \<Rightarrow> string \<Rightarrow> nat" where
  "holds lower roster held login = length (filter (finds lower roster login) held)"

definition share_of :: "(string \<Rightarrow> string) \<Rightarrow> Balancer \<Rightarrow> Pending list \<Rightarrow> string list \<Rightarrow> nat" where
  "share_of lower b pending held = fair_share (ba_tolerance b) (held_loads lower (ba_roster b) held) pending"

lemma held_loads_length [simp]: "length (held_loads lower roster held) = length (ro_developers roster)"
proof -
  have "length (fold (\<lambda>login loads. case developer_index lower roster login of None \<Rightarrow> loads | Some i \<Rightarrow> loads[i := loads ! i + 1])
      held loads) = length loads" for loads
    by (induction held arbitrary: loads) (simp_all split: option.splits)
  from this [of "replicate (length (ro_developers roster)) 0"] show ?thesis
    unfolding held_loads_def length_replicate .
qed

lemma held_loads_holds:
  assumes "roster_ok lower roster" "i < length (ro_developers roster)"
  shows "held_loads lower roster held ! i = holds lower roster held (dv_login (ro_developers roster ! i))"
proof -
  have "fold (\<lambda>login loads. case developer_index lower roster login of None \<Rightarrow> loads | Some i \<Rightarrow> loads[i := loads ! i + 1])
      held loads ! i = loads ! i + holds lower roster held (dv_login (ro_developers roster ! i))"
    if "length loads = length (ro_developers roster)" for loads
    using that
  proof (induction held arbitrary: loads)
    case (Cons login held)
    show ?case
    proof (cases "developer_index lower roster login")
      case None
      then show ?thesis using Cons developer_index_finds [OF assms, of login] by (simp add: holds_def)
    next
      case (Some j)
      then show ?thesis
        using Cons.IH [of "loads[j := loads ! j + 1]"] Cons.prems assms(2) developer_index_finds [OF assms, of login]
          developer_index_Some [OF Some]
        by (auto simp: holds_def nth_list_update)
    qed
  qed (simp add: holds_def)
  then show ?thesis using assms(2) by (simp add: held_loads_def)
qed

lemma logins_distinct: "roster_ok lower roster \<Longrightarrow> distinct (map dv_login (ro_developers roster))"
  using roster_ok_distinct [of lower roster] by (auto simp: distinct_map dest: inj_on_imageI2)

lemma index_in_range: "in_range (length (ro_developers roster)) (developer_index lower roster)"
  using developer_index_Some by (auto simp: in_range_def)

lemma share_enough:
  assumes "ro_developers (ba_roster b) \<noteq> []" "mset ps = mset pending"
  shows "enough (share_of lower b pending held) (held_loads lower (ba_roster b) held) ps"
proof -
  let ?n = "length (ro_developers (ba_roster b))" and ?loads = "held_loads lower (ba_roster b) held"
  have size: "length ps = length pending" using assms(2) by (metis size_mset)
  have "sum_list ?loads + length pending \<le> ?n * div_ceil (sum_list ?loads + length pending) ?n"
    using assms(1) by (intro div_ceil_times) simp
  also have "\<dots> \<le> ?n * share_of lower b pending held" by (simp add: share_of_def fair_share_def)
  finally show ?thesis using assms(1) size by (auto simp: enough_def dest: arg_cong [where f = length])
qed

lemma assign_placed:
  "ro_developers (ba_roster b) \<noteq> [] \<Longrightarrow>
     balancer_assign lower b pending held =
       place_all (developer_index lower (ba_roster b)) (ro_developers (ba_roster b)) (share_of lower b pending held)
         (held_loads lower (ba_roster b) held) (sort_key (\<lambda>p. (- best_score p, pe_key p)) pending)"
  by (simp add: balancer_assign_def share_of_def Let_def)

text \<open>
  Property C11. Nobody is given a pull request beyond the fair share: whoever is given any holds at most the fair share
  afterwards, the ones already held included, and who held more than that is given none.
\<close>

theorem nobody_beyond_fair_share:
  assumes "roster_ok lower (ba_roster b)" "d \<in> set (ro_developers (ba_roster b))"
  shows "holds lower (ba_roster b) held (dv_login d) + given (balancer_assign lower b pending held) (dv_login d)
    \<le> max (holds lower (ba_roster b) held (dv_login d)) (share_of lower b pending held)"
proof -
  obtain j where j: "j < length (ro_developers (ba_roster b))" "d = ro_developers (ba_roster b) ! j"
    using assms(2) by (auto simp: in_set_conv_nth)
  then have some: "ro_developers (ba_roster b) \<noteq> []" by auto
  have "mset (sort_key (\<lambda>p. (- best_score p, pe_key p)) pending) = mset pending" by simp
  then show ?thesis
    unfolding assign_placed [OF some] j(2) held_loads_holds [OF assms(1) j(1), symmetric]
    by (intro place_all_bounded logins_distinct [OF assms(1)] index_in_range j(1) held_loads_length share_enough [OF some])
qed

text \<open>A developer who ends up with at least the fair share.\<close>

definition at_share :: "(string \<Rightarrow> string) \<Rightarrow> Balancer \<Rightarrow> Pending list \<Rightarrow> string list \<Rightarrow> Developer \<Rightarrow> bool" where
  "at_share lower b pending held d \<longleftrightarrow>
     share_of lower b pending held
       \<le> holds lower (ba_roster b) held (dv_login d) + given (balancer_assign lower b pending held) (dv_login d)"

text \<open>The decision names a candidate, or all candidates on the roster are at the share.\<close>

definition owner_unless_full :: "(string \<Rightarrow> string) \<Rightarrow> Balancer \<Rightarrow> Pending list \<Rightarrow> string list \<Rightarrow> Pending \<Rightarrow> Decision \<Rightarrow> bool" where
  "owner_unless_full lower b pending held p d \<longleftrightarrow>
     list_ex (\<lambda>c. finds lower (ba_roster b) (de_assignee d) (ca_login c) \<and> de_reason d = ca_reason c \<and>
       de_score d = ca_score c) (pe_candidates p) \<or>
     de_reason d = Load \<and>
     list_all (\<lambda>c. list_all (\<lambda>dv. finds lower (ba_roster b) (dv_login dv) (ca_login c) \<longrightarrow> at_share lower b pending held dv)
       (ro_developers (ba_roster b))) (pe_candidates p)"

lemma sound_owner_unless_full:
  assumes "roster_ok lower (ba_roster b)"
    and sound: "decided_soundly (developer_index lower (ba_roster b)) (ro_developers (ba_roster b)) (share_of lower b pending held)
      (held_loads lower (ba_roster b) held) (balancer_assign lower b pending held) p d"
  shows "owner_unless_full lower b pending held p d"
proof (cases "de_reason d = Load \<and> list_all (\<lambda>c. case developer_index lower (ba_roster b) (ca_login c) of
          None \<Rightarrow> True
        | Some j \<Rightarrow> share_of lower b pending held \<le> held_loads lower (ba_roster b) held ! j +
            given (balancer_assign lower b pending held) (dv_login (ro_developers (ba_roster b) ! j))) (pe_candidates p)")
  case True
  have "at_share lower b pending held dv"
    if c: "c \<in> set (pe_candidates p)" "dv \<in> set (ro_developers (ba_roster b))" "finds lower (ba_roster b) (dv_login dv) (ca_login c)" for c dv
  proof -
    obtain j where j: "j < length (ro_developers (ba_roster b))" "dv = ro_developers (ba_roster b) ! j"
      using c(2) by (auto simp: in_set_conv_nth)
    then have "developer_index lower (ba_roster b) (ca_login c) = Some j"
      using developer_index_finds [OF assms(1) j(1)] c(3) by simp
    then show ?thesis
      using True c(1) held_loads_holds [OF assms(1) j(1)] by (auto simp: at_share_def list_all_iff j(2))
  qed
  then show ?thesis using True by (simp add: owner_unless_full_def list_all_iff)
next
  case False
  then have "list_ex (\<lambda>c. map_option (\<lambda>i. dv_login (ro_developers (ba_roster b) ! i)) (developer_index lower (ba_roster b) (ca_login c)) =
      Some (de_assignee d) \<and> de_reason d = ca_reason c \<and> de_score d = ca_score c) (pe_candidates p)"
    using sound unfolding decided_soundly_def by argo
  then show ?thesis by (auto simp: owner_unless_full_def list_ex_iff dest!: developer_index_Some)
qed

text \<open>
  Property C30. Every pull request that waits for an assignee is given to a developer of the roster, and owners keep it
  unless they are at the fair share: the decision names one of its candidates, with that candidate's reason and
  score, or all its candidates on the roster end up with at least the fair share.
\<close>

theorem owners_first:
  assumes "roster_ok lower (ba_roster b)" "ro_developers (ba_roster b) \<noteq> []"
  shows "\<exists>ps. mset ps = mset pending \<and> sorted (map (\<lambda>p. (- best_score p, pe_key p)) ps) \<and>
    list_all2 (\<lambda>p d. de_key d = pe_key p \<and> de_assignee d \<in> dv_login ` set (ro_developers (ba_roster b)) \<and>
      owner_unless_full lower b pending held p d) ps (balancer_assign lower b pending held)"
proof (intro exI [of _ "sort_key (\<lambda>p. (- best_score p, pe_key p)) pending"] conjI)
  let ?r = "ba_roster b"
  have "list_all2 (decided_soundly (developer_index lower ?r) (ro_developers ?r) (share_of lower b pending held)
      (held_loads lower ?r held) (balancer_assign lower b pending held))
      (sort_key (\<lambda>p. (- best_score p, pe_key p)) pending) (balancer_assign lower b pending held)"
    unfolding assign_placed [OF assms(2)]
    by (intro place_all_sound logins_distinct [OF assms(1)] index_in_range held_loads_length share_enough [OF assms(2)]) simp
  then show "list_all2 (\<lambda>p d. de_key d = pe_key p \<and> de_assignee d \<in> dv_login ` set (ro_developers ?r) \<and>
      owner_unless_full lower b pending held p d)
      (sort_key (\<lambda>p. (- best_score p, pe_key p)) pending) (balancer_assign lower b pending held)"
    by (rule list_all2_mono) (use sound_owner_unless_full [OF assms(1)] in \<open>auto simp: decided_soundly_def\<close>)
qed simp_all

text \<open>
  The same open pull requests always get the same assignees: the order in which they are handed to the
  balancer does not matter, as long as they have different URLs.
\<close>

theorem assignments_ignore_order:
  assumes "distinct (map pe_key pending)" "mset pending' = mset pending"
  shows "balancer_assign lower b pending' held = balancer_assign lower b pending held"
proof -
  let ?key = "\<lambda>p. (- best_score p, pe_key p)"
  have "inj_on ?key (set pending')"
    using assms by (metis (mono_tags, lifting) distinct_map inj_on_def prod.inject set_mset_mset)
  then have "sort_key ?key pending' = sort_key ?key (sort_key ?key pending)"
    using assms(2) sort_key_inj_key_eq [of pending' "sort_key ?key pending" ?key] by (simp add: sort_key_id_if_sorted)
  then have sorted: "sort_key ?key pending' = sort_key ?key pending" by (simp add: sort_key_id_if_sorted)
  have "length pending' = length pending" using assms(2) by (metis size_mset)
  then show ?thesis by (simp add: balancer_assign_def fair_share_def sorted Let_def)
qed

section \<open>Examples\<close>

definition example_balancer :: Balancer where
  "example_balancer = \<lparr>ba_roster = example_roster, ba_tolerance = 0\<rparr>"

definition example_pending :: "Pending list" where
  "example_pending =
     [\<lparr>pe_key = ''u1'', pe_candidates = [\<lparr>ca_login = ''amy'', ca_score = 40, ca_reason = CodeOwner\<rparr>]\<rparr>,
      \<lparr>pe_key = ''u2'', pe_candidates = [\<lparr>ca_login = ''amy'', ca_score = 40, ca_reason = CodeOwner\<rparr>]\<rparr>]"

lemma example_balancer_ok:
  "roster_ok id (ba_roster example_balancer)" "ro_developers (ba_roster example_balancer) \<noteq> []"
  "developer_new ''amy'' \<in> set (ro_developers (ba_roster example_balancer))"
  by (simp_all add: example_balancer_def example_roster_ok) (simp_all add: example_roster)

lemma nobody_beyond_fair_share_witness:
  "holds id example_roster [''amy''] ''amy'' + given (balancer_assign id example_balancer example_pending [''amy'']) ''amy''
    \<le> max (holds id example_roster [''amy''] ''amy'') (share_of id example_balancer example_pending [''amy''])"
  using nobody_beyond_fair_share [OF example_balancer_ok(1,3), of "[''amy'']" example_pending]
  by (simp add: example_balancer_def developer_new_def)

lemma owners_first_witness:
  "\<exists>ps. mset ps = mset example_pending \<and> sorted (map (\<lambda>p. (- best_score p, pe_key p)) ps) \<and>
    list_all2 (\<lambda>p d. de_key d = pe_key p \<and> de_assignee d \<in> dv_login ` set (ro_developers (ba_roster example_balancer)) \<and>
      owner_unless_full id example_balancer example_pending [''amy''] p d) ps
      (balancer_assign id example_balancer example_pending [''amy''])"
  by (rule owners_first [OF example_balancer_ok(1,2)])

lemma assignments_ignore_order_witness:
  "balancer_assign id example_balancer (rev example_pending) [''amy''] = balancer_assign id example_balancer example_pending [''amy'']"
  by (rule assignments_ignore_order) (simp_all add: example_pending_def)

end
