(* ===== verification/Deliveries.thy ===== *)
theory Deliveries
  imports Pull_Requests
begin

text \<open>
  Who a notification about pull requests reached, \<open>crates/claudear-integrations/src/notifier/delivery.rs\<close>, and how
  the channels of \<open>notifier/mod.rs\<close> report it: the messages of a digest sent one assignee at a time, and the composite
  of all channels. Sending a message is an operation on an arbitrary state; the channels of a composite are asked
  at the same time and answer independently, so a composite is given by their answers.
\<close>

section \<open>Deliveries\<close>

datatype PingDelivery = Delivered | Local

definition ping_accepted :: "bool \<Rightarrow> PingDelivery" where
  "ping_accepted local = (if local then Local else Delivered)"

text \<open>The URLs of the pull requests in a digest that were delivered.\<close>

type_synonym DigestDelivery = "string set"

definition delivery_add :: "DigestGroup \<Rightarrow> DigestDelivery \<Rightarrow> DigestDelivery" where
  "delivery_add g delivery = delivery \<union> set (map ps_url (dg_pull_requests g))"

definition digest_accepted :: "Digest \<Rightarrow> bool \<Rightarrow> DigestDelivery" where
  "digest_accepted digest local = (if local then {} else fold delivery_add (dg_groups digest) {})"

definition delivery_merge :: "DigestDelivery \<Rightarrow> DigestDelivery \<Rightarrow> DigestDelivery" where
  "delivery_merge other delivery = delivery \<union> other"

definition delivery_contains :: "DigestDelivery \<Rightarrow> string \<Rightarrow> bool" where
  "delivery_contains delivery url \<longleftrightarrow> url \<in> delivery"

definition delivery_is_empty :: "DigestDelivery \<Rightarrow> bool" where
  "delivery_is_empty delivery \<longleftrightarrow> delivery = {}"

section \<open>A digest, one assignee at a time\<close>

text \<open>The messages of one assignee, up to the first that fails.\<close>

fun send_messages :: "('m \<Rightarrow> ('st, unit) op) \<Rightarrow> 'm list \<Rightarrow> ('st, error option) op" where
  "send_messages send [] = ret None"
| "send_messages send (m # ms) =
     bind_op (catch_op (send m)) (\<lambda>r. case r of Inl e \<Rightarrow> ret (Some e) | Inr _ \<Rightarrow> send_messages send ms)"

fun send_groups ::
  "('m \<Rightarrow> ('st, unit) op) \<Rightarrow> (DigestGroup \<times> 'm list) list \<Rightarrow> DigestDelivery \<Rightarrow> nat \<Rightarrow> error option \<Rightarrow>
     ('st, DigestDelivery \<times> nat \<times> error option) op" where
  "send_groups send [] delivery failed recent = ret (delivery, failed, recent)"
| "send_groups send ((g, ms) # rest) delivery failed recent =
     bind_op (send_messages send ms) (\<lambda>failure.
       case failure of
         None \<Rightarrow> send_groups send rest (delivery_add g delivery) failed recent
       | Some e \<Rightarrow> send_groups send rest delivery (failed + 1) (Some e))"

definition send_each :: "('m \<Rightarrow> ('st, unit) op) \<Rightarrow> (DigestGroup \<times> 'm list) list \<Rightarrow> ('st, DigestDelivery) op" where
  "send_each send groups =
     bind_op (send_groups send groups {} 0 None) (\<lambda>(delivery, failed, recent).
       case recent of
         None \<Rightarrow> ret delivery
       | Some e \<Rightarrow> if failed = length groups then fail e else ret delivery)"

section \<open>All channels\<close>

text \<open>A channel of the composite with its answer: its name, whether it is local, and what it returned.\<close>

record 'a channel_answer =
  ch_name :: string
  ch_local :: bool
  ch_result :: "'a result"

definition accepted_by_remote :: "'a channel_answer list \<Rightarrow> 'a list" where
  "accepted_by_remote answers =
     concat (map (\<lambda>c. case ch_result c of Inl e \<Rightarrow> [] | Inr v \<Rightarrow> if ch_local c then [] else [v]) answers)"

definition failed_remote :: "'a channel_answer list \<Rightarrow> string list" where
  "failed_remote answers =
     concat (map (\<lambda>c. case ch_result c of Inl e \<Rightarrow> if ch_local c then [] else [ch_name c] | Inr v \<Rightarrow> []) answers)"

definition composite_deliver :: "'a channel_answer list \<Rightarrow> 'a list result" where
  "composite_deliver answers =
     (let accepted = accepted_by_remote answers; failed = failed_remote answers
      in if accepted = [] \<and> failed \<noteq> []
         then Inl (Notifier ''composite'' (''no channel delivered the message: '' @ join_with '', '' failed))
         else Inr accepted)"

definition composite_is_local :: "'a channel_answer list \<Rightarrow> bool" where
  "composite_is_local answers \<longleftrightarrow> list_all ch_local answers"

definition composite_notify_assignment :: "PingDelivery channel_answer list \<Rightarrow> PingDelivery result" where
  "composite_notify_assignment answers =
     rmap (\<lambda>accepted. if Delivered \<in> set accepted then Delivered else Local) (composite_deliver answers)"

definition composite_notify_digest :: "DigestDelivery channel_answer list \<Rightarrow> DigestDelivery result" where
  "composite_notify_digest answers =
     rmap (\<lambda>accepted. fold delivery_merge accepted {}) (composite_deliver answers)"

section \<open>What a composite reports\<close>

lemma in_accepted: "v \<in> set (accepted_by_remote answers) \<longleftrightarrow> (\<exists>c \<in> set answers. \<not> ch_local c \<and> ch_result c = Inr v)"
  by (force simp: accepted_by_remote_def split: sum.splits)

lemma no_failed: "failed_remote answers = [] \<longleftrightarrow> (\<forall>c \<in> set answers. \<not> ch_local c \<longrightarrow> (\<exists>v. ch_result c = Inr v))"
proof (induction answers)
  case (Cons c answers)
  then show ?case by (cases "ch_result c") (auto simp: failed_remote_def)
qed (simp add: failed_remote_def)

lemma merged: "fold delivery_merge ds d = d \<union> \<Union> (set ds)"
  by (induction ds arbitrary: d) (auto simp: delivery_merge_def)

text \<open>
  A composite reports a ping as delivered exactly when a channel that reaches people delivered it, and
  fails exactly when some such channel failed and none accepted it: what a local channel does never counts.
\<close>

theorem composite_counts_remote_channels:
  "(composite_notify_assignment answers = Inr Delivered \<longleftrightarrow>
      (\<exists>c \<in> set answers. \<not> ch_local c \<and> ch_result c = Inr Delivered)) \<and>
    ((\<exists>e. composite_notify_assignment answers = Inl e) \<longleftrightarrow>
      (\<exists>c \<in> set answers. \<not> ch_local c \<and> (\<exists>e. ch_result c = Inl e)) \<and>
      (\<nexists>c. c \<in> set answers \<and> \<not> ch_local c \<and> (\<exists>v. ch_result c = Inr v)))"
proof (rule conjI)
  have accepted: "accepted_by_remote answers = [] \<longleftrightarrow> (\<nexists>c. c \<in> set answers \<and> \<not> ch_local c \<and> (\<exists>v. ch_result c = Inr v))"
    using in_accepted [of _ answers] by (metis last_in_set empty_iff list.set(1))
  have fails: "failed_remote answers \<noteq> [] \<longleftrightarrow> (\<exists>c \<in> set answers. \<not> ch_local c \<and> (\<exists>e. ch_result c = Inl e))"
    unfolding no_failed by (metis Inl_Inr_False obj_sumE)
  show "composite_notify_assignment answers = Inr Delivered \<longleftrightarrow>
      (\<exists>c \<in> set answers. \<not> ch_local c \<and> ch_result c = Inr Delivered)"
    unfolding in_accepted [symmetric] composite_notify_assignment_def composite_deliver_def Let_def by auto
  show "(\<exists>e. composite_notify_assignment answers = Inl e) \<longleftrightarrow>
      (\<exists>c \<in> set answers. \<not> ch_local c \<and> (\<exists>e. ch_result c = Inl e)) \<and>
      (\<nexists>c. c \<in> set answers \<and> \<not> ch_local c \<and> (\<exists>v. ch_result c = Inr v))"
    unfolding accepted [symmetric] fails [symmetric]
    by (auto simp: composite_notify_assignment_def composite_deliver_def Let_def)
qed

lemma composite_digest_contains:
  "composite_notify_digest answers = Inr delivery \<Longrightarrow>
     delivery_contains delivery url \<longleftrightarrow> (\<exists>c \<in> set answers. \<not> ch_local c \<and> (\<exists>d. ch_result c = Inr d \<and> url \<in> d))"
proof -
  assume "composite_notify_digest answers = Inr delivery"
  then have "delivery = \<Union> (set (accepted_by_remote answers))"
    by (auto simp: composite_notify_digest_def composite_deliver_def merged Let_def split: if_splits)
  then have "delivery_contains delivery url \<longleftrightarrow> (\<exists>d \<in> set (accepted_by_remote answers). url \<in> d)"
    by (simp add: delivery_contains_def)
  then show ?thesis using in_accepted [of _ answers] by blast
qed

section \<open>What a digest reports\<close>

text \<open>A channel whose answers are arbitrary, with a record of what was sent and what failed.\<close>

definition logging :: "('m \<Rightarrow> 'w \<Rightarrow> unit result \<times> 'w) \<Rightarrow> 'm \<Rightarrow> ('w \<times> ('m \<times> bool) list, unit) op" where
  "logging send m = (\<lambda>(w, ledger). case send m w of
     (Inl e, w') \<Rightarrow> (Inl e, (w', ledger @ [(m, False)])) | (Inr _, w') \<Rightarrow> (Inr (), (w', ledger @ [(m, True)])))"

lemma logging_apply:
  "logging send m (w, ledger) = (case send m w of
     (Inl e, w') \<Rightarrow> (Inl e, (w', ledger @ [(m, False)])) | (Inr _, w') \<Rightarrow> (Inr (), (w', ledger @ [(m, True)])))"
  by (simp add: logging_def)

definition sent_whole :: "('m \<times> bool) list \<Rightarrow> bool \<Rightarrow> DigestGroup \<times> 'm list \<Rightarrow> bool" where
  "sent_whole ledger ok part =
     (if ok then list_all (\<lambda>m. (m, True) \<in> set ledger) (snd part) else list_ex (\<lambda>m. (m, False) \<in> set ledger) (snd part))"

definition urls_of :: "DigestGroup \<Rightarrow> string set" where
  "urls_of g = set (map ps_url (dg_pull_requests g))"

definition urls_sent :: "bool list \<Rightarrow> (DigestGroup \<times> 'm list) list \<Rightarrow> string set" where
  "urls_sent oks groups = \<Union> (set (map2 (\<lambda>ok part. if ok then urls_of (fst part) else {}) oks groups))"

lemma urls_sent_simps [simp]:
  "urls_sent [] [] = {}"
  "urls_sent (ok # oks) (g # gs) = (if ok then urls_of (fst g) else {}) \<union> urls_sent oks gs"
  by (simp_all add: urls_sent_def)

lemma send_messages_logged:
  "send_messages (logging send) ms (w, ledger) = (r, (w', ledger')) \<Longrightarrow>
     set ledger \<subseteq> set ledger' \<and> (\<exists>failure. r = Inr failure \<and> (\<forall>g. sent_whole ledger' (failure = None) (g, ms)))"
proof (induction ms arbitrary: w ledger)
  case (Cons m ms)
  obtain a w1 where a: "send m w = (a, w1)" by force
  show ?case
  proof (cases a)
    case (Inl e)
    with Cons.prems a show ?thesis
      by (auto simp: logging_apply bind_op_def catch_op_def ret_def sent_whole_def)
  next
    case (Inr u)
    with Cons.prems a have "send_messages (logging send) ms (w1, ledger @ [(m, True)]) = (r, (w', ledger'))"
      by (simp add: logging_apply bind_op_def catch_op_def)
    from Cons.IH [OF this] show ?thesis by (auto simp: sent_whole_def split: if_splits)
  qed
qed (simp add: ret_def sent_whole_def)

lemma sent_whole_mono: "sent_whole ledger ok g \<Longrightarrow> set ledger \<subseteq> set ledger' \<Longrightarrow> sent_whole ledger' ok g"
  by (auto simp: sent_whole_def list_all_iff list_ex_iff split: if_splits)

lemma send_groups_logged:
  "send_groups (logging send) groups delivery failed recent (w, ledger) = (r, (w', ledger')) \<Longrightarrow>
     set ledger \<subseteq> set ledger' \<and>
     (\<exists>oks recent'. r = Inr (delivery \<union> urls_sent oks groups, failed + length (filter Not oks), recent') \<and>
        list_all2 (sent_whole ledger') oks groups \<and> (recent' = None \<longleftrightarrow> recent = None \<and> False \<notin> set oks))"
proof (induction groups arbitrary: delivery failed recent w ledger)
  case (Cons part groups)
  obtain g ms where part: "part = (g, ms)" by force
  obtain a w1 log1 where a: "send_messages (logging send) ms (w, ledger) = (a, (w1, log1))" by (metis prod_cases3)
  from send_messages_logged [OF a] obtain failure where
    log1: "set ledger \<subseteq> set log1" and failure: "a = Inr failure" "sent_whole log1 (failure = None) part" by (auto simp: part)
  have rest: "set log1 \<subseteq> set ledger' \<Longrightarrow> sent_whole ledger' (failure = None) part" using failure(2) by (rule sent_whole_mono)
  show ?case
  proof (cases failure)
    case None
    with Cons.prems a failure have "send_groups (logging send) groups (delivery_add g delivery) failed recent (w1, log1) = (r, (w', ledger'))"
      by (simp add: part bind_op_def)
    from Cons.IH [OF this] obtain oks recent' where IH: "set log1 \<subseteq> set ledger'"
      "r = Inr (delivery_add g delivery \<union> urls_sent oks groups, failed + length (filter Not oks), recent')"
      "list_all2 (sent_whole ledger') oks groups" "recent' = None \<longleftrightarrow> recent = None \<and> False \<notin> set oks" by blast
    then show ?thesis using rest log1 None
      by (intro conjI exI [of _ "True # oks"] exI [of _ recent'])
        (auto simp: part delivery_add_def urls_of_def)
  next
    case (Some e)
    with Cons.prems a failure have "send_groups (logging send) groups delivery (failed + 1) (Some e) (w1, log1) = (r, (w', ledger'))"
      by (simp add: part bind_op_def)
    from Cons.IH [OF this] obtain oks recent' where IH: "set log1 \<subseteq> set ledger'"
      "r = Inr (delivery \<union> urls_sent oks groups, failed + 1 + length (filter Not oks), recent')"
      "list_all2 (sent_whole ledger') oks groups" "recent' = None \<longleftrightarrow> Some e = None \<and> False \<notin> set oks" by blast
    then show ?thesis using rest log1 Some
      by (intro conjI exI [of _ "False # oks"] exI [of _ recent']) auto
  qed
qed (auto simp: ret_def)

lemma all_failed: "length (filter Not oks) = length oks \<longleftrightarrow> True \<notin> set oks"
  by (metis (mono_tags, lifting) filter_True length_filter_less list_all_iff nat_neq_iff)

text \<open>
  Property C35. A digest counts as delivered to exactly those assignees whose messages were all sent, however the channel
  answers, and sending it fails only when no assignee got all of theirs.
\<close>

theorem digest_reaches_whole_assignees:
  assumes "send_each (logging send) groups (w, []) = (r, (w', ledger))"
  shows "\<exists>oks. list_all2 (sent_whole ledger) oks groups \<and>
    (case r of
       Inl e \<Rightarrow> groups \<noteq> [] \<and> True \<notin> set oks
     | Inr delivery \<Rightarrow> delivery = urls_sent oks groups \<and> (groups = [] \<or> True \<in> set oks))"
proof -
  obtain a w1 log1 where a: "send_groups (logging send) groups {} 0 None (w, []) = (a, (w1, log1))" by (metis prod_cases3)
  from send_groups_logged [OF a] obtain oks recent' where g:
    "a = Inr (urls_sent oks groups, length (filter Not oks), recent')" "list_all2 (sent_whole log1) oks groups"
    "recent' = None \<longleftrightarrow> False \<notin> set oks" by auto
  have len: "length oks = length groups" using g(2) by (rule list_all2_lengthD)
  have ledger: "log1 = ledger" using assms a g(1) by (auto simp: send_each_def bind_op_def ret_def fail_def split: option.splits if_splits)
  show ?thesis
  proof (intro exI [of _ oks] conjI)
    show "list_all2 (sent_whole ledger) oks groups" using g(2) ledger by simp
    show "case r of Inl e \<Rightarrow> groups \<noteq> [] \<and> True \<notin> set oks
      | Inr delivery \<Rightarrow> delivery = urls_sent oks groups \<and> (groups = [] \<or> True \<in> set oks)"
    proof (cases recent')
      case None
      then have r: "r = Inr (urls_sent oks groups)" using assms a g(1) by (simp add: send_each_def bind_op_def ret_def)
      have "False \<notin> set oks" using g(3) None by simp
      then show ?thesis using r len by (cases oks) auto
    next
      case (Some e)
      have r: "r = (if length (filter Not oks) = length groups then Inl e else Inr (urls_sent oks groups))"
        using assms a g(1) Some by (auto simp: send_each_def bind_op_def ret_def fail_def split: if_splits)
      have "\<not> False \<notin> set oks" using g(3) Some by simp
      then have "groups \<noteq> []" using len by (cases oks) auto
      then show ?thesis using r len all_failed [of oks] by auto
    qed
  qed
qed

definition flaky :: "nat \<Rightarrow> nat \<Rightarrow> unit result \<times> nat" where
  "flaky m n = (if n = 1 then Inl (Network ''reset'') else Inr (), n + 1)"

definition example_messages :: "(DigestGroup \<times> nat list) list" where
  "example_messages = [(example_group, [1, 2]), (example_group, [3])]"

lemma digest_reaches_whole_assignees_witness:
  "\<exists>oks. list_all2 (sent_whole (snd (snd (send_each (logging flaky) example_messages (0, []))))) oks example_messages \<and>
     (case fst (send_each (logging flaky) example_messages (0, [])) of
        Inl e \<Rightarrow> example_messages \<noteq> [] \<and> True \<notin> set oks
      | Inr delivery \<Rightarrow> delivery = urls_sent oks example_messages \<and> (example_messages = [] \<or> True \<in> set oks))"
  by (rule digest_reaches_whole_assignees [where w' = "fst (snd (send_each (logging flaky) example_messages (0, [])))"]) simp

end
