(* ===== verification/Schedules.thy ===== *)
theory Schedules
  imports Pull_Requests
begin

text \<open>
  When scheduled work is due: the report schedules of \<open>crates/claudear-integrations/src/reports/scheduler.rs\<close>, and the
  schedule of the pull request distribution in \<open>crates/claudear-config/src/config.rs\<close>. Instants are nanoseconds since
  1970 in UTC; days are counted from there, and the calendar of \<open>chrono\<close> that names them is a parameter.
\<close>

section \<open>Days\<close>

text \<open>What \<open>date_naive\<close>, \<open>hour\<close>, \<open>weekday\<close> and \<open>num_days_from_monday\<close> of \<open>chrono\<close> are documented to be, in UTC.\<close>

datatype Weekday = Mon | Tue | Wed | Thu | Fri | Sat | Sun

fun num_days_from_monday :: "Weekday \<Rightarrow> int" where
  "num_days_from_monday Mon = 0"
| "num_days_from_monday Tue = 1"
| "num_days_from_monday Wed = 2"
| "num_days_from_monday Thu = 3"
| "num_days_from_monday Fri = 4"
| "num_days_from_monday Sat = 5"
| "num_days_from_monday Sun = 6"

definition nanos_per_hour :: int where
  "nanos_per_hour = 3600 * nanos_per_second"

definition day_of :: "datetime \<Rightarrow> int" where
  "day_of t = t div nanos_per_day"

definition hour_of :: "datetime \<Rightarrow> nat" where
  "hour_of t = nat (t mod nanos_per_day div nanos_per_hour)"

text \<open>Day 0 was a Thursday.\<close>

definition weekday_of :: "datetime \<Rightarrow> Weekday" where
  "weekday_of t = [Mon, Tue, Wed, Thu, Fri, Sat, Sun] ! nat ((day_of t + 3) mod 7)"

text \<open>The calendar: the year, month and day of a day, and the day they name if they name one.\<close>

record calendar =
  cal_date :: "int \<Rightarrow> int \<times> nat \<times> nat"
  cal_day :: "int \<times> nat \<times> nat \<Rightarrow> int option"

definition with_ymd_and_hour :: "calendar \<Rightarrow> int \<times> nat \<times> nat \<Rightarrow> nat \<Rightarrow> datetime option" where
  "with_ymd_and_hour cal date hour =
     (if hour \<le> 23 then map_option (\<lambda>day. day * nanos_per_day + int hour * nanos_per_hour) (cal_day cal date) else None)"

section \<open>Report schedules\<close>

datatype ReportFrequency = Daily | Weekly Weekday | Monthly

definition report_frequency_texts :: "(string \<times> ReportFrequency) list" where
  "report_frequency_texts =
     [(''daily'', Daily), (''weekly'', Weekly Mon),
      (''weekly-mon'', Weekly Mon), (''weekly-monday'', Weekly Mon),
      (''weekly-tue'', Weekly Tue), (''weekly-tuesday'', Weekly Tue),
      (''weekly-wed'', Weekly Wed), (''weekly-wednesday'', Weekly Wed),
      (''weekly-thu'', Weekly Thu), (''weekly-thursday'', Weekly Thu),
      (''weekly-fri'', Weekly Fri), (''weekly-friday'', Weekly Fri),
      (''weekly-sat'', Weekly Sat), (''weekly-saturday'', Weekly Sat),
      (''weekly-sun'', Weekly Sun), (''weekly-sunday'', Weekly Sun),
      (''monthly'', Monthly)]"

definition report_frequency_parse :: "(string \<Rightarrow> string) \<Rightarrow> string \<Rightarrow> ReportFrequency option" where
  "report_frequency_parse lower s = map_of report_frequency_texts (lower s)"

fun report_frequency_to_str :: "ReportFrequency \<Rightarrow> string" where
  "report_frequency_to_str Daily = ''daily''"
| "report_frequency_to_str (Weekly Mon) = ''weekly-monday''"
| "report_frequency_to_str (Weekly Tue) = ''weekly-tuesday''"
| "report_frequency_to_str (Weekly Wed) = ''weekly-wednesday''"
| "report_frequency_to_str (Weekly Thu) = ''weekly-thursday''"
| "report_frequency_to_str (Weekly Fri) = ''weekly-friday''"
| "report_frequency_to_str (Weekly Sat) = ''weekly-saturday''"
| "report_frequency_to_str (Weekly Sun) = ''weekly-sunday''"
| "report_frequency_to_str Monthly = ''monthly''"

record ReportSchedule =
  rs_name :: string
  rs_frequency :: ReportFrequency
  rs_hour :: nat
  rs_enabled :: bool
  rs_last_sent_at :: "datetime option"

definition schedule_daily :: "string \<Rightarrow> nat \<Rightarrow> ReportSchedule" where
  "schedule_daily name hour =
     \<lparr>rs_name = name, rs_frequency = Daily, rs_hour = hour, rs_enabled = True, rs_last_sent_at = None\<rparr>"

definition schedule_weekly :: "string \<Rightarrow> Weekday \<Rightarrow> nat \<Rightarrow> ReportSchedule" where
  "schedule_weekly name day hour =
     \<lparr>rs_name = name, rs_frequency = Weekly day, rs_hour = hour, rs_enabled = True, rs_last_sent_at = None\<rparr>"

definition schedule_monthly :: "string \<Rightarrow> nat \<Rightarrow> ReportSchedule" where
  "schedule_monthly name hour =
     \<lparr>rs_name = name, rs_frequency = Monthly, rs_hour = hour, rs_enabled = True, rs_last_sent_at = None\<rparr>"

definition month_of :: "calendar \<Rightarrow> datetime \<Rightarrow> int \<times> nat" where
  "month_of cal t = (case cal_date cal (day_of t) of (y, m, d) \<Rightarrow> (y, m))"

definition day_of_month :: "calendar \<Rightarrow> datetime \<Rightarrow> nat" where
  "day_of_month cal t = (case cal_date cal (day_of t) of (y, m, d) \<Rightarrow> d)"

definition is_due :: "calendar \<Rightarrow> ReportSchedule \<Rightarrow> datetime \<Rightarrow> bool" where
  "is_due cal schedule now =
     (if \<not> rs_enabled schedule then False
      else if hour_of now \<noteq> rs_hour schedule then False
      else case rs_frequency schedule of
        Daily \<Rightarrow>
          (case rs_last_sent_at schedule of None \<Rightarrow> True | Some recent \<Rightarrow> day_of recent < day_of now)
      | Weekly day \<Rightarrow>
          if weekday_of now \<noteq> day then False
          else (case rs_last_sent_at schedule of None \<Rightarrow> True | Some recent \<Rightarrow> 6 \<le> (now - recent) div nanos_per_day)
      | Monthly \<Rightarrow>
          if day_of_month cal now \<noteq> 1 then False
          else (case rs_last_sent_at schedule of None \<Rightarrow> True | Some recent \<Rightarrow> month_of cal recent \<noteq> month_of cal now))"

definition next_run :: "calendar \<Rightarrow> ReportSchedule \<Rightarrow> datetime \<Rightarrow> datetime" where
  "next_run cal schedule now =
     (let hour = rs_hour schedule; at_hour = \<lambda>date. case with_ymd_and_hour cal date hour of None \<Rightarrow> now | Some t \<Rightarrow> t
      in case rs_frequency schedule of
        Daily \<Rightarrow>
          (let today = at_hour (cal_date cal (day_of now))
           in if now < today then today else today + nanos_per_day)
      | Weekly day \<Rightarrow>
          (let days_until = (num_days_from_monday day - num_days_from_monday (weekday_of now) + 7) mod 7;
               target = at_hour (cal_date cal (day_of (now + days_until * nanos_per_day)))
           in if now < target \<and> days_until = 0 then target
              else if days_until = 0 then target + 7 * nanos_per_day
              else target)
      | Monthly \<Rightarrow>
          (case cal_date cal (day_of now) of (y, m, d) \<Rightarrow>
             if d = 1 \<and> hour_of now < hour then at_hour (y, m, 1)
             else if m = 12 then at_hour (y + 1, 1, 1)
             else at_hour (y, m + 1, 1)))"

text \<open>
  The reports that are due, generated and sent by operations of the caller: a failure ends the check, and the schedules
  before it stay marked as sent. The result is what was returned, the schedules, and the state that is left.
\<close>

fun check_and_send ::
  "calendar \<Rightarrow> datetime \<Rightarrow> (ReportFrequency \<Rightarrow> ('st, 'r) op) \<Rightarrow> ('r \<Rightarrow> ('st, unit) op) \<Rightarrow> ReportSchedule list \<Rightarrow> 'st \<Rightarrow>
     string list result \<times> ReportSchedule list \<times> 'st" where
  "check_and_send cal now generate notify [] s = (Inr [], [], s)"
| "check_and_send cal now generate notify (schedule # schedules) s =
     (if is_due cal schedule now
      then case bind_op (generate (rs_frequency schedule)) notify s of
             (Inl e, s) \<Rightarrow> (Inl e, schedule # schedules, s)
           | (Inr _, s) \<Rightarrow>
               (case check_and_send cal now generate notify schedules s of
                  (r, rest, s) \<Rightarrow> (rmap (\<lambda>sent. rs_name schedule # sent) r, schedule\<lparr>rs_last_sent_at := Some now\<rparr> # rest, s))
      else case check_and_send cal now generate notify schedules s of (r, rest, s) \<Rightarrow> (r, schedule # rest, s))"

section \<open>The schedule of the distribution\<close>

text \<open>Also \<open>crates/claudear-engine/src/watcher.rs\<close>, which turns a configuration into a schedule.\<close>

datatype DigestFrequency = Daily | Weekly Weekday | Monthly

fun weekday_name :: "Weekday \<Rightarrow> string" where
  "weekday_name Mon = ''monday''"
| "weekday_name Tue = ''tuesday''"
| "weekday_name Wed = ''wednesday''"
| "weekday_name Thu = ''thursday''"
| "weekday_name Fri = ''friday''"
| "weekday_name Sat = ''saturday''"
| "weekday_name Sun = ''sunday''"

fun digest_frequency_text :: "DigestFrequency \<Rightarrow> string" where
  "digest_frequency_text DigestFrequency.Daily = ''daily''"
| "digest_frequency_text (DigestFrequency.Weekly day) = ''weekly-'' @ weekday_name day"
| "digest_frequency_text DigestFrequency.Monthly = ''monthly''"

text \<open>\<open>parse_day\<close> is \<open>chrono::Weekday::from_str\<close>.\<close>

definition digest_frequency_from_str ::
  "(string \<Rightarrow> string) \<Rightarrow> (string \<Rightarrow> Weekday option) \<Rightarrow> string \<Rightarrow> string + DigestFrequency" where
  "digest_frequency_from_str lower parse_day v =
     (let normalized = lower (trim v)
      in if normalized = ''daily'' then Inr DigestFrequency.Daily
         else if normalized = ''monthly'' then Inr DigestFrequency.Monthly
         else case Option.bind (strip_prefix ''weekly-'' normalized) parse_day of
           Some day \<Rightarrow> Inr (DigestFrequency.Weekly day)
         | None \<Rightarrow>
             Inl (''unsupported digest_frequency '' @ [CHR 0x27] @ v @ [CHR 0x27] @ '': expected \"daily\", \"monthly\" or \"weekly-<day>\" (e.g. \"weekly-monday\")''))"

record PrDistributionConfig =
  pc_enabled :: bool
  pc_notify_on_open :: bool
  pc_digest :: bool
  pc_digest_frequency :: DigestFrequency
  pc_digest_hour :: nat
  pc_excluded :: "string list"
  pc_tolerance :: nat

definition default_distribution_config :: PrDistributionConfig where
  "default_distribution_config =
     \<lparr>pc_enabled = False, pc_notify_on_open = True, pc_digest = True, pc_digest_frequency = DigestFrequency.Daily,
      pc_digest_hour = 9, pc_excluded = [], pc_tolerance = 0\<rparr>"

definition validate_distribution_config :: "PrDistributionConfig \<Rightarrow> unit result" where
  "validate_distribution_config config =
     (if 23 < pc_digest_hour config
      then Inl (Config (''pr_distribution.digest_hour must be 0-23, got '' @ show_nat (pc_digest_hour config)))
      else Inr ())"

fun report_frequency_of :: "DigestFrequency \<Rightarrow> ReportFrequency" where
  "report_frequency_of DigestFrequency.Daily = ReportFrequency.Daily"
| "report_frequency_of (DigestFrequency.Weekly day) = ReportFrequency.Weekly day"
| "report_frequency_of DigestFrequency.Monthly = ReportFrequency.Monthly"

definition pr_distribution_schedule :: "PrDistributionConfig \<Rightarrow> ReportSchedule option" where
  "pr_distribution_schedule config =
     (if \<not> pc_enabled config then None
      else Some \<lparr>rs_name = ''pr-distribution'', rs_frequency = report_frequency_of (pc_digest_frequency config),
                 rs_hour = pc_digest_hour config, rs_enabled = True, rs_last_sent_at = None\<rparr>)"

record RepetitiveDigestConfig =
  rd_enabled :: bool
  rd_day :: string
  rd_hour :: nat
  rd_min_event_count :: int

definition repetitive_digest_schedule :: "(string \<Rightarrow> string) \<Rightarrow> RepetitiveDigestConfig \<Rightarrow> ReportSchedule option" where
  "repetitive_digest_schedule lower cfg =
     (if \<not> rd_enabled cfg then None
      else Some (schedule_weekly ''repetitive-digest''
        (case report_frequency_parse lower (''weekly-'' @ lower (rd_day cfg)) of
           Some (ReportFrequency.Weekly day) \<Rightarrow> day | _ \<Rightarrow> Mon) (rd_hour cfg)))"

section \<open>The slots of a schedule\<close>

text \<open>The hours a schedule fires in; two instants of one day are in the same one.\<close>

definition in_slot :: "calendar \<Rightarrow> ReportSchedule \<Rightarrow> datetime \<Rightarrow> bool" where
  "in_slot cal schedule t \<longleftrightarrow>
     hour_of t = rs_hour schedule \<and>
     (case rs_frequency schedule of
        ReportFrequency.Daily \<Rightarrow> True
      | ReportFrequency.Weekly day \<Rightarrow> weekday_of t = day
      | ReportFrequency.Monthly \<Rightarrow> day_of_month cal t = 1)"

lemma day_mono: "s \<le> t \<Longrightarrow> day_of s \<le> day_of t"
  by (simp add: day_of_def zdiv_mono1 nanos_per_day_def)

lemma day_split: "t = day_of t * nanos_per_day + t mod nanos_per_day"
  by (simp add: day_of_def)

lemma hour_bounds:
  assumes "hour_of t = h"
  shows "int h * nanos_per_hour \<le> t mod nanos_per_day" "t mod nanos_per_day < (int h + 1) * nanos_per_hour"
proof -
  have "int h = t mod nanos_per_day div nanos_per_hour"
    using assms by (simp add: hour_of_def nanos_per_day_def nanos_per_hour_def pos_imp_zdiv_nonneg_iff flip: assms)
  then show "int h * nanos_per_hour \<le> t mod nanos_per_day" "t mod nanos_per_day < (int h + 1) * nanos_per_hour"
    by (simp_all add: nanos_per_hour_def)
qed

lemma weekday_eq: "weekday_of s = weekday_of t \<longleftrightarrow> (day_of s + 3) mod 7 = (day_of t + 3) mod 7"
proof -
  have "distinct [Mon, Tue, Wed, Thu, Fri, Sat, Sun]" by simp
  then have "weekday_of s = weekday_of t \<longleftrightarrow> nat ((day_of s + 3) mod 7) = nat ((day_of t + 3) mod 7)"
    unfolding weekday_of_def by (rule nth_eq_iff_index_eq) (simp_all add: nat_less_iff)
  then show ?thesis by (simp add: eq_nat_nat_iff)
qed

lemma six_days: "6 \<le> (x :: int) div nanos_per_day \<longleftrightarrow> 6 * nanos_per_day \<le> x"
proof
  assume "6 \<le> x div nanos_per_day"
  moreover have "x = x div nanos_per_day * nanos_per_day + x mod nanos_per_day" "0 \<le> x mod nanos_per_day"
    by (simp_all add: nanos_per_day_def)
  ultimately show "6 * nanos_per_day \<le> x" unfolding nanos_per_day_def by linarith
next
  assume "6 * nanos_per_day \<le> x"
  then have "6 * nanos_per_day div nanos_per_day \<le> x div nanos_per_day"
    by (rule zdiv_mono1) (simp add: nanos_per_day_def)
  then show "6 \<le> x div nanos_per_day" by (simp add: nanos_per_day_def)
qed

lemma same_hour_apart:
  assumes "hour_of s = hour_of t"
  shows "6 \<le> (t - s) div nanos_per_day \<longleftrightarrow> 7 \<le> day_of t - day_of s \<or>
    (day_of t - day_of s = 6 \<and> s mod nanos_per_day \<le> t mod nanos_per_day)"
proof -
  note s = hour_bounds [OF assms] and t = hour_bounds [of t, OF refl]
  have d: "t - s = (day_of t - day_of s) * nanos_per_day + (t mod nanos_per_day - s mod nanos_per_day)"
    using day_split [of s] day_split [of t] by (simp add: algebra_simps)
  have "(6 \<le> (t - s) div nanos_per_day) = (6 * nanos_per_day \<le> t - s)"
    by (rule six_days)
  then show ?thesis unfolding d using s t
    by (auto simp: nanos_per_day_def nanos_per_hour_def)
qed

lemma is_due_in_slot:
  assumes cal: "inj (cal_date cal)"
    and recent: "\<And>r. rs_last_sent_at schedule = Some r \<Longrightarrow> in_slot cal schedule r \<and> r \<le> now"
  shows "is_due cal schedule now \<longleftrightarrow>
    rs_enabled schedule \<and> in_slot cal schedule now \<and> (\<forall>r. rs_last_sent_at schedule = Some r \<longrightarrow> day_of r \<noteq> day_of now)"
proof (cases "rs_last_sent_at schedule")
  case None
  then show ?thesis by (auto simp: is_due_def in_slot_def split: ReportFrequency.splits)
next
  case (Some r)
  have r: "in_slot cal schedule r" "r \<le> now" using recent [OF Some] by simp_all
  note days = day_mono [OF r(2)]
  show ?thesis
  proof (cases "in_slot cal schedule now")
    case True
    show ?thesis
    proof (cases "rs_frequency schedule")
      case Daily
      then show ?thesis using Some True days by (auto simp: is_due_def in_slot_def)
    next
      case (Weekly day)
      then have "hour_of r = hour_of now" "weekday_of r = weekday_of now" using r(1) True by (simp_all add: in_slot_def)
      moreover from this(2) have "day_of now - day_of r = 0 \<or> 7 \<le> day_of now - day_of r"
        using days unfolding weekday_eq by presburger
      ultimately have "6 \<le> (now - r) div nanos_per_day \<longleftrightarrow> day_of r \<noteq> day_of now"
        unfolding same_hour_apart [OF \<open>hour_of r = hour_of now\<close>] by auto
      then show ?thesis using Some True Weekly by (simp add: is_due_def in_slot_def)
    next
      case Monthly
      obtain y m where now: "cal_date cal (day_of now) = (y, m, 1)"
        using True Monthly by (auto simp: in_slot_def day_of_month_def split: prod.splits)
      obtain y' m' where r': "cal_date cal (day_of r) = (y', m', 1)"
        using r(1) Monthly by (auto simp: in_slot_def day_of_month_def split: prod.splits)
      have "month_of cal r \<noteq> month_of cal now \<longleftrightarrow> day_of r \<noteq> day_of now"
        using injD [OF cal, of "day_of r" "day_of now"] now r' by (auto simp: month_of_def)
      then show ?thesis using Some True Monthly by (simp add: is_due_def in_slot_def)
    qed
  qed (auto simp: is_due_def in_slot_def split: ReportFrequency.splits)
qed

section \<open>The next run\<close>

text \<open>What the code relies on of the calendar: it names every day once, and months follow each other.\<close>

definition next_first :: "int \<times> nat \<times> nat \<Rightarrow> int \<times> nat \<times> nat" where
  "next_first = (\<lambda>(y, m, d). if m = 12 then (y + 1, 1, 1) else (y, m + 1, 1))"

definition first_of_month :: "calendar \<Rightarrow> int \<Rightarrow> bool" where
  "first_of_month cal n \<longleftrightarrow> snd (snd (cal_date cal n)) = 1"

definition calendar_ok :: "calendar \<Rightarrow> bool" where
  "calendar_ok cal \<longleftrightarrow>
     (\<forall>n. cal_day cal (cal_date cal n) = Some n) \<and>
     (\<forall>date n. cal_day cal date = Some n \<longrightarrow> cal_date cal n = date) \<and>
     (\<forall>n. \<exists>n'. cal_day cal (next_first (cal_date cal n)) = Some n' \<and> n < n' \<and>
        (\<forall>k. n < k \<and> k < n' \<longrightarrow> \<not> first_of_month cal k))"

lemma calendar_ok_day: "calendar_ok cal \<Longrightarrow> cal_day cal (cal_date cal n) = Some n"
  unfolding calendar_ok_def by blast

lemma calendar_ok_inj: "calendar_ok cal \<Longrightarrow> inj (cal_date cal)"
proof (rule injI)
  fix n k
  assume ok: "calendar_ok cal" and same: "cal_date cal n = cal_date cal k"
  from same have "cal_day cal (cal_date cal n) = cal_day cal (cal_date cal k)" by (rule arg_cong)
  then have "Some n = Some k" unfolding calendar_ok_day [OF ok] .
  then show "n = k" by (rule option.inject [THEN iffD1])
qed

definition at_hour :: "nat \<Rightarrow> int \<Rightarrow> datetime" where
  "at_hour h n = n * nanos_per_day + int h * nanos_per_hour"

definition slot_start :: "calendar \<Rightarrow> ReportSchedule \<Rightarrow> datetime \<Rightarrow> bool" where
  "slot_start cal schedule t \<longleftrightarrow> in_slot cal schedule t \<and> t mod nanos_per_hour = 0"

lemma at_hour_parts:
  assumes "h \<le> 23"
  shows "day_of (at_hour h n) = n" "hour_of (at_hour h n) = h" "at_hour h n mod nanos_per_hour = 0"
    "at_hour h n mod nanos_per_day = int h * nanos_per_hour"
proof -
  have day: "nanos_per_day = 24 * nanos_per_hour" by (simp add: nanos_per_day_def nanos_per_hour_def)
  have small: "0 \<le> int h * nanos_per_hour" "int h * nanos_per_hour < nanos_per_day"
    using assms by (auto simp: day nanos_per_hour_def)
  show "at_hour h n mod nanos_per_day = int h * nanos_per_hour" using small by (simp add: at_hour_def)
  then show "hour_of (at_hour h n) = h" by (simp add: hour_of_def nanos_per_hour_def)
  show "day_of (at_hour h n) = n" using small by (simp add: at_hour_def day_of_def)
  have "at_hour h n = (n * 24 + int h) * nanos_per_hour" by (simp add: at_hour_def day algebra_simps)
  then show "at_hour h n mod nanos_per_hour = 0" by simp
qed

lemma at_hour_less [simp]: "at_hour h n < at_hour h k \<longleftrightarrow> n < k" "at_hour h n \<le> at_hour h k \<longleftrightarrow> n \<le> k"
  by (simp_all add: at_hour_def nanos_per_day_def)

lemma before_at_hour: "day_of t < n \<Longrightarrow> t < at_hour h n"
proof -
  assume "day_of t < n"
  then have "(day_of t + 1) * nanos_per_day \<le> n * nanos_per_day" by (intro mult_right_mono) (simp_all add: nanos_per_day_def)
  moreover have "t mod nanos_per_day < nanos_per_day" "0 \<le> int h * nanos_per_hour"
    by (simp_all add: nanos_per_day_def nanos_per_hour_def)
  ultimately show ?thesis using day_split [of t] by (simp add: at_hour_def algebra_simps)
qed

lemma slot_start_at_hour:
  assumes "slot_start cal schedule t" "rs_hour schedule = h"
  shows "t = at_hour h (day_of t)"
proof -
  have h: "hour_of t = h" using assms by (simp add: slot_start_def in_slot_def)
  have "nanos_per_hour dvd nanos_per_day" by (simp add: nanos_per_day_def nanos_per_hour_def)
  then have "t mod nanos_per_day mod nanos_per_hour = 0"
    using assms(1) by (simp add: slot_start_def mod_mod_cancel)
  moreover have "t mod nanos_per_day div nanos_per_hour = int h"
    using h by (simp add: hour_of_def nanos_per_day_def nanos_per_hour_def pos_imp_zdiv_nonneg_iff flip: h)
  ultimately have "t mod nanos_per_day = int h * nanos_per_hour"
    using div_mult_mod_eq [of "t mod nanos_per_day" nanos_per_hour] by simp
  then show ?thesis using day_split [of t] by (simp add: at_hour_def)
qed

lemma weekday_number: "num_days_from_monday (weekday_of t) = (day_of t + 3) mod 7"
proof -
  let ?k = "(day_of t + 3) mod 7"
  have "0 \<le> ?k" "?k < 7" by simp_all
  then consider "?k = 0" | "?k = 1" | "?k = 2" | "?k = 3" | "?k = 4" | "?k = 5" | "?k = 6" by linarith
  then show ?thesis by cases (simp_all add: weekday_of_def)
qed

lemma weekday_number_inject: "num_days_from_monday d = num_days_from_monday e \<longleftrightarrow> d = e"
  by (cases d; cases e) simp_all

lemma weekday_range: "0 \<le> num_days_from_monday d" "num_days_from_monday d < 7"
  by (cases d; simp)+

lemma with_ymd_at_hour: "h \<le> 23 \<Longrightarrow> cal_day cal date = Some n \<Longrightarrow> with_ymd_and_hour cal date h = Some (at_hour h n)"
  by (simp add: with_ymd_and_hour_def at_hour_def)

text \<open>The days a schedule fires on; its slots start at the hour of these days.\<close>

definition fires_on :: "calendar \<Rightarrow> ReportFrequency \<Rightarrow> int \<Rightarrow> bool" where
  "fires_on cal frequency n \<longleftrightarrow>
     (case frequency of
        ReportFrequency.Daily \<Rightarrow> True
      | ReportFrequency.Weekly day \<Rightarrow> (n + 3) mod 7 = num_days_from_monday day
      | ReportFrequency.Monthly \<Rightarrow> first_of_month cal n)"

lemma slot_start_iff:
  assumes "rs_hour schedule \<le> 23"
  shows "slot_start cal schedule t \<longleftrightarrow>
    t = at_hour (rs_hour schedule) (day_of t) \<and> fires_on cal (rs_frequency schedule) (day_of t)"
proof -
  have "in_slot cal schedule t \<longleftrightarrow> hour_of t = rs_hour schedule \<and> fires_on cal (rs_frequency schedule) (day_of t)"
    by (auto simp: in_slot_def fires_on_def first_of_month_def day_of_month_def weekday_number [symmetric]
        weekday_number_inject split: ReportFrequency.split prod.split)
  then show ?thesis
    using slot_start_at_hour [of cal schedule t "rs_hour schedule"] at_hour_parts [OF assms, of "day_of t"]
    by (metis slot_start_def)
qed

text \<open>The first slot after an instant starts on the first firing day whose slot is still to come.\<close>

lemma first_slot_after:
  assumes "rs_hour schedule \<le> 23" "now < at_hour (rs_hour schedule) n" "fires_on cal (rs_frequency schedule) n"
    and "\<And>k. now < at_hour (rs_hour schedule) k \<Longrightarrow> fires_on cal (rs_frequency schedule) k \<Longrightarrow> n \<le> k"
  shows "slot_start cal schedule (at_hour (rs_hour schedule) n) \<and> now < at_hour (rs_hour schedule) n \<and>
    (\<forall>t. slot_start cal schedule t \<and> now < t \<longrightarrow> at_hour (rs_hour schedule) n \<le> t)"
proof (intro conjI allI impI)
  show "slot_start cal schedule (at_hour (rs_hour schedule) n)"
    unfolding slot_start_iff [OF assms(1)] using assms(3) at_hour_parts(1) [OF assms(1)] by simp
  fix t
  assume t: "slot_start cal schedule t \<and> now < t"
  then have "t = at_hour (rs_hour schedule) (day_of t)" "fires_on cal (rs_frequency schedule) (day_of t)"
    using slot_start_iff [OF assms(1)] by blast+
  moreover from this have "n \<le> day_of t" using t assms(4) [of "day_of t"] by simp
  ultimately show "at_hour (rs_hour schedule) n \<le> t" using at_hour_less(2) by metis
qed (rule assms(2))

lemma day_after_slot: "\<not> now < at_hour h (day_of now) \<Longrightarrow> now < at_hour h k \<Longrightarrow> day_of now < k"
  using at_hour_less(2) [of h k "day_of now"] by (metis less_le_not_le not_le order_less_le_trans)

lemma now_before_hour: "h \<le> 23 \<Longrightarrow> now < at_hour h (day_of now) \<longleftrightarrow> hour_of now < h"
proof -
  assume h: "h \<le> 23"
  note b = hour_bounds [of now "hour_of now", OF refl]
  have "now < at_hour h (day_of now) \<longleftrightarrow> now mod nanos_per_day < int h * nanos_per_hour"
    using day_split [of now] add_less_cancel_left [of "day_of now * nanos_per_day"] unfolding at_hour_def by metis
  also have "\<dots> \<longleftrightarrow> hour_of now < h"
  proof
    assume "now mod nanos_per_day < int h * nanos_per_hour"
    then have "int (hour_of now) * nanos_per_hour < int h * nanos_per_hour" using b(1) by linarith
    then show "hour_of now < h" by (simp add: nanos_per_hour_def)
  next
    assume "hour_of now < h"
    then have "(int (hour_of now) + 1) * nanos_per_hour \<le> int h * nanos_per_hour"
      by (intro mult_right_mono) (simp_all add: nanos_per_hour_def)
    then show "now mod nanos_per_day < int h * nanos_per_hour" using b(2) by linarith
  qed
  finally show ?thesis .
qed

lemma fires_after: "h \<le> 23 \<Longrightarrow> now < at_hour h k \<Longrightarrow> day_of now \<le> k"
  using day_mono [of now "at_hour h k"] at_hour_parts(1) [of h k] by simp

lemma days_until:
  fixes a k n :: int
  assumes "0 \<le> a" "a < 7"
  shows "(k + 3) mod 7 = a \<longleftrightarrow> (k - n - (a - (n + 3) mod 7 + 7) mod 7) mod 7 = 0"
proof -
  have "(k - n - (a - (n + 3) mod 7 + 7) mod 7) mod 7 = (k - n - (a - (n + 3) mod 7 + 7)) mod 7"
    by (rule mod_diff_right_eq)
  also have "\<dots> = ((k - n - a - 7) + (n + 3) mod 7) mod 7" by (simp add: algebra_simps)
  also have "\<dots> = ((k - n - a - 7) + (n + 3)) mod 7" by (rule mod_add_right_eq)
  also have "(k - n - a - 7) + (n + 3) = k + 3 - a + (- 1) * 7" by simp
  also have "(k + 3 - a + (- 1) * 7) mod 7 = (k + 3 - a) mod 7" by (rule mod_mult_self1)
  finally have "(k - n - (a - (n + 3) mod 7 + 7) mod 7) mod 7 = 0 \<longleftrightarrow> 7 dvd k + 3 - a"
    by (simp only: dvd_eq_mod_eq_0)
  also have "\<dots> \<longleftrightarrow> (k + 3) mod 7 = a mod 7" by (rule mod_eq_dvd_iff [symmetric])
  also have "a mod 7 = a" using assms by (rule mod_pos_pos_trivial)
  finally show ?thesis by (rule sym)
qed

lemma day_of_add: "day_of (t + k * nanos_per_day) = day_of t + k"
proof -
  have "nanos_per_day \<noteq> 0" by (simp add: nanos_per_day_def)
  then show ?thesis by (simp add: day_of_def)
qed

lemma next_run_day:
  assumes cal: "calendar_ok cal" and h: "rs_hour schedule \<le> 23"
  shows "\<exists>n. next_run cal schedule now = at_hour (rs_hour schedule) n \<and> now < at_hour (rs_hour schedule) n \<and>
    fires_on cal (rs_frequency schedule) n \<and>
    (\<forall>k. now < at_hour (rs_hour schedule) k \<and> fires_on cal (rs_frequency schedule) k \<longrightarrow> n \<le> k)"
proof -
  let ?h = "rs_hour schedule"
  have named: "with_ymd_and_hour cal (cal_date cal n) ?h = Some (at_hour ?h n)" for n
    by (intro with_ymd_at_hour [OF h] calendar_ok_day [OF cal])
  have later: "at_hour ?h n + k * nanos_per_day = at_hour ?h (n + k)" for n k
    by (simp add: at_hour_def algebra_simps)
  have after: "now < at_hour ?h n" if "day_of now < n" for n using that by (rule before_at_hour)
  show ?thesis
  proof (cases "rs_frequency schedule")
    case Daily
    show ?thesis
    proof (cases "now < at_hour ?h (day_of now)")
      case True
      then show ?thesis using Daily named fires_after [OF h, of now]
        by (intro exI [of _ "day_of now"]) (simp add: next_run_def fires_on_def)
    next
      case False
      then show ?thesis using Daily named after later [of "day_of now" 1]
        by (intro exI [of _ "day_of now + 1"]) (auto simp: next_run_def fires_on_def dest: day_after_slot [OF False])
    qed
  next
    case (Weekly day)
    let ?u = "(num_days_from_monday day - num_days_from_monday (weekday_of now) + 7) mod 7"
    have u: "0 \<le> ?u" "?u < 7" by simp_all
    have day: "day_of (now + ?u * nanos_per_day) = day_of now + ?u"
      by (rule day_of_add)
    have fires: "fires_on cal (rs_frequency schedule) k \<longleftrightarrow> (k - day_of now - ?u) mod 7 = 0" for k
      using days_until [OF weekday_range, of k day "day_of now"] weekday_number [of now]
      unfolding fires_on_def Weekly ReportFrequency.case by simp
    show ?thesis
    proof (cases "?u = 0 \<and> \<not> now < at_hour ?h (day_of now)")
      case True
      have run: "next_run cal schedule now = at_hour ?h (day_of now + 7)"
        using True Weekly named later [of "day_of now" 7] by (simp add: next_run_def)
      have least: "day_of now + 7 \<le> k" if "now < at_hour ?h k" "fires_on cal (rs_frequency schedule) k" for k
        using that True day_after_slot [of now ?h k] unfolding fires by presburger
      show ?thesis
        by (intro exI [of _ "day_of now + 7"] conjI allI impI run after) (use True least in \<open>auto simp: fires\<close>)
    next
      case False
      have run: "next_run cal schedule now = at_hour ?h (day_of now + ?u)"
        using False Weekly named day by (auto simp: next_run_def Let_def)
      have "now < at_hour ?h (day_of now + ?u)"
        using False u(1) after [of "day_of now + ?u"] by (cases "?u = 0") auto
      moreover have "day_of now + ?u \<le> k" if "now < at_hour ?h k" "fires_on cal (rs_frequency schedule) k" for k
        using that fires_after [OF h, of now k] u unfolding fires by presburger
      moreover have "fires_on cal (rs_frequency schedule) (day_of now + ?u)" unfolding fires by simp
      ultimately show ?thesis using run by (intro exI [of _ "day_of now + ?u"]) blast
    qed
  next
    case Monthly
    obtain y m d where date: "cal_date cal (day_of now) = (y, m, d)" by (metis prod_cases3)
    show ?thesis
    proof (cases "d = 1 \<and> hour_of now < ?h")
      case True
      have "next_run cal schedule now = at_hour ?h (day_of now)"
        using True Monthly named [of "day_of now"] by (simp add: next_run_def date Let_def)
      then show ?thesis using True Monthly now_before_hour [OF h] fires_after [OF h, of now]
        by (intro exI [of _ "day_of now"]) (simp add: fires_on_def first_of_month_def date)
    next
      case False
      obtain n' where n': "cal_day cal (next_first (y, m, d)) = Some n'" "day_of now < n'"
        "\<And>k. day_of now < k \<Longrightarrow> k < n' \<Longrightarrow> \<not> first_of_month cal k"
        using cal date unfolding calendar_ok_def by metis
      have "next_run cal schedule now = at_hour ?h n'"
        using False Monthly n'(1) with_ymd_at_hour [OF h] by (auto simp: next_run_def date Let_def next_first_def)
      moreover have "first_of_month cal n'"
        using cal n'(1) by (auto simp: calendar_ok_def first_of_month_def next_first_def split: if_splits)
      moreover have "n' \<le> k" if k: "now < at_hour ?h k" "first_of_month cal k" for k
      proof (cases "k = day_of now")
        case True
        then show ?thesis using False k now_before_hour [OF h] date by (simp add: first_of_month_def)
      next
        case other: False
        then have "day_of now < k" using fires_after [OF h k(1)] by simp
        then show ?thesis using n'(3) [of k] k(2) by (meson not_le)
      qed
      ultimately show ?thesis using Monthly after [OF n'(2)]
        by (intro exI [of _ n']) (simp add: fires_on_def)
    qed
  qed
qed

text \<open>A calendar of thirty-day months: the assumptions about the calendar can hold.\<close>

definition thirty_days :: calendar where
  "thirty_days =
     \<lparr>cal_date = \<lambda>n. (n div 30 div 12, nat (n div 30 mod 12) + 1, nat (n mod 30) + 1),
      cal_day = \<lambda>(y, m, d). if 1 \<le> m \<and> m \<le> 12 \<and> 1 \<le> d \<and> d \<le> 30 then Some ((y * 12 + (int m - 1)) * 30 + (int d - 1)) else None\<rparr>"

lemma thirty_days_day: "cal_day thirty_days (cal_date thirty_days n) = Some n"
proof -
  define m d where "m = n div 30 mod 12" and "d = n mod 30"
  have "0 \<le> m" "m < 12" "0 \<le> d" "d < 30" by (simp_all add: m_def d_def)
  moreover have "(n div 30 div 12 * 12 + m) * 30 + d = n" by (simp add: m_def d_def)
  ultimately show ?thesis by (auto simp: thirty_days_def nat_le_iff simp flip: m_def d_def)
qed

lemma thirty_days_date: "cal_day thirty_days date = Some n \<Longrightarrow> cal_date thirty_days n = date"
proof (cases date)
  case (fields y m d)
  assume "cal_day thirty_days date = Some n"
  then have "1 \<le> m" "m \<le> 12" "1 \<le> d" "d \<le> 30" and n: "n = (y * 12 + (int m - 1)) * 30 + (int d - 1)"
    by (auto simp: thirty_days_def fields split: if_splits)
  moreover from this have "n div 30 = y * 12 + (int m - 1)" "n mod 30 = int d - 1"
    by (intro int_div_pos_eq [where r = "int d - 1"] int_mod_pos_eq [where q = "y * 12 + (int m - 1)"]; simp)+
  moreover from calculation have "(y * 12 + (int m - 1)) div 12 = y" "(y * 12 + (int m - 1)) mod 12 = int m - 1"
    by (intro int_div_pos_eq [where r = "int m - 1"] int_mod_pos_eq [where q = y]; simp)+
  ultimately show ?thesis by (simp add: thirty_days_def fields nat_diff_distrib)
qed

lemma thirty_days_next:
  "cal_day thirty_days (next_first (cal_date thirty_days n)) = Some ((n div 30 + 1) * 30)"
proof -
  define k where "k = n div 30"
  define m where "m = k mod 12"
  have "0 \<le> m" "m < 12" "k div 12 * 12 + m = k" by (simp_all add: m_def)
  then show ?thesis by (cases "m = 11") (auto simp: thirty_days_def next_first_def simp flip: m_def k_def)
qed

lemma thirty_days_ok: "calendar_ok thirty_days"
  unfolding calendar_ok_def
proof (intro conjI allI impI thirty_days_day thirty_days_date exI)
  fix n :: int
  show "cal_day thirty_days (next_first (cal_date thirty_days n)) = Some ((n div 30 + 1) * 30)" by (rule thirty_days_next)
  have "n = n div 30 * 30 + n mod 30" "n mod 30 < 30" by simp_all
  then show "n < (n div 30 + 1) * 30" unfolding distrib_right by linarith
  fix k
  assume "n < k \<and> k < (n div 30 + 1) * 30"
  then have "n < k" "k < (n div 30 + 1) * 30" by simp_all
  have "k mod 30 \<noteq> 0"
  proof
    assume "k mod 30 = 0"
    then have "k = k div 30 * 30" using div_mult_mod_eq [of k 30] by linarith
    moreover have "n div 30 * 30 \<le> n" using div_mult_mod_eq [of n 30] pos_mod_sign [of 30 n] by linarith
    ultimately have "n div 30 * 30 < k div 30 * 30" "k div 30 * 30 < (n div 30 + 1) * 30"
      using \<open>n < k\<close> \<open>k < (n div 30 + 1) * 30\<close> by linarith+
    then show False by simp
  qed
  then have "0 < k mod 30" using pos_mod_sign [of 30 k] by linarith
  then show "\<not> first_of_month thirty_days k" by (simp add: first_of_month_def thirty_days_def)
qed

text \<open>
  Property C33. The next run of a schedule is the start of its first slot after now: it is due there, it lies ahead, and
  no slot of the schedule starts in between.
\<close>

theorem next_run_is_next_slot:
  assumes "calendar_ok cal" "rs_hour schedule \<le> 23"
  shows "slot_start cal schedule (next_run cal schedule now) \<and> now < next_run cal schedule now \<and>
    (\<forall>t. slot_start cal schedule t \<and> now < t \<longrightarrow> next_run cal schedule now \<le> t)"
proof -
  obtain n where "next_run cal schedule now = at_hour (rs_hour schedule) n" "now < at_hour (rs_hour schedule) n"
    "fires_on cal (rs_frequency schedule) n"
    "\<forall>k. now < at_hour (rs_hour schedule) k \<and> fires_on cal (rs_frequency schedule) k \<longrightarrow> n \<le> k"
    using next_run_day [OF assms] by blast
  then show ?thesis using first_slot_after [OF assms(2)] by simp
qed

theorem next_run_is_next_slot_witness:
  "slot_start thirty_days (schedule_weekly ''weekly'' Mon 9) (next_run thirty_days (schedule_weekly ''weekly'' Mon 9) (at_hour 9 4)) \<and>
    at_hour 9 4 < next_run thirty_days (schedule_weekly ''weekly'' Mon 9) (at_hour 9 4) \<and>
    next_run thirty_days (schedule_weekly ''weekly'' Mon 9) (at_hour 9 4) = at_hour 9 11"
  using next_run_is_next_slot [OF thirty_days_ok, of "schedule_weekly ''weekly'' Mon 9" "at_hour 9 4"]
  by (simp add: schedule_weekly_def next_run_def thirty_days_def with_ymd_and_hour_def at_hour_def day_of_def weekday_of_def
      nanos_per_day_def nanos_per_hour_def Let_def)

section \<open>Texts\<close>

text \<open>Reading a frequency back, with any lowercase function that leaves lowercase texts alone.\<close>

lemma report_frequency_round_trip:
  assumes "lower (report_frequency_to_str f) = report_frequency_to_str f"
  shows "report_frequency_parse lower (report_frequency_to_str f) = Some f"
proof (cases f)
  case (Weekly day)
  with assms show ?thesis by (cases day) (simp_all add: report_frequency_parse_def report_frequency_texts_def)
qed (use assms in \<open>simp_all add: report_frequency_parse_def report_frequency_texts_def\<close>)

end
