(* ===== verification/Distributor.thy ===== *)
theory Distributor
  imports Assignments Balancing Deliveries Pr_Url Schedules Security_Domain
begin

text \<open>
  Making one developer responsible for each open pull request, \<open>crates/claudear-integrations/src/distribution/distributor.rs\<close>:
  the assignment of a pull request that was just opened, and the scheduled run that reconciles all of them. The code
  host (\<open>host.rs\<close>) and the notifier are parameters whose answers depend on how often the outside world was asked.
\<close>

section \<open>State and configuration\<close>

record PullRequestHost =
  ho_pull_request :: "nat \<Rightarrow> string \<Rightarrow> int \<Rightarrow> PullRequest result"
  ho_changed_files :: "nat \<Rightarrow> string \<Rightarrow> int \<Rightarrow> string list result"
  ho_codeowners :: "nat \<Rightarrow> string \<Rightarrow> string option result"
  ho_commit_authors :: "nat \<Rightarrow> string \<Rightarrow> string option \<Rightarrow> string list result"

record PingNotifier =
  no_name :: string
  no_pr_assignment :: "nat \<Rightarrow> AssignmentNotice \<Rightarrow> PingDelivery result"
  no_pr_digest :: "nat \<Rightarrow> Digest \<Rightarrow> DigestDelivery result"

record Outcome =
  oc_assigned :: nat
  oc_released :: nat
  oc_closed :: nat
  oc_listed :: nat

text \<open>The distributor; \<open>ds_lower\<close> is \<open>str::to_lowercase\<close>, \<open>ds_regex\<close> the regular expressions of code owners.\<close>

record Distributor =
  ds_roster :: Roster
  ds_tolerance :: nat
  ds_notify_on_open :: bool
  ds_digest :: bool
  ds_host :: PullRequestHost
  ds_notifier :: PingNotifier
  ds_lower :: "string \<Rightarrow> string"
  ds_regex :: regex_library

record Unassigned =
  un_url :: string
  un_pull_request :: PullRequest
  un_previous :: "string option"

record Repositories =
  rp_codeowners :: "string \<Rightarrow> CodeOwners option option"
  rp_authors :: "string \<Rightarrow> string list option"

definition no_repositories :: Repositories where
  "no_repositories = \<lparr>rp_codeowners = (\<lambda>repo. None), rp_authors = (\<lambda>repo. None)\<rparr>"

text \<open>The store, the clock, the number of outside readings so far, and what was sent with the answers to it.\<close>

record distribution =
  di_db :: assignments_db
  di_clock :: "nat \<Rightarrow> datetime"
  di_ticks :: nat
  di_pings :: "(AssignmentNotice \<times> PingDelivery result) list"
  di_digests :: "(Digest \<times> DigestDelivery result) list"

definition outside :: "(nat \<Rightarrow> 'a) \<Rightarrow> (distribution, 'a) op" where
  "outside answer s = (Inr (answer (di_ticks s)), s\<lparr>di_ticks := di_ticks s + 1\<rparr>)"

definition read_store :: "(assignments_db \<Rightarrow> 'a result) \<Rightarrow> (distribution, 'a) op" where
  "read_store q s = (q (di_db s), s)"

text \<open>A writing method of the store, given the reading of the clock.\<close>

definition write_store :: "(datetime \<Rightarrow> (assignments_db, 'a) op) \<Rightarrow> (distribution, 'a) op" where
  "write_store m =
     bind_op (\<lambda>s. outside (di_clock s) s) (\<lambda>now s. case m now (di_db s) of (r, db) \<Rightarrow> (r, s\<lparr>di_db := db\<rparr>))"

definition github_pull_request :: "string \<Rightarrow> (string \<times> int) option" where
  "github_pull_request url =
     (case parse_pr_url url of None \<Rightarrow> None | Some pr \<Rightarrow> if contains_text url ''/pull/'' then Some pr else None)"

section \<open>The distributor a configuration describes\<close>

definition roster_is_empty :: "Roster \<Rightarrow> bool" where
  "roster_is_empty r \<longleftrightarrow> ro_developers r = []"

definition no_mapped :: GitHubDiscordMap where
  "no_mapped = \<lparr>gm_guild_id = None, gm_by_github_login = []\<rparr>"

text \<open>
  \<open>m\<close> is what loading the GitHub to Discord map gave, when its path is configured; a map that fails to load is empty.
\<close>

definition distributor_from_config ::
  "(string \<Rightarrow> string) \<Rightarrow> regex_library \<Rightarrow> PrDistributionConfig \<Rightarrow> UserRegistry \<Rightarrow> GitHubDiscordMap result option \<Rightarrow>
     PullRequestHost option \<Rightarrow> PingNotifier \<Rightarrow> Distributor option" where
  "distributor_from_config lower regex config registry m host notifier =
     (if \<not> pc_enabled config then None
      else case host of
        None \<Rightarrow> None
      | Some h \<Rightarrow>
          (let loaded = (case m of Some (Inr entries) \<Rightarrow> entries | _ \<Rightarrow> no_mapped);
               roster = roster_new lower registry loaded (pc_excluded config)
           in if roster_is_empty roster then None
              else Some \<lparr>ds_roster = roster, ds_tolerance = pc_tolerance config,
                         ds_notify_on_open = pc_notify_on_open config, ds_digest = pc_digest config, ds_host = h,
                         ds_notifier = notifier, ds_lower = lower, ds_regex = regex\<rparr>))"

lemma configured_distributor:
  assumes "distributor_from_config lower regex config registry m host notifier = Some d"
  shows "roster_ok (ds_lower d) (ds_roster d)" "ro_developers (ds_roster d) \<noteq> []"
  using assms new_roster_ok
  by (auto simp: distributor_from_config_def Let_def roster_is_empty_def split: if_splits option.splits)

section \<open>Evidence\<close>

definition or_nothing :: "'a list result \<Rightarrow> 'a list" where
  "or_nothing r = (case r of Inl e \<Rightarrow> [] | Inr xs \<Rightarrow> xs)"

fun outside_all :: "(nat \<Rightarrow> 'a \<Rightarrow> 'b) \<Rightarrow> 'a list \<Rightarrow> (distribution, 'b list) op" where
  "outside_all answer [] = ret []"
| "outside_all answer (x # xs) =
     bind_op (outside (\<lambda>t. answer t x)) (\<lambda>y. bind_op (outside_all answer xs) (\<lambda>ys. ret (y # ys)))"

definition repository_codeowners ::
  "Distributor \<Rightarrow> string \<Rightarrow> Repositories \<Rightarrow> (distribution, CodeOwners option \<times> Repositories) op" where
  "repository_codeowners d repo known =
     (case rp_codeowners known repo of
        Some codeowners \<Rightarrow> ret (codeowners, known)
      | None \<Rightarrow>
          bind_op (outside (\<lambda>t. ho_codeowners (ds_host d) t repo)) (\<lambda>answer.
            let codeowners = (case answer of Inl e \<Rightarrow> None | Inr text \<Rightarrow> map_option (codeowners_parse (ds_regex d)) text)
            in ret (codeowners, known\<lparr>rp_codeowners := (rp_codeowners known)(repo \<mapsto> codeowners)\<rparr>)))"

definition repository_authors ::
  "Distributor \<Rightarrow> string \<Rightarrow> Repositories \<Rightarrow> (distribution, string list \<times> Repositories) op" where
  "repository_authors d repo known =
     (case rp_authors known repo of
        Some authors \<Rightarrow> ret (authors, known)
      | None \<Rightarrow>
          bind_op (outside (\<lambda>t. ho_commit_authors (ds_host d) t repo None)) (\<lambda>answer.
            let authors = or_nothing answer
            in ret (authors, known\<lparr>rp_authors := (rp_authors known)(repo \<mapsto> authors)\<rparr>)))"

definition evidence ::
  "Distributor \<Rightarrow> string \<Rightarrow> int \<Rightarrow> string list \<Rightarrow> Repositories \<Rightarrow> (distribution, Evidence \<times> Repositories) op" where
  "evidence d repo number asked known =
     bind_op (outside (\<lambda>t. ho_changed_files (ds_host d) t repo number)) (\<lambda>answer.
       let files = or_nothing answer in
       bind_op (outside_all (\<lambda>t path. ho_commit_authors (ds_host d) t repo (Some path)) files) (\<lambda>histories.
       bind_op (repository_codeowners d repo known) (\<lambda>(codeowners, known).
       bind_op (repository_authors d repo known) (\<lambda>(authors, known).
         ret (\<lparr>ev_requesters = asked, ev_files = files, ev_codeowners = codeowners,
               ev_file_authors = concat (map or_nothing histories), ev_repository_authors = authors\<rparr>, known)))))"

section \<open>Pings\<close>

definition notify_assignment :: "Distributor \<Rightarrow> AssignmentNotice \<Rightarrow> (distribution, PingDelivery) op" where
  "notify_assignment d notice s =
     (let r = no_pr_assignment (ds_notifier d) (di_ticks s) notice
      in (r, s\<lparr>di_ticks := di_ticks s + 1, di_pings := di_pings s @ [(notice, r)]\<rparr>))"

definition notify_digest :: "Distributor \<Rightarrow> Digest \<Rightarrow> (distribution, DigestDelivery) op" where
  "notify_digest d digest s =
     (let r = no_pr_digest (ds_notifier d) (di_ticks s) digest
      in (r, s\<lparr>di_ticks := di_ticks s + 1, di_digests := di_digests s @ [(digest, r)]\<rparr>))"

definition assignment_summary :: "PullRequest \<Rightarrow> PrAssignment \<Rightarrow> PullRequestSummary" where
  "assignment_summary pr a = (summary_of pr)\<lparr>ps_url := as_pr_url a\<rparr>"

definition ping_assignee :: "Distributor \<Rightarrow> Developer \<Rightarrow> PullRequest \<Rightarrow> PrAssignment \<Rightarrow> (distribution, PingDelivery) op" where
  "ping_assignee d developer pr a =
     bind_op (notify_assignment d
         \<lparr>an_developer = developer, an_pull_request = assignment_summary pr a, an_reason = as_reason a,
          an_previous = as_previous a\<rparr>) (\<lambda>delivery.
       if delivery = Delivered
       then bind_op (write_store (\<lambda>now. mark_pr_assignment_notified now (as_id a))) (\<lambda>_. ret delivery)
       else ret delivery)"

section \<open>A pull request that was just opened\<close>

definition balancer_of :: "Distributor \<Rightarrow> Balancer" where
  "balancer_of d = \<lparr>ba_roster = ds_roster d, ba_tolerance = ds_tolerance d\<rparr>"

definition assignment_of :: "Decision \<Rightarrow> string \<Rightarrow> string \<Rightarrow> int \<Rightarrow> string option \<Rightarrow> datetime \<Rightarrow> PrAssignment" where
  "assignment_of decision url repo number previous now =
     (new_pr_assignment now url repo number (de_assignee decision) (de_reason decision) (de_score decision))
       \<lparr>as_previous := previous\<rparr>"

text \<open>Recording the assignment, and the ping of the caller whose assignment it is; how the ping went is only logged.\<close>

definition record_and_ping ::
  "Distributor \<Rightarrow> string \<Rightarrow> string \<Rightarrow> int \<Rightarrow> PullRequest \<Rightarrow> Decision \<Rightarrow> (distribution, PrAssignment option) op" where
  "record_and_ping d url repo number pr decision =
     bind_op (write_store (\<lambda>now. record_pr_assignment (assignment_of decision url repo number None now))) (\<lambda>stored.
       case stored of
         None \<Rightarrow> read_store (active_pr_assignment url)
       | Some a \<Rightarrow>
           bind_op
             (case roster_find (ds_lower d) (ds_roster d) (as_assignee a) of
                None \<Rightarrow> ret ()
              | Some developer \<Rightarrow> bind_op (catch_op (ping_assignee d developer pr a)) (\<lambda>_. ret ()))
             (\<lambda>_. read_store (active_pr_assignment url)))"

definition assign_opened :: "Distributor \<Rightarrow> string \<Rightarrow> Issue \<Rightarrow> (distribution, PrAssignment option) op" where
  "assign_opened d url issue =
     (if \<not> ds_notify_on_open d \<or> is_source issue = security_fix_source then ret None
      else case github_pull_request url of
        None \<Rightarrow> ret None
      | Some (repo, number) \<Rightarrow>
          bind_op (read_store (active_pr_assignment url)) (\<lambda>existing.
            case existing of
              Some a \<Rightarrow> ret (Some a)
            | None \<Rightarrow>
                bind_op (outside (\<lambda>t. ho_pull_request (ds_host d) t repo number)) (\<lambda>answer.
                bind_op (of_result answer) (\<lambda>pr.
                  if \<not> attention_is_needed (attention (ds_lower d) pr None) then ret None
                  else
                    bind_op (read_store active_pr_assignments) (\<lambda>active.
                    bind_op (evidence d repo number (requesters (ds_lower d) (ds_roster d) issue) no_repositories)
                      (\<lambda>(ev, known).
                      case balancer_assign (ds_lower d) (balancer_of d)
                             [\<lparr>pe_key = url, pe_candidates = rank (ds_lower d) (ds_roster d) ev\<rparr>]
                             (map as_assignee active) of
                        [] \<Rightarrow> ret None
                      | decision # _ \<Rightarrow> record_and_ping d url repo number pr decision))))))"

section \<open>The scheduled run\<close>

text \<open>A \<open>BTreeMap\<close> as its entries in the order of their keys.\<close>

fun btree_insert :: "'k::linorder \<Rightarrow> 'v \<Rightarrow> ('k \<times> 'v) list \<Rightarrow> ('k \<times> 'v) list" where
  "btree_insert k v [] = [(k, v)]"
| "btree_insert k v ((l, w) # rest) =
     (if k < l then (k, v) # (l, w) # rest
      else if k = l then (k, v) # rest
      else (l, w) # btree_insert k v rest)"

definition btree_or_insert :: "'k::linorder \<Rightarrow> 'v \<Rightarrow> ('k \<times> 'v) list \<Rightarrow> ('k \<times> 'v) list" where
  "btree_or_insert k v entries = (if k \<in> set (map fst entries) then entries else btree_insert k v entries)"

type_synonym open_prs = "(string \<times> string \<times> int) list"

definition add_pending :: "FixAttempt \<Rightarrow> open_prs \<Rightarrow> open_prs" where
  "add_pending attempt entries =
     (if at_source attempt = security_fix_source then entries
      else case at_pr_url attempt of
        None \<Rightarrow> entries
      | Some url \<Rightarrow> (case github_pull_request url of None \<Rightarrow> entries | Some pr \<Rightarrow> btree_insert url pr entries))"

definition add_active :: "PrAssignment \<Rightarrow> open_prs \<Rightarrow> open_prs" where
  "add_active a = btree_or_insert (as_pr_url a) (as_repo a, as_pr_number a)"

definition open_pull_requests :: "FixAttempt list \<Rightarrow> PrAssignment list \<Rightarrow> open_prs" where
  "open_pull_requests pending active = fold add_active active (fold add_pending pending [])"

definition active_by_url :: "PrAssignment list \<Rightarrow> string \<Rightarrow> PrAssignment option" where
  "active_by_url active = fold (\<lambda>a m. m(as_pr_url a \<mapsto> a)) active (\<lambda>url. None)"

record Reconciled =
  rc_outcome :: Outcome
  rc_held :: "string list"
  rc_kept :: "(PullRequest \<times> PrAssignment) list"
  rc_unassigned :: "Unassigned list"

definition no_outcome :: Outcome where
  "no_outcome = \<lparr>oc_assigned = 0, oc_released = 0, oc_closed = 0, oc_listed = 0\<rparr>"

definition nothing_reconciled :: Reconciled where
  "nothing_reconciled = \<lparr>rc_outcome = no_outcome, rc_held = [], rc_kept = [], rc_unassigned = []\<rparr>"

definition wait_for :: "Distributor \<Rightarrow> string \<Rightarrow> PullRequest \<Rightarrow> string option \<Rightarrow> Reconciled \<Rightarrow> Reconciled" where
  "wait_for d url pr previous acc =
     (if attention_is_needed (attention (ds_lower d) pr None)
      then acc\<lparr>rc_unassigned := rc_unassigned acc @ [\<lparr>un_url = url, un_pull_request = pr, un_previous = previous\<rparr>]\<rparr>
      else acc)"

definition end_assignment :: "PrAssignment \<Rightarrow> AssignmentStatus \<Rightarrow> (distribution, bool) op" where
  "end_assignment a status = write_store (\<lambda>now. end_pr_assignment now (as_id a) status)"

text \<open>One turn of the loop over the open pull requests.\<close>

definition reconcile_one ::
  "Distributor \<Rightarrow> (string \<Rightarrow> PrAssignment option) \<Rightarrow> string \<times> string \<times> int \<Rightarrow> Reconciled \<Rightarrow> (distribution, Reconciled) op" where
  "reconcile_one d active = (\<lambda>(url, repo, number) acc.
     bind_op (outside (\<lambda>t. ho_pull_request (ds_host d) t repo number)) (\<lambda>answer.
       case answer of
         Inl e \<Rightarrow>
           ret (case active url of None \<Rightarrow> acc | Some a \<Rightarrow> acc\<lparr>rc_held := rc_held acc @ [as_assignee a]\<rparr>)
       | Inr pr \<Rightarrow>
           if attention_is_finished (attention (ds_lower d) pr None)
           then (case active url of
                   None \<Rightarrow> ret acc
                 | Some a \<Rightarrow>
                     bind_op (end_assignment a Closed_Assignment) (\<lambda>ended.
                       ret (if ended
                            then acc\<lparr>rc_outcome := (rc_outcome acc)\<lparr>oc_closed := oc_closed (rc_outcome acc) + 1\<rparr>\<rparr>
                            else acc)))
           else (case active url of
                   None \<Rightarrow> ret (wait_for d url pr None acc)
                 | Some a \<Rightarrow>
                     if roster_find (ds_lower d) (ds_roster d) (as_assignee a) \<noteq> None
                     then ret (acc\<lparr>rc_held := rc_held acc @ [as_assignee a], rc_kept := rc_kept acc @ [(pr, a)]\<rparr>)
                     else
                       bind_op (end_assignment a Released) (\<lambda>ended.
                         ret (wait_for d url pr (Some (as_assignee a))
                           (if ended
                            then acc\<lparr>rc_outcome := (rc_outcome acc)\<lparr>oc_released := oc_released (rc_outcome acc) + 1\<rparr>\<rparr>
                            else acc))))))"

fun reconcile ::
  "Distributor \<Rightarrow> (string \<Rightarrow> PrAssignment option) \<Rightarrow> open_prs \<Rightarrow> Reconciled \<Rightarrow> (distribution, Reconciled) op" where
  "reconcile d active [] acc = ret acc"
| "reconcile d active (pr # prs) acc = bind_op (reconcile_one d active pr acc) (reconcile d active prs)"

fun gather :: "Distributor \<Rightarrow> Unassigned list \<Rightarrow> Repositories \<Rightarrow> (distribution, Pending list) op" where
  "gather d [] known = ret []"
| "gather d (item # items) known =
     bind_op (evidence d (pr_repo (un_pull_request item)) (pr_number (un_pull_request item)) [] known) (\<lambda>(ev, known).
     bind_op (gather d items known) (\<lambda>ps.
       ret (\<lparr>pe_key = un_url item, pe_candidates = rank (ds_lower d) (ds_roster d) ev\<rparr> # ps)))"

fun record_decisions :: "Unassigned list \<Rightarrow> Decision list \<Rightarrow> (distribution, (PullRequest \<times> PrAssignment) list) op" where
  "record_decisions items [] = ret []"
| "record_decisions items (decision # decisions) =
     (case find (\<lambda>item. un_url item = de_key decision) items of
        None \<Rightarrow> record_decisions items decisions
      | Some item \<Rightarrow>
          bind_op (write_store (\<lambda>now. record_pr_assignment
              (assignment_of decision (un_url item) (pr_repo (un_pull_request item)) (pr_number (un_pull_request item))
                (un_previous item) now))) (\<lambda>stored.
          bind_op (record_decisions items decisions) (\<lambda>rest.
            ret (case stored of None \<Rightarrow> rest | Some a \<Rightarrow> (un_pull_request item, a) # rest))))"

section \<open>Telling the assignees\<close>

definition waiting_on :: "Distributor \<Rightarrow> (PullRequest \<times> PrAssignment) list \<Rightarrow> (string \<times> PullRequestSummary) list" where
  "waiting_on d current =
     concat (map (\<lambda>(pr, a).
       case roster_find (ds_lower d) (ds_roster d) (as_assignee a) of
         None \<Rightarrow> []
       | Some developer \<Rightarrow>
           if attention_is_needed (attention (ds_lower d) pr (Some (dv_login developer)))
           then [(dv_login developer, assignment_summary pr a)] else []) current)"

text \<open>Oldest first, those without a date before all others, ties by URL.\<close>

definition opened_order :: "PullRequestSummary \<Rightarrow> (bool \<times> datetime) \<times> string" where
  "opened_order s = (case ps_opened_at s of None \<Rightarrow> (False, 0) | Some t \<Rightarrow> (True, t), ps_url s)"

fun digest_groups :: "Developer list \<Rightarrow> (string \<times> PullRequestSummary) list \<Rightarrow> DigestGroup list" where
  "digest_groups [] waiting = []"
| "digest_groups (developer # developers) waiting =
     (let mine = map snd (filter (\<lambda>(login, s). login = dv_login developer) waiting)
      in if mine = [] then digest_groups developers waiting
         else \<lparr>dg_developer = developer, dg_pull_requests = sort_key opened_order mine\<rparr>
           # digest_groups developers (filter (\<lambda>(login, s). login \<noteq> dv_login developer) waiting))"

definition digest_of :: "Distributor \<Rightarrow> (PullRequest \<times> PrAssignment) list \<Rightarrow> datetime \<Rightarrow> Digest" where
  "digest_of d current now =
     \<lparr>dg_groups = digest_groups (ro_developers (ds_roster d)) (waiting_on d current), dg_generated_at = now\<rparr>"

definition mark_delivered :: "DigestDelivery \<Rightarrow> PullRequest \<times> PrAssignment \<Rightarrow> (distribution, unit) op" where
  "mark_delivered delivery = (\<lambda>(pr, a).
     if as_notified_at a = None \<and> delivery_contains delivery (as_pr_url a)
     then bind_op (write_store (\<lambda>now. mark_pr_assignment_notified now (as_id a))) (\<lambda>_. ret ())
     else ret ())"

fun ping_all :: "Distributor \<Rightarrow> (PullRequest \<times> PrAssignment) list \<Rightarrow> nat \<Rightarrow> (distribution, nat) op" where
  "ping_all d [] undelivered = ret undelivered"
| "ping_all d ((pr, a) # current) undelivered =
     (if as_notified_at a \<noteq> None then ping_all d current undelivered
      else case roster_find (ds_lower d) (ds_roster d) (as_assignee a) of
        None \<Rightarrow> ping_all d current undelivered
      | Some developer \<Rightarrow>
          bind_op (catch_op (ping_assignee d developer pr a)) (\<lambda>r.
            ping_all d current (case r of Inl e \<Rightarrow> undelivered + 1 | Inr _ \<Rightarrow> undelivered)))"

definition tell_assignees ::
  "Distributor \<Rightarrow> datetime \<Rightarrow> (PullRequest \<times> PrAssignment) list \<Rightarrow> Outcome \<Rightarrow> (distribution, Outcome) op" where
  "tell_assignees d now current outcome =
     (if ds_digest d
      then
        (let digest = digest_of d current now; outcome = outcome\<lparr>oc_listed := digest_count digest\<rparr>
         in if digest_is_empty digest then ret outcome
            else
              bind_op (notify_digest d digest) (\<lambda>delivery.
                if delivery_is_empty delivery then ret outcome
                else bind_op (for_each (mark_delivered delivery) current) (\<lambda>_. ret outcome)))
      else
        bind_op (ping_all d current 0) (\<lambda>undelivered.
          if undelivered > 0
          then fail (Notifier (no_name (ds_notifier d)) (show_nat undelivered @ '' assignees were not pinged''))
          else ret outcome))"

definition distribute :: "Distributor \<Rightarrow> datetime \<Rightarrow> (distribution, Outcome) op" where
  "distribute d now =
     bind_op (read_store (\<lambda>db. Inr (get_pending_prs db))) (\<lambda>pending.
     bind_op (read_store active_pr_assignments) (\<lambda>active.
     bind_op (reconcile d (active_by_url active) (open_pull_requests pending active) nothing_reconciled) (\<lambda>rc.
     bind_op (gather d (rc_unassigned rc) no_repositories) (\<lambda>ps.
     bind_op (record_decisions (rc_unassigned rc) (balancer_assign (ds_lower d) (balancer_of d) ps (rc_held rc))) (\<lambda>assigned.
       tell_assignees d now (rc_kept rc @ assigned)
         ((rc_outcome rc)\<lparr>oc_assigned := oc_assigned (rc_outcome rc) + length assigned\<rparr>))))))"

end
