(* ===== verification/Distribution_Effects.thy ===== *)
theory Distribution_Effects
  imports Distributor
begin

text \<open>
  What the operations of the distributor may do: conditions before and after an operation that may fail (\<open>triple\<close>), and
  a locale for the conditions that hold after every operation because each call to the store and to the notifier
  keeps them.
\<close>

section \<open>Conditions before and after\<close>

definition triple :: "('st \<Rightarrow> bool) \<Rightarrow> ('st, 'a) op \<Rightarrow> ('a \<Rightarrow> 'st \<Rightarrow> bool) \<Rightarrow> ('st \<Rightarrow> bool) \<Rightarrow> bool" where
  "triple P m Q E \<longleftrightarrow> (\<forall>s. P s \<longrightarrow> (case m s of (Inl e, s') \<Rightarrow> E s' | (Inr x, s') \<Rightarrow> Q x s'))"

lemma tripleI:
  "(\<And>s e s'. P s \<Longrightarrow> m s = (Inl e, s') \<Longrightarrow> E s') \<Longrightarrow> (\<And>s x s'. P s \<Longrightarrow> m s = (Inr x, s') \<Longrightarrow> Q x s') \<Longrightarrow> triple P m Q E"
  unfolding triple_def by (auto split: prod.splits sum.splits)

lemma triple_allI: "(\<And>s r s'. P s \<Longrightarrow> m s = (r, s') \<Longrightarrow> E s' \<and> (\<forall>x. r = Inr x \<longrightarrow> Q x s')) \<Longrightarrow> triple P m Q E"
  by (rule tripleI) blast+

lemma triple_Inr: "triple P m Q E \<Longrightarrow> P s \<Longrightarrow> m s = (Inr x, s') \<Longrightarrow> Q x s'"
  unfolding triple_def by force

lemma triple_Inl: "triple P m Q E \<Longrightarrow> P s \<Longrightarrow> m s = (Inl e, s') \<Longrightarrow> E s'"
  unfolding triple_def by force

lemma triple_bind: "triple P m Q E \<Longrightarrow> (\<And>x. triple (Q x) (f x) R E) \<Longrightarrow> triple P (bind_op m f) R E"
  by (rule tripleI) (auto simp: bind_op_def split: prod.splits sum.splits dest: triple_Inr triple_Inl)

lemma triple_ret: "(\<And>s. P s \<Longrightarrow> Q x s) \<Longrightarrow> triple P (ret x) Q E"
  by (rule tripleI) (auto simp: ret_def)

lemma triple_fail: "(\<And>s. P s \<Longrightarrow> E s) \<Longrightarrow> triple P (fail e) Q E"
  by (rule tripleI) (auto simp: fail_def)

lemma triple_weaken:
  "triple P' m Q' E' \<Longrightarrow> (\<And>s. P s \<Longrightarrow> P' s) \<Longrightarrow> (\<And>x s. Q' x s \<Longrightarrow> Q x s) \<Longrightarrow> (\<And>s. E' s \<Longrightarrow> E s) \<Longrightarrow> triple P m Q E"
  unfolding triple_def by (fastforce split: prod.splits sum.splits)

lemma triple_pre: "triple P' m Q E \<Longrightarrow> (\<And>s. P s \<Longrightarrow> P' s) \<Longrightarrow> triple P m Q E"
  by (rule triple_weaken)

lemma triple_catch: "triple P m (\<lambda>_. R) R \<Longrightarrow> triple P (catch_op m) (\<lambda>_. R) E"
proof (rule tripleI)
  fix s x s'
  assume t: "triple P m (\<lambda>_. R) R" and s: "P s" "catch_op m s = (Inr x, s')"
  then show "R s'"
    by (cases "m s"; cases "fst (m s)") (auto simp: catch_op_def dest: triple_Inl triple_Inr)
qed (simp add: catch_op_def split: prod.splits)

lemma triple_if: "(c \<Longrightarrow> triple P m Q E) \<Longrightarrow> (\<not> c \<Longrightarrow> triple P m' Q E) \<Longrightarrow> triple P (if c then m else m') Q E"
  by simp

lemma triple_ex: "(\<And>n. triple (P n) m Q E) \<Longrightarrow> triple (\<lambda>s. \<exists>n. P n s) m Q E"
proof (rule tripleI)
  fix s e s'
  assume t: "\<And>n. triple (P n) m Q E" and s: "\<exists>n. P n s" "m s = (Inl e, s')"
  then obtain n where "P n s" by blast
  from triple_Inl [OF t this s(2)] show "E s'" .
next
  fix s x s'
  assume t: "\<And>n. triple (P n) m Q E" and s: "\<exists>n. P n s" "m s = (Inr x, s')"
  then obtain n where "P n s" by blast
  from triple_Inr [OF t this s(2)] show "Q x s'" .
qed

lemma triple_and: "triple P m Q E \<Longrightarrow> triple (\<lambda>s. P s \<and> c) m (\<lambda>x s. Q x s \<and> c) E"
  by (cases c) (auto simp: triple_def split: prod.splits sum.splits)

lemma triple_of_result: "(\<And>s. P s \<Longrightarrow> E s) \<Longrightarrow> triple P (of_result r) (\<lambda>_. P) E"
  by (rule tripleI) (auto simp: of_result_def)

lemma triple_for_each: "(\<And>x. x \<in> set xs \<Longrightarrow> triple P (f x) (\<lambda>_. P) E) \<Longrightarrow> triple P (for_each f xs) (\<lambda>_. P) E"
  by (induction xs) (auto intro!: triple_ret triple_bind)

section \<open>Assignments that name their row\<close>

definition names :: "PrAssignment \<Rightarrow> assignments_db \<Rightarrow> bool" where
  "names a db \<longleftrightarrow>
     as_id a < db_next_assignment db \<and> (\<forall>r \<in> set (db_assignments db). pa_id r = as_id a \<longrightarrow> pa_pr_url r = as_pr_url a)"

lemma names_record: "names a db \<Longrightarrow> names a (snd (record_pr_assignment b db))"
  by (auto simp: names_def record_pr_assignment_def Let_def new_assignment_row_def)

lemma names_update:
  "names a db \<Longrightarrow> (\<And>r. p r \<Longrightarrow> pa_id (f r) = pa_id r \<and> pa_pr_url (f r) = pa_pr_url r) \<Longrightarrow>
     names a (snd (update_assignments p f db))"
  by (auto simp: names_def update_assignments_def in_update_where split: if_splits)

lemma names_end: "names a db \<Longrightarrow> names a (snd (end_pr_assignment now i status db))"
  unfolding end_pr_assignment_def by (rule names_update) simp_all

lemma names_mark: "names a db \<Longrightarrow> names a (snd (mark_pr_assignment_notified now i db))"
  unfolding mark_pr_assignment_notified_def by (rule names_update) simp_all

lemma active_names:
  assumes "assignments_ok db" "active_pr_assignments db = Inr as" "a \<in> set as"
  shows "names a db"
proof -
  obtain r where r: "r \<in> set (db_assignments db)" "row_to_pr_assignment r = Inr a"
    using active_pr_assignments_read [OF assms(1)] assms(2,3) by auto
  then have a: "as_id a = pa_id r" "as_pr_url a = pa_pr_url r" using row_read_url [of r a] by simp_all
  have keys: "keys_below pa_id (db_next_assignment db) (db_assignments db)" using assms(1) by (simp add: assignments_ok_def)
  show ?thesis
    using keys keys_below_unique [OF keys _ r(1)] r(1) unfolding names_def a keys_below_def by blast
qed

lemma recorded_names:
  assumes "assignments_ok db" "record_pr_assignment a db = (Inr (Some b), db')"
  shows "names b db'" "as_pr_url b = as_pr_url a" "as_assignee b = as_assignee a" "as_notified_at b = None"
    "as_previous b = as_previous a" "as_reason b = as_reason a"
proof -
  have b: "b = a\<lparr>as_id := db_next_assignment db, as_status := Active, as_ended_at := None, as_notified_at := None\<rparr>"
    and db': "db' = db\<lparr>db_next_assignment := db_next_assignment db + 1,
         db_assignments := db_assignments db @ [new_assignment_row (db_next_assignment db) a]\<rparr>"
    using assms(2) unfolding record_pr_assignment_eq [OF assms(1)] by (auto split: if_splits)
  have "pa_id r \<noteq> db_next_assignment db" if "r \<in> set (db_assignments db)" for r
    using assms(1) that by (auto simp: assignments_ok_def keys_below_def)
  then show "names b db'" by (auto simp: names_def b db' new_assignment_row_def)
  show "as_pr_url b = as_pr_url a" "as_assignee b = as_assignee a" "as_notified_at b = None"
    "as_previous b = as_previous a" "as_reason b = as_reason a" by (simp_all add: b)
qed

lemma record_Inr: "assignments_ok db \<Longrightarrow> \<exists>stored. fst (record_pr_assignment a db) = Inr stored"
  by (simp add: record_pr_assignment_eq)

lemma end_ok: "assignments_ok db \<Longrightarrow> status \<noteq> Active \<Longrightarrow> assignments_ok (snd (end_pr_assignment now i status db))"
  using assignment_step_ok [of db "End_Assignment now i status"] by simp

lemma mark_ok: "assignments_ok db \<Longrightarrow> assignments_ok (snd (mark_pr_assignment_notified now i db))"
  using assignment_step_ok [of db "Notify_Assignment now i"] by simp

lemma update_assignments_Inr: "update_assignments p f db = (r, db') \<Longrightarrow> \<exists>b. r = Inr b"
  by (auto simp: update_assignments_def)

lemma write_store_eq:
  "write_store m s =
     (case m (di_clock s (di_ticks s)) (di_db s) of (r, db) \<Rightarrow> (r, s\<lparr>di_ticks := di_ticks s + 1, di_db := db\<rparr>))"
  by (simp add: write_store_def outside_def bind_op_def split: prod.splits)

section \<open>Who was reached\<close>

definition reached :: "distribution \<Rightarrow> string \<Rightarrow> bool" where
  "reached s url \<longleftrightarrow>
     (\<exists>notice. (notice, Inr Delivered) \<in> set (di_pings s) \<and> ps_url (an_pull_request notice) = url) \<or>
     (\<exists>digest delivery. (digest, Inr delivery) \<in> set (di_digests s) \<and> url \<in> delivery)"

lemma reached_update [simp]:
  "reached (s\<lparr>di_ticks := n\<rparr>) = reached s" "reached (s\<lparr>di_db := db\<rparr>) = reached s"
  by (simp_all add: reached_def fun_eq_iff)

lemma active_by_url_Some: "active_by_url active url = Some a \<Longrightarrow> a \<in> set active \<and> as_pr_url a = url"
proof -
  have "fold (\<lambda>a m. m(as_pr_url a \<mapsto> a)) active m url = Some a \<Longrightarrow> (a \<in> set active \<and> as_pr_url a = url) \<or> m url = Some a" for m
    by (induction active arbitrary: m) (fastforce split: if_splits)+
  then show "active_by_url active url = Some a \<Longrightarrow> a \<in> set active \<and> as_pr_url a = url"
    by (auto simp: active_by_url_def)
qed

section \<open>Conditions every operation keeps\<close>

locale distribution_effects =
  fixes I :: "distribution \<Rightarrow> bool"
  assumes tick: "I s \<Longrightarrow> I (s\<lparr>di_ticks := n\<rparr>)"
    and ping_sent: "I s \<Longrightarrow> I (s\<lparr>di_pings := di_pings s @ [p]\<rparr>)"
    and digest_sent: "I s \<Longrightarrow> I (s\<lparr>di_digests := di_digests s @ [g]\<rparr>)"
    and recorded: "I s \<Longrightarrow> assignments_ok (di_db s) \<Longrightarrow> I (s\<lparr>di_db := snd (record_pr_assignment a (di_db s))\<rparr>)"
    and ended: "I s \<Longrightarrow> status \<noteq> Active \<Longrightarrow> I (s\<lparr>di_db := snd (end_pr_assignment now i status (di_db s))\<rparr>)"
    and marked: "I s \<Longrightarrow> assignments_ok (di_db s) \<Longrightarrow> names a (di_db s) \<Longrightarrow> reached s (as_pr_url a) \<Longrightarrow>
      I (s\<lparr>di_db := snd (mark_pr_assignment_notified now (as_id a) (di_db s))\<rparr>)"
begin

definition J :: "PrAssignment set \<Rightarrow> distribution \<Rightarrow> bool" where
  "J A s \<longleftrightarrow> I s \<and> assignments_ok (di_db s) \<and> (\<forall>a \<in> A. names a (di_db s))"

lemma J_mono: "J A s \<Longrightarrow> B \<subseteq> A \<Longrightarrow> J B s"
  by (auto simp: J_def)

lemma J_empty: "J A s \<Longrightarrow> J {} s"
  by (auto simp: J_def)

lemma outside_keeps: "triple (J A) (outside f) (\<lambda>_. J A) (J A)"
  by (rule tripleI) (auto simp: outside_def J_def tick)

lemma read_keeps: "triple (J A) (read_store q) (\<lambda>_. J A) (J A)"
  by (rule tripleI) (auto simp: read_store_def J_def)

lemma read_active: "triple (J A) (read_store active_pr_assignments) (\<lambda>as. J (A \<union> set as)) (J A)"
  by (rule tripleI) (auto simp: read_store_def J_def dest: active_names)

lemma record_keeps:
  "triple (J A) (write_store (\<lambda>now. record_pr_assignment (f now))) (\<lambda>stored. J (A \<union> set_option stored)) (J A)"
proof (rule triple_allI)
  fix s r s'
  assume s: "J A s" and w: "write_store (\<lambda>now. record_pr_assignment (f now)) s = (r, s')"
  let ?a = "f (di_clock s (di_ticks s))"
  have s': "s' = s\<lparr>di_ticks := di_ticks s + 1, di_db := snd (record_pr_assignment ?a (di_db s))\<rparr>"
    and r: "r = fst (record_pr_assignment ?a (di_db s))"
    using w by (auto simp: write_store_eq split: prod.splits)
  have "I s'" using s recorded [OF tick, of s "di_ticks s + 1" ?a] by (simp add: s' J_def)
  moreover have "assignments_ok (di_db s')" using s by (simp add: s' J_def assignments_ok_record)
  moreover have "\<forall>a \<in> A. names a (di_db s')" using s by (simp add: s' J_def names_record)
  ultimately have J: "J A s'" by (simp add: J_def)
  have "J (A \<union> set_option x) s'" if "r = Inr x" for x
  proof (cases x)
    case (Some b)
    then have "record_pr_assignment ?a (di_db s) = (Inr (Some b), di_db s')" using that r s' by (simp add: prod_eq_iff)
    with J s recorded_names(1) [of "di_db s" ?a] Some show ?thesis by (simp add: J_def)
  qed (use J in simp)
  with J show "J A s' \<and> (\<forall>x. r = Inr x \<longrightarrow> J (A \<union> set_option x) s')" by auto
qed

lemma end_keeps: "status \<noteq> Active \<Longrightarrow> triple (J A) (end_assignment a status) (\<lambda>_. J A) (J A)"
proof (rule triple_allI)
  fix s r s'
  assume status: "status \<noteq> Active" and s: "J A s" and w: "end_assignment a status s = (r, s')"
  let ?now = "di_clock s (di_ticks s)"
  have s': "s' = s\<lparr>di_ticks := di_ticks s + 1, di_db := snd (end_pr_assignment ?now (as_id a) status (di_db s))\<rparr>"
    using w by (auto simp: end_assignment_def write_store_eq split: prod.splits)
  have "I (s\<lparr>di_ticks := di_ticks s + 1\<rparr>)" using s by (simp add: J_def tick)
  from ended [OF this status, of ?now "as_id a"] have "I s'" by (simp add: s')
  then have "J A s'" using s status by (simp add: J_def s' end_ok names_end)
  then show "J A s' \<and> (\<forall>x. r = Inr x \<longrightarrow> J A s')" by auto
qed

lemma mark_keeps:
  assumes "a \<in> A"
  shows "triple (\<lambda>s. J A s \<and> reached s (as_pr_url a) \<and> P (di_pings s) (di_digests s))
    (write_store (\<lambda>now. mark_pr_assignment_notified now (as_id a))) (\<lambda>_ s. J A s \<and> P (di_pings s) (di_digests s)) (J A)"
proof (rule triple_allI)
  fix s r s'
  assume s: "J A s \<and> reached s (as_pr_url a) \<and> P (di_pings s) (di_digests s)"
    and w: "write_store (\<lambda>now. mark_pr_assignment_notified now (as_id a)) s = (r, s')"
  let ?now = "di_clock s (di_ticks s)"
  have s': "s' = s\<lparr>di_ticks := di_ticks s + 1, di_db := snd (mark_pr_assignment_notified ?now (as_id a) (di_db s))\<rparr>"
    using w by (auto simp: write_store_eq split: prod.splits)
  have "I (s\<lparr>di_ticks := di_ticks s + 1\<rparr>)" using s by (simp add: J_def tick)
  from marked [OF this, of a ?now] have "I s'" using s assms by (simp add: s' J_def)
  then have "J A s' \<and> P (di_pings s') (di_digests s')" using s by (simp add: J_def s' mark_ok names_mark)
  then show "J A s' \<and> (\<forall>x. r = Inr x \<longrightarrow> J A s' \<and> P (di_pings s') (di_digests s'))" by auto
qed

end

section \<open>The operations\<close>

context distribution_effects begin

abbreviation keeps :: "PrAssignment set \<Rightarrow> (distribution, 'a) op \<Rightarrow> bool" where
  "keeps A m \<equiv> triple (J A) m (\<lambda>_. J A) (J A)"

lemma ret_keeps: "keeps A (ret x)"
  by (rule triple_ret)

lemma fail_keeps: "keeps A (fail e)"
  by (rule triple_fail)

lemma bind_keeps: "keeps A m \<Longrightarrow> (\<And>x. keeps A (f x)) \<Longrightarrow> keeps A (bind_op m f)"
  by (rule triple_bind)

lemma bind_grows:
  "triple (J A) m (\<lambda>x. J (A \<union> B x)) (J A) \<Longrightarrow> (\<And>x. triple (J (A \<union> B x)) (f x) (Q x) (J (A \<union> B x))) \<Longrightarrow>
     (\<And>x y s. Q x y s \<Longrightarrow> R y s) \<Longrightarrow> triple (J A) (bind_op m f) R (J A)"
proof (rule triple_bind)
  fix x
  assume f: "\<And>x. triple (J (A \<union> B x)) (f x) (Q x) (J (A \<union> B x))" and R: "\<And>x y s. Q x y s \<Longrightarrow> R y s"
  show "triple (J (A \<union> B x)) (f x) R (J A)" by (rule triple_weaken [OF f]) (auto elim: J_mono R)
qed

lemma outside_all_keeps: "keeps A (outside_all f xs)"
  by (induction xs) (auto intro!: bind_keeps ret_keeps outside_keeps)

lemma codeowners_keeps: "keeps A (repository_codeowners d repo known)"
  by (auto simp: repository_codeowners_def Let_def intro!: bind_keeps ret_keeps outside_keeps split: option.splits)

lemma authors_keeps: "keeps A (repository_authors d repo known)"
  by (auto simp: repository_authors_def Let_def intro!: bind_keeps ret_keeps outside_keeps split: option.splits)

lemma evidence_keeps: "keeps A (evidence d repo number asked known)"
  by (auto simp: evidence_def Let_def
      intro!: bind_keeps ret_keeps outside_keeps outside_all_keeps codeowners_keeps authors_keeps split: prod.splits)

lemma gather_keeps: "keeps A (gather d items known)"
  by (induction items arbitrary: known) (auto intro!: bind_keeps ret_keeps evidence_keeps split: prod.splits)

lemma notify_keeps:
  "triple (J A) (notify_assignment d notice)
     (\<lambda>delivery s. J A s \<and> (delivery = Delivered \<longrightarrow> reached s (ps_url (an_pull_request notice)))) (J A)"
proof (rule triple_allI)
  fix s r s'
  assume s: "J A s" and n: "notify_assignment d notice s = (r, s')"
  have s': "s' = s\<lparr>di_ticks := di_ticks s + 1, di_pings := di_pings s @ [(notice, r)]\<rparr>"
    using n by (simp add: notify_assignment_def Let_def) blast
  have "I s'" using s ping_sent [OF tick, of s "di_ticks s + 1"] by (simp add: s' J_def)
  then have "J A s'" using s by (simp add: J_def s')
  moreover have "r = Inr Delivered \<Longrightarrow> reached s' (ps_url (an_pull_request notice))"
    by (auto simp: reached_def s')
  ultimately show "J A s' \<and> (\<forall>delivery. r = Inr delivery \<longrightarrow> J A s' \<and>
      (delivery = Delivered \<longrightarrow> reached s' (ps_url (an_pull_request notice))))" by auto
qed

lemma ping_keeps: "a \<in> A \<Longrightarrow> keeps A (ping_assignee d developer pr a)"
  unfolding ping_assignee_def
proof (rule triple_bind)
  assume a: "a \<in> A"
  let ?notice = "\<lparr>an_developer = developer, an_pull_request = assignment_summary pr a, an_reason = as_reason a,
          an_previous = as_previous a\<rparr>"
  have url: "ps_url (an_pull_request ?notice) = as_pr_url a" by (simp add: assignment_summary_def)
  show "triple (J A) (notify_assignment d ?notice)
      (\<lambda>delivery s. J A s \<and> (delivery = Delivered \<longrightarrow> reached s (as_pr_url a))) (J A)"
    using notify_keeps [of A d ?notice] unfolding url .
  show "triple (\<lambda>s. J A s \<and> (delivery = Delivered \<longrightarrow> reached s (as_pr_url a)))
      (if delivery = Delivered
       then bind_op (write_store (\<lambda>now. mark_pr_assignment_notified now (as_id a))) (\<lambda>_. ret delivery)
       else ret delivery) (\<lambda>_. J A) (J A)" for delivery
    using mark_keeps [OF a, of "\<lambda>_ _. True"]
    by (intro triple_if triple_bind [where Q = "\<lambda>_. J A"] triple_ret) (auto intro: triple_pre)
qed

lemma catch_keeps: "keeps A m \<Longrightarrow> keeps A (catch_op m)"
  by (rule triple_catch)

lemma for_each_keeps: "(\<And>x. x \<in> set xs \<Longrightarrow> keeps A (f x)) \<Longrightarrow> keeps A (for_each f xs)"
  by (rule triple_for_each)

lemma ping_all_keeps: "snd ` set current \<subseteq> A \<Longrightarrow> keeps A (ping_all d current n)"
  by (induction d current n rule: ping_all.induct)
    (auto intro!: ret_keeps bind_keeps catch_keeps ping_keeps split: option.splits sum.splits)

lemma mark_delivered_keeps:
  assumes "snd ` set current \<subseteq> A"
  shows "triple (\<lambda>s. J A s \<and> (\<exists>digest. (digest, Inr delivery) \<in> set (di_digests s))) (for_each (mark_delivered delivery) current)
    (\<lambda>_. J A) (J A)"
proof -
  let ?P = "\<lambda>s. J A s \<and> (\<exists>digest. (digest, Inr delivery) \<in> set (di_digests s))"
  have "triple ?P (mark_delivered delivery x) (\<lambda>_. ?P) (J A)" if x: "x \<in> set current" for x
  proof -
    obtain pr a where a: "x = (pr, a)" by force
    then have "a \<in> A" using assms x by force
    note mark = mark_keeps [OF this, of "\<lambda>ps gs. \<exists>digest. (digest, Inr delivery) \<in> set gs"]
    show ?thesis unfolding mark_delivered_def a prod.case
    proof (rule triple_if)
      assume "as_notified_at a = None \<and> delivery_contains delivery (as_pr_url a)"
      then have "?P s \<Longrightarrow> reached s (as_pr_url a)" for s by (auto simp: reached_def delivery_contains_def)
      then show "triple ?P (bind_op (write_store (\<lambda>now. mark_pr_assignment_notified now (as_id a))) (\<lambda>_. ret ())) (\<lambda>_. ?P) (J A)"
        by (intro triple_bind [OF triple_pre [OF mark]] triple_ret) auto
    qed (rule triple_ret)
  qed
  then show ?thesis by (rule triple_weaken [OF triple_for_each]) simp_all
qed

lemma digest_keeps:
  "triple (J A) (notify_digest d digest) (\<lambda>delivery s. J A s \<and> (\<exists>digest. (digest, Inr delivery) \<in> set (di_digests s))) (J A)"
proof (rule triple_allI)
  fix s r s'
  assume s: "J A s" and n: "notify_digest d digest s = (r, s')"
  have s': "s' = s\<lparr>di_ticks := di_ticks s + 1, di_digests := di_digests s @ [(digest, r)]\<rparr>"
    using n by (simp add: notify_digest_def Let_def) blast
  have "I (s\<lparr>di_ticks := di_ticks s + 1\<rparr>)" using s by (simp add: J_def tick)
  from digest_sent [OF this, of "(digest, r)"] have "J A s'" using s by (simp add: s' J_def)
  then show "J A s' \<and> (\<forall>delivery. r = Inr delivery \<longrightarrow> J A s' \<and> (\<exists>digest. (digest, Inr delivery) \<in> set (di_digests s')))"
    by (auto simp: s')
qed

lemma tell_keeps:
  assumes "snd ` set current \<subseteq> A"
  shows "keeps A (tell_assignees d now current outcome)"
proof -
  have "triple (J A) (bind_op (notify_digest d digest) (\<lambda>delivery.
      if delivery_is_empty delivery then ret outcome else bind_op (for_each (mark_delivered delivery) current) (\<lambda>_. ret outcome)))
      (\<lambda>_. J A) (J A)" for digest outcome
    by (intro triple_bind [OF digest_keeps] triple_if triple_ret triple_bind [OF mark_delivered_keeps [OF assms]]) auto
  moreover have "keeps A (bind_op (ping_all d current 0) (\<lambda>undelivered. if undelivered > 0 then fail (e undelivered) else ret outcome))"
    for e and outcome :: Outcome
    by (intro bind_keeps ping_all_keeps triple_if fail_keeps ret_keeps assms)
  ultimately show ?thesis
    unfolding tell_assignees_def Let_def by (intro triple_if ret_keeps)
qed

lemma record_decisions_keeps:
  "triple (J A) (record_decisions items decisions) (\<lambda>assigned. J (A \<union> snd ` set assigned)) (J A)"
proof (induction decisions arbitrary: A)
  case (Cons decision decisions)
  show ?case
  proof (cases "find (\<lambda>item. un_url item = de_key decision) items")
    case (Some item)
    let ?f = "\<lambda>now. assignment_of decision (un_url item) (pr_repo (un_pull_request item)) (pr_number (un_pull_request item))
                (un_previous item) now"
    have rest: "triple (J B) (bind_op (record_decisions items decisions) (\<lambda>rest.
            ret (case stored of None \<Rightarrow> rest | Some a \<Rightarrow> (un_pull_request item, a) # rest)))
        (\<lambda>assigned s. \<exists>rest. assigned = (case stored of None \<Rightarrow> rest | Some a \<Rightarrow> (un_pull_request item, a) # rest) \<and>
           J (B \<union> snd ` set rest) s) (J B)" for stored B
      by (rule triple_bind [OF Cons.IH]) (auto intro!: triple_ret)
    show ?thesis
      unfolding record_decisions.simps Some option.case
      by (rule bind_grows [OF record_keeps [of A ?f] rest]) (auto elim!: J_mono split: option.splits)
  qed (use Cons.IH in simp)
qed (auto intro!: triple_ret)

lemma reconcile_one_keeps:
  assumes "\<And>url a. active url = Some a \<Longrightarrow> a \<in> A" "snd ` set (rc_kept acc) \<subseteq> A"
  shows "triple (J A) (reconcile_one d active pr acc) (\<lambda>rc s. J A s \<and> snd ` set (rc_kept rc) \<subseteq> A) (J A)"
proof -
  obtain url repo number where pr: "pr = (url, repo, number)" by (metis prod_cases3)
  have ends: "triple (J A) (bind_op (end_assignment a status) (\<lambda>ended. ret (g ended))) (\<lambda>rc s. J A s \<and> snd ` set (rc_kept rc) \<subseteq> A) (J A)"
    if "status \<noteq> Active" "\<And>ended. rc_kept (g ended) = rc_kept acc" for a status and g :: "bool \<Rightarrow> Reconciled"
    by (rule triple_bind [OF end_keeps [OF that(1)]]) (rule triple_ret, simp add: assms(2) that(2))
  have kept: "(pr, a) \<in> set (rc_kept acc) \<Longrightarrow> a \<in> A" for pr a using assms(2) by force
  show ?thesis
    unfolding reconcile_one_def pr prod.case
    by (rule triple_bind [OF outside_keeps])
      (auto simp: wait_for_def intro!: triple_ret ends triple_if split: sum.splits option.splits dest: assms(1) kept)
qed

lemma reconcile_keeps:
  assumes "\<And>url a. active url = Some a \<Longrightarrow> a \<in> A"
  shows "snd ` set (rc_kept acc) \<subseteq> A \<Longrightarrow>
    triple (J A) (reconcile d active prs acc) (\<lambda>rc s. J A s \<and> snd ` set (rc_kept rc) \<subseteq> A) (J A)"
proof (induction prs arbitrary: acc)
  case (Cons pr prs)
  have "triple (\<lambda>s. J A s \<and> snd ` set (rc_kept rc) \<subseteq> A) (reconcile d active prs rc)
      (\<lambda>rc s. J A s \<and> snd ` set (rc_kept rc) \<subseteq> A) (J A)" for rc
  proof (cases "snd ` set (rc_kept rc) \<subseteq> A")
    case True
    then show ?thesis using Cons.IH by (simp add: triple_pre)
  qed (simp add: triple_def)
  then show ?case by (auto intro: triple_bind [OF reconcile_one_keeps [OF assms Cons.prems]])
qed (auto intro!: triple_ret)

lemma distribute_keeps: "keeps {} (distribute d now)"
proof -
  have tell: "triple (\<lambda>s. J (A \<union> snd ` set assigned) s \<and> snd ` set kept \<subseteq> A) (tell_assignees d now (kept @ assigned) outcome)
      (\<lambda>_. J {}) (J {})" for A kept assigned outcome
  proof (cases "snd ` set kept \<subseteq> A")
    case True
    then have "snd ` set (kept @ assigned) \<subseteq> A \<union> snd ` set assigned" by auto
    from tell_keeps [OF this] show ?thesis by (rule triple_weaken) (auto intro: J_empty)
  qed (simp add: triple_def)
  have rest: "triple (\<lambda>s. J A s \<and> snd ` set (rc_kept rc) \<subseteq> A)
      (bind_op (gather d (rc_unassigned rc) no_repositories) (\<lambda>ps.
       bind_op (record_decisions (rc_unassigned rc) (balancer_assign (ds_lower d) (balancer_of d) ps (rc_held rc))) (\<lambda>assigned.
         tell_assignees d now (rc_kept rc @ assigned) (outcome assigned)))) (\<lambda>_. J {}) (J {})"
    for A rc and outcome :: "(PullRequest \<times> PrAssignment) list \<Rightarrow> Outcome"
  proof (rule triple_bind [where Q = "\<lambda>_ s. J A s \<and> snd ` set (rc_kept rc) \<subseteq> A"])
    show "triple (\<lambda>s. J A s \<and> snd ` set (rc_kept rc) \<subseteq> A) (gather d (rc_unassigned rc) no_repositories)
        (\<lambda>_ s. J A s \<and> snd ` set (rc_kept rc) \<subseteq> A) (J {})"
      by (rule triple_weaken [OF triple_and [OF gather_keeps [of A]]]) (auto intro: J_empty)
    have "triple (\<lambda>s. J A s \<and> snd ` set (rc_kept rc) \<subseteq> A) (record_decisions (rc_unassigned rc) ds)
        (\<lambda>assigned s. J (A \<union> snd ` set assigned) s \<and> snd ` set (rc_kept rc) \<subseteq> A) (J {})" for ds
      by (rule triple_weaken [OF triple_and [OF record_decisions_keeps [of A]]]) (auto intro: J_empty)
    then show "triple (\<lambda>s. J A s \<and> snd ` set (rc_kept rc) \<subseteq> A)
        (bind_op (record_decisions (rc_unassigned rc) (balancer_assign (ds_lower d) (balancer_of d) ps (rc_held rc))) (\<lambda>assigned.
           tell_assignees d now (rc_kept rc @ assigned) (outcome assigned))) (\<lambda>_. J {}) (J {})" for ps
      using tell by (rule triple_bind)
  qed
  have body: "triple (J (set active))
     (bind_op (reconcile d (active_by_url active) prs nothing_reconciled) (\<lambda>rc.
      bind_op (gather d (rc_unassigned rc) no_repositories) (\<lambda>ps.
      bind_op (record_decisions (rc_unassigned rc) (balancer_assign (ds_lower d) (balancer_of d) ps (rc_held rc))) (\<lambda>assigned.
        tell_assignees d now (rc_kept rc @ assigned)
         ((rc_outcome rc)\<lparr>oc_assigned := oc_assigned (rc_outcome rc) + length assigned\<rparr>))))) (\<lambda>_. J {}) (J {})" for active prs
    by (rule triple_bind [OF triple_weaken [OF reconcile_keeps [where A = "set active"]] rest])
      (auto simp: nothing_reconciled_def intro: J_empty dest: active_by_url_Some)
  show ?thesis
    unfolding distribute_def
    using read_active [of "{}"] by (intro triple_bind [OF read_keeps] triple_bind [where Q = "\<lambda>active. J (set active)"] body) simp
qed

lemma record_and_ping_keeps: "keeps {} (record_and_ping d url repo number pr decision)"
proof -
  have "triple (J (set_option stored))
      (case stored of None \<Rightarrow> read_store (active_pr_assignment url)
       | Some a \<Rightarrow>
           bind_op
             (case roster_find (ds_lower d) (ds_roster d) (as_assignee a) of
                None \<Rightarrow> ret ()
              | Some developer \<Rightarrow> bind_op (catch_op (ping_assignee d developer pr a)) (\<lambda>_. ret ()))
             (\<lambda>_. read_store (active_pr_assignment url))) (\<lambda>_. J {}) (J {})" for stored
  proof (rule triple_weaken [where P' = "J (set_option stored)" and Q' = "\<lambda>_. J (set_option stored)" and E' = "J (set_option stored)"])
    show "keeps (set_option stored) (case stored of None \<Rightarrow> read_store (active_pr_assignment url)
       | Some a \<Rightarrow>
           bind_op
             (case roster_find (ds_lower d) (ds_roster d) (as_assignee a) of
                None \<Rightarrow> ret ()
              | Some developer \<Rightarrow> bind_op (catch_op (ping_assignee d developer pr a)) (\<lambda>_. ret ()))
             (\<lambda>_. read_store (active_pr_assignment url)))"
      by (auto intro!: read_keeps bind_keeps ret_keeps catch_keeps ping_keeps split: option.splits)
  qed (auto intro: J_empty)
  then show ?thesis
    unfolding record_and_ping_def
    using record_keeps [of "{}"] by (intro triple_bind [where Q = "\<lambda>stored. J (set_option stored)"]) simp_all
qed

lemma assign_opened_keeps: "keeps {} (assign_opened d url issue)"
  unfolding assign_opened_def Let_def
  by (intro triple_if ret_keeps)
    (auto intro!: ret_keeps bind_keeps read_keeps outside_keeps triple_of_result triple_if evidence_keeps
      record_and_ping_keeps split: option.splits prod.splits list.splits)

end

end
