(* ===== verification/Distribution_Guarantees.thy ===== *)
theory Distribution_Guarantees
  imports Distribution_Effects
begin

text \<open>
  Runs of the distributor, and that it records an assignee as notified only when a message reached them; with the example
  the witnesses share.
\<close>

section \<open>Runs of the distributor\<close>

text \<open>A call of the distributor, each with the roster and the configuration of its time.\<close>

datatype distribution_call =
    Assign_Opened Distributor string Issue
  | Distribute Distributor datetime

fun distribution_step :: "distribution_call \<Rightarrow> distribution \<Rightarrow> distribution" where
  "distribution_step (Assign_Opened d url issue) s = snd (assign_opened d url issue s)"
| "distribution_step (Distribute d now) s = snd (distribute d now s)"

definition run_distribution :: "distribution_call list \<Rightarrow> distribution \<Rightarrow> distribution" where
  "run_distribution calls s = fold distribution_step calls s"

lemma triple_snd: "triple P m (\<lambda>_. R) R \<Longrightarrow> P s \<Longrightarrow> R (snd (m s))"
  by (cases "m s"; cases "fst (m s)") (auto dest: triple_Inl triple_Inr)

context distribution_effects begin

lemma step_keeps: "J {} s \<Longrightarrow> J {} (distribution_step c s)"
  by (cases c) (auto intro: triple_snd [OF distribute_keeps] triple_snd [OF assign_opened_keeps])

lemma run_keeps: "I s \<Longrightarrow> assignments_ok (di_db s) \<Longrightarrow> I (run_distribution calls s) \<and> assignments_ok (di_db (run_distribution calls s))"
proof -
  have "J {} s \<Longrightarrow> J {} (run_distribution calls s)" for s
    unfolding run_distribution_def by (induction calls arbitrary: s) (simp_all add: step_keeps)
  then show "I s \<Longrightarrow> assignments_ok (di_db s) \<Longrightarrow> I (run_distribution calls s) \<and> assignments_ok (di_db (run_distribution calls s))"
    by (simp add: J_def)
qed

end

section \<open>Only who was reached is recorded as notified\<close>

definition notified_ok :: "distribution \<Rightarrow> bool" where
  "notified_ok s \<longleftrightarrow> (\<forall>r \<in> set (db_assignments (di_db s)). pa_notified_at r \<noteq> None \<longrightarrow> reached s (pa_pr_url r))"

lemma reached_ping: "reached s url \<Longrightarrow> reached (s\<lparr>di_pings := di_pings s @ [p]\<rparr>) url"
  by (auto simp: reached_def)

lemma reached_digest: "reached s url \<Longrightarrow> reached (s\<lparr>di_digests := di_digests s @ [p]\<rparr>) url"
  by (auto simp: reached_def)

interpretation notified: distribution_effects notified_ok
proof (unfold_locales, goal_cases)
  case (4 s a)
  then show ?case
    by (auto simp: notified_ok_def record_pr_assignment_eq new_assignment_row_def)
next
  case (5 s status now i)
  then show ?case
    by (auto simp: notified_ok_def end_pr_assignment_def update_assignments_def in_update_where split: if_splits)
next
  case (6 s a now)
  then show ?case
    by (auto simp: notified_ok_def mark_pr_assignment_notified_def update_assignments_def in_update_where names_def
        split: if_splits)
qed (auto simp: notified_ok_def reached_ping reached_digest)

text \<open>
  Property C4. An assignee is recorded as notified only when a channel that reaches people delivered a ping about
  the pull request, or a digest that lists it: a message that failed or stayed local is never recorded.
\<close>

theorem notified_means_reached:
  assumes "db_assignments (di_db s) = []" "db_next_assignment (di_db s) = 1"
    and "r \<in> set (db_assignments (di_db (run_distribution ds s)))" "pa_notified_at r \<noteq> None"
  shows "(\<exists>notice. (notice, Inr Delivered) \<in> set (di_pings (run_distribution ds s)) \<and>
      ps_url (an_pull_request notice) = pa_pr_url r) \<or>
    (\<exists>digest delivery. (digest, Inr delivery) \<in> set (di_digests (run_distribution ds s)) \<and> pa_pr_url r \<in> delivery)"
proof -
  have "notified_ok s" using assms(1) by (simp add: notified_ok_def)
  then have "notified_ok (run_distribution ds s)"
    using notified.run_keeps [of s ds] empty_assignments_ok [OF assms(1,2)] by simp
  then show ?thesis using assms(3,4) by (auto simp: notified_ok_def reached_def)
qed

section \<open>Examples\<close>

definition example_url :: string where
  "example_url = ''https://github.com/o/r/pull/1''"

definition example_pull_request :: PullRequest where
  "example_pull_request =
     \<lparr>pr_url = example_url, pr_repo = ''o/r'', pr_number = 1, pr_title = ''Fix'', pr_state = Open_Pr, pr_draft = False,
      pr_auto_merge = False, pr_head = None, pr_requested_reviewers = [], pr_reviews = [], pr_created_at = None\<rparr>"

definition example_host :: "PullRequest result \<Rightarrow> PullRequestHost" where
  "example_host answer =
     \<lparr>ho_pull_request = (\<lambda>t repo number. answer), ho_changed_files = (\<lambda>t repo number. Inr []),
      ho_codeowners = (\<lambda>t repo. Inr None), ho_commit_authors = (\<lambda>t repo path. Inr [])\<rparr>"

definition example_notifier :: PingNotifier where
  "example_notifier =
     \<lparr>no_name = ''slack'', no_pr_assignment = (\<lambda>t notice. Inr Delivered), no_pr_digest = (\<lambda>t digest. Inr {})\<rparr>"

definition example_distributor :: "PullRequest result \<Rightarrow> Distributor" where
  "example_distributor answer =
     \<lparr>ds_roster = example_roster, ds_tolerance = 0, ds_notify_on_open = True, ds_digest = False,
      ds_host = example_host answer, ds_notifier = example_notifier, ds_lower = id,
      ds_regex = \<lparr>rx_new = (\<lambda>e. None), rx_escape = id\<rparr>\<rparr>"

definition example_attempt :: "string \<Rightarrow> fix_attempt_row" where
  "example_attempt source =
     (new_attempt_row 1 source ''7'' ''7'' 5 None None None)
       \<lparr>fa_status := ''success'', fa_pr_url := Some example_url, fa_scm_repo := Some ''o/r'', fa_scm_pr_number := Some 1\<rparr>"

definition example_distribution :: "string \<Rightarrow> distribution" where
  "example_distribution source =
     \<lparr>di_db = example_store\<lparr>db_attempts := [example_attempt source]\<rparr>, di_clock = int, di_ticks = 0, di_pings = [],
      di_digests = []\<rparr>"

lemma example_github: "github_pull_request example_url = Some (''o/r'', 1)"
proof -
  let ?pr = "\<lparr>pr_owner = ''o'', pr_name = ''r'', pr_number = 1\<rparr>"
  have url: "pull_request_url ?pr = example_url"
    by code_simp
  have "parse_pr_url (pull_request_url ?pr) = Some (pull_request_repository ?pr, 1)"
    by (subst parse_pr_url_canonical) (code_simp, simp)
  moreover have "contains_text example_url ''/pull/''" unfolding example_url_def by code_simp
  ultimately show ?thesis unfolding url by (simp add: github_pull_request_def pull_request_repository_def)
qed

lemma example_not_security: "''linear'' \<noteq> security_fix_source"
  by (simp add: security_fix_source_def)

lemma example_balanced:
  "balancer_assign id \<lparr>ba_roster = example_roster, ba_tolerance = 0\<rparr> [\<lparr>pe_key = example_url, pe_candidates = []\<rparr>] [] =
     [\<lparr>de_key = example_url, de_assignee = ''amy'', de_reason = Load, de_score = 0\<rparr>]"
  by (simp add: balancer_assign_def example_roster held_loads_def fair_share_def div_ceil_def chosen_def least_loaded_def
      candidate_score_at_def Let_def less_prod_def developer_new_def)

lemma example_pending_attempts:
  "\<exists>a. get_pending_prs (di_db (example_distribution source)) = [a] \<and> at_source a = source \<and> at_pr_url a = Some example_url"
  by (simp add: get_pending_prs_def example_distribution_def example_attempt_def order_desc_def row_to_fix_attempt_def
      flatten_rows_def new_attempt_row_def read_u32_def map_filter_simps)

lemma example_open:
  "open_pull_requests (get_pending_prs (di_db (example_distribution ''linear''))) [] = [(example_url, ''o/r'', 1)]"
  using example_pending_attempts [of "''linear''"]
  by (auto simp: open_pull_requests_def add_pending_def example_github example_not_security)


lemma example_selectors:
  "ds_roster (example_distributor answer) = example_roster" "ds_tolerance (example_distributor answer) = 0"
  "ds_notify_on_open (example_distributor answer)" "\<not> ds_digest (example_distributor answer)"
  "ds_host (example_distributor answer) = example_host answer" "ds_notifier (example_distributor answer) = example_notifier"
  "ds_lower (example_distributor answer) = id" "balancer_of (example_distributor answer) = \<lparr>ba_roster = example_roster, ba_tolerance = 0\<rparr>"
  "ho_pull_request (example_host answer) t repo number = answer" "ho_changed_files (example_host answer) t repo number = Inr []"
  "ho_codeowners (example_host answer) t repo = Inr None" "ho_commit_authors (example_host answer) t repo path = Inr []"
  "no_pr_assignment example_notifier t notice = Inr Delivered"
  by (simp_all add: example_distributor_def example_host_def example_notifier_def balancer_of_def)

lemma example_state:
  "db_assignments (di_db (example_distribution source)) = []" "db_next_assignment (di_db (example_distribution source)) = 1"
  "di_pings (example_distribution source) = []" "di_ticks (example_distribution source) = 0" "di_clock (example_distribution source) = int"
  by (simp_all add: example_distribution_def example_store_def)

lemma example_rank: "rank id example_roster \<lparr>ev_requesters = [], ev_files = [], ev_codeowners = None, ev_file_authors = [],
   ev_repository_authors = []\<rparr> = []"
  by (simp add: rank_def ranking_def points_of_def award_requesters_def award_owners_def award_authors_def)

lemma example_attention: "attention id example_pull_request None = Needed"
  by (simp add: attention_def example_pull_request_def)

lemma example_reconcile:
  "reconcile (example_distributor (Inr example_pull_request)) (active_by_url []) [(example_url, ''o/r'', 1)] nothing_reconciled s =
    (Inr (nothing_reconciled\<lparr>rc_unassigned := [\<lparr>un_url = example_url, un_pull_request = example_pull_request, un_previous = None\<rparr>]\<rparr>),
     s\<lparr>di_ticks := di_ticks s + 1\<rparr>)"
  by (simp add: reconcile_one_def bind_op_def outside_def example_selectors example_attention attention_is_finished_def
      attention_is_needed_def active_by_url_def wait_for_def ret_def nothing_reconciled_def)

lemma example_gather:
  "gather (example_distributor (Inr example_pull_request)) [\<lparr>un_url = example_url, un_pull_request = example_pull_request, un_previous = None\<rparr>]
     no_repositories s = (Inr [\<lparr>pe_key = example_url, pe_candidates = []\<rparr>], s\<lparr>di_ticks := di_ticks s + 3\<rparr>)"
  by (simp add: evidence_def bind_op_def outside_def example_selectors ret_def or_nothing_def repository_codeowners_def
      repository_authors_def no_repositories_def example_rank)

lemma example_active: "active_pr_assignments (di_db (example_distribution source)) = Inr []"
  by (simp add: active_pr_assignments_def example_state order_asc_def)

lemma load_from_str: "assignment_reason_from_str ''load'' = Inr Load"
  using reason_round_trip [of Load] by simp

text \<open>A whole run: Amy is assigned, pinged, and recorded as notified.\<close>

definition example_row :: assignment_row where
  "example_row =
     \<lparr>pa_id = 1, pa_pr_url = example_url, pa_repo = ''o/r'', pa_pr_number = 1, pa_assignee = ''amy'', pa_previous = None,
      pa_reason = ''load'', pa_score = 0, pa_status = ''active'', pa_assigned_at = 4, pa_ended_at = None, pa_notified_at = Some 6\<rparr>"

definition example_calls :: "distribution_call list" where
  "example_calls = [Distribute (example_distributor (Inr example_pull_request)) 9]"

lemma example_distribution_run:
  "db_assignments (di_db (run_distribution example_calls (example_distribution ''linear''))) = [example_row]"
  apply (simp add: run_distribution_def example_calls_def distribute_def read_store_def bind_op_def example_active example_open
      example_reconcile example_gather example_balanced example_selectors del: reconcile.simps gather.simps)
  apply (simp add: nothing_reconciled_def bind_op_def example_gather example_balanced del: gather.simps)
  apply (simp add: write_store_def bind_op_def outside_def record_pr_assignment_def example_state ret_def tell_assignees_def
      example_selectors ping_assignee_def catch_op_def notify_assignment_def assignment_of_def new_pr_assignment_def example_find
      mark_pr_assignment_notified_def update_assignments_def Let_def row_of_new)
  apply (simp add: load_from_str active_pr_assignment_def find_by_def nothing_reconciled_def bind_op_def ret_def row_of_new
      tell_assignees_def example_selectors ping_assignee_def catch_op_def notify_assignment_def example_find write_store_def
      outside_def mark_pr_assignment_notified_def update_assignments_def update_where_def Let_def example_state no_outcome_def
      is_active_def new_assignment_row_def row_to_pr_assignment_def)
  apply (simp add: example_row_def example_pull_request_def)
  done

lemma notified_means_reached_witness:
  "(\<exists>notice. (notice, Inr Delivered) \<in> set (di_pings (run_distribution example_calls (example_distribution ''linear''))) \<and>
      ps_url (an_pull_request notice) = pa_pr_url example_row) \<or>
    (\<exists>digest delivery. (digest, Inr delivery) \<in> set (di_digests (run_distribution example_calls (example_distribution ''linear''))) \<and>
      pa_pr_url example_row \<in> delivery)"
  by (rule notified_means_reached [of "example_distribution ''linear''" example_row example_calls])
    (simp_all add: example_state example_distribution_run, simp add: example_row_def)

end
