(* ===== verification/Distribution_Coverage.thy ===== *)
theory Distribution_Coverage
  imports Distribution_Guarantees
begin

text \<open>
  Who holds which pull request after a run of the distributor: a pull request is followed through the phases of the run
  by the active assignments of its URL.
\<close>

section \<open>The active assignments of a pull request\<close>

definition part :: "string \<Rightarrow> assignments_db \<Rightarrow> (int \<times> string) list" where
  "part url db = map (\<lambda>r. (pa_id r, pa_assignee r)) (filter (\<lambda>r. is_active r \<and> pa_pr_url r = url) (db_assignments db))"

definition holders :: "string \<Rightarrow> assignments_db \<Rightarrow> string list" where
  "holders url db = map snd (part url db)"

lemma part_empty: "part url db = [] \<longleftrightarrow> \<not> list_ex (\<lambda>r. pa_pr_url r = url \<and> is_active r) (db_assignments db)"
  by (auto simp: part_def filter_empty_conv list_ex_iff)

lemma part_update:
  assumes "\<And>r. p r \<Longrightarrow> is_active (f r) = is_active r \<and> pa_pr_url (f r) = pa_pr_url r \<and> pa_id (f r) = pa_id r \<and> pa_assignee (f r) = pa_assignee r"
  shows "part url (snd (update_assignments p f db)) = part url db"
proof -
  have "map (\<lambda>r. (pa_id r, pa_assignee r)) (filter (\<lambda>r. is_active r \<and> pa_pr_url r = url) (update_where p f rows)) =
      map (\<lambda>r. (pa_id r, pa_assignee r)) (filter (\<lambda>r. is_active r \<and> pa_pr_url r = url) rows)" for rows
    using assms by (induction rows) (auto simp: update_where_def)
  then show ?thesis by (simp add: part_def update_assignments_def)
qed

lemma part_mark [simp]: "part url (snd (mark_pr_assignment_notified now i db)) = part url db"
  unfolding mark_pr_assignment_notified_def by (rule part_update) (simp add: is_active_def)

lemma part_end:
  assumes "status \<noteq> Active"
  shows "part url (snd (end_pr_assignment now i status db)) = filter (\<lambda>(j, login). j \<noteq> i) (part url db)"
proof -
  let ?f = "\<lambda>r. r\<lparr>pa_status := assignment_status_as_str status, pa_ended_at := Some now\<rparr>"
  have "map (\<lambda>r. (pa_id r, pa_assignee r)) (filter (\<lambda>r. is_active r \<and> pa_pr_url r = url)
        (update_where (\<lambda>r. pa_id r = i \<and> is_active r) ?f rows)) =
      filter (\<lambda>(j, login). j \<noteq> i) (map (\<lambda>r. (pa_id r, pa_assignee r)) (filter (\<lambda>r. is_active r \<and> pa_pr_url r = url) rows))" for rows
    using assms by (induction rows) (auto simp: update_where_def is_active_def)
  then show ?thesis by (simp add: part_def end_pr_assignment_def update_assignments_def)
qed

lemma part_end_other:
  assumes "status \<noteq> Active" "names a db" "as_pr_url a \<noteq> url"
  shows "part url (snd (end_pr_assignment now (as_id a) status db)) = part url db"
proof -
  have "\<forall>(j, login) \<in> set (part url db). j \<noteq> as_id a" using assms(2,3) by (auto simp: part_def names_def)
  then show ?thesis unfolding part_end [OF assms(1)] by (intro filter_True) auto
qed

lemma part_record:
  assumes "assignments_ok db"
  shows "part url (snd (record_pr_assignment a db)) =
    (if as_pr_url a = url \<and> part url db = [] then [(db_next_assignment db, as_assignee a)] else part url db)"
proof (cases "part (as_pr_url a) db = []")
  case True
  then have "\<not> list_ex (\<lambda>x. pa_pr_url x = as_pr_url a \<and> is_active x) (db_assignments db)" unfolding part_empty .
  then show ?thesis
    using True unfolding record_pr_assignment_eq [OF assms] by (auto simp: part_def new_assignment_row_def is_active_def)
next
  case False
  then have "list_ex (\<lambda>x. pa_pr_url x = as_pr_url a \<and> is_active x) (db_assignments db)" unfolding part_empty by simp
  then show ?thesis using False unfolding record_pr_assignment_eq [OF assms] by (auto simp: part_def)
qed

text \<open>What the list of active assignments says of a URL.\<close>

definition part_of_active :: "(string \<Rightarrow> PrAssignment option) \<Rightarrow> string \<Rightarrow> (int \<times> string) list" where
  "part_of_active active url = (case active url of None \<Rightarrow> [] | Some a \<Rightarrow> [(as_id a, as_assignee a)])"

lemma active_by_url_find:
  "distinct (map as_pr_url as) \<Longrightarrow> active_by_url as url = find (\<lambda>a. as_pr_url a = url) as"
proof -
  assume distinct: "distinct (map as_pr_url as)"
  have none: "(\<And>a. a \<in> set bs \<Longrightarrow> as_pr_url a \<noteq> url) \<Longrightarrow> fold (\<lambda>a m. m(as_pr_url a \<mapsto> a)) bs m url = m url" for bs m
    by (induction bs arbitrary: m) auto
  have "distinct (map as_pr_url as) \<Longrightarrow> fold (\<lambda>a m. m(as_pr_url a \<mapsto> a)) as m url =
      (case find (\<lambda>a. as_pr_url a = url) as of None \<Rightarrow> m url | Some a \<Rightarrow> Some a)" for m
  proof (induction as arbitrary: m)
    case (Cons a as)
    show ?case
    proof (cases "as_pr_url a = url")
      case True
      then have "url \<notin> as_pr_url ` set as" using Cons.prems by simp
      then have "fold (\<lambda>a m. m(as_pr_url a \<mapsto> a)) as (m(as_pr_url a \<mapsto> a)) url = (m(as_pr_url a \<mapsto> a)) url"
        by (intro none) blast
      then show ?thesis using True by (simp del: fun_upd_apply) simp
    next
      case False
      then show ?thesis using Cons.IH [of "m(as_pr_url a \<mapsto> a)"] Cons.prems by (simp cong: option.case_cong)
    qed
  qed simp
  from this [OF distinct, of "\<lambda>url. None"] show ?thesis by (simp add: active_by_url_def split: option.split)
qed

lemma part_of_read:
  assumes "assignments_ok db" "active_pr_assignments db = Inr as"
  shows "part url db = part_of_active (active_by_url as) url"
proof -
  have as: "distinct (map as_pr_url as)"
    "a \<in> set as \<longleftrightarrow> (\<exists>r \<in> set (db_assignments db). is_active r \<and> row_to_pr_assignment r = Inr a)" for a
    using active_pr_assignments_read [OF assms(1)] assms(2) by auto
  let ?rows = "filter (\<lambda>r. is_active r \<and> pa_pr_url r = url) (db_assignments db)"
  have "distinct (map pa_pr_url (filter is_active (db_assignments db)))" using assms(1) by (simp add: assignments_ok_def)
  then have "distinct (map pa_pr_url (filter (\<lambda>r. pa_pr_url r = url) (filter is_active (db_assignments db))))"
    by (rule distinct_map_filter)
  then have distinct: "distinct (map pa_pr_url ?rows)" by (simp add: conj_commute)
  show ?thesis
  proof (cases ?rows)
    case Nil
    then have "as_pr_url a \<noteq> url" if "a \<in> set as" for a
      using that row_read_url unfolding as(2) filter_empty_conv by metis
    then have "find (\<lambda>a. as_pr_url a = url) as = None" by (simp add: find_None_iff)
    then show ?thesis using Nil by (simp add: part_def part_of_active_def active_by_url_find [OF as(1)])
  next
    case (Cons r rows)
    have "\<forall>x \<in> set ?rows. pa_pr_url x = url" by simp
    then have "rows = []" using distinct unfolding Cons by (cases rows) auto
    have r: "r \<in> set (db_assignments db)" "is_active r" "pa_pr_url r = url"
      using arg_cong [OF Cons, of set] by auto
    obtain a where a: "row_to_pr_assignment r = Inr a" using active_row_read [OF assms(1) r(1)] by blast
    have "a \<in> set as" unfolding as(2) using r a by blast
    moreover have fields: "as_pr_url a = url" "as_id a = pa_id r" "as_assignee a = pa_assignee r"
      using row_read_url [OF a] r(3) by simp_all
    ultimately have "find_by (\<lambda>a. as_pr_url a = url) as = Some a"
      using as(1) by (intro find_by_unique) (simp_all add: distinct_map inj_on_def)
    then have "find (\<lambda>a. as_pr_url a = url) as = Some a" by (simp add: find_by_def)
    then show ?thesis
      using Cons \<open>rows = []\<close> fields by (simp add: part_def part_of_active_def active_by_url_find [OF as(1)])
  qed
qed

section \<open>Phases that leave the store alone\<close>

text \<open>A condition on the assignments and the pings sent.\<close>

abbreviation on :: "(assignments_db \<Rightarrow> (AssignmentNotice \<times> PingDelivery result) list \<Rightarrow> bool) \<Rightarrow> distribution \<Rightarrow> bool" where
  "on P s \<equiv> P (di_db s) (di_pings s)"

abbreviation never :: "distribution \<Rightarrow> bool" where
  "never s \<equiv> False"

lemma on_outside: "triple (on P) (outside f) (\<lambda>_. on P) never"
  by (rule tripleI) (auto simp: outside_def)

lemma on_outside_stable: "(\<And>t. f t = x) \<Longrightarrow> triple (on P) (outside f) (\<lambda>y s. on P s \<and> y = x) never"
  by (rule tripleI) (auto simp: outside_def)

lemma on_read: "triple (on P) (read_store (\<lambda>db. Inr (q db))) (\<lambda>x s. on P s \<and> x = q (di_db s)) never"
  by (rule tripleI) (auto simp: read_store_def)

lemma on_outside_all: "triple (on P) (outside_all f xs) (\<lambda>_. on P) never"
  by (induction xs) (auto intro!: triple_bind [where Q = "\<lambda>_. on P"] triple_ret on_outside)

lemma on_codeowners: "triple (on P) (repository_codeowners d repo known) (\<lambda>_. on P) never"
  by (auto simp: repository_codeowners_def Let_def intro!: triple_bind [where Q = "\<lambda>_. on P"] triple_ret on_outside
      split: option.splits)

lemma on_authors: "triple (on P) (repository_authors d repo known) (\<lambda>_. on P) never"
  by (auto simp: repository_authors_def Let_def intro!: triple_bind [where Q = "\<lambda>_. on P"] triple_ret on_outside
      split: option.splits)

lemma on_evidence: "triple (on P) (evidence d repo number asked known) (\<lambda>_. on P) never"
  by (auto simp: evidence_def Let_def intro!: triple_bind [where Q = "\<lambda>_. on P"] triple_ret on_outside on_outside_all
      on_codeowners on_authors split: prod.splits)

lemma on_gather: "triple (on P) (gather d items known) (\<lambda>ps s. on P s \<and> map pe_key ps = map un_url items) never"
proof (induction items arbitrary: known)
  case (Cons item items)
  show ?case
    by (auto intro!: triple_bind [OF on_evidence] triple_bind [OF Cons.IH] triple_ret split: prod.splits)
qed (auto intro!: triple_ret)

section \<open>Reconciling\<close>

text \<open>What reconciling makes of a URL, given the answer of the host: its active assignments, and whether it waits.\<close>

definition reconciled :: "Distributor \<Rightarrow> (string \<Rightarrow> PrAssignment option) \<Rightarrow> string \<Rightarrow> PullRequest result \<Rightarrow> (int \<times> string) list \<times> bool" where
  "reconciled d active url answer =
     (case answer of
        Inl e \<Rightarrow> (part_of_active active url, False)
      | Inr pr \<Rightarrow>
          let needed = attention_is_needed (attention (ds_lower d) pr None)
          in if attention_is_finished (attention (ds_lower d) pr None) then ([], False)
             else case active url of
               None \<Rightarrow> ([], needed)
             | Some a \<Rightarrow>
                 if roster_find (ds_lower d) (ds_roster d) (as_assignee a) \<noteq> None
                 then (part_of_active active url, False) else ([], needed))"

definition waits :: "string \<Rightarrow> Reconciled \<Rightarrow> bool" where
  "waits url rc \<longleftrightarrow> url \<in> un_url ` set (rc_unassigned rc)"

definition indexed :: "PrAssignment set \<Rightarrow> (string \<Rightarrow> PrAssignment option) \<Rightarrow> bool" where
  "indexed A active \<longleftrightarrow> (\<forall>url a. active url = Some a \<longrightarrow> a \<in> A \<and> as_pr_url a = url)"

definition sound :: "PrAssignment set \<Rightarrow> assignments_db \<Rightarrow> bool" where
  "sound A db \<longleftrightarrow> assignments_ok db \<and> (\<forall>a \<in> A. names a db)"

lemma sound_end: "sound A db \<Longrightarrow> status \<noteq> Active \<Longrightarrow> sound A (snd (end_pr_assignment now i status db))"
  by (simp add: sound_def end_ok names_end)

lemma sound_mark: "sound A db \<Longrightarrow> sound A (snd (mark_pr_assignment_notified now i db))"
  by (simp add: sound_def mark_ok names_mark)

lemma sound_record: "sound A db \<Longrightarrow> sound A (snd (record_pr_assignment a db))"
  by (simp add: sound_def assignments_ok_record names_record)

lemma on_end:
  "triple (on P) (end_assignment a status) (\<lambda>_ s. \<exists>db now. P db (di_pings s) \<and> di_db s = snd (end_pr_assignment now (as_id a) status db)) never"
  by (rule tripleI)
    (auto simp: end_assignment_def write_store_eq end_pr_assignment_def update_assignments_def)

text \<open>Another pull request.\<close>

lemma reconcile_one_other:
  assumes "indexed A active" "fst pr \<noteq> url"
  shows "triple (on (\<lambda>db ps. sound A db \<and> C (part url db))) (reconcile_one d active pr acc)
    (\<lambda>rc s. sound A (di_db s) \<and> C (part url (di_db s)) \<and> waits url rc = waits url acc) never"
proof -
  obtain key repo number where pr: "pr = (key, repo, number)" by (metis prod_cases3)
  then have key: "key \<noteq> url" using assms(2) by simp
  have ends: "triple (on (\<lambda>db ps. sound A db \<and> C (part url db))) (bind_op (end_assignment a status) (\<lambda>ended. ret (g ended)))
      (\<lambda>rc s. sound A (di_db s) \<and> C (part url (di_db s)) \<and> waits url rc = waits url acc) never"
    if "status \<noteq> Active" "active key = Some a" "\<And>ended. waits url (g ended) = waits url acc" for a status and g :: "bool \<Rightarrow> Reconciled"
  proof (rule triple_bind [OF on_end])
    fix ended
    have a: "a \<in> A" "as_pr_url a \<noteq> url" using assms(1) that(2) key by (auto simp: indexed_def)
    have "sound A (snd (end_pr_assignment now (as_id a) status db)) \<and> C (part url (snd (end_pr_assignment now (as_id a) status db)))"
      if s: "sound A db \<and> C (part url db)" for db now
    proof -
      have "names a db" using s a(1) by (simp add: sound_def)
      then show ?thesis using s part_end_other [OF \<open>status \<noteq> Active\<close> _ a(2)] \<open>status \<noteq> Active\<close> by (simp add: sound_end)
    qed
    then show "triple (\<lambda>s. \<exists>db now. (sound A db \<and> C (part url db)) \<and> di_db s = snd (end_pr_assignment now (as_id a) status db))
        (ret (g ended)) (\<lambda>rc s. sound A (di_db s) \<and> C (part url (di_db s)) \<and> waits url rc = waits url acc) never"
      using that(3) by (intro triple_ret) auto
  qed
  have wait: "waits url (wait_for d key p previous rc) = waits url rc" for p previous rc
    using key by (auto simp: waits_def wait_for_def)
  have same: "waits url (acc\<lparr>rc_held := h\<rparr>) = waits url acc" "waits url (acc\<lparr>rc_held := h, rc_kept := k\<rparr>) = waits url acc"
    "waits url (acc\<lparr>rc_outcome := out\<rparr>) = waits url acc"
    "waits url (if b then acc\<lparr>rc_outcome := out\<rparr> else acc) = waits url acc" for h k out b
    by (simp_all add: waits_def)
  show ?thesis
    unfolding reconcile_one_def pr prod.case
    by (rule triple_bind [OF on_outside])
      (auto simp: wait same intro!: triple_ret ends triple_if split: sum.splits option.splits)
qed

text \<open>The pull request itself, while the host keeps to its answer.\<close>

lemma reconcile_one_self:
  assumes "indexed A active" "\<not> waits url acc"
    and "\<And>t. ho_pull_request (ds_host d) t repo number = answer"
  shows "triple (on (\<lambda>db ps. sound A db \<and> part url db = part_of_active active url)) (reconcile_one d active (url, repo, number) acc)
    (\<lambda>rc s. sound A (di_db s) \<and> (part url (di_db s), waits url rc) = reconciled d active url answer) never"
proof -
  have ends: "triple (on (\<lambda>db ps. sound A db \<and> part url db = part_of_active active url))
      (bind_op (end_assignment a status) (\<lambda>ended. ret (g ended)))
      (\<lambda>rc s. sound A (di_db s) \<and> part url (di_db s) = [] \<and> waits url rc = w) never"
    if "status \<noteq> Active" "active url = Some a" "\<And>ended. waits url (g ended) = w" for a status w and g :: "bool \<Rightarrow> Reconciled"
  proof (rule triple_bind [OF on_end])
    fix ended
    show "triple (\<lambda>s. \<exists>db now. (sound A db \<and> part url db = part_of_active active url) \<and> di_db s = snd (end_pr_assignment now (as_id a) status db))
        (ret (g ended)) (\<lambda>rc s. sound A (di_db s) \<and> part url (di_db s) = [] \<and> waits url rc = w) never"
      using that by (intro triple_ret) (auto simp: sound_end part_end part_of_active_def)
  qed
  have wait: "waits url (wait_for d url p previous rc) \<longleftrightarrow> waits url rc \<or> attention_is_needed (attention (ds_lower d) p None)" for p previous rc
    by (auto simp: waits_def wait_for_def)
  have same: "waits url (acc\<lparr>rc_held := h\<rparr>) = waits url acc" "waits url (acc\<lparr>rc_held := h, rc_kept := k\<rparr>) = waits url acc"
    "waits url (acc\<lparr>rc_outcome := out\<rparr>) = waits url acc"
    "waits url (if b then acc\<lparr>rc_outcome := out\<rparr> else acc) = waits url acc" for h k out b
    by (simp_all add: waits_def)
  show ?thesis
    unfolding reconcile_one_def prod.case
  proof (rule triple_bind [OF on_outside_stable [OF assms(3)]])
    fix y :: "PullRequest result"
    let ?P = "\<lambda>s. sound A (di_db s) \<and> part url (di_db s) = part_of_active active url"
    let ?Q = "\<lambda>rc s. sound A (di_db s) \<and> (part url (di_db s), waits url rc) = reconciled d active url answer"
    let ?m = "case y of
         Inl e \<Rightarrow>
           ret (case active url of None \<Rightarrow> acc | Some a \<Rightarrow> acc\<lparr>rc_held := rc_held acc @ [as_assignee a]\<rparr>)
       | Inr pr \<Rightarrow>
           if attention_is_finished (attention (ds_lower d) pr None)
           then (case active url of
                   None \<Rightarrow> ret acc
                 | Some a \<Rightarrow>
                     bind_op (end_assignment a Closed_Assignment) (\<lambda>ended.
                       ret (if ended
                            then acc\<lparr>rc_outcome := (rc_outcome acc)\<lparr>oc_closed := oc_closed (rc_outcome acc) + 1\<rparr>\<rparr>
                            else acc)))
           else (case active url of
                   None \<Rightarrow> ret (wait_for d url pr None acc)
                 | Some a \<Rightarrow>
                     if roster_find (ds_lower d) (ds_roster d) (as_assignee a) \<noteq> None
                     then ret (acc\<lparr>rc_held := rc_held acc @ [as_assignee a], rc_kept := rc_kept acc @ [(pr, a)]\<rparr>)
                     else
                       bind_op (end_assignment a Released) (\<lambda>ended.
                         ret (wait_for d url pr (Some (as_assignee a))
                           (if ended
                            then acc\<lparr>rc_outcome := (rc_outcome acc)\<lparr>oc_released := oc_released (rc_outcome acc) + 1\<rparr>\<rparr>
                            else acc))))"
    have "triple ?P ?m ?Q never" if y: "y = answer"
    proof (cases answer)
      case (Inl e)
      then show ?thesis using assms(2) y
        by (auto intro!: triple_ret simp: reconciled_def same split: option.splits)
    next
      case (Inr pr)
      show ?thesis
      proof (cases "active url")
        case None
        then show ?thesis using assms(2) y Inr
          by (auto intro!: triple_ret triple_if simp: reconciled_def Let_def wait part_of_active_def)
      next
        case (Some a)
        note closed = ends [OF _ Some, of Closed_Assignment _ False]
        note released = ends [OF _ Some, of Released _ "attention_is_needed (attention (ds_lower d) pr None)"]
        show ?thesis unfolding y Inr Some sum.case option.case
          using assms(2) Some Inr
          by (intro triple_if triple_ret triple_weaken [OF closed] triple_weaken [OF released])
            (auto simp: reconciled_def Let_def wait same)
      qed
    qed
    then show "triple (\<lambda>s. ?P s \<and> y = answer) ?m ?Q never" by (cases "y = answer") (auto simp: triple_def)
  qed
qed


lemma reconcile_others:
  assumes "indexed A active"
  shows "url \<notin> fst ` set prs \<Longrightarrow> triple (on (\<lambda>db ps. sound A db \<and> C (part url db))) (reconcile d active prs acc)
    (\<lambda>rc s. sound A (di_db s) \<and> C (part url (di_db s)) \<and> waits url rc = waits url acc) never"
proof (induction prs arbitrary: acc)
  case (Cons pr prs)
  have pr: "fst pr \<noteq> url" using Cons.prems by auto
  have rest: "triple (\<lambda>s. sound A (di_db s) \<and> C (part url (di_db s)) \<and> waits url rc = waits url acc) (reconcile d active prs rc)
      (\<lambda>rc s. sound A (di_db s) \<and> C (part url (di_db s)) \<and> waits url rc = waits url acc) never" for rc
  proof (cases "waits url rc = waits url acc")
    case True
    then show ?thesis using Cons.IH [of rc] Cons.prems by simp
  qed (simp add: triple_def)
  show ?case unfolding reconcile.simps by (rule triple_bind [OF reconcile_one_other [OF assms pr] rest])
qed (simp add: triple_ret)

lemma reconcile_run:
  assumes "indexed A active"
    and "\<And>t. ho_pull_request (ds_host d) t repo number = answer"
  shows "distinct (map fst prs) \<Longrightarrow> (url, repo, number) \<in> set prs \<Longrightarrow> \<not> waits url acc \<Longrightarrow>
    triple (on (\<lambda>db ps. sound A db \<and> part url db = part_of_active active url)) (reconcile d active prs acc)
    (\<lambda>rc s. sound A (di_db s) \<and> (part url (di_db s), waits url rc) = reconciled d active url answer) never"
proof (induction prs arbitrary: acc)
  case (Cons pr prs)
  let ?Q = "\<lambda>rc s. sound A (di_db s) \<and> (part url (di_db s), waits url rc) = reconciled d active url answer"
  show ?case
  proof (cases "pr = (url, repo, number)")
    case True
    then have "url \<notin> fst ` set prs" using Cons.prems(1) by simp
    note rest = reconcile_others [OF assms(1) this, where d = d and C = "\<lambda>p. p = fst (reconciled d active url answer)"]
    have next_turns: "triple (?Q rc) (reconcile d active prs rc) ?Q never" for rc
    proof (cases "waits url rc = snd (reconciled d active url answer)")
      case True
      then show ?thesis by (intro triple_weaken [OF rest [where acc = rc]]) (auto simp: prod_eq_iff)
    qed (auto simp: triple_def prod_eq_iff)
    show ?thesis unfolding True reconcile.simps
      by (rule triple_bind [OF reconcile_one_self [OF assms(1) Cons.prems(3) assms(2)] next_turns])
  next
    case False
    then have pr: "(url, repo, number) \<in> set prs" using Cons.prems(2) by simp
    then have other: "fst pr \<noteq> url" using Cons.prems(1) by (auto simp: rev_image_eqI)
    have next_turns: "triple (\<lambda>s. sound A (di_db s) \<and> part url (di_db s) = part_of_active active url \<and> waits url rc = waits url acc)
        (reconcile d active prs rc) ?Q never" for rc
    proof (cases "waits url rc")
      case False
      then show ?thesis using Cons.IH [of rc] Cons.prems pr by simp
    qed (use Cons.prems in \<open>simp add: triple_def\<close>)
    show ?thesis unfolding reconcile.simps
      by (rule triple_bind [OF reconcile_one_other [OF assms(1) other, where C = "\<lambda>p. p = part_of_active active url"] next_turns])
  qed
qed simp

section \<open>Recording the decisions\<close>

definition settled :: "string \<Rightarrow> Unassigned list \<Rightarrow> Decision list \<Rightarrow> (int \<times> string) list \<Rightarrow> (int \<times> string) list \<Rightarrow> bool" where
  "settled url items decisions p q \<longleftrightarrow>
     (if p = [] \<and> url \<in> un_url ` set items \<and> url \<in> de_key ` set decisions
      then \<exists>n. \<exists>decision \<in> set decisions. q = [(n, de_assignee decision)] else q = p)"

lemma on_record:
  assumes "\<And>db ps. P db ps \<Longrightarrow> assignments_ok db"
  shows "triple (on P) (write_store (\<lambda>now. record_pr_assignment (f now)))
      (\<lambda>_ s. \<exists>db now. P db (di_pings s) \<and> di_db s = snd (record_pr_assignment (f now) db)) never"
proof -
  have "\<exists>stored s'. write_store (\<lambda>now. record_pr_assignment (f now)) s = (Inr stored, s') \<and> di_pings s' = di_pings s \<and>
      (\<exists>now. di_db s' = snd (record_pr_assignment (f now) (di_db s)))" if s: "on P s" for s
  proof -
    let ?a = "f (di_clock s (di_ticks s))"
    obtain stored where "fst (record_pr_assignment ?a (di_db s)) = Inr stored"
      using assms [OF s] record_Inr by blast
    then have "write_store (\<lambda>now. record_pr_assignment (f now)) s =
        (Inr stored, s\<lparr>di_ticks := di_ticks s + 1, di_db := snd (record_pr_assignment ?a (di_db s))\<rparr>)"
      by (simp add: write_store_eq case_prod_unfold)
    then show ?thesis by auto
  qed
  then show ?thesis by (intro tripleI) force+
qed

lemma record_decisions_settle:
  "triple (on (\<lambda>db ps. sound A db \<and> part url db = p)) (record_decisions items decisions)
     (\<lambda>_ s. sound A (di_db s) \<and> settled url items decisions p (part url (di_db s))) never"
proof (induction decisions arbitrary: p)
  case Nil
  show ?case by (auto simp: settled_def intro: triple_ret)
next
  case (Cons decision decisions)
  show ?case
  proof (cases "find (\<lambda>item. un_url item = de_key decision) items")
    case None
    then have "de_key decision \<notin> un_url ` set items" by (auto simp: find_None_iff)
    then have "settled url items (decision # decisions) p q" if "settled url items decisions p q" for q
      using that by (cases "url = de_key decision") (auto simp: settled_def split: if_splits)
    then show ?thesis unfolding record_decisions.simps None option.case by (auto intro: triple_weaken [OF Cons.IH])
  next
    case (Some item)
    then have item: "item \<in> set items" "un_url item = de_key decision" by (auto simp: find_Some_iff)
    let ?f = "assignment_of decision (un_url item) (pr_repo (un_pull_request item)) (pr_number (un_pull_request item)) (un_previous item)"
    let ?P = "\<lambda>q s. \<exists>n. sound A (di_db s) \<and> part url (di_db s) = q n"
    let ?q = "\<lambda>n. if de_key decision = url \<and> p = [] then [(n :: int, de_assignee decision)] else p"
    have q: "settled url items (decision # decisions) p r" if "settled url items decisions (?q n) r" for n r
      using that item by (auto simp: settled_def split: if_splits)
    have rest: "triple (on (\<lambda>db ps. sound A db \<and> part url db = ?q n))
        (bind_op (record_decisions items decisions) (\<lambda>rest. ret (g rest)))
        (\<lambda>_ s. sound A (di_db s) \<and> settled url items (decision # decisions) p (part url (di_db s))) never"
      for n and g :: "(PullRequest \<times> PrAssignment) list \<Rightarrow> (PullRequest \<times> PrAssignment) list"
      by (rule triple_bind [OF Cons.IH]) (rule triple_ret, elim conjE, intro conjI, assumption, rule q)
    have "triple (?P ?q) (bind_op (record_decisions items decisions) (\<lambda>rest. ret (g rest)))
        (\<lambda>_ s. sound A (di_db s) \<and> settled url items (decision # decisions) p (part url (di_db s))) never"
      for g :: "(PullRequest \<times> PrAssignment) list \<Rightarrow> (PullRequest \<times> PrAssignment) list"
      using rest by (intro triple_ex)
    then show ?thesis
      unfolding record_decisions.simps Some option.case
    proof (rule triple_bind [rotated])
      show "triple (on (\<lambda>db ps. sound A db \<and> part url db = p)) (write_store (\<lambda>now. record_pr_assignment (?f now))) (\<lambda>_. ?P ?q) never"
        by (rule triple_weaken [OF on_record [where P = "\<lambda>db ps. sound A db \<and> part url db = p"]])
          (auto simp: part_record sound_def assignments_ok_record names_record assignment_of_def new_pr_assignment_def item(2) split: if_splits)
    qed
  qed
qed


section \<open>Telling the assignees\<close>

text \<open>Nobody is assigned or released any more.\<close>

abbreviation stays :: "string \<Rightarrow> ((int \<times> string) list \<Rightarrow> bool) \<Rightarrow> distribution \<Rightarrow> bool" where
  "stays url C s \<equiv> C (part url (di_db s))"

lemma held_mark:
  "triple (stays url C) (write_store (\<lambda>now. mark_pr_assignment_notified now i)) (\<lambda>_. stays url C) (stays url C)"
  by (rule triple_allI) (auto simp: write_store_eq case_prod_unfold)

lemma held_notify: "triple (stays url C) (notify_assignment d notice) (\<lambda>_. stays url C) (stays url C)"
  by (rule triple_allI) (auto simp: notify_assignment_def Let_def)

lemma held_ping: "triple (stays url C) (ping_assignee d developer pr a) (\<lambda>_. stays url C) (stays url C)"
  unfolding ping_assignee_def
  by (intro triple_bind [where Q = "\<lambda>_. stays url C"] triple_if held_mark held_notify triple_ret)

lemma held_ping_all: "triple (stays url C) (ping_all d current n) (\<lambda>_. stays url C) (stays url C)"
proof (induction d current n rule: ping_all.induct)
  case (2 d pr a current undelivered)
  then show ?case
    by (auto intro!: triple_if triple_bind [where Q = "\<lambda>_. stays url C"] triple_catch held_ping split: option.splits)
qed (auto intro!: triple_ret)

lemma held_tell: "triple (stays url C) (tell_assignees d now current outcome) (\<lambda>_. stays url C) (stays url C)"
proof -
  have digest: "triple (stays url C) (notify_digest d digest) (\<lambda>_. stays url C) (stays url C)" for digest
    by (rule triple_allI) (auto simp: notify_digest_def Let_def)
  have mark: "triple (stays url C) (mark_delivered delivery x) (\<lambda>_. stays url C) (stays url C)" for delivery x
    by (cases x) (auto simp: mark_delivered_def intro!: triple_if triple_ret triple_bind [where Q = "\<lambda>_. stays url C"] held_mark)
  show ?thesis
    unfolding tell_assignees_def Let_def
    by (intro triple_if triple_ret triple_bind [where Q = "\<lambda>_. stays url C"] digest mark triple_for_each held_ping_all triple_fail)
qed

section \<open>A whole run\<close>

lemma balancer_decides:
  assumes "roster_ok lower (ba_roster b)" "ro_developers (ba_roster b) \<noteq> []"
  shows "de_key ` set (balancer_assign lower b pending held) = pe_key ` set pending"
    "decision \<in> set (balancer_assign lower b pending held) \<Longrightarrow> de_assignee decision \<in> dv_login ` set (ro_developers (ba_roster b))"
proof -
  let ?r = "ba_roster b"
  let ?ps = "sort_key (\<lambda>p. (- best_score p, pe_key p)) pending"
  have sound: "list_all2 (decided_soundly (developer_index lower ?r) (ro_developers ?r) (share_of lower b pending held)
      (held_loads lower ?r held) (balancer_assign lower b pending held)) ?ps (balancer_assign lower b pending held)"
    unfolding assign_placed [OF assms(2)]
    by (intro place_all_sound logins_distinct [OF assms(1)] index_in_range held_loads_length share_enough [OF assms(2)]) simp
  have "list_all2 (\<lambda>p d. pe_key p = de_key d) ?ps (balancer_assign lower b pending held)"
    by (rule list_all2_mono [OF sound]) (simp add: decided_soundly_def)
  then have "map pe_key ?ps = map de_key (balancer_assign lower b pending held)"
    by (simp add: list_all2_conv_all_nth list_eq_iff_nth_eq)
  from arg_cong [OF this, of set] show "de_key ` set (balancer_assign lower b pending held) = pe_key ` set pending" by simp
  show "de_assignee decision \<in> dv_login ` set (ro_developers ?r)" if "decision \<in> set (balancer_assign lower b pending held)"
    using sound that by (auto simp: decided_soundly_def list_all2_conv_all_nth in_set_conv_nth)
qed


definition final :: "Distributor \<Rightarrow> (int \<times> string) list \<times> bool \<Rightarrow> (int \<times> string) list \<Rightarrow> bool" where
  "final d pw q \<longleftrightarrow>
     (if fst pw = [] \<and> snd pw then \<exists>n login. login \<in> dv_login ` set (ro_developers (ds_roster d)) \<and> q = [(n, login)]
      else q = fst pw)"

lemma after_reconciling:
  assumes "roster_ok (ds_lower d) (ds_roster d)" "ro_developers (ds_roster d) \<noteq> []"
  shows "triple (on (\<lambda>db ps. sound A db \<and> (part url db, waits url rc) = pw))
     (bind_op (gather d (rc_unassigned rc) no_repositories) (\<lambda>ps.
      bind_op (record_decisions (rc_unassigned rc) (balancer_assign (ds_lower d) (balancer_of d) ps (rc_held rc))) (\<lambda>assigned.
        tell_assignees d now (rc_kept rc @ assigned) (outcome assigned))))
     (\<lambda>_. stays url (final d pw)) (stays url (final d pw))"
proof (cases "waits url rc = snd pw")
  case True
  let ?bal = "\<lambda>ps. balancer_assign (ds_lower d) (balancer_of d) ps (rc_held rc)"
  have decides: "final d pw q"
    if keys: "map pe_key ps = map un_url (rc_unassigned rc)" and q: "settled url (rc_unassigned rc) (?bal ps) (fst pw) q" for ps q
  proof -
    have "roster_ok (ds_lower d) (ba_roster (balancer_of d))" "ro_developers (ba_roster (balancer_of d)) \<noteq> []"
      using assms by (simp_all add: balancer_of_def)
    note decided = balancer_decides [OF this, where pending = ps and held = "rc_held rc"]
    have "pe_key ` set ps = un_url ` set (rc_unassigned rc)" using arg_cong [OF keys, of set] by simp
    then have "de_key ` set (?bal ps) = un_url ` set (rc_unassigned rc)" using decided(1) by simp
    then have "settled url (rc_unassigned rc) (?bal ps) (fst pw) q \<longleftrightarrow>
        (if fst pw = [] \<and> snd pw then \<exists>n. \<exists>decision \<in> set (?bal ps). q = [(n, de_assignee decision)] else q = fst pw)"
      using True by (simp add: settled_def waits_def)
    moreover have "de_assignee decision \<in> dv_login ` set (ro_developers (ds_roster d))" if "decision \<in> set (?bal ps)" for decision
      using decided(2) [OF that] unfolding balancer_of_def by simp
    ultimately show ?thesis using q unfolding final_def by (metis (no_types, lifting))
  qed
  have rest: "triple (\<lambda>s. on (\<lambda>db ps. sound A db \<and> part url db = fst pw) s \<and> map pe_key ps = map un_url (rc_unassigned rc))
     (bind_op (record_decisions (rc_unassigned rc) (?bal ps)) (\<lambda>assigned.
        tell_assignees d now (rc_kept rc @ assigned) (outcome assigned)))
     (\<lambda>_. stays url (final d pw)) (stays url (final d pw))" for ps
  proof (cases "map pe_key ps = map un_url (rc_unassigned rc)")
    case True
    show ?thesis
      by (rule triple_bind [where Q = "\<lambda>_. stays url (final d pw)"])
        (rule triple_weaken [OF record_decisions_settle], use True decides in auto, rule held_tell)
  qed (simp add: triple_def)
  show ?thesis
    by (rule triple_bind [OF triple_weaken [OF on_gather [where P = "\<lambda>db ps. sound A db \<and> part url db = fst pw"]] rest]) auto
qed (auto simp: triple_def)

lemma distribute_final:
  assumes roster: "roster_ok (ds_lower d) (ds_roster d)" "ro_developers (ds_roster d) \<noteq> []"
    and store: "assignments_ok (di_db s)" "active_pr_assignments (di_db s) = Inr as"
    and reconciling: "triple (on (\<lambda>db ps. sound (set as) db \<and> part url db = part_of_active (active_by_url as) url))
      (reconcile d (active_by_url as) (open_pull_requests (get_pending_prs (di_db s)) as) nothing_reconciled)
      (\<lambda>rc s. sound (set as) (di_db s) \<and> (part url (di_db s), waits url rc) = pw) never"
  shows "final d pw (part url (di_db (snd (distribute d now s))))"
proof -
  have eq: "distribute d now s =
      bind_op (reconcile d (active_by_url as) (open_pull_requests (get_pending_prs (di_db s)) as) nothing_reconciled) (\<lambda>rc.
      bind_op (gather d (rc_unassigned rc) no_repositories) (\<lambda>ps.
      bind_op (record_decisions (rc_unassigned rc) (balancer_assign (ds_lower d) (balancer_of d) ps (rc_held rc))) (\<lambda>assigned.
        tell_assignees d now (rc_kept rc @ assigned)
          ((rc_outcome rc)\<lparr>oc_assigned := oc_assigned (rc_outcome rc) + length assigned\<rparr>)))) s"
    by (simp add: distribute_def bind_op_def read_store_def store(2))
  have "sound (set as) (di_db s)" using active_names [OF store] store(1) by (simp add: sound_def)
  moreover have "part url (di_db s) = part_of_active (active_by_url as) url" by (rule part_of_read [OF store])
  moreover have "triple (on (\<lambda>db ps. sound (set as) db \<and> part url db = part_of_active (active_by_url as) url))
     (bind_op (reconcile d (active_by_url as) (open_pull_requests (get_pending_prs (di_db s)) as) nothing_reconciled) (\<lambda>rc.
      bind_op (gather d (rc_unassigned rc) no_repositories) (\<lambda>ps.
      bind_op (record_decisions (rc_unassigned rc) (balancer_assign (ds_lower d) (balancer_of d) ps (rc_held rc))) (\<lambda>assigned.
        tell_assignees d now (rc_kept rc @ assigned)
          ((rc_outcome rc)\<lparr>oc_assigned := oc_assigned (rc_outcome rc) + length assigned\<rparr>)))))
     (\<lambda>_. stays url (final d pw)) (stays url (final d pw))"
    by (rule triple_bind [OF triple_weaken [OF reconciling] after_reconciling [OF roster, where A = "set as"]]) simp_all
  ultimately show ?thesis unfolding eq using triple_snd by fastforce
qed


section \<open>Which pull requests a run looks at\<close>

lemma btree_insert_keys: "set (map fst (btree_insert k v entries)) = insert k (set (map fst entries))"
proof (induction entries)
  case (Cons e entries)
  then show ?case by (cases e) (simp add: insert_commute)
qed simp

lemma btree_insert_sorted:
  "sorted_wrt (<) (map fst entries) \<Longrightarrow> sorted_wrt (<) (map fst (btree_insert k v entries))"
proof (induction entries)
  case (Cons e entries)
  then show ?case
    using btree_insert_keys [of k v entries] by (cases e) (auto simp flip: set_map)
qed simp

lemma add_pending_keys:
  "set (map fst (add_pending attempt entries)) \<subseteq> set (map fst entries) \<union>
     {url. at_pr_url attempt = Some url \<and> at_source attempt \<noteq> security_fix_source \<and> github_pull_request url \<noteq> None}"
  by (auto simp: add_pending_def btree_insert_keys simp del: set_map split: option.splits)

lemma add_pending_sorted: "sorted_wrt (<) (map fst entries) \<Longrightarrow> sorted_wrt (<) (map fst (add_pending attempt entries))"
  by (auto simp: add_pending_def btree_insert_sorted split: option.splits)

lemma add_active_keys: "set (map fst (add_active a entries)) = insert (as_pr_url a) (set (map fst entries))"
  by (auto simp: add_active_def btree_or_insert_def btree_insert_keys simp del: set_map)

lemma add_active_sorted: "sorted_wrt (<) (map fst entries) \<Longrightarrow> sorted_wrt (<) (map fst (add_active a entries))"
  by (simp add: add_active_def btree_or_insert_def btree_insert_sorted)

lemma fold_closed: "P z \<Longrightarrow> (\<And>x y. P y \<Longrightarrow> P (f x y)) \<Longrightarrow> P (fold f xs z)"
  by (induction xs arbitrary: z) simp_all

lemma open_distinct: "distinct (map fst (open_pull_requests pending as))"
proof -
  have "sorted_wrt (<) (map fst (open_pull_requests pending as))"
    unfolding open_pull_requests_def
    by (intro fold_closed [where P = "\<lambda>entries. sorted_wrt (<) (map fst entries)"] add_active_sorted add_pending_sorted) simp
  then show ?thesis by (simp add: strict_sorted_iff)
qed

lemma part_holders: "holders url db = [] \<longleftrightarrow> part url db = []"
  by (simp add: holders_def)

lemma roster_has: "roster_ok lower r \<Longrightarrow> login \<in> dv_login ` set (ro_developers r) \<Longrightarrow> roster_find lower r login \<noteq> None"
  using finds_own_login by fastforce

text \<open>A pull request that the run looks at, and whose host keeps to its answer.\<close>

lemma distribute_open:
  assumes roster: "roster_ok (ds_lower d) (ds_roster d)" "ro_developers (ds_roster d) \<noteq> []"
    and store: "assignments_ok (di_db s)" "active_pr_assignments (di_db s) = Inr as"
    and open_pr: "(url, repo, number) \<in> set (open_pull_requests (get_pending_prs (di_db s)) as)"
    and host: "\<And>t. ho_pull_request (ds_host d) t repo number = answer"
  shows "final d (reconciled d (active_by_url as) url answer) (part url (di_db (snd (distribute d now s))))"
proof (rule distribute_final [OF roster store])
  have "indexed (set as) (active_by_url as)" using active_by_url_Some by (auto simp: indexed_def)
  moreover have "\<not> waits url nothing_reconciled" by (simp add: waits_def nothing_reconciled_def)
  ultimately show "triple (on (\<lambda>db ps. sound (set as) db \<and> part url db = part_of_active (active_by_url as) url))
      (reconcile d (active_by_url as) (open_pull_requests (get_pending_prs (di_db s)) as) nothing_reconciled)
      (\<lambda>rc s. sound (set as) (di_db s) \<and> (part url (di_db s), waits url rc) = reconciled d (active_by_url as) url answer) never"
    using host open_distinct open_pr by (intro reconcile_run) auto
qed

section \<open>Who holds a pull request after a run\<close>

lemma btree_insert_in: "(k, v) \<in> set (btree_insert k v entries)"
  by (induction entries) auto

lemma btree_insert_others: "(l, w) \<in> set entries \<Longrightarrow> l \<noteq> k \<Longrightarrow> (l, w) \<in> set (btree_insert k v entries)"
  by (induction entries) auto

lemma add_pending_others:
  "github_pull_request url = Some pr \<Longrightarrow> (url, pr) \<in> set entries \<Longrightarrow> (url, pr) \<in> set (add_pending attempt entries)"
  by (auto simp: add_pending_def split: option.splits)
    (metis btree_insert_in btree_insert_others option.inject)

lemma pending_is_open:
  assumes "attempt \<in> set pending" "at_source attempt \<noteq> security_fix_source" "at_pr_url attempt = Some url"
    and pr: "github_pull_request url = Some pr"
  shows "(url, pr) \<in> set (open_pull_requests pending as)"
proof -
  obtain before after where split: "pending = before @ attempt # after" using assms(1) by (auto simp: in_set_conv_decomp)
  have "(url, pr) \<in> set (add_pending attempt entries)" for entries
    using assms(2-4) by (simp add: add_pending_def btree_insert_in)
  then have "(url, pr) \<in> set (fold add_pending pending [])"
    unfolding split by (simp add: fold_closed [where P = "\<lambda>entries. (url, pr) \<in> set entries"] add_pending_others [OF pr])
  then show ?thesis
    unfolding open_pull_requests_def
    by (elim fold_closed [where P = "\<lambda>entries. (url, pr) \<in> set entries"])
      (auto simp: add_active_def btree_or_insert_def rev_image_eqI intro!: btree_insert_others)
qed

lemma distribute_pending:
  assumes "roster_ok (ds_lower d) (ds_roster d)" "ro_developers (ds_roster d) \<noteq> []" "assignments_ok (di_db s)"
    and "attempt \<in> set (get_pending_prs (di_db s))" "at_source attempt \<noteq> security_fix_source" "at_pr_url attempt = Some url"
    and "github_pull_request url = Some (repo, number)" "\<And>t. ho_pull_request (ds_host d) t repo number = answer"
  obtains active where "part url (di_db s) = part_of_active active url"
    "final d (reconciled d active url answer) (part url (di_db (snd (distribute d now s))))"
proof -
  obtain as where as: "active_pr_assignments (di_db s) = Inr as" using active_pr_assignments_read [OF assms(3)] by blast
  show thesis
    by (rule that [OF part_of_read [OF assms(3) as] distribute_open [OF assms(1-3) as pending_is_open [OF assms(4-7)] assms(8)]])
qed

text \<open>
  Property C2. Every open pull request of a fix that needs attention has exactly one assignee after a run, and that is a
  developer of the roster, the one who had it before if they are still on the roster; whatever the notifier answers,
  also when the run fails because a message could not be sent.
\<close>

theorem open_prs_get_one_assignee:
  assumes "roster_ok (ds_lower d) (ds_roster d)" "ro_developers (ds_roster d) \<noteq> []" "assignments_ok (di_db s)"
    and "attempt \<in> set (get_pending_prs (di_db s))" "at_source attempt \<noteq> security_fix_source" "at_pr_url attempt = Some url"
    and "github_pull_request url = Some (repo, number)" "\<And>t. ho_pull_request (ds_host d) t repo number = Inr pr"
    and "attention_is_needed (attention (ds_lower d) pr None)"
  shows "\<exists>login. holders url (di_db (snd (distribute d now s))) = [login] \<and>
    roster_find (ds_lower d) (ds_roster d) login \<noteq> None \<and>
    (\<forall>l \<in> set (holders url (di_db s)). roster_find (ds_lower d) (ds_roster d) l \<noteq> None \<longrightarrow> login = l)"
proof -
  obtain active where active: "part url (di_db s) = part_of_active active url"
    and after: "final d (reconciled d active url (Inr pr)) (part url (di_db (snd (distribute d now s))))"
    using assms(1-8) by (rule distribute_pending)
  have "\<not> attention_is_finished (attention (ds_lower d) pr None)"
    using assms(9) by (auto simp: attention_is_needed_def attention_is_finished_def)
  then show ?thesis
    using after assms(9) roster_has [OF assms(1)]
    by (fastforce simp: holders_def active part_of_active_def reconciled_def final_def split: option.splits if_splits)
qed

text \<open>
  The pull requests a run asks its host about: those of pending attempts that are not security fixes, by their URL, and
  those that are known only by an active assignment, by the repository and number it recorded.
\<close>

definition asked_about :: "assignments_db \<Rightarrow> string \<Rightarrow> (string \<times> int) option" where
  "asked_about db url =
     (if list_ex (\<lambda>a. at_source a \<noteq> security_fix_source \<and> at_pr_url a = Some url) (get_pending_prs db) \<and>
         github_pull_request url \<noteq> None
      then github_pull_request url
      else map_option (\<lambda>r. (pa_repo r, pa_pr_number r))
        (find_by (\<lambda>r. is_active r \<and> pa_pr_url r = url) (db_assignments db)))"

lemma pending_not_open:
  assumes "\<forall>attempt \<in> set pending. at_pr_url attempt = Some url \<longrightarrow>
      at_source attempt = security_fix_source \<or> github_pull_request url = None"
  shows "url \<notin> set (map fst entries) \<Longrightarrow> url \<notin> set (map fst (fold add_pending pending entries))"
  using assms
proof (induction pending arbitrary: entries)
  case (Cons attempt pending)
  then have "url \<notin> set (map fst (add_pending attempt entries))" using add_pending_keys [of attempt entries] by auto
  then show ?case using Cons by simp
qed simp

lemma active_not_open:
  "\<forall>a \<in> set as. as_pr_url a \<noteq> url \<Longrightarrow> url \<notin> set (map fst entries) \<Longrightarrow> url \<notin> set (map fst (fold add_active as entries))"
proof (induction as arbitrary: entries)
  case (Cons a as)
  then have "url \<notin> set (map fst (add_active a entries))" unfolding add_active_keys by auto
  then show ?case using Cons by simp
qed simp

lemma active_keeps: "(url, pr) \<in> set entries \<Longrightarrow> (url, pr) \<in> set (fold add_active as entries)"
  by (elim fold_closed [where P = "\<lambda>entries. (url, pr) \<in> set entries"])
    (auto simp: add_active_def btree_or_insert_def rev_image_eqI intro!: btree_insert_others)

lemma active_is_open:
  assumes "distinct (map as_pr_url as)" "a \<in> set as" "as_pr_url a = url" "url \<notin> set (map fst entries)"
  shows "(url, as_repo a, as_pr_number a) \<in> set (fold add_active as entries)"
proof -
  obtain before after where split: "as = before @ a # after" using assms(2) by (auto simp: in_set_conv_decomp)
  then have "\<forall>b \<in> set before. as_pr_url b \<noteq> url" using assms(1,3) by (auto simp: rev_image_eqI)
  then have "url \<notin> set (map fst (fold add_active before entries))" by (rule active_not_open [OF _ assms(4)])
  then have "(url, as_repo a, as_pr_number a) \<in> set (add_active a (fold add_active before entries))"
    using assms(3) by (auto simp: add_active_def btree_or_insert_def btree_insert_in)
  then show ?thesis unfolding split by (simp add: active_keeps)
qed

text \<open>A run looks at exactly these, with these names, and nobody is recorded on the others.\<close>

lemma asked_is_open:
  assumes db: "assignments_ok db" and as: "active_pr_assignments db = Inr as" and asked: "asked_about db url = Some pr"
  shows "(url, pr) \<in> set (open_pull_requests (get_pending_prs db) as)"
proof (cases "list_ex (\<lambda>a. at_source a \<noteq> security_fix_source \<and> at_pr_url a = Some url) (get_pending_prs db) \<and>
    github_pull_request url \<noteq> None")
  case True
  then obtain attempt where "attempt \<in> set (get_pending_prs db)" "at_source attempt \<noteq> security_fix_source" "at_pr_url attempt = Some url"
    by (auto simp: list_ex_iff)
  moreover have "github_pull_request url = Some pr" using True asked by (simp add: asked_about_def)
  ultimately show ?thesis by (rule pending_is_open)
next
  case False
  then obtain r where r: "find_by (\<lambda>r. is_active r \<and> pa_pr_url r = url) (db_assignments db) = Some r"
      "pr = (pa_repo r, pa_pr_number r)"
    using asked by (auto simp: asked_about_def split: if_splits)
  then have row: "r \<in> set (db_assignments db)" "is_active r" "pa_pr_url r = url" by (auto dest: find_by_Some)
  obtain a where a: "row_to_pr_assignment r = Inr a" using active_row_read [OF db row(1)] by blast
  have read: "distinct (map as_pr_url as)" "a \<in> set as"
    using active_pr_assignments_read [OF db] as row a by auto
  have fields: "as_pr_url a = url" "pr = (as_repo a, as_pr_number a)"
    using row_read_url [OF a] a row(3) r(2) by (auto simp: row_to_pr_assignment_def Let_def split: sum.splits)
  have "url \<notin> set (map fst (fold add_pending (get_pending_prs db) []))"
    using False by (intro pending_not_open) (auto simp: list_ex_iff)
  then show ?thesis
    using active_is_open [OF read fields(1)] by (simp add: open_pull_requests_def fields(2))
qed

lemma not_asked:
  assumes db: "assignments_ok db" and as: "active_pr_assignments db = Inr as" and asked: "asked_about db url = None"
  shows "url \<notin> fst ` set (open_pull_requests (get_pending_prs db) as)" "part_of_active (active_by_url as) url = []"
proof -
  have pending: "\<forall>attempt \<in> set (get_pending_prs db). at_pr_url attempt = Some url \<longrightarrow>
      at_source attempt = security_fix_source \<or> github_pull_request url = None"
    and none: "find_by (\<lambda>r. is_active r \<and> pa_pr_url r = url) (db_assignments db) = None"
    using asked by (auto simp: asked_about_def list_ex_iff split: if_splits)
  have "\<forall>r \<in> set (db_assignments db). is_active r \<longrightarrow> pa_pr_url r \<noteq> url"
    using none by (auto simp: find_by_None)
  then have active: "\<forall>a \<in> set as. as_pr_url a \<noteq> url"
    using active_pr_assignments_read [OF db] as row_read_url by fastforce
  then show "url \<notin> fst ` set (open_pull_requests (get_pending_prs db) as)"
    using pending_not_open [OF pending, of "[]"] active_not_open unfolding open_pull_requests_def by simp
  have "active_by_url as url = None"
    using active active_by_url_Some by (cases "active_by_url as url") fastforce+
  then show "part_of_active (active_by_url as) url = []" by (simp add: part_of_active_def)
qed

lemma distribute_not_asked:
  assumes roster: "roster_ok (ds_lower d) (ds_roster d)" "ro_developers (ds_roster d) \<noteq> []"
    and store: "assignments_ok (di_db s)" and asked: "asked_about (di_db s) url = None"
  shows "part url (di_db s) = []" "part url (di_db (snd (distribute d now s))) = []"
proof -
  obtain as where as: "active_pr_assignments (di_db s) = Inr as"
    using active_pr_assignments_read [OF store] by blast
  note none = not_asked [OF store as asked]
  show "part url (di_db s) = []" using part_of_read [OF store as] none(2) by simp
  have "indexed (set as) (active_by_url as)" using active_by_url_Some by (auto simp: indexed_def)
  from reconcile_others [OF this none(1), where C = "\<lambda>p. p = []" and d = d and acc = nothing_reconciled]
  have "final d ([], False) (part url (di_db (snd (distribute d now s))))"
    unfolding none(2) [symmetric]
    by (intro distribute_final [OF roster store as], elim triple_weaken)
      (auto simp: waits_def nothing_reconciled_def)
  then show "part url (di_db (snd (distribute d now s))) = []" by (simp add: final_def)
qed

text \<open>
  Property C28. Where a run does not look for an assignee it follows the host, for every pull request: a merged or closed
  one loses its assignee, a draft, a queued or a reviewed one keeps an assignee who is still on the roster, and one the
  host does not answer for keeps whoever has it; also those that the run knows only by their active assignment. One
  it does not ask about has no assignee before and after.
\<close>

theorem runs_follow_host:
  assumes "roster_ok (ds_lower d) (ds_roster d)" "ro_developers (ds_roster d) \<noteq> []" "assignments_ok (di_db s)"
    and "\<And>t repo number. asked_about (di_db s) url = Some (repo, number) \<Longrightarrow> ho_pull_request (ds_host d) t repo number = answer"
    and "\<And>pr. answer = Inr pr \<Longrightarrow> \<not> attention_is_needed (attention (ds_lower d) pr None)"
  shows "holders url (di_db (snd (distribute d now s))) =
    (case answer of
       Inl e \<Rightarrow> holders url (di_db s)
     | Inr pr \<Rightarrow>
         if attention_is_finished (attention (ds_lower d) pr None) then []
         else filter (\<lambda>l. roster_find (ds_lower d) (ds_roster d) l \<noteq> None) (holders url (di_db s)))"
proof (cases "asked_about (di_db s) url")
  case None
  then show ?thesis
    using distribute_not_asked [OF assms(1-3) None] by (simp add: holders_def split: sum.split)
next
  case (Some pr)
  obtain repo number where pr: "pr = (repo, number)" by (cases pr)
  obtain as where as: "active_pr_assignments (di_db s) = Inr as"
    using active_pr_assignments_read [OF assms(3)] by blast
  have "final d (reconciled d (active_by_url as) url answer) (part url (di_db (snd (distribute d now s))))"
    using distribute_open [OF assms(1-3) as asked_is_open [OF assms(3) as Some, unfolded pr]] assms(4) Some pr by blast
  then show ?thesis
    using part_of_read [OF assms(3) as] assms(5)
    by (auto simp: holders_def part_of_active_def reconciled_def final_def Let_def
        split: option.splits if_splits sum.splits)
qed

section \<open>Security fixes\<close>

text \<open>Every pending attempt with the URL is a security fix, or the URL is not that of a GitHub pull request.\<close>

definition only_security_fixes :: "string \<Rightarrow> FixAttempt list \<Rightarrow> bool" where
  "only_security_fixes url pending \<longleftrightarrow>
     github_pull_request url = None \<or> (\<forall>a \<in> set pending. at_pr_url a = Some url \<longrightarrow> at_source a = security_fix_source)"

text \<open>
  What happens to a store while every attempt with the URL is a security fix: runs of the distributor, pull requests that
  are opened, and any change of the attempts that keeps to this.
\<close>

inductive security_fix_life :: "string \<Rightarrow> distribution \<Rightarrow> distribution \<Rightarrow> bool" for url where
  starts: "security_fix_life url s s"
| distributed: "security_fix_life url s s' \<Longrightarrow> roster_ok (ds_lower d) (ds_roster d) \<Longrightarrow> ro_developers (ds_roster d) \<noteq> [] \<Longrightarrow>
    security_fix_life url s (snd (distribute d now s'))"
| opened: "security_fix_life url s s' \<Longrightarrow>
    opened_url = url \<Longrightarrow> is_source issue = security_fix_source \<or> github_pull_request url = None \<Longrightarrow>
    security_fix_life url s (snd (assign_opened d opened_url issue s'))"
| other_opened: "security_fix_life url s s' \<Longrightarrow> opened_url \<noteq> url \<Longrightarrow>
    security_fix_life url s (snd (assign_opened d opened_url issue s'))"
| attempts_changed: "security_fix_life url s s' \<Longrightarrow>
    only_security_fixes url (get_pending_prs ((di_db s')\<lparr>db_attempts := rows, db_next_attempt := n\<rparr>)) \<Longrightarrow>
    security_fix_life url s (s'\<lparr>di_db := (di_db s')\<lparr>db_attempts := rows, db_next_attempt := n\<rparr>\<rparr>)"

interpretation attempts_stay: distribution_effects "\<lambda>s. get_pending_prs (di_db s) = pending" for pending
  by unfold_locales
    (simp_all add: get_pending_prs_def record_pr_assignment_eq end_pr_assignment_def mark_pr_assignment_notified_def
      update_assignments_def)

lemma record_and_ping_other:
  assumes "opened_url \<noteq> url"
  shows "triple (on (\<lambda>db ps. assignments_ok db \<and> part url db = p)) (record_and_ping d opened_url repo number pr decision)
    (\<lambda>_. stays url ((=) p)) (stays url ((=) p))"
proof -
  let ?stays = "stays url ((=) p)"
  have stored: "triple (on (\<lambda>db ps. assignments_ok db \<and> part url db = p))
      (write_store (\<lambda>now. record_pr_assignment (assignment_of decision opened_url repo number None now))) (\<lambda>_. ?stays) ?stays"
    by (rule triple_allI) (use assms in \<open>auto simp: write_store_eq case_prod_unfold part_record assignment_of_def new_pr_assignment_def\<close>)
  have read: "triple ?stays (read_store q) (\<lambda>_. ?stays) ?stays" for q :: "assignments_db \<Rightarrow> PrAssignment option result"
    by (rule triple_allI) (auto simp: read_store_def)
  show ?thesis
    unfolding record_and_ping_def
    by (rule triple_bind [OF stored])
      (auto intro!: read triple_ret triple_catch held_ping triple_bind [where Q = "\<lambda>_. ?stays"] split: option.splits)
qed

lemma assign_opened_other:
  assumes "opened_url \<noteq> url"
  shows "triple (on (\<lambda>db ps. assignments_ok db \<and> part url db = p)) (assign_opened d opened_url issue)
    (\<lambda>_. stays url ((=) p)) (stays url ((=) p))"
proof -
  let ?on = "on (\<lambda>db ps. assignments_ok db \<and> part url db = p)" and ?stays = "stays url ((=) p)"
  have read: "triple ?on (read_store q) (\<lambda>_. ?on) ?stays" for q :: "assignments_db \<Rightarrow> 'a result"
    by (rule triple_allI) (auto simp: read_store_def)
  have outside: "triple ?on (outside f) (\<lambda>_. ?on) ?stays" for f :: "nat \<Rightarrow> 'a"
    by (rule triple_weaken [OF on_outside]) simp_all
  have result: "triple ?on (of_result r) (\<lambda>_. ?on) ?stays" for r :: "'a result"
    by (rule triple_of_result) auto
  have evidence: "triple ?on (evidence d repo number asked known) (\<lambda>_. ?on) ?stays" for repo number asked known
    by (rule triple_weaken [OF on_evidence [where P = "\<lambda>db ps. assignments_ok db \<and> part url db = p"]]) simp_all
  show ?thesis
    unfolding assign_opened_def
    by (auto intro!: triple_if triple_ret triple_bind [where Q = "\<lambda>_. ?on"] read outside result evidence
        record_and_ping_other [OF assms] split: option.splits list.splits)
qed

lemma not_asked_about: "only_security_fixes url (get_pending_prs db) \<Longrightarrow> holders url db = [] \<Longrightarrow> asked_about db url = None"
  by (auto simp: only_security_fixes_def asked_about_def list_ex_iff holders_def part_def find_by_None filter_empty_conv)

text \<open>
  Property C29. A security fix that nobody holds stays that way: while every attempt with the URL is a security fix, or the
  URL is not that of a GitHub pull request, neither the runs of the distributor nor its calls when a pull request is
  opened ever give it to anybody, in whatever order they come and however the attempts change meanwhile.
\<close>

theorem security_fixes_never_assigned:
  assumes "security_fix_life url s s'"
    and "assignments_ok (di_db s)" "holders url (di_db s) = []" "only_security_fixes url (get_pending_prs (di_db s))"
  shows "holders url (di_db s') = []"
proof -
  have "assignments_ok (di_db s') \<and> holders url (di_db s') = [] \<and> only_security_fixes url (get_pending_prs (di_db s'))"
    using assms
  proof (induction rule: security_fix_life.induct)
    case (distributed s s' d now)
    then have s': "assignments_ok (di_db s')" "holders url (di_db s') = []" "only_security_fixes url (get_pending_prs (di_db s'))"
      by simp_all
    show ?case
      using distribute_not_asked(2) [OF distributed.hyps(2,3) s'(1) not_asked_about [OF s'(3,2)], of now]
        attempts_stay.run_keeps [of s' "get_pending_prs (di_db s')" "[Distribute d now]"] s'
      by (simp add: run_distribution_def holders_def)
  next
    case (opened s s' opened_url issue d)
    then have "snd (assign_opened d opened_url issue s') = s'"
      by (auto simp: assign_opened_def ret_def)
    with opened show ?case by simp
  next
    case (other_opened s s' opened_url d issue)
    then have s': "assignments_ok (di_db s')" "holders url (di_db s') = []" "only_security_fixes url (get_pending_prs (di_db s'))"
      by simp_all
    have "part url (di_db (snd (assign_opened d opened_url issue s'))) = []"
      using triple_snd [OF assign_opened_other [OF other_opened.hyps(2), where p = "[]"]] s' by (simp add: part_holders)
    then show ?case
      using attempts_stay.run_keeps [of s' "get_pending_prs (di_db s')" "[Assign_Opened d opened_url issue]"] s'
      by (simp add: run_distribution_def part_holders)
  qed (simp_all add: assignments_ok_def holders_def part_def)
  then show ?thesis by simp
qed

section \<open>Who is told about a pull request that was just opened\<close>

lemma triple_never: "triple P m Q never \<Longrightarrow> triple P m Q E"
  by (erule triple_weaken) simp_all

lemma on_reading: "triple (on P) (read_store q) (\<lambda>_. on P) (on P)"
  by (rule triple_allI) (auto simp: read_store_def)

lemma pinging:
  assumes "\<And>x s. C (part url (di_db s)) \<Longrightarrow> di_pings s = ps @ [(\<lparr>an_developer = developer,
      an_pull_request = assignment_summary pr a, an_reason = as_reason a, an_previous = as_previous a\<rparr>, x)] \<Longrightarrow> R s"
  shows "triple (\<lambda>s. di_pings s = ps \<and> C (part url (di_db s))) (ping_assignee d developer pr a) (\<lambda>_. R) R"
proof -
  let ?notice = "\<lparr>an_developer = developer, an_pull_request = assignment_summary pr a, an_reason = as_reason a,
    an_previous = as_previous a\<rparr>"
  let ?sent = "\<lambda>s. \<exists>x. C (part url (di_db s)) \<and> di_pings s = ps @ [(?notice, x)]"
  have "triple (\<lambda>s. di_pings s = ps \<and> C (part url (di_db s))) (notify_assignment d ?notice) (\<lambda>_. ?sent) ?sent"
    by (rule triple_allI) (auto simp: notify_assignment_def Let_def)
  moreover have "triple ?sent (write_store (\<lambda>now. mark_pr_assignment_notified now (as_id a))) (\<lambda>_. ?sent) ?sent"
    by (rule triple_allI) (auto simp: write_store_eq case_prod_unfold)
  ultimately have "triple (\<lambda>s. di_pings s = ps \<and> C (part url (di_db s))) (ping_assignee d developer pr a) (\<lambda>_. ?sent) ?sent"
    unfolding ping_assignee_def by (intro triple_bind [where Q = "\<lambda>_. ?sent"] triple_if triple_ret)
  then show ?thesis by (rule triple_weaken) (auto intro: assms)
qed

text \<open>Nobody was told, or the one whose assignment was recorded.\<close>

definition told :: "string \<Rightarrow> assignments_db \<Rightarrow> (AssignmentNotice \<times> PingDelivery result) list \<Rightarrow> distribution \<Rightarrow> bool" where
  "told url db ps s \<longleftrightarrow>
     di_pings s = ps \<or>
     holders url db = [] \<and>
     (\<exists>notice x. di_pings s = ps @ [(notice, x)] \<and> ps_url (an_pull_request notice) = url \<and>
        holders url (di_db s) = [dv_login (an_developer notice)])"

lemma record_and_ping_told:
  assumes roster: "roster_ok (ds_lower d) (ds_roster d)" and db: "assignments_ok db"
    and decision: "de_assignee decision \<in> dv_login ` set (ro_developers (ds_roster d))"
  shows "triple (on (\<lambda>db' ps'. db' = db \<and> ps' = ps)) (record_and_ping d url repo number pr decision) (\<lambda>_. told url db ps) (told url db ps)"
proof -
  let ?recorded = "\<lambda>a s. di_pings s = ps \<and> part url db = [] \<and> as_pr_url a = url \<and> as_assignee a = de_assignee decision \<and>
    holders url (di_db s) = [de_assignee decision]"
  let ?stored = "\<lambda>stored s. case stored of None \<Rightarrow> told url db ps s | Some a \<Rightarrow> ?recorded a s"
  have stored: "triple (on (\<lambda>db' ps'. db' = db \<and> ps' = ps))
      (write_store (\<lambda>now. record_pr_assignment (assignment_of decision url repo number None now))) ?stored (told url db ps)"
  proof (rule triple_allI)
    fix s r s'
    assume s: "on (\<lambda>db' ps'. db' = db \<and> ps' = ps) s"
      and w: "write_store (\<lambda>now. record_pr_assignment (assignment_of decision url repo number None now)) s = (r, s')"
    let ?a = "assignment_of decision url repo number None (di_clock s (di_ticks s))"
    have a: "as_pr_url ?a = url" "as_assignee ?a = de_assignee decision" by (simp_all add: assignment_of_def new_pr_assignment_def)
    have s': "r = fst (record_pr_assignment ?a db)" "di_db s' = snd (record_pr_assignment ?a db)" "di_pings s' = ps"
      using s w by (auto simp: write_store_eq case_prod_unfold)
    have "?recorded b s'" if "r = Inr (Some b)" for b
      using that s' a recorded_names(2,3) [OF db, of ?a b "di_db s'"] part_record [OF db, of url ?a]
      by (auto simp: part_empty record_pr_assignment_eq [OF db] prod_eq_iff holders_def split: if_splits)
    then show "told url db ps s' \<and> (\<forall>x. r = Inr x \<longrightarrow> ?stored x s')"
      using s'(3) by (auto simp: told_def split: option.splits)
  qed
  have ping: "triple (?recorded a) (bind_op (catch_op (ping_assignee d developer pr a)) (\<lambda>_. ret ())) (\<lambda>_. told url db ps) (told url db ps)"
    if "roster_find (ds_lower d) (ds_roster d) (as_assignee a) = Some developer" for a developer
  proof (cases "part url db = [] \<and> as_pr_url a = url \<and> as_assignee a = de_assignee decision")
    case True
    then have "dv_login developer = de_assignee decision"
      using that decision finds_own_login [OF roster] by fastforce
    then have "triple (\<lambda>s. di_pings s = ps \<and> map snd (part url (di_db s)) = [de_assignee decision]) (ping_assignee d developer pr a)
        (\<lambda>_. told url db ps) (told url db ps)"
      using True by (intro pinging) (auto simp: told_def holders_def assignment_summary_def)
    then show ?thesis
      by (intro triple_bind [where Q = "\<lambda>_. told url db ps"] triple_catch triple_ret)
        (auto simp: holders_def elim!: triple_weaken)
  qed (auto simp: triple_def)
  have read: "triple (told url db ps) (read_store q) (\<lambda>_. told url db ps) (told url db ps)"
    for q :: "assignments_db \<Rightarrow> PrAssignment option result"
    by (rule triple_allI) (auto simp: read_store_def)
  show ?thesis
    unfolding record_and_ping_def
  proof (rule triple_bind [OF stored])
    show "triple (?stored stored)
        (case stored of None \<Rightarrow> read_store (active_pr_assignment url)
         | Some a \<Rightarrow>
             bind_op
               (case roster_find (ds_lower d) (ds_roster d) (as_assignee a) of
                  None \<Rightarrow> ret ()
                | Some developer \<Rightarrow> bind_op (catch_op (ping_assignee d developer pr a)) (\<lambda>_. ret ()))
               (\<lambda>_. read_store (active_pr_assignment url))) (\<lambda>_. told url db ps) (told url db ps)" for stored
    proof (cases stored)
      case (Some a)
      have "triple (?recorded a) (case roster_find (ds_lower d) (ds_roster d) (as_assignee a) of
            None \<Rightarrow> ret ()
          | Some developer \<Rightarrow> bind_op (catch_op (ping_assignee d developer pr a)) (\<lambda>_. ret ())) (\<lambda>_. told url db ps) (told url db ps)"
        using ping by (auto simp: told_def intro!: triple_ret split: option.split)
      then show ?thesis unfolding Some option.case by (rule triple_bind) (rule read)
    qed (simp add: read)
  qed
qed

lemma assign_opened_told:
  assumes roster: "roster_ok (ds_lower d) (ds_roster d)" and db: "assignments_ok db"
  shows "triple (on (\<lambda>db' ps'. db' = db \<and> ps' = ps)) (assign_opened d url issue) (\<lambda>_. told url db ps) (told url db ps)"
proof -
  let ?on = "on (\<lambda>db' ps'. db' = db \<and> ps' = ps)"
  have nobody: "?on s \<Longrightarrow> told url db ps s" for s by (simp add: told_def)
  have read: "triple ?on (read_store q) (\<lambda>_. ?on) (told url db ps)" for q :: "assignments_db \<Rightarrow> 'a result"
    by (rule triple_allI) (auto simp: read_store_def told_def)
  have outside: "triple ?on (outside f) (\<lambda>_. ?on) (told url db ps)" for f :: "nat \<Rightarrow> 'a"
    by (rule triple_never [OF on_outside])
  have result: "triple ?on (of_result r) (\<lambda>_. ?on) (told url db ps)" for r :: "'a result"
    by (rule triple_of_result) (rule nobody)
  have evidence: "triple ?on (evidence d repo number asked known) (\<lambda>_. ?on) (told url db ps)" for repo number asked known
    by (rule triple_never [OF on_evidence [where P = "\<lambda>db' ps'. db' = db \<and> ps' = ps"]])
  have decide: "triple ?on (case balancer_assign (ds_lower d) (balancer_of d) ps' held of
        [] \<Rightarrow> ret None | decision # _ \<Rightarrow> record_and_ping d url repo number pr decision) (\<lambda>_. told url db ps) (told url db ps)"
    for ps' held repo number pr
  proof (cases "balancer_assign (ds_lower d) (balancer_of d) ps' held")
    case (Cons decision decisions)
    then have "ro_developers (ds_roster d) \<noteq> []" by (auto simp: balancer_assign_def balancer_of_def)
    then have "de_assignee decision \<in> dv_login ` set (ro_developers (ba_roster (balancer_of d)))"
      using roster by (intro balancer_decides(2) [where lower = "ds_lower d" and pending = ps' and held = held])
        (simp_all add: Cons, simp_all add: balancer_of_def)
    then show ?thesis using record_and_ping_told [OF roster db] Cons by (simp add: balancer_of_def)
  next
    case Nil
    show ?thesis unfolding Nil list.case by (rule triple_ret) (rule nobody)
  qed
  show ?thesis
    unfolding assign_opened_def
    by (auto intro!: triple_if triple_ret nobody triple_bind [where Q = "\<lambda>_. ?on"] read outside result evidence decide
        split: option.splits)
qed

text \<open>
  Property C12. Opening a pull request pings at most one person, and only who it was just assigned to: when the call sends a
  ping, nobody had the pull request before, the one who is pinged has it now, and nobody else does; also when the ping
  fails. A security fix pings nobody and assigns nobody, and neither does a configuration that does not notify on open.
\<close>

theorem opened_pings_new_assignee:
  assumes "roster_ok (ds_lower d) (ds_roster d)" "assignments_ok (di_db s)"
  shows "(is_source issue = security_fix_source \<or> \<not> ds_notify_on_open d \<longrightarrow> snd (assign_opened d url issue s) = s) \<and>
    (di_pings (snd (assign_opened d url issue s)) = di_pings s \<or>
     holders url (di_db s) = [] \<and>
     (\<exists>notice answer. di_pings (snd (assign_opened d url issue s)) = di_pings s @ [(notice, answer)] \<and>
       ps_url (an_pull_request notice) = url \<and>
       holders url (di_db (snd (assign_opened d url issue s))) = [dv_login (an_developer notice)]))"
proof (cases "\<not> ds_notify_on_open d \<or> is_source issue = security_fix_source")
  case True
  then show ?thesis by (simp add: assign_opened_def ret_def)
next
  case False
  have "told url (di_db s) (di_pings s) (snd (assign_opened d url issue s))"
    by (rule triple_snd [OF assign_opened_told [OF assms]]) simp
  then show ?thesis using False unfolding told_def by blast
qed

section \<open>Examples\<close>

lemma example_hypotheses:
  "roster_ok (ds_lower (example_distributor answer)) (ds_roster (example_distributor answer))"
  "ro_developers (ds_roster (example_distributor answer)) \<noteq> []" "assignments_ok (di_db (example_distribution source))"
proof -
  show "ro_developers (ds_roster (example_distributor answer)) \<noteq> []" by (simp add: example_selectors example_roster)
qed (simp_all add: example_selectors example_roster_ok empty_assignments_ok example_state)

lemma open_prs_get_one_assignee_witness:
  "\<exists>login. holders example_url (di_db (snd (distribute (example_distributor (Inr example_pull_request)) 9
      (example_distribution ''linear'')))) = [login] \<and> roster_find id example_roster login \<noteq> None"
proof -
  let ?d = "example_distributor (Inr example_pull_request)"
  obtain a where a: "get_pending_prs (di_db (example_distribution ''linear'')) = [a]" "at_source a = ''linear''"
    "at_pr_url a = Some example_url" using example_pending_attempts by blast
  have "\<exists>login. holders example_url (di_db (snd (distribute ?d 9 (example_distribution ''linear'')))) = [login] \<and>
      roster_find (ds_lower ?d) (ds_roster ?d) login \<noteq> None \<and>
      (\<forall>l \<in> set (holders example_url (di_db (example_distribution ''linear''))).
        roster_find (ds_lower ?d) (ds_roster ?d) l \<noteq> None \<longrightarrow> login = l)"
    by (rule open_prs_get_one_assignee [OF example_hypotheses, where attempt = a and repo = "''o/r''" and number = 1
          and pr = example_pull_request])
      (simp_all add: a example_not_security example_github example_selectors example_attention attention_is_needed_def)
  then show ?thesis by (auto simp: example_selectors)
qed

text \<open>A store that knows the pull request only by its active assignment.\<close>

definition assigned_example :: distribution where
  "assigned_example =
     (let s = example_distribution ''linear''
      in s\<lparr>di_db := snd (record_pr_assignment (new_pr_assignment 4 example_url ''o/r'' 1 ''amy'' Load 0)
            ((di_db s)\<lparr>db_attempts := []\<rparr>))\<rparr>)"

lemma assigned_example_ok: "assignments_ok (di_db assigned_example)"
  by (simp add: assigned_example_def Let_def assignments_ok_record empty_assignments_ok example_state)

lemma assigned_example_state:
  "holders example_url (di_db assigned_example) = [''amy'']"
  "asked_about (di_db assigned_example) example_url = Some (''o/r'', 1)"
  by (simp_all add: assigned_example_def example_state record_pr_assignment_def Let_def holders_def part_def asked_about_def
      get_pending_prs_def order_desc_def flatten_rows_def map_filter_simps new_assignment_row_def new_pr_assignment_def is_active_def
      find_by_def)

lemma runs_follow_host_witness:
  "holders example_url (di_db assigned_example) = [''amy''] \<and>
   holders example_url (di_db (snd (distribute (example_distributor (Inr (example_pull_request\<lparr>pr_state := Merged_Pr\<rparr>))) 9
      assigned_example))) = []"
proof -
  let ?pr = "example_pull_request\<lparr>pr_state := Merged_Pr\<rparr>"
  let ?d = "example_distributor (Inr ?pr)"
  have merged: "attention lower ?pr None = Merged_Attention" for lower by (simp add: attention_def)
  have "holders example_url (di_db (snd (distribute ?d 9 assigned_example))) =
      (case Inr ?pr of
         Inl (e :: error) \<Rightarrow> holders example_url (di_db assigned_example)
       | Inr pr \<Rightarrow>
           if attention_is_finished (attention (ds_lower ?d) pr None) then []
           else filter (\<lambda>l. roster_find (ds_lower ?d) (ds_roster ?d) l \<noteq> None)
             (holders example_url (di_db assigned_example)))"
    by (rule runs_follow_host [OF example_hypotheses(1,2) assigned_example_ok])
      (auto simp: assigned_example_state example_selectors merged attention_is_needed_def)
  then show ?thesis by (simp add: merged attention_is_finished_def assigned_example_state)
qed

lemma security_fixes_never_assigned_witness:
  "let d = example_distributor (Inr example_pull_request); issue = new_issue ''7'' ''7'' ''Crash'' ''u'' security_fix_source;
       other = new_issue ''8'' ''8'' ''Crash'' ''u'' ''linear''
   in holders example_url (di_db
        (snd (distribute d 9
          (snd (assign_opened d ''https://github.com/o/r/pull/2'' other
            (snd (assign_opened d example_url issue (example_distribution security_fix_source)))))))) = []"
proof -
  obtain a where a: "get_pending_prs (di_db (example_distribution security_fix_source)) = [a]"
    "at_source a = security_fix_source" using example_pending_attempts by blast
  have other: "''https://github.com/o/r/pull/2'' \<noteq> example_url" by (simp add: example_url_def)
  show ?thesis
    unfolding Let_def
    by (rule security_fixes_never_assigned [OF security_fix_life.distributed [OF security_fix_life.other_opened [OF
          security_fix_life.opened [OF security_fix_life.starts refl] other] example_hypotheses(1,2)] example_hypotheses(3)])
      (simp_all add: a holders_def part_def example_state only_security_fixes_def new_issue_def)
qed

definition example_issue :: Issue where
  "example_issue = new_issue ''7'' ''7'' ''Crash'' ''u'' ''linear''"

lemma opened_pings_new_assignee_witness:
  "let d = example_distributor (Inr example_pull_request); s = example_distribution ''linear''
   in di_pings (snd (assign_opened d example_url example_issue s)) = di_pings s \<or>
     (\<exists>notice answer. di_pings (snd (assign_opened d example_url example_issue s)) = di_pings s @ [(notice, answer)] \<and>
       ps_url (an_pull_request notice) = example_url \<and>
       holders example_url (di_db (snd (assign_opened d example_url example_issue s))) = [dv_login (an_developer notice)])"
  using opened_pings_new_assignee [OF example_hypotheses(1) [of "Inr example_pull_request"] example_hypotheses(3) [of "''linear''"], where url = example_url and issue = example_issue]
  unfolding Let_def by blast

end
