(* ===== verification/Assignment_Map.thy ===== *)
theory Assignment_Map
  imports Assignments
begin

text \<open>
  What the methods of the assignment store promise their callers, without its rows: a map from the URL of a pull request
  to its active assignment. Every method acts on the table as it does on the map, and answers what the map says.
\<close>

section \<open>The map\<close>

definition holding :: "'x assignments_db_scheme \<Rightarrow> string \<Rightarrow> PrAssignment option" where
  "holding s url = (case active_pr_assignment url s of Inl e \<Rightarrow> None | Inr found \<Rightarrow> found)"

definition holds_id :: "(string \<Rightarrow> PrAssignment option) \<Rightarrow> (PrAssignment \<Rightarrow> bool) \<Rightarrow> bool" where
  "holds_id m p \<longleftrightarrow> (\<exists>a \<in> ran m. p a)"

text \<open>The calls on the map and the next key.\<close>

fun map_step :: "assignment_call \<Rightarrow> int \<times> (string \<Rightarrow> PrAssignment option) \<Rightarrow> int \<times> (string \<Rightarrow> PrAssignment option)" where
  "map_step (Record_Assignment a) (n, m) =
     (n + 1,
      if m (as_pr_url a) = None
      then m(as_pr_url a \<mapsto> a\<lparr>as_id := n, as_status := Active, as_ended_at := None, as_notified_at := None\<rparr>) else m)"
| "map_step (End_Assignment now i status) (n, m) =
     (n, \<lambda>url. case m url of None \<Rightarrow> None | Some a \<Rightarrow> if as_id a = i then None else Some a)"
| "map_step (Notify_Assignment now i) (n, m) =
     (n, \<lambda>url. map_option (\<lambda>a. if as_id a = i \<and> as_notified_at a = None then a\<lparr>as_notified_at := Some now\<rparr> else a) (m url))"

section \<open>The table refines it\<close>

lemma option_eqI: "(\<And>a. x = Some a \<longleftrightarrow> y = Some a) \<Longrightarrow> x = y"
  by (cases x; cases y) auto

lemma holding_iff:
  assumes "assignments_ok s"
  shows "holding s url = Some a \<longleftrightarrow>
    (\<exists>r \<in> set (db_assignments s). is_active r \<and> pa_pr_url r = url \<and> row_to_pr_assignment r = Inr a)"
  using active_pr_assignment_read [OF assms, of url a] active_pr_assignment_total [OF assms, of url]
  by (auto simp: holding_def)

lemma holding_None:
  assumes "assignments_ok s"
  shows "holding s url = None \<longleftrightarrow> \<not> list_ex (\<lambda>x. pa_pr_url x = url \<and> is_active x) (db_assignments s)"
proof -
  have "holding s url \<noteq> None \<longleftrightarrow> (\<exists>r \<in> set (db_assignments s). is_active r \<and> pa_pr_url r = url)"
    using holding_iff [OF assms, of url] active_row_read [OF assms] by blast
  then show ?thesis by (auto simp: list_ex_iff)
qed

lemma bex_update_where:
  "(\<exists>r \<in> set (update_where p f rows). q r) \<longleftrightarrow> (\<exists>r \<in> set rows. q (if p r then f r else r))"
  by (auto simp: update_where_def)

lemma row_notified:
  "row_to_pr_assignment r = Inr a \<Longrightarrow> row_to_pr_assignment (r\<lparr>pa_notified_at := Some now\<rparr>) = Inr (a\<lparr>as_notified_at := Some now\<rparr>)"
  by (auto simp: row_to_pr_assignment_def)

lemma step_refines:
  assumes ok: "assignments_ok s" and c: "call_ends c"
  shows "(db_next_assignment (assignment_step c s), holding (assignment_step c s)) = map_step c (db_next_assignment s, holding s)"
proof (cases c)
  case (Record_Assignment a)
  let ?n = "db_next_assignment s"
  have "holding (assignment_step c s) url = snd (map_step c (?n, holding s)) url" for url
  proof (rule option_eqI)
    fix b
    have rows: "db_assignments (assignment_step c s) =
        (if holding s (as_pr_url a) = None then db_assignments s @ [new_assignment_row ?n a] else db_assignments s)"
      unfolding holding_None [OF ok] by (simp add: Record_Assignment record_pr_assignment_eq [OF ok])
    have new: "is_active (new_assignment_row ?n a)" "pa_pr_url (new_assignment_row ?n a) = as_pr_url a"
      by (simp_all add: is_active_def new_assignment_row_def)
    show "holding (assignment_step c s) url = Some b \<longleftrightarrow> snd (map_step c (?n, holding s)) url = Some b"
      using new holding_iff [OF ok, of url b]
      unfolding holding_iff [OF assignment_step_ok [OF assms]] rows
      by (auto simp: Record_Assignment row_of_new)
  qed
  then show ?thesis by (simp add: Record_Assignment record_pr_assignment_eq [OF ok] prod_eq_iff fun_eq_iff)
next
  case (End_Assignment now i status)
  let ?f = "\<lambda>r. r\<lparr>pa_status := assignment_status_as_str status, pa_ended_at := Some now\<rparr>"
  have ended: "\<not> is_active (?f r)" for r
    using c by (simp add: End_Assignment is_active_def)
  have "holding (assignment_step c s) url = snd (map_step c (db_next_assignment s, holding s)) url" for url
  proof (rule option_eqI)
    fix b
    have "holding (assignment_step c s) url = Some b \<longleftrightarrow>
        (\<exists>r \<in> set (db_assignments s). pa_id r \<noteq> i \<and> is_active r \<and> pa_pr_url r = url \<and> row_to_pr_assignment r = Inr b)"
      unfolding holding_iff [OF assignment_step_ok [OF assms]]
      by (simp add: End_Assignment end_pr_assignment_def update_assignments_def bex_update_where)
        (rule bex_cong [OF refl], use ended in auto)
    also have "\<dots> \<longleftrightarrow> holding s url = Some b \<and> as_id b \<noteq> i"
      unfolding holding_iff [OF ok] using row_read_url by metis
    finally show "holding (assignment_step c s) url = Some b \<longleftrightarrow> snd (map_step c (db_next_assignment s, holding s)) url = Some b"
      by (auto simp: End_Assignment split: option.splits)
  qed
  then show ?thesis by (simp add: End_Assignment end_pr_assignment_def update_assignments_def prod_eq_iff fun_eq_iff)
next
  case (Notify_Assignment now i)
  let ?p = "\<lambda>r. pa_id r = i \<and> is_active r \<and> pa_notified_at r = None" and ?f = "\<lambda>r. r\<lparr>pa_notified_at := Some now\<rparr>"
  define g where "g a = (if as_id a = i \<and> as_notified_at a = None then a\<lparr>as_notified_at := Some now\<rparr> else a)" for a :: PrAssignment
  have "holding (assignment_step c s) url = snd (map_step c (db_next_assignment s, holding s)) url" for url
  proof (rule option_eqI)
    fix b
    have active: "is_active (?f r) = is_active r" "pa_pr_url (?f r) = pa_pr_url r" for r
      by (simp_all add: is_active_def)
    have "holding (assignment_step c s) url = Some b \<longleftrightarrow>
        (\<exists>r \<in> set (db_assignments s). is_active r \<and> pa_pr_url r = url \<and> row_to_pr_assignment (if ?p r then ?f r else r) = Inr b)"
      unfolding holding_iff [OF assignment_step_ok [OF assms]]
      by (simp add: Notify_Assignment mark_pr_assignment_notified_def update_assignments_def bex_update_where)
        (rule bex_cong [OF refl], use active in auto)
    also have "\<dots> \<longleftrightarrow> (\<exists>r \<in> set (db_assignments s). is_active r \<and> pa_pr_url r = url \<and> (\<exists>a. row_to_pr_assignment r = Inr a \<and> b = g a))"
    proof (rule bex_cong [OF refl])
      fix r
      assume "r \<in> set (db_assignments s)"
      then obtain a where a: "row_to_pr_assignment r = Inr a" using active_row_read [OF ok] by blast
      then show "is_active r \<and> pa_pr_url r = url \<and> row_to_pr_assignment (if ?p r then ?f r else r) = Inr b \<longleftrightarrow>
          is_active r \<and> pa_pr_url r = url \<and> (\<exists>a. row_to_pr_assignment r = Inr a \<and> b = g a)"
        using row_notified [OF a] row_read_url [OF a] by (auto simp: g_def)
    qed
    also have "\<dots> \<longleftrightarrow> (\<exists>a. (\<exists>r \<in> set (db_assignments s). is_active r \<and> pa_pr_url r = url \<and> row_to_pr_assignment r = Inr a) \<and> b = g a)"
      by blast
    also have "\<dots> \<longleftrightarrow> (\<exists>a. holding s url = Some a \<and> b = g a)"
      by (simp only: holding_iff [OF ok])
    finally show "holding (assignment_step c s) url = Some b \<longleftrightarrow> snd (map_step c (db_next_assignment s, holding s)) url = Some b"
      unfolding Notify_Assignment map_step.simps snd_conv map_option_eq_Some g_def [symmetric] by (metis (mono_tags))
  qed
  then show ?thesis by (simp add: Notify_Assignment mark_pr_assignment_notified_def update_assignments_def prod_eq_iff fun_eq_iff)
qed

lemma run_refines:
  "assignments_ok s \<Longrightarrow> list_all call_ends calls \<Longrightarrow>
     (db_next_assignment (run_assignments calls s), holding (run_assignments calls s)) =
       fold map_step calls (db_next_assignment s, holding s)"
  unfolding run_assignments_def
proof (induction calls arbitrary: s)
  case (Cons c calls)
  then show ?case using step_refines [of s c] by (simp add: assignment_step_ok)
qed simp

lemma update_answer:
  assumes "assignments_ok s" "\<And>r a. row_to_pr_assignment r = Inr a \<Longrightarrow> q a \<longleftrightarrow> p r"
  shows "fst (update_assignments (\<lambda>r. is_active r \<and> p r) f s) = Inr (holds_id (holding s) q)"
proof -
  have "holds_id (holding s) q \<longleftrightarrow> (\<exists>a url. holding s url = Some a \<and> q a)"
    by (auto simp: holds_id_def ran_def)
  also have "\<dots> \<longleftrightarrow> (\<exists>r \<in> set (db_assignments s). is_active r \<and> p r)"
    unfolding holding_iff [OF assms(1)] using active_row_read [OF assms(1)] assms(2) by blast
  also have "\<dots> \<longleftrightarrow> 0 < rows_affected (\<lambda>r. is_active r \<and> p r) (db_assignments s)"
    using rows_affected_0 [of "\<lambda>r. is_active r \<and> p r" "db_assignments s"] by auto
  finally show ?thesis by (simp add: update_assignments_def)
qed

text \<open>
  Property C31. The assignment store is a map from pull requests to their active assignments: after any calls, in any order, looking
  one up, recording one, ending one and marking one notified answer what the map says that the same calls on it lead to; an
  assignment is recorded only for a pull request without one, and only an active one can be ended or marked.
\<close>

theorem assignments_are_a_map:
  assumes "assignments_ok s" "list_all call_ends calls"
  shows "let s' = run_assignments calls s; (n, m) = fold map_step calls (db_next_assignment s, holding s)
    in active_pr_assignment url s' = Inr (m url) \<and>
       fst (record_pr_assignment a s') = Inr (if m (as_pr_url a) = None
         then Some (a\<lparr>as_id := n, as_status := Active, as_ended_at := None, as_notified_at := None\<rparr>) else None) \<and>
       fst (end_pr_assignment now i status s') = Inr (holds_id m (\<lambda>b. as_id b = i)) \<and>
       fst (mark_pr_assignment_notified now i s') = Inr (holds_id m (\<lambda>b. as_id b = i \<and> as_notified_at b = None))"
proof -
  have ok: "assignments_ok (run_assignments calls s)" by (rule run_assignments_ok [OF assms])
  have "active_pr_assignment url (run_assignments calls s) = Inr (holding (run_assignments calls s) url)"
    using active_pr_assignment_total [OF ok, of url] by (auto simp: holding_def)
  moreover have "fst (end_pr_assignment now i status (run_assignments calls s)) =
      Inr (holds_id (holding (run_assignments calls s)) (\<lambda>b. as_id b = i))"
    using update_answer [OF ok, of "\<lambda>b. as_id b = i" "\<lambda>r. pa_id r = i"] row_read_url
    by (simp add: end_pr_assignment_def conj_commute)
  moreover have "fst (mark_pr_assignment_notified now i (run_assignments calls s)) =
      Inr (holds_id (holding (run_assignments calls s)) (\<lambda>b. as_id b = i \<and> as_notified_at b = None))"
    using update_answer [OF ok, of "\<lambda>b. as_id b = i \<and> as_notified_at b = None" "\<lambda>r. pa_id r = i \<and> pa_notified_at r = None"] row_read_url
    by (simp add: mark_pr_assignment_notified_def conj_commute conj_left_commute)
  ultimately show ?thesis
    unfolding run_refines [OF assms, symmetric] Let_def prod.case
    by (simp add: record_pr_assignment_eq [OF ok] holding_None [OF ok])
qed

text \<open>Amy is recorded once, a second recording is turned away, and after the end of the first it is taken.\<close>

lemma assignments_are_a_map_witness:
  "let s' = run_assignments [Record_Assignment example_assignment, Record_Assignment example_assignment,
         Notify_Assignment 6 1, End_Assignment 7 1 Released] example_store
   in active_pr_assignment ''https://github.com/o/r/pull/1'' s' = Inr None \<and>
      fst (record_pr_assignment example_assignment s') = Inr (Some (example_assignment\<lparr>as_id := 3\<rparr>)) \<and>
      fst (end_pr_assignment 8 1 Closed_Assignment s') = Inr False \<and> fst (mark_pr_assignment_notified 8 1 s') = Inr False"
proof -
  have empty: "holding example_store = Map.empty"
    by (simp add: fun_eq_iff holding_def active_pr_assignment_def example_store_def)
  let ?calls = "[Record_Assignment example_assignment, Record_Assignment example_assignment, Notify_Assignment 6 1,
    End_Assignment 7 1 Released]"
  have start: "assignments_ok example_store" "list_all call_ends ?calls"
    by (rule empty_assignments_ok) (simp_all add: example_store_def)
  have "fold map_step ?calls (db_next_assignment example_store, holding example_store) = (3, Map.empty)"
    unfolding empty by (simp add: fun_eq_iff example_store_def)
  note answers = assignments_are_a_map [OF start, unfolded this Let_def prod.case]
  show ?thesis
    unfolding Let_def using answers [of "''https://github.com/o/r/pull/1''" example_assignment 8 1 Closed_Assignment]
    by (simp add: holds_id_def example_assignment_def new_pr_assignment_def)
qed

end
