(* ===== verification/Housekeeping.thy ===== *)
theory Housekeeping
  imports Distributor "HOL-Library.Word"
begin

text \<open>
  The housekeeping loop, \<open>crates/claudear-engine/src/housekeeping.rs\<close>: which jobs each turn of the timer starts, and when
  the scheduled ones among them run. The jobs of a turn that run at the same time share no variable of the loop, so a
  turn is given by the jobs it starts and by what the loop keeps; the distribution (\<open>distribute_pull_requests\<close>) is an
  operation on an arbitrary state.
\<close>

section \<open>Jobs that run when they are due\<close>

definition run_when_due ::
  "calendar \<Rightarrow> datetime \<Rightarrow> ('st, unit) op \<Rightarrow> ReportSchedule \<Rightarrow> 'st \<Rightarrow> unit result option \<times> ReportSchedule \<times> 'st" where
  "run_when_due cal now job schedule s =
     (if \<not> is_due cal schedule now then (None, schedule, s)
      else case job s of
        (Inl e, s) \<Rightarrow> (Some (Inl e), schedule, s)
      | (Inr u, s) \<Rightarrow> (Some (Inr u), schedule\<lparr>rs_last_sent_at := Some now\<rparr>, s))"

section \<open>The jobs of the watcher that distribute pull requests\<close>

definition distribute_pull_requests :: "Distributor option \<Rightarrow> datetime \<Rightarrow> (distribution, unit) op" where
  "distribute_pull_requests distributor now =
     (case distributor of
        None \<Rightarrow> ret ()
      | Some d \<Rightarrow> bind_op (distribute d now) (\<lambda>outcome. ret ()))"

text \<open>A failure to assign a pull request that was just opened is logged only.\<close>

definition assign_opened_pr :: "Distributor option \<Rightarrow> string \<Rightarrow> Issue \<Rightarrow> distribution \<Rightarrow> distribution" where
  "assign_opened_pr distributor url issue s =
     (case distributor of None \<Rightarrow> s | Some d \<Rightarrow> snd (assign_opened d url issue s))"

section \<open>The loop\<close>

datatype Job =
    Refresh_Directory
  | Check_In_Started
  | Refresh_Repos
  | Discover_Dependencies
  | Reindex_Repos
  | Reindex_Discord
  | Auto_Close
  | Reviews
  | Housekeeping_Cycle
  | Learning
  | Repetitive_Digest
  | Distribution
  | Check_In_Ended bool

definition refresh_interval :: "32 word" where
  "refresh_interval = 5"

definition learning_interval :: "32 word" where
  "learning_interval = 10"

record housekeeping_config =
  hc_dry_run :: bool
  hc_reindex :: "int option"
  hc_discord :: "int option"

record 'st housekeeping =
  hk_cycle :: "32 word"
  hk_last_reindex :: int
  hk_last_discord :: int
  hk_digest :: "ReportSchedule option"
  hk_distribution :: "ReportSchedule option"
  hk_outside :: 'st

text \<open>
  What a turn finds: whether the watcher runs before and after the tick, whether it is paused, the readings of the
  clocks, what the jobs return, and the distribution, with whatever else happens in between.
\<close>

record 'st turn =
  tn_running_before :: bool
  tn_running :: bool
  tn_paused :: bool
  tn_repos :: "nat result"
  tn_reindex_at :: int
  tn_reindexed_at :: int
  tn_discord_at :: int
  tn_discord_done_at :: int
  tn_digest_now :: datetime
  tn_distribution_now :: datetime
  tn_cycle :: "unit result"
  tn_distribute :: "('st, unit) op"

record turn_result =
  tr_jobs :: "Job list"
  tr_distribution :: "unit result option"

definition due_again :: "int option \<Rightarrow> int \<Rightarrow> int \<Rightarrow> bool" where
  "due_again interval previous now = (case interval of None \<Rightarrow> False | Some d \<Rightarrow> d \<le> max 0 (now - previous))"

definition digest_turn :: "calendar \<Rightarrow> bool \<Rightarrow> datetime \<Rightarrow> ReportSchedule option \<Rightarrow> bool \<times> ReportSchedule option" where
  "digest_turn cal dry_run now schedule =
     (if dry_run then (False, schedule)
      else case schedule of
        None \<Rightarrow> (False, None)
      | Some s \<Rightarrow> if is_due cal s now then (True, Some (s\<lparr>rs_last_sent_at := Some now\<rparr>)) else (False, Some s))"

definition distribution_turn ::
  "calendar \<Rightarrow> bool \<Rightarrow> datetime \<Rightarrow> ('st, unit) op \<Rightarrow> ReportSchedule option \<Rightarrow> 'st \<Rightarrow>
     unit result option \<times> ReportSchedule option \<times> 'st" where
  "distribution_turn cal dry_run now job schedule s =
     (if dry_run then (None, schedule, s)
      else case schedule of
        None \<Rightarrow> (None, None, s)
      | Some sc \<Rightarrow> (case run_when_due cal now job sc s of (r, sc, s) \<Rightarrow> (r, Some sc, s)))"

definition housekeeping_turn ::
  "calendar \<Rightarrow> housekeeping_config \<Rightarrow> 'st turn \<Rightarrow> 'st housekeeping \<Rightarrow> turn_result \<times> 'st housekeeping" where
  "housekeeping_turn cal config turn st =
     (if tn_paused turn then (\<lparr>tr_jobs = [], tr_distribution = None\<rparr>, st)
      else
        let cycle = hk_cycle st + 1;
            refresh = cycle mod refresh_interval = 0;
            discover = refresh \<and> (case tn_repos turn of Inr n \<Rightarrow> n \<noteq> 0 | Inl e \<Rightarrow> False);
            reindex = due_again (hc_reindex config) (hk_last_reindex st) (tn_reindex_at turn);
            discord = due_again (hc_discord config) (hk_last_discord st) (tn_discord_at turn);
            (send, digest) = digest_turn cal (hc_dry_run config) (tn_digest_now turn) (hk_digest st);
            (distributed, distribution, s) =
              distribution_turn cal (hc_dry_run config) (tn_distribution_now turn) (tn_distribute turn) (hk_distribution st)
                (hk_outside st)
        in (\<lparr>tr_jobs =
               [Refresh_Directory, Check_In_Started] @ (if refresh then [Refresh_Repos] else []) @
               (if discover then [Discover_Dependencies] else []) @ (if reindex then [Reindex_Repos] else []) @
               (if discord then [Reindex_Discord] else []) @ (if hc_dry_run config then [] else [Auto_Close, Reviews]) @
               [Housekeeping_Cycle] @
               (if \<not> hc_dry_run config \<and> cycle mod learning_interval = 0 then [Learning] else []) @
               (if send then [Repetitive_Digest] else []) @ (if distributed \<noteq> None then [Distribution] else []) @
               [Check_In_Ended (tn_cycle turn = Inr ())],
             tr_distribution = distributed\<rparr>,
            st\<lparr>hk_cycle := cycle,
               hk_last_reindex := (if reindex then tn_reindexed_at turn else hk_last_reindex st),
               hk_last_discord := (if discord then tn_discord_done_at turn else hk_last_discord st),
               hk_digest := digest, hk_distribution := distribution, hk_outside := s\<rparr>))"

fun run_loop ::
  "calendar \<Rightarrow> housekeeping_config \<Rightarrow> 'st turn list \<Rightarrow> 'st housekeeping \<Rightarrow> turn_result list \<times> 'st housekeeping" where
  "run_loop cal config [] st = ([], st)"
| "run_loop cal config (turn # turns) st =
     (if \<not> tn_running_before turn \<or> \<not> tn_running turn then ([], st)
      else case housekeeping_turn cal config turn st of
        (r, st) \<Rightarrow> (case run_loop cal config turns st of (rs, st) \<Rightarrow> (r # rs, st)))"

section \<open>One run per slot\<close>

text \<open>Turns at an instant that may be skipped, each with whether a run would succeed: which of them start a run.\<close>

fun slot_turns :: "calendar \<Rightarrow> ReportSchedule \<Rightarrow> (datetime \<times> bool \<times> bool) list \<Rightarrow> bool list" where
  "slot_turns cal schedule [] = []"
| "slot_turns cal schedule ((now, active, succeeds) # turns) =
     (let starts = active \<and> is_due cal schedule now
      in starts # slot_turns cal (if starts \<and> succeeds then schedule\<lparr>rs_last_sent_at := Some now\<rparr> else schedule) turns)"

lemma length_slot_turns [simp]: "length (slot_turns cal schedule turns) = length turns"
  by (induction cal schedule turns rule: slot_turns.induct) (simp_all add: Let_def)

definition served :: "(datetime \<times> bool \<times> bool) list \<Rightarrow> bool list \<Rightarrow> nat \<Rightarrow> bool" where
  "served turns starts i \<longleftrightarrow>
     (\<exists>j<i. day_of (fst (turns ! j)) = day_of (fst (turns ! i)) \<and> starts ! j \<and> snd (snd (turns ! j)))"

lemma served_0 [simp]: "\<not> served turns starts 0"
  by (simp add: served_def)

lemma served_Suc:
  "served (t # turns) (b # starts) (Suc i) \<longleftrightarrow>
     b \<and> snd (snd t) \<and> day_of (fst t) = day_of (fst (turns ! i)) \<or> served turns starts i"
  by (auto simp: served_def less_Suc_eq_0_disj)

lemma in_slot_sent [simp]: "in_slot cal (schedule\<lparr>rs_last_sent_at := r\<rparr>) = in_slot cal schedule"
  by (simp add: in_slot_def fun_eq_iff)

lemma slot_turns_exact:
  assumes cal: "inj (cal_date cal)"
  shows "sorted (map fst turns) \<Longrightarrow>
    (\<And>r. rs_last_sent_at schedule = Some r \<Longrightarrow> in_slot cal schedule r \<and> (\<forall>t \<in> set turns. r \<le> fst t)) \<Longrightarrow>
    i < length turns \<Longrightarrow>
    slot_turns cal schedule turns ! i \<longleftrightarrow>
      rs_enabled schedule \<and> fst (snd (turns ! i)) \<and> in_slot cal schedule (fst (turns ! i)) \<and>
      (\<forall>r. rs_last_sent_at schedule = Some r \<longrightarrow> day_of r \<noteq> day_of (fst (turns ! i))) \<and>
      \<not> served turns (slot_turns cal schedule turns) i"
proof (induction turns arbitrary: schedule i)
  case (Cons t turns)
  obtain now active succeeds where t: "t = (now, active, succeeds)" by (metis prod_cases3)
  have recent: "in_slot cal schedule r" "r \<le> now" if "rs_last_sent_at schedule = Some r" for r
    using Cons.prems(2) [OF that] by (simp_all add: t)
  have due: "is_due cal schedule now \<longleftrightarrow>
      rs_enabled schedule \<and> in_slot cal schedule now \<and> (\<forall>r. rs_last_sent_at schedule = Some r \<longrightarrow> day_of r \<noteq> day_of now)"
    using is_due_in_slot [OF cal, of schedule now] recent by blast
  let ?starts = "active \<and> is_due cal schedule now"
  let ?schedule = "if ?starts \<and> succeeds then schedule\<lparr>rs_last_sent_at := Some now\<rparr> else schedule"
  have later: "now \<le> fst u" if "u \<in> set turns" for u using Cons.prems(1) that by (simp add: t)
  show ?case
  proof (cases i)
    case 0
    then show ?thesis using due by (auto simp: t Let_def)
  next
    case (Suc k)
    have k: "k < length turns" using Cons.prems(3) Suc by simp
    have sent: "in_slot cal ?schedule r \<and> (\<forall>u \<in> set turns. r \<le> fst u)" if "rs_last_sent_at ?schedule = Some r" for r
      using that Cons.prems(2) [of r] due later by (auto split: if_splits)
    have IH: "slot_turns cal ?schedule turns ! k \<longleftrightarrow>
      rs_enabled ?schedule \<and> fst (snd (turns ! k)) \<and> in_slot cal ?schedule (fst (turns ! k)) \<and>
      (\<forall>r. rs_last_sent_at ?schedule = Some r \<longrightarrow> day_of r \<noteq> day_of (fst (turns ! k))) \<and>
      \<not> served turns (slot_turns cal ?schedule turns) k"
      using Cons.prems(1) by (intro Cons.IH sent k) simp_all
    have before: "day_of r \<noteq> day_of (fst (turns ! k))"
      if "rs_last_sent_at schedule = Some r" "?starts" "day_of now \<noteq> day_of (fst (turns ! k))" for r
    proof -
      have "day_of r < day_of now" using that(1,2) due day_mono [OF recent(2) [OF that(1)]] by auto
      moreover have "day_of now \<le> day_of (fst (turns ! k))" using later [of "turns ! k"] k by (intro day_mono) simp
      ultimately show ?thesis by simp
    qed
    show ?thesis
      unfolding Suc t slot_turns.simps Let_def nth_Cons_Suc served_Suc fst_conv snd_conv IH
      using before by (auto split: if_splits)
  qed
qed simp

section \<open>The scheduled jobs of the loop\<close>

text \<open>The state the loop starts in: nothing was counted or sent, and the repositories count as indexed.\<close>

definition loop_start :: "int \<Rightarrow> int \<Rightarrow> ReportSchedule option \<Rightarrow> ReportSchedule option \<Rightarrow> 'st \<Rightarrow> 'st housekeeping" where
  "loop_start reindexed discord digest distribution s =
     \<lparr>hk_cycle = 0, hk_last_reindex = reindexed, hk_last_discord = discord, hk_digest = digest,
      hk_distribution = distribution, hk_outside = s\<rparr>"

definition running :: "'st turn \<Rightarrow> bool" where
  "running turn \<longleftrightarrow> tn_running_before turn \<and> tn_running turn"

lemma run_loop_running:
  "running turn \<Longrightarrow> fst (run_loop cal config (turn # turns) st) =
     fst (housekeeping_turn cal config turn st) # fst (run_loop cal config turns (snd (housekeeping_turn cal config turn st)))"
  by (simp add: running_def case_prod_unfold)

lemma length_run_loop: "list_all running turns \<Longrightarrow> length (fst (run_loop cal config turns st)) = length turns"
proof (induction turns arbitrary: st)
  case (Cons turn turns)
  then have "running turn" "list_all running turns" by simp_all
  with Cons.IH show ?case unfolding run_loop_running [OF \<open>running turn\<close>] by simp
qed simp

lemma turn_distribution:
  "tr_distribution (fst (housekeeping_turn cal config turn st)) =
     (if tn_paused turn then None
      else fst (distribution_turn cal (hc_dry_run config) (tn_distribution_now turn) (tn_distribute turn) (hk_distribution st)
        (hk_outside st)))"
  "hk_distribution (snd (housekeeping_turn cal config turn st)) =
     (if tn_paused turn then hk_distribution st
      else fst (snd (distribution_turn cal (hc_dry_run config) (tn_distribution_now turn) (tn_distribute turn) (hk_distribution st)
        (hk_outside st))))"
  by (simp_all add: housekeeping_turn_def Let_def case_prod_unfold)

lemma distribution_of_turn:
  assumes "\<not> hc_dry_run config" "hk_distribution st = Some schedule"
  shows "tr_distribution (fst (housekeeping_turn cal config turn st)) \<noteq> None \<longleftrightarrow>
      \<not> tn_paused turn \<and> is_due cal schedule (tn_distribution_now turn)"
    "hk_distribution (snd (housekeeping_turn cal config turn st)) =
      Some (if tr_distribution (fst (housekeeping_turn cal config turn st)) = Some (Inr ())
        then schedule\<lparr>rs_last_sent_at := Some (tn_distribution_now turn)\<rparr> else schedule)"
  unfolding turn_distribution
  using assms by (auto simp: distribution_turn_def run_when_due_def split: prod.splits sum.splits)

lemma distribution_slots:
  assumes "\<not> hc_dry_run config"
  shows "list_all running turns \<Longrightarrow> hk_distribution st = Some schedule \<Longrightarrow>
    map (\<lambda>r. tr_distribution r \<noteq> None) (fst (run_loop cal config turns st)) =
      slot_turns cal schedule (map2 (\<lambda>t r. (tn_distribution_now t, \<not> tn_paused t, tr_distribution r = Some (Inr ())))
        turns (fst (run_loop cal config turns st)))"
proof (induction turns arbitrary: st schedule)
  case (Cons turn turns)
  let ?r = "fst (housekeeping_turn cal config turn st)"
  note one = distribution_of_turn [OF assms Cons.prems(2), of cal turn]
  have "tr_distribution ?r = Some (Inr ()) \<Longrightarrow> \<not> tn_paused turn \<and> is_due cal schedule (tn_distribution_now turn)"
    unfolding one(1) [symmetric] by simp
  then have same: "(if (\<not> tn_paused turn \<and> is_due cal schedule (tn_distribution_now turn)) \<and> tr_distribution ?r = Some (Inr ())
      then schedule\<lparr>rs_last_sent_at := Some (tn_distribution_now turn)\<rparr> else schedule) =
      (if tr_distribution ?r = Some (Inr ()) then schedule\<lparr>rs_last_sent_at := Some (tn_distribution_now turn)\<rparr> else schedule)"
    by simp
  have "running turn" "list_all running turns" using Cons.prems(1) by simp_all
  from Cons.IH [OF this(2) one(2)] show ?case
    unfolding run_loop_running [OF \<open>running turn\<close>] list.map zip_Cons_Cons prod.case slot_turns.simps Let_def one(1) same by simp
qed simp

lemma turn_digest:
  "Repetitive_Digest \<in> set (tr_jobs (fst (housekeeping_turn cal config turn st))) \<longleftrightarrow>
     \<not> tn_paused turn \<and> fst (digest_turn cal (hc_dry_run config) (tn_digest_now turn) (hk_digest st))"
  "hk_digest (snd (housekeeping_turn cal config turn st)) =
     (if tn_paused turn then hk_digest st
      else snd (digest_turn cal (hc_dry_run config) (tn_digest_now turn) (hk_digest st)))"
  by (simp_all add: housekeeping_turn_def Let_def case_prod_unfold)

lemma digest_of_turn:
  assumes "\<not> hc_dry_run config" "hk_digest st = Some schedule"
  shows "Repetitive_Digest \<in> set (tr_jobs (fst (housekeeping_turn cal config turn st))) \<longleftrightarrow>
      \<not> tn_paused turn \<and> is_due cal schedule (tn_digest_now turn)"
    "hk_digest (snd (housekeeping_turn cal config turn st)) =
      Some (if \<not> tn_paused turn \<and> is_due cal schedule (tn_digest_now turn)
        then schedule\<lparr>rs_last_sent_at := Some (tn_digest_now turn)\<rparr> else schedule)"
  unfolding turn_digest using assms by (auto simp: digest_turn_def)

lemma digest_slots:
  assumes "\<not> hc_dry_run config"
  shows "list_all running turns \<Longrightarrow> hk_digest st = Some schedule \<Longrightarrow>
    map (\<lambda>r. Repetitive_Digest \<in> set (tr_jobs r)) (fst (run_loop cal config turns st)) =
      slot_turns cal schedule (map (\<lambda>t. (tn_digest_now t, \<not> tn_paused t, True)) turns)"
proof (induction turns arbitrary: st schedule)
  case (Cons turn turns)
  note one = digest_of_turn [OF assms Cons.prems(2), of cal turn]
  have "running turn" "list_all running turns" using Cons.prems(1) by simp_all
  from Cons.IH [OF this(2) one(2)] show ?case
    unfolding run_loop_running [OF \<open>running turn\<close>] list.map slot_turns.simps Let_def one(1) by simp
qed simp

text \<open>Four turns in the hour of the distribution: the first run fails, the turn after it is paused, and the next one succeeds.\<close>

definition flaky_job :: "(nat, unit) op" where
  "flaky_job k = (if k = 0 then (Inl (Other ''database is locked''), 1) else (Inr (), k + 1))"

definition sample_turn :: "bool \<Rightarrow> datetime \<Rightarrow> nat turn" where
  "sample_turn paused now =
     \<lparr>tn_running_before = True, tn_running = True, tn_paused = paused, tn_repos = Inr 0, tn_reindex_at = 0, tn_reindexed_at = 0,
      tn_discord_at = 0, tn_discord_done_at = 0, tn_digest_now = now, tn_distribution_now = now, tn_cycle = Inr (),
      tn_distribute = flaky_job\<rparr>"

definition sample_turns :: "nat turn list" where
  "sample_turns =
     [sample_turn False (at_hour 9 4), sample_turn True (at_hour 9 4 + 1), sample_turn False (at_hour 9 4 + 2),
      sample_turn False (at_hour 9 4 + 3)]"

definition sample_config :: housekeeping_config where
  "sample_config = \<lparr>hc_dry_run = False, hc_reindex = None, hc_discord = None\<rparr>"

definition sample_schedule :: ReportSchedule where
  "sample_schedule =
     \<lparr>rs_name = ''pr-distribution'', rs_frequency = ReportFrequency.Daily, rs_hour = 9, rs_enabled = True,
      rs_last_sent_at = None\<rparr>"

lemma sample_schedule:
  "pr_distribution_schedule (default_distribution_config\<lparr>pc_enabled := True\<rparr>) = Some sample_schedule"
  by (simp add: pr_distribution_schedule_def default_distribution_config_def sample_schedule_def)

definition sample_results :: "turn_result list" where
  "sample_results = fst (run_loop thirty_days sample_config sample_turns (loop_start 0 0 None (Some sample_schedule) 0))"

definition sample_digest :: ReportSchedule where
  "sample_digest = schedule_weekly ''repetitive-digest'' Mon 9"

lemma sample_digest:
  "repetitive_digest_schedule id \<lparr>rd_enabled = True, rd_day = ''monday'', rd_hour = 9, rd_min_event_count = 50\<rparr> = Some sample_digest"
  by (simp add: repetitive_digest_schedule_def sample_digest_def report_frequency_parse_def report_frequency_texts_def)

definition sample_digests :: "turn_result list" where
  "sample_digests = fst (run_loop thirty_days sample_config sample_turns (loop_start 0 0 (Some sample_digest) None 0))"

lemma sample_results:
  "map tr_distribution sample_results = [Some (Inl (Other ''database is locked'')), None, Some (Inr ()), None]"
  "length sample_results = 4"
  "Repetitive_Digest \<in> set (tr_jobs (sample_digests ! 0))"
  by code_simp+

lemma sample_turns_sorted:
  "list_all running sample_turns" "sorted (map tn_distribution_now sample_turns)" "sorted (map tn_digest_now sample_turns)"
  "length sample_turns = 4"
  by (simp_all add: sample_turns_def sample_turn_def running_def)

text \<open>
  Property C32. The loop distributes the pull requests in every hour the configuration names, and once: a turn that is not
  paused starts a run exactly when its instant lies in a slot of the schedule and no earlier turn of that slot finished
  one, so a run that fails is repeated by the next turn and one that succeeds is not.
\<close>

theorem distribution_once_per_slot:
  assumes "calendar_ok cal" "pr_distribution_schedule distribution = Some schedule" "\<not> hc_dry_run config"
    and "list_all running turns" "sorted (map tn_distribution_now turns)" "i < length turns"
    and "fst (run_loop cal config turns (loop_start reindexed discord digest (Some schedule) s)) = rs"
  shows "tr_distribution (rs ! i) \<noteq> None \<longleftrightarrow>
    \<not> tn_paused (turns ! i) \<and> in_slot cal schedule (tn_distribution_now (turns ! i)) \<and>
    \<not> (\<exists>j<i. day_of (tn_distribution_now (turns ! j)) = day_of (tn_distribution_now (turns ! i)) \<and>
      tr_distribution (rs ! j) = Some (Inr ()))"
proof -
  let ?ticks = "map2 (\<lambda>t r. (tn_distribution_now t, \<not> tn_paused t, tr_distribution r = Some (Inr ()))) turns rs"
  have schedule: "rs_last_sent_at schedule = None" "rs_enabled schedule"
    using assms(2) by (auto simp: pr_distribution_schedule_def split: if_splits)
  have len: "length rs = length turns" using length_run_loop [OF assms(4)] assms(7) by blast
  have starts: "map (\<lambda>r. tr_distribution r \<noteq> None) rs = slot_turns cal schedule ?ticks"
    using distribution_slots [OF assms(3,4), of "loop_start reindexed discord digest (Some schedule) s" schedule cal] assms(7)
    by (simp add: loop_start_def)
  have started: "slot_turns cal schedule ?ticks ! j \<longleftrightarrow> tr_distribution (rs ! j) \<noteq> None" if "j < length turns" for j
    using that len by (simp flip: starts)
  have "map fst ?ticks = map tn_distribution_now turns" using len by (simp add: list_eq_iff_nth_eq)
  then have "slot_turns cal schedule ?ticks ! i \<longleftrightarrow>
      rs_enabled schedule \<and> fst (snd (?ticks ! i)) \<and> in_slot cal schedule (fst (?ticks ! i)) \<and>
      (\<forall>r. rs_last_sent_at schedule = Some r \<longrightarrow> day_of r \<noteq> day_of (fst (?ticks ! i))) \<and>
      \<not> served ?ticks (slot_turns cal schedule ?ticks) i"
    using assms(5,6) schedule len by (intro slot_turns_exact [OF calendar_ok_inj [OF assms(1)]]) simp_all
  moreover have "served ?ticks (slot_turns cal schedule ?ticks) i \<longleftrightarrow>
      (\<exists>j<i. day_of (tn_distribution_now (turns ! j)) = day_of (tn_distribution_now (turns ! i)) \<and>
        tr_distribution (rs ! j) = Some (Inr ()))"
    unfolding served_def by (intro ex_cong1 conj_cong refl) (use assms(6) len started in auto)
  ultimately show ?thesis
    using assms(6) len schedule started [of i] by simp
qed

theorem distribution_once_per_slot_witness:
  "tr_distribution (sample_results ! 2) \<noteq> None \<and> in_slot thirty_days sample_schedule (at_hour 9 4 + 2) \<and>
    \<not> (\<exists>j<2. day_of (tn_distribution_now (sample_turns ! j)) = day_of (at_hour 9 4 + 2) \<and>
      tr_distribution (sample_results ! j) = Some (Inr ()))"
proof -
  have "tr_distribution (sample_results ! 2) \<noteq> None"
    using arg_cong [OF sample_results(1), of "\<lambda>rs. rs ! 2"] sample_results(2) by simp
  then show ?thesis
    using distribution_once_per_slot [OF thirty_days_ok sample_schedule, of sample_config sample_turns 2 0 0 None 0 sample_results]
      sample_turns_sorted
    by (simp add: sample_results_def sample_turns_def sample_turn_def sample_config_def)
qed

text \<open>
  The digest of repetitive issues is sent at most once per slot, whether sending it works or not: a turn that
  is not paused starts it exactly when its instant lies in a slot of the schedule and no earlier turn of that slot did.
\<close>

theorem digest_once_per_slot:
  assumes "calendar_ok cal" "repetitive_digest_schedule lower cfg = Some schedule" "\<not> hc_dry_run config"
    and "list_all running turns" "sorted (map tn_digest_now turns)" "i < length turns"
    and "fst (run_loop cal config turns (loop_start reindexed discord (Some schedule) distribution s)) = rs"
  shows "Repetitive_Digest \<in> set (tr_jobs (rs ! i)) \<longleftrightarrow>
    \<not> tn_paused (turns ! i) \<and> in_slot cal schedule (tn_digest_now (turns ! i)) \<and>
    \<not> (\<exists>j<i. day_of (tn_digest_now (turns ! j)) = day_of (tn_digest_now (turns ! i)) \<and>
      Repetitive_Digest \<in> set (tr_jobs (rs ! j)))"
proof -
  let ?ticks = "map (\<lambda>t. (tn_digest_now t, \<not> tn_paused t, True)) turns"
  have schedule: "rs_last_sent_at schedule = None" "rs_enabled schedule"
    using assms(2) by (auto simp: repetitive_digest_schedule_def schedule_weekly_def split: if_splits)
  have len: "length rs = length turns" using length_run_loop [OF assms(4)] assms(7) by blast
  have starts: "map (\<lambda>r. Repetitive_Digest \<in> set (tr_jobs r)) rs = slot_turns cal schedule ?ticks"
    using digest_slots [OF assms(3,4), of "loop_start reindexed discord (Some schedule) distribution s" schedule cal] assms(7)
    by (simp add: loop_start_def)
  have started: "slot_turns cal schedule ?ticks ! j \<longleftrightarrow> Repetitive_Digest \<in> set (tr_jobs (rs ! j))" if "j < length turns" for j
    using that len by (simp flip: starts)
  have "map fst ?ticks = map tn_digest_now turns" by simp
  then have "slot_turns cal schedule ?ticks ! i \<longleftrightarrow>
      rs_enabled schedule \<and> fst (snd (?ticks ! i)) \<and> in_slot cal schedule (fst (?ticks ! i)) \<and>
      (\<forall>r. rs_last_sent_at schedule = Some r \<longrightarrow> day_of r \<noteq> day_of (fst (?ticks ! i))) \<and>
      \<not> served ?ticks (slot_turns cal schedule ?ticks) i"
    using assms(5,6) schedule by (intro slot_turns_exact [OF calendar_ok_inj [OF assms(1)]]) (simp_all add: comp_def)
  moreover have "served ?ticks (slot_turns cal schedule ?ticks) i \<longleftrightarrow>
      (\<exists>j<i. day_of (tn_digest_now (turns ! j)) = day_of (tn_digest_now (turns ! i)) \<and>
        Repetitive_Digest \<in> set (tr_jobs (rs ! j)))"
    unfolding served_def by (intro ex_cong1 conj_cong refl) (use assms(6) started in auto)
  ultimately show ?thesis
    using assms(6) schedule started [of i] by simp
qed

theorem digest_once_per_slot_witness:
  "\<not> Repetitive_Digest \<in> set (tr_jobs (sample_digests ! 3)) \<and> Repetitive_Digest \<in> set (tr_jobs (sample_digests ! 0))"
proof -
  have "day_of (tn_digest_now (sample_turns ! 0)) = day_of (tn_digest_now (sample_turns ! 3))"
    by (simp add: sample_turns_def sample_turn_def day_of_def at_hour_def nanos_per_day_def nanos_per_hour_def)
  then show ?thesis
    using digest_once_per_slot [OF thirty_days_ok sample_digest, of sample_config sample_turns 3 0 0 None 0 sample_digests]
      sample_turns_sorted sample_results(3)
    by (auto simp: sample_digests_def sample_config_def)
qed

end
