(* ===== verification/Migrator.thy ===== *)
theory Migrator
  imports Text_Ops
begin

text \<open>
  The migrations of the database, \<open>crates/claudear-storage/src/migrator.rs\<close>: one run, and several processes that migrate
  one database at the same time and may stop anywhere. An immediate transaction of SQLite holds the write lock from its
  beginning to its end and is undone unless it is committed, so applying a migration is one step of a process. What a
  script does to the schema, and which calls fail with which message, are parameters.
\<close>

section \<open>Migrations and databases\<close>

record Migration =
  mg_version :: nat
  mg_name :: string
  mg_sql :: string

text \<open>The texts of the scripts are read from \<open>migrations/\<close> at build time.\<close>

definition migrations :: "(string \<Rightarrow> string) \<Rightarrow> Migration list" where
  "migrations script =
     map (\<lambda>(version, name). \<lparr>mg_version = version, mg_name = name,
         mg_sql = script (''V'' @ show_nat version @ ''__'' @ name @ ''.sql'')\<rparr>)
       [(1, ''initial_schema''), (2, ''add_session_last_active''), (3, ''action_runs''), (4, ''support_reply_ratings''),
        (5, ''issue_recurrence''), (6, ''support_discord_knowledgebase''), (7, ''retrieval_usage''),
        (8, ''answer_message_ids''), (9, ''pr_review_states_issue_comments''), (10, ''agent_instructions''),
        (11, ''fix_attempt_routing_intent''), (12, ''deploy_qa_tips''), (13, ''api_tokens''),
        (14, ''fix_attempt_heartbeat''), (15, ''user_directory''), (16, ''pr_assignments''),
        (17, ''chat_session_owner''), (18, ''security_inbox'')]"

text \<open>
  SQLite: the effect of a script, the message of the call made as the n-th one if it fails, and the messages for a table
  that does not exist, a primary key that is taken and a stored version that is not a \<open>u32\<close>.
\<close>

record 'db sqlite =
  sq_execute :: "string \<Rightarrow> 'db \<Rightarrow> string + 'db"
  sq_fault :: "nat \<Rightarrow> string option"
  sq_no_table :: string
  sq_not_unique :: string
  sq_out_of_range :: "int \<Rightarrow> string"

text \<open>The table \<open>schema_migrations\<close>, if it exists, the rest of the database, and the number of calls made.\<close>

record 'db migrated =
  md_rows :: "(int \<times> string) list option"
  md_schema :: 'db
  md_ticks :: nat

type_synonym ('db, 'a) call = "'db migrated \<Rightarrow> (string + 'a) \<times> 'db migrated"

definition sql_call :: "'db sqlite \<Rightarrow> string \<Rightarrow> ('db, unit) call" where
  "sql_call q message s =
     (case sq_fault q (md_ticks s) of None \<Rightarrow> Inr () | Some e \<Rightarrow> Inl (message @ e), s\<lparr>md_ticks := md_ticks s + 1\<rparr>)"

definition bind_call :: "('db, 'a) call \<Rightarrow> ('a \<Rightarrow> ('db, 'b) call) \<Rightarrow> ('db, 'b) call" where
  "bind_call m f s = (case m s of (Inl e, s) \<Rightarrow> (Inl e, s) | (Inr a, s) \<Rightarrow> f a s)"

section \<open>One run\<close>

definition create_tracking :: "'db sqlite \<Rightarrow> ('db, unit) call" where
  "create_tracking q =
     bind_call (sql_call q ''Failed to create schema_migrations table: '') (\<lambda>u s.
       (Inr (), s\<lparr>md_rows := Some (case md_rows s of None \<Rightarrow> [] | Some rows \<Rightarrow> rows)\<rparr>))"

fun read_versions :: "'db sqlite \<Rightarrow> (int \<times> string) list \<Rightarrow> string + nat list" where
  "read_versions q [] = Inr []"
| "read_versions q ((v, name) # rows) =
     (if v < 0 \<or> 2 ^ 32 \<le> v then Inl (''Failed to read applied migrations: '' @ sq_out_of_range q v)
      else case read_versions q rows of Inl e \<Rightarrow> Inl e | Inr vs \<Rightarrow> Inr (nat v # vs))"

definition applied_versions :: "'db sqlite \<Rightarrow> ('db, nat list) call" where
  "applied_versions q =
     bind_call (sql_call q ''Failed to query applied migrations: '') (\<lambda>u s.
       case md_rows s of
         None \<Rightarrow> (Inl (''Failed to query applied migrations: '' @ sq_no_table q), s)
       | Some rows \<Rightarrow>
           bind_call (sql_call q ''Failed to query applied migrations: '') (\<lambda>u.
           bind_call (sql_call q ''Failed to read applied migrations: '') (\<lambda>u s. (read_versions q rows, s))) s)"

definition is_recorded :: "nat \<Rightarrow> 'db migrated \<Rightarrow> bool" where
  "is_recorded v s \<longleftrightarrow> (case md_rows s of None \<Rightarrow> False | Some rows \<Rightarrow> int v \<in> fst ` set rows)"

definition version_and_name :: "Migration \<Rightarrow> string" where
  "version_and_name m = ''V'' @ show_nat (mg_version m) @ ''_'' @ mg_name m"

text \<open>
  Every error leaves the transaction uncommitted, and with it the database as it was.
\<close>

definition apply_one :: "'db sqlite \<Rightarrow> Migration \<Rightarrow> ('db, unit) call" where
  "apply_one q m =
     bind_call (sql_call q (''Failed to begin migration '' @ version_and_name m @ '': '')) (\<lambda>u.
     bind_call (sql_call q (''Failed to check whether V'' @ show_nat (mg_version m) @ '' is recorded: '')) (\<lambda>u s.
       if is_recorded (mg_version m) s then (Inr (), s)
       else case sq_execute q (mg_sql m) (md_schema s) of
         Inl e \<Rightarrow> (Inl (''Migration '' @ version_and_name m @ '' failed: '' @ e), s)
       | Inr schema \<Rightarrow>
           bind_call (sql_call q (''Failed to record migration V'' @ show_nat (mg_version m) @ '': '')) (\<lambda>u s.
             if is_recorded (mg_version m) s
             then (Inl (''Failed to record migration V'' @ show_nat (mg_version m) @ '': '' @ sq_not_unique q), s)
             else bind_call (sql_call q (''Failed to commit migration V'' @ show_nat (mg_version m) @ '': '')) (\<lambda>u s.
             (Inr (), s\<lparr>md_rows := map_option (\<lambda>rows. rows @ [(int (mg_version m), mg_name m)]) (md_rows s),
                        md_schema := schema\<rparr>)) s) s))"

fun apply_all :: "'db sqlite \<Rightarrow> Migration list \<Rightarrow> ('db, unit) call" where
  "apply_all q [] s = (Inr (), s)"
| "apply_all q (m # ms) s = bind_call (apply_one q m) (\<lambda>u. apply_all q ms) s"

definition pending_migrations :: "Migration list \<Rightarrow> nat list \<Rightarrow> Migration list" where
  "pending_migrations ms applied = sort_key mg_version (filter (\<lambda>m. mg_version m \<notin> set applied) ms)"

definition run_migrations :: "'db sqlite \<Rightarrow> Migration list \<Rightarrow> ('db, unit) call" where
  "run_migrations q ms =
     bind_call (create_tracking q) (\<lambda>u.
     bind_call (applied_versions q) (\<lambda>applied. apply_all q (pending_migrations ms applied)))"

definition run_migrator :: "'db sqlite \<Rightarrow> (string \<Rightarrow> string) \<Rightarrow> ('db, unit) call" where
  "run_migrator q script = run_migrations q (migrations script)"

section \<open>Several processes\<close>

text \<open>Where a process is in its run, and a process that was killed.\<close>

datatype phase =
    Creating
  | Reading
  | Applying "Migration list"
  | Finished "string + unit"
  | Killed

definition continue :: "('db, 'a) call \<Rightarrow> ('a \<Rightarrow> phase) \<Rightarrow> 'db migrated \<Rightarrow> phase \<times> 'db migrated" where
  "continue m next s = (case m s of (Inl e, s) \<Rightarrow> (Finished (Inl e), s) | (Inr a, s) \<Rightarrow> (next a, s))"

fun advance_phase :: "'db sqlite \<Rightarrow> Migration list \<Rightarrow> phase \<Rightarrow> 'db migrated \<Rightarrow> phase \<times> 'db migrated" where
  "advance_phase q ms Creating s = continue (create_tracking q) (\<lambda>u. Reading) s"
| "advance_phase q ms Reading s = continue (applied_versions q) (\<lambda>applied. Applying (pending_migrations ms applied)) s"
| "advance_phase q ms (Applying []) s = (Finished (Inr ()), s)"
| "advance_phase q ms (Applying (m # pending)) s = continue (apply_one q m) (\<lambda>u. Applying pending) s"
| "advance_phase q ms (Finished r) s = (Finished r, s)"
| "advance_phase q ms Killed s = (Killed, s)"

text \<open>
  A process opens the database, takes a step, or is killed: before its next step, or after the transaction of it took
  effect and before it heard of it.
\<close>

inductive migration_step ::
  "'db sqlite \<Rightarrow> Migration list \<Rightarrow> phase list \<times> 'db migrated \<Rightarrow> phase list \<times> 'db migrated \<Rightarrow> bool"
  for q ms where
  open_database: "migration_step q ms (ps, s) (ps @ [Creating], s)"
| advance: "i < length ps \<Longrightarrow> advance_phase q ms (ps ! i) s = (p, s') \<Longrightarrow> migration_step q ms (ps, s) (ps[i := p], s')"
| kill: "i < length ps \<Longrightarrow> migration_step q ms (ps, s) (ps[i := Killed], s)"
| kill_late: "i < length ps \<Longrightarrow> advance_phase q ms (ps ! i) s = (p, s') \<Longrightarrow> migration_step q ms (ps, s) (ps[i := Killed], s')"

inductive_cases migration_stepE: "migration_step q ms (ps, s) w"

definition empty_database :: "'db \<Rightarrow> nat \<Rightarrow> 'db migrated" where
  "empty_database schema k = \<lparr>md_rows = None, md_schema = schema, md_ticks = k\<rparr>"

inductive reachable_world :: "'db sqlite \<Rightarrow> Migration list \<Rightarrow> 'db \<Rightarrow> phase list \<times> 'db migrated \<Rightarrow> bool"
  for q ms schema where
  start: "reachable_world q ms schema ([], empty_database schema k)"
| step: "reachable_world q ms schema w \<Longrightarrow> migration_step q ms w w' \<Longrightarrow> reachable_world q ms schema w'"

section \<open>The order of the versions\<close>

definition row_of :: "Migration \<Rightarrow> int \<times> string" where
  "row_of m = (int (mg_version m), mg_name m)"

text \<open>The effect of scripts one after the other, if all of them work.\<close>

fun run_scripts :: "'db sqlite \<Rightarrow> Migration list \<Rightarrow> 'db \<Rightarrow> 'db option" where
  "run_scripts q [] schema = Some schema"
| "run_scripts q (m # ms) schema =
     (case sq_execute q (mg_sql m) schema of Inl e \<Rightarrow> None | Inr schema \<Rightarrow> run_scripts q ms schema)"

lemma run_scripts_append:
  "run_scripts q (ms @ ns) schema = Option.bind (run_scripts q ms schema) (run_scripts q ns)"
  by (induction q ms schema rule: run_scripts.induct) (simp_all split: sum.splits)

definition versions_ok :: "Migration list \<Rightarrow> bool" where
  "versions_ok ms \<longleftrightarrow> distinct (map mg_version ms) \<and> (\<forall>m \<in> set ms. mg_version m < 2 ^ 32)"

abbreviation in_order :: "Migration list \<Rightarrow> Migration list" where
  "in_order ms \<equiv> sort_key mg_version ms"

lemma versions_ok_in_order: "versions_ok ms \<Longrightarrow> versions_ok (in_order ms)"
  unfolding versions_ok_def set_sort by (metis distinct_map distinct_sort set_sort)

lemma migrations_ok: "versions_ok (migrations script)"
  by (simp add: versions_ok_def migrations_def)

text \<open>The migrations that are recorded are the first \<open>k\<close> in the order of their versions, and their scripts were run.\<close>

definition migrated_to :: "'db sqlite \<Rightarrow> Migration list \<Rightarrow> 'db \<Rightarrow> nat \<Rightarrow> 'db migrated \<Rightarrow> bool" where
  "migrated_to q ms schema k s \<longleftrightarrow>
     k \<le> length ms \<and> (case md_rows s of None \<Rightarrow> [] | Some rows \<Rightarrow> rows) = map row_of (take k (in_order ms)) \<and>
     run_scripts q (take k (in_order ms)) schema = Some (md_schema s)"

lemma version_index:
  assumes "versions_ok ms" "j < length ms"
  shows "mg_version (in_order ms ! j) \<in> mg_version ` set (take k (in_order ms)) \<longleftrightarrow> j < k"
proof -
  let ?vs = "map mg_version (in_order ms)"
  have distinct: "distinct ?vs" using versions_ok_in_order [OF assms(1)] by (simp add: versions_ok_def)
  have "mg_version ` set (take k (in_order ms)) = set (take k ?vs)" by (simp add: take_map)
  moreover have "?vs ! i = ?vs ! j \<longleftrightarrow> i = j" if "i < length ms" for i
    using nth_eq_iff_index_eq [OF distinct, of i j] that assms(2) by simp
  then have "?vs ! j \<in> set (take k ?vs) \<longleftrightarrow> j < k"
    using assms(2) by (auto simp del: nth_map simp: in_set_conv_nth)
  ultimately show ?thesis using assms(2) by simp
qed

lemma recorded_iff:
  assumes "versions_ok ms" "migrated_to q ms schema k s" "md_rows s \<noteq> None" "j < length ms"
  shows "is_recorded (mg_version (in_order ms ! j)) s \<longleftrightarrow> j < k"
proof -
  obtain rows where rows: "md_rows s = Some rows" "rows = map row_of (take k (in_order ms))"
    using assms(2,3) by (auto simp: migrated_to_def)
  have "fst ` set rows = int ` mg_version ` set (take k (in_order ms))"
    by (simp add: rows(2) image_image row_of_def)
  then show ?thesis
    using version_index [OF assms(1,4), of k] by (simp add: is_recorded_def rows(1) inj_image_mem_iff)
qed

lemma pending_drop:
  assumes "versions_ok ms"
  shows "pending_migrations ms (map mg_version (take k (in_order ms))) = drop k (in_order ms)"
proof -
  let ?S = "in_order ms"
  have S: "take k ?S @ drop k ?S = ?S" by simp
  have "distinct (map mg_version (take k ?S @ drop k ?S))"
    using versions_ok_in_order [OF assms] unfolding S by (simp add: versions_ok_def)
  then have "mg_version ` set (take k ?S) \<inter> mg_version ` set (drop k ?S) = {}"
    unfolding map_append distinct_append set_map by blast
  then have "filter (\<lambda>m. mg_version m \<notin> mg_version ` set (take k ?S)) (drop k ?S) = drop k ?S"
    "filter (\<lambda>m. mg_version m \<notin> mg_version ` set (take k ?S)) (take k ?S) = []"
    by (auto simp: filter_id_conv filter_empty_conv)
  then have "filter (\<lambda>m. mg_version m \<notin> mg_version ` set (take k ?S)) (take k ?S @ drop k ?S) = drop k ?S"
    unfolding filter_append by simp
  then show ?thesis unfolding S pending_migrations_def by (simp add: filter_sort)
qed

lemma read_versions_rows:
  "\<forall>m \<in> set ms. mg_version m < 2 ^ 32 \<Longrightarrow> read_versions q (map row_of ms) = Inr (map mg_version ms)"
  by (induction ms) (auto simp: row_of_def)

section \<open>The steps\<close>

lemma bind_call_cases:
  assumes "bind_call m f s = (r, s')"
  obtains e where "m s = (Inl e, s')" "r = Inl e" | a t where "m s = (Inr a, t)" "f a t = (r, s')"
  using assms by (auto simp: bind_call_def split: prod.splits sum.splits)

lemma sql_call_ticks: "sql_call q message s = (r, s') \<Longrightarrow> s' = s\<lparr>md_ticks := md_ticks s + 1\<rparr>"
  by (auto simp: sql_call_def)

lemma create_tracking_cases:
  assumes "create_tracking q s = (r, s')"
  obtains (failed) t e where "r = Inl e" "s' = s\<lparr>md_ticks := t\<rparr>"
  | (created) t where "r = Inr ()" "s' = s\<lparr>md_ticks := t, md_rows := Some (case md_rows s of None \<Rightarrow> [] | Some rows \<Rightarrow> rows)\<rparr>"
  using assms unfolding create_tracking_def by (elim bind_call_cases) (auto dest!: sql_call_ticks)

lemma applied_versions_cases:
  assumes "applied_versions q s = (r, s')" "md_rows s = Some rows"
  obtains t where "s' = s\<lparr>md_ticks := t\<rparr>" "\<And>vs. r = Inr vs \<Longrightarrow> read_versions q rows = Inr vs"
  using assms unfolding applied_versions_def
  by (elim bind_call_cases) (auto dest!: sql_call_ticks elim!: bind_call_cases)

lemma apply_one_cases:
  assumes "apply_one q m s = (r, s')"
  obtains (unchanged) t where "s' = s\<lparr>md_ticks := t\<rparr>" "r = Inr () \<Longrightarrow> is_recorded (mg_version m) s"
  | (applied) t schema where "r = Inr ()" "\<not> is_recorded (mg_version m) s"
      "sq_execute q (mg_sql m) (md_schema s) = Inr schema"
      "s' = s\<lparr>md_ticks := t, md_rows := map_option (\<lambda>rows. rows @ [row_of m]) (md_rows s), md_schema := schema\<rparr>"
  using assms unfolding apply_one_def
  by (elim bind_call_cases)
    (auto simp: is_recorded_def row_of_def split: if_splits sum.splits elim!: bind_call_cases dest!: sql_call_ticks)

text \<open>What is known of a process when the first \<open>k\<close> migrations are applied.\<close>

fun phase_ok :: "Migration list \<Rightarrow> nat \<Rightarrow> 'db migrated \<Rightarrow> phase \<Rightarrow> bool" where
  "phase_ok ms k s Reading \<longleftrightarrow> md_rows s \<noteq> None"
| "phase_ok ms k s (Applying pending) \<longleftrightarrow> md_rows s \<noteq> None \<and> (\<exists>j\<le>k. pending = drop j (in_order ms))"
| "phase_ok ms k s (Finished (Inr u)) \<longleftrightarrow> length ms \<le> k"
| "phase_ok ms k s p \<longleftrightarrow> True"

lemma phase_ok_mono:
  "phase_ok ms k s p \<Longrightarrow> k \<le> k' \<Longrightarrow> (md_rows s \<noteq> None \<Longrightarrow> md_rows s' \<noteq> None) \<Longrightarrow> phase_ok ms k' s' p"
  by (cases "(ms, k, s, p)" rule: phase_ok.cases) (auto intro: order_trans)

text \<open>A step of a process keeps the order of the versions, and never undoes a migration.\<close>

lemma advance_phase_ok:
  assumes ok: "versions_ok ms" and to: "migrated_to q ms schema k s" and p: "phase_ok ms k s p"
    and adv: "advance_phase q ms p s = (p', s')"
  shows "\<exists>k'\<ge>k. migrated_to q ms schema k' s' \<and> phase_ok ms k' s' p' \<and> (md_rows s \<noteq> None \<longrightarrow> md_rows s' \<noteq> None)"
proof (cases p)
  case Creating
  obtain r t where c: "create_tracking q s = (r, t)" by fastforce
  show ?thesis
    using adv to by (cases rule: create_tracking_cases [OF c]) (auto simp: Creating c continue_def migrated_to_def intro!: exI [of _ k])
next
  case Reading
  then obtain rows where rows: "md_rows s = Some rows" using p by auto
  then have rows': "rows = map row_of (take k (in_order ms))" using to by (simp add: migrated_to_def)
  have "read_versions q rows = Inr (map mg_version (take k (in_order ms)))"
    unfolding rows' using versions_ok_in_order [OF ok] by (intro read_versions_rows) (auto simp: versions_ok_def dest: in_set_takeD)
  moreover obtain r t where c: "applied_versions q s = (r, t)" by fastforce
  ultimately show ?thesis
    using adv to rows pending_drop [OF ok, of k]
    by (cases rule: applied_versions_cases [OF c rows])
      (auto simp: Reading c continue_def migrated_to_def split: sum.splits intro!: exI [of _ k])
next
  case (Applying pending)
  then obtain j where j: "j \<le> k" "pending = drop j (in_order ms)" and rows: "md_rows s \<noteq> None" using p by auto
  have k: "k \<le> length ms" using to by (simp add: migrated_to_def)
  show ?thesis
  proof (cases "j < length ms")
    case False
    then have "pending = []" using j by simp
    then show ?thesis using adv to k j False by (auto simp: Applying intro!: exI [of _ k])
  next
    case True
    let ?m = "in_order ms ! j"
    have pending: "pending = ?m # drop (Suc j) (in_order ms)" using True j(2) by (simp add: Cons_nth_drop_Suc)
    obtain r t where a: "apply_one q ?m s = (r, t)" by fastforce
    note recorded = recorded_iff [OF ok to rows True]
    from a show ?thesis
    proof (cases rule: apply_one_cases)
      case (unchanged u)
      have "\<exists>i\<le>k. drop (Suc j) (in_order ms) = drop i (in_order ms)" if "j < k" using that Suc_le_eq by blast
      then show ?thesis using adv to rows recorded unchanged
        by (intro exI [of _ k]) (auto simp: Applying pending a continue_def migrated_to_def split: sum.splits)
    next
      case (applied u schema')
      then have "j = k" using recorded j(1) by simp
      then have "migrated_to q ms schema (Suc k) t"
        using to applied rows True by (auto simp: migrated_to_def take_Suc_conv_app_nth run_scripts_append)
      moreover have "p' = Applying (drop (Suc j) (in_order ms))" "s' = t"
        using adv applied(1) by (simp_all add: Applying pending a continue_def)
      ultimately show ?thesis using applied(4) rows \<open>j = k\<close> by (intro exI [of _ "Suc k"]) auto
    qed
  qed
qed (use adv to p in auto)

text \<open>What holds of the processes and their database after any steps.\<close>

definition world_ok :: "'db sqlite \<Rightarrow> Migration list \<Rightarrow> 'db \<Rightarrow> phase list \<times> 'db migrated \<Rightarrow> bool" where
  "world_ok q ms schema w \<longleftrightarrow> (\<exists>k. migrated_to q ms schema k (snd w) \<and> (\<forall>p \<in> set (fst w). phase_ok ms k (snd w) p))"

lemma world_ok_advance:
  assumes ok: "versions_ok ms" and w: "world_ok q ms schema (ps, s)" and i: "i < length ps"
    and adv: "advance_phase q ms (ps ! i) s = (p, s')"
  shows "world_ok q ms schema (ps[i := p], s')" "world_ok q ms schema (ps[i := Killed], s')"
proof -
  obtain k where k: "migrated_to q ms schema k s" "\<forall>p \<in> set ps. phase_ok ms k s p" using w by (auto simp: world_ok_def)
  have "phase_ok ms k s (ps ! i)" using k(2) i by simp
  from advance_phase_ok [OF ok k(1) this adv] obtain k' where k': "k \<le> k'" "migrated_to q ms schema k' s'"
    "phase_ok ms k' s' p" "md_rows s \<noteq> None \<longrightarrow> md_rows s' \<noteq> None"
    by blast
  have "\<forall>p \<in> set ps. phase_ok ms k' s' p"
    using k(2) phase_ok_mono [OF _ k'(1)] k'(4) by blast
  then show "world_ok q ms schema (ps[i := p], s')" "world_ok q ms schema (ps[i := Killed], s')"
    using k'(2,3) by (auto simp: world_ok_def dest!: subsetD [OF set_update_subset_insert])
qed

lemma world_ok_kill: "world_ok q ms schema (ps, s) \<Longrightarrow> world_ok q ms schema (ps[i := Killed], s)"
  by (auto simp: world_ok_def dest!: subsetD [OF set_update_subset_insert])

lemma world_ok_step:
  assumes "versions_ok ms" "world_ok q ms schema w" "migration_step q ms w w'"
  shows "world_ok q ms schema w'"
  using assms(3,2)
proof (cases rule: migration_step.cases)
  case (open_database ps s)
  then show ?thesis using assms(2) by (auto simp: world_ok_def)
qed (use assms(2) world_ok_advance [OF assms(1)] world_ok_kill in auto)

lemma reachable_world_ok:
  assumes "versions_ok ms"
  shows "reachable_world q ms schema w \<Longrightarrow> world_ok q ms schema w"
proof (induction rule: reachable_world.induct)
  case (start k)
  show ?case by (auto simp: world_ok_def migrated_to_def empty_database_def intro!: exI [of _ 0])
qed (rule world_ok_step [OF assms])

text \<open>A process that nobody disturbs, on a database of scripts that were run.\<close>

definition solo :: "'db sqlite \<Rightarrow> Migration list \<Rightarrow> 'db \<Rightarrow> nat \<Rightarrow> phase \<times> 'db migrated" where
  "solo q ms schema n = ((\<lambda>(p, s). advance_phase q ms p s) ^^ n) (Creating, empty_database schema 0)"

lemma solo_reachable: "reachable_world q ms schema ([fst (solo q ms schema n)], snd (solo q ms schema n))"
proof (induction n)
  case 0
  show ?case
    using reachable_world.step [OF reachable_world.start [of q ms schema 0] migration_step.open_database [of q ms "[]"]]
    by (simp add: solo_def)
next
  case (Suc n)
  let ?w = "solo q ms schema n"
  have "migration_step q ms ([fst ?w], snd ?w) ([fst ?w][0 := fst (solo q ms schema (Suc n))], snd (solo q ms schema (Suc n)))"
    by (rule migration_step.advance) (simp_all add: solo_def case_prod_unfold)
  from reachable_world.step [OF Suc.IH this] show ?case by simp
qed

definition recording_sqlite :: "string list sqlite" where
  "recording_sqlite =
     \<lparr>sq_execute = \<lambda>sql db. Inr (db @ [sql]), sq_fault = \<lambda>n. None, sq_no_table = ''no such table'', sq_not_unique = ''UNIQUE constraint failed'',
      sq_out_of_range = \<lambda>v. ''out of range''\<rparr>"

definition two_migrations :: "Migration list" where
  "two_migrations =
     [\<lparr>mg_version = 2, mg_name = ''b'', mg_sql = ''second''\<rparr>, \<lparr>mg_version = 1, mg_name = ''a'', mg_sql = ''first''\<rparr>]"

lemma two_migrations_ok: "versions_ok two_migrations"
  by (simp add: versions_ok_def two_migrations_def)

lemma two_migrations_run:
  "solo recording_sqlite two_migrations [] 5 =
     (Finished (Inr ()), \<lparr>md_rows = Some [(1, ''a''), (2, ''b'')], md_schema = [''first'', ''second''], md_ticks = 12\<rparr>)"
  "run_scripts recording_sqlite (in_order two_migrations) [] = Some [''first'', ''second'']"
  "map row_of (in_order two_migrations) = [(1, ''a''), (2, ''b'')]"
  by code_simp+

text \<open>
  Property C19. However many processes migrate a new database at once, in any interleaving, with calls of SQLite failing and
  processes being killed at any time: the recorded migrations are always the first ones in the order of their versions,
  the schema is what their scripts make of the new one, each run once and in this order, and a process only reports
  success when all of them are recorded.
\<close>

theorem migrations_once_in_order:
  assumes "versions_ok ms" "reachable_world q ms schema (ps, s)"
  shows "\<exists>k \<le> length ms.
    (case md_rows s of None \<Rightarrow> [] | Some rows \<Rightarrow> rows) = map row_of (take k (sort_key mg_version ms)) \<and>
    run_scripts q (take k (sort_key mg_version ms)) schema = Some (md_schema s) \<and>
    (Finished (Inr ()) \<in> set ps \<longrightarrow> k = length ms)"
proof -
  obtain k where "migrated_to q ms schema k s" "\<forall>p \<in> set ps. phase_ok ms k s p"
    using reachable_world_ok [OF assms] by (auto simp: world_ok_def)
  then show ?thesis by (auto simp: migrated_to_def intro!: exI [of _ k])
qed

theorem migrations_once_in_order_witness:
  "\<exists>k \<le> 2. [(1, ''a''), (2, ''b'')] = map row_of (take k (sort_key mg_version two_migrations)) \<and>
    run_scripts recording_sqlite (take k (sort_key mg_version two_migrations)) [] = Some [''first'', ''second''] \<and> k = 2"
  using migrations_once_in_order [OF two_migrations_ok solo_reachable [of recording_sqlite two_migrations "[]" 5]]
  by (simp add: two_migrations_run) (simp add: two_migrations_def row_of_def recording_sqlite_def)

section \<open>A run without faults\<close>

lemma sql_call_works [simp]: "sq_fault q = (\<lambda>n. None) \<Longrightarrow> sql_call q message s = (Inr (), s\<lparr>md_ticks := md_ticks s + 1\<rparr>)"
  by (simp add: sql_call_def)

lemma apply_one_works:
  assumes "sq_fault q = (\<lambda>n. None)" "md_rows s = Some rows" "\<not> is_recorded (mg_version m) s"
    and "sq_execute q (mg_sql m) (md_schema s) = Inr schema"
  shows "\<exists>t. apply_one q m s = (Inr (), s\<lparr>md_ticks := t, md_rows := Some (rows @ [row_of m]), md_schema := schema\<rparr>)"
  using assms by (intro exI [of _ "md_ticks s + 4"]) (simp add: apply_one_def bind_call_def is_recorded_def row_of_def)

lemma apply_all_works:
  assumes ok: "versions_ok ms" and faults: "sq_fault q = (\<lambda>n. None)"
    and whole: "run_scripts q (in_order ms) schema = Some result"
  shows "migrated_to q ms schema k s \<Longrightarrow> md_rows s \<noteq> None \<Longrightarrow>
    \<exists>t. apply_all q (drop k (in_order ms)) s =
      (Inr (), s\<lparr>md_ticks := t, md_rows := Some (map row_of (in_order ms)), md_schema := result\<rparr>)"
proof (induction "length ms - k" arbitrary: k s)
  case 0
  then have "k = length ms" by (simp add: migrated_to_def)
  then have "md_rows s = Some (map row_of (in_order ms))" "md_schema s = result"
    using 0 whole by (auto simp: migrated_to_def)
  then show ?case using \<open>k = length ms\<close> by (auto intro!: exI [of _ "md_ticks s"])
next
  case (Suc n)
  then have k: "k < length ms" by simp
  let ?m = "in_order ms ! k"
  have drop: "drop k (in_order ms) = ?m # drop (Suc k) (in_order ms)" using k by (simp add: Cons_nth_drop_Suc)
  have rows: "md_rows s = Some (map row_of (take k (in_order ms)))" using Suc.prems by (auto simp: migrated_to_def)
  have "run_scripts q (take k (in_order ms) @ drop k (in_order ms)) schema = Some result" using whole by simp
  then have "run_scripts q (drop k (in_order ms)) (md_schema s) = Some result"
    using Suc.prems(1) unfolding run_scripts_append migrated_to_def by simp
  then obtain schema' where schema': "sq_execute q (mg_sql ?m) (md_schema s) = Inr schema'"
    unfolding drop by (auto split: sum.splits)
  have "\<not> is_recorded (mg_version ?m) s" using recorded_iff [OF ok Suc.prems k] by simp
  from apply_one_works [OF faults rows this schema'] obtain t where one:
    "apply_one q ?m s = (Inr (), s\<lparr>md_ticks := t, md_rows := Some (map row_of (take k (in_order ms)) @ [row_of ?m]), md_schema := schema'\<rparr>)"
    (is "_ = (_, ?s)")
    by blast
  have "migrated_to q ms schema (Suc k) ?s"
    using Suc.prems(1) k schema' by (auto simp: migrated_to_def take_Suc_conv_app_nth run_scripts_append)
  then have "\<exists>t. apply_all q (drop (Suc k) (in_order ms)) ?s =
      (Inr (), ?s\<lparr>md_ticks := t, md_rows := Some (map row_of (in_order ms)), md_schema := result\<rparr>)"
    using Suc.hyps(2) by (intro Suc.hyps(1)) auto
  then show ?case unfolding drop by (auto simp: bind_call_def one)
qed



end
