(* ===== verification/Ask_Replies.thy ===== *)
theory Ask_Replies
  imports Text_Ops "HOL-Library.AList"
begin

text \<open>
  The replies to questions, \<open>crates/claudear-integrations/src/ask_reply_inbox.rs\<close>: what the process remembers of the
  messages it sent and received. A hash map is the list of its entries; in which order its keys are iterated is not
  known, so the key that is removed when there are too many is chosen by a parameter.
\<close>

section \<open>State\<close>

record TelegramInboundMessage =
  tm_message_id :: int
  tm_chat_id :: int
  tm_responder_id :: "string option"
  tm_responder_username :: "string option"
  tm_text :: string
  tm_replied_at :: datetime
  tm_reply_to_message_id :: "int option"
  tm_reply_to_text :: "string option"
  tm_reply_to_is_bot :: "bool option"

record WhatsAppInboundMessage =
  wm_message_id :: string
  wm_from :: string
  wm_text :: string
  wm_replied_at :: datetime
  wm_context_message_id :: "string option"

record InboxState =
  ai_delivery_ids :: "(string \<times> string list) list"
  ai_poll_channels :: "(string \<times> string) list"
  ai_telegram :: "TelegramInboundMessage list"
  ai_whatsapp :: "WhatsAppInboundMessage list"

definition empty_ask_inbox :: InboxState where
  "empty_ask_inbox = \<lparr>ai_delivery_ids = [], ai_poll_channels = [], ai_telegram = [], ai_whatsapp = []\<rparr>"

definition ask_key :: "string \<Rightarrow> string \<Rightarrow> string" where
  "ask_key channel correlation_id = channel @ '':'' @ correlation_id"

section \<open>Operations\<close>

text \<open>Dropping from the front what is above a limit.\<close>

definition keep_recent :: "nat \<Rightarrow> 'a list \<Rightarrow> 'a list" where
  "keep_recent limit xs = (if limit < length xs then drop (length xs - limit) xs else xs)"

text \<open>\<open>pick\<close> is the position of the key that comes first when the map is iterated.\<close>

function evict :: "(string list \<Rightarrow> nat) \<Rightarrow> nat \<Rightarrow> (string \<times> 'a) list \<Rightarrow> (string \<times> 'a) list" where
  "evict pick limit m =
     (if limit < length m then evict pick limit (AList.delete (fst (m ! (pick (map fst m) mod length m))) m) else m)"
  by pat_completeness auto

lemma length_delete_member: "k \<in> fst ` set m \<Longrightarrow> length (AList.delete k m) < length m"
  unfolding AList.delete_eq by (elim imageE, rule length_filter_less) auto

lemma nth_key_member: "m \<noteq> [] \<Longrightarrow> fst (m ! (n mod length m)) \<in> fst ` set m"
  by (intro imageI nth_mem) simp

termination evict
  by (relation "measure (\<lambda>(pick, limit, m). length m)") (auto intro!: length_delete_member nth_key_member)

declare evict.simps [simp del]

definition ask_delivery_ids :: "string \<Rightarrow> string \<Rightarrow> InboxState \<Rightarrow> string list" where
  "ask_delivery_ids channel correlation_id s =
     (case map_of (ai_delivery_ids s) (ask_key channel correlation_id) of None \<Rightarrow> [] | Some ids \<Rightarrow> ids)"

definition remember_ask_delivery_id ::
  "(string list \<Rightarrow> nat) \<Rightarrow> string \<Rightarrow> string \<Rightarrow> string \<Rightarrow> InboxState \<Rightarrow> InboxState" where
  "remember_ask_delivery_id pick channel correlation_id message_id s =
     (if trim message_id = [] then s
      else
        let ids = ask_delivery_ids channel correlation_id s;
            ids = (if message_id \<in> set ids then ids else keep_recent 32 (ids @ [message_id]));
            m = AList.update (ask_key channel correlation_id) ids (ai_delivery_ids s)
        in s\<lparr>ai_delivery_ids := (if 512 < length m then evict pick 512 (filter (\<lambda>(k, v). v \<noteq> []) m) else m)\<rparr>)"

definition remember_ask_poll_channel :: "string \<Rightarrow> string \<Rightarrow> string \<Rightarrow> InboxState \<Rightarrow> InboxState" where
  "remember_ask_poll_channel channel correlation_id poll_channel_id s =
     (if trim poll_channel_id = [] then s
      else
        let m = AList.update (ask_key channel correlation_id) poll_channel_id (ai_poll_channels s)
        in s\<lparr>ai_poll_channels :=
               (if 512 < length m then filter (\<lambda>(k, v). k \<in> fst ` set (ai_delivery_ids s)) m else m)\<rparr>)"

definition ask_poll_channel :: "string \<Rightarrow> string \<Rightarrow> InboxState \<Rightarrow> string option" where
  "ask_poll_channel channel correlation_id s = map_of (ai_poll_channels s) (ask_key channel correlation_id)"

definition record_telegram_message :: "TelegramInboundMessage \<Rightarrow> InboxState \<Rightarrow> InboxState" where
  "record_telegram_message m s = s\<lparr>ai_telegram := keep_recent 2048 (ai_telegram s @ [m])\<rparr>"

definition telegram_messages_since :: "datetime \<Rightarrow> InboxState \<Rightarrow> TelegramInboundMessage list" where
  "telegram_messages_since since s = filter (\<lambda>m. since \<le> tm_replied_at m) (ai_telegram s)"

definition record_whatsapp_message :: "WhatsAppInboundMessage \<Rightarrow> InboxState \<Rightarrow> InboxState" where
  "record_whatsapp_message m s = s\<lparr>ai_whatsapp := keep_recent 2048 (ai_whatsapp s @ [m])\<rparr>"

definition whatsapp_messages_since :: "datetime \<Rightarrow> InboxState \<Rightarrow> WhatsAppInboundMessage list" where
  "whatsapp_messages_since since s = filter (\<lambda>m. since \<le> wm_replied_at m) (ai_whatsapp s)"

section \<open>Bounds\<close>

inductive ask_step :: "(string list \<Rightarrow> nat) \<Rightarrow> InboxState \<Rightarrow> InboxState \<Rightarrow> bool" for pick where
  delivery: "ask_step pick s (remember_ask_delivery_id pick channel correlation_id message_id s)"
| poll_channel: "ask_step pick s (remember_ask_poll_channel channel correlation_id poll_channel_id s)"
| telegram: "ask_step pick s (record_telegram_message t s)"
| whatsapp: "ask_step pick s (record_whatsapp_message w s)"

definition asks_bounded :: "InboxState \<Rightarrow> bool" where
  "asks_bounded s \<longleftrightarrow>
     distinct (map fst (ai_delivery_ids s)) \<and> length (ai_delivery_ids s) \<le> 512 \<and>
     (\<forall>(k, ids) \<in> set (ai_delivery_ids s). ids \<noteq> [] \<and> distinct ids \<and> length ids \<le> 32) \<and>
     distinct (map fst (ai_poll_channels s)) \<and> length (ai_poll_channels s) \<le> 512 \<and>
     length (ai_telegram s) \<le> 2048 \<and> length (ai_whatsapp s) \<le> 2048"

lemma length_keep_recent [simp]: "length (keep_recent n xs) = min n (length xs)"
  by (simp add: keep_recent_def)

lemma keep_recent_append: "0 < n \<Longrightarrow> keep_recent n (xs @ [x]) = keep_recent (n - 1) xs @ [x]"
  by (auto simp: keep_recent_def Suc_diff_le)

lemma keep_recent_short [simp]: "length xs \<le> n \<Longrightarrow> keep_recent n xs = xs"
  by (simp add: keep_recent_def)

lemma distinct_keep_recent: "distinct xs \<Longrightarrow> distinct (keep_recent n xs)"
  by (simp add: keep_recent_def)

lemma set_keep_recent: "set (keep_recent n xs) \<subseteq> set xs"
  by (simp add: keep_recent_def set_drop_subset)

lemma set_update_alist: "set (AList.update k v m) \<subseteq> insert (k, v) (set m)"
  by (induction m) auto

lemma length_put: "length (AList.update k v m) = (if k \<in> fst ` set m then length m else Suc (length m))"
  by (induction m) auto

lemma put_appended: "k \<notin> fst ` set m \<Longrightarrow> AList.update k v m = m @ [(k, v)]"
  by (induction m) auto

lemma evict_bound: "length (evict pick limit m) \<le> limit"
  by (induction pick limit m rule: evict.induct) (subst evict.simps, simp)

lemma evict_subset: "set (evict pick limit m) \<subseteq> set m"
proof (induction pick limit m rule: evict.induct)
  case (1 pick limit m)
  show ?case
  proof (cases "limit < length m")
    case True
    then show ?thesis using 1 by (subst evict.simps) (auto simp: AList.delete_eq)
  qed (simp add: evict.simps)
qed

lemma evict_distinct: "distinct (map fst m) \<Longrightarrow> distinct (map fst (evict pick limit m))"
proof (induction pick limit m rule: evict.induct)
  case (1 pick limit m)
  then show ?case by (cases "limit < length m"; subst evict.simps) (simp_all add: distinct_delete)
qed

lemma bounded_delivery:
  assumes "asks_bounded s"
  shows "asks_bounded (remember_ask_delivery_id pick channel correlation_id message_id s)"
proof (cases "trim message_id = []")
  case False
  let ?key = "ask_key channel correlation_id"
  let ?old = "ask_delivery_ids channel correlation_id s"
  define ids where "ids = (if message_id \<in> set ?old then ?old else keep_recent 32 (?old @ [message_id]))"
  define m where "m = AList.update ?key ids (ai_delivery_ids s)"
  have "distinct ?old" "length ?old \<le> 32"
    using assms by (auto simp: asks_bounded_def ask_delivery_ids_def dest!: map_of_SomeD split: option.splits)
  then have ids: "ids \<noteq> []" "distinct ids" "length ids \<le> 32"
    by (auto simp: ids_def keep_recent_append intro!: distinct_keep_recent dest: subsetD [OF set_keep_recent])
  have "set m \<subseteq> insert (?key, ids) (set (ai_delivery_ids s))" unfolding m_def by (rule set_update_alist)
  then have entries: "\<forall>(k, ids) \<in> set m. ids \<noteq> [] \<and> distinct ids \<and> length ids \<le> 32"
    using assms ids by (auto simp: asks_bounded_def)
  have keys: "distinct (map fst m)" using assms by (simp add: m_def distinct_update asks_bounded_def)
  then have "distinct (map fst (filter (\<lambda>(k, v). v \<noteq> []) m))" by (rule distinct_map_filter)
  from evict_distinct [OF this] show ?thesis
    using assms keys entries evict_bound [of pick 512] evict_subset [of pick 512 "filter (\<lambda>(k, v). v \<noteq> []) m"] False
    by (auto simp: asks_bounded_def remember_ask_delivery_id_def Let_def simp flip: ids_def m_def)
qed (use assms in \<open>simp add: remember_ask_delivery_id_def\<close>)

lemma bounded_poll_channel:
  assumes "asks_bounded s"
  shows "asks_bounded (remember_ask_poll_channel channel correlation_id poll_channel_id s)"
proof (cases "trim poll_channel_id = []")
  case False
  define m where "m = AList.update (ask_key channel correlation_id) poll_channel_id (ai_poll_channels s)"
  let ?live = "filter (\<lambda>(k, v). k \<in> fst ` set (ai_delivery_ids s)) m"
  have keys: "distinct (map fst m)" using assms by (simp add: m_def distinct_update asks_bounded_def)
  then have live: "distinct (map fst ?live)" by (rule distinct_map_filter)
  have "length ?live = card (set (map fst ?live))" using distinct_card [OF live] by simp
  also have "\<dots> \<le> card (set (map fst (ai_delivery_ids s)))" by (rule card_mono) force+
  also have "\<dots> \<le> 512" using assms card_length [of "map fst (ai_delivery_ids s)"] by (simp add: asks_bounded_def)
  finally have "length ?live \<le> 512" .
  then show ?thesis
    using assms keys live False by (auto simp: asks_bounded_def remember_ask_poll_channel_def Let_def simp flip: m_def)
qed (use assms in \<open>simp add: remember_ask_poll_channel_def\<close>)

text \<open>
  Whatever is sent and received, the inbox holds at most 512 questions with at most 32 different messages each, the
  channels of at most 512 questions, and the last 2048 messages of Telegram and of WhatsApp.
\<close>

theorem asks_stay_bounded: "(ask_step pick)\<^sup>*\<^sup>* empty_ask_inbox s \<Longrightarrow> asks_bounded s"
proof (induction rule: rtranclp_induct)
  case base
  show ?case by (simp add: asks_bounded_def empty_ask_inbox_def)
next
  case (step s t)
  from step.hyps(2) show ?case
  proof cases
    case telegram
    then show ?thesis using step.IH by (simp add: asks_bounded_def record_telegram_message_def)
  next
    case whatsapp
    then show ?thesis using step.IH by (simp add: asks_bounded_def record_whatsapp_message_def)
  qed (use bounded_delivery bounded_poll_channel step.IH in auto)
qed

section \<open>What is found again\<close>

text \<open>A message that was sent is found under its question as long as the map has room for it.\<close>

lemma remembered_delivery_found:
  assumes "trim message_id \<noteq> []"
    and "ask_key channel correlation_id \<in> fst ` set (ai_delivery_ids s) \<or> length (ai_delivery_ids s) < 512"
    and "asks_bounded s"
  shows "message_id \<in> set (ask_delivery_ids channel correlation_id (remember_ask_delivery_id pick channel correlation_id message_id s))"
proof -
  let ?key = "ask_key channel correlation_id"
  have "length (ai_delivery_ids s) \<le> 512" using assms(3) by (simp add: asks_bounded_def)
  then have "\<not> 512 < length (AList.update ?key ids (ai_delivery_ids s))" for ids
    using assms(2) unfolding length_put by (cases "?key \<in> fst ` set (ai_delivery_ids s)") simp_all
  then show ?thesis
    using assms(1) by (auto simp: remember_ask_delivery_id_def Let_def ask_delivery_ids_def update_conv' keep_recent_append)
qed

text \<open>
  When the map is full the new question may be the one that is removed again: which key comes first in a hash map does
  not depend on its age.
\<close>

lemma fresh_delivery_may_be_forgotten:
  assumes "length (ai_delivery_ids s) = 512" "asks_bounded s" "ask_key channel correlation_id \<notin> fst ` set (ai_delivery_ids s)"
  shows "\<exists>pick. ask_delivery_ids channel correlation_id (remember_ask_delivery_id pick channel correlation_id message_id s) = []"
proof (cases "trim message_id = []")
  case True
  then show ?thesis using assms(3) by (auto simp: remember_ask_delivery_id_def ask_delivery_ids_def map_of_eq_None_iff [THEN iffD2])
next
  case False
  let ?key = "ask_key channel correlation_id"
  have old: "ask_delivery_ids channel correlation_id s = []"
    using assms(3) by (simp add: ask_delivery_ids_def map_of_eq_None_iff [THEN iffD2])
  let ?m = "ai_delivery_ids s @ [(?key, [message_id])]"
  have full: "filter (\<lambda>(k, v). v \<noteq> []) ?m = ?m" using assms(2) by (auto simp: asks_bounded_def filter_id_conv)
  have "evict (\<lambda>_. 512) 512 ?m = evict (\<lambda>_. 512) 512 (AList.delete ?key ?m)"
    using assms(1) by (subst evict.simps) (simp add: nth_append)
  also have "AList.delete ?key ?m = ai_delivery_ids s"
    using assms(3) by (force simp: AList.delete_eq filter_id_conv)
  also have "evict (\<lambda>_. 512) 512 (ai_delivery_ids s) = ai_delivery_ids s" using assms(1) by (simp add: evict.simps)
  finally have "remember_ask_delivery_id (\<lambda>_. 512) channel correlation_id message_id s = s"
    using assms(1) False full by (simp add: remember_ask_delivery_id_def Let_def old put_appended [OF assms(3)])
  then show ?thesis using old by (intro exI [of _ "\<lambda>_. 512"]) simp
qed

end
