(* ===== verification/Purge.thy ===== *)
theory Purge
  imports Security_Guarantees
begin

text \<open>
  \<open>SqliteTracker::purge_operational_data\<close> (\<open>crates/claudear-storage/src/sqlite.rs\<close>, run by the \<open>purge\<close> command), for the
  tables that are modelled: it turns the foreign keys off, deletes the fix attempts and keeps the security tables,
  with their references to the attempts. It is no call of \<open>run_security\<close>: the invariants of the security store are those of
  a store that was never purged.
\<close>

text \<open>The count of \<open>PurgeResult::fix_attempts\<close>, and the store; \<open>DELETE\<close> without a condition keeps the \<open>AUTOINCREMENT\<close> sequence.\<close>

definition purge_fix_attempts :: "security_db \<Rightarrow> nat \<times> security_db" where
  "purge_fix_attempts db = (length (db_attempts db), db\<lparr>db_attempts := []\<rparr>)"

section \<open>Keys of attempts\<close>

lemma inserted_ids:
  assumes "\<And>i. fa_id (mk i) = i"
  shows "fa_id ` set (db_attempts (snd (insert_attempt mk s))) \<subseteq> insert (db_next_attempt s) (fa_id ` set (db_attempts s)) \<and>
    db_next_attempt s \<le> db_next_attempt (snd (insert_attempt mk s))"
  using assms by (auto simp: insert_attempt_def Let_def)

lemma update_ids:
  assumes "\<And>r. fa_id (f r) = fa_id r"
  shows "fa_id ` set (db_attempts (update_attempts p f s)) = fa_id ` set (db_attempts s)"
proof -
  have "map fa_id (update_where p f (db_attempts s)) = map fa_id (db_attempts s)"
    by (rule map_update_where) (rule assms)
  then show ?thesis using list.set_map by (metis update_attempts_simps(1))
qed

lemma step_ids:
  "fa_id ` set (db_attempts (attempt_step c s)) \<subseteq> insert (db_next_attempt s) (fa_id ` set (db_attempts s)) \<and>
   db_next_attempt s \<le> db_next_attempt (attempt_step c s)"
proof (cases c)
  case (Record_attempt now src i short labels)
  have "snd (bind_op m (\<lambda>_. ret ()) s) = snd (m s)" for m :: "('a attempts_db_scheme, int) op"
    by (simp add: bind_op_def ret_def split: sum.splits prod.splits)
  then show ?thesis
    using inserted_ids [of "\<lambda>k. new_attempt_row k src i short now j None None" s for j]
    by (auto simp: Record_attempt record_attempt_with_labels_def Let_def update_ids new_attempt_row_def simp del: update_attempts_simps(1)
        split: option.splits)
next
  case (Record_cascade now src i short p repo)
  then show ?thesis
    using inserted_ids [of "\<lambda>k. new_attempt_row k src i short now None (Some p) (Some repo)" s]
    by (auto simp: record_cascade_attempt_def new_attempt_row_def split: option.splits)
qed (auto simp: attempt_operations prepare_for_retry_def release_orphaned_pending_attempts_def Let_def update_ids
    simp del: update_attempts_simps(1))

lemma run_ids:
  "j \<in> fa_id ` set (db_attempts (run_attempts calls s)) \<Longrightarrow> j \<in> fa_id ` set (db_attempts s) \<or> db_next_attempt s \<le> j"
  unfolding run_attempts_def
proof (induction calls arbitrary: s)
  case (Cons c calls)
  then show ?case using step_ids [of c s] by fastforce
qed simp

lemma change_attempts_ok: "change db db' \<Longrightarrow> attempts_ok db \<Longrightarrow> attempts_ok db'"
proof (induction rule: change.induct)
  case (attempts_changed db c)
  then show ?case by (simp add: attempt_step_ok)
next
  case (reply_added report_id kind t db db')
  then show ?case by (auto simp: insert_reply_def Let_def attempts_ok_def split: if_splits)
qed (auto simp: add_event_def attempts_ok_def)

lemma reachable_attempts_ok: "attempts_ok (run_security calls empty_db)"
proof -
  have "change\<^sup>*\<^sup>* db db' \<Longrightarrow> attempts_ok db \<Longrightarrow> attempts_ok db'" for db db'
    by (induction rule: rtranclp_induct) (auto intro: change_attempts_ok)
  moreover have "attempts_ok empty_db" by (simp add: attempts_ok_def empty_db_def originals_def)
  ultimately show ?thesis using run_changes [OF empty_security_ok, of calls] by blast
qed

section \<open>What the purge leaves behind\<close>

text \<open>
  Every vulnerability with a fix attempt is left with a reference to an attempt that is gone, which the foreign key
  rules out otherwise; whatever calls follow, it never comes to name another attempt.
\<close>

theorem purged_attempts_stay_gone:
  "let db = run_security earlier empty_db; later_db = run_attempts calls (snd (purge_fix_attempts db))
   in db_vulnerabilities later_db = db_vulnerabilities db \<and>
      list_all (\<lambda>v. references (attempt_exists db) (sv_fix_attempt_id v) \<and>
          (sv_fix_attempt_id v \<noteq> None \<longrightarrow> \<not> references (attempt_exists later_db) (sv_fix_attempt_id v)))
        (db_vulnerabilities db)"
proof -
  let ?db = "run_security earlier empty_db" and ?purged = "snd (purge_fix_attempts (run_security earlier empty_db))"
  have ok: "security_ok ?db" by (rule reachable_ok)
  have "db_vulnerabilities (run_attempts calls s) = db_vulnerabilities s" for s :: security_db
    unfolding run_attempts_def
    by (induction calls arbitrary: s) (use attempt_step_same in \<open>auto simp: same_security_def\<close>)
  then have kept: "db_vulnerabilities (run_attempts calls ?purged) = db_vulnerabilities ?db"
    by (simp add: purge_fix_attempts_def)
  have "references (attempt_exists ?db) (sv_fix_attempt_id v) \<and>
      (sv_fix_attempt_id v \<noteq> None \<longrightarrow> \<not> references (attempt_exists (run_attempts calls ?purged)) (sv_fix_attempt_id v))"
    if v: "v \<in> set (db_vulnerabilities ?db)" for v
  proof -
    have refs: "references (attempt_exists ?db) (sv_fix_attempt_id v)"
      using ok v by (simp add: security_ok_def refs_ok_def list_all_iff vulnerability_refs_def)
    have "\<not> attempt_exists (run_attempts calls ?purged) j" if "attempt_exists ?db j" for j
    proof -
      have "j < db_next_attempt ?db"
        using reachable_attempts_ok [of earlier] that by (auto simp: attempts_ok_def keys_below_def exists_iff)
      then show ?thesis
        using run_ids [of j calls ?purged] by (auto simp: exists_iff purge_fix_attempts_def image_iff)
    qed
    with refs show ?thesis by (cases "sv_fix_attempt_id v") auto
  qed
  then show ?thesis using kept by (simp add: Let_def list_all_iff)
qed

end
