(* ===== verification/Spec2Isabelle.thy ===== *)
theory Spec2Isabelle
  imports Attempt_Answers Attempt_Stats Retry Inbox_Delivery Inbox_Guarantees Distribution_Coverage
    Assignment_Map Housekeeping Migrator Ask_Replies Purge
begin

text \<open>
  Claudear watches issue trackers and a security mailbox, lets coding agents fix what they report, and follows each
  fix until it is released. This development models the parts of it that decide what happens: the store of fix
  attempts with its retries and statistics, the security inbox with its store, its engine and its endpoints, and the
  distribution of open pull requests over the developers that the user registry knows.
  Sources are named relative to \<open>src/\<close>.

  Parts and theories, in the order of the code.

  \<^item> Shared. \<open>Prelude\<close>: the error type of \<open>claudear-core/src/error.rs\<close>, results as \<open>error + 'a\<close>, operations that take a
    store and return a result with the store they leave, transactions. \<open>Tables\<close>: tables as lists of rows, \<open>UPDATE\<close>,
    \<open>ORDER BY\<close>, \<open>LIMIT\<close>, key sequences. \<open>Text_Ops\<close>, \<open>Text_Search\<close>: \<open>str\<close> as the list of its UTF-8 bytes. \<open>Text_Enum\<close>:
    enums stored as texts. \<open>Floats\<close>: the comparisons of IEEE numbers by their bits.

  \<^item> Fix attempts. \<open>Fix_Attempts\<close> (table \<open>fix_attempts\<close> and every operation of the attempt tracker in
    \<open>claudear-storage/src/sqlite.rs\<close>), \<open>Pr_Url\<close> (\<open>parse_pr_url\<close>), \<open>Attempt_Answers\<close> (the answers to questions),
    \<open>Attempt_Stats\<close> (\<open>claudear-storage/src/scope.rs\<close> and the statistics), \<open>Retry\<close> (\<open>claudear-engine/src/retry.rs\<close> over
    the tracker as an interface; the scans for ready retries of an issue that keeps failing).

  \<^item> Security domain. \<open>Security_Types\<close>, \<open>Lifecycle\<close>, \<open>Security_Domain\<close>: \<open>claudear-core/src/security.rs\<close>, its state
    machines, texts, identifiers, URLs, first reporters and overrides.

  \<^item> Security inbox store. \<open>Security_Db\<close> (migration V18), \<open>Security_Rows\<close>, \<open>Security_Store\<close>, \<open>Security_Queries\<close>:
    \<open>claudear-storage/src/sqlite/security_reports.rs\<close>, one definition per method. \<open>Security_Changes\<close> and
    \<open>Security_Runs\<close> state what any method may do as an inductive step relation and prove the invariant of the store
    (\<open>security_ok\<close>) by rule induction; \<open>Security_Guarantees\<close> and \<open>Security_Exact\<close> read the properties off it.
    \<open>Security_Frames\<close> and \<open>Security_Effects\<close> say which tables a call leaves alone and what it does to the others.
    \<open>Purge\<close> has \<open>purge_operational_data\<close> of \<open>claudear-storage/src/sqlite.rs\<close>, which deletes the fix attempts with the
    foreign keys off: it is none of the calls the invariant is about, and leaves the references to the attempts dangling.

  \<^item> Security inbox engine, \<open>claudear-engine/src/security/\<close>. Texts: \<open>Reply_Texts\<close> (\<open>reply.rs\<close>, \<open>scrub.rs\<close>), \<open>Prompts\<close>
    (\<open>prompt.rs\<close>), \<open>Owner_Pings\<close> (\<open>notify.rs\<close>), \<open>History\<close> (\<open>history.rs\<close>), \<open>Assessment\<close> (\<open>assessment.rs\<close>). Operations:
    \<open>Inbox\<close> (state, configuration, deliveries), \<open>Inbox_Assess\<close> (screening and both assessment phases),
    \<open>Inbox_Register\<close> (\<open>dedup.rs\<close>), \<open>Inbox_Fix\<close> (\<open>fix.rs\<close>), \<open>Inbox_Intake\<close> (\<open>intake.rs\<close>), \<open>Inbox_Sweep\<close> (\<open>lifecycle.rs\<close>),
    \<open>Inbox_Admin\<close> (\<open>claudear-engine/src/api/security_reports.rs\<close>).

  \<^item> What the engine guarantees. \<open>Inbox_Effects\<close> is a calculus of operations: relations between the states before and
    after (\<open>along\<close>), conditions brought about (\<open>brings\<close>, \<open>sweeps\<close>), and locales for relations closed under reading
    (\<open>inbox_effects\<close>), routine calls (\<open>routine_effects\<close>, \<open>Inbox_Footprints\<close>, \<open>Inbox_Routine\<close>), all calls but
    announcements (\<open>quiet_effects\<close>) and all calls (\<open>open_effects\<close>). \<open>Inbox_Runs\<close> has the actions of the rest of the
    program on the inbox and their runs. \<open>Inbox_Invariants\<close>, \<open>Inbox_Safety\<close> and \<open>Inbox_Announce\<close> interpret the locales
    on the invariant \<open>inbox_ok\<close> and on what an announcement may do; \<open>Inbox_Guarantees\<close> has the properties.
    \<open>Inbox_Delivery\<close> splits a delivery into its steps and lets them interleave with everything else.

  \<^item> People. \<open>Identities\<close> (\<open>claudear-core/src/identity/\<close>: the fields of a person, their normal forms and validation),
    \<open>User_Registry\<close> (\<open>claudear-config/src/users.rs\<close>: the directory of configured people and console entries, who holds
    which handle), \<open>Issues\<close> (the issues of \<open>claudear-core/src/types.rs\<close>).

  \<^item> Distribution of pull requests. What is computed, \<open>claudear-analysis/src/distribution/\<close>: \<open>Rosters\<close> (\<open>roster.rs\<close>),
    \<open>Pull_Requests\<close> (\<open>pull_request.rs\<close> and \<open>notice.rs\<close>: attention, messages and their pages), \<open>Code_Owners\<close>
    (\<open>codeowners.rs\<close>), \<open>Scores\<close> (the rounding of \<open>f64\<close> on finite non-negative values), \<open>Ownership\<close> (\<open>ownership.rs\<close>) and
    \<open>Balancing\<close> (\<open>balancer.rs\<close>). What is kept: \<open>Assignments\<close>, the assignments table of
    \<open>claudear-storage/src/sqlite.rs\<close>, which \<open>Assignment_Map\<close> shows to be a map from pull requests to their assignments.
    What is done, \<open>claudear-integrations/src/\<close>: \<open>Deliveries\<close> (\<open>notifier/delivery.rs\<close> and the composite of all channels) and
    \<open>Distributor\<close> (\<open>distribution/distributor.rs\<close>: a pull request that was opened, and the scheduled run).
    \<open>Distribution_Effects\<close> has conditions before and after an operation (\<open>triple\<close>) and the locale
    \<open>distribution_effects\<close> of conditions kept by every call to the store and to the notifier, which
    \<open>Distribution_Guarantees\<close> interprets on who was reached; \<open>Distribution_Coverage\<close> follows a pull request through the
    phases of a run, and a security fix through any number of runs.

  \<^item> Scheduled work. \<open>Schedules\<close> (\<open>claudear-integrations/src/reports/scheduler.rs\<close> and the configuration of the runs in
    \<open>claudear-config/src/config.rs\<close>: when a schedule is due, and when it is next) and \<open>Housekeeping\<close>
    (\<open>claudear-engine/src/housekeeping.rs\<close>: the loop that starts the jobs of each turn, among them the distribution). The
    calendar of \<open>chrono\<close> is a parameter; \<open>calendar_ok\<close> is what the code relies on, and \<open>thirty_days\<close> has it. A turn is
    given by what the loop finds: whether it still runs or is paused, the clocks, and what its jobs return.

  \<^item> \<open>Migrator\<close> (\<open>claudear-storage/src/migrator.rs\<close>): the migrations as a run of one process, and as a step relation of
    several that share a database, may fail and may be killed; SQLite is the parameter \<open>sqlite\<close>, its transactions are
    steps. \<open>Ask_Replies\<close> (\<open>claudear-integrations/src/ask_reply_inbox.rs\<close>): the bounded memory of questions and replies.

  State and correspondence. The database is the record \<open>security_db\<close>, which extends the attempts (\<open>attempts_db\<close>); the
  inbox is the record \<open>inbox\<close>: the database, the clock, the mails and pings sent, and how often the outside world was
  asked (\<open>ib_ticks\<close>). What the code asks of others is the record \<open>inbox_env\<close>, the parameters of the model: agents, git,
  the deployment tracker, the mail source, embeddings, the parser of RFC 3339 and of regular expressions. Each answer
  may depend on the tick, so nothing is assumed of two questions getting the same answer. Rust names are kept; rows
  and values share field names (\<open>sr_\<close> reports, \<open>sv_\<close> vulnerabilities, \<open>se_\<close> events, \<open>sp_\<close> replies, \<open>sa_\<close> awards, \<open>fa_\<close>
  and \<open>at_\<close> attempts, \<open>pa_\<close> and \<open>as_\<close> assignments). The distributor acts on the record \<open>distribution\<close>: the assignments, the
  clock, the pings and digests sent with what the notifier answered, and its own \<open>di_ticks\<close>; the code host and the
  notifier are the parameters \<open>PullRequestHost\<close> and \<open>PingNotifier\<close>, \<open>str::to_lowercase\<close> and the \<open>regex\<close> crate are the
  parameters \<open>ds_lower\<close> and \<open>ds_regex\<close>. Machine integers are words where they can overflow (retry counts, limits, delays); SQLite's
  integers are \<open>int\<close>, times are nanoseconds (\<open>datetime\<close>) or whole seconds (\<open>stamp\<close>).

  What the lemmas show. The store: its invariant after any calls, complete audit trails, compare-and-swap transitions,
  exact claims and completions. Deliveries: at most one mail per report and kind under any interleaving. The engine:
  evidence for every live vulnerability, awards and announcements only when due, one reward per report. Attempts: the
  invariant of the table, the exact guards of retries, and that a failing issue is retried once per retry left, never
  before its delay is over, and then given up.
  Distribution: the assignments behave as a map; every open pull request that needs attention has exactly one assignee after a run, nobody gets one
  beyond the fair share, who asked for the work outranks who owns it, only who was reached is recorded as notified.
  Schedules: the loop runs the distribution in every slot of its schedule until one run succeeds and not again, and the
  digest of repetitive issues once per slot whether it could be sent or not; the next run is the first slot to come.
  Migrations: under any interleaving each is applied once, in the order of the versions, and a later run completes them.
  People: a handle belongs to the first who claims it, whatever the order of the configuration's hash maps.
  Texts: neutralized fences, scrubbed reasons, round trips of identifiers, URLs and event details.

  Bounds and fuel. No definition uses fuel: loops are recursions over lists, or have their measure (the
  neutralization of fences removes a marker each time, the searches of URLs move on in the text).
  A score is the rational value of its \<open>f64\<close>; \<open>Scores\<close> rounds each sum and quotient as the hardware does, and bounds the error.

  Assumptions. Each action of \<open>Inbox_Runs\<close> runs to its end before the next one starts, except deliveries, whose steps
  interleave freely in \<open>Inbox_Delivery\<close>; the code serializes registrations by a lock and guards every other write by a
  compare-and-swap, which \<open>Security_Exact\<close> states. A run of the distributor runs to its end likewise; a call that
  another interleaves with still finds at most one active assignment of a URL, by the unique index of the table. The
  requests for the history of files, at most eight at once in the code, are asked in their order.

  The invariants of the security store are those of a store that was never purged (\<open>Purge\<close>). The delay of a retry is added
  to an instant without the overflow on which \<open>chrono\<close> panics, beyond the year 262142.

  Not modelled, and why, part by part, in the manifest: chiefly processes and network clients (agents, git, issue
  sources, notifiers), HTTP routing, serialization, logging, the retention job that deletes old rows, the scoring
  heuristics in floating point, and the asynchronous loops that call the modelled operations.
\<close>

end
